(* ===== verification/Py_Prelude.thy ===== *)
theory Py_Prelude
  imports Complex_Main "HOL-Library.Word" "HOL-Library.AList"
begin

section \<open>Shared vocabulary: Python values, dictionaries and byte packing\<close>

text \<open>
  The types and generic lemmas that every component of the development shares.
  \<^item> A byte is an \<open>8 word\<close>, a Python \<open>bytes\<close> value a list of them.
  \<^item> A Python \<open>str\<close> is a \<open>string\<close> whose characters are the code points below 256.
  \<^item> A Python \<open>dict\<close> keeps insertion order: it is an association list with distinct
    keys, \<open>d[k] = v\<close> is \<open>AList.update\<close> (in place, or appended), \<open>del d[k]\<close> is
    \<open>AList.delete\<close> and \<open>d.get(k)\<close> is \<open>map_of\<close>.
  \<^item> Python's unbounded integers are \<open>int\<close>; clock readings (floats) are \<open>real\<close>.
  \<^item> \<open>struct.pack\<close> and \<open>struct.unpack\<close> in network order are \<open>be_pack\<close> and \<open>be_unpack\<close>.
\<close>

type_synonym byte = "8 word"
type_synonym bytes = "byte list"
type_synonym ('k, 'v) dict = "('k \<times> 'v) list"
type_synonym time = real

datatype py_error = ValueError | TypeError | RuntimeError | KeyError | OSError | FileExistsError

named_theorems dict_facts \<open>rules on dictionaries and sums over them\<close>

subsection \<open>Dictionaries\<close>

abbreviation dict_get :: "('k, 'v) dict \<Rightarrow> 'k \<Rightarrow> 'v option" where
  "dict_get d k \<equiv> map_of d k"

abbreviation dict_set :: "'k \<Rightarrow> 'v \<Rightarrow> ('k, 'v) dict \<Rightarrow> ('k, 'v) dict" where
  "dict_set \<equiv> AList.update"

abbreviation dict_del :: "'k \<Rightarrow> ('k, 'v) dict \<Rightarrow> ('k, 'v) dict" where
  "dict_del \<equiv> AList.delete"

abbreviation dict_ok :: "('k, 'v) dict \<Rightarrow> bool" where
  "dict_ok d \<equiv> distinct (map fst d)"

lemma dict_get_set [simp, dict_facts]: "dict_get (dict_set k v d) x = (if x = k then Some v else dict_get d x)"
  by (simp add: update_conv')

lemma dict_get_del [simp, dict_facts]: "dict_get (dict_del k d) x = (if x = k then None else dict_get d x)"
  by (simp add: delete_conv')

lemma dict_ok_set [simp, intro]: "dict_ok d \<Longrightarrow> dict_ok (dict_set k v d)"
  by (rule distinct_update)

lemma dict_ok_del [simp, intro]: "dict_ok d \<Longrightarrow> dict_ok (dict_del k d)"
  by (rule distinct_delete)

lemma dict_ok_filter [simp, intro]: "dict_ok d \<Longrightarrow> dict_ok (filter P d)"
  by (induction d) auto

lemma dict_get_filter:
  "dict_ok d \<Longrightarrow> dict_get (filter P d) k =
     (case dict_get d k of None \<Rightarrow> None | Some v \<Rightarrow> if P (k, v) then Some v else None)"
  by (induction d) (auto split: option.splits simp: map_of_eq_None_iff image_iff)

lemma dict_get_SomeD: "dict_get d k = Some v \<Longrightarrow> (k, v) \<in> set d"
  by (rule map_of_SomeD)

lemma dict_mem_get: "dict_ok d \<Longrightarrow> (k, v) \<in> set d \<Longrightarrow> dict_get d k = Some v"
  by (rule map_of_is_SomeI)

lemma dict_del_filter: "dict_del k d = filter (\<lambda>x. fst x \<noteq> k) d"
  by (induction d) auto

lemma filter_dict_set: "filter (\<lambda>x. fst x \<noteq> k) (dict_set k v d) = filter (\<lambda>x. fst x \<noteq> k) d"
  by (induction d) auto

lemma length_dict_set:
  "length (dict_set k v d) = (if k \<in> fst ` set d then length d else Suc (length d))"
  by (induction d) auto

lemma dict_set_new: "dict_get d k = None \<Longrightarrow> dict_set k v d = d @ [(k, v)]"
  by (induction d) (auto split: if_splits)

lemma length_dict_set_new: "dict_get d k = None \<Longrightarrow> length (dict_set k v d) = Suc (length d)"
  by (simp add: length_dict_set map_of_eq_None_iff)

lemma length_dict_set_old: "dict_get d k = Some w \<Longrightarrow> length (dict_set k v d) = length d"
  by (auto simp: length_dict_set dest!: map_of_SomeD intro: rev_image_eqI)

lemma length_dict_del_le: "length (dict_del k d) \<le> length d"
  by (simp add: AList.delete_eq)

lemma set_dict_set_subset: "set (dict_set k v d) \<subseteq> insert (k, v) (set d)"
  by (induction d) auto

lemma set_dict_del_subset: "set (dict_del k d) \<subseteq> set d"
  by (auto simp: AList.delete_eq)

lemma dict_all_values:
  assumes "dict_ok d"
  shows "(\<forall>(k, v) \<in> set d. P k v) \<longleftrightarrow> (\<forall>k v. dict_get d k = Some v \<longrightarrow> P k v)"
  using assms by (auto dest: dict_get_SomeD dict_mem_get)

subsection \<open>Sums over the values of a dictionary\<close>

definition dict_sum :: "('v \<Rightarrow> int) \<Rightarrow> ('k, 'v) dict \<Rightarrow> int" where
  "dict_sum f d = sum_list (map (\<lambda>kv. f (snd kv)) d)"

lemma dict_sum_Nil [simp]: "dict_sum f [] = 0"
  by (simp add: dict_sum_def)

lemma dict_sum_Cons [simp]: "dict_sum f (kv # d) = f (snd kv) + dict_sum f d"
  by (simp add: dict_sum_def)

lemma dict_sum_append [simp]: "dict_sum f (d @ e) = dict_sum f d + dict_sum f e"
  by (simp add: dict_sum_def)

lemma dict_sum_set [dict_facts]:
  "dict_ok d \<Longrightarrow> dict_sum f (dict_set k v d) =
     dict_sum f d + f v - (case dict_get d k of None \<Rightarrow> 0 | Some w \<Rightarrow> f w)"
  by (induction d) (auto split: option.splits)

lemma dict_sum_del [dict_facts]:
  "dict_ok d \<Longrightarrow> dict_sum f (dict_del k d) =
     dict_sum f d - (case dict_get d k of None \<Rightarrow> 0 | Some w \<Rightarrow> f w)"
proof (induction d)
  case (Cons kv d)
  show ?case
  proof (cases "fst kv = k")
    case True
    with Cons.prems have "dict_get d k = None" by (auto simp: map_of_eq_None_iff)
    with Cons True show ?thesis by (cases kv) simp
  next
    case False
    with Cons show ?thesis by (cases kv) (simp split: option.splits)
  qed
qed simp

lemma dict_sum_filter_zero [dict_facts]:
  "(\<And>kv. kv \<in> set d \<Longrightarrow> \<not> P kv \<Longrightarrow> f (snd kv) = 0) \<Longrightarrow> dict_sum f (filter P d) = dict_sum f d"
  by (induction d) auto

lemma dict_sum_nonneg: "(\<And>kv. kv \<in> set d \<Longrightarrow> 0 \<le> f (snd kv)) \<Longrightarrow> 0 \<le> dict_sum f d"
  by (induction d) (auto intro: add_nonneg_nonneg)

lemma dict_sum_ge_member:
  "(\<And>kv. kv \<in> set d \<Longrightarrow> 0 \<le> f (snd kv)) \<Longrightarrow> dict_get d k = Some v \<Longrightarrow> f v \<le> dict_sum f d"
proof (induction d)
  case (Cons kv d)
  obtain a b where kv: "kv = (a, b)" by fastforce
  have "0 \<le> dict_sum f d" using Cons.prems(1) by (intro dict_sum_nonneg) auto
  moreover have "0 \<le> f b" using Cons.prems(1)[of kv] kv by simp
  moreover have "f v \<le> dict_sum f d" if "dict_get d k = Some v" using Cons that by simp
  ultimately show ?case using Cons.prems(2) kv by (auto split: if_splits)
qed simp

subsection \<open>Network-order packing\<close>

text \<open>\<open>be_pack n v\<close> is \<open>struct.pack\<close> of one unsigned field of \<open>n\<close> bytes, most significant
  byte first, for \<open>v < 256 ^ n\<close>; \<open>be_unpack\<close> reads such a field back.\<close>

fun be_pack :: "nat \<Rightarrow> nat \<Rightarrow> bytes" where
  "be_pack 0 v = []"
| "be_pack (Suc n) v = be_pack n (v div 256) @ [word_of_nat (v mod 256)]"

definition be_unpack :: "bytes \<Rightarrow> nat" where
  "be_unpack bs = foldl (\<lambda>acc b. acc * 256 + unat b) 0 bs"

lemma length_be_pack [simp]: "length (be_pack n v) = n"
  by (induction n arbitrary: v) auto

lemma be_unpack_snoc: "be_unpack (bs @ [b]) = be_unpack bs * 256 + unat b"
  by (simp add: be_unpack_def)

lemma be_unpack_pack [simp]: "v < 256 ^ n \<Longrightarrow> be_unpack (be_pack n v) = v"
proof (induction n arbitrary: v)
  case 0
  then show ?case by (simp add: be_unpack_def)
next
  case (Suc n)
  from Suc.prems have "v div 256 < 256 ^ n"
    by (simp add: less_mult_imp_div_less mult.commute)
  then have "be_unpack (be_pack n (v div 256)) = v div 256" by (rule Suc.IH)
  moreover have "unat (word_of_nat (v mod 256) :: byte) = v mod 256"
    by (simp add: unat_of_nat)
  ultimately show ?case by (simp add: be_unpack_snoc)
qed

lemma be_pack_inject: "v < 256 ^ n \<Longrightarrow> w < 256 ^ n \<Longrightarrow> be_pack n v = be_pack n w \<longleftrightarrow> v = w"
  by (metis be_unpack_pack)

lemma be_unpack_bound: "be_unpack bs < 256 ^ length bs"
proof (induction bs rule: rev_induct)
  case Nil
  then show ?case by (simp add: be_unpack_def)
next
  case (snoc b bs)
  have "unat b < 256" using unsigned_less[of b] by simp
  with snoc have "be_unpack bs * 256 + unat b < (be_unpack bs + 1) * 256" by simp
  also have "\<dots> \<le> 256 ^ length bs * 256" using snoc by (intro mult_right_mono) auto
  finally show ?case by (simp add: be_unpack_snoc mult.commute)
qed

subsection \<open>Searching lists\<close>

lemma find_SomeD: "find P xs = Some x \<Longrightarrow> x \<in> set xs \<and> P x"
  by (induction xs) (auto split: if_splits)

subsection \<open>Results\<close>

text \<open>A computation that may fail, followed by another.\<close>

definition and_then :: "'e + 'a \<Rightarrow> ('a \<Rightarrow> 'e + 'b) \<Rightarrow> 'e + 'b" where
  "and_then x f = (case x of Inl e \<Rightarrow> Inl e | Inr a \<Rightarrow> f a)"

lemma and_then_simps [simp]: "and_then (Inl e) f = Inl e" "and_then (Inr a) f = f a"
  by (simp_all add: and_then_def)

lemma and_then_Inr: "and_then x f = Inr y \<longleftrightarrow> (\<exists>a. x = Inr a \<and> f a = Inr y)"
  by (cases x) auto

lemma map_sum_Inr: "map_sum id f x = Inr y \<longleftrightarrow> (\<exists>z. x = Inr z \<and> y = f z)"
  by (cases x) auto

end
