(* ===== verification/Capacity.thy ===== *)
theory Capacity
  imports Py_Prelude
begin

section \<open>Capacity pools and one-shot leases\<close>

text \<open>
  The bounded pools of the runtime: \<open>CapacityGate\<close> with its \<open>AdmissionLease\<close>
  (\<^verbatim>\<open>xferry/lifecycle.py\<close>) and \<open>BodyMemoryBudget\<close> with its \<open>BodyMemoryReservation\<close>
  (\<^verbatim>\<open>xferry/http/io.py\<close>). Both hand out a handle whose release sets a flag under the
  handle's own lock and only then, outside that lock, returns the amount to the pool
  under the pool's lock; the two critical sections are two steps here, so that any
  other thread may run between them. The contract that both pools offer is the locale
  \<open>resource_pool\<close>, and the accounting of the outstanding handles is proved once in it.
\<close>

subsection \<open>Handles\<close>

text \<open>\<open>Held\<close>: not released. \<open>Releasing\<close>: the flag is set, the pool not yet told.
  \<open>Released\<close>: the pool has been told.\<close>

datatype lease_phase = Held | Releasing | Released

text \<open>The flag section of \<open>release()\<close>: the new phase, and whether this call is the one
  that performs the release (its return value).\<close>

definition lease_mark :: "lease_phase \<Rightarrow> lease_phase \<times> bool" where
  "lease_mark ph = (case ph of Held \<Rightarrow> (Releasing, True) | _ \<Rightarrow> (ph, False))"

text \<open>A ledger lists every handle ever issued, by issue number, with its amount.\<close>

type_synonym 'a ledger = "('a \<times> lease_phase) list"

definition outstanding :: "('a \<Rightarrow> int) \<Rightarrow> 'a ledger \<Rightarrow> int" where
  "outstanding cost ls = sum_list (map (\<lambda>(a, ph). if ph = Released then 0 else cost a) ls)"

definition mark_nth :: "nat \<Rightarrow> 'a ledger \<Rightarrow> 'a ledger" where
  "mark_nth i ls = (if i < length ls then ls[i := (fst (ls ! i), fst (lease_mark (snd (ls ! i))))] else ls)"

definition settle_nth :: "nat \<Rightarrow> 'a ledger \<Rightarrow> 'a ledger" where
  "settle_nth i ls = ls[i := (fst (ls ! i), Released)]"

definition settling :: "nat \<Rightarrow> 'a ledger \<Rightarrow> bool" where
  "settling i ls \<longleftrightarrow> i < length ls \<and> snd (ls ! i) = Releasing"

lemma outstanding_Nil [simp]: "outstanding cost [] = 0"
  by (simp add: outstanding_def)

lemma outstanding_snoc [simp]: "outstanding cost (ls @ [(a, Held)]) = outstanding cost ls + cost a"
  by (simp add: outstanding_def)

lemma outstanding_update:
  "i < length ls \<Longrightarrow> outstanding cost (ls[i := (a, ph)]) =
     outstanding cost ls + (if ph = Released then 0 else cost a)
       - (if snd (ls ! i) = Released then 0 else cost (fst (ls ! i)))"
  by (induction ls arbitrary: i)
    (auto simp: outstanding_def nth_Cons' gr0_conv_Suc split: prod.splits nat.splits)

lemma outstanding_mark [simp]: "outstanding cost (mark_nth i ls) = outstanding cost ls"
  by (auto simp: mark_nth_def outstanding_update lease_mark_def split: lease_phase.splits)

lemma outstanding_settle:
  "settling i ls \<Longrightarrow> outstanding cost (settle_nth i ls) = outstanding cost ls - cost (fst (ls ! i))"
  by (simp add: settling_def settle_nth_def outstanding_update)

lemma outstanding_nonneg: "(\<And>a. a \<in> fst ` set ls \<Longrightarrow> 0 \<le> cost a) \<Longrightarrow> 0 \<le> outstanding cost ls"
  by (induction ls) (auto simp: outstanding_def)

lemma outstanding_ge_member:
  "(\<And>a. a \<in> fst ` set ls \<Longrightarrow> 0 \<le> cost a) \<Longrightarrow> i < length ls \<Longrightarrow> snd (ls ! i) \<noteq> Released \<Longrightarrow>
     cost (fst (ls ! i)) \<le> outstanding cost ls"
proof (induction ls arbitrary: i)
  case (Cons x ls)
  have nn: "0 \<le> outstanding cost ls" using Cons.prems(1) by (intro outstanding_nonneg) auto
  have x: "0 \<le> cost (fst x)" using Cons.prems(1)[of "fst x"] by simp
  have step: "outstanding cost (x # ls) =
      (if snd x = Released then 0 else cost (fst x)) + outstanding cost ls"
    by (simp add: outstanding_def split: prod.splits)
  show ?case
  proof (cases i)
    case 0
    with Cons.prems(3) nn step show ?thesis by simp
  next
    case (Suc j)
    with Cons have "cost (fst (ls ! j)) \<le> outstanding cost ls" by simp
    with Suc x step show ?thesis by simp
  qed
qed simp

lemma fst_set_mark [simp]: "fst ` set (mark_nth i ls) = fst ` set ls"
proof (cases "i < length ls")
  case True
  then have "map fst (mark_nth i ls) = map fst ls"
    by (simp add: mark_nth_def map_update list_update_same_conv[THEN iffD2])
  then show ?thesis by (metis set_map)
qed (simp add: mark_nth_def)

lemma fst_set_settle: "i < length ls \<Longrightarrow> fst ` set (settle_nth i ls) = fst ` set ls"
proof -
  assume "i < length ls"
  then have "map fst (settle_nth i ls) = map fst ls"
    by (simp add: settle_nth_def map_update list_update_same_conv[THEN iffD2])
  then show ?thesis by (metis set_map)
qed

text \<open>The pool's books balance: what is in use is exactly what the unreleased handles hold.\<close>

definition accounted ::
  "('p \<Rightarrow> int) \<Rightarrow> ('p \<Rightarrow> int) \<Rightarrow> ('a \<Rightarrow> int) \<Rightarrow> ('a \<Rightarrow> bool) \<Rightarrow> 'p \<Rightarrow> 'a ledger \<Rightarrow> bool" where
  "accounted used cap cost ok p ls \<longleftrightarrow>
     used p = outstanding cost ls \<and> used p \<le> cap p \<and> (\<forall>a \<in> fst ` set ls. ok a)"

subsection \<open>The contract of a pool\<close>

locale resource_pool =
  fixes used :: "'p \<Rightarrow> int"
    and cap :: "'p \<Rightarrow> int"
    and cost :: "'a \<Rightarrow> int"
    and ok :: "'a \<Rightarrow> bool"
    and take_from :: "'p \<Rightarrow> 'a \<Rightarrow> 'p \<times> bool"
    and give_back :: "'p \<Rightarrow> 'a \<Rightarrow> 'p"
  assumes cost_pos: "ok a \<Longrightarrow> 0 < cost a"
    and take_ok: "ok a \<Longrightarrow> take_from p a = (q, True) \<Longrightarrow> used q = used p + cost a \<and> used q \<le> cap q \<and> cap q = cap p"
    and take_refused: "take_from p a = (q, False) \<Longrightarrow> used q = used p \<and> cap q = cap p"
    and give_used: "ok a \<Longrightarrow> cost a \<le> used p \<Longrightarrow> used (give_back p a) = used p - cost a"
    and give_cap: "cap (give_back p a) = cap p"
begin

lemma take_accounted:
  assumes "accounted used cap cost ok p ls" "ok a" "take_from p a = (q, True)"
  shows "accounted used cap cost ok q (ls @ [(a, Held)])"
  using assms take_ok[OF assms(2,3)] by (auto simp: accounted_def)

lemma refused_accounted:
  assumes "accounted used cap cost ok p ls" "take_from p a = (q, False)"
  shows "accounted used cap cost ok q ls"
  using assms take_refused[OF assms(2)] by (auto simp: accounted_def)

lemma mark_accounted:
  "accounted used cap cost ok p ls \<Longrightarrow> accounted used cap cost ok p (mark_nth i ls)"
  by (auto simp: accounted_def)

lemma settle_accounted:
  assumes acc: "accounted used cap cost ok p ls" and i: "settling i ls"
  shows "accounted used cap cost ok (give_back p (fst (ls ! i))) (settle_nth i ls)"
proof -
  have len: "i < length ls" and ph: "snd (ls ! i) \<noteq> Released"
    using i by (auto simp: settling_def)
  have oks: "\<forall>a \<in> fst ` set ls. ok a" using acc by (simp add: accounted_def)
  then have "ok (fst (ls ! i))" using len by auto
  moreover have "cost (fst (ls ! i)) \<le> used p"
    using acc oks len ph outstanding_ge_member[of ls cost i] cost_pos
    by (fastforce simp: accounted_def intro: less_imp_le)
  ultimately have "used (give_back p (fst (ls ! i))) = used p - cost (fst (ls ! i))"
    by (rule give_used)
  moreover have "0 < cost (fst (ls ! i))" using cost_pos \<open>ok (fst (ls ! i))\<close> .
  ultimately show ?thesis
    using acc oks i by (auto simp: accounted_def outstanding_settle give_cap fst_set_settle[OF len])
qed

lemma accounted_bounds: "accounted used cap cost ok p ls \<Longrightarrow> 0 \<le> used p \<and> used p \<le> cap p"
  by (auto simp: accounted_def intro!: outstanding_nonneg less_imp_le[OF cost_pos])

end

subsection \<open>CapacityGate\<close>

record gate =
  g_limit :: int
  g_active :: int
  g_peak :: int
  g_waiting :: int
  g_rejected :: int
  g_closed :: bool

definition gate_init :: "int \<Rightarrow> gate" where
  "gate_init limit = \<lparr>g_limit = limit, g_active = 0, g_peak = 0, g_waiting = 0,
     g_rejected = 0, g_closed = False\<rparr>"

text \<open>The end of \<open>acquire\<close>, once its loop is left: a slot, or a counted rejection.\<close>

definition gate_decide :: "gate \<Rightarrow> gate \<times> bool" where
  "gate_decide g =
     (if g_closed g \<or> g_limit g \<le> g_active g then (g\<lparr>g_rejected := g_rejected g + 1\<rparr>, False)
      else (g\<lparr>g_active := g_active g + 1, g_peak := max (g_peak g) (g_active g + 1)\<rparr>, True))"

text \<open>One pass through the loop head of \<open>acquire\<close> with \<open>remaining\<close> seconds left: \<open>None\<close>
  waits on the condition, \<open>Some b\<close> returns (a lease when \<open>b\<close>) and leaves the waiting count.\<close>

definition gate_poll :: "time \<Rightarrow> gate \<Rightarrow> gate \<times> bool option" where
  "gate_poll remaining g =
     (if g_limit g \<le> g_active g \<and> \<not> g_closed g \<and> 0 < remaining then (g, None)
      else (let (g', b) = gate_decide g in (g'\<lparr>g_waiting := g_waiting g' - 1\<rparr>, Some b)))"

definition gate_enter :: "gate \<Rightarrow> gate" where
  "gate_enter g = g\<lparr>g_waiting := g_waiting g + 1\<rparr>"

definition gate_release :: "gate \<Rightarrow> gate" where
  "gate_release g = g\<lparr>g_active := g_active g - 1\<rparr>"

definition gate_close :: "gate \<Rightarrow> gate" where
  "gate_close g = g\<lparr>g_closed := True\<rparr>"

definition gate_snapshot :: "gate \<Rightarrow> (string \<times> int) list" where
  "gate_snapshot g = [(''limit'', g_limit g), (''active'', g_active g), (''waiting'', g_waiting g),
     (''peak'', g_peak g), (''rejected'', g_rejected g)]"

interpretation gate: resource_pool g_active g_limit "\<lambda>_::unit. 1" "\<lambda>_. True"
    "\<lambda>g _. gate_decide g" "\<lambda>g _. gate_release g"
  by unfold_locales (auto simp: gate_decide_def gate_release_def split: if_splits)

text \<open>A gate with the threads blocked in \<open>acquire\<close> (and their deadlines) and the leases
  it has issued. Every event is one critical section, so an event list is an interleaving.
  \<open>Acquire t now timeout now'\<close> is the first pass of a call by thread \<open>t\<close>, \<open>Wake t now\<close> a
  later pass (notified, timed out or spurious), \<open>MarkLease\<close> and \<open>FreeSlot\<close> the two halves of
  a lease's \<open>release\<close>.\<close>

record gate_sys =
  gs_gate :: gate
  gs_waiters :: "(nat, time) dict"
  gs_leases :: "unit ledger"

datatype gate_event =
    Acquire nat time time time
  | Wake nat time
  | MarkLease nat
  | FreeSlot nat
  | CloseGate

definition gate_sys_init :: "int \<Rightarrow> gate_sys" where
  "gate_sys_init limit = \<lparr>gs_gate = gate_init limit, gs_waiters = [], gs_leases = []\<rparr>"

definition gate_resume :: "nat \<Rightarrow> time \<Rightarrow> time \<Rightarrow> gate_sys \<Rightarrow> gate_sys" where
  "gate_resume t deadline now s =
     (case gate_poll (deadline - now) (gs_gate s) of
        (g, None) \<Rightarrow> s\<lparr>gs_gate := g, gs_waiters := dict_set t deadline (gs_waiters s)\<rparr>
      | (g, Some True) \<Rightarrow> s\<lparr>gs_gate := g, gs_waiters := dict_del t (gs_waiters s),
                             gs_leases := gs_leases s @ [((), Held)]\<rparr>
      | (g, Some False) \<Rightarrow> s\<lparr>gs_gate := g, gs_waiters := dict_del t (gs_waiters s)\<rparr>)"

fun gate_step :: "gate_sys \<Rightarrow> gate_event \<Rightarrow> gate_sys" where
  "gate_step s (Acquire t now timeout now') =
     (if dict_get (gs_waiters s) t \<noteq> None then s
      else gate_resume t (now + timeout) now'
             (s\<lparr>gs_gate := gate_enter (gs_gate s),
                gs_waiters := dict_set t (now + timeout) (gs_waiters s)\<rparr>))"
| "gate_step s (Wake t now) =
     (case dict_get (gs_waiters s) t of None \<Rightarrow> s | Some deadline \<Rightarrow> gate_resume t deadline now s)"
| "gate_step s (MarkLease i) = s\<lparr>gs_leases := mark_nth i (gs_leases s)\<rparr>"
| "gate_step s (FreeSlot i) =
     (if settling i (gs_leases s)
      then s\<lparr>gs_gate := gate_release (gs_gate s), gs_leases := settle_nth i (gs_leases s)\<rparr> else s)"
| "gate_step s CloseGate = s\<lparr>gs_gate := gate_close (gs_gate s)\<rparr>"

definition gate_run :: "gate_sys \<Rightarrow> gate_event list \<Rightarrow> gate_sys" where
  "gate_run = foldl gate_step"

definition gate_inv :: "int \<Rightarrow> gate_sys \<Rightarrow> bool" where
  "gate_inv limit s \<longleftrightarrow>
     accounted g_active g_limit (\<lambda>_::unit. 1) (\<lambda>_. True) (gs_gate s) (gs_leases s) \<and>
     g_limit (gs_gate s) = limit \<and> dict_ok (gs_waiters s) \<and>
     g_waiting (gs_gate s) = int (length (gs_waiters s)) \<and>
     g_active (gs_gate s) \<le> g_peak (gs_gate s) \<and> g_peak (gs_gate s) \<le> limit"

lemma gate_inv_init: "0 \<le> limit \<Longrightarrow> gate_inv limit (gate_sys_init limit)"
  by (simp add: gate_inv_def gate_sys_init_def gate_init_def accounted_def)

lemma length_dict_del: "dict_ok d \<Longrightarrow> dict_get d k = Some v \<Longrightarrow> Suc (length (dict_del k d)) = length d"
proof (induction d)
  case (Cons x d)
  then show ?case
    by (cases x) (auto simp: delete_idem map_of_eq_None_iff)
qed simp

lemma gate_inv_resume:
  assumes inv: "gate_inv limit s" and t: "dict_get (gs_waiters s) t = Some d0"
  shows "gate_inv limit (gate_resume t d now s)"
proof -
  let ?g = "gs_gate s"
  note acc = inv[unfolded gate_inv_def]
  have del: "int (length (dict_del t (gs_waiters s))) = int (length (gs_waiters s)) - 1"
    using length_dict_del[OF _ t] acc by auto
  have keep: "length (dict_set t d (gs_waiters s)) = length (gs_waiters s)"
    using t by (rule length_dict_set_old)
  obtain h b where h: "gate_decide ?g = (h, b)" by fastforce
  have lim: "g_limit h = limit" "g_waiting h = g_waiting ?g" "g_active h \<le> g_peak h" "g_peak h \<le> limit"
    using acc h by (auto simp: gate_decide_def split: if_splits)
  show ?thesis
  proof (cases "gate_poll (d - now) ?g")
    case (Pair g r)
    show ?thesis
    proof (cases r)
      case None
      then have "g = ?g" using Pair by (auto simp: gate_poll_def split: if_splits prod.splits)
      then show ?thesis using acc Pair None keep by (simp add: gate_resume_def gate_inv_def)
    next
      case (Some r')
      then have g: "g = h\<lparr>g_waiting := g_waiting h - 1\<rparr>" "r' = b"
        using Pair h by (auto simp: gate_poll_def Let_def split: if_splits prod.splits)
      have "accounted g_active g_limit (\<lambda>_::unit. 1) (\<lambda>_. True) h
              (if b then gs_leases s @ [((), Held)] else gs_leases s)"
        using gate.take_accounted[where p = ?g and ls = "gs_leases s" and a = "()" and q = h]
          gate.refused_accounted[where p = ?g and ls = "gs_leases s" and q = h]
          acc h by (cases b) auto
      then show ?thesis
        using acc Pair Some g lim del by (cases b) (auto simp: gate_resume_def gate_inv_def accounted_def)
    qed
  qed
qed

lemma gate_inv_step: "gate_inv limit s \<Longrightarrow> gate_inv limit (gate_step s e)"
proof (cases e)
  case (Acquire t now timeout now')
  assume inv: "gate_inv limit s"
  show ?thesis
  proof (cases "dict_get (gs_waiters s) t")
    case None
    let ?s = "s\<lparr>gs_gate := gate_enter (gs_gate s), gs_waiters := dict_set t (now + timeout) (gs_waiters s)\<rparr>"
    have "gate_inv limit ?s"
      using inv None by (auto simp: gate_inv_def gate_enter_def accounted_def length_dict_set_new)
    then have "gate_inv limit (gate_resume t (now + timeout) now' ?s)"
      by (rule gate_inv_resume) simp
    then show ?thesis using Acquire None by simp
  qed (use Acquire inv in simp)
next
  case (Wake t now)
  assume "gate_inv limit s"
  then show ?thesis using Wake by (auto split: option.splits intro: gate_inv_resume)
next
  case (MarkLease i)
  assume "gate_inv limit s"
  then show ?thesis using MarkLease gate.mark_accounted[of "gs_gate s" "gs_leases s" i]
    by (auto simp: gate_inv_def)
next
  case (FreeSlot i)
  assume "gate_inv limit s"
  then show ?thesis using FreeSlot gate.settle_accounted[of "gs_gate s" "gs_leases s" i]
    by (auto simp: gate_inv_def gate_release_def)
next
  case CloseGate
  assume "gate_inv limit s"
  then show ?thesis using CloseGate by (auto simp: gate_inv_def gate_close_def accounted_def)
qed

lemma gate_inv_run: "gate_inv limit s \<Longrightarrow> gate_inv limit (gate_run s es)"
  by (induction es arbitrary: s) (auto simp: gate_run_def intro: gate_inv_step)

text \<open>C1. Whatever the interleaving of acquirers, wake-ups, lease releases (any lease, any
  number of times, each release split into its flag and its slot) and a shutdown, a capacity
  gate never runs more holders than its limit, its active count is exactly the number of leases
  not yet given back, its waiting count is the number of blocked threads, and the recorded peak
  lies between the active count and the limit.\<close>
theorem gate_never_oversubscribed:
  assumes "0 \<le> limit"
  shows "let s = gate_run (gate_sys_init limit) es; g = gs_gate s in
     0 \<le> g_active g \<and> g_active g \<le> limit \<and>
     g_active g = int (length (filter (\<lambda>l. snd l \<noteq> Released) (gs_leases s))) \<and>
     g_waiting g = int (length (gs_waiters s)) \<and>
     g_active g \<le> g_peak g \<and> g_peak g \<le> limit"
proof -
  have inv: "gate_inv limit (gate_run (gate_sys_init limit) es)"
    using assms by (intro gate_inv_run gate_inv_init)
  have count: "outstanding (\<lambda>_. 1) ls = int (length (filter (\<lambda>l. snd l \<noteq> Released) ls))"
    for ls :: "unit ledger"
    by (induction ls) (auto simp: outstanding_def)
  show ?thesis
    using inv gate.accounted_bounds by (fastforce simp: gate_inv_def Let_def accounted_def count)
qed

lemma gate_never_oversubscribed_witness:
  "let s = gate_run (gate_sys_init 1)
         [Acquire 1 0 5 0, Acquire 2 1 5 1, MarkLease 0, MarkLease 0, FreeSlot 0, FreeSlot 0, Wake 2 2]
   in g_active (gs_gate s) = 1 \<and> gs_waiters s = [] \<and> g_active (gs_gate s) \<le> 1"
  using gate_never_oversubscribed[of 1
      "[Acquire 1 0 5 0, Acquire 2 1 5 1, MarkLease 0, MarkLease 0, FreeSlot 0, FreeSlot 0, Wake 2 2]"]
  by (simp add: Let_def gate_run_def gate_sys_init_def gate_init_def gate_resume_def gate_poll_def
      gate_decide_def gate_enter_def gate_release_def mark_nth_def settle_nth_def settling_def lease_mark_def)

text \<open>Shutdown drains a gate: once it is closed it issues no further lease, whatever happens
  next, and the next wake-up of any blocked acquirer returns (rejected) instead of waiting again,
  however much of its timeout is left.\<close>
theorem closed_gate_drains:
  assumes "g_closed (gs_gate s)"
  shows "length (gs_leases (gate_run s es)) = length (gs_leases s) \<and>
    (\<forall>(t, deadline) \<in> set (gs_waiters s). dict_get (gs_waiters (gate_step s (Wake t now))) t = None \<and>
       g_rejected (gs_gate (gate_step s (Wake t now))) = g_rejected (gs_gate s) + 1)"
proof
  have poll: "gate_poll r g = (g\<lparr>g_rejected := g_rejected g + 1, g_waiting := g_waiting g - 1\<rparr>, Some False)"
    if "g_closed g" for r g
    using that by (simp add: gate_poll_def gate_decide_def)
  have step: "g_closed (gs_gate (gate_step u e)) \<and> length (gs_leases (gate_step u e)) = length (gs_leases u)"
    if "g_closed (gs_gate u)" for u e
    using that by (cases e) (auto simp: gate_resume_def poll gate_enter_def gate_release_def
        gate_close_def mark_nth_def settle_nth_def split: option.splits)
  show "length (gs_leases (gate_run s es)) = length (gs_leases s)"
    using assms by (induction es arbitrary: s) (auto simp: gate_run_def step)
  have "\<exists>d. dict_get (gs_waiters s) t = Some d" if "(t, deadline) \<in> set (gs_waiters s)" for t deadline
    using that by (metis weak_map_of_SomeI)
  then show "\<forall>(t, deadline) \<in> set (gs_waiters s). dict_get (gs_waiters (gate_step s (Wake t now))) t = None \<and>
       g_rejected (gs_gate (gate_step s (Wake t now))) = g_rejected (gs_gate s) + 1"
    using assms by (fastforce simp: gate_resume_def poll)
qed

lemma closed_gate_drains_witness:
  "let s = gate_run (gate_sys_init 1) [Acquire 1 0 5 0, Acquire 2 1 9 1, CloseGate] in
   gs_waiters s = [(2, 10)] \<and> dict_get (gs_waiters (gate_step s (Wake 2 2))) 2 = None \<and>
   length (gs_leases (gate_run s [Wake 2 2, Acquire 3 3 5 3])) = 1"
proof -
  let ?s = "gate_run (gate_sys_init 1) [Acquire 1 0 5 0, Acquire 2 1 9 1, CloseGate]"
  have s: "g_closed (gs_gate ?s)" "gs_waiters ?s = [(2, 10)]" "length (gs_leases ?s) = 1"
    by (simp_all add: gate_run_def gate_sys_init_def gate_init_def gate_resume_def gate_poll_def
        gate_decide_def gate_enter_def gate_close_def)
  show ?thesis
    using closed_gate_drains[OF s(1), of "[Wake 2 2, Acquire 3 3 5 3]" 2] s by (simp add: Let_def)
qed

subsection \<open>BodyMemoryBudget\<close>

record budget =
  b_max :: int
  b_current :: int
  b_peak :: int
  b_rejected :: int

definition budget_init :: "int \<Rightarrow> py_error + budget" where
  "budget_init max_bytes =
     (if max_bytes \<le> 0 then Inl ValueError
      else Inr \<lparr>b_max = max_bytes, b_current = 0, b_peak = 0, b_rejected = 0\<rparr>)"

text \<open>\<open>try_reserve\<close>: the budget afterwards and the amount of the reservation, if one was made.\<close>

definition try_reserve :: "budget \<Rightarrow> int \<Rightarrow> py_error + (budget \<times> int option)" where
  "try_reserve b n =
     (if n < 0 then Inl ValueError
      else if n = 0 then Inr (b, None)
      else if b_max b < b_current b + n then Inr (b\<lparr>b_rejected := b_rejected b + 1\<rparr>, None)
      else Inr (b\<lparr>b_current := b_current b + n, b_peak := max (b_peak b) (b_current b + n)\<rparr>, Some n))"

definition budget_release :: "budget \<Rightarrow> int \<Rightarrow> budget" where
  "budget_release b n = b\<lparr>b_current := max 0 (b_current b - n)\<rparr>"

definition budget_snapshot :: "budget \<Rightarrow> (string \<times> int) list" where
  "budget_snapshot b = [(''max_bytes'', b_max b), (''current_bytes'', b_current b),
     (''peak_bytes'', b_peak b), (''rejected'', b_rejected b)]"

definition budget_take :: "budget \<Rightarrow> int \<Rightarrow> budget \<times> bool" where
  "budget_take b n = (case try_reserve b n of Inl _ \<Rightarrow> (b, False) | Inr (b', r) \<Rightarrow> (b', r \<noteq> None))"

interpretation body: resource_pool b_current b_max "\<lambda>n. n" "\<lambda>n. 0 < n" budget_take budget_release
  by unfold_locales (auto simp: budget_take_def try_reserve_def budget_release_def split: if_splits)

text \<open>A budget with every reservation it has made; \<open>Reserve n\<close> is a call of \<open>try_reserve\<close>.\<close>

datatype budget_event = Reserve int | MarkReservation nat | FreeBytes nat

fun budget_step :: "budget \<times> int ledger \<Rightarrow> budget_event \<Rightarrow> budget \<times> int ledger" where
  "budget_step (b, ls) (Reserve n) =
     (case try_reserve b n of
        Inl _ \<Rightarrow> (b, ls)
      | Inr (b', Some m) \<Rightarrow> (b', ls @ [(m, Held)])
      | Inr (b', None) \<Rightarrow> (b', ls))"
| "budget_step (b, ls) (MarkReservation i) = (b, mark_nth i ls)"
| "budget_step (b, ls) (FreeBytes i) =
     (if settling i ls then (budget_release b (fst (ls ! i)), settle_nth i ls) else (b, ls))"

definition budget_run :: "budget \<times> int ledger \<Rightarrow> budget_event list \<Rightarrow> budget \<times> int ledger" where
  "budget_run = foldl budget_step"

definition budget_inv :: "int \<Rightarrow> budget \<times> int ledger \<Rightarrow> bool" where
  "budget_inv m s \<longleftrightarrow>
     accounted b_current b_max (\<lambda>n. n) (\<lambda>n. 0 < n) (fst s) (snd s) \<and> b_max (fst s) = m \<and>
     b_current (fst s) \<le> b_peak (fst s) \<and> b_peak (fst s) \<le> m"

lemma budget_inv_step: "budget_inv m s \<Longrightarrow> budget_inv m (budget_step s e)"
proof (cases s, cases e)
  fix b ls n
  assume "budget_inv m s" and s: "s = (b, ls)" and e: "e = Reserve n"
  then show ?thesis
    using body.take_accounted[of b ls n "fst (budget_take b n)"] body.refused_accounted[of b ls n "fst (budget_take b n)"]
    by (auto simp: budget_inv_def budget_take_def try_reserve_def split: if_splits)
next
  fix b ls i
  assume "budget_inv m s" and s: "s = (b, ls)" and e: "e = MarkReservation i"
  then show ?thesis using body.mark_accounted[of b ls i] by (auto simp: budget_inv_def)
next
  fix b ls i
  assume inv: "budget_inv m s" and s: "s = (b, ls)" and e: "e = FreeBytes i"
  show ?thesis
  proof (cases "settling i ls")
    case True
    have acc: "accounted b_current b_max (\<lambda>n. n) (\<lambda>n. 0 < n) (budget_release b (fst (ls ! i))) (settle_nth i ls)"
      using body.settle_accounted[OF _ True] inv s by (auto simp: budget_inv_def)
    moreover have "0 < fst (ls ! i)" "0 \<le> b_current b"
      using inv s True body.accounted_bounds[of b ls]
      by (auto simp: budget_inv_def accounted_def settling_def)
    ultimately show ?thesis
      using inv s e True by (auto simp: budget_inv_def budget_release_def)
  qed (use inv s e in auto)
qed

lemma budget_inv_run: "budget_inv m s \<Longrightarrow> budget_inv m (budget_run s es)"
  unfolding budget_run_def by (induction es arbitrary: s) (simp_all add: budget_inv_step)

text \<open>The process-wide body budget is exact: after any sequence of reservations and
  (possibly repeated, possibly half-finished) releases, the bytes accounted as in use are the sum
  of the reservations not yet returned, they never exceed the configured maximum, no admitted
  reservation is for a non-positive amount, and the \<open>max(0, ...)\<close> clamp in the release of a
  reservation that is being returned never has any effect.\<close>
theorem body_budget_exact:
  assumes "budget_init m = Inr b0"
  shows "let (b, ls) = budget_run (b0, []) es in
     b_current b = outstanding (\<lambda>n. n) ls \<and> 0 \<le> b_current b \<and> b_current b \<le> m \<and>
     (\<forall>l \<in> set ls. 0 < fst l) \<and> b_peak b \<le> m \<and>
     (\<forall>i. settling i ls \<longrightarrow> b_current (budget_release b (fst (ls ! i))) = b_current b - fst (ls ! i))"
proof -
  obtain b ls where run: "budget_run (b0, []) es = (b, ls)" by fastforce
  have "budget_inv m (b0, [])"
    using assms by (auto simp: budget_init_def budget_inv_def accounted_def split: if_splits)
  then have inv: "budget_inv m (b, ls)" using budget_inv_run run by metis
  have "b_current (budget_release b (fst (ls ! i))) = b_current b - fst (ls ! i)" if i: "settling i ls" for i
    using body.settle_accounted[OF _ i, of b] inv i
    by (auto simp: budget_inv_def accounted_def outstanding_settle)
  then show ?thesis
    using inv run body.accounted_bounds[of b ls] by (auto simp: budget_inv_def accounted_def)
qed

lemma body_budget_exact_witness:
  "budget_init 100 = Inr \<lparr>b_max = 100, b_current = 0, b_peak = 0, b_rejected = 0\<rparr> \<and>
   (let (b, ls) = budget_run (\<lparr>b_max = 100, b_current = 0, b_peak = 0, b_rejected = 0\<rparr>, [])
        [Reserve 60, Reserve 50, Reserve 40, MarkReservation 0, FreeBytes 0, MarkReservation 0, FreeBytes 0]
    in b_current b = 40 \<and> b_rejected b = 1 \<and> b_current b \<le> 100)"
proof -
  have init: "budget_init 100 = Inr \<lparr>b_max = 100, b_current = 0, b_peak = 0, b_rejected = 0\<rparr>"
    by (simp add: budget_init_def)
  show ?thesis
    using body_budget_exact[OF init, of "[Reserve 60, Reserve 50, Reserve 40, MarkReservation 0,
        FreeBytes 0, MarkReservation 0, FreeBytes 0]"] init
    by (simp add: budget_run_def try_reserve_def budget_release_def mark_nth_def settle_nth_def
        settling_def lease_mark_def)
qed

end
