(* ===== verification/Auth_Admission.thy ===== *)
theory Auth_Admission
  imports Py_Prelude "HOL-Library.Sublist"
begin

section \<open>Bounded admission of password verifications\<close>

text \<open>
  \<open>AuthAdmissionController\<close> of \<^verbatim>\<open>xferry/security/auth.py\<close>: at most \<open>max_active\<close>
  verifications run at once, at most \<open>max_pending\<close> are running or queued, and a peer that
  fails \<open>max_failures\<close> times is locked out for \<open>cooldown\<close> seconds. Every method runs under one
  condition variable, so a run is a list of lock-protected sections (\<open>auth_event\<close>); a thread
  blocked in \<open>acquire\<close> is its waiter object, identified by the number of its call, and the
  \<open>granted\<close>/\<open>denied\<close> fields that other threads write to it are the verdicts. The two clocks of
  the code (the injected \<open>clock\<close> and \<open>time.monotonic\<close>) are separate readings in \<open>clocks\<close>.
\<close>

text \<open>The clock readings of one critical section: \<open>ck_now\<close> of the injected clock, \<open>ck_mono\<close> of
  \<open>time.monotonic\<close>, and \<open>ck_scan w\<close> the reading of \<open>time.monotonic\<close> that
  \<open>_promote_waiters_locked\<close> takes when it looks at the waiter of call \<open>w\<close>.\<close>

record clocks =
  ck_now :: time
  ck_mono :: time
  ck_scan :: "nat \<Rightarrow> time"

record auth_config =
  ac_max_failures :: int
  ac_cooldown :: time
  ac_max_peers :: int
  ac_prune_interval :: time
  ac_wait_timeout :: time
  ac_max_pending :: int
  ac_max_active :: int
  ac_per_peer_pending :: int

definition auth_config_make ::
  "int \<Rightarrow> time \<Rightarrow> int \<Rightarrow> time \<Rightarrow> time \<Rightarrow> int \<Rightarrow> int \<Rightarrow> int option \<Rightarrow> py_error + auth_config" where
  "auth_config_make max_failures cooldown max_peers prune_interval wait_timeout max_pending max_active per_peer =
     (let per = (case per_peer of None \<Rightarrow> max_pending | Some n \<Rightarrow> n)
      in if max_failures < 1 \<or> cooldown \<le> 0 \<or> max_peers < 1 \<or> prune_interval < 0 \<or> wait_timeout < 0 \<or>
            max_pending < 1 \<or> max_active < 1 \<or> per < 1 \<or> max_pending < max_active \<or> max_pending < per
         then Inl ValueError
         else Inr \<lparr>ac_max_failures = max_failures, ac_cooldown = cooldown, ac_max_peers = max_peers,
           ac_prune_interval = prune_interval, ac_wait_timeout = wait_timeout,
           ac_max_pending = max_pending, ac_max_active = max_active, ac_per_peer_pending = per\<rparr>)"

record peer_state =
  ps_failures :: int
  ps_verifying :: int
  ps_outstanding :: int
  ps_cooldown_until :: time
  ps_last_seen :: time
  ps_last_failure :: time

datatype denial_reason = Capacity_Full | Cooldown | Peer_Capacity | Timed_Out

record auth_denied =
  ad_reason :: denial_reason
  ad_retry_after :: int

definition deny :: "denial_reason \<Rightarrow> int \<Rightarrow> auth_denied" where
  "deny reason retry_after = \<lparr>ad_reason = reason, ad_retry_after = max 1 retry_after\<rparr>"

record auth_waiter =
  aw_call :: nat
  aw_peer :: string
  aw_deadline :: time
  aw_wait_deadline :: time

datatype verdict = Granted | Refused auth_denied

text \<open>\<open>au_verdicts\<close>: waiters already decided whose thread has not returned yet.
  \<open>au_leases\<close>: every lease handed out, with its peer and its \<open>_finished\<close> flag.\<close>

record auth_ctl =
  au_peers :: "(string, peer_state) dict"
  au_waiters :: "auth_waiter list"
  au_verdicts :: "(nat, string \<times> verdict) dict"
  au_leases :: "(nat, string \<times> bool) dict"
  au_active :: int
  au_outstanding :: int
  au_last_prune :: time
  au_closed :: bool

definition auth_init :: "time \<Rightarrow> auth_ctl" where
  "auth_init now = \<lparr>au_peers = [], au_waiters = [], au_verdicts = [], au_leases = [],
     au_active = 0, au_outstanding = 0, au_last_prune = now, au_closed = False\<rparr>"

subsection \<open>The private methods, lock held\<close>

text \<open>\<open>_cooldown_denial_locked\<close>: an expired lockout is cleared as a side effect.\<close>

definition cooldown_denial :: "auth_config \<Rightarrow> time \<Rightarrow> peer_state \<Rightarrow> peer_state \<times> auth_denied option" where
  "cooldown_denial cfg now st =
     (if ps_failures st < ac_max_failures cfg then (st, None)
      else if ps_cooldown_until st \<le> now
      then (st\<lparr>ps_failures := 0, ps_cooldown_until := 0, ps_last_failure := 0\<rparr>, None)
      else (st, Some (deny Cooldown (max 1 \<lceil>ps_cooldown_until st - now\<rceil>))))"

definition can_start :: "auth_config \<Rightarrow> time \<Rightarrow> int \<Rightarrow> peer_state \<Rightarrow> peer_state \<times> bool" where
  "can_start cfg now active st =
     (if \<not> active < ac_max_active cfg then (st, False)
      else case cooldown_denial cfg now st of
        (st', Some _) \<Rightarrow> (st', False)
      | (st', None) \<Rightarrow> (st', ps_failures st' + ps_verifying st' < ac_max_failures cfg))"

definition put_peer :: "string \<Rightarrow> peer_state \<Rightarrow> auth_ctl \<Rightarrow> auth_ctl" where
  "put_peer p st c = c\<lparr>au_peers := dict_set p st (au_peers c)\<rparr>"

definition start_peer :: "time \<Rightarrow> string \<Rightarrow> peer_state \<Rightarrow> auth_ctl \<Rightarrow> auth_ctl" where
  "start_peer now p st c =
     put_peer p (st\<lparr>ps_verifying := ps_verifying st + 1, ps_last_seen := now\<rparr>)
       (c\<lparr>au_active := au_active c + 1\<rparr>)"

definition drop_idle_peer :: "string \<Rightarrow> auth_ctl \<Rightarrow> auth_ctl" where
  "drop_idle_peer p c =
     (case dict_get (au_peers c) p of
        None \<Rightarrow> c
      | Some st \<Rightarrow> if ps_outstanding st = 0 \<and> ps_failures st = 0
                   then c\<lparr>au_peers := dict_del p (au_peers c)\<rparr> else c)"

definition prune_peers :: "auth_config \<Rightarrow> time \<Rightarrow> bool \<Rightarrow> auth_ctl \<Rightarrow> auth_ctl" where
  "prune_peers cfg now force c =
     (if \<not> force \<and> now - au_last_prune c < ac_prune_interval cfg then c
      else c\<lparr>au_last_prune := now,
             au_peers := filter (\<lambda>(p, st). ps_outstanding st \<noteq> 0 \<or>
               (ps_failures st \<noteq> 0 \<and> now - ps_last_failure st < ac_cooldown cfg)) (au_peers c)\<rparr>)"

text \<open>\<open>_state_for_peer_locked\<close>; \<open>None\<close> when the peer table stays full.\<close>

definition state_for_peer :: "auth_config \<Rightarrow> string \<Rightarrow> time \<Rightarrow> auth_ctl \<Rightarrow> auth_ctl \<times> peer_state option" where
  "state_for_peer cfg p now c =
     (case dict_get (au_peers c) p of
        Some st \<Rightarrow> (let st' = st\<lparr>ps_last_seen := now\<rparr> in (put_peer p st' c, Some st'))
      | None \<Rightarrow>
          (let c' = (if ac_max_peers cfg \<le> int (length (au_peers c)) then prune_peers cfg now True c else c)
           in if ac_max_peers cfg \<le> int (length (au_peers c')) then (c', None)
              else (let st = \<lparr>ps_failures = 0, ps_verifying = 0, ps_outstanding = 0,
                              ps_cooldown_until = 0, ps_last_seen = now, ps_last_failure = 0\<rparr>
                    in (put_peer p st c', Some st))))"

definition release_reservation :: "string \<Rightarrow> peer_state \<Rightarrow> auth_ctl \<Rightarrow> py_error + auth_ctl" where
  "release_reservation p st c =
     (if ps_outstanding st < 1 \<or> au_outstanding c < 1 then Inl RuntimeError
      else Inr (drop_idle_peer p
        (put_peer p (st\<lparr>ps_outstanding := ps_outstanding st - 1\<rparr>)
          (c\<lparr>au_outstanding := au_outstanding c - 1\<rparr>))))"

definition decide :: "auth_waiter \<Rightarrow> verdict \<Rightarrow> auth_ctl \<Rightarrow> auth_ctl" where
  "decide w v c = c\<lparr>au_verdicts := dict_set (aw_call w) (aw_peer w, v) (au_verdicts c)\<rparr>"

text \<open>\<open>_promote_waiters_locked\<close>: \<open>skipped\<close> are the waiters before \<open>index\<close>.\<close>

fun promote_loop ::
  "auth_config \<Rightarrow> clocks \<Rightarrow> auth_waiter list \<Rightarrow> auth_waiter list \<Rightarrow> auth_ctl \<Rightarrow> py_error + auth_ctl"
where
  "promote_loop cfg k skipped [] c = Inr (c\<lparr>au_waiters := skipped\<rparr>)"
| "promote_loop cfg k skipped (w # ws) c =
     (if \<not> au_active c < ac_max_active cfg then Inr (c\<lparr>au_waiters := skipped @ w # ws\<rparr>)
      else case dict_get (au_peers c) (aw_peer w) of
        None \<Rightarrow> promote_loop cfg k skipped ws (decide w (Refused (deny Peer_Capacity 1)) c)
      | Some st \<Rightarrow>
          (case cooldown_denial cfg (ck_now k) st of
             (st1, Some d) \<Rightarrow>
               (case release_reservation (aw_peer w) st1 (decide w (Refused d) c) of
                  Inl e \<Rightarrow> Inl e
                | Inr c1 \<Rightarrow> promote_loop cfg k skipped ws c1)
           | (st1, None) \<Rightarrow>
               if aw_deadline w \<le> ck_now k \<or> aw_wait_deadline w \<le> ck_scan k (aw_call w)
               then (case release_reservation (aw_peer w) st1 (decide w (Refused (deny Timed_Out 1)) c) of
                       Inl e \<Rightarrow> Inl e
                     | Inr c1 \<Rightarrow> promote_loop cfg k skipped ws c1)
               else (case can_start cfg (ck_now k) (au_active c) st1 of
                       (st2, True) \<Rightarrow>
                         promote_loop cfg k skipped ws (start_peer (ck_now k) (aw_peer w) st2 (decide w Granted c))
                     | (st2, False) \<Rightarrow>
                         promote_loop cfg k (skipped @ [w]) ws (put_peer (aw_peer w) st2 c))))"

definition promote_waiters :: "auth_config \<Rightarrow> clocks \<Rightarrow> auth_ctl \<Rightarrow> py_error + auth_ctl" where
  "promote_waiters cfg k c = promote_loop cfg k [] (au_waiters c) c"

text \<open>\<open>_remove_waiter_locked\<close>, after the caller has set the waiter's denial.\<close>

definition remove_waiter :: "auth_waiter \<Rightarrow> auth_ctl \<Rightarrow> py_error + auth_ctl" where
  "remove_waiter w c =
     (if w \<notin> set (au_waiters c) then Inr c
      else let c1 = c\<lparr>au_waiters := remove1 w (au_waiters c)\<rparr>
           in case dict_get (au_peers c) (aw_peer w) of
                None \<Rightarrow> Inr c1
              | Some st \<Rightarrow> release_reservation (aw_peer w) st c1)"

subsection \<open>The public methods\<close>

datatype acquire_result = Leased | Denied auth_denied | Blocked

definition hand_lease :: "nat \<Rightarrow> string \<Rightarrow> auth_ctl \<Rightarrow> auth_ctl" where
  "hand_lease call p c = c\<lparr>au_leases := dict_set call (p, False) (au_leases c)\<rparr>"

text \<open>The head of the loop in \<open>acquire\<close>: a decided waiter's thread returns.\<close>

definition collect_verdict :: "nat \<Rightarrow> auth_ctl \<Rightarrow> (auth_ctl \<times> acquire_result) option" where
  "collect_verdict call c =
     (case dict_get (au_verdicts c) call of
        None \<Rightarrow> None
      | Some (p, Granted) \<Rightarrow>
          Some (hand_lease call p (c\<lparr>au_verdicts := dict_del call (au_verdicts c)\<rparr>), Leased)
      | Some (p, Refused d) \<Rightarrow> Some (c\<lparr>au_verdicts := dict_del call (au_verdicts c)\<rparr>, Denied d))"

text \<open>One pass of that loop by the thread of \<open>call\<close>, up to its return or its next wait.\<close>

definition auth_poll ::
  "auth_config \<Rightarrow> nat \<Rightarrow> clocks \<Rightarrow> auth_ctl \<Rightarrow> py_error + (auth_ctl \<times> acquire_result)"
where
  "auth_poll cfg call k c =
     (case collect_verdict call c of
        Some r \<Rightarrow> Inr r
      | None \<Rightarrow>
          (case promote_waiters cfg k c of
             Inl e \<Rightarrow> Inl e
           | Inr c1 \<Rightarrow>
               (case collect_verdict call c1 of
                  Some r \<Rightarrow> Inr r
                | None \<Rightarrow>
                    (case filter (\<lambda>w. aw_call w = call) (au_waiters c1) of
                       [] \<Rightarrow> Inr (c1, Blocked)
                     | w # _ \<Rightarrow>
                         if min (aw_deadline w - ck_now k) (aw_wait_deadline w - ck_mono k) \<le> 0
                         then (case remove_waiter w c1 of
                                 Inl e \<Rightarrow> Inl e
                               | Inr c2 \<Rightarrow> Inr (c2, Denied (deny Timed_Out 1)))
                         else Inr (c1, Blocked)))))"

definition enqueue_waiter ::
  "auth_config \<Rightarrow> nat \<Rightarrow> clocks \<Rightarrow> clocks \<Rightarrow> string \<Rightarrow> auth_ctl \<Rightarrow> py_error + (auth_ctl \<times> acquire_result)"
where
  "enqueue_waiter cfg call k k2 p c =
     (let w = \<lparr>aw_call = call, aw_peer = p, aw_deadline = ck_now k + ac_wait_timeout cfg,
               aw_wait_deadline = ck_mono k + ac_wait_timeout cfg\<rparr>
      in case promote_waiters cfg k (c\<lparr>au_waiters := au_waiters c @ [w]\<rparr>) of
           Inl e \<Rightarrow> Inl e
         | Inr c1 \<Rightarrow> auth_poll cfg call k2 c1)"

text \<open>\<open>acquire\<close> from the peer's state on.\<close>

definition admit_peer ::
  "auth_config \<Rightarrow> nat \<Rightarrow> clocks \<Rightarrow> clocks \<Rightarrow> string \<Rightarrow> peer_state \<Rightarrow> auth_ctl
     \<Rightarrow> py_error + (auth_ctl \<times> acquire_result)"
where
  "admit_peer cfg call k k2 p st c =
     (case cooldown_denial cfg (ck_now k) st of
        (st1, Some d) \<Rightarrow> Inr (drop_idle_peer p (put_peer p st1 c), Denied d)
      | (st1, None) \<Rightarrow>
          if ac_per_peer_pending cfg \<le> ps_outstanding st1
          then Inr (put_peer p st1 c, Denied (deny Peer_Capacity 1))
          else if ac_max_pending cfg \<le> au_outstanding c
          then Inr (put_peer p st1 c, Denied (deny Capacity_Full 1))
          else
            (let st2 = st1\<lparr>ps_outstanding := ps_outstanding st1 + 1, ps_last_seen := ck_now k\<rparr>;
                 c2 = c\<lparr>au_outstanding := au_outstanding c + 1\<rparr>
             in if au_waiters c = []
                then (case can_start cfg (ck_now k) (au_active c) st2 of
                        (st3, True) \<Rightarrow> Inr (hand_lease call p (start_peer (ck_now k) p st3 c2), Leased)
                      | (st3, False) \<Rightarrow> enqueue_waiter cfg call k k2 p (put_peer p st3 c2))
                else enqueue_waiter cfg call k k2 p (put_peer p st2 c2)))"

definition auth_acquire ::
  "auth_config \<Rightarrow> nat \<Rightarrow> clocks \<Rightarrow> clocks \<Rightarrow> string \<Rightarrow> auth_ctl
     \<Rightarrow> py_error + (auth_ctl \<times> acquire_result)"
where
  "auth_acquire cfg call k k2 p c =
     (if p = [] then Inl ValueError
      else if au_closed c then Inr (c, Denied (deny Capacity_Full 1))
      else let c1 = prune_peers cfg (ck_now k) False c
           in case dict_get (au_peers c1) p of
                Some st \<Rightarrow> (let st' = st\<lparr>ps_last_seen := ck_now k\<rparr>
                           in admit_peer cfg call k k2 p st' (put_peer p st' c1))
              | None \<Rightarrow>
                  if ac_max_pending cfg \<le> au_outstanding c1 then Inr (c1, Denied (deny Capacity_Full 1))
                  else (case state_for_peer cfg p (ck_now k) c1 of
                          (c2, None) \<Rightarrow> Inr (c2, Denied (deny Peer_Capacity 1))
                        | (c2, Some st) \<Rightarrow> admit_peer cfg call k k2 p st c2))"

datatype auth_outcome = Succeeded | Failed | Errored

text \<open>\<open>_finish\<close> of the lease handed to \<open>call\<close>.\<close>

definition auth_finish ::
  "auth_config \<Rightarrow> nat \<Rightarrow> auth_outcome \<Rightarrow> clocks \<Rightarrow> auth_ctl \<Rightarrow> py_error + auth_ctl"
where
  "auth_finish cfg call out k c =
     (case dict_get (au_leases c) call of
        None \<Rightarrow> Inr c
      | Some (p, True) \<Rightarrow> Inr c
      | Some (p, False) \<Rightarrow>
          (case dict_get (au_peers c) p of
             None \<Rightarrow> Inl RuntimeError
           | Some st \<Rightarrow>
               if ps_verifying st < 1 \<or> ps_outstanding st < 1 then Inl RuntimeError
               else
                 (let st1 = st\<lparr>ps_verifying := ps_verifying st - 1,
                               ps_outstanding := ps_outstanding st - 1, ps_last_seen := ck_now k\<rparr>;
                      st2 = (if out = Succeeded
                             then st1\<lparr>ps_failures := 0, ps_cooldown_until := 0, ps_last_failure := 0\<rparr>
                             else st1\<lparr>ps_failures := ps_failures st1 + 1, ps_last_failure := ck_now k,
                               ps_cooldown_until := (if ac_max_failures cfg \<le> ps_failures st1 + 1
                                 then ck_now k + ac_cooldown cfg else ps_cooldown_until st1)\<rparr>);
                      c1 = c\<lparr>au_leases := dict_set call (p, True) (au_leases c),
                             au_active := au_active c - 1, au_outstanding := au_outstanding c - 1\<rparr>
                  in promote_waiters cfg k (drop_idle_peer p (put_peer p st2 c1)))))"

fun close_loop :: "auth_waiter list \<Rightarrow> auth_ctl \<Rightarrow> py_error + auth_ctl" where
  "close_loop [] c = Inr c"
| "close_loop (w # ws) c =
     (case remove_waiter w (decide w (Refused (deny Capacity_Full 1)) c) of
        Inl e \<Rightarrow> Inl e
      | Inr c1 \<Rightarrow> close_loop ws c1)"

definition auth_close :: "auth_ctl \<Rightarrow> py_error + auth_ctl" where
  "auth_close c = close_loop (au_waiters c) (c\<lparr>au_closed := True\<rparr>)"

definition auth_snapshot :: "auth_ctl \<Rightarrow> (string \<times> int) list" where
  "auth_snapshot c = [(''active'', au_active c), (''queued'', int (length (au_waiters c))),
     (''peers'', int (length (au_peers c)))]"

subsection \<open>Runs\<close>

datatype auth_event =
    Auth_Acquire nat clocks clocks string
  | Auth_Poll nat clocks
  | Auth_Finish nat auth_outcome clocks
  | Auth_Close

fun event_times :: "auth_event \<Rightarrow> time set" where
  "event_times (Auth_Acquire _ k k2 _) = {ck_now k, ck_now k2}"
| "event_times (Auth_Poll _ k) = {ck_now k}"
| "event_times (Auth_Finish _ _ k) = {ck_now k}"
| "event_times Auth_Close = {}"

definition used_calls :: "auth_ctl \<Rightarrow> nat set" where
  "used_calls c = aw_call ` set (au_waiters c) \<union> fst ` set (au_verdicts c) \<union> fst ` set (au_leases c)"

text \<open>A call of \<open>acquire\<close> is a fresh call number; an event that is not enabled, or whose
  argument is refused by a \<open>ValueError\<close>, changes nothing.\<close>

fun auth_step :: "auth_config \<Rightarrow> auth_ctl \<Rightarrow> auth_event \<Rightarrow> py_error + auth_ctl" where
  "auth_step cfg c (Auth_Acquire call k k2 p) =
     (if call \<in> used_calls c \<or> p = [] then Inr c
      else case auth_acquire cfg call k k2 p c of Inl e \<Rightarrow> Inl e | Inr (c', _) \<Rightarrow> Inr c')"
| "auth_step cfg c (Auth_Poll call k) =
     (if call \<notin> aw_call ` set (au_waiters c) \<union> fst ` set (au_verdicts c) then Inr c
      else case auth_poll cfg call k c of Inl e \<Rightarrow> Inl e | Inr (c', _) \<Rightarrow> Inr c')"
| "auth_step cfg c (Auth_Finish call out k) = auth_finish cfg call out k c"
| "auth_step cfg c Auth_Close = auth_close c"

fun auth_run :: "auth_config \<Rightarrow> auth_ctl \<Rightarrow> auth_event list \<Rightarrow> py_error + auth_ctl" where
  "auth_run cfg c [] = Inr c"
| "auth_run cfg c (e # es) = (case auth_step cfg c e of Inl x \<Rightarrow> Inl x | Inr c' \<Rightarrow> auth_run cfg c' es)"

subsection \<open>The books of the controller\<close>

definition config_ok :: "auth_config \<Rightarrow> bool" where
  "config_ok cfg \<longleftrightarrow> 1 \<le> ac_max_failures cfg \<and> 0 < ac_cooldown cfg \<and> 1 \<le> ac_max_peers cfg \<and>
     1 \<le> ac_max_pending cfg \<and> 1 \<le> ac_max_active cfg \<and> 1 \<le> ac_per_peer_pending cfg"

lemma config_ok_make: "auth_config_make a b c d e f g h = Inr cfg \<Longrightarrow> config_ok cfg"
  by (auto simp: auth_config_make_def config_ok_def Let_def split: if_splits option.splits)

definition peer_int :: "(peer_state \<Rightarrow> int) \<Rightarrow> auth_ctl \<Rightarrow> string \<Rightarrow> int" where
  "peer_int f c p = (case dict_get (au_peers c) p of None \<Rightarrow> 0 | Some st \<Rightarrow> f st)"

text \<open>What holds of every peer record by itself; the last part ties a lockout to the failure
  that caused it, which is what keeps pruning from forgetting it.\<close>

definition peer_ok :: "auth_config \<Rightarrow> peer_state \<Rightarrow> bool" where
  "peer_ok cfg st \<longleftrightarrow> 0 \<le> ps_failures st \<and> 0 \<le> ps_verifying st \<and>
     ps_failures st + ps_verifying st \<le> ac_max_failures cfg \<and>
     (ac_max_failures cfg \<le> ps_failures st \<longrightarrow> ps_cooldown_until st = ps_last_failure st + ac_cooldown cfg)"

text \<open>The peers' counters against \<open>w p\<close> queued and \<open>r p\<close> running verifications of peer \<open>p\<close>,
  and the global counters against the peers'.\<close>

definition books :: "auth_config \<Rightarrow> (string \<Rightarrow> int) \<Rightarrow> (string \<Rightarrow> int) \<Rightarrow> auth_ctl \<Rightarrow> bool" where
  "books cfg w r c \<longleftrightarrow> dict_ok (au_peers c) \<and>
     (\<forall>p. peer_int ps_verifying c p = r p \<and> peer_int ps_outstanding c p = r p + w p \<and> 0 \<le> r p \<and> 0 \<le> w p) \<and>
     au_active c = dict_sum ps_verifying (au_peers c) \<and>
     au_outstanding c = dict_sum ps_outstanding (au_peers c) \<and>
     (\<forall>p st. dict_get (au_peers c) p = Some st \<longrightarrow> peer_ok cfg st \<and> ps_outstanding st \<le> ac_per_peer_pending cfg) \<and>
     au_active c \<le> ac_max_active cfg \<and> au_outstanding c \<le> ac_max_pending cfg \<and>
     int (length (au_peers c)) \<le> ac_max_peers cfg"

lemma books_frame [simp]:
  "books cfg w r (c\<lparr>au_waiters := x1\<rparr>) = books cfg w r c"
  "books cfg w r (c\<lparr>au_verdicts := x2\<rparr>) = books cfg w r c"
  "books cfg w r (c\<lparr>au_leases := x3\<rparr>) = books cfg w r c"
  "books cfg w r (c\<lparr>au_last_prune := x4\<rparr>) = books cfg w r c"
  "books cfg w r (c\<lparr>au_closed := x5\<rparr>) = books cfg w r c"
  by (simp_all add: books_def peer_int_def)

lemma books_peer:
  assumes "books cfg w r c" "dict_get (au_peers c) p = Some st"
  shows "ps_verifying st = r p" "ps_outstanding st = r p + w p" "0 \<le> r p" "0 \<le> w p" "peer_ok cfg st"
    "ps_outstanding st \<le> ac_per_peer_pending cfg"
proof -
  have "peer_int ps_verifying c p = r p" "peer_int ps_outstanding c p = r p + w p"
    using assms(1) by (auto simp: books_def)
  then show "ps_verifying st = r p" "ps_outstanding st = r p + w p"
    using assms(2) by (simp_all add: peer_int_def)
qed (use assms in \<open>auto simp: books_def\<close>)

lemma books_absent:
  assumes "books cfg w r c" "dict_get (au_peers c) p = None"
  shows "r p = 0" "w p = 0"
proof -
  have "peer_int ps_verifying c p = r p" "peer_int ps_outstanding c p = r p + w p"
    using assms(1) by (auto simp: books_def)
  then show "r p = 0" "w p = 0" using assms(2) by (simp_all add: peer_int_def)
qed

lemma books_outstanding_ge:
  assumes "books cfg w r c" "dict_get (au_peers c) p = Some st"
  shows "ps_outstanding st \<le> au_outstanding c" "ps_verifying st \<le> au_active c"
proof -
  have ok: "dict_ok (au_peers c)" using assms by (simp add: books_def)
  have nn: "0 \<le> ps_outstanding (snd kv) \<and> 0 \<le> ps_verifying (snd kv)" if kv: "kv \<in> set (au_peers c)" for kv
  proof -
    have g: "dict_get (au_peers c) (fst kv) = Some (snd kv)" using ok kv by (metis dict_mem_get prod.collapse)
    show ?thesis using books_peer[OF assms(1) g] by simp
  qed
  have "ps_outstanding st \<le> dict_sum ps_outstanding (au_peers c)"
    "ps_verifying st \<le> dict_sum ps_verifying (au_peers c)"
    using nn by (auto intro!: dict_sum_ge_member[OF _ assms(2)])
  then show "ps_outstanding st \<le> au_outstanding c" "ps_verifying st \<le> au_active c"
    using assms(1) by (simp_all add: books_def)
qed

text \<open>The one lemma behind every counter update: a peer's record is replaced, its running count
  moves by \<open>dv\<close> and its queued count by \<open>dw\<close>, and the globals move with them.\<close>

lemma books_put:
  assumes b: "books cfg w r c" and g: "dict_get (au_peers c) p = Some st"
    and v: "ps_verifying st' = ps_verifying st + dv" and o': "ps_outstanding st' = ps_outstanding st + dv + dw"
    and ok: "peer_ok cfg st'" and lim: "ps_outstanding st' \<le> ac_per_peer_pending cfg"
    and nn: "0 \<le> r p + dv" "0 \<le> w p + dw"
    and a: "au_active c + dv \<le> ac_max_active cfg" and q: "au_outstanding c + dv + dw \<le> ac_max_pending cfg"
  shows "books cfg (w(p := w p + dw)) (r(p := r p + dv))
    (put_peer p st' (c\<lparr>au_active := au_active c + dv, au_outstanding := au_outstanding c + dv + dw\<rparr>))"
  using b g v o' ok lim nn a q books_peer(1,2)[OF b g]
  by (auto simp: books_def put_peer_def peer_int_def dict_sum_set length_dict_set_old split: option.splits)

lemma books_put_same:
  assumes b: "books cfg w r c" and g: "dict_get (au_peers c) p = Some st"
    and "ps_verifying st' = ps_verifying st" "ps_outstanding st' = ps_outstanding st" "peer_ok cfg st'"
  shows "books cfg w r (put_peer p st' c)"
proof -
  have c: "c\<lparr>au_active := au_active c + 0, au_outstanding := au_outstanding c + 0 + 0\<rparr> = c" by simp
  have bnd: "au_active c \<le> ac_max_active cfg" "au_outstanding c \<le> ac_max_pending cfg"
    using b by (auto simp: books_def)
  have "books cfg (w(p := w p + 0)) (r(p := r p + 0))
      (put_peer p st' (c\<lparr>au_active := au_active c + 0, au_outstanding := au_outstanding c + 0 + 0\<rparr>))"
    using assms books_peer[OF b g] bnd by (intro books_put[OF b g]) auto
  then show ?thesis by (simp add: c)
qed

lemma books_drop_idle: "books cfg w r c \<Longrightarrow> books cfg w r (drop_idle_peer p c)"
proof (cases "dict_get (au_peers c) p")
  case (Some st)
  assume b: "books cfg w r c"
  note peer = books_peer[OF b Some]
  have "books cfg w r (c\<lparr>au_peers := dict_del p (au_peers c)\<rparr>)" if "ps_outstanding st = 0"
  proof -
    have z: "r p = 0" "w p = 0" "ps_verifying st = 0" using peer that by auto
    have int: "peer_int f (c\<lparr>au_peers := dict_del p (au_peers c)\<rparr>) q = (if q = p then 0 else peer_int f c q)" for f q
      by (simp add: peer_int_def)
    show ?thesis
      using b Some z that length_dict_del_le[of p "au_peers c"]
      unfolding books_def int by (auto simp: dict_sum_del)
  qed
  then show ?thesis using b Some by (simp add: drop_idle_peer_def)
qed (simp add: drop_idle_peer_def)

lemma books_prune: "books cfg w r c \<Longrightarrow> books cfg w r (prune_peers cfg now force c)"
proof -
  assume b: "books cfg w r c"
  define P where "P = (\<lambda>(p::string, st::peer_state). ps_outstanding st \<noteq> 0 \<or>
    (ps_failures st \<noteq> 0 \<and> now - ps_last_failure st < ac_cooldown cfg))"
  have ok: "dict_ok (au_peers c)" using b by (simp add: books_def)
  have zero: "ps_verifying (snd kv) = 0 \<and> ps_outstanding (snd kv) = 0"
    if "kv \<in> set (au_peers c)" "\<not> P kv" for kv
    using books_peer[OF b dict_mem_get[OF ok]] that by (cases kv) (fastforce simp: P_def)
  have get: "dict_get (filter P (au_peers c)) p =
      (case dict_get (au_peers c) p of None \<Rightarrow> None | Some st \<Rightarrow> if P (p, st) then Some st else None)" for p
    by (rule dict_get_filter[OF ok])
  have int: "peer_int f (c\<lparr>au_peers := filter P (au_peers c)\<rparr>) p = peer_int f c p"
    if "f = ps_verifying \<or> f = ps_outstanding" for f p
  proof (cases "dict_get (au_peers c) p")
    case (Some st)
    then show ?thesis using that zero[OF dict_get_SomeD[OF Some]] by (auto simp: peer_int_def get)
  qed (simp add: peer_int_def get)
  have "int (length (filter P (au_peers c))) \<le> ac_max_peers cfg"
    using b length_filter_le[of P "au_peers c"] unfolding books_def by linarith
  moreover have "dict_sum ps_verifying (filter P (au_peers c)) = dict_sum ps_verifying (au_peers c)"
    "dict_sum ps_outstanding (filter P (au_peers c)) = dict_sum ps_outstanding (au_peers c)"
    using zero by (auto intro!: dict_sum_filter_zero)
  ultimately have "books cfg w r (c\<lparr>au_peers := filter P (au_peers c)\<rparr>)"
    using b int by (auto simp: books_def get split: option.splits)
  then have "books cfg w r (c\<lparr>au_last_prune := now, au_peers := filter P (au_peers c)\<rparr>)"
    by (simp add: books_def peer_int_def)
  then show ?thesis using b by (simp add: prune_peers_def P_def)
qed

lemma cooldown_denial_facts:
  assumes "cooldown_denial cfg now st = (st', d)"
  shows "ps_verifying st' = ps_verifying st" "ps_outstanding st' = ps_outstanding st"
    "config_ok cfg \<Longrightarrow> peer_ok cfg st \<Longrightarrow> peer_ok cfg st'"
    "d \<noteq> None \<Longrightarrow> st' = st"
    "d = None \<Longrightarrow> 1 \<le> ac_max_failures cfg \<Longrightarrow> ps_failures st' < ac_max_failures cfg"
  using assms by (auto simp: cooldown_denial_def peer_ok_def config_ok_def split: if_splits)

lemma can_start_facts:
  assumes "can_start cfg now a st = (st', b)"
  shows "ps_verifying st' = ps_verifying st" "ps_outstanding st' = ps_outstanding st"
    "config_ok cfg \<Longrightarrow> peer_ok cfg st \<Longrightarrow> peer_ok cfg st'"
    "b \<Longrightarrow> a < ac_max_active cfg \<and> ps_failures st' + ps_verifying st' < ac_max_failures cfg"
  using assms cooldown_denial_facts[of cfg now st]
  by (auto simp: can_start_def split: if_splits prod.splits option.splits)

lemma books_fresh_peer:
  assumes b: "books cfg w r c" and new: "dict_get (au_peers c) p = None"
    and room: "int (length (au_peers c)) < ac_max_peers cfg" and cfg: "config_ok cfg"
    and st: "ps_failures st = 0" "ps_verifying st = 0" "ps_outstanding st = 0"
  shows "books cfg w r (put_peer p st c)"
proof -
  have int: "peer_int f (put_peer p st c) q = (if q = p then f st else peer_int f c q)" for f q
    by (simp add: peer_int_def put_peer_def)
  have "peer_ok cfg st" "0 \<le> ac_per_peer_pending cfg" using st cfg by (auto simp: peer_ok_def config_ok_def)
  then show ?thesis
    using b new room st books_absent[OF b new] unfolding books_def int
    by (auto simp: put_peer_def dict_sum_set length_dict_set_new)
qed

subsection \<open>The invariant of the controller\<close>

definition wait_count :: "auth_waiter list \<Rightarrow> string \<Rightarrow> int" where
  "wait_count ws p = int (length (filter (\<lambda>w. aw_peer w = p) ws))"

definition run_count :: "auth_ctl \<Rightarrow> string \<Rightarrow> int" where
  "run_count c p = dict_sum (\<lambda>(q, finished). of_bool (q = p \<and> \<not> finished)) (au_leases c) +
     dict_sum (\<lambda>(q, v). of_bool (q = p \<and> v = Granted)) (au_verdicts c)"

text \<open>Each call number is in one place: queued, decided, or holding a lease.\<close>

definition calls_ok :: "auth_waiter list \<Rightarrow> auth_ctl \<Rightarrow> bool" where
  "calls_ok ws c \<longleftrightarrow> dict_ok (au_verdicts c) \<and> dict_ok (au_leases c) \<and> distinct (map aw_call ws) \<and>
     aw_call ` set ws \<inter> fst ` set (au_verdicts c) = {} \<and>
     aw_call ` set ws \<inter> fst ` set (au_leases c) = {} \<and>
     fst ` set (au_verdicts c) \<inter> fst ` set (au_leases c) = {}"

lemma run_count_frame [simp]:
  "run_count (c\<lparr>au_waiters := x1\<rparr>) = run_count c"
  "run_count (c\<lparr>au_peers := x2\<rparr>) = run_count c"
  "run_count (c\<lparr>au_active := x3\<rparr>) = run_count c"
  "run_count (c\<lparr>au_outstanding := x4\<rparr>) = run_count c"
  "run_count (c\<lparr>au_last_prune := x5\<rparr>) = run_count c"
  "run_count (c\<lparr>au_closed := x6\<rparr>) = run_count c"
  by (simp_all add: run_count_def fun_eq_iff)

lemma calls_ok_frame [simp]:
  "calls_ok ws (c\<lparr>au_waiters := x1\<rparr>) = calls_ok ws c"
  "calls_ok ws (c\<lparr>au_peers := x2\<rparr>) = calls_ok ws c"
  "calls_ok ws (c\<lparr>au_active := x3\<rparr>) = calls_ok ws c"
  "calls_ok ws (c\<lparr>au_outstanding := x4\<rparr>) = calls_ok ws c"
  "calls_ok ws (c\<lparr>au_last_prune := x5\<rparr>) = calls_ok ws c"
  "calls_ok ws (c\<lparr>au_closed := x6\<rparr>) = calls_ok ws c"
  by (simp_all add: calls_ok_def)

definition auth_inv_with :: "auth_config \<Rightarrow> auth_waiter list \<Rightarrow> auth_ctl \<Rightarrow> bool" where
  "auth_inv_with cfg ws c \<longleftrightarrow> books cfg (wait_count ws) (run_count c) c \<and> calls_ok ws c"

definition auth_inv :: "auth_config \<Rightarrow> auth_ctl \<Rightarrow> bool" where
  "auth_inv cfg c \<longleftrightarrow> auth_inv_with cfg (au_waiters c) c"

lemma auth_inv_init: "config_ok cfg \<Longrightarrow> auth_inv cfg (auth_init t)"
  by (simp add: auth_inv_def auth_inv_with_def auth_init_def books_def calls_ok_def wait_count_def
      run_count_def peer_int_def config_ok_def)

lemma wait_count_Cons: "wait_count (x # ws) = (wait_count ws)(aw_peer x := wait_count ws (aw_peer x) + 1)"
  by (auto simp: wait_count_def fun_eq_iff)

lemma wait_count_remove:
  "w \<in> set ws \<Longrightarrow> wait_count (remove1 w ws) = (wait_count ws)(aw_peer w := wait_count ws (aw_peer w) - 1)"
proof (induction ws)
  case (Cons x ws)
  show ?case
  proof (cases "x = w")
    case False
    with Cons show ?thesis by (cases "aw_peer x = aw_peer w") (auto simp: wait_count_Cons fun_eq_iff)
  qed (auto simp: wait_count_Cons fun_eq_iff)
qed simp

lemma wait_count_mid: "wait_count (xs @ w # ys) = (wait_count (xs @ ys))(aw_peer w := wait_count (xs @ ys) (aw_peer w) + 1)"
  by (auto simp: wait_count_def fun_eq_iff)

lemma wait_count_nonneg [simp]: "0 \<le> wait_count ws p"
  by (simp add: wait_count_def)

lemma run_count_decide:
  assumes "calls_ok ws c" "w \<in> set ws"
  shows "run_count (decide w v c) = (run_count c)(aw_peer w := run_count c (aw_peer w) + of_bool (v = Granted))"
proof -
  have "dict_get (au_verdicts c) (aw_call w) = None"
    using assms by (auto simp: calls_ok_def map_of_eq_None_iff image_iff disjoint_iff)
  then show ?thesis
    using assms by (auto simp: run_count_def decide_def calls_ok_def dict_sum_set fun_eq_iff)
qed

lemma disjoint_move:
  "A' \<subseteq> A \<Longrightarrow> x \<in> A \<Longrightarrow> x \<notin> A' \<Longrightarrow> V' \<subseteq> insert x V \<Longrightarrow> A \<inter> V = {} \<Longrightarrow> A \<inter> L = {} \<Longrightarrow>
     V \<inter> L = {} \<Longrightarrow> A' \<inter> V' = {} \<and> A' \<inter> L = {} \<and> V' \<inter> L = {}"
  by blast

lemma calls_ok_decide:
  assumes "calls_ok ws c" "w \<in> set ws"
  shows "calls_ok (remove1 w ws) (decide w v c)"
proof -
  let ?x = "aw_call w" and ?A = "aw_call ` set ws" and ?A' = "aw_call ` set (remove1 w ws)"
    and ?V = "fst ` set (au_verdicts c)" and ?V' = "fst ` set (au_verdicts (decide w v c))"
    and ?L = "fst ` set (au_leases c)"
  have "distinct ws" using assms by (simp add: calls_ok_def distinct_map)
  then have rm: "remove1 w ws = filter (\<lambda>v. v \<noteq> w) ws"
    by (simp add: distinct_remove1_removeAll removeAll_filter_not_eq eq_commute)
  have sub: "?A' \<subseteq> ?A" "?x \<in> ?A" using assms(2) by (auto simp: rm)
  have out: "?x \<notin> ?A'"
    using assms by (auto simp: calls_ok_def distinct_map inj_on_def rm)
  have V: "?V' \<subseteq> insert ?x ?V"
    using set_dict_set_subset[of ?x "(aw_peer w, v)" "au_verdicts c"] by (fastforce simp: decide_def)
  have dist: "distinct (map aw_call (remove1 w ws))"
    using assms by (simp add: calls_ok_def rm distinct_map_filter)
  have old: "?A \<inter> ?V = {}" "?A \<inter> ?L = {}" "?V \<inter> ?L = {}" using assms by (auto simp: calls_ok_def)
  from disjoint_move[OF sub out V old] show ?thesis
    using assms dist by (simp add: calls_ok_def) (simp add: decide_def)
qed

text \<open>The reservation of a waiter can always be returned: no \<open>RuntimeError\<close>.\<close>

lemma wait_count_pos: "w \<in> set ws \<Longrightarrow> 1 \<le> wait_count ws (aw_peer w)"
  by (auto simp: wait_count_def length_greater_0_conv[symmetric] filter_empty_conv Suc_le_eq)

lemma drop_idle_frame [simp]:
  "au_verdicts (drop_idle_peer p c) = au_verdicts c" "au_leases (drop_idle_peer p c) = au_leases c"
  "au_waiters (drop_idle_peer p c) = au_waiters c"
  "au_verdicts (put_peer p st c) = au_verdicts c" "au_leases (put_peer p st c) = au_leases c"
  "au_waiters (put_peer p st c) = au_waiters c"
  by (simp_all add: drop_idle_peer_def put_peer_def split: option.splits)

lemma release_waiter:
  assumes b: "books cfg (wait_count ws) r c" and w: "w \<in> set ws"
    and g: "dict_get (au_peers c) (aw_peer w) = Some st"
    and st1: "ps_verifying st1 = ps_verifying st" "ps_outstanding st1 = ps_outstanding st" "peer_ok cfg st1"
  shows "\<exists>c'. release_reservation (aw_peer w) st1 c = Inr c' \<and>
     books cfg (wait_count (remove1 w ws)) r c' \<and> au_waiters c' = au_waiters c \<and>
     au_verdicts c' = au_verdicts c \<and> au_leases c' = au_leases c \<and>
     (\<forall>f \<in> {ps_failures, ps_verifying}. peer_int f c' = (peer_int f c)(aw_peer w := f st1))"
proof -
  let ?p = "aw_peer w"
  note peer = books_peer[OF b g]
  have pos: "1 \<le> wait_count ws ?p" by (rule wait_count_pos[OF w])
  have out: "1 \<le> ps_outstanding st" using peer pos by simp
  then have tot: "1 \<le> au_outstanding c" using books_outstanding_ge[OF b g] by simp
  let ?st2 = "st1\<lparr>ps_outstanding := ps_outstanding st1 - 1\<rparr>"
  let ?c2 = "put_peer ?p ?st2 (c\<lparr>au_active := au_active c + 0, au_outstanding := au_outstanding c + 0 + (-1)\<rparr>)"
  have "books cfg ((wait_count ws)(?p := wait_count ws ?p + (-1))) (r(?p := r ?p + 0)) ?c2"
    using st1 peer pos b by (intro books_put[OF b g]) (auto simp: peer_ok_def books_def)
  then have b2: "books cfg (wait_count (remove1 w ws)) r ?c2"
    by (simp add: wait_count_remove[OF w])
  have "peer_int f (drop_idle_peer ?p ?c2) = (peer_int f c)(?p := f st1)" if "f = ps_failures \<or> f = ps_verifying" for f
  proof -
    have "dict_get (au_peers ?c2) ?p = Some ?st2" by (simp add: put_peer_def)
    from books_peer(1-4)[OF b2 this] have "ps_outstanding ?st2 = 0 \<longrightarrow> ps_verifying st1 = 0"
      using wait_count_nonneg[of "remove1 w ws" ?p] by (simp del: wait_count_nonneg)
    then show ?thesis using that by (auto simp: peer_int_def drop_idle_peer_def put_peer_def fun_eq_iff)
  qed
  moreover have "books cfg (wait_count (remove1 w ws)) r (drop_idle_peer ?p ?c2)"
    by (rule books_drop_idle[OF b2])
  moreover have "release_reservation ?p st1 c = Inr (drop_idle_peer ?p ?c2)"
    using out tot st1 by (simp add: release_reservation_def put_peer_def)
  ultimately show ?thesis by simp
qed

lemma run_count_cong: "au_verdicts c = au_verdicts d \<Longrightarrow> au_leases c = au_leases d \<Longrightarrow> run_count c = run_count d"
  by (simp add: run_count_def fun_eq_iff)

lemma calls_ok_cong: "au_verdicts c = au_verdicts d \<Longrightarrow> au_leases c = au_leases d \<Longrightarrow> calls_ok ws c = calls_ok ws d"
  by (simp add: calls_ok_def)

lemma auth_inv_withI:
  assumes "books cfg (wait_count ws) (run_count c) c'" "calls_ok ws c"
    "au_verdicts c' = au_verdicts c" "au_leases c' = au_leases c"
  shows "auth_inv_with cfg ws c'"
  using assms run_count_cong[of c' c] calls_ok_cong[of c' c] by (simp add: auth_inv_with_def)

lemma refuse_waiter:
  assumes inv: "auth_inv_with cfg ws c" and w: "w \<in> set ws"
    and g: "dict_get (au_peers c) (aw_peer w) = Some st"
    and st1: "ps_verifying st1 = ps_verifying st" "ps_outstanding st1 = ps_outstanding st" "peer_ok cfg st1"
  shows "\<exists>c'. release_reservation (aw_peer w) st1 (decide w (Refused d) c) = Inr c' \<and>
     auth_inv_with cfg (remove1 w ws) c' \<and> au_waiters c' = au_waiters c \<and>
     au_verdicts c' = au_verdicts (decide w (Refused d) c) \<and>
     (\<forall>f \<in> {ps_failures, ps_verifying}. peer_int f c' = (peer_int f c)(aw_peer w := f st1))"
proof -
  let ?c = "decide w (Refused d) c"
  have "books cfg (wait_count ws) (run_count ?c) ?c"
    using inv run_count_decide[OF _ w] by (auto simp: auth_inv_with_def decide_def)
  moreover have "dict_get (au_peers ?c) (aw_peer w) = Some st" using g by (simp add: decide_def)
  ultimately obtain c' where c': "release_reservation (aw_peer w) st1 ?c = Inr c'"
    "books cfg (wait_count (remove1 w ws)) (run_count ?c) c'" "au_waiters c' = au_waiters ?c"
    "au_verdicts c' = au_verdicts ?c" "au_leases c' = au_leases ?c"
    "\<forall>f \<in> {ps_failures, ps_verifying}. peer_int f c' = (peer_int f ?c)(aw_peer w := f st1)"
    using release_waiter[OF _ w _ st1] by blast
  have same: "peer_int f ?c = peer_int f c" for f by (simp add: peer_int_def decide_def fun_eq_iff)
  have "calls_ok (remove1 w ws) ?c" using inv calls_ok_decide[OF _ w] by (simp add: auth_inv_with_def)
  with c' have "auth_inv_with cfg (remove1 w ws) c'" by (blast intro: auth_inv_withI)
  moreover have "au_waiters ?c = au_waiters c" by (simp add: decide_def)
  ultimately show ?thesis using c' unfolding same by auto
qed

lemma grant_waiter:
  assumes inv: "auth_inv_with cfg ws c" and w: "w \<in> set ws"
    and g: "dict_get (au_peers c) (aw_peer w) = Some st"
    and st2: "ps_verifying st2 = ps_verifying st" "ps_outstanding st2 = ps_outstanding st" "peer_ok cfg st2"
    and start: "au_active c < ac_max_active cfg" "ps_failures st2 + ps_verifying st2 < ac_max_failures cfg"
  shows "auth_inv_with cfg (remove1 w ws) (start_peer now (aw_peer w) st2 (decide w Granted c))"
proof -
  let ?p = "aw_peer w" and ?c' = "start_peer now (aw_peer w) st2 (decide w Granted c)"
  have b: "books cfg (wait_count ws) (run_count c) c" and calls: "calls_ok ws c"
    using inv by (auto simp: auth_inv_with_def)
  note peer = books_peer[OF b g]
  have pos: "1 \<le> wait_count ws ?p" by (rule wait_count_pos[OF w])
  let ?st3 = "st2\<lparr>ps_verifying := ps_verifying st2 + 1, ps_last_seen := now\<rparr>"
  let ?c2 = "put_peer ?p ?st3 (c\<lparr>au_active := au_active c + 1, au_outstanding := au_outstanding c + 1 + (-1)\<rparr>)"
  have "peer_ok cfg ?st3" using st2(3) start(2) by (auto simp: peer_ok_def)
  then have "books cfg ((wait_count ws)(?p := wait_count ws ?p + (-1))) ((run_count c)(?p := run_count c ?p + 1)) ?c2"
    using st2(1,2) start(1) peer pos b by (intro books_put[OF b g]) (auto simp: books_def)
  then have b2: "books cfg (wait_count (remove1 w ws)) ((run_count c)(?p := run_count c ?p + 1)) ?c2"
    by (simp add: wait_count_remove[OF w])
  have eq: "?c' = ?c2\<lparr>au_verdicts := au_verdicts (decide w Granted c)\<rparr>"
    by (simp add: start_peer_def put_peer_def decide_def)
  have "run_count ?c' = run_count (decide w Granted c)"
    by (simp add: run_count_def start_peer_def put_peer_def fun_eq_iff)
  then have "run_count ?c' = (run_count c)(?p := run_count c ?p + 1)"
    using run_count_decide[OF calls w, of Granted] by simp
  moreover have "calls_ok (remove1 w ws) ?c'"
    using calls_ok_decide[OF calls w, of Granted] by (simp add: calls_ok_def start_peer_def put_peer_def)
  moreover have "books cfg (wait_count (remove1 w ws)) ((run_count c)(?p := run_count c ?p + 1)) ?c'"
    unfolding eq using b2 by simp
  ultimately show ?thesis by (simp add: auth_inv_with_def)
qed

lemma auth_inv_with_put_same:
  assumes "auth_inv_with cfg ws c" "dict_get (au_peers c) p = Some st"
    "ps_verifying st' = ps_verifying st" "ps_outstanding st' = ps_outstanding st" "peer_ok cfg st'"
  shows "auth_inv_with cfg ws (put_peer p st' c)"
proof -
  have "books cfg (wait_count ws) (run_count c) (put_peer p st' c)"
    using assms by (intro books_put_same) (auto simp: auth_inv_with_def)
  then show ?thesis using assms(1) by (simp add: auth_inv_with_def put_peer_def)
qed

text \<open>What a promotion leaves: it cannot fail, the invariant holds, the waiters that stay keep
  their order, every other one has its verdict, and either every slot is busy or every waiter
  that stays is held back by its own peer's failures and running attempts.\<close>

definition held_back :: "auth_config \<Rightarrow> auth_ctl \<Rightarrow> auth_waiter \<Rightarrow> bool" where
  "held_back cfg c w \<longleftrightarrow> peer_int ps_failures c (aw_peer w) < ac_max_failures cfg \<and>
     ac_max_failures cfg \<le> peer_int ps_failures c (aw_peer w) + peer_int ps_verifying c (aw_peer w)"

definition decided :: "auth_ctl \<Rightarrow> auth_waiter \<Rightarrow> bool" where
  "decided c w \<longleftrightarrow> aw_call w \<in> fst ` set (au_verdicts c)"

text \<open>What one iteration does to every waiter looked at before.\<close>

definition keeps :: "auth_config \<Rightarrow> auth_ctl \<Rightarrow> auth_ctl \<Rightarrow> bool" where
  "keeps cfg c c' \<longleftrightarrow> (\<forall>v. (held_back cfg c v \<longrightarrow> held_back cfg c' v) \<and> (decided c v \<longrightarrow> decided c' v))"

lemma keepsI:
  assumes "\<And>q. q \<noteq> p \<Longrightarrow> peer_int ps_failures c' q = peer_int ps_failures c q"
    "\<And>q. q \<noteq> p \<Longrightarrow> peer_int ps_verifying c' q = peer_int ps_verifying c q"
    "peer_int ps_failures c p < ac_max_failures cfg \<Longrightarrow> peer_int ps_failures c' p = peer_int ps_failures c p \<and>
       peer_int ps_verifying c p \<le> peer_int ps_verifying c' p"
    "fst ` set (au_verdicts c) \<subseteq> fst ` set (au_verdicts c')"
  shows "keeps cfg c c'"
proof -
  have "held_back cfg c' v" if "held_back cfg c v" for v
    using that assms(1,2)[of "aw_peer v"] assms(3) by (cases "aw_peer v = p") (auto simp: held_back_def)
  moreover have "decided c' v" if "decided c v" for v using that assms(4) by (auto simp: decided_def)
  ultimately show ?thesis by (simp add: keeps_def)
qed

lemma cooldown_denial_same:
  "cooldown_denial cfg now st = (st', d) \<Longrightarrow> ps_failures st < ac_max_failures cfg \<Longrightarrow> st' = st"
  by (simp add: cooldown_denial_def)

lemma can_start_held:
  "can_start cfg now a st = (st', False) \<Longrightarrow> a < ac_max_active cfg \<Longrightarrow> ps_failures st < ac_max_failures cfg \<Longrightarrow>
     st' = st \<and> ac_max_failures cfg \<le> ps_failures st + ps_verifying st"
  by (auto simp: can_start_def cooldown_denial_def split: if_splits prod.splits option.splits)

lemma can_start_same:
  "can_start cfg now a st = (st', b) \<Longrightarrow> ps_failures st < ac_max_failures cfg \<Longrightarrow> st' = st"
  by (auto simp: can_start_def cooldown_denial_def split: if_splits prod.splits option.splits)

lemma decided_set: "fst ` set (dict_set k v d) = insert k (fst ` set d)"
  by (simp add: AList.dom_update)

text \<open>One iteration of the loop while a slot is free: the waiter is decided, or skipped.\<close>

lemma promote_iteration:
  assumes cfg: "config_ok cfg" and inv: "auth_inv_with cfg (sk @ w # ws) c" and slot: "au_active c < ac_max_active cfg"
  shows "(\<exists>c1. promote_loop cfg k sk (w # ws) c = promote_loop cfg k sk ws c1 \<and> auth_inv_with cfg (sk @ ws) c1 \<and>
       keeps cfg c c1 \<and> decided c1 w) \<or>
     (\<exists>c1. promote_loop cfg k sk (w # ws) c = promote_loop cfg k (sk @ [w]) ws c1 \<and>
       auth_inv_with cfg ((sk @ [w]) @ ws) c1 \<and> keeps cfg c c1 \<and> held_back cfg c1 w)"
proof -
  let ?all = "sk @ w # ws" and ?p = "aw_peer w"
  have w: "w \<in> set ?all" by simp
  have b: "books cfg (wait_count ?all) (run_count c) c" using inv by (simp add: auth_inv_with_def)
  have dist: "distinct (map aw_call ?all)" using inv by (simp add: auth_inv_with_def calls_ok_def)
  then have rm: "remove1 w ?all = sk @ ws" by (auto simp: remove1_append)
  obtain st where g: "dict_get (au_peers c) ?p = Some st"
    using books_absent(2)[OF b] wait_count_pos[OF w] by fastforce
  have int: "peer_int f c ?p = f st" for f using g by (simp add: peer_int_def)
  obtain st1 d where cd: "cooldown_denial cfg (ck_now k) st = (st1, d)" by fastforce
  note st1 = cooldown_denial_facts(1-3)[OF cd] and same1 = cooldown_denial_same[OF cd]
  have ok1: "peer_ok cfg st1" using st1(3) cfg books_peer(5)[OF b g] by simp
  have below: "ps_failures st1 < ac_max_failures cfg" if "d = None"
    using cooldown_denial_facts(5)[OF cd that] cfg by (simp add: config_ok_def)
  have refuse: "\<exists>c1. release_reservation ?p st1 (decide w (Refused dd) c) = Inr c1 \<and>
      auth_inv_with cfg (sk @ ws) c1 \<and> keeps cfg c c1 \<and> decided c1 w" for dd
  proof -
    obtain c1 where c1: "release_reservation ?p st1 (decide w (Refused dd) c) = Inr c1" "auth_inv_with cfg (sk @ ws) c1"
      "au_verdicts c1 = au_verdicts (decide w (Refused dd) c)"
      "peer_int ps_failures c1 = (peer_int ps_failures c)(?p := ps_failures st1)"
      "peer_int ps_verifying c1 = (peer_int ps_verifying c)(?p := ps_verifying st1)"
      using refuse_waiter[OF inv w g st1(1,2) ok1, of dd] rm by auto
    have "keeps cfg c c1"
      using c1(3-5) same1 by (intro keepsI[where p = ?p]) (auto simp: int decide_def decided_set)
    then show ?thesis using c1 by (auto simp: decided_def decide_def decided_set)
  qed
  obtain st2 go where cs: "can_start cfg (ck_now k) (au_active c) st1 = (st2, go)" by fastforce
  note st2 = can_start_facts[OF cs]
  have ok2: "peer_ok cfg st2" "ps_verifying st2 = ps_verifying st" "ps_outstanding st2 = ps_outstanding st"
    using st2 st1 ok1 cfg by auto
  have same2: "st2 = st" if "ps_failures st < ac_max_failures cfg" using same1 can_start_same[OF cs] that by auto
  show ?thesis
  proof (cases d)
    case (Some dd)
    then show ?thesis using refuse[of dd] g cd slot by auto
  next
    case None
    show ?thesis
    proof (cases "aw_deadline w \<le> ck_now k \<or> aw_wait_deadline w \<le> ck_scan k (aw_call w)")
      case True
      then show ?thesis using refuse[of "deny Timed_Out 1"] None g cd slot by auto
    next
      case in_time: False
      show ?thesis
      proof (cases go)
        case True
        let ?c1 = "start_peer (ck_now k) ?p st2 (decide w Granted c)"
        have "auth_inv_with cfg (sk @ ws) ?c1"
          using grant_waiter[OF inv w g ok2(2,3,1)] st2(4) True rm by simp
        moreover have "keeps cfg c ?c1"
          using same2 by (intro keepsI[where p = ?p])
            (auto simp: g start_peer_def put_peer_def decide_def decided_set peer_int_def)
        moreover have "decided ?c1 w" by (simp add: decided_def start_peer_def put_peer_def decide_def decided_set)
        ultimately show ?thesis using True None in_time g cd cs slot by auto
      next
        case False
        let ?c1 = "put_peer ?p st2 c"
        have held: "st2 = st1" "ac_max_failures cfg \<le> ps_failures st1 + ps_verifying st1"
          using can_start_held[OF _ slot below[OF None]] cs False by auto
        have "auth_inv_with cfg ((sk @ [w]) @ ws) ?c1"
          using auth_inv_with_put_same[OF inv g ok2(2,3,1)] by simp
        moreover have "keeps cfg c ?c1"
          using same2 by (intro keepsI[where p = ?p]) (auto simp: g put_peer_def peer_int_def)
        moreover have "held_back cfg ?c1 w"
          using held below[OF None] by (simp add: held_back_def peer_int_def put_peer_def)
        ultimately show ?thesis using False None in_time g cd cs slot by auto
      qed
    qed
  qed
qed

lemma promote_loop_ok:
  assumes cfg: "config_ok cfg"
  shows "auth_inv_with cfg (sk @ ws) c \<Longrightarrow> \<forall>v \<in> set sk. held_back cfg c v \<Longrightarrow>
    \<exists>c' zs. promote_loop cfg k sk ws c = Inr c' \<and> auth_inv cfg c' \<and> au_waiters c' = sk @ zs \<and> subseq zs ws \<and>
      (\<forall>v \<in> set ws. v \<in> set zs \<or> decided c' v) \<and> (\<forall>v. decided c v \<longrightarrow> decided c' v) \<and>
      (au_active c' = ac_max_active cfg \<or> (\<forall>v \<in> set (sk @ zs). held_back cfg c' v))"
proof (induction ws arbitrary: sk c)
  case Nil
  then show ?case by (auto simp: auth_inv_def auth_inv_with_def held_back_def peer_int_def decided_def)
next
  case (Cons w ws)
  show ?case
  proof (cases "au_active c < ac_max_active cfg")
    case False
    then have "au_active c = ac_max_active cfg" using Cons.prems by (auto simp: auth_inv_with_def books_def)
    then show ?thesis
      using Cons.prems by (auto simp: auth_inv_def auth_inv_with_def decided_def)
  next
    case True
    from promote_iteration[OF cfg Cons.prems(1) True, of k] consider
      c1 where "promote_loop cfg k sk (w # ws) c = promote_loop cfg k sk ws c1" "auth_inv_with cfg (sk @ ws) c1"
        "keeps cfg c c1" "decided c1 w"
      | c1 where "promote_loop cfg k sk (w # ws) c = promote_loop cfg k (sk @ [w]) ws c1"
        "auth_inv_with cfg ((sk @ [w]) @ ws) c1" "keeps cfg c c1" "held_back cfg c1 w" by metis
    then show ?thesis
    proof cases
      case 1
      have "\<forall>v \<in> set sk. held_back cfg c1 v" using Cons.prems(2) 1(3) by (auto simp: keeps_def)
      from Cons.IH[OF 1(2) this] 1(3,4) show ?thesis unfolding 1(1) keeps_def
        by (blast intro: list_emb_Cons dest: set_ConsD)
    next
      case 2
      have "\<forall>v \<in> set (sk @ [w]). held_back cfg c1 v" using Cons.prems(2) 2(3,4) by (auto simp: keeps_def)
      from Cons.IH[OF 2(2) this] obtain c' zs where c': "promote_loop cfg k (sk @ [w]) ws c1 = Inr c'"
        "auth_inv cfg c'" "au_waiters c' = (sk @ [w]) @ zs" "subseq zs ws" "\<forall>v \<in> set ws. v \<in> set zs \<or> decided c' v"
        "\<forall>v. decided c1 v \<longrightarrow> decided c' v"
        "au_active c' = ac_max_active cfg \<or> (\<forall>v \<in> set ((sk @ [w]) @ zs). held_back cfg c' v)" by blast
      then show ?thesis using 2(1,3) by (intro exI[of _ c'] exI[of _ "w # zs"]) (auto simp: keeps_def)
    qed
  qed
qed

lemma promote_waiters_ok:
  assumes "config_ok cfg" "auth_inv cfg c"
  shows "\<exists>c'. promote_waiters cfg k c = Inr c' \<and> auth_inv cfg c' \<and> subseq (au_waiters c') (au_waiters c)"
  using promote_loop_ok[OF assms(1), of "[]" "au_waiters c" c k] assms(2)
  by (fastforce simp: promote_waiters_def auth_inv_def)

lemma calls_ok_remove: "calls_ok ws c \<Longrightarrow> calls_ok (remove1 w ws) c"
  using set_remove1_subset[of w ws] unfolding calls_ok_def
  by (auto simp: distinct_map intro: inj_on_subset)

lemma remove_waiter_ok:
  assumes inv: "auth_inv cfg c"
  shows "\<exists>c'. remove_waiter w c = Inr c' \<and> auth_inv cfg c'"
proof (cases "w \<in> set (au_waiters c)")
  case True
  let ?ws = "au_waiters c" and ?c1 = "c\<lparr>au_waiters := remove1 w (au_waiters c)\<rparr>"
  have b: "books cfg (wait_count ?ws) (run_count c) ?c1" and calls: "calls_ok (remove1 w ?ws) c"
    using inv calls_ok_remove by (auto simp: auth_inv_def auth_inv_with_def)
  obtain st where g: "dict_get (au_peers ?c1) (aw_peer w) = Some st"
    using books_absent(2)[OF b] wait_count_pos[OF True] by fastforce
  obtain c' where "release_reservation (aw_peer w) st ?c1 = Inr c'"
    "books cfg (wait_count (remove1 w ?ws)) (run_count c) c'" "au_waiters c' = au_waiters ?c1"
    "au_verdicts c' = au_verdicts ?c1" "au_leases c' = au_leases ?c1"
    using release_waiter[OF b True g refl refl books_peer(5)[OF b g]] by blast
  then show ?thesis
    using True g calls auth_inv_withI[of cfg "remove1 w ?ws" c c'] by (auto simp: remove_waiter_def auth_inv_def)
qed (use inv in \<open>simp add: remove_waiter_def\<close>)

lemma collect_verdict_ok:
  assumes inv: "auth_inv cfg c" and r: "collect_verdict call c = Some (c', res)"
  shows "auth_inv cfg c'"
proof -
  let ?ws = "au_waiters c"
  obtain p v where v: "dict_get (au_verdicts c) call = Some (p, v)"
    using r by (auto simp: collect_verdict_def split: option.splits)
  have b: "books cfg (wait_count ?ws) (run_count c) c" and calls: "calls_ok ?ws c"
    using inv by (auto simp: auth_inv_def auth_inv_with_def)
  have call: "call \<in> fst ` set (au_verdicts c)" using dict_get_SomeD[OF v] by force
  then have new: "dict_get (au_leases c) call = None" "call \<notin> fst ` set (au_leases c)"
    "call \<notin> aw_call ` set ?ws"
    using calls by (auto simp: calls_ok_def map_of_eq_None_iff)
  let ?c1 = "c\<lparr>au_verdicts := dict_del call (au_verdicts c)\<rparr>"
  have keys: "fst ` set (dict_del call (au_verdicts c)) = fst ` set (au_verdicts c) - {call}"
    by (auto simp: AList.delete_eq image_iff)
  have c': "c' = (if v = Granted then hand_lease call p ?c1 else ?c1)"
    using r v by (auto simp: collect_verdict_def split: verdict.splits)
  have "run_count c' = run_count c"
    using calls v new by (auto simp: c' run_count_def calls_ok_def hand_lease_def dict_sum_set dict_sum_del fun_eq_iff)
  moreover have "calls_ok ?ws c'"
    using calls new keys call by (auto simp: c' calls_ok_def hand_lease_def AList.dom_update)
  moreover have "books cfg (wait_count ?ws) (run_count c) c'" using b by (simp add: c' hand_lease_def)
  moreover have "au_waiters c' = ?ws" by (simp add: c' hand_lease_def)
  ultimately show ?thesis by (simp add: auth_inv_def auth_inv_with_def)
qed

lemma auth_poll_ok:
  assumes cfg: "config_ok cfg" and inv: "auth_inv cfg c"
  shows "\<exists>c' r. auth_poll cfg call k c = Inr (c', r) \<and> auth_inv cfg c'"
proof (cases "collect_verdict call c")
  case None
  obtain c1 where c1: "promote_waiters cfg k c = Inr c1" "auth_inv cfg c1"
    using promote_waiters_ok[OF cfg inv] by blast
  show ?thesis
  proof (cases "collect_verdict call c1")
    case None': None
    show ?thesis
    proof (cases "filter (\<lambda>w. aw_call w = call) (au_waiters c1)")
      case (Cons w ws)
      obtain c2 where "remove_waiter w c1 = Inr c2" "auth_inv cfg c2" using remove_waiter_ok[OF c1(2)] by blast
      then show ?thesis using c1 None None' Cons by (auto simp: auth_poll_def)
    qed (use c1 None None' in \<open>simp add: auth_poll_def\<close>)
  next
    case (Some res)
    then show ?thesis using c1 None collect_verdict_ok[OF c1(2)] by (cases res) (auto simp: auth_poll_def)
  qed
next
  case (Some res)
  then show ?thesis using collect_verdict_ok[OF inv] by (cases res) (auto simp: auth_poll_def)
qed

lemma ctl_update_order:
  "c\<lparr>au_outstanding := a, au_active := b\<rparr> = c\<lparr>au_active := b, au_outstanding := a\<rparr>"
  "c\<lparr>au_verdicts := v, au_waiters := ws\<rparr> = c\<lparr>au_waiters := ws, au_verdicts := v\<rparr>"
  by simp_all

lemma reserve_waiting:
  assumes inv: "auth_inv cfg c" and g: "dict_get (au_peers c) p = Some st"
    and st': "ps_verifying st' = ps_verifying st" "ps_outstanding st' = ps_outstanding st + 1" "peer_ok cfg st'"
    and lim: "ps_outstanding st < ac_per_peer_pending cfg" "au_outstanding c < ac_max_pending cfg"
    and w: "aw_peer w = p" "aw_call w \<notin> used_calls c"
  shows "auth_inv cfg (put_peer p st' (c\<lparr>au_outstanding := au_outstanding c + 1\<rparr>)\<lparr>au_waiters := au_waiters c @ [w]\<rparr>)"
proof -
  let ?ws = "au_waiters c" and ?c' = "put_peer p st' (c\<lparr>au_active := au_active c + 0, au_outstanding := au_outstanding c + 0 + 1\<rparr>)"
  have b: "books cfg (wait_count ?ws) (run_count c) c" and calls: "calls_ok ?ws c"
    using inv by (auto simp: auth_inv_def auth_inv_with_def)
  note peer = books_peer[OF b g]
  have "books cfg ((wait_count ?ws)(p := wait_count ?ws p + 1)) ((run_count c)(p := run_count c p + 0)) ?c'"
    using st' lim peer b by (intro books_put[OF b g]) (auto simp: books_def)
  then have "books cfg (wait_count (?ws @ [w])) (run_count c) ?c'"
    using w(1) wait_count_mid[of ?ws w "[]"] by simp
  moreover have "calls_ok (?ws @ [w]) c"
    using calls w(2) by (auto simp: calls_ok_def used_calls_def)
  ultimately have "auth_inv_with cfg (?ws @ [w]) ?c'" by (intro auth_inv_withI) (auto simp: put_peer_def)
  then show ?thesis by (simp add: auth_inv_def auth_inv_with_def)
qed

lemma reserve_running:
  assumes inv: "auth_inv cfg c" and g: "dict_get (au_peers c) p = Some st"
    and st': "ps_verifying st' = ps_verifying st" "ps_outstanding st' = ps_outstanding st + 1" "peer_ok cfg st'"
    and lim: "ps_outstanding st < ac_per_peer_pending cfg" "au_outstanding c < ac_max_pending cfg"
    and start: "au_active c < ac_max_active cfg" "ps_failures st' + ps_verifying st' < ac_max_failures cfg"
    and call: "call \<notin> used_calls c"
  shows "auth_inv cfg (hand_lease call p (start_peer now p st' (c\<lparr>au_outstanding := au_outstanding c + 1\<rparr>)))"
proof -
  let ?ws = "au_waiters c"
    and ?st = "st'\<lparr>ps_verifying := ps_verifying st' + 1, ps_last_seen := now\<rparr>"
  let ?c1 = "put_peer p ?st (c\<lparr>au_active := au_active c + 1, au_outstanding := au_outstanding c + 1 + 0\<rparr>)"
  have b: "books cfg (wait_count ?ws) (run_count c) c" and calls: "calls_ok ?ws c"
    using inv by (auto simp: auth_inv_def auth_inv_with_def)
  note peer = books_peer[OF b g]
  have ok: "peer_ok cfg ?st" using st'(3) start(2) by (auto simp: peer_ok_def)
  have "books cfg ((wait_count ?ws)(p := wait_count ?ws p + 0)) ((run_count c)(p := run_count c p + 1)) ?c1"
    using st' lim start(1) peer b ok by (intro books_put[OF b g]) (auto simp: books_def)
  then have books: "books cfg (wait_count ?ws) ((run_count c)(p := run_count c p + 1)) ?c1" by simp
  have new: "dict_get (au_leases c) call = None"
    using call by (auto simp: used_calls_def map_of_eq_None_iff)
  let ?c2 = "hand_lease call p ?c1"
  have "run_count ?c2 = (run_count c)(p := run_count c p + 1)"
    using calls new by (auto simp: run_count_def hand_lease_def calls_ok_def dict_sum_set put_peer_def fun_eq_iff)
  moreover have "calls_ok ?ws ?c2"
    using calls call by (auto simp: hand_lease_def calls_ok_def used_calls_def AList.dom_update put_peer_def)
  moreover have "books cfg (wait_count ?ws) ((run_count c)(p := run_count c p + 1)) ?c2"
    using books by (simp add: hand_lease_def)
  ultimately have "auth_inv cfg ?c2" by (simp add: auth_inv_def auth_inv_with_def hand_lease_def)
  then show ?thesis by (simp add: start_peer_def add.commute ctl_update_order(1))
qed

lemma enqueue_waiter_ok:
  assumes "config_ok cfg" "auth_inv cfg c" "dict_get (au_peers c) p = Some st"
    "ps_verifying st' = ps_verifying st" "ps_outstanding st' = ps_outstanding st + 1" "peer_ok cfg st'"
    "ps_outstanding st < ac_per_peer_pending cfg" "au_outstanding c < ac_max_pending cfg" "call \<notin> used_calls c"
  shows "\<exists>c' r. enqueue_waiter cfg call k k2 p (put_peer p st' (c\<lparr>au_outstanding := au_outstanding c + 1\<rparr>)) = Inr (c', r)
    \<and> auth_inv cfg c'"
proof -
  let ?w = "\<lparr>aw_call = call, aw_peer = p, aw_deadline = ck_now k + ac_wait_timeout cfg,
               aw_wait_deadline = ck_mono k + ac_wait_timeout cfg\<rparr>"
  have "auth_inv cfg (put_peer p st' (c\<lparr>au_outstanding := au_outstanding c + 1\<rparr>)\<lparr>au_waiters := au_waiters c @ [?w]\<rparr>)"
    using assms by (intro reserve_waiting) auto
  from promote_waiters_ok[OF assms(1) this] obtain c1 where
    "promote_waiters cfg k (put_peer p st' (c\<lparr>au_outstanding := au_outstanding c + 1\<rparr>)\<lparr>au_waiters := au_waiters c @ [?w]\<rparr>) = Inr c1"
    "auth_inv cfg c1" by blast
  then show ?thesis using auth_poll_ok[OF assms(1), of c1 call k2] by (auto simp: enqueue_waiter_def Let_def)
qed

lemma auth_inv_books:
  assumes "auth_inv cfg c" "books cfg (wait_count (au_waiters c)) (run_count c) c'"
    "au_verdicts c' = au_verdicts c" "au_leases c' = au_leases c" "au_waiters c' = au_waiters c"
  shows "auth_inv cfg c'"
  using assms auth_inv_withI[of cfg "au_waiters c" c c'] by (auto simp: auth_inv_def auth_inv_with_def)

lemma auth_inv_put_same:
  assumes "auth_inv cfg c" "dict_get (au_peers c) p = Some st"
    "ps_verifying st' = ps_verifying st" "ps_outstanding st' = ps_outstanding st" "peer_ok cfg st'"
  shows "auth_inv cfg (put_peer p st' c)"
  using assms auth_inv_with_put_same[of cfg "au_waiters c" c p st st'] by (simp add: auth_inv_def)

lemma auth_inv_drop_idle: "auth_inv cfg c \<Longrightarrow> auth_inv cfg (drop_idle_peer p c)"
  by (rule auth_inv_books) (auto simp: auth_inv_def auth_inv_with_def books_drop_idle)

lemma prune_frame [simp]:
  "au_verdicts (prune_peers cfg now force c) = au_verdicts c" "au_leases (prune_peers cfg now force c) = au_leases c"
  "au_waiters (prune_peers cfg now force c) = au_waiters c" "au_active (prune_peers cfg now force c) = au_active c"
  "au_outstanding (prune_peers cfg now force c) = au_outstanding c" "au_closed (prune_peers cfg now force c) = au_closed c"
  by (simp_all add: prune_peers_def)

lemma auth_inv_prune: "auth_inv cfg c \<Longrightarrow> auth_inv cfg (prune_peers cfg now force c)"
  by (rule auth_inv_books) (auto simp: auth_inv_def auth_inv_with_def books_prune)

lemma admit_peer_ok:
  assumes cfg: "config_ok cfg" and inv: "auth_inv cfg c" and g: "dict_get (au_peers c) p = Some st"
    and call: "call \<notin> used_calls c"
  shows "\<exists>c' r. admit_peer cfg call k k2 p st c = Inr (c', r) \<and> auth_inv cfg c'"
proof -
  have b: "books cfg (wait_count (au_waiters c)) (run_count c) c"
    using inv by (auto simp: auth_inv_def auth_inv_with_def)
  obtain st1 d where cd: "cooldown_denial cfg (ck_now k) st = (st1, d)" by fastforce
  note st1 = cooldown_denial_facts(1-3)[OF cd]
  have ok1: "peer_ok cfg st1" using st1(3) cfg books_peer(5)[OF b g] by simp
  let ?st2 = "st1\<lparr>ps_outstanding := ps_outstanding st1 + 1, ps_last_seen := ck_now k\<rparr>"
  have ok2: "peer_ok cfg ?st2" using ok1 by (simp add: peer_ok_def)
  obtain st3 go where cs: "can_start cfg (ck_now k) (au_active c) ?st2 = (st3, go)" by fastforce
  have st3: "ps_verifying st3 = ps_verifying st" "ps_outstanding st3 = ps_outstanding st + 1" "peer_ok cfg st3"
    using can_start_facts(1-3)[OF cs] ok2 cfg st1 by auto
  have inv1: "auth_inv cfg (put_peer p st1 c)" using auth_inv_put_same[OF inv g st1(1,2) ok1] .
  consider (locked) dd where "d = Some dd" | (peer) "d = None" "ac_per_peer_pending cfg \<le> ps_outstanding st1"
    | (full) "d = None" "\<not> ac_per_peer_pending cfg \<le> ps_outstanding st1" "ac_max_pending cfg \<le> au_outstanding c"
    | (room) "d = None" "\<not> ac_per_peer_pending cfg \<le> ps_outstanding st1" "\<not> ac_max_pending cfg \<le> au_outstanding c"
    by (cases d) auto
  then show ?thesis
  proof cases
    case room
    have lim: "ps_outstanding st < ac_per_peer_pending cfg" "au_outstanding c < ac_max_pending cfg"
      using room st1 by auto
    note queue2 = enqueue_waiter_ok[OF cfg inv g _ _ ok2 lim call, of k k2]
      and queue3 = enqueue_waiter_ok[OF cfg inv g st3 lim call, of k k2]
    have "auth_inv cfg (hand_lease call p (start_peer (ck_now k) p st3 (c\<lparr>au_outstanding := au_outstanding c + 1\<rparr>)))"
      if go using reserve_running[OF inv g st3 lim _ _ call] can_start_facts(4)[OF cs that] by simp
    then show ?thesis using room cd cs queue2 queue3 st1
      by (cases go) (auto simp: admit_peer_def Let_def)
  qed (use cd inv1 in \<open>auto simp: admit_peer_def auth_inv_drop_idle\<close>)
qed

lemma used_calls_frame [simp]:
  "used_calls (prune_peers cfg now force c) = used_calls c" "used_calls (put_peer p st c) = used_calls c"
  by (simp_all add: used_calls_def)

lemma state_for_peer_ok:
  assumes cfg: "config_ok cfg" and inv: "auth_inv cfg c" and s: "state_for_peer cfg p now c = (c', r)"
  shows "auth_inv cfg c' \<and> used_calls c' = used_calls c \<and> (\<forall>st. r = Some st \<longrightarrow> dict_get (au_peers c') p = Some st)"
proof (cases "dict_get (au_peers c) p")
  case (Some st)
  have b: "books cfg (wait_count (au_waiters c)) (run_count c) c"
    using inv by (auto simp: auth_inv_def auth_inv_with_def)
  have "auth_inv cfg (put_peer p (st\<lparr>ps_last_seen := now\<rparr>) c)"
    using books_peer(5)[OF b Some] by (intro auth_inv_put_same[OF inv Some]) (auto simp: peer_ok_def)
  moreover have "dict_get (au_peers (put_peer p (st\<lparr>ps_last_seen := now\<rparr>) c)) p = Some (st\<lparr>ps_last_seen := now\<rparr>)"
    by (simp add: put_peer_def)
  ultimately show ?thesis using s Some by (auto simp: state_for_peer_def Let_def)
next
  case None
  define c1 where "c1 = (if ac_max_peers cfg \<le> int (length (au_peers c)) then prune_peers cfg now True c else c)"
  have inv1: "auth_inv cfg c1" using inv by (simp add: c1_def auth_inv_prune)
  have new: "dict_get (au_peers c1) p = None"
    using None by (auto simp: c1_def prune_peers_def map_of_eq_None_iff)
  have same: "used_calls c1 = used_calls c" by (simp add: c1_def)
  let ?st = "\<lparr>ps_failures = 0, ps_verifying = 0, ps_outstanding = 0,
    ps_cooldown_until = 0, ps_last_seen = now, ps_last_failure = 0\<rparr>"
  have "auth_inv cfg (put_peer p ?st c1)" if "\<not> ac_max_peers cfg \<le> int (length (au_peers c1))"
    using inv1 that
    by (intro auth_inv_books[OF inv1] books_fresh_peer[OF _ new _ cfg]) (auto simp: auth_inv_def auth_inv_with_def)
  moreover have "dict_get (au_peers (put_peer p ?st c1)) p = Some ?st" by (simp add: put_peer_def)
  moreover have "(c', r) = (if ac_max_peers cfg \<le> int (length (au_peers c1)) then (c1, None)
      else (put_peer p ?st c1, Some ?st))"
    using s unfolding state_for_peer_def None Let_def c1_def by simp
  ultimately show ?thesis using inv1 same by (simp split: if_splits)
qed

lemma auth_acquire_ok:
  assumes cfg: "config_ok cfg" and inv: "auth_inv cfg c" and call: "call \<notin> used_calls c" and p: "p \<noteq> []"
  shows "\<exists>c' r. auth_acquire cfg call k k2 p c = Inr (c', r) \<and> auth_inv cfg c'"
proof -
  let ?c1 = "prune_peers cfg (ck_now k) False c"
  have inv1: "auth_inv cfg ?c1" by (rule auth_inv_prune[OF inv])
  obtain c2 r where s: "state_for_peer cfg p (ck_now k) ?c1 = (c2, r)" by fastforce
  note c2 = state_for_peer_ok[OF cfg inv1 s]
  have admit: "\<exists>c' res. admit_peer cfg call k k2 p st c2 = Inr (c', res) \<and> auth_inv cfg c'" if "r = Some st" for st
    using c2 that call by (intro admit_peer_ok[OF cfg]) auto
  show ?thesis
  proof (cases "dict_get (au_peers ?c1) p")
    case (Some st)
    let ?st = "st\<lparr>ps_last_seen := ck_now k\<rparr>"
    have "r = Some ?st" "c2 = put_peer p ?st ?c1" using s Some by (auto simp: state_for_peer_def Let_def)
    then show ?thesis using admit[of ?st] Some inv p by (auto simp: auth_acquire_def Let_def)
  next
    case None
    then show ?thesis using admit s c2 inv inv1 p by (cases r) (auto simp: auth_acquire_def Let_def)
  qed
qed

lemma close_loop_ok: "auth_inv cfg c \<Longrightarrow> au_waiters c = ws \<Longrightarrow>
    \<exists>c'. close_loop ws c = Inr c' \<and> auth_inv cfg c' \<and> au_waiters c' = []"
proof (induction ws arbitrary: c)
  case (Cons w ws)
  let ?d = "deny Capacity_Full 1" and ?c1 = "c\<lparr>au_waiters := ws\<rparr>"
  have inv: "auth_inv_with cfg (w # ws) ?c1" using Cons.prems by (simp add: auth_inv_def auth_inv_with_def)
  have b: "books cfg (wait_count (w # ws)) (run_count c) ?c1" using inv by (simp add: auth_inv_with_def)
  obtain st where g: "dict_get (au_peers ?c1) (aw_peer w) = Some st"
    using books_absent(2)[OF b] wait_count_pos[of w "w # ws"] by fastforce
  obtain c' where c': "release_reservation (aw_peer w) st (decide w (Refused ?d) ?c1) = Inr c'"
    "auth_inv_with cfg ws c'" "au_waiters c' = ws"
    using refuse_waiter[OF inv _ g refl refl books_peer(5)[OF b g], of ?d] by auto
  have "remove_waiter w (decide w (Refused ?d) c) = Inr c'"
    using c'(1) g Cons.prems by (simp add: remove_waiter_def decide_def ctl_update_order(2))
  moreover have "auth_inv cfg c'" using c' by (simp add: auth_inv_def)
  ultimately show ?case using Cons.IH[of c'] c'(3) by simp
qed simp

lemma auth_close_ok: "auth_inv cfg c \<Longrightarrow> \<exists>c'. auth_close c = Inr c' \<and> auth_inv cfg c' \<and> au_waiters c' = []"
  using close_loop_ok[of cfg "c\<lparr>au_closed := True\<rparr>" "au_waiters c"]
  by (simp add: auth_close_def auth_inv_def auth_inv_with_def)

lemma run_count_ge:
  assumes "dict_get (au_leases c) call = Some (p, False)"
  shows "1 \<le> run_count c p"
proof -
  have "1 \<le> dict_sum (\<lambda>(q, finished). of_bool (q = p \<and> \<not> finished)) (au_leases c)"
    using dict_sum_ge_member[of "au_leases c" "\<lambda>(q, finished). of_bool (q = p \<and> \<not> finished)" call "(p, False)"] assms
    by (auto split: prod.splits)
  moreover have "0 \<le> dict_sum (\<lambda>(q, v). of_bool (q = p \<and> v = Granted)) (au_verdicts c)"
    by (rule dict_sum_nonneg) (auto split: prod.splits)
  ultimately show ?thesis by (simp add: run_count_def)
qed

lemma auth_finish_ok:
  assumes cfg: "config_ok cfg" and inv: "auth_inv cfg c"
  shows "\<exists>c'. auth_finish cfg call out k c = Inr c' \<and> auth_inv cfg c'"
proof (cases "\<exists>p. dict_get (au_leases c) call = Some (p, False)")
  case True
  then obtain p where l: "dict_get (au_leases c) call = Some (p, False)" by blast
  let ?ws = "au_waiters c"
  have b: "books cfg (wait_count ?ws) (run_count c) c" and calls: "calls_ok ?ws c"
    using inv by (auto simp: auth_inv_def auth_inv_with_def)
  have pos: "1 \<le> run_count c p" by (rule run_count_ge[OF l])
  then obtain st where g: "dict_get (au_peers c) p = Some st" using books_absent(1)[OF b] by fastforce
  note peer = books_peer[OF b g]
  define st1 where "st1 = st\<lparr>ps_verifying := ps_verifying st - 1, ps_outstanding := ps_outstanding st - 1,
    ps_last_seen := ck_now k\<rparr>"
  define st2 where "st2 = (if out = Succeeded
     then st1\<lparr>ps_failures := 0, ps_cooldown_until := 0, ps_last_failure := 0\<rparr>
     else st1\<lparr>ps_failures := ps_failures st1 + 1, ps_last_failure := ck_now k,
       ps_cooldown_until := (if ac_max_failures cfg \<le> ps_failures st1 + 1
         then ck_now k + ac_cooldown cfg else ps_cooldown_until st1)\<rparr>)"
  have st2: "ps_verifying st2 = ps_verifying st - 1" "ps_outstanding st2 = ps_outstanding st - 1"
    by (auto simp: st2_def st1_def)
  have ok: "peer_ok cfg st2" using peer(1,5) pos cfg by (auto simp: st2_def st1_def peer_ok_def config_ok_def)
  let ?c1 = "put_peer p st2 (c\<lparr>au_active := au_active c + (-1), au_outstanding := au_outstanding c + (-1) + 0\<rparr>)"
  have "books cfg ((wait_count ?ws)(p := wait_count ?ws p + 0)) ((run_count c)(p := run_count c p + (-1))) ?c1"
    using st2 ok peer pos b by (intro books_put[OF b g]) (auto simp: books_def)
  then have books: "books cfg (wait_count ?ws) ((run_count c)(p := run_count c p - 1)) ?c1" by simp
  let ?c2 = "put_peer p st2 (c\<lparr>au_leases := dict_set call (p, True) (au_leases c),
      au_active := au_active c - 1, au_outstanding := au_outstanding c - 1\<rparr>)"
  have eq: "?c2 = ?c1\<lparr>au_leases := dict_set call (p, True) (au_leases c)\<rparr>" by (simp add: put_peer_def)
  have "run_count ?c2 = (run_count c)(p := run_count c p - 1)"
    using calls l by (auto simp: run_count_def calls_ok_def dict_sum_set put_peer_def fun_eq_iff)
  moreover have "fst ` set (dict_set call (p, True) (au_leases c)) = fst ` set (au_leases c)"
    using dict_get_SomeD[OF l] by (force simp: AList.dom_update)
  then have "calls_ok ?ws ?c2" using calls by (simp add: calls_ok_def put_peer_def)
  moreover have "books cfg (wait_count ?ws) ((run_count c)(p := run_count c p - 1)) ?c2"
    unfolding eq using books by simp
  ultimately have "auth_inv cfg ?c2" by (simp add: auth_inv_def auth_inv_with_def)
  then have "auth_inv cfg (drop_idle_peer p ?c2)" by (rule auth_inv_drop_idle)
  moreover have ge1: "1 \<le> ps_verifying st" "1 \<le> ps_outstanding st"
    using peer(1,2,4) pos by linarith+
  moreover note fin = promote_waiters_ok[OF cfg, of "drop_idle_peer p ?c2" k]
  moreover have "auth_finish cfg call out k c = promote_waiters cfg k (drop_idle_peer p ?c2)"
    using l g ge1 by (simp add: auth_finish_def Let_def st2_def st1_def)
  ultimately show ?thesis by auto
qed (use inv in \<open>auto simp: auth_finish_def split: option.splits prod.splits bool.splits\<close>)

lemma auth_step_ok:
  assumes "config_ok cfg" "auth_inv cfg c"
  shows "\<exists>c'. auth_step cfg c e = Inr c' \<and> auth_inv cfg c'"
proof (cases e)
  case (Auth_Acquire call k k2 p)
  then show ?thesis using assms auth_acquire_ok[OF assms, of call p k k2] by fastforce
next
  case (Auth_Poll call k)
  then show ?thesis using assms auth_poll_ok[OF assms, of call k] by fastforce
next
  case (Auth_Finish call out k)
  then show ?thesis using auth_finish_ok[OF assms] by simp
next
  case Auth_Close
  then show ?thesis using auth_close_ok[OF assms(2)] by auto
qed

lemma auth_run_ok:
  assumes "config_ok cfg"
  shows "auth_inv cfg c \<Longrightarrow> \<exists>c'. auth_run cfg c es = Inr c' \<and> auth_inv cfg c'"
proof (induction es arbitrary: c)
  case (Cons e es)
  from auth_step_ok[OF assms Cons.prems, of e] Cons.IH show ?case by auto
qed simp

subsection \<open>The counters count the verifications\<close>

lemma sum_list_of_bool_key:
  "distinct ks \<Longrightarrow> (\<Sum>k\<leftarrow>ks. of_bool (x = k \<and> P)) = (of_bool (P \<and> x \<in> set ks) :: int)"
  by (induction ks) auto

lemma dict_sum_by_key:
  "distinct ks \<Longrightarrow> (\<Sum>k\<leftarrow>ks. dict_sum (\<lambda>v. of_bool (g v = k \<and> P v)) d) = dict_sum (\<lambda>v. of_bool (P v \<and> g v \<in> set ks)) d"
  by (induction d) (simp_all add: sum_list_addf sum_list_of_bool_key)

lemma dict_sum_cong: "(\<And>kv. kv \<in> set d \<Longrightarrow> f (snd kv) = g (snd kv)) \<Longrightarrow> dict_sum f d = dict_sum g d"
  by (induction d) auto

lemma dict_sum_bool_pos: "kv \<in> set d \<Longrightarrow> P (snd kv) \<Longrightarrow> 1 \<le> dict_sum (\<lambda>v. of_bool (P v)) d"
proof (induction d)
  case (Cons x d)
  have "0 \<le> dict_sum (\<lambda>v. of_bool (P v)) d" by (rule dict_sum_nonneg) auto
  with Cons show ?case by auto
qed simp

lemma dict_sum_bool_nonneg: "0 \<le> dict_sum (\<lambda>v. of_bool (P v)) d"
  by (rule dict_sum_nonneg) auto

lemma dict_sum_keys: "dict_ok d \<Longrightarrow> dict_sum f d = (\<Sum>k\<leftarrow>map fst d. case dict_get d k of None \<Rightarrow> 0 | Some v \<Rightarrow> f v)"
proof (induction d)
  case (Cons kv d)
  obtain k v where kv: "kv = (k, v)" by fastforce
  have "(\<Sum>x\<leftarrow>map fst d. case dict_get (kv # d) x of None \<Rightarrow> 0 | Some v \<Rightarrow> f v) =
      (\<Sum>x\<leftarrow>map fst d. case dict_get d x of None \<Rightarrow> 0 | Some v \<Rightarrow> f v)"
    using Cons.prems kv by (intro arg_cong[where f = sum_list] map_cong) auto
  then show ?case using Cons kv by simp
qed simp

text \<open>The verifications that run now: unfinished leases, and grants not yet collected.\<close>

definition running :: "auth_ctl \<Rightarrow> int" where
  "running c = dict_sum (\<lambda>l. of_bool (\<not> snd l)) (au_leases c) + dict_sum (\<lambda>v. of_bool (snd v = Granted)) (au_verdicts c)"

lemma run_count_alt: "run_count c p =
    dict_sum (\<lambda>l. of_bool (fst l = p \<and> \<not> snd l)) (au_leases c) +
    dict_sum (\<lambda>v. of_bool (fst v = p \<and> snd v = Granted)) (au_verdicts c)"
  by (simp only: run_count_def split_def)

lemma sum_run_count:
  assumes ks: "distinct ks" and out: "\<And>p. p \<notin> set ks \<Longrightarrow> run_count c p = 0"
  shows "(\<Sum>k\<leftarrow>ks. run_count c k) = running c"
proof -
  have zero: "dict_sum (\<lambda>l. of_bool (fst l = p \<and> \<not> snd l)) (au_leases c) = 0 \<and>
      dict_sum (\<lambda>v. of_bool (fst v = p \<and> snd v = Granted)) (au_verdicts c) = 0" if "p \<notin> set ks" for p
    using out[OF that] dict_sum_bool_nonneg[of "\<lambda>l. fst l = p \<and> \<not> snd l" "au_leases c"]
      dict_sum_bool_nonneg[of "\<lambda>v. fst v = p \<and> snd v = Granted" "au_verdicts c"] by (simp add: run_count_alt)
  have "fst (snd kv) \<in> set ks" if "kv \<in> set (au_leases c)" "\<not> snd (snd kv)" for kv
    using dict_sum_bool_pos[OF that(1), of "\<lambda>l. fst l = fst (snd kv) \<and> \<not> snd l"] zero[of "fst (snd kv)"] that by auto
  moreover have "fst (snd kv) \<in> set ks" if "kv \<in> set (au_verdicts c)" "snd (snd kv) = Granted" for kv
    using dict_sum_bool_pos[OF that(1), of "\<lambda>v. fst v = fst (snd kv) \<and> snd v = Granted"] zero[of "fst (snd kv)"] that
    by auto
  ultimately show ?thesis
    by (auto simp: run_count_alt sum_list_addf dict_sum_by_key[OF ks] running_def intro!: arg_cong2[where f = "(+)"] dict_sum_cong)
qed

lemma sum_wait_count:
  assumes ks: "distinct ks" and out: "\<And>p. p \<notin> set ks \<Longrightarrow> wait_count ws p = 0"
  shows "(\<Sum>k\<leftarrow>ks. wait_count ws k) = int (length ws)"
proof -
  have "aw_peer w \<in> set ks" if "w \<in> set ws" for w using wait_count_pos[OF that] out by fastforce
  then show ?thesis
  proof (induction ws)
    case (Cons w ws)
    have "wait_count (w # ws) = (\<lambda>k. of_bool (aw_peer w = k \<and> True) + wait_count ws k)"
      by (auto simp: wait_count_def fun_eq_iff)
    with Cons show ?case by (simp only: sum_list_addf sum_list_of_bool_key[OF ks]) simp
  next
    case Nil
    have "wait_count [] = (\<lambda>_. 0)" by (simp add: wait_count_def fun_eq_iff)
    then show ?case by simp
  qed
qed

lemma books_totals:
  assumes inv: "auth_inv cfg c"
  shows "au_active c = running c" "au_outstanding c = running c + int (length (au_waiters c))"
proof -
  let ?ks = "map fst (au_peers c)"
  have b: "books cfg (wait_count (au_waiters c)) (run_count c) c"
    using inv by (auto simp: auth_inv_def auth_inv_with_def)
  have ok: "distinct ?ks" and int: "peer_int ps_verifying c p = run_count c p"
    "peer_int ps_outstanding c p = run_count c p + wait_count (au_waiters c) p" for p
    using b by (auto simp: books_def)
  have absent: "run_count c p = 0" "wait_count (au_waiters c) p = 0" if "p \<notin> set ?ks" for p
    using books_absent[OF b, of p] that by (auto simp: map_of_eq_None_iff)
  have keys: "dict_sum f (au_peers c) = (\<Sum>k\<leftarrow>?ks. peer_int f c k)" for f
    by (simp add: dict_sum_keys[OF ok] peer_int_def)
  have sums: "(\<Sum>k\<leftarrow>?ks. run_count c k) = running c" "(\<Sum>k\<leftarrow>?ks. wait_count (au_waiters c) k) = int (length (au_waiters c))"
    by (rule sum_run_count[OF ok absent(1)], assumption, rule sum_wait_count[OF ok absent(2)])
  have "au_active c = (\<Sum>k\<leftarrow>?ks. run_count c k)" using b by (simp only: books_def keys int)
  moreover have "au_outstanding c = (\<Sum>k\<leftarrow>?ks. run_count c k + wait_count (au_waiters c) k)"
    using b by (simp only: books_def keys int)
  ultimately show "au_active c = running c" "au_outstanding c = running c + int (length (au_waiters c))"
    using sums by (simp_all only: sum_list_addf)
qed

subsection \<open>A lockout is not forgotten\<close>

definition locked_out :: "auth_config \<Rightarrow> string \<Rightarrow> time \<Rightarrow> auth_ctl \<Rightarrow> bool" where
  "locked_out cfg p T c \<longleftrightarrow>
     (case dict_get (au_peers c) p of None \<Rightarrow> False
      | Some st \<Rightarrow> ac_max_failures cfg \<le> ps_failures st \<and> ps_cooldown_until st = T)"

lemma locked_put:
  "locked_out cfg p T c \<Longrightarrow> (q = p \<Longrightarrow> ac_max_failures cfg \<le> ps_failures st \<and> ps_cooldown_until st = T) \<Longrightarrow>
     locked_out cfg p T (put_peer q st c)"
  by (auto simp: locked_out_def put_peer_def split: option.splits)

lemma locked_frame [simp]:
  "locked_out cfg p T (c\<lparr>au_waiters := x1\<rparr>) = locked_out cfg p T c"
  "locked_out cfg p T (c\<lparr>au_verdicts := x2\<rparr>) = locked_out cfg p T c"
  "locked_out cfg p T (c\<lparr>au_leases := x3\<rparr>) = locked_out cfg p T c"
  "locked_out cfg p T (c\<lparr>au_active := x4\<rparr>) = locked_out cfg p T c"
  "locked_out cfg p T (c\<lparr>au_outstanding := x5\<rparr>) = locked_out cfg p T c"
  "locked_out cfg p T (c\<lparr>au_closed := x6\<rparr>) = locked_out cfg p T c"
  "locked_out cfg p T (decide w v c) = locked_out cfg p T c"
  "locked_out cfg p T (hand_lease n q c) = locked_out cfg p T c"
  by (simp_all add: locked_out_def decide_def hand_lease_def)

lemma locked_drop_idle: "config_ok cfg \<Longrightarrow> locked_out cfg p T c \<Longrightarrow> locked_out cfg p T (drop_idle_peer q c)"
  by (auto simp: locked_out_def drop_idle_peer_def config_ok_def split: option.splits)

lemma locked_release:
  assumes "config_ok cfg" "locked_out cfg p T c" "release_reservation q st c = Inr c'"
    "q = p \<Longrightarrow> ac_max_failures cfg \<le> ps_failures st \<and> ps_cooldown_until st = T"
  shows "locked_out cfg p T c'"
  using assms by (auto simp: release_reservation_def split: if_splits intro!: locked_drop_idle locked_put)

lemma locked_denied:
  assumes "locked_out cfg p T c" "dict_get (au_peers c) p = Some st" "now < T"
  shows "cooldown_denial cfg now st = (st, Some (deny Cooldown (max 1 \<lceil>T - now\<rceil>)))"
    "ac_max_failures cfg \<le> ps_failures st \<and> ps_cooldown_until st = T"
  using assms by (auto simp: locked_out_def cooldown_denial_def)

lemma locked_prune:
  assumes "locked_out cfg p T c" "now < T" "auth_inv cfg c" "config_ok cfg"
  shows "locked_out cfg p T (prune_peers cfg now force c)"
proof -
  have b: "books cfg (wait_count (au_waiters c)) (run_count c) c"
    using assms(3) by (auto simp: auth_inv_def auth_inv_with_def)
  obtain st where g: "dict_get (au_peers c) p = Some st"
    and st: "ac_max_failures cfg \<le> ps_failures st" "ps_cooldown_until st = T"
    using assms(1) by (auto simp: locked_out_def split: option.splits)
  have "dict_ok (au_peers c)" using b by (simp add: books_def)
  moreover have "T = ps_last_failure st + ac_cooldown cfg" using books_peer(5)[OF b g] st by (simp add: peer_ok_def)
  moreover have "ps_failures st \<noteq> 0" using st assms(4) by (auto simp: config_ok_def)
  ultimately show ?thesis
    using g st assms(1,2) by (auto simp: prune_peers_def locked_out_def dict_get_filter)
qed

lemma locked_promote_loop:
  assumes cfg: "config_ok cfg" and now: "ck_now k < T"
  shows "locked_out cfg p T c \<Longrightarrow> promote_loop cfg k sk ws c = Inr c' \<Longrightarrow> locked_out cfg p T c'"
proof (induction ws arbitrary: sk c)
  case (Cons w ws)
  show ?case
  proof (cases "dict_get (au_peers c) (aw_peer w)")
    case None
    then show ?thesis
      using Cons.prems Cons.IH[of "decide w (Refused (deny Peer_Capacity 1)) c" sk] by (auto split: if_splits)
  next
    case (Some st)
    obtain st1 d where cd: "cooldown_denial cfg (ck_now k) st = (st1, d)" by fastforce
    have lk: "d \<noteq> None \<and> st1 = st \<and> ac_max_failures cfg \<le> ps_failures st \<and> ps_cooldown_until st = T"
      if "aw_peer w = p"
      using locked_denied[OF Cons.prems(1) _ now] Some cd that by auto
    have rel: "locked_out cfg p T c1" if "release_reservation (aw_peer w) st1 (decide w v c) = Inr c1" for v c1
      using locked_release[OF cfg _ that] Cons.prems(1) lk by auto
    have start: "locked_out cfg p T (start_peer (ck_now k) (aw_peer w) st2 (decide w Granted c))"
      "locked_out cfg p T (put_peer (aw_peer w) st2 c)" if "d = None" for st2
      using lk that Cons.prems(1) by (auto simp: start_peer_def intro!: locked_put)
    have skip: "locked_out cfg p T c'"
      if "d = None" "promote_loop cfg k (sk @ [w]) ws (put_peer (aw_peer w) st2 c) = Inr c'" for st2
      using Cons.IH[OF start(2)[OF that(1)] that(2)] .
    have drop: "promote_loop cfg k sk ws c1 = Inr c' \<Longrightarrow> locked_out cfg p T c1 \<Longrightarrow> locked_out cfg p T c'" for c1
      by (rule Cons.IH)
    obtain st2 go where cs: "can_start cfg (ck_now k) (au_active c) st1 = (st2, go)" by fastforce
    show ?thesis
      using Cons.prems Some cd cs
      by (cases go) (auto split: if_splits option.splits sum.splits dest: rel intro: drop start skip)
  qed
qed auto

lemma locked_remove_waiter:
  assumes "config_ok cfg" "locked_out cfg p T c" "remove_waiter w c = Inr c'"
  shows "locked_out cfg p T c'"
proof (cases "w \<in> set (au_waiters c)")
  case True
  show ?thesis
  proof (cases "dict_get (au_peers c) (aw_peer w)")
    case (Some st)
    have "release_reservation (aw_peer w) st (c\<lparr>au_waiters := remove1 w (au_waiters c)\<rparr>) = Inr c'"
      using assms(3) True Some by (simp add: remove_waiter_def)
    moreover have "ac_max_failures cfg \<le> ps_failures st \<and> ps_cooldown_until st = T" if "aw_peer w = p"
      using assms(2) Some that by (simp add: locked_out_def)
    ultimately show ?thesis using locked_release[OF assms(1)] assms(2) by (metis locked_frame(1))
  qed (use assms True in \<open>auto simp: remove_waiter_def\<close>)
qed (use assms in \<open>simp add: remove_waiter_def\<close>)

lemma locked_collect: "locked_out cfg p T c \<Longrightarrow> collect_verdict n c = Some (c', r) \<Longrightarrow> locked_out cfg p T c'"
  by (auto simp: collect_verdict_def split: option.splits verdict.splits)

lemma locked_promote:
  "config_ok cfg \<Longrightarrow> ck_now k < T \<Longrightarrow> locked_out cfg p T c \<Longrightarrow> promote_waiters cfg k c = Inr c' \<Longrightarrow> locked_out cfg p T c'"
  using locked_promote_loop by (simp add: promote_waiters_def)

lemma locked_poll:
  assumes cfg: "config_ok cfg" and now: "ck_now k < T" and l: "locked_out cfg p T c"
    and r: "auth_poll cfg call k c = Inr (c', r)"
  shows "locked_out cfg p T c'"
proof (cases "collect_verdict call c")
  case None
  then obtain c1 where c1: "promote_waiters cfg k c = Inr c1"
    using r by (auto simp: auth_poll_def split: sum.splits)
  have l1: "locked_out cfg p T c1" by (rule locked_promote[OF cfg now l c1])
  show ?thesis
  proof (cases "collect_verdict call c1")
    case None': None
    show ?thesis
    proof (cases "filter (\<lambda>w. aw_call w = call) (au_waiters c1)")
      case (Cons w ws)
      have "(if min (aw_deadline w - ck_now k) (aw_wait_deadline w - ck_mono k) \<le> 0
          then (case remove_waiter w c1 of Inl e \<Rightarrow> Inl e | Inr c2 \<Rightarrow> Inr (c2, Denied (deny Timed_Out 1)))
          else Inr (c1, Blocked)) = Inr (c', r)"
        using r None None' c1 Cons by (simp add: auth_poll_def)
      then show ?thesis
        using l1 locked_remove_waiter[OF cfg l1, of w c'] by (cases "remove_waiter w c1") (simp_all split: if_splits)
    qed (use r None None' c1 l1 in \<open>simp add: auth_poll_def\<close>)
  next
    case (Some a)
    then show ?thesis using r None c1 l1 locked_collect[OF l1] by (cases a) (simp add: auth_poll_def)
  qed
next
  case (Some a)
  then show ?thesis using r locked_collect[OF l] by (cases a) (simp add: auth_poll_def)
qed

lemma locked_enqueue:
  assumes cfg: "config_ok cfg" and now: "ck_now k < T" "ck_now k2 < T" and l: "locked_out cfg p T c"
    and r: "enqueue_waiter cfg call k k2 q c = Inr (c', r)"
  shows "locked_out cfg p T c'"
proof -
  let ?w = "\<lparr>aw_call = call, aw_peer = q, aw_deadline = ck_now k + ac_wait_timeout cfg,
               aw_wait_deadline = ck_mono k + ac_wait_timeout cfg\<rparr>"
  obtain c1 where c1: "promote_waiters cfg k (c\<lparr>au_waiters := au_waiters c @ [?w]\<rparr>) = Inr c1"
    "auth_poll cfg call k2 c1 = Inr (c', r)"
    using r by (auto simp: enqueue_waiter_def Let_def split: sum.splits)
  have "locked_out cfg p T c1" using l by (intro locked_promote[OF cfg now(1) _ c1(1)]) simp
  then show ?thesis using locked_poll[OF cfg now(2) _ c1(2)] by blast
qed

lemma locked_admit:
  assumes cfg: "config_ok cfg" and now: "ck_now k < T" "ck_now k2 < T" and l: "locked_out cfg p T c"
    and g: "dict_get (au_peers c) q = Some st" and r: "admit_peer cfg call k k2 q st c = Inr (c', r)"
  shows "locked_out cfg p T c'"
proof (cases "q = p")
  case True
  note d = locked_denied[OF l g[unfolded True] now(1)]
  have "locked_out cfg p T (drop_idle_peer q (put_peer q st c))"
    using d(2) by (intro locked_drop_idle[OF cfg] locked_put[OF l]) auto
  then show ?thesis using r d(1) True by (auto simp: admit_peer_def)
next
  case False
  have put: "locked_out cfg p T (put_peer q st' c1)" if "locked_out cfg p T c1" for st' c1
    using locked_put[OF that] False by auto
  have put2: "locked_out cfg p T (put_peer q st' (c\<lparr>au_outstanding := n\<rparr>))" for st' n
    by (rule put) (simp add: l)
  have "locked_out cfg p T (hand_lease call q (start_peer (ck_now k) q st' (c\<lparr>au_outstanding := n\<rparr>)))" for st' n
    by (simp add: start_peer_def put l)
  note lease = this
  obtain st1 d where cd: "cooldown_denial cfg (ck_now k) st = (st1, d)" by fastforce
  let ?st2 = "st1\<lparr>ps_outstanding := ps_outstanding st1 + 1, ps_last_seen := ck_now k\<rparr>"
  obtain st3 go where cs: "can_start cfg (ck_now k) (au_active c) ?st2 = (st3, go)" by fastforce
  have queue: "locked_out cfg p T c'"
    if "enqueue_waiter cfg call k k2 q (put_peer q st' (c\<lparr>au_outstanding := n\<rparr>)) = Inr (c', r)" for st' n
    by (rule locked_enqueue[OF cfg now put2 that])
  show ?thesis
    using r put[OF l] lease queue locked_drop_idle[OF cfg put[OF l]] cd cs
    by (cases d; cases go) (auto simp: admit_peer_def Let_def split: if_splits)
qed

lemma locked_state_for_peer:
  assumes "config_ok cfg" "auth_inv cfg c" "now < T" "locked_out cfg p T c" "state_for_peer cfg q now c = (c', r)"
  shows "locked_out cfg p T c'"
proof (cases "dict_get (au_peers c) q")
  case (Some st)
  have "locked_out cfg p T (put_peer q (st\<lparr>ps_last_seen := now\<rparr>) c)"
    using assms(4) Some by (intro locked_put) (auto simp: locked_out_def)
  then show ?thesis using assms(5) Some by (auto simp: state_for_peer_def Let_def)
next
  case None
  then have "q \<noteq> p" using assms(4) by (auto simp: locked_out_def)
  moreover note locked_prune[OF assms(4,3,2,1), of True]
  ultimately show ?thesis
    using assms(4,5) None by (auto simp: state_for_peer_def Let_def locked_put split: if_splits)
qed

lemma locked_acquire:
  assumes cfg: "config_ok cfg" and inv: "auth_inv cfg c" and now: "ck_now k < T" "ck_now k2 < T"
    and l: "locked_out cfg p T c" and r: "auth_acquire cfg call k k2 q c = Inr (c', r)"
  shows "locked_out cfg p T c'"
proof (cases "au_closed c")
  case True
  then show ?thesis using r l by (auto simp: auth_acquire_def split: if_splits)
next
  case False
  let ?c1 = "prune_peers cfg (ck_now k) False c"
  have q: "q \<noteq> []" using r by (auto simp: auth_acquire_def)
  have inv1: "auth_inv cfg ?c1" by (rule auth_inv_prune[OF inv])
  have l1: "locked_out cfg p T ?c1" by (rule locked_prune[OF l now(1) inv cfg])
  obtain c2 s where s: "state_for_peer cfg q (ck_now k) ?c1 = (c2, s)" by fastforce
  have l2: "locked_out cfg p T c2" by (rule locked_state_for_peer[OF cfg inv1 now(1) l1 s])
  note c2 = state_for_peer_ok[OF cfg inv1 s]
  show ?thesis
  proof (cases "dict_get (au_peers ?c1) q")
    case (Some st)
    let ?st = "st\<lparr>ps_last_seen := ck_now k\<rparr>"
    have eq: "s = Some ?st" "c2 = put_peer q ?st ?c1" using s Some by (auto simp: state_for_peer_def Let_def)
    have "admit_peer cfg call k k2 q ?st c2 = Inr (c', r)"
      using r False q Some eq by (simp add: auth_acquire_def Let_def)
    then show ?thesis using locked_admit[OF cfg now l2] c2 eq by blast
  next
    case None
    show ?thesis
    proof (cases "ac_max_pending cfg \<le> au_outstanding ?c1 \<or> s = None")
      case True
      then show ?thesis using r False q None s l1 l2 by (cases s) (auto simp: auth_acquire_def Let_def split: if_splits)
    next
      case False': False
      then obtain st where st: "s = Some st" by auto
      have "admit_peer cfg call k k2 q st c2 = Inr (c', r)"
        using r False False' q None s st by (simp add: auth_acquire_def Let_def)
      then show ?thesis using locked_admit[OF cfg now l2] c2 st by blast
    qed
  qed
qed

lemma locked_admit_denied:
  assumes "locked_out cfg p T c" "ck_now k < T" "dict_get (au_peers c) p = Some st"
    "admit_peer cfg call k k2 p st c = Inr (c', r)"
  shows "r = Denied (deny Cooldown (max 1 \<lceil>T - ck_now k\<rceil>))"
  using assms locked_denied(1)[OF assms(1,3,2)] by (simp add: admit_peer_def)

lemma locked_acquire_denied:
  assumes cfg: "config_ok cfg" and inv: "auth_inv cfg c" and now: "ck_now k < T"
    and l: "locked_out cfg p T c" and r: "auth_acquire cfg call k k2 p c = Inr (c', r)" and opn: "\<not> au_closed c"
  shows "r = Denied (deny Cooldown (max 1 \<lceil>T - ck_now k\<rceil>))"
proof -
  let ?c1 = "prune_peers cfg (ck_now k) False c"
  have l1: "locked_out cfg p T ?c1" by (rule locked_prune[OF l now inv cfg])
  then obtain st where g: "dict_get (au_peers ?c1) p = Some st" by (auto simp: locked_out_def split: option.splits)
  let ?st = "st\<lparr>ps_last_seen := ck_now k\<rparr>"
  have "locked_out cfg p T (put_peer p ?st ?c1)" using l1 g by (intro locked_put) (auto simp: locked_out_def)
  moreover have "dict_get (au_peers (put_peer p ?st ?c1)) p = Some ?st" by (simp add: put_peer_def)
  moreover have "admit_peer cfg call k k2 p ?st (put_peer p ?st ?c1) = Inr (c', r)"
    using r g opn by (auto simp: auth_acquire_def Let_def split: if_splits)
  ultimately show ?thesis using locked_admit_denied now by blast
qed

lemma locked_close_loop:
  "config_ok cfg \<Longrightarrow> locked_out cfg p T c \<Longrightarrow> close_loop ws c = Inr c' \<Longrightarrow> locked_out cfg p T c'"
proof (induction ws arbitrary: c)
  case (Cons w ws)
  then obtain c1 where "remove_waiter w (decide w (Refused (deny Capacity_Full 1)) c) = Inr c1" "close_loop ws c1 = Inr c'"
    by (auto split: sum.splits)
  then show ?case using Cons.IH Cons.prems locked_remove_waiter by (metis locked_frame(7))
qed simp

lemma locked_not_running:
  assumes "auth_inv cfg c" "locked_out cfg p T c"
  shows "run_count c p = 0"
proof -
  have b: "books cfg (wait_count (au_waiters c)) (run_count c) c"
    using assms(1) by (auto simp: auth_inv_def auth_inv_with_def)
  obtain st where g: "dict_get (au_peers c) p = Some st" "ac_max_failures cfg \<le> ps_failures st"
    using assms(2) by (auto simp: locked_out_def split: option.splits)
  then show ?thesis using books_peer[OF b g(1)] by (auto simp: peer_ok_def)
qed

lemma locked_finish:
  assumes cfg: "config_ok cfg" and inv: "auth_inv cfg c" and now: "ck_now k < T"
    and l: "locked_out cfg p T c" and r: "auth_finish cfg call out k c = Inr c'"
  shows "locked_out cfg p T c'"
proof (cases "\<exists>q. dict_get (au_leases c) call = Some (q, False)")
  case True
  then obtain q where q: "dict_get (au_leases c) call = Some (q, False)" by blast
  then have "q \<noteq> p" using run_count_ge[OF q] locked_not_running[OF inv l] by auto
  then have put: "locked_out cfg p T (drop_idle_peer q (put_peer q st (c\<lparr>au_leases := ls, au_active := a, au_outstanding := out\<rparr>)))"
    for st ls a out using l by (intro locked_drop_idle[OF cfg] locked_put) auto
  obtain st2 where "promote_waiters cfg k (drop_idle_peer q (put_peer q st2 (c\<lparr>au_leases := dict_set call (q, True) (au_leases c),
      au_active := au_active c - 1, au_outstanding := au_outstanding c - 1\<rparr>))) = Inr c'"
    using r q by (auto simp: auth_finish_def Let_def split: option.splits if_splits)
  then show ?thesis using locked_promote[OF cfg now put] by blast
qed (use r l in \<open>auto simp: auth_finish_def split: option.splits prod.splits bool.splits\<close>)

lemma locked_step:
  assumes cfg: "config_ok cfg" and inv: "auth_inv cfg c" and now: "\<forall>t \<in> event_times e. t < T"
    and l: "locked_out cfg p T c" and r: "auth_step cfg c e = Inr c'"
  shows "locked_out cfg p T c'"
proof (cases e)
  case (Auth_Acquire call k k2 q)
  then show ?thesis using r l now locked_acquire[OF cfg inv _ _ l, of k k2 call q c']
    by (auto split: if_splits sum.splits)
next
  case (Auth_Poll call k)
  then show ?thesis using r l now locked_poll[OF cfg _ l, of k call c'] by (auto split: if_splits sum.splits)
next
  case (Auth_Finish call out k)
  then show ?thesis using r now locked_finish[OF cfg inv _ l] by auto
next
  case Auth_Close
  then show ?thesis using r l locked_close_loop[OF cfg, of p T "c\<lparr>au_closed := True\<rparr>"] by (simp add: auth_close_def)
qed

lemma locked_run:
  assumes cfg: "config_ok cfg"
  shows "auth_inv cfg c \<Longrightarrow> locked_out cfg p T c \<Longrightarrow> \<forall>e \<in> set es. \<forall>t \<in> event_times e. t < T \<Longrightarrow>
    auth_run cfg c es = Inr c' \<Longrightarrow> locked_out cfg p T c'"
proof (induction es arbitrary: c)
  case (Cons e es)
  obtain c1 where c1: "auth_step cfg c e = Inr c1" "auth_inv cfg c1" using auth_step_ok[OF cfg Cons.prems(1)] by blast
  have "locked_out cfg p T c1" using Cons.prems by (intro locked_step[OF cfg Cons.prems(1) _ Cons.prems(2) c1(1)]) auto
  then show ?case using Cons c1 by auto
qed simp

subsection \<open>Properties\<close>

text \<open>C4. For every configuration the constructor accepts and every history of acquisitions, wake-ups,
  lease ends and closes, whatever the clocks read: no method ever raises its accounting
  \<open>RuntimeError\<close>; the \<open>active\<close> counter is the number of verifications that really run and never exceeds
  \<open>max_active\<close>; the \<open>outstanding\<close> counter is that number plus the queue and never exceeds
  \<open>max_pending\<close>; the peer table never outgrows \<open>max_peers\<close>; and no peer has more failures and running
  attempts together than \<open>max_failures\<close>, so concurrent guesses cannot overrun the limit.\<close>

theorem auth_books_balance:
  assumes "auth_config_make max_failures cooldown max_peers prune_interval wait_timeout max_pending max_active per_peer = Inr cfg"
  shows "\<exists>c. auth_run cfg (auth_init t) es = Inr c \<and>
    au_active c = running c \<and> running c \<le> max_active \<and>
    au_outstanding c = running c + int (length (au_waiters c)) \<and> au_outstanding c \<le> max_pending \<and>
    int (length (au_peers c)) \<le> max_peers \<and>
    list_all (\<lambda>(p, st). ps_failures st + ps_verifying st \<le> max_failures \<and> 0 \<le> ps_verifying st) (au_peers c)"
proof -
  have cfg: "config_ok cfg" using config_ok_make[OF assms] .
  have fields: "ac_max_active cfg = max_active" "ac_max_pending cfg = max_pending" "ac_max_peers cfg = max_peers"
    "ac_max_failures cfg = max_failures"
    using assms by (auto simp: auth_config_make_def Let_def split: if_splits)
  obtain c where c: "auth_run cfg (auth_init t) es = Inr c" "auth_inv cfg c"
    using auth_run_ok[OF cfg auth_inv_init[OF cfg]] by blast
  have b: "books cfg (wait_count (au_waiters c)) (run_count c) c"
    using c(2) by (auto simp: auth_inv_def auth_inv_with_def)
  have "peer_ok cfg st" if "(p, st) \<in> set (au_peers c)" for p st
    using b dict_mem_get[OF _ that] by (auto simp: books_def)
  then have peers: "list_all (\<lambda>(p, st). ps_failures st + ps_verifying st \<le> max_failures \<and> 0 \<le> ps_verifying st) (au_peers c)"
    by (auto simp: list_all_iff peer_ok_def fields)
  have limits: "au_active c \<le> max_active" "au_outstanding c \<le> max_pending" "int (length (au_peers c)) \<le> max_peers"
    using b by (simp_all add: books_def fields)
  show ?thesis using c(1) peers limits books_totals[OF c(2)] by (intro exI[of _ c]) auto
qed

definition clocks_at :: "time \<Rightarrow> clocks" where
  "clocks_at t = \<lparr>ck_now = t, ck_mono = t, ck_scan = (\<lambda>_. t)\<rparr>"

definition small_config :: auth_config where
  "small_config = \<lparr>ac_max_failures = 2, ac_cooldown = 30, ac_max_peers = 4, ac_prune_interval = 60,
     ac_wait_timeout = 5, ac_max_pending = 3, ac_max_active = 1, ac_per_peer_pending = 3\<rparr>"

lemma auth_books_balance_witness:
  "\<exists>c. auth_run small_config (auth_init 0)
       [Auth_Acquire 0 (clocks_at 1) (clocks_at 1) ''10.0.0.1'', Auth_Acquire 1 (clocks_at 1) (clocks_at 2) ''10.0.0.2'',
        Auth_Finish 0 Failed (clocks_at 3), Auth_Poll 1 (clocks_at 3)] = Inr c \<and>
    au_active c = running c \<and> running c \<le> 1 \<and>
    au_outstanding c = running c + int (length (au_waiters c)) \<and> au_outstanding c \<le> 3 \<and>
    int (length (au_peers c)) \<le> 4 \<and>
    list_all (\<lambda>(p, st). ps_failures st + ps_verifying st \<le> 2 \<and> 0 \<le> ps_verifying st) (au_peers c)"
  by (rule auth_books_balance[where cooldown = 30 and prune_interval = 60 and wait_timeout = 5 and per_peer = None])
    (simp add: auth_config_make_def small_config_def)

text \<open>C5. A lockout lasts: once a peer has reached \<open>max_failures\<close> and is locked out until \<open>T\<close>, then through
  any further history whose clock readings stay below \<open>T\<close> (other peers' traffic, forced pruning of a
  full peer table, lease ends, even the close of the controller) it stays locked out until the same
  \<open>T\<close>, none of its verifications runs, and any attempt it makes on the open controller is
  refused with a \<open>Retry-After\<close> that reaches \<open>T\<close>.\<close>

theorem lockout_holds:
  assumes "auth_config_make max_failures cooldown max_peers prune_interval wait_timeout max_pending max_active per_peer = Inr cfg"
    and "auth_run cfg (auth_init t) es = Inr c" and "locked_out cfg p T c"
    and "list_all (\<lambda>e. \<forall>s \<in> event_times e. s < T) es'" and "auth_run cfg c es' = Inr c'"
    and "p \<noteq> []" and "ck_now k < T" and "call \<notin> used_calls c'"
  shows "locked_out cfg p T c' \<and> run_count c' p = 0 \<and>
    (au_closed c' \<or> (\<exists>c''. auth_acquire cfg call k k2 p c' =
       Inr (c'', Denied (deny Cooldown (max 1 \<lceil>T - ck_now k\<rceil>)))))"
proof -
  have cfg: "config_ok cfg" using config_ok_make[OF assms(1)] .
  have inv: "auth_inv cfg c" using auth_run_ok[OF cfg auth_inv_init[OF cfg], of t es] assms(2) by auto
  have inv': "auth_inv cfg c'" using auth_run_ok[OF cfg inv, of es'] assms(5) by auto
  have l: "locked_out cfg p T c'"
    using locked_run[OF cfg inv assms(3) _ assms(5)] assms(4) by (auto simp: list_all_iff)
  obtain c'' r where acq: "auth_acquire cfg call k k2 p c' = Inr (c'', r)"
    using auth_acquire_ok[OF cfg inv' assms(8,6)] by blast
  show ?thesis using l locked_not_running[OF inv' l] acq
    locked_acquire_denied[OF cfg inv' assms(7) l acq] by blast
qed

definition two_failures :: "auth_event list" where
  "two_failures = [Auth_Acquire 0 (clocks_at 1) (clocks_at 1) ''10.0.0.1'', Auth_Finish 0 Failed (clocks_at 2),
     Auth_Acquire 1 (clocks_at 2) (clocks_at 2) ''10.0.0.1'', Auth_Finish 1 Errored (clocks_at 3)]"

definition later_traffic :: "auth_event list" where
  "later_traffic = [Auth_Acquire 2 (clocks_at 20) (clocks_at 20) ''10.0.0.2'',
     Auth_Acquire 3 (clocks_at 21) (clocks_at 21) ''10.0.0.1'', Auth_Finish 2 Succeeded (clocks_at 22)]"

lemmas auth_eval = auth_acquire_def auth_init_def state_for_peer_def admit_peer_def cooldown_denial_def can_start_def
  start_peer_def put_peer_def hand_lease_def prune_peers_def drop_idle_peer_def auth_finish_def promote_waiters_def
  enqueue_waiter_def auth_poll_def collect_verdict_def release_reservation_def decide_def remove_waiter_def
  used_calls_def deny_def clocks_at_def Let_def

lemma lockout_scenario:
  "case auth_run small_config (auth_init 0) two_failures of Inl _ \<Rightarrow> False
   | Inr c \<Rightarrow> locked_out small_config ''10.0.0.1'' 33 c \<and>
       (case auth_run small_config c later_traffic of Inl _ \<Rightarrow> False
        | Inr c' \<Rightarrow> 4 \<notin> used_calls c' \<and> \<not> au_closed c')"
  by (simp add: two_failures_def later_traffic_def small_config_def auth_eval locked_out_def)

lemma lockout_holds_witness:
  "\<exists>c'. locked_out small_config ''10.0.0.1'' 33 c' \<and> run_count c' ''10.0.0.1'' = 0 \<and>
    (au_closed c' \<or> (\<exists>c''. auth_acquire small_config 4 (clocks_at 30) (clocks_at 30) ''10.0.0.1'' c' =
       Inr (c'', Denied (deny Cooldown (max 1 \<lceil>33 - ck_now (clocks_at 30)\<rceil>)))))"
proof -
  obtain c c' where run: "auth_run small_config (auth_init 0) two_failures = Inr c"
    "locked_out small_config ''10.0.0.1'' 33 c" "auth_run small_config c later_traffic = Inr c'" "4 \<notin> used_calls c'"
    using lockout_scenario by (auto split: sum.splits)
  have "list_all (\<lambda>e. \<forall>s \<in> event_times e. s < 33) later_traffic" "ck_now (clocks_at 30) < 33"
    by (simp_all add: later_traffic_def clocks_at_def)
  moreover have "auth_config_make 2 30 4 60 5 3 1 None = Inr small_config"
    by (simp add: auth_config_make_def small_config_def)
  ultimately show ?thesis
    using lockout_holds[of 2 30 4 60 5 3 1 None small_config 0 two_failures c "''10.0.0.1''" 33 later_traffic c'
        "clocks_at 30" 4 "clocks_at 30"] run by blast
qed

text \<open>C6. Promotion of the queue is work-conserving, first in first out, and loses nobody: from any state
  a history reaches, one promotion succeeds, the waiters it leaves are still in arrival order, every
  other waiter has its verdict stored for its thread, and it leaves a waiter behind only when all
  \<open>max_active\<close> slots are busy or that waiter's own peer already has \<open>max_failures\<close> failures and running
  attempts.\<close>

theorem promotion_work_conserving:
  assumes "auth_config_make max_failures cooldown max_peers prune_interval wait_timeout max_pending max_active per_peer = Inr cfg"
    and "auth_run cfg (auth_init t) es = Inr c"
  shows "\<exists>c'. promote_waiters cfg k c = Inr c' \<and> subseq (au_waiters c') (au_waiters c) \<and>
    list_all (\<lambda>w. w \<in> set (au_waiters c') \<or> decided c' w) (au_waiters c) \<and>
    (au_active c' = max_active \<or> list_all (held_back cfg c') (au_waiters c'))"
proof -
  have cfg: "config_ok cfg" using config_ok_make[OF assms(1)] .
  have "auth_inv cfg c" using auth_run_ok[OF cfg auth_inv_init[OF cfg], of t es] assms(2) by auto
  then obtain c' zs where "promote_loop cfg k [] (au_waiters c) c = Inr c'" "au_waiters c' = [] @ zs"
    "subseq zs (au_waiters c)" "\<forall>v \<in> set (au_waiters c). v \<in> set zs \<or> decided c' v"
    "au_active c' = ac_max_active cfg \<or> (\<forall>v \<in> set ([] @ zs). held_back cfg c' v)"
    using promote_loop_ok[OF cfg, of "[]" "au_waiters c" c k] by (auto simp: auth_inv_def)
  moreover have "ac_max_active cfg = max_active"
    using assms(1) by (auto simp: auth_config_make_def Let_def split: if_splits)
  ultimately show ?thesis by (auto simp: promote_waiters_def list_all_iff)
qed

definition queue_history :: "auth_event list" where
  "queue_history = [Auth_Acquire 0 (clocks_at 1) (clocks_at 1) ''10.0.0.1'',
     Auth_Acquire 1 (clocks_at 1) (clocks_at 1) ''10.0.0.1'', Auth_Acquire 2 (clocks_at 2) (clocks_at 2) ''10.0.0.2'']"

lemma queue_scenario:
  "case auth_run small_config (auth_init 0) queue_history of Inl _ \<Rightarrow> False | Inr c \<Rightarrow> length (au_waiters c) = 2"
  by (simp add: queue_history_def small_config_def auth_eval)

lemma promotion_work_conserving_witness:
  "\<exists>c c'. auth_run small_config (auth_init 0) queue_history = Inr c \<and> length (au_waiters c) = 2 \<and>
    promote_waiters small_config (clocks_at 3) c = Inr c' \<and> subseq (au_waiters c') (au_waiters c) \<and>
    list_all (\<lambda>w. w \<in> set (au_waiters c') \<or> decided c' w) (au_waiters c) \<and>
    (au_active c' = 1 \<or> list_all (held_back small_config c') (au_waiters c'))"
proof -
  obtain c where c: "auth_run small_config (auth_init 0) queue_history = Inr c" "length (au_waiters c) = 2"
    using queue_scenario by (auto split: sum.splits)
  have "auth_config_make 2 30 4 60 5 3 1 None = Inr small_config"
    by (simp add: auth_config_make_def small_config_def)
  from promotion_work_conserving[OF this c(1), of "clocks_at 3"] c show ?thesis by blast
qed

end
