(* ===== verification/Py_Text.thy ===== *)
theory Py_Text
  imports Py_Prelude "HOL-Library.Sublist" "HOL-Library.Char_ord"
begin

section \<open>Python text: splitting, trimming, numbers and base64\<close>

text \<open>
  The methods of \<open>str\<close> and the functions of \<open>base64\<close> that the components use, on strings whose
  characters are the code points below 256. \<open>s.startswith(p)\<close> is \<open>prefix p s\<close> and
  \<open>s.endswith(p)\<close> is \<open>suffix p s\<close>.
\<close>

named_theorems text_facts \<open>rules on splitting and joining text\<close>

abbreviation ord :: "char \<Rightarrow> nat" where "ord c \<equiv> (of_char c :: nat)"

abbreviation chr :: "nat \<Rightarrow> char" where "chr n \<equiv> char_of n"

subsection \<open>Splitting\<close>

text \<open>\<open>s.split(c)\<close> for a separator of one character.\<close>

fun py_split :: "'a \<Rightarrow> 'a list \<Rightarrow> 'a list list" where
  "py_split c [] = [[]]"
| "py_split c (x # xs) =
     (if x = c then [] # py_split c xs
      else (case py_split c xs of [] \<Rightarrow> [[x]] | p # ps \<Rightarrow> (x # p) # ps))"

fun py_join :: "'a \<Rightarrow> 'a list list \<Rightarrow> 'a list" where
  "py_join c [] = []"
| "py_join c [p] = p"
| "py_join c (p # ps) = p @ c # py_join c ps"

lemma py_split_not_Nil [simp]: "py_split c xs \<noteq> []"
  by (cases xs) (auto split: list.splits)

lemma py_join_split [simp, text_facts]: "py_join c (py_split c xs) = xs"
proof (induction xs)
  case (Cons x xs)
  obtain p ps where ps: "py_split c xs = p # ps" by (cases "py_split c xs") auto
  then show ?case using Cons by (cases ps) auto
qed simp

lemma py_split_inject: "py_split c xs = py_split c ys \<longleftrightarrow> xs = ys"
  by (metis py_join_split)

lemma py_split_append_sep [text_facts]: "py_split c (xs @ c # ys) = py_split c xs @ py_split c ys"
proof (induction xs)
  case (Cons x xs)
  then show ?case by (cases "py_split c xs") auto
qed simp

lemma py_split_no_sep: "c \<notin> set xs \<Longrightarrow> py_split c xs = [xs]"
  by (induction xs) auto

lemma sep_not_in_part: "p \<in> set (py_split c xs) \<Longrightarrow> c \<notin> set p"
  by (induction xs arbitrary: p) (auto split: list.splits if_splits)

lemma py_split_join: "ps \<noteq> [] \<Longrightarrow> (\<And>p. p \<in> set ps \<Longrightarrow> c \<notin> set p) \<Longrightarrow> py_split c (py_join c ps) = ps"
  by (induction c ps rule: py_join.induct) (auto simp: py_split_no_sep py_split_append_sep)

text \<open>A path lies under another, by text, exactly when its parts extend the other's.\<close>

lemma prefix_split_iff:
  "prefix (py_split c xs) (py_split c ys) \<longleftrightarrow> ys = xs \<or> prefix (xs @ [c]) ys"
proof
  assume "prefix (py_split c xs) (py_split c ys)"
  then obtain zs where zs: "py_split c ys = py_split c xs @ zs" by (auto simp: prefix_def)
  show "ys = xs \<or> prefix (xs @ [c]) ys"
  proof (cases "zs = []")
    case False
    have "zs = py_split c (py_join c zs)"
      using False sep_not_in_part[of _ c ys] zs by (intro py_split_join[symmetric]) auto
    then have "py_split c ys = py_split c (xs @ c # py_join c zs)" using zs by (simp add: py_split_append_sep)
    then show ?thesis by (simp add: py_split_inject)
  qed (use zs in \<open>simp add: py_split_inject\<close>)
next
  assume "ys = xs \<or> prefix (xs @ [c]) ys"
  then show "prefix (py_split c xs) (py_split c ys)"
    by (auto simp: prefix_def py_split_append_sep)
qed

text \<open>\<open>s.split(sep, 1)\<close> for a longer separator, and \<open>s.find(sep)\<close>.\<close>

fun find_from :: "'a list \<Rightarrow> 'a list \<Rightarrow> nat option" where
  "find_from sep [] = (if sep = [] then Some 0 else None)"
| "find_from sep (x # xs) =
     (if prefix sep (x # xs) then Some 0 else map_option Suc (find_from sep xs))"

lemma find_from_Some: "find_from sep xs = Some n \<Longrightarrow> n + length sep \<le> length xs \<and> prefix sep (drop n xs)"
proof (induction xs arbitrary: n)
  case (Cons x xs)
  show ?case
  proof (cases "prefix sep (x # xs)")
    case True
    then show ?thesis using Cons.prems prefix_length_le[OF True] by simp
  next
    case False
    then obtain m where "find_from sep xs = Some m" "n = Suc m" using Cons.prems by auto
    then show ?thesis using Cons.IH[of m] by simp
  qed
qed (auto split: if_splits)

lemma find_from_append:
  "find_from sep xs = Some n \<Longrightarrow> find_from sep (xs @ ys) = Some n"
proof (induction xs arbitrary: n)
  case (Cons x xs)
  then show ?case
  proof (cases "prefix sep (x # xs)")
    case True
    then have "prefix sep ((x # xs) @ ys)" by (rule prefix_prefix)
    then show ?thesis using Cons.prems True by simp
  next
    case False
    then obtain m where m: "find_from sep xs = Some m" "n = Suc m" using Cons.prems by auto
    have "\<not> prefix sep ((x # xs) @ ys)"
    proof
      assume p: "prefix sep ((x # xs) @ ys)"
      have "length sep \<le> length (x # xs)" using find_from_Some[OF m(1)] by simp
      then have "prefix sep (x # xs)" using p by (metis prefixI prefix_length_prefix)
      then show False using False by simp
    qed
    then show ?thesis using Cons.IH[OF m(1)] m(2) by simp
  qed
qed (cases ys; auto split: if_splits)

subsection \<open>Case and white space\<close>

definition ascii_upper :: "char \<Rightarrow> bool" where "ascii_upper c \<longleftrightarrow> 65 \<le> ord c \<and> ord c \<le> 90"

text \<open>\<open>str.lower\<close> on the code points below 256: ASCII and Latin-1 capitals.\<close>

definition lower_char :: "char \<Rightarrow> char" where
  "lower_char c = (if ascii_upper c \<or> (192 \<le> ord c \<and> ord c \<le> 222 \<and> ord c \<noteq> 215) then chr (ord c + 32) else c)"

definition py_lower :: "string \<Rightarrow> string" where "py_lower = map lower_char"

text \<open>\<open>str.isspace\<close> on these code points, which is what \<open>strip()\<close> trims.\<close>

definition is_space :: "char \<Rightarrow> bool" where
  "is_space c \<longleftrightarrow> ord c \<in> {9, 10, 11, 12, 13, 28, 29, 30, 31, 32, 133, 160}"

definition strip_by :: "('a \<Rightarrow> bool) \<Rightarrow> 'a list \<Rightarrow> 'a list" where
  "strip_by P s = rev (dropWhile P (rev (dropWhile P s)))"

definition py_strip :: "string \<Rightarrow> string" where "py_strip = strip_by is_space"

definition is_control :: "char \<Rightarrow> bool" where "is_control c \<longleftrightarrow> ord c < 32 \<or> ord c = 127"

definition is_digit :: "char \<Rightarrow> bool" where "is_digit c \<longleftrightarrow> 48 \<le> ord c \<and> ord c \<le> 57"

definition is_alnum :: "char \<Rightarrow> bool" where
  "is_alnum c \<longleftrightarrow> is_digit c \<or> ascii_upper c \<or> (97 \<le> ord c \<and> ord c \<le> 122)"

definition is_hex :: "char \<Rightarrow> bool" where
  "is_hex c \<longleftrightarrow> is_digit c \<or> (97 \<le> ord c \<and> ord c \<le> 102) \<or> (65 \<le> ord c \<and> ord c \<le> 70)"

definition is_lower_hex :: "char \<Rightarrow> bool" where
  "is_lower_hex c \<longleftrightarrow> is_digit c \<or> (97 \<le> ord c \<and> ord c \<le> 102)"

definition is_alpha :: "char \<Rightarrow> bool" where "is_alpha c \<longleftrightarrow> is_alnum c \<and> \<not> is_digit c"

subsection \<open>Partition and trimming\<close>

text \<open>\<open>s.partition(c)\<close>: the text after the first \<open>c\<close>, if there is one.\<close>

definition cut_at :: "char \<Rightarrow> string \<Rightarrow> string \<times> string option" where
  "cut_at c s = (let a = takeWhile (\<lambda>x. x \<noteq> c) s in (a, if a = s then None else Some (drop (Suc (length a)) s)))"

lemma cut_at_Some: "cut_at c s = (a, Some b) \<Longrightarrow> s = a @ c # b \<and> c \<notin> set a"
proof -
  assume s: "cut_at c s = (a, Some b)"
  then have a: "a = takeWhile (\<lambda>x. x \<noteq> c) s" "a \<noteq> s" "b = drop (Suc (length a)) s" by (auto simp: cut_at_def Let_def split: if_splits)
  obtain d r where d: "dropWhile (\<lambda>x. x \<noteq> c) s = d # r" using a(1,2) by (metis append_Nil2 list.exhaust takeWhile_dropWhile_id)
  then have "d = c" "s = a @ d # r" using a(1) hd_dropWhile[of "\<lambda>x. x \<noteq> c" s] takeWhile_dropWhile_id[of "\<lambda>x. x \<noteq> c" s] by auto
  moreover have "c \<notin> set a" using a(1) by (auto dest: set_takeWhileD)
  ultimately show ?thesis using a(3) by simp
qed

lemma cut_at_fst: "cut_at c s = (a, b) \<Longrightarrow> c \<notin> set a \<and> set a \<subseteq> set s"
  by (auto simp: cut_at_def Let_def dest: set_takeWhileD)

lemma strip_by_idem: "strip_by P (strip_by P s) = strip_by P s"
proof -
  let ?t = "dropWhile P s" and ?u = "strip_by P s"
  have u: "?u = rev (dropWhile P (rev ?t))" by (simp add: strip_by_def)
  then obtain w where w: "?t = ?u @ w" by (metis rev_append rev_rev_ident takeWhile_dropWhile_id)
  have "dropWhile P ?u = ?u"
  proof (cases ?u)
    case (Cons a r)
    then have "?t = a # r @ w" using w by simp
    then have "\<not> P a" by (metis dropWhile_eq_Cons_conv)
    then show ?thesis using Cons by simp
  qed simp
  then have "strip_by P ?u = rev (dropWhile P (rev ?u))" by (simp add: strip_by_def)
  then show ?thesis by (simp add: u)
qed

lemma py_strip_idem [simp]: "py_strip (py_strip s) = py_strip s"
  by (simp add: py_strip_def strip_by_idem)

lemma strip_split: "\<exists>a b. s = a @ strip_by P s @ b"
proof -
  let ?t = "dropWhile P s"
  have "s = takeWhile P s @ ?t" by simp
  moreover have "?t = strip_by P s @ rev (takeWhile P (rev ?t))"
    unfolding strip_by_def by (metis rev_append rev_rev_ident takeWhile_dropWhile_id)
  ultimately show ?thesis by metis
qed

lemma strip_by_subset: "set (strip_by P s) \<subseteq> set s"
  using strip_split[of s P] by (metis Un_upper2 le_sup_iff order_refl set_append)

lemma strip_none: "(\<And>c. c \<in> set s \<Longrightarrow> \<not> P c) \<Longrightarrow> strip_by P s = s"
proof -
  assume no: "\<And>c. c \<in> set s \<Longrightarrow> \<not> P c"
  then have "dropWhile P s = s" "dropWhile P (rev s) = rev s"
    by (auto simp: dropWhile_eq_self_iff hd_rev)
  then show ?thesis by (simp add: strip_by_def)
qed

lemma strip_by_map: "(\<And>c. P (g c) = P c) \<Longrightarrow> strip_by P (map g s) = map g (strip_by P s)"
  by (simp add: strip_by_def dropWhile_map rev_map comp_def)

lemma is_space_lower [simp]: "is_space (lower_char c) = is_space c"
  by (auto simp: is_space_def lower_char_def ascii_upper_def)

lemma strip_lower: "py_strip (py_lower s) = py_lower (py_strip s)"
  by (simp add: py_strip_def py_lower_def strip_by_map)

subsection \<open>Numbers\<close>

text \<open>\<open>int(s)\<close>: trimmed, an optional sign, digits with single underscores between them; text of more
  than 4300 digits is refused.\<close>

fun digits_value :: "nat \<Rightarrow> bool \<Rightarrow> string \<Rightarrow> nat option" where
  "digits_value acc seen [] = (if seen then Some acc else None)"
| "digits_value acc seen (c # cs) =
     (if is_digit c then digits_value (acc * 10 + (ord c - 48)) True cs
      else if ord c = 95 \<and> seen then digits_value acc False cs else None)"

definition py_int :: "string \<Rightarrow> int option" where
  "py_int s =
     (let t = py_strip s;
          body = (if t \<noteq> [] \<and> (ord (hd t) = 43 \<or> ord (hd t) = 45) then tl t else t)
      in if 4300 < length (filter is_digit body) then None
         else map_option (\<lambda>n. if t \<noteq> [] \<and> ord (hd t) = 45 then - int n else int n) (digits_value 0 False body))"

fun decimal_digits :: "nat \<Rightarrow> string" where
  "decimal_digits n = (if n < 10 then [chr (48 + n)] else decimal_digits (n div 10) @ [chr (48 + n mod 10)])"

declare decimal_digits.simps [simp del]

text \<open>\<open>str(n)\<close>\<close>

definition py_str_int :: "int \<Rightarrow> string" where
  "py_str_int n = (if n < 0 then ''-'' @ decimal_digits (nat (- n)) else decimal_digits (nat n))"

lemma ord_chr: "n < 256 \<Longrightarrow> ord (chr n) = n" by simp

lemma is_digit_chr [simp]: "n < 10 \<Longrightarrow> is_digit (chr (48 + n))"
  by (simp add: is_digit_def)

lemma digits_value_snoc:
  "digits_value acc seen s = Some v \<Longrightarrow> is_digit c \<Longrightarrow> digits_value acc seen (s @ [c]) = Some (v * 10 + (ord c - 48))"
  by (induction acc seen s rule: digits_value.induct) (auto split: if_splits)

lemma digits_value_decimal [simp]: "digits_value 0 False (decimal_digits n) = Some n"
proof (induction n rule: decimal_digits.induct)
  case (1 n)
  show ?case
  proof (cases "n < 10")
    case True
    then show ?thesis by (simp add: decimal_digits.simps[of n])
  next
    case False
    have "digits_value 0 False (decimal_digits (n div 10) @ [chr (48 + n mod 10)]) = Some (n div 10 * 10 + n mod 10)"
      using digits_value_snoc[OF 1[OF False]] by simp
    then show ?thesis using False by (simp add: decimal_digits.simps[of n])
  qed
qed

lemma decimal_digits_all: "c \<in> set (decimal_digits n) \<Longrightarrow> is_digit c"
proof (induction n rule: decimal_digits.induct)
  case (1 n)
  then show ?case by (cases "n < 10") (auto simp: decimal_digits.simps[of n])
qed

lemma decimal_head: "0 < n \<Longrightarrow> hd (decimal_digits n) \<noteq> CHR ''0''"
proof (induction n rule: decimal_digits.induct)
  case (1 n)
  have ne: "decimal_digits k \<noteq> []" for k by (subst decimal_digits.simps) simp
  show ?case
  proof (cases "n < 10")
    case True
    have "ord (chr (48 + n)) = 48 + n" using True by (intro ord_chr) simp
    moreover have "ord (CHR ''0'') = (48 :: nat)" by simp
    ultimately have "chr (48 + n) \<noteq> CHR ''0''" using 1(2) by (metis add_cancel_left_right less_numeral_extra(3))
    then show ?thesis using True by (simp add: decimal_digits.simps[of n])
  next
    case False
    then show ?thesis using 1(1)[OF False] ne by (simp add: decimal_digits.simps[of n])
  qed
qed

lemma length_decimal: "0 < k \<Longrightarrow> n < 10 ^ k \<Longrightarrow> length (decimal_digits n) \<le> k"
proof (induction n arbitrary: k rule: decimal_digits.induct)
  case (1 n)
  show ?case
  proof (cases "n < 10")
    case True
    then show ?thesis using 1(2) by (simp add: decimal_digits.simps[of n])
  next
    case False
    then obtain j where j: "k = Suc j" "0 < j" using 1(2,3) by (cases k; cases "k - 1") auto
    then have "n div 10 < 10 ^ j" using 1(3) by (simp add: less_mult_imp_div_less mult.commute)
    then show ?thesis using 1(1)[OF False j(2)] False j(1) by (simp add: decimal_digits.simps[of n])
  qed
qed

lemma py_int_too_long:
  assumes "4300 < length ds" "list_all is_digit ds"
  shows "py_int ds = None"
proof -
  have ne: "ds \<noteq> []" using assms(1) by auto
  have "\<not> is_space c" if "c \<in> set ds" for c using assms(2) that by (auto simp: list_all_iff is_digit_def is_space_def)
  then have strip: "py_strip ds = ds" unfolding py_strip_def by (rule strip_none)
  have "ord (hd ds) \<noteq> 43 \<and> ord (hd ds) \<noteq> 45" using ne assms(2) by (cases ds) (auto simp: is_digit_def)
  moreover have "filter is_digit ds = ds" using assms(2) by (simp add: list_all_iff)
  ultimately show ?thesis using assms(1) by (simp add: py_int_def strip Let_def)
qed

lemma py_int_decimal: "length (decimal_digits n) \<le> 4300 \<Longrightarrow> py_int (decimal_digits n) = Some (int n)"
proof -
  let ?s = "decimal_digits n"
  assume l: "length ?s \<le> 4300"
  have ne: "?s \<noteq> []" by (subst decimal_digits.simps) simp
  have digits: "is_digit c" if "c \<in> set ?s" for c using decimal_digits_all that .
  have "\<not> is_space c" if "c \<in> set ?s" for c using digits[OF that] by (auto simp: is_digit_def is_space_def)
  then have strip: "py_strip ?s = ?s" unfolding py_strip_def by (rule strip_none)
  have "is_digit (hd ?s)" using digits ne hd_in_set by blast
  then have sign: "ord (hd ?s) \<noteq> 43 \<and> ord (hd ?s) \<noteq> 45" by (auto simp: is_digit_def)
  have "length (filter is_digit ?s) \<le> 4300" using l length_filter_le[of is_digit ?s] by linarith
  then show ?thesis unfolding py_int_def Let_def strip using ne sign by simp
qed

subsection \<open>Base64\<close>

text \<open>The six-bit groups of a byte string, as \<open>base64.b64encode\<close> forms them, without padding.\<close>

fun sextets :: "bytes \<Rightarrow> nat list" where
  "sextets [] = []"
| "sextets [a] = [unat a div 4, unat a mod 4 * 16]"
| "sextets [a, b] = [unat a div 4, unat a mod 4 * 16 + unat b div 16, unat b mod 16 * 4]"
| "sextets (a # b # c # r) =
     [unat a div 4, unat a mod 4 * 16 + unat b div 16, unat b mod 16 * 4 + unat c div 64, unat c mod 64] @ sextets r"

text \<open>The bytes of a list of groups; the spare bits of a last short group are dropped, and a single
  spare group is an error of the caller.\<close>

fun unsextets :: "nat list \<Rightarrow> bytes" where
  "unsextets (p # q # r # s # t) =
     [word_of_nat (p * 4 + q div 16), word_of_nat (q mod 16 * 16 + r div 4), word_of_nat (r mod 4 * 64 + s)] @ unsextets t"
| "unsextets [p, q, r] = [word_of_nat (p * 4 + q div 16), word_of_nat (q mod 16 * 16 + r div 4)]"
| "unsextets [p, q] = [word_of_nat (p * 4 + q div 16)]"
| "unsextets _ = []"

lemma unat_byte: "unat (b :: byte) < 256"
  using unsigned_less[of b] by simp

lemma byte_eqI: "n = unat b \<Longrightarrow> word_of_nat n = (b :: byte)"
  by simp

lemma unsextet_1: "n < 16 \<Longrightarrow> word_of_nat (unat a div 4 * 4 + (unat a mod 4 * 16 + n) div 16) = (a :: byte)"
  by (rule byte_eqI) simp

lemma unsextet_2:
  "n < 4 \<Longrightarrow> word_of_nat ((k * 16 + unat b div 16) mod 16 * 16 + (unat b mod 16 * 4 + n) div 4) = (b :: byte)"
proof (rule byte_eqI)
  assume "n < 4"
  moreover have "unat b div 16 < 16" using unat_byte[of b] by simp
  ultimately show "(k * 16 + unat b div 16) mod 16 * 16 + (unat b mod 16 * 4 + n) div 4 = unat b" by simp
qed

lemma unsextet_3: "word_of_nat ((k * 4 + unat c div 64) mod 4 * 64 + unat c mod 64) = (c :: byte)"
proof (rule byte_eqI)
  have "unat c div 64 < 4" using unat_byte[of c] by simp
  then show "(k * 4 + unat c div 64) mod 4 * 64 + unat c mod 64 = unat c" by simp
qed

lemma unsextets_sextets [simp]: "unsextets (sextets bs) = bs"
proof (induction bs rule: sextets.induct)
  case (2 a)
  show ?case using unsextet_1[of 0 a] by simp
next
  case (3 a b)
  have "unat b div 16 < 16" using unat_byte[of b] by simp
  from unsextet_1[OF this, of a] unsextet_2[of 0 "unat a mod 4" b] show ?case
    by (simp del: of_nat_add of_nat_mult)
next
  case (4 a b c r)
  have "unat b div 16 < 16" "unat c div 64 < 4" using unat_byte[of b] unat_byte[of c] by simp_all
  then show ?case
    using unsextet_1[of "unat b div 16" a] unsextet_2[of "unat c div 64" "unat a mod 4" b]
      unsextet_3[of "unat b mod 16" c] 4 by (simp del: of_nat_add of_nat_mult)
qed simp

lemma sextets_bound: "x \<in> set (sextets bs) \<Longrightarrow> x < 64"
proof (induction bs rule: sextets.induct)
  case (2 a)
  then show ?case using unat_byte[of a] by auto
next
  case (3 a b)
  then show ?case using unat_byte[of a] unat_byte[of b] by auto
next
  case (4 a b c r)
  then show ?case using unat_byte[of a] unat_byte[of b] unat_byte[of c] by auto
qed simp

definition b64_char :: "char \<Rightarrow> char \<Rightarrow> nat \<Rightarrow> char" where
  "b64_char c62 c63 n =
     (if n < 26 then chr (65 + n) else if n < 52 then chr (71 + n) else if n < 62 then chr (n - 4)
      else if n = 62 then c62 else c63)"

definition b64_value :: "char \<Rightarrow> char \<Rightarrow> char \<Rightarrow> nat option" where
  "b64_value c62 c63 c =
     (if ascii_upper c then Some (ord c - 65) else if 97 \<le> ord c \<and> ord c \<le> 122 then Some (ord c - 71)
      else if is_digit c then Some (ord c + 4) else if c = c62 then Some 62 else if c = c63 then Some 63 else None)"

text \<open>\<open>base64.urlsafe_b64encode(data)\<close> without its padding.\<close>

definition b64url_nopad :: "bytes \<Rightarrow> string" where
  "b64url_nopad bs = map (b64_char (CHR ''-'') (CHR ''_'')) (sextets bs)"

text \<open>The groups of a text over an alphabet, \<open>None\<close> at the first other character.\<close>

fun b64_groups :: "char \<Rightarrow> char \<Rightarrow> string \<Rightarrow> nat list option" where
  "b64_groups c62 c63 [] = Some []"
| "b64_groups c62 c63 (c # cs) =
     (case (b64_value c62 c63 c, b64_groups c62 c63 cs) of (Some n, Some ns) \<Rightarrow> Some (n # ns) | _ \<Rightarrow> None)"

lemma b64_value_char:
  "n < 64 \<Longrightarrow> b64_value (CHR ''-'') (CHR ''_'') (b64_char (CHR ''-'') (CHR ''_'') n) = Some n"
  by (auto simp: b64_value_def b64_char_def ascii_upper_def is_digit_def)

lemma b64_groups_chars:
  "(\<And>n. n \<in> set ns \<Longrightarrow> n < 64) \<Longrightarrow> b64_groups (CHR ''-'') (CHR ''_'') (map (b64_char (CHR ''-'') (CHR ''_'')) ns) = Some ns"
  by (induction ns) (auto simp: b64_value_char)

lemma b64_groups_encode [simp]: "b64_groups (CHR ''-'') (CHR ''_'') (b64url_nopad bs) = Some (sextets bs)"
  unfolding b64url_nopad_def by (rule b64_groups_chars) (rule sextets_bound)

lemma b64url_nopad_inject [simp]: "b64url_nopad bs = b64url_nopad cs \<longleftrightarrow> bs = cs"
  by (metis b64_groups_encode option.inject unsextets_sextets)

lemma length_sextets: "length (sextets bs) = (4 * length bs + 2) div 3"
  by (induction bs rule: sextets.induct) auto

lemma length_b64url_nopad [simp]: "length (b64url_nopad bs) = (4 * length bs + 2) div 3"
  by (simp add: b64url_nopad_def length_sextets)

text \<open>\<open>base64.b64encode\<close> with its padding.\<close>

definition b64encode :: "bytes \<Rightarrow> string" where
  "b64encode bs = map (b64_char (CHR ''+'') (CHR ''/'')) (sextets bs) @ replicate ((3 - length bs mod 3) mod 3) (CHR ''='')"

text \<open>\<open>base64.b64decode(s, validate=True)\<close>: \<open>None\<close> is \<open>binascii.Error\<close>. Padding must complete the last group.\<close>

definition b64decode_strict :: "string \<Rightarrow> bytes option" where
  "b64decode_strict s =
     (let body = takeWhile (\<lambda>c. c \<noteq> CHR ''='') s; pad = length s - length body
      in if set (drop (length body) s) \<subseteq> {CHR ''=''} \<and> pad \<le> 2 \<and> length s mod 4 = 0 \<and> length body mod 4 \<noteq> 1
         then map_option unsextets (b64_groups (CHR ''+'') (CHR ''/'') body) else None)"

lemma b64_std_value: "n < 64 \<Longrightarrow> b64_value (CHR ''+'') (CHR ''/'') (b64_char (CHR ''+'') (CHR ''/'') n) = Some n"
  by (auto simp: b64_value_def b64_char_def ascii_upper_def is_digit_def)

lemma b64_std_groups:
  "(\<And>n. n \<in> set ns \<Longrightarrow> n < 64) \<Longrightarrow> b64_groups (CHR ''+'') (CHR ''/'') (map (b64_char (CHR ''+'') (CHR ''/'')) ns) = Some ns"
  by (induction ns) (auto simp: b64_std_value)

lemma b64_std_no_pad: "n < 64 \<Longrightarrow> b64_char (CHR ''+'') (CHR ''/'') n \<noteq> CHR ''=''"
  by (auto simp: b64_char_def dest: arg_cong[of _ _ ord])

lemma takeWhile_all: "(\<And>c. c \<in> set xs \<Longrightarrow> P c) \<Longrightarrow> \<not> P x \<Longrightarrow> takeWhile P (xs @ replicate k x) = xs"
proof (induction xs)
  case Nil
  then show ?case by (cases k) auto
qed simp

lemma sextet_padding:
  "((4 * n + 2) div 3 + (3 - n mod 3) mod 3) mod 4 = 0 \<and> (4 * n + 2) div 3 mod 4 \<noteq> (1 :: nat) \<and> (3 - n mod 3) mod 3 \<le> 2"
proof -
  define q where "q = n div 3"
  consider "n = 0 + q * 3" | "n = 1 + q * 3" | "n = 2 + q * 3" unfolding q_def using mod_less_divisor[of 3 n] mult_div_mod_eq[of 3 n] by linarith
  then show ?thesis
  proof cases
    case 1
    then have "n mod 3 = 0 mod 3" by (simp only: mod_mult_self1)
    moreover from 1 have "4 * n + 2 = 2 + (4 * q + 0) * 3" by simp
    ultimately have "(4 * n + 2) div 3 = 0 + q * 4" "(3 - n mod 3) mod 3 = 0" by (simp_all only: div_mult_self1) simp_all
    moreover have "(0 + q * 4 + 0) mod 4 = (0 + 0) mod 4" "(0 + q * 4) mod 4 = 0 mod 4"
      using mod_mult_self1[of "0 + 0" q 4] mod_mult_self1[of 0 q 4] by (simp_all only: ac_simps)
    ultimately show ?thesis by (simp only:) simp
  next
    case 2
    then have "n mod 3 = 1 mod 3" by (simp only: mod_mult_self1)
    moreover from 2 have "4 * n + 2 = 0 + (4 * q + 2) * 3" by simp
    ultimately have "(4 * n + 2) div 3 = 2 + q * 4" "(3 - n mod 3) mod 3 = 2" by (simp_all only: div_mult_self1) simp_all
    moreover have "(2 + q * 4 + 2) mod 4 = (2 + 2) mod 4" "(2 + q * 4) mod 4 = 2 mod 4"
      using mod_mult_self1[of "2 + 2" q 4] mod_mult_self1[of 2 q 4] by (simp_all only: ac_simps)
    ultimately show ?thesis by (simp only:) simp
  next
    case 3
    then have "n mod 3 = 2 mod 3" by (simp only: mod_mult_self1)
    moreover from 3 have "4 * n + 2 = 1 + (4 * q + 3) * 3" by simp
    ultimately have "(4 * n + 2) div 3 = 3 + q * 4" "(3 - n mod 3) mod 3 = 1" by (simp_all only: div_mult_self1) simp_all
    moreover have "(3 + q * 4 + 1) mod 4 = (3 + 1) mod 4" "(3 + q * 4) mod 4 = 3 mod 4"
      using mod_mult_self1[of "3 + 1" q 4] mod_mult_self1[of 3 q 4] by (simp_all only: ac_simps)
    ultimately show ?thesis by (simp only:) simp
  qed
qed

lemma b64decode_encode [simp]: "b64decode_strict (b64encode bs) = Some bs"
proof -
  let ?b = "map (b64_char (CHR ''+'') (CHR ''/'')) (sextets bs)" and ?p = "(3 - length bs mod 3) mod 3"
  have no: "c \<noteq> CHR ''=''" if "c \<in> set ?b" for c
    using that sextets_bound[of _ bs] b64_std_no_pad by auto
  have tw: "takeWhile (\<lambda>c. c \<noteq> CHR ''='') (b64encode bs) = ?b"
    unfolding b64encode_def by (rule takeWhile_all) (use no in auto)
  have len: "length ?b = (4 * length bs + 2) div 3" by (simp add: length_sextets)
  have "(length ?b + ?p) mod 4 = 0 \<and> length ?b mod 4 \<noteq> 1 \<and> ?p \<le> 2" unfolding len by (rule sextet_padding)
  then show ?thesis
    using b64_std_groups[of "sextets bs", OF sextets_bound] by (auto simp: b64decode_strict_def tw) (auto simp: b64encode_def)
qed

subsection \<open>UTF-8\<close>

text \<open>Whether \<open>bytes.decode("utf-8")\<close> succeeds: the well-formed sequences of the Unicode standard.\<close>

definition utf8_tail :: "byte \<Rightarrow> bool" where "utf8_tail b \<longleftrightarrow> 128 \<le> unat b \<and> unat b \<le> 191"

fun utf8_valid :: "bytes \<Rightarrow> bool" where
  "utf8_valid [] = True"
| "utf8_valid (a # r) =
     (if unat a < 128 then utf8_valid r
      else if 194 \<le> unat a \<and> unat a \<le> 223 then
        (case r of b # r' \<Rightarrow> utf8_tail b \<and> utf8_valid r' | _ \<Rightarrow> False)
      else if 224 \<le> unat a \<and> unat a \<le> 239 then
        (case r of b # c # r' \<Rightarrow>
             utf8_tail b \<and> (unat a = 224 \<longrightarrow> 160 \<le> unat b) \<and> (unat a = 237 \<longrightarrow> unat b \<le> 159) \<and> utf8_tail c \<and> utf8_valid r'
         | _ \<Rightarrow> False)
      else if 240 \<le> unat a \<and> unat a \<le> 244 then
        (case r of b # c # d # r' \<Rightarrow>
             utf8_tail b \<and> (unat a = 240 \<longrightarrow> 144 \<le> unat b) \<and> (unat a = 244 \<longrightarrow> unat b \<le> 143) \<and> utf8_tail c \<and>
             utf8_tail d \<and> utf8_valid r'
         | _ \<Rightarrow> False)
      else False)"

text \<open>\<open>str.encode("ascii")\<close> of text known to be ASCII, and \<open>str.encode("utf-8")\<close> on code points below 256.\<close>

definition ascii_bytes :: "string \<Rightarrow> bytes" where "ascii_bytes = map (\<lambda>c. word_of_nat (ord c))"

definition utf8_char :: "char \<Rightarrow> bytes" where
  "utf8_char c = (if ord c < 128 then [word_of_nat (ord c)]
     else [word_of_nat (192 + ord c div 64), word_of_nat (128 + ord c mod 64)])"

definition utf8_encode :: "string \<Rightarrow> bytes" where "utf8_encode s = concat (map utf8_char s)"

lemma unat_of_nat_byte: "n < 256 \<Longrightarrow> unat (word_of_nat n :: byte) = n"
  by (simp add: unat_of_nat)

lemma utf8_encode_valid: "utf8_valid (utf8_encode s)"
proof (induction s)
  case (Cons c s)
  have "ord c < 256" by simp
  then have "ord c div 64 < 4" by linarith
  then have "unat (word_of_nat (192 + ord c div 64) :: byte) = 192 + ord c div 64"
    "unat (word_of_nat (128 + ord c mod 64) :: byte) = 128 + ord c mod 64"
    using unat_of_nat_byte[of "192 + ord c div 64"] unat_of_nat_byte[of "128 + ord c mod 64"]
    by (simp_all del: of_nat_add)
  moreover have "128 \<le> ord c \<Longrightarrow> 2 \<le> ord c div 64" by simp
  ultimately show ?case using Cons \<open>ord c div 64 < 4\<close>
    by (auto simp: utf8_encode_def utf8_char_def utf8_tail_def unat_of_nat_byte simp del: of_nat_add)
qed (simp add: utf8_encode_def)

subsection \<open>Collapsing repeated characters\<close>

text \<open>\<open>s.replace(x + x, x)\<close>, and the loop \<open>while x + x in s\<close> that repeats it.\<close>

fun replace_double :: "char \<Rightarrow> string \<Rightarrow> string" where
  "replace_double x (c # d # s) = (if c = x \<and> d = x then x # replace_double x s else c # replace_double x (d # s))"
| "replace_double x s = s"

fun has_double :: "char \<Rightarrow> string \<Rightarrow> bool" where
  "has_double x (c # d # s) \<longleftrightarrow> (c = x \<and> d = x) \<or> has_double x (d # s)"
| "has_double x [] \<longleftrightarrow> False"
| "has_double x [c] \<longleftrightarrow> False"

lemma replace_double_length: "length (replace_double x s) \<le> length s \<and> (has_double x s \<longrightarrow> length (replace_double x s) < length s)"
  by (induction x s rule: replace_double.induct) auto

function collapse_double :: "char \<Rightarrow> string \<Rightarrow> string" where
  "collapse_double x s = (if has_double x s then collapse_double x (replace_double x s) else s)"
  by pat_completeness auto

termination
  by (relation "measure (\<lambda>(x, s). length s)") (auto simp: replace_double_length)

declare collapse_double.simps [simp del]

lemma replace_double_set: "set (replace_double x s) \<subseteq> set s"
  by (induction x s rule: replace_double.induct) auto

lemma collapse_double_safe: "\<not> has_double x (collapse_double x s) \<and> set (collapse_double x s) \<subseteq> set s"
proof (induction x s rule: collapse_double.induct)
  case (1 x s)
  show ?case
  proof (cases "has_double x s")
    case True
    then show ?thesis using 1 replace_double_set[of x s] by (subst (1 2) collapse_double.simps) auto
  next
    case False
    then show ?thesis by (subst (1 2) collapse_double.simps) simp
  qed
qed

lemma has_double_append: "has_double x (a @ b) = (has_double x a \<or> has_double x b \<or> (a \<noteq> [] \<and> b \<noteq> [] \<and> last a = x \<and> hd b = x))"
proof (induction x a rule: has_double.induct)
  case (3 x c)
  then show ?case by (cases b) auto
qed auto

end
