(* ===== verification/Advanced_Sessions.thy ===== *)
theory Advanced_Sessions
  imports Py_Text
begin

section \<open>Token-scoped advanced sessions\<close>

text \<open>
  \<^verbatim>\<open>xferry/advanced_sessions.py\<close>: the bounded in-memory store of bearer sessions
  (\<open>AdvancedSessionStore\<close>) and the path prefixes that sessions own. Times are microseconds, as in
  \<open>datetime\<close>. \<open>_digest\<close> (SHA-256 of the UTF-8 text) is the parameter \<open>digest\<close>: nothing below needs
  more of it than that it is a function of the token. Every method runs under one lock, so a
  history is a list of operations with the clock reading of each.
\<close>

subsection \<open>Principals, sessions and the store\<close>

datatype auth_mode = Basic_Auth | No_Auth

record principal =
  pr_mode :: auth_mode
  pr_owner :: "string option"

definition principal_make :: "auth_mode \<Rightarrow> string option \<Rightarrow> py_error + principal" where
  "principal_make mode owner =
     (if mode = Basic_Auth \<and> owner \<noteq> None \<or> mode = No_Auth \<and> owner = None
      then Inr \<lparr>pr_mode = mode, pr_owner = owner\<rparr> else Inl ValueError)"

record adv_session =
  as_prefix :: string
  as_decoder :: string
  as_diagnostic_headers :: bool
  as_created_at :: int
  as_expires_at :: int
  as_last_activity_at :: int

record stored_session =
  ss_digest :: bytes
  ss_session :: adv_session
  ss_principal :: principal

type_synonym session_store = "(bytes, stored_session) dict"

definition MAX_SESSIONS :: nat where "MAX_SESSIONS = 64"
definition ABSOLUTE_LIFETIME :: int where "ABSOLUTE_LIFETIME = 60 * 60 * 1000000"
definition IDLE_TIMEOUT :: int where "IDLE_TIMEOUT = 15 * 60 * 1000000"
definition MAX_COLLISION_ATTEMPTS :: nat where "MAX_COLLISION_ATTEMPTS = 3"
definition TOKEN_BYTES :: nat where "TOKEN_BYTES = 32"

definition expired_at :: "int \<Rightarrow> stored_session \<Rightarrow> bool" where
  "expired_at now st \<longleftrightarrow> as_expires_at (ss_session st) \<le> now \<or>
     as_last_activity_at (ss_session st) + IDLE_TIMEOUT \<le> now"

definition purge_expired :: "int \<Rightarrow> session_store \<Rightarrow> session_store" where
  "purge_expired now store = filter (\<lambda>(d, st). \<not> expired_at now st) store"

text \<open>\<open>_locate_digest_locked\<close>: the whole table is scanned, the last match wins.\<close>

fun locate_loop :: "bytes \<Rightarrow> stored_session option \<Rightarrow> session_store \<Rightarrow> stored_session option" where
  "locate_loop d found [] = found"
| "locate_loop d found ((k, st) # rest) = locate_loop d (if d = ss_digest st then Some st else found) rest"

definition locate_digest :: "bytes \<Rightarrow> session_store \<Rightarrow> stored_session option" where
  "locate_digest d store = locate_loop d None store"

definition principal_matches :: "principal \<Rightarrow> principal \<Rightarrow> bool" where
  "principal_matches p q \<longleftrightarrow> pr_mode p = pr_mode q \<and> pr_owner p = pr_owner q"

subsection \<open>The operations\<close>

datatype create_outcome = Created string adv_session | Exhausted | Token_Collision | Bad_Random

text \<open>The minting loop; \<open>rnd i\<close> is what the \<open>i\<close>-th call of \<open>random_bytes\<close> returns.\<close>

fun mint ::
  "(string \<Rightarrow> bytes) \<Rightarrow> nat \<Rightarrow> nat \<Rightarrow> (nat \<Rightarrow> bytes) \<Rightarrow> adv_session \<Rightarrow> principal \<Rightarrow> session_store
     \<Rightarrow> session_store \<times> create_outcome"
where
  "mint digest 0 i rnd s p store = (store, Token_Collision)"
| "mint digest (Suc n) i rnd s p store =
     (let raw = rnd i
      in if length raw \<noteq> TOKEN_BYTES then (store, Bad_Random)
         else let token = b64url_nopad raw; d = digest token
              in if locate_digest d store = None
                 then (dict_set d \<lparr>ss_digest = d, ss_session = s, ss_principal = p\<rparr> store, Created token s)
                 else mint digest n (Suc i) rnd s p store)"

definition session_at :: "string \<Rightarrow> string \<Rightarrow> bool \<Rightarrow> int \<Rightarrow> adv_session" where
  "session_at pfx dec diag now = \<lparr>as_prefix = pfx, as_decoder = dec, as_diagnostic_headers = diag,
     as_created_at = now, as_expires_at = now + ABSOLUTE_LIFETIME, as_last_activity_at = now\<rparr>"

definition create_session ::
  "(string \<Rightarrow> bytes) \<Rightarrow> int \<Rightarrow> string \<Rightarrow> string \<Rightarrow> bool \<Rightarrow> principal \<Rightarrow> (nat \<Rightarrow> bytes) \<Rightarrow> session_store
     \<Rightarrow> session_store \<times> create_outcome"
where
  "create_session digest now pfx dec diag p rnd store =
     (let live = purge_expired now store
      in if MAX_SESSIONS \<le> length live then (live, Exhausted)
         else mint digest MAX_COLLISION_ATTEMPTS 0 rnd (session_at pfx dec diag now) p live)"

definition touched :: "int \<Rightarrow> stored_session \<Rightarrow> stored_session" where
  "touched now st = st\<lparr>ss_session := ss_session st\<lparr>as_last_activity_at := now\<rparr>\<rparr>"

definition resolve_session ::
  "(string \<Rightarrow> bytes) \<Rightarrow> int \<Rightarrow> string \<Rightarrow> principal \<Rightarrow> bool \<Rightarrow> session_store \<Rightarrow> session_store \<times> adv_session option"
where
  "resolve_session digest now token p touch store =
     (let live = purge_expired now store
      in case locate_digest (digest token) live of
           None \<Rightarrow> (live, None)
         | Some st \<Rightarrow>
             if \<not> principal_matches (ss_principal st) p then (live, None)
             else if \<not> touch then (live, Some (ss_session st))
             else (dict_set (ss_digest st) (touched now st) live, Some (ss_session (touched now st))))"

record touch_handle =
  th_digest :: bytes
  th_created_at :: int

definition touch_handle_for :: "(string \<Rightarrow> bytes) \<Rightarrow> string \<Rightarrow> adv_session \<Rightarrow> touch_handle" where
  "touch_handle_for digest token s = \<lparr>th_digest = digest token, th_created_at = as_created_at s\<rparr>"

definition touch_dispatch :: "int \<Rightarrow> touch_handle option \<Rightarrow> session_store \<Rightarrow> session_store \<times> adv_session option" where
  "touch_dispatch now handle store =
     (case handle of
        None \<Rightarrow> (store, None)
      | Some h \<Rightarrow>
          let live = purge_expired now store
          in case dict_get live (th_digest h) of
               None \<Rightarrow> (live, None)
             | Some st \<Rightarrow>
                 if as_created_at (ss_session st) \<noteq> th_created_at h then (live, None)
                 else (dict_set (th_digest h) (touched now st) live, Some (ss_session (touched now st))))"

definition revoke_session ::
  "(string \<Rightarrow> bytes) \<Rightarrow> int \<Rightarrow> string \<Rightarrow> principal \<Rightarrow> session_store \<Rightarrow> session_store \<times> bool"
where
  "revoke_session digest now token p store =
     (let live = purge_expired now store
      in case locate_digest (digest token) live of
           None \<Rightarrow> (live, False)
         | Some st \<Rightarrow> if \<not> principal_matches (ss_principal st) p then (live, False)
                      else (dict_del (ss_digest st) live, True))"

definition invalidate_all :: "int \<Rightarrow> session_store \<Rightarrow> session_store" where
  "invalidate_all now store = (let live = purge_expired now store in [])"

definition now_in_lifetime :: "int \<Rightarrow> int \<Rightarrow> int \<Rightarrow> bool" where
  "now_in_lifetime now created active \<longleftrightarrow> now < created + ABSOLUTE_LIFETIME \<and> now < active + IDLE_TIMEOUT"

subsection \<open>Histories\<close>

datatype session_op =
    Op_Create string string bool principal "nat \<Rightarrow> bytes"
  | Op_Resolve string principal bool
  | Op_Touch "touch_handle option"
  | Op_Revoke string principal
  | Op_Invalidate

datatype session_out = Out_Create create_outcome | Out_Session "adv_session option" | Out_Bool bool | Out_None

fun session_step :: "(string \<Rightarrow> bytes) \<Rightarrow> int \<Rightarrow> session_op \<Rightarrow> session_store \<Rightarrow> session_store \<times> session_out" where
  "session_step digest now (Op_Create pfx dec diag p rnd) store =
     map_prod id Out_Create (create_session digest now pfx dec diag p rnd store)"
| "session_step digest now (Op_Resolve token p touch) store =
     map_prod id Out_Session (resolve_session digest now token p touch store)"
| "session_step digest now (Op_Touch h) store = map_prod id Out_Session (touch_dispatch now h store)"
| "session_step digest now (Op_Revoke token p) store = map_prod id Out_Bool (revoke_session digest now token p store)"
| "session_step digest now Op_Invalidate store = (invalidate_all now store, Out_None)"

type_synonym session_log = "(int \<times> session_op \<times> session_out) list"

fun session_run ::
  "(string \<Rightarrow> bytes) \<Rightarrow> (int \<times> session_op) list \<Rightarrow> session_store \<times> session_log \<Rightarrow> session_store \<times> session_log"
where
  "session_run digest [] (store, hist) = (store, hist)"
| "session_run digest ((now, op) # ops) (store, hist) =
     (case session_step digest now op store of
        (store', out) \<Rightarrow> session_run digest ops (store', hist @ [(now, op, out)]))"

subsection \<open>Path prefixes\<close>

definition validate_prefix :: "string \<Rightarrow> py_error + unit" where
  "validate_prefix pfx =
     (if \<not> prefix ''/'' pfx then Inl ValueError
      else if (\<exists>c \<in> set pfx. c \<in> {CHR ''?'', CHR ''#'', CHR ''%'', CHR 0x5C} \<or> is_control c) then Inl ValueError
      else if pfx \<noteq> ''/'' \<and> suffix ''/'' pfx then Inl ValueError
      else if pfx = ''/'' then Inr ()
      else if (\<exists>seg \<in> set (tl (py_split (CHR ''/'') pfx)). seg \<in> {'''', ''.'', ''..''}) then Inl ValueError
      else if pfx = ''/_xferry'' \<or> prefix ''/_xferry/'' pfx then Inl ValueError
      else Inr ())"

definition prefix_matches :: "string \<Rightarrow> string \<Rightarrow> string \<Rightarrow> bool" where
  "prefix_matches pfx raw_path decoded_path =
     (if \<not> prefix ''/'' raw_path \<or> \<not> prefix ''/'' decoded_path then False
      else if (\<exists>path \<in> {raw_path, decoded_path}. path = ''/_xferry'' \<or> prefix ''/_xferry/'' path) then False
      else if pfx = ''/'' then prefix ''/'' raw_path
      else raw_path = pfx \<or> prefix (pfx @ ''/'') raw_path)"

subsection \<open>The invariant of the store\<close>

text \<open>The history entries that end the session stored under a digest, and those that refresh it.\<close>

fun ends :: "(string \<Rightarrow> bytes) \<Rightarrow> bytes \<Rightarrow> int \<times> session_op \<times> session_out \<Rightarrow> bool" where
  "ends digest d (_, Op_Revoke token p, Out_Bool True) = (digest token = d)"
| "ends digest d (_, Op_Invalidate, _) = True"
| "ends digest d (_, Op_Create pfx dec diag p rnd, Out_Create (Created token s)) = (digest token = d)"
| "ends digest d _ = False"

fun refreshes :: "(string \<Rightarrow> bytes) \<Rightarrow> bytes \<Rightarrow> int \<Rightarrow> int \<times> session_op \<times> session_out \<Rightarrow> bool" where
  "refreshes digest d u (v, Op_Resolve token p True, Out_Session (Some s)) = (u = v \<and> digest token = d)"
| "refreshes digest d u (v, Op_Touch (Some h), Out_Session (Some s)) = (u = v \<and> th_digest h = d)"
| "refreshes digest d u _ = False"

text \<open>A stored session goes back to one creation in the history that nothing has ended since.\<close>

definition backed :: "(string \<Rightarrow> bytes) \<Rightarrow> session_log \<Rightarrow> bytes \<Rightarrow> stored_session \<Rightarrow> bool" where
  "backed digest hist d st \<longleftrightarrow>
     (\<exists>pre t pfx dec diag rnd token s post.
        hist = pre @ (t, Op_Create pfx dec diag (ss_principal st) rnd, Out_Create (Created token s)) # post \<and>
        digest token = d \<and> (\<exists>u. ss_session st = session_at pfx dec diag t\<lparr>as_last_activity_at := u\<rparr> \<and>
          (u = t \<or> (\<exists>e \<in> set post. refreshes digest d u e))) \<and>
        (\<forall>e \<in> set post. \<not> ends digest d e))"

definition store_ok :: "session_store \<Rightarrow> bool" where
  "store_ok store \<longleftrightarrow> dict_ok store \<and> length store \<le> MAX_SESSIONS \<and> (\<forall>(d, st) \<in> set store. ss_digest st = d)"

lemma store_ok_purge [simp]: "store_ok store \<Longrightarrow> store_ok (purge_expired now store)"
  by (auto simp: store_ok_def purge_expired_def intro: order_trans[OF length_filter_le])

lemma locate_loop_eq:
  "\<forall>(k, st) \<in> set store. ss_digest st = k \<Longrightarrow> dict_ok store \<Longrightarrow>
     locate_loop d found store = (case dict_get store d of None \<Rightarrow> found | Some st \<Rightarrow> Some st)"
proof (induction store arbitrary: found)
  case (Cons kv store)
  obtain k st where kv: "kv = (k, st)" by fastforce
  have "dict_get store k = None" using Cons.prems(2) by (simp add: kv map_of_eq_None_iff)
  moreover have "ss_digest st = k" using Cons.prems(1) by (simp add: kv)
  moreover have "locate_loop d f store = (case dict_get store d of None \<Rightarrow> f | Some st \<Rightarrow> Some st)" for f
    using Cons by simp
  ultimately show ?case by (simp add: kv)
qed simp

lemma locate_digest_eq [simp]: "store_ok store \<Longrightarrow> locate_digest d store = dict_get store d"
  using locate_loop_eq[of store d None] by (simp add: locate_digest_def store_ok_def split: option.splits)

lemma store_ok_digest: "store_ok store \<Longrightarrow> dict_get store d = Some st \<Longrightarrow> ss_digest st = d"
  by (auto simp: store_ok_def dest!: dict_get_SomeD)

lemma purge_get: "store_ok store \<Longrightarrow> dict_get (purge_expired now store) d =
    (case dict_get store d of None \<Rightarrow> None | Some st \<Rightarrow> if expired_at now st then None else Some st)"
  by (simp add: purge_expired_def store_ok_def dict_get_filter split: option.splits)

lemma set_purge_subset: "set (purge_expired now store) \<subseteq> set store"
  by (auto simp: purge_expired_def)

lemma store_ok_set_old: "store_ok store \<Longrightarrow> dict_get store d = Some st \<Longrightarrow> ss_digest st' = d \<Longrightarrow> store_ok (dict_set d st' store)"
  using set_dict_set_subset[of d st' store] by (auto simp: store_ok_def length_dict_set_old)

lemma store_ok_set_new:
  "store_ok store \<Longrightarrow> dict_get store d = None \<Longrightarrow> length store < MAX_SESSIONS \<Longrightarrow> ss_digest st' = d \<Longrightarrow>
     store_ok (dict_set d st' store)"
  using set_dict_set_subset[of d st' store] by (auto simp: store_ok_def length_dict_set_new)

lemma store_ok_del: "store_ok store \<Longrightarrow> store_ok (dict_del d store)"
  using set_dict_del_subset[of d store] length_dict_del_le[of d store] by (auto simp: store_ok_def)

lemma backed_snoc: "backed digest hist d st \<Longrightarrow> \<not> ends digest d e \<Longrightarrow> backed digest (hist @ [e]) d st"
proof -
  assume "backed digest hist d st" and e: "\<not> ends digest d e"
  then obtain pre t pfx dec diag rnd token s post where
    "hist = pre @ (t, Op_Create pfx dec diag (ss_principal st) rnd, Out_Create (Created token s)) # post"
    "digest token = d" "\<exists>u. ss_session st = session_at pfx dec diag t\<lparr>as_last_activity_at := u\<rparr> \<and>
       (u = t \<or> (\<exists>e \<in> set post. refreshes digest d u e))" "\<forall>e \<in> set post. \<not> ends digest d e"
    unfolding backed_def by blast
  with e show ?thesis unfolding backed_def
    by (intro exI[of _ pre] exI[of _ t] exI[of _ pfx] exI[of _ dec] exI[of _ diag] exI[of _ rnd] exI[of _ token]
        exI[of _ s] exI[of _ "post @ [e]"]) auto
qed

lemma backed_touch:
  assumes "backed digest hist d st" "\<not> ends digest d e" "refreshes digest d now e"
  shows "backed digest (hist @ [e]) d (touched now st)"
proof -
  obtain pre t pfx dec diag rnd token s post u where
    "hist = pre @ (t, Op_Create pfx dec diag (ss_principal st) rnd, Out_Create (Created token s)) # post"
    "digest token = d" "ss_session st = session_at pfx dec diag t\<lparr>as_last_activity_at := u\<rparr>"
    "\<forall>e \<in> set post. \<not> ends digest d e"
    using assms(1) unfolding backed_def by blast
  with assms(2,3) show ?thesis unfolding backed_def
    by (intro exI[of _ pre] exI[of _ t] exI[of _ pfx] exI[of _ dec] exI[of _ diag] exI[of _ rnd] exI[of _ token]
        exI[of _ s] exI[of _ "post @ [e]"]) (auto simp: touched_def)
qed

lemma backed_new:
  "backed digest (hist @ [(now, Op_Create pfx dec diag p rnd, Out_Create (Created token s))]) (digest token)
     \<lparr>ss_digest = digest token, ss_session = session_at pfx dec diag now, ss_principal = p\<rparr>"
  unfolding backed_def
  by (intro exI[of _ hist] exI[of _ now] exI[of _ pfx] exI[of _ dec] exI[of _ diag] exI[of _ rnd] exI[of _ token]
      exI[of _ s] exI[of _ "[]"]) (simp add: session_at_def)

text \<open>What the minting loop does.\<close>

lemma mint_cases:
  assumes "store_ok store" "mint digest n i rnd s p store = (store', out)"
  shows "(store' = store \<and> (\<forall>token s'. out \<noteq> Created token s') \<and> out \<noteq> Exhausted) \<or>
    (\<exists>j token. i \<le> j \<and> j < i + n \<and> length (rnd j) = TOKEN_BYTES \<and> token = b64url_nopad (rnd j) \<and> out = Created token s \<and>
       dict_get store (digest token) = None \<and>
       store' = dict_set (digest token) \<lparr>ss_digest = digest token, ss_session = s, ss_principal = p\<rparr> store)"
  using assms
proof (induction n arbitrary: i)
  case (Suc n)
  show ?case
  proof (cases "length (rnd i) = TOKEN_BYTES \<and> dict_get store (digest (b64url_nopad (rnd i))) \<noteq> None")
    case True
    then have "mint digest n (Suc i) rnd s p store = (store', out)" using Suc.prems by (auto simp: Let_def)
    from Suc.IH[OF Suc.prems(1) this] show ?thesis by (elim disjE exE) force+
  next
    case False
    then show ?thesis using Suc.prems by (auto simp: Let_def split: if_splits)
  qed
qed auto

definition good_entries :: "(string \<Rightarrow> bytes) \<Rightarrow> session_log \<Rightarrow> session_store \<Rightarrow> bool" where
  "good_entries digest hist store \<longleftrightarrow> (\<forall>(d, st) \<in> set store. backed digest hist d st)"

lemma good_entries_mono:
  "good_entries digest hist store \<Longrightarrow> set store' \<subseteq> set store \<Longrightarrow>
    (\<And>d st. (d, st) \<in> set store' \<Longrightarrow> \<not> ends digest d e) \<Longrightarrow> good_entries digest (hist @ [e]) store'"
  unfolding good_entries_def by (fastforce intro: backed_snoc)

lemma good_entries_set:
  "good_entries digest hist store \<Longrightarrow> backed digest hist d st \<Longrightarrow> good_entries digest hist (dict_set d st store)"
  using set_dict_set_subset[of d st store] unfolding good_entries_def by fastforce

lemma create_inv:
  assumes ok: "store_ok store" and good: "good_entries digest hist store"
    and r: "create_session digest now pfx dec diag p rnd store = (store', out)"
  shows "store_ok store' \<and> good_entries digest (hist @ [(now, Op_Create pfx dec diag p rnd, Out_Create out)]) store'"
proof -
  let ?live = "purge_expired now store" and ?s = "session_at pfx dec diag now"
  let ?e = "(now, Op_Create pfx dec diag p rnd, Out_Create out)"
  have live: "store_ok ?live" using ok by simp
  have keep: "good_entries digest (hist @ [?e]) ?live" if "\<And>d st. (d, st) \<in> set ?live \<Longrightarrow> \<not> ends digest d ?e"
    using that by (intro good_entries_mono[OF good set_purge_subset])
  show ?thesis
  proof (cases "MAX_SESSIONS \<le> length ?live")
    case True
    then show ?thesis using r live keep by (auto simp: create_session_def)
  next
    case False
    then have "mint digest MAX_COLLISION_ATTEMPTS 0 rnd ?s p ?live = (store', out)"
      using r by (simp add: create_session_def Let_def)
    from mint_cases[OF live this] show ?thesis
    proof (elim disjE exE conjE)
      assume "store' = ?live" "\<forall>token s'. out \<noteq> Created token s'"
      then show ?thesis using live keep by (cases out) auto
    next
      fix j token
      assume t: "out = Created token ?s" "dict_get ?live (digest token) = None"
        "store' = dict_set (digest token) \<lparr>ss_digest = digest token, ss_session = ?s, ss_principal = p\<rparr> ?live"
      have "(d, st) \<in> set ?live \<Longrightarrow> \<not> ends digest d ?e" for d st
        using t(2) live dict_mem_get[of ?live d st] by (auto simp: t(1) store_ok_def)
      then show ?thesis using t live False keep backed_new[of digest hist now pfx dec diag p rnd token ?s]
        by (auto intro: good_entries_set store_ok_set_new)
    qed
  qed
qed

lemma touch_store_inv:
  assumes ok: "store_ok store" and good: "good_entries digest hist store" and g: "dict_get store d = Some st"
    and e: "refreshes digest d now e" "\<And>k. \<not> ends digest k e"
  shows "store_ok (dict_set d (touched now st) store) \<and> good_entries digest (hist @ [e]) (dict_set d (touched now st) store)"
proof -
  have "backed digest hist d st" using good dict_get_SomeD[OF g] by (auto simp: good_entries_def)
  then have "backed digest (hist @ [e]) d (touched now st)" using e by (intro backed_touch)
  moreover have "good_entries digest (hist @ [e]) store" using e(2) by (intro good_entries_mono[OF good]) auto
  moreover have "store_ok (dict_set d (touched now st) store)"
    using store_ok_digest[OF ok g] by (intro store_ok_set_old[OF ok g]) (simp add: touched_def)
  ultimately show ?thesis by (auto intro: good_entries_set)
qed

lemma session_step_inv:
  assumes inv: "store_ok store" "good_entries digest hist store" and r: "session_step digest now op store = (store', out)"
  shows "store_ok store' \<and> good_entries digest (hist @ [(now, op, out)]) store'"
proof -
  let ?live = "purge_expired now store"
  have live: "store_ok ?live" using inv by simp
  have good: "good_entries digest hist ?live" using inv(2) set_purge_subset by (fastforce simp: good_entries_def)
  have keep: "good_entries digest (hist @ [e]) ?live" if "\<And>k. \<not> ends digest k e" for e
    using good_entries_mono[OF good subset_refl] that by blast
  show ?thesis
  proof (cases op)
    case (Op_Create pfx dec diag p rnd)
    then show ?thesis using r create_inv[OF inv] by (auto simp: map_prod_def split: prod.splits)
  next
    case (Op_Resolve token p touch)
    show ?thesis
    proof (cases "dict_get ?live (digest token)")
      case None
      then show ?thesis using r Op_Resolve live keep by (auto simp: resolve_session_def)
    next
      case (Some st)
      note t = touch_store_inv[OF live good Some, of now "(now, Op_Resolve token p True, Out_Session (Some s))" for s]
      show ?thesis
        using r Op_Resolve Some live keep t store_ok_digest[OF live Some]
        by (cases touch) (auto simp: resolve_session_def Let_def split: if_splits)
    qed
  next
    case (Op_Touch h)
    show ?thesis
    proof (cases h)
      case None
      then show ?thesis using r Op_Touch inv good_entries_mono[OF inv(2) subset_refl] by (auto simp: touch_dispatch_def)
    next
      case (Some hd)
      show ?thesis
      proof (cases "dict_get ?live (th_digest hd)")
        case None
        then show ?thesis using r Op_Touch Some live keep by (auto simp: touch_dispatch_def)
      next
        case g: (Some st)
        note t = touch_store_inv[OF live good g, of now "(now, Op_Touch (Some hd), Out_Session (Some s))" for s]
        show ?thesis
          using r Op_Touch Some g live keep t by (auto simp: touch_dispatch_def Let_def split: if_splits)
      qed
    qed
  next
    case (Op_Revoke token p)
    show ?thesis
    proof (cases "dict_get ?live (digest token)")
      case None
      then show ?thesis using r Op_Revoke live keep by (auto simp: revoke_session_def)
    next
      case (Some st)
      have "k \<noteq> digest token" if "(k, v) \<in> set (dict_del (digest token) ?live)" for k v
        using that by (auto simp: AList.delete_eq)
      then have "good_entries digest (hist @ [(now, op, Out_Bool True)]) (dict_del (digest token) ?live)"
        using Op_Revoke by (intro good_entries_mono[OF good set_dict_del_subset]) fastforce
      then show ?thesis
        using r Op_Revoke Some live keep store_ok_digest[OF live Some] store_ok_del[OF live, of "digest token"]
        by (auto simp: revoke_session_def Let_def split: if_splits)
    qed
  next
    case Op_Invalidate
    then show ?thesis using r by (auto simp: invalidate_all_def store_ok_def good_entries_def MAX_SESSIONS_def)
  qed
qed

lemma session_run_inv:
  "store_ok store \<Longrightarrow> good_entries digest hist store \<Longrightarrow> session_run digest ops (store, hist) = (store', hist') \<Longrightarrow>
     store_ok store' \<and> good_entries digest hist' store'"
proof (induction ops arbitrary: store hist)
  case (Cons x ops)
  obtain now op where x: "x = (now, op)" by fastforce
  obtain s1 out where s1: "session_step digest now op store = (s1, out)" by fastforce
  from session_step_inv[OF Cons.prems(1,2) s1] Cons.IH[of s1 "hist @ [(now, op, out)]"] Cons.prems(3) x s1
  show ?case by simp
qed simp

lemma session_reachable:
  assumes "session_run digest ops ([], []) = (store, hist)"
  shows "store_ok store" "good_entries digest hist store"
  using session_run_inv[OF _ _ assms] by (auto simp: store_ok_def good_entries_def)

subsection \<open>Properties\<close>

text \<open>C7. A bearer token opens only what was created for it: when \<open>resolve\<close> answers with a session, then
  for any history of the store there was one creation that handed out a token with the same digest, by
  the same principal (mode and owner), with the prefix, decoder and diagnostics setting that are
  returned; less than 60 minutes have passed since, less than 15 since its last refresh; and no
  successful revocation, no invalidation and no re-use of the digest lies in between.\<close>

theorem resolved_session_authentic:
  assumes "session_run digest ops ([], []) = (store, hist)"
    and "resolve_session digest now token p touch store = (store', Some s)"
  shows "\<exists>pre t q rnd tok s0 post u.
    hist = pre @ (t, Op_Create (as_prefix s) (as_decoder s) (as_diagnostic_headers s) q rnd, Out_Create (Created tok s0)) # post \<and>
    digest tok = digest token \<and> pr_mode q = pr_mode p \<and> pr_owner q = pr_owner p \<and>
    as_created_at s = t \<and> now_in_lifetime now t u \<and>
    (u = t \<or> list_ex (refreshes digest (digest token) u) post) \<and>
    as_last_activity_at s = (if touch then now else u) \<and>
    list_all (\<lambda>e. \<not> ends digest (digest token) e) post"
proof -
  note reach = session_reachable[OF assms(1)]
  let ?live = "purge_expired now store"
  obtain st where g: "dict_get ?live (digest token) = Some st" and m: "principal_matches (ss_principal st) p"
    and s: "s = (if touch then ss_session (touched now st) else ss_session st)"
    using assms(2) reach(1) by (auto simp: resolve_session_def Let_def split: option.splits if_splits)
  have "(digest token, st) \<in> set ?live" using dict_get_SomeD[OF g] .
  then have st: "(digest token, st) \<in> set store" "\<not> expired_at now st" by (auto simp: purge_expired_def)
  then have "backed digest hist (digest token) st" using reach(2) by (auto simp: good_entries_def)
  then obtain pre t pfx dec diag rnd tok s0 post u where b:
    "hist = pre @ (t, Op_Create pfx dec diag (ss_principal st) rnd, Out_Create (Created tok s0)) # post"
    "digest tok = digest token" "ss_session st = session_at pfx dec diag t\<lparr>as_last_activity_at := u\<rparr>"
    "u = t \<or> (\<exists>e \<in> set post. refreshes digest (digest token) u e)" "\<forall>e \<in> set post. \<not> ends digest (digest token) e"
    unfolding backed_def by blast
  have fields: "as_prefix s = pfx" "as_decoder s = dec" "as_diagnostic_headers s = diag" "as_created_at s = t"
    "as_last_activity_at s = (if touch then now else u)"
    using b(3) by (auto simp: s touched_def session_at_def)
  have times: "now_in_lifetime now t u"
    using st(2) b(3) by (auto simp: expired_at_def session_at_def now_in_lifetime_def)
  show ?thesis unfolding fields(1-4) using b m times fields(5)
    by (intro exI[of _ pre] exI[of _ t] exI[of _ "ss_principal st"] exI[of _ rnd] exI[of _ tok] exI[of _ s0]
        exI[of _ post] exI[of _ u]) (auto simp: principal_matches_def list_all_iff list_ex_iff)
qed

definition ascii_digest :: "string \<Rightarrow> bytes" where "ascii_digest = map (\<lambda>c. word_of_nat (ord c))"

definition basic_user :: "string \<Rightarrow> principal" where
  "basic_user u = \<lparr>pr_mode = Basic_Auth, pr_owner = Some u\<rparr>"

definition token_source :: "nat \<Rightarrow> bytes" where "token_source i = replicate 32 (word_of_nat i)"

definition demo_sessions :: "(int \<times> session_op) list" where
  "demo_sessions = [(0, Op_Create ''/drop'' ''json'' False (basic_user ''ann'') token_source)]"

definition demo_token :: string where "demo_token = b64url_nopad (replicate 32 0)"

lemma demo_sessions_run:
  "session_run ascii_digest demo_sessions ([], []) =
     ([(ascii_digest demo_token, \<lparr>ss_digest = ascii_digest demo_token, ss_session = session_at ''/drop'' ''json'' False 0,
         ss_principal = basic_user ''ann''\<rparr>)],
      [(0, Op_Create ''/drop'' ''json'' False (basic_user ''ann'') token_source,
         Out_Create (Created demo_token (session_at ''/drop'' ''json'' False 0)))])"
  by (simp add: demo_sessions_def demo_token_def token_source_def create_session_def purge_expired_def MAX_SESSIONS_def Let_def
      MAX_COLLISION_ATTEMPTS_def numeral_3_eq_3 TOKEN_BYTES_def locate_digest_def)

lemma resolved_session_authentic_witness:
  "\<exists>s store' pre t q rnd tok s0 post u.
    resolve_session ascii_digest 5 demo_token (basic_user ''ann'') True (fst (session_run ascii_digest demo_sessions ([], []))) =
      (store', Some s) \<and>
    snd (session_run ascii_digest demo_sessions ([], [])) =
      pre @ (t, Op_Create (as_prefix s) (as_decoder s) (as_diagnostic_headers s) q rnd, Out_Create (Created tok s0)) # post \<and>
    ascii_digest tok = ascii_digest demo_token \<and> pr_owner q = Some ''ann'' \<and> now_in_lifetime 5 t u"
proof -
  have r: "resolve_session ascii_digest 5 demo_token (basic_user ''ann'') True (fst (session_run ascii_digest demo_sessions ([], []))) =
      (fst (resolve_session ascii_digest 5 demo_token (basic_user ''ann'') True (fst (session_run ascii_digest demo_sessions ([], [])))),
       Some ((session_at ''/drop'' ''json'' False 0)\<lparr>as_last_activity_at := 5\<rparr>))"
    by (simp add: demo_sessions_run resolve_session_def purge_expired_def expired_at_def session_at_def
        ABSOLUTE_LIFETIME_def IDLE_TIMEOUT_def locate_digest_def principal_matches_def basic_user_def touched_def)
  show ?thesis
    using resolved_session_authentic[OF surjective_pairing r] r
    by (fastforce simp: basic_user_def)
qed

text \<open>Creation is exact and bounded. In any reachable store, a creation at \<open>now\<close> first forgets exactly
  the sessions that are past their absolute or idle limit; it reports exhaustion exactly when 64
  live ones remain, and otherwise either adds one fresh entry for a token of 32 random bytes, with its
  deadline an hour ahead, leaving every live session as it was, or changes nothing else. The table never
  exceeds 64 entries.\<close>

theorem create_session_exact:
  assumes "session_run digest ops ([], []) = (store, hist)"
    and "create_session digest now pfx dec diag p rnd store = (store', out)"
  shows "length store' \<le> 64 \<and> (out = Exhausted) = (64 \<le> length (purge_expired now store)) \<and>
    (case out of
       Created token s \<Rightarrow>
         (\<exists>j < 3. length (rnd j) = 32 \<and> token = b64url_nopad (rnd j)) \<and> s = session_at pfx dec diag now \<and>
         dict_get (purge_expired now store) (digest token) = None \<and>
         store' = purge_expired now store @ [(digest token, \<lparr>ss_digest = digest token, ss_session = s, ss_principal = p\<rparr>)]
     | _ \<Rightarrow> store' = purge_expired now store)"
proof -
  note reach = session_reachable[OF assms(1)]
  let ?live = "purge_expired now store"
  have live: "store_ok ?live" using reach(1) by simp
  have bound: "length store' \<le> 64"
    using create_inv[OF reach assms(2)] by (simp add: store_ok_def MAX_SESSIONS_def)
  have app: "dict_set d v ?live = ?live @ [(d, v)]" if "dict_get ?live d = None" for d v
    using that by (rule dict_set_new)
  show ?thesis
  proof (cases "MAX_SESSIONS \<le> length ?live")
    case True
    then show ?thesis using bound assms(2) by (auto simp: create_session_def MAX_SESSIONS_def)
  next
    case False
    then have "mint digest 3 0 rnd (session_at pfx dec diag now) p ?live = (store', out)"
      using assms(2) by (simp add: create_session_def Let_def MAX_COLLISION_ATTEMPTS_def)
    from mint_cases[OF live this] show ?thesis
      using bound False app by (cases out) (auto simp: MAX_SESSIONS_def TOKEN_BYTES_def)
  qed
qed

lemma create_session_exact_witness:
  "\<exists>store' out. create_session ascii_digest 7 ''/x'' ''raw'' True (basic_user ''bob'') token_source
      (fst (session_run ascii_digest demo_sessions ([], []))) = (store', out) \<and>
    length store' \<le> 64 \<and> (out = Exhausted) = (64 \<le> length (purge_expired 7 (fst (session_run ascii_digest demo_sessions ([], [])))))"
proof -
  have a: "session_run ascii_digest demo_sessions ([], []) =
      (fst (session_run ascii_digest demo_sessions ([], [])), snd (session_run ascii_digest demo_sessions ([], [])))" by simp
  obtain store' out where b: "create_session ascii_digest 7 ''/x'' ''raw'' True (basic_user ''bob'') token_source
      (fst (session_run ascii_digest demo_sessions ([], []))) = (store', out)" by fastforce
  from create_session_exact[OF a b] b show ?thesis by blast
qed

text \<open>Prefix routing is routing by path segments: for every prefix that validation accepts, a request
  is routed to the session exactly when both its raw and its decoded path are absolute, neither of
  them starts with the reserved segment \<open>_xferry\<close>, and the segments of the prefix (none for \<open>/\<close>) are the
  first segments of the raw path; so \<open>/drop\<close> never captures \<open>/dropped\<close>.\<close>

definition segments :: "string \<Rightarrow> string list" where
  "segments path = tl (py_split (CHR ''/'') path)"

definition route_of :: "string \<Rightarrow> string list" where
  "route_of pfx = (if pfx = ''/'' then [] else segments pfx)"

lemma absolute_split: "prefix ''/'' path \<Longrightarrow> py_split (CHR ''/'') path = [] # segments path"
  by (cases path) (auto simp: segments_def)

lemma segments_prefix_iff:
  assumes "prefix ''/'' x" "prefix ''/'' y"
  shows "prefix (segments x) (segments y) \<longleftrightarrow> y = x \<or> prefix (x @ ''/'') y"
proof -
  have "prefix (segments x) (segments y) \<longleftrightarrow> prefix (py_split (CHR ''/'') x) (py_split (CHR ''/'') y)"
    using assms by (simp add: absolute_split)
  then show ?thesis by (simp add: prefix_split_iff)
qed

lemma reserved_iff:
  assumes "prefix ''/'' path"
  shows "hd (segments path) = ''_xferry'' \<longleftrightarrow> path = ''/_xferry'' \<or> prefix ''/_xferry/'' path"
proof -
  have "segments path \<noteq> []" using assms by (cases path) (auto simp: segments_def)
  then have "hd (segments path) = ''_xferry'' \<longleftrightarrow> prefix (segments ''/_xferry'') (segments path)"
    by (cases "segments path") (auto simp: segments_def)
  also have "\<dots> \<longleftrightarrow> path = ''/_xferry'' \<or> prefix (''/_xferry'' @ ''/'') path"
    using assms by (intro segments_prefix_iff) simp_all
  finally show ?thesis by simp
qed

theorem prefix_routing_by_segments:
  assumes "validate_prefix pfx = Inr ()"
  shows "prefix_matches pfx raw decoded =
    (prefix ''/'' raw \<and> prefix ''/'' decoded \<and> hd (segments raw) \<noteq> ''_xferry'' \<and> hd (segments decoded) \<noteq> ''_xferry'' \<and>
     prefix (route_of pfx) (segments raw) \<and> list_all (\<lambda>seg. seg \<notin> {'''', ''.'', ''..''}) (route_of pfx))"
proof (cases "prefix ''/'' raw \<and> prefix ''/'' decoded")
  case True
  have ok: "prefix ''/'' pfx" "list_all (\<lambda>seg. seg \<notin> {'''', ''.'', ''..''}) (route_of pfx)"
    using assms by (auto simp: validate_prefix_def route_of_def segments_def list_all_iff split: if_splits)
  have "prefix (route_of pfx) (segments raw) \<longleftrightarrow> pfx = ''/'' \<or> raw = pfx \<or> prefix (pfx @ ''/'') raw"
    using segments_prefix_iff[OF ok(1)] True by (simp add: route_of_def)
  then show ?thesis using True ok(2) reserved_iff[of raw] reserved_iff[of decoded]
    by (auto simp: prefix_matches_def)
qed (auto simp: prefix_matches_def)

lemma prefix_routing_by_segments_witness:
  "prefix_matches ''/drop'' ''/drop/a'' ''/drop/a'' \<and> \<not> prefix_matches ''/drop'' ''/dropped'' ''/dropped''"
proof -
  have "validate_prefix ''/drop'' = Inr ()"
    by (simp add: validate_prefix_def is_control_def suffix_def)
  note p = prefix_routing_by_segments[OF this]
  show ?thesis unfolding p by (simp add: segments_def route_of_def)
qed

end
