(* ===== verification/Ws_Frames.thy ===== *)
theory Ws_Frames
  imports Py_Text
begin

unbundle bit_operations_syntax

section \<open>WebSocket frames\<close>

text \<open>
  The frame layer of \<^verbatim>\<open>xferry/websocket.py\<close>: the handshake response, \<open>parse_ws_frame\<close> and \<open>build_ws_frame\<close>.
  SHA-1 of the accept key is the parameter \<open>sha1_b64\<close> (the base64 text of the digest).
\<close>

definition MAX_FRAME_SIZE :: nat where "MAX_FRAME_SIZE = 10 * 1024 * 1024"

definition WS_CONTINUATION :: nat where "WS_CONTINUATION = 0"
definition WS_TEXT :: nat where "WS_TEXT = 1"
definition WS_BINARY :: nat where "WS_BINARY = 2"
definition WS_CLOSE :: nat where "WS_CLOSE = 8"
definition WS_PING :: nat where "WS_PING = 9"
definition WS_PONG :: nat where "WS_PONG = 10"

definition control_opcodes :: "nat set" where "control_opcodes = {WS_CLOSE, WS_PING, WS_PONG}"

definition supported_opcodes :: "nat set" where
  "supported_opcodes = {WS_CONTINUATION, WS_TEXT, WS_BINARY, WS_CLOSE, WS_PING, WS_PONG}"

lemmas ws_opcodes = WS_CONTINUATION_def WS_TEXT_def WS_BINARY_def WS_CLOSE_def WS_PING_def WS_PONG_def
  control_opcodes_def supported_opcodes_def

text \<open>\<open>WebSocketProtocolError\<close> always carries close code 1002; \<open>Too_Large\<close> is the \<open>ValueError\<close>.\<close>

datatype ws_error = Protocol_Error | Too_Large

subsection \<open>Upgrade and handshake\<close>

record upgrade_context =
  uc_method :: string
  uc_upgrade :: "string option"
  uc_connection :: "string option"
  uc_authority :: "string option"
  uc_ws_key :: "string option"
  uc_ws_version :: "string option"

definition check_websocket_upgrade :: "upgrade_context \<Rightarrow> bool" where
  "check_websocket_upgrade r =
     (let text = (\<lambda>v. case v of None \<Rightarrow> [] | Some s \<Rightarrow> s)
      in if uc_method r \<noteq> ''GET'' then False
         else if py_lower (text (uc_upgrade r)) \<noteq> ''websocket'' then False
         else if ''upgrade'' \<notin> set (map py_strip (py_split (CHR '','') (py_lower (text (uc_connection r))))) then False
         else if uc_authority r = None then False
         else if text (uc_ws_version r) \<noteq> ''13'' then False
         else (case b64decode_strict (text (uc_ws_key r)) of None \<Rightarrow> False | Some k \<Rightarrow> length k = 16))"

definition WS_GUID :: string where "WS_GUID = ''258EAFA5-E914-47DA-95CA-C5AB0DC85B11''"

definition build_ws_accept_key :: "(bytes \<Rightarrow> string) \<Rightarrow> string \<Rightarrow> string" where
  "build_ws_accept_key sha1_b64 ws_key = sha1_b64 (ascii_bytes (py_strip ws_key @ WS_GUID))"

definition crlf :: string where "crlf = [CHR 0x0D, CHR 0x0A]"

definition build_ws_handshake_response :: "(bytes \<Rightarrow> string) \<Rightarrow> string \<Rightarrow> bytes" where
  "build_ws_handshake_response sha1_b64 ws_key =
     ascii_bytes (''HTTP/1.1 101 Switching Protocols'' @ crlf @ ''Upgrade: websocket'' @ crlf @
       ''Connection: Upgrade'' @ crlf @ ''Sec-WebSocket-Accept: '' @ build_ws_accept_key sha1_b64 ws_key @ crlf @ crlf)"

subsection \<open>Parsing\<close>

definition is_valid_close_code :: "nat \<Rightarrow> bool" where
  "is_valid_close_code code =
     (if code \<in> {1004, 1005, 1006, 1015} then False
      else if 1000 \<le> code \<and> code \<le> 1014 then True
      else 3000 \<le> code \<and> code \<le> 4999)"

definition validate_close_payload :: "bytes \<Rightarrow> ws_error + unit" where
  "validate_close_payload payload =
     (if length payload = 1 then Inl Protocol_Error
      else if length payload < 2 then Inr ()
      else if \<not> is_valid_close_code (be_unpack (take 2 payload)) then Inl Protocol_Error
      else if \<not> utf8_valid (drop 2 payload) then Inl Protocol_Error
      else Inr ())"

text \<open>The unmasking loop.\<close>

definition apply_mask :: "bytes \<Rightarrow> bytes \<Rightarrow> bytes" where
  "apply_mask key raw = map (\<lambda>i. (raw ! i) XOR (key ! (i mod 4))) [0..<length raw]"

text \<open>The checks on the first byte, in the order of the code.\<close>

definition check_first_byte :: "byte \<Rightarrow> ws_error + nat" where
  "check_first_byte first_byte =
     (let fin = (first_byte AND 0x80 \<noteq> 0); rsv = first_byte AND 0x70; opcode = unat (first_byte AND 0x0F)
      in if rsv \<noteq> 0 then Inl Protocol_Error
         else if opcode \<notin> supported_opcodes then Inl Protocol_Error
         else if opcode = WS_CONTINUATION then Inl Protocol_Error
         else if opcode \<in> control_opcodes \<and> \<not> fin then Inl Protocol_Error
         else if opcode \<in> {WS_TEXT, WS_BINARY} \<and> \<not> fin then Inl Protocol_Error
         else Inr opcode)"

text \<open>The payload length and the offset after it; \<open>None\<close> when more bytes are needed.\<close>

definition frame_length :: "bytes \<Rightarrow> (nat \<times> nat) option" where
  "frame_length buf =
     (let n = unat (buf ! 1 AND 0x7F)
      in if n = 126 then (if length buf < 4 then None else Some (be_unpack (take 2 (drop 2 buf)), 4))
         else if n = 127 then (if length buf < 10 then None else Some (be_unpack (take 8 (drop 2 buf)), 10))
         else Some (n, 2))"

text \<open>The rest of the frame, once its length is known.\<close>

definition frame_body :: "bytes \<Rightarrow> nat \<Rightarrow> bool \<Rightarrow> nat \<Rightarrow> nat \<Rightarrow> ws_error + (nat \<times> bytes \<times> nat) option" where
  "frame_body buf opcode masked payload_len offset =
     (if opcode \<in> control_opcodes \<and> 125 < payload_len then Inl Protocol_Error
      else if MAX_FRAME_SIZE < payload_len then Inl Too_Large
      else if masked \<and> length buf < offset + 4 then Inr None
      else
        (let mask_key = (if masked then take 4 (drop offset buf) else []);
             offset' = (if masked then offset + 4 else offset)
         in if length buf < offset' + payload_len then Inr None
            else
              (let raw = take payload_len (drop offset' buf);
                   payload = (if masked then apply_mask mask_key raw else raw)
               in if opcode = WS_CLOSE
                  then (case validate_close_payload payload of
                          Inl e \<Rightarrow> Inl e | Inr _ \<Rightarrow> Inr (Some (opcode, payload, offset' + payload_len)))
                  else Inr (Some (opcode, payload, offset' + payload_len)))))"

definition parse_ws_frame :: "bool \<Rightarrow> bytes \<Rightarrow> ws_error + (nat \<times> bytes \<times> nat) option" where
  "parse_ws_frame require_mask buf =
     (if length buf < 2 then Inr None
      else case check_first_byte (buf ! 0) of
        Inl e \<Rightarrow> Inl e
      | Inr opcode \<Rightarrow>
          (let masked = (buf ! 1 AND 0x80 \<noteq> 0)
           in if require_mask \<and> \<not> masked then Inl Protocol_Error
              else case frame_length buf of
                None \<Rightarrow> Inr None
              | Some (payload_len, offset) \<Rightarrow> frame_body buf opcode masked payload_len offset))"

subsection \<open>Building\<close>

definition build_ws_frame :: "bytes \<Rightarrow> nat \<Rightarrow> bool \<Rightarrow> bytes" where
  "build_ws_frame payload opcode fin =
     (let first_byte = (if fin then 0x80 else 0) OR (word_of_nat opcode AND 0x0F);
          n = length payload
      in [first_byte] @
         (if n < 126 then [word_of_nat n]
          else if n < 65536 then 126 # be_pack 2 n
          else 127 # be_pack 8 n) @ payload)"

definition build_ws_close_frame :: "nat \<Rightarrow> string \<Rightarrow> bytes" where
  "build_ws_close_frame code reason =
     build_ws_frame (be_pack 2 code @ (if reason = [] then [] else utf8_encode reason)) WS_CLOSE True"

subsection \<open>Lemmas\<close>

lemma parse_consumed:
  assumes "parse_ws_frame rm buf = Inr (Some (opcode, payload, n))"
  shows "2 \<le> n \<and> n \<le> length buf"
  using assms
  by (auto simp: parse_ws_frame_def frame_length_def frame_body_def Let_def split: if_splits sum.splits option.splits)

text \<open>A verdict on a buffer is final: more input changes neither a parsed frame nor an error.\<close>

lemma take_drop_append: "m + n \<le> length xs \<Longrightarrow> take n (drop m (xs @ ys)) = take n (drop m xs)"
  by simp

lemma frame_length_append:
  "2 \<le> length buf \<Longrightarrow> frame_length buf = Some r \<Longrightarrow> frame_length (buf @ rest) = Some r"
  by (auto simp: frame_length_def Let_def nth_append split: if_splits)

lemma frame_body_append:
  assumes "frame_body buf opcode masked n off = r" "r \<noteq> Inr None"
  shows "frame_body (buf @ rest) opcode masked n off = r"
proof -
  have key: "\<not> length buf < off + 4 \<Longrightarrow> take 4 (drop off (buf @ rest)) = take 4 (drop off buf)"
    by (intro take_drop_append) simp
  have raw: "\<not> length buf < k + n \<Longrightarrow> take n (drop k (buf @ rest)) = take n (drop k buf)" for k
    by (intro take_drop_append) simp
  show ?thesis using assms key raw[of off] raw[of "off + 4"]
    by (auto simp: frame_body_def Let_def simp del: take_append drop_append split: if_splits sum.splits)
qed

lemma parse_append:
  assumes "parse_ws_frame rm buf = r" "r \<noteq> Inr None"
  shows "parse_ws_frame rm (buf @ rest) = r"
proof -
  have len: "2 \<le> length buf" using assms by (auto simp: parse_ws_frame_def split: if_splits)
  then have hd: "(buf @ rest) ! 0 = buf ! 0" "(buf @ rest) ! 1 = buf ! 1" by (auto simp: nth_append)
  show ?thesis
  proof (cases "frame_length buf")
    case None
    then show ?thesis using assms len hd by (auto simp: parse_ws_frame_def Let_def split: sum.splits if_splits)
  next
    case (Some nl)
    obtain n off where "nl = (n, off)" by fastforce
    then show ?thesis using assms len hd Some frame_length_append[OF len Some, of rest] frame_body_append[of buf _ _ n off _ rest]
      by (auto simp: parse_ws_frame_def Let_def split: sum.splits if_splits)
  qed
qed

text \<open>The frame a conforming client sends: RFC 6455 with the mask bit, a key and the masked payload.\<close>

definition client_frame :: "bytes \<Rightarrow> bytes \<Rightarrow> nat \<Rightarrow> bytes" where
  "client_frame key payload opcode =
     (let n = length payload
      in [0x80 OR (word_of_nat opcode AND 0x0F)] @
         (if n < 126 then [0x80 OR word_of_nat n]
          else if n < 65536 then (0x80 OR 126) # be_pack 2 n
          else (0x80 OR 127) # be_pack 8 n) @ key @ apply_mask key payload)"

lemma small_length_bits:
  "n < 126 \<Longrightarrow> unat ((word_of_nat n :: byte) AND 0x7F) = n \<and> (word_of_nat n :: byte) AND 0x80 = 0 \<and>
     unat (((0x80 :: byte) OR word_of_nat n) AND 0x7F) = n \<and> ((0x80 :: byte) OR word_of_nat n) AND 0x80 \<noteq> 0"
proof -
  have "list_all (\<lambda>n. unat ((word_of_nat n :: byte) AND 0x7F) = n \<and> (word_of_nat n :: byte) AND 0x80 = 0 \<and>
     unat (((0x80 :: byte) OR word_of_nat n) AND 0x7F) = n \<and> ((0x80 :: byte) OR word_of_nat n) AND 0x80 \<noteq> 0) [0..<126]"
    by code_simp
  then show "n < 126 \<Longrightarrow> ?thesis" by (simp add: list_all_iff)
qed

lemma first_byte_ok:
  "opcode \<in> {WS_TEXT, WS_BINARY, WS_CLOSE, WS_PING, WS_PONG} \<Longrightarrow>
     check_first_byte (0x80 OR (word_of_nat opcode AND 0x0F)) = Inr opcode"
  by (auto simp: check_first_byte_def ws_opcodes)

lemma length_apply_mask [simp]: "length (apply_mask key raw) = length raw"
  by (simp add: apply_mask_def)

lemma apply_mask_twice [simp]: "apply_mask key (apply_mask key raw) = raw"
  by (rule nth_equalityI) (simp_all add: apply_mask_def xor.assoc)

text \<open>A frame whose header carries a given length, in its shortest form.\<close>

definition length_header :: "bool \<Rightarrow> nat \<Rightarrow> bytes" where
  "length_header masked n = (let m = (if masked then 0x80 else 0) in
     if n < 126 then [m OR word_of_nat n] else if n < 65536 then (m OR 126) # be_pack 2 n else (m OR 127) # be_pack 8 n)"

lemma length_header_facts:
  assumes "n \<le> MAX_FRAME_SIZE"
  shows "\<exists>off. frame_length (b # length_header masked n @ tail) = Some (n, off) \<and> off = 1 + length (length_header masked n)"
    "(((b # length_header masked n @ tail) ! 1) AND 0x80 \<noteq> 0) = masked"
proof -
  have b: "n < 65536 \<Longrightarrow> n < 256 ^ 2" "n < 256 ^ 8" using assms by (auto simp: MAX_FRAME_SIZE_def)
  show "\<exists>off. frame_length (b # length_header masked n @ tail) = Some (n, off) \<and> off = 1 + length (length_header masked n)"
    using small_length_bits[of n] b by (cases masked) (auto simp: frame_length_def length_header_def Let_def)
  show "(((b # length_header masked n @ tail) ! 1) AND 0x80 \<noteq> 0) = masked"
    using small_length_bits[of n] by (cases masked) (auto simp: length_header_def Let_def)
qed

lemma parse_headed:
  assumes op: "opcode \<in> {WS_TEXT, WS_BINARY, WS_CLOSE, WS_PING, WS_PONG}" and n: "n \<le> MAX_FRAME_SIZE"
    and ctl: "opcode \<in> control_opcodes \<Longrightarrow> n \<le> 125"
    and data: "data = (if masked then key @ apply_mask key payload else payload)" "length payload = n" "masked \<Longrightarrow> length key = 4"
    and rm: "rm \<Longrightarrow> masked" and close: "opcode = WS_CLOSE \<Longrightarrow> validate_close_payload payload = Inr ()"
  shows "parse_ws_frame rm ((0x80 OR (word_of_nat opcode AND 0x0F)) # length_header masked n @ data @ tail) =
    Inr (Some (opcode, payload, 1 + length (length_header masked n) + length data))"
proof -
  let ?h = "length_header masked n" and ?b = "0x80 OR (word_of_nat opcode AND 0x0F) :: byte"
  let ?buf = "?b # ?h @ data @ tail"
  have l: "frame_length ?buf = Some (n, 1 + length ?h)" and m: "((?buf ! 1) AND 0x80 \<noteq> 0) = masked"
    using length_header_facts[OF n, of ?b masked "data @ tail"] by auto
  have split: "frame_body (pre @ data @ tail) opcode masked n (length pre) =
      Inr (Some (opcode, payload, length pre + length data))" for pre
  proof -
    have d: "drop (length pre) (pre @ data @ tail) = data @ tail" by simp
    have d4: "drop (length pre + 4) (pre @ data @ tail) = drop 4 (data @ tail)"
      by (metis d drop_drop add.commute)
    show ?thesis using data n ctl close unfolding frame_body_def Let_def d d4 by auto
  qed
  have "2 \<le> length ?buf" by (auto simp: length_header_def Let_def)
  then have "parse_ws_frame rm ?buf = frame_body ?buf opcode masked n (1 + length ?h)"
    using m rm l first_byte_ok[OF op] by (auto simp: parse_ws_frame_def)
  also have "\<dots> = Inr (Some (opcode, payload, 1 + length ?h + length data))"
    using split[of "?b # ?h"] by simp
  finally show ?thesis .
qed

lemma build_ws_frame_headed:
  "build_ws_frame payload opcode True = (0x80 OR (word_of_nat opcode AND 0x0F)) # length_header False (length payload) @ payload"
  by (simp add: build_ws_frame_def length_header_def Let_def)

lemma client_frame_headed:
  "client_frame key payload opcode =
     (0x80 OR (word_of_nat opcode AND 0x0F)) # length_header True (length payload) @ key @ apply_mask key payload"
  by (simp add: client_frame_def length_header_def Let_def)

subsection \<open>Properties\<close>

text \<open>C10. Frames survive the wire: for every supported opcode and every payload within the limits (125 bytes
  for control frames, 10 MiB otherwise, a well-formed body for close frames), the parser reads a frame built by
  \<open>build_ws_frame\<close>, or a frame masked by a client with any four-byte key and read with the mask required,
  back as exactly that opcode and payload, and consumes exactly its bytes whatever follows.\<close>

theorem ws_frame_roundtrip:
  assumes "opcode \<in> {WS_TEXT, WS_BINARY, WS_CLOSE, WS_PING, WS_PONG}" and "length payload \<le> MAX_FRAME_SIZE"
    and "opcode \<notin> control_opcodes \<or> length payload \<le> 125"
    and "opcode \<noteq> WS_CLOSE \<or> validate_close_payload payload = Inr ()" and "length key = 4"
  shows "parse_ws_frame False (build_ws_frame payload opcode True @ tail) =
      Inr (Some (opcode, payload, length (build_ws_frame payload opcode True))) \<and>
    parse_ws_frame True (client_frame key payload opcode @ tail) =
      Inr (Some (opcode, payload, length (client_frame key payload opcode)))"
proof -
  have ctl: "opcode \<in> control_opcodes \<Longrightarrow> length payload \<le> 125"
    and close: "opcode = WS_CLOSE \<Longrightarrow> validate_close_payload payload = Inr ()" using assms(3,4) by auto
  have "parse_ws_frame False (build_ws_frame payload opcode True @ tail) =
      Inr (Some (opcode, payload, length (build_ws_frame payload opcode True)))"
    using parse_headed[OF assms(1,2) ctl, of payload False key payload False tail] close
    by (simp add: build_ws_frame_headed)
  moreover have "parse_ws_frame True (client_frame key payload opcode @ tail) =
      Inr (Some (opcode, payload, length (client_frame key payload opcode)))"
    using parse_headed[OF assms(1,2) ctl, of "key @ apply_mask key payload" True key payload True tail] close assms(5)
    by (simp add: client_frame_headed)
  ultimately show ?thesis ..
qed

lemma ws_frame_roundtrip_witness:
  "parse_ws_frame False (build_ws_frame [0x68, 0x69] WS_TEXT True @ [1]) =
      Inr (Some (WS_TEXT, [0x68, 0x69], length (build_ws_frame [0x68, 0x69] WS_TEXT True))) \<and>
    parse_ws_frame True (client_frame [1, 2, 3, 4] [0x68, 0x69] WS_TEXT @ [1]) =
      Inr (Some (WS_TEXT, [0x68, 0x69], length (client_frame [1, 2, 3, 4] [0x68, 0x69] WS_TEXT)))"
  by (rule ws_frame_roundtrip) (simp_all add: ws_opcodes MAX_FRAME_SIZE_def)

end
