(* ===== verification/Ws_Runtime.thy ===== *)
theory Ws_Runtime
  imports Ws_Frames
begin

section \<open>WebSocket sessions\<close>

text \<open>
  \<open>WebSocketRuntime.handle_session\<close> of \<^verbatim>\<open>xferry/websocket_runtime.py\<close>: the handshake, the receive loop,
  the frame loop over the accumulated buffer and the close frame that must be sent once. A run is a list
  of what the loop's \<open>recv\<close> calls meet. The environment fixes what the code does not own: which
  \<open>sendall\<close> calls succeed (by their number), the readings of \<open>time.monotonic\<close> (by their number) and the
  message callback, which answers with the frames it sends or raises (\<open>None\<close>).
\<close>

record ws_env =
  we_send_ok :: "nat \<Rightarrow> bool"
  we_clock :: "nat \<Rightarrow> time"
  we_handle_message :: "bytes list \<Rightarrow> bytes \<Rightarrow> bytes list option"
  we_sha1_b64 :: "bytes \<Rightarrow> string"
  we_frame_idle_timeout :: time
  we_idle_timeout :: time

datatype ws_metric = Incomplete_Timeout | Idle_Ping | Protocol_Violation | Message_Too_Big | Session_Error

text \<open>\<open>ws_attempts\<close>: what was given to \<open>sendall\<close>, in order, and whether it left. \<open>ws_ticks\<close> counts the clock
  readings so far. \<open>ws_messages\<close>: the payloads given to the callback.\<close>

record ws_state =
  ws_buffer :: bytes
  ws_incomplete_since :: "time option"
  ws_recv_timeout :: "time option"
  ws_close_sent :: bool
  ws_attempts :: "(bytes \<times> bool) list"
  ws_ticks :: nat
  ws_messages :: "bytes list"
  ws_metrics :: "ws_metric list"

definition ws_start :: ws_state where
  "ws_start = \<lparr>ws_buffer = [], ws_incomplete_since = None, ws_recv_timeout = None, ws_close_sent = False,
     ws_attempts = [], ws_ticks = 0, ws_messages = [], ws_metrics = []\<rparr>"

definition send_frame :: "ws_env \<Rightarrow> bytes \<Rightarrow> ws_state \<Rightarrow> ws_state \<times> bool" where
  "send_frame env frame s =
     (let ok = we_send_ok env (length (ws_attempts s))
      in (s\<lparr>ws_attempts := ws_attempts s @ [(frame, ok)]\<rparr>, ok))"

definition send_close :: "ws_env \<Rightarrow> nat \<Rightarrow> string \<Rightarrow> ws_state \<Rightarrow> ws_state" where
  "send_close env code reason s =
     (if ws_close_sent s then s
      else fst (send_frame env (build_ws_close_frame code reason) (s\<lparr>ws_close_sent := True\<rparr>)))"

definition set_recv_timeout :: "time \<Rightarrow> ws_state \<Rightarrow> ws_state" where
  "set_recv_timeout t s = (if ws_recv_timeout s \<noteq> Some t then s\<lparr>ws_recv_timeout := Some t\<rparr> else s)"

definition read_clock :: "ws_env \<Rightarrow> ws_state \<Rightarrow> ws_state \<times> time" where
  "read_clock env s = (s\<lparr>ws_ticks := ws_ticks s + 1\<rparr>, we_clock env (ws_ticks s))"

definition record_metric :: "ws_metric \<Rightarrow> ws_state \<Rightarrow> ws_state" where
  "record_metric m s = s\<lparr>ws_metrics := ws_metrics s @ [m]\<rparr>"

text \<open>The frames that a message callback sends itself.\<close>

fun send_replies :: "ws_env \<Rightarrow> bytes list \<Rightarrow> ws_state \<Rightarrow> ws_state" where
  "send_replies env [] s = s"
| "send_replies env (f # fs) s = send_replies env fs (fst (send_frame env f s))"

text \<open>\<open>Waiting\<close>: back to \<open>recv\<close>. \<open>Returned\<close>: the loop was left. \<open>Raised\<close>: the callback raised.\<close>

datatype ws_outcome = Waiting | Returned | Raised

text \<open>What the frame loop does with one parsed frame, after the buffer has been cut.\<close>

definition after_frame :: "ws_env \<Rightarrow> ws_state \<Rightarrow> ws_state" where
  "after_frame env s =
     (if ws_buffer s \<noteq> []
      then (let (s1, now) = read_clock env s
            in set_recv_timeout (we_frame_idle_timeout env) (s1\<lparr>ws_incomplete_since := Some now\<rparr>))
      else set_recv_timeout (we_idle_timeout env) (s\<lparr>ws_incomplete_since := None\<rparr>))"

definition handle_frame :: "ws_env \<Rightarrow> nat \<Rightarrow> bytes \<Rightarrow> ws_state \<Rightarrow> ws_state \<times> ws_outcome" where
  "handle_frame env opcode payload s =
     (if opcode = WS_CLOSE then (send_close env 1000 [] s, Returned)
      else if opcode = WS_PING then
        (case send_frame env (build_ws_frame payload WS_PONG True) s of
           (s1, True) \<Rightarrow> (s1, Waiting) | (s1, False) \<Rightarrow> (s1, Returned))
      else if opcode = WS_PONG then (s, Waiting)
      else if opcode = WS_BINARY then (send_close env 1003 ''Binary frames are not supported'' s, Returned)
      else if opcode = WS_TEXT then
        (case we_handle_message env (ws_messages s) payload of
           None \<Rightarrow> (s\<lparr>ws_messages := ws_messages s @ [payload]\<rparr>, Raised)
         | Some replies \<Rightarrow> (send_replies env replies (s\<lparr>ws_messages := ws_messages s @ [payload]\<rparr>), Waiting))
      else (s, Waiting))"

text \<open>The inner \<open>while True\<close>; \<open>Waiting\<close> is its \<open>break\<close>.\<close>

lemma send_frame_buffer [simp]: "ws_buffer (fst (send_frame env f s)) = ws_buffer s"
  by (simp add: send_frame_def Let_def)

lemma send_frame_buffer_eq: "send_frame env f s = (s', ok) \<Longrightarrow> ws_buffer s' = ws_buffer s"
  by (auto simp: send_frame_def Let_def)

lemma send_replies_buffer [simp]: "ws_buffer (send_replies env fs s) = ws_buffer s"
  by (induction fs arbitrary: s) simp_all

lemma handle_frame_buffer: "handle_frame env opcode payload s = (s', out) \<Longrightarrow> ws_buffer s' = ws_buffer s"
  by (auto simp: handle_frame_def send_close_def dest: send_frame_buffer_eq split: if_splits prod.splits bool.splits option.splits)

lemma after_frame_buffer [simp]: "ws_buffer (after_frame env s) = ws_buffer s"
  by (simp add: after_frame_def read_clock_def set_recv_timeout_def)

function (sequential) frame_loop :: "ws_env \<Rightarrow> ws_state \<Rightarrow> ws_state \<times> ws_outcome" where
  "frame_loop env s =
     (case parse_ws_frame True (ws_buffer s) of
        Inl Protocol_Error \<Rightarrow> (send_close env 1002 ''Protocol error'' (record_metric Protocol_Violation s), Returned)
      | Inl Too_Large \<Rightarrow> (send_close env 1009 ''Message too big'' (record_metric Message_Too_Big s), Returned)
      | Inr None \<Rightarrow>
          (if ws_buffer s \<noteq> [] \<and> ws_incomplete_since s = None
           then (let (s1, now) = read_clock env s
                 in (set_recv_timeout (we_frame_idle_timeout env) (s1\<lparr>ws_incomplete_since := Some now\<rparr>), Waiting))
           else (s, Waiting))
      | Inr (Some (opcode, payload, consumed)) \<Rightarrow>
          (case handle_frame env opcode payload (after_frame env (s\<lparr>ws_buffer := drop consumed (ws_buffer s)\<rparr>)) of
             (s2, Waiting) \<Rightarrow> frame_loop env s2
           | (s2, out) \<Rightarrow> (s2, out)))"
  by pat_completeness auto
termination
proof (relation "measure (\<lambda>(env, s). length (ws_buffer s))")
  fix env s r opcode payload consumed s2 out and z :: "nat \<times> bytes \<times> nat" and y :: "bytes \<times> nat"
  assume p: "parse_ws_frame True (ws_buffer s) = Inr r" "r = Some z" "(opcode, y) = z" "(payload, consumed) = y"
    and h: "(s2, out) = handle_frame env opcode payload (after_frame env (s\<lparr>ws_buffer := drop consumed (ws_buffer s)\<rparr>))"
  have "parse_ws_frame True (ws_buffer s) = Inr (Some (opcode, payload, consumed))" using p by auto
  from parse_consumed[OF this] handle_frame_buffer[OF h[symmetric]]
  show "((env, s2), (env, s)) \<in> measure (\<lambda>(env, s). length (ws_buffer s))" by auto
qed auto

declare frame_loop.simps [simp del]

subsection \<open>The receive loop\<close>

text \<open>What one turn of the outer loop meets: the server has stopped, the peer closed, a chunk, a
  receive timeout, or any other exception of the socket.\<close>

datatype ws_event = Stopped | Eof | Chunk bytes | Recv_Timeout | Recv_Error

definition on_timeout :: "ws_env \<Rightarrow> ws_state \<Rightarrow> ws_state \<times> ws_outcome" where
  "on_timeout env s =
     (let (s1, late) =
        (case (ws_buffer s, ws_incomplete_since s) of
           (_ # _, Some since) \<Rightarrow>
             (let (s1, now) = read_clock env s in (s1, we_frame_idle_timeout env \<le> now - since))
         | _ \<Rightarrow> (s, False))
      in if late then (send_close env 1002 ''Incomplete frame timeout'' (record_metric Incomplete_Timeout s1), Returned)
         else if ws_buffer s1 \<noteq> [] then (s1, Waiting)
         else (case send_frame env (build_ws_frame [] WS_PING True) (record_metric Idle_Ping s1) of
                 (s2, True) \<Rightarrow> (s2, Waiting) | (s2, False) \<Rightarrow> (s2, Returned)))"

fun ws_turn :: "ws_env \<Rightarrow> ws_state \<Rightarrow> ws_event \<Rightarrow> ws_state \<times> ws_outcome" where
  "ws_turn env s Stopped = (s, Returned)"
| "ws_turn env s Eof = (s, Returned)"
| "ws_turn env s Recv_Error = (s, Raised)"
| "ws_turn env s Recv_Timeout = on_timeout env s"
| "ws_turn env s (Chunk bs) =
     (if bs = [] then (s, Returned) else frame_loop env (s\<lparr>ws_buffer := ws_buffer s @ bs\<rparr>))"

text \<open>The outer loop and the \<open>except\<close>/\<open>finally\<close> clauses around it. A list of events that runs out leaves
  the thread in \<open>recv\<close>: the result says so.\<close>

fun ws_loop :: "ws_env \<Rightarrow> ws_event list \<Rightarrow> ws_state \<Rightarrow> ws_state \<times> ws_outcome" where
  "ws_loop env [] s = (s, Waiting)"
| "ws_loop env (e # es) s =
     (case ws_turn env s e of
        (s1, Waiting) \<Rightarrow> ws_loop env es s1
      | (s1, out) \<Rightarrow> (s1, out))"

definition ws_finish :: "ws_env \<Rightarrow> ws_state \<times> ws_outcome \<Rightarrow> ws_state \<times> bool" where
  "ws_finish env r =
     (case r of
        (s, Waiting) \<Rightarrow> (s, False)
      | (s, Returned) \<Rightarrow> (send_close env 1000 [] s, True)
      | (s, Raised) \<Rightarrow> (send_close env 1000 [] (send_close env 1011 ''Internal error'' (record_metric Session_Error s)), True))"

definition handle_session :: "ws_env \<Rightarrow> string \<Rightarrow> ws_event list \<Rightarrow> ws_state \<times> bool" where
  "handle_session env ws_key es =
     (case send_frame env (build_ws_handshake_response (we_sha1_b64 env) ws_key) ws_start of
        (s, False) \<Rightarrow> (s, True)
      | (s, True) \<Rightarrow> ws_finish env (ws_loop env es (set_recv_timeout (we_idle_timeout env) s)))"

subsection \<open>Chunking does not matter\<close>

text \<open>What a session has done, without its buffer and its timers.\<close>

definition deeds :: "ws_state \<Rightarrow> ws_state" where
  "deeds s = s\<lparr>ws_buffer := [], ws_incomplete_since := None, ws_recv_timeout := None, ws_ticks := 0\<rparr>"

lemma deeds_frame [simp]:
  "deeds (s\<lparr>ws_buffer := b\<rparr>) = deeds s" "deeds (after_frame env s) = deeds s"
  "deeds (s\<lparr>ws_incomplete_since := i\<rparr>) = deeds s" "deeds (set_recv_timeout t s) = deeds s"
  "deeds (fst (read_clock env s)) = deeds s" "deeds (s\<lparr>ws_ticks := n\<rparr>) = deeds s"
  by (simp_all add: deeds_def after_frame_def set_recv_timeout_def read_clock_def)

lemma deeds_simps:
  "ws_attempts (deeds s) = ws_attempts s" "ws_close_sent (deeds s) = ws_close_sent s"
  "ws_messages (deeds s) = ws_messages s" "ws_metrics (deeds s) = ws_metrics s"
  by (simp_all add: deeds_def)

lemma deeds_send: "map_prod deeds id (send_frame env f s) = send_frame env f (deeds s)"
  by (simp add: send_frame_def Let_def deeds_def)

lemma deeds_send_fst: "deeds (fst (send_frame env f s)) = fst (send_frame env f (deeds s))"
  by (simp add: send_frame_def Let_def deeds_def)

lemma deeds_send_replies: "deeds (send_replies env fs s) = send_replies env fs (deeds s)"
  by (induction fs arbitrary: s) (simp_all add: deeds_send_fst)

lemma deeds_send_close: "deeds (send_close env code reason s) = send_close env code reason (deeds s)"
  by (simp add: send_close_def send_frame_def Let_def deeds_def)

lemma deeds_record: "deeds (record_metric m s) = record_metric m (deeds s)"
  by (simp add: record_metric_def deeds_def)

lemma deeds_handle_frame: "map_prod deeds id (handle_frame env opcode payload s) = handle_frame env opcode payload (deeds s)"
proof -
  have m: "deeds (s\<lparr>ws_messages := ms\<rparr>) = deeds s\<lparr>ws_messages := ms\<rparr>" for ms by (simp add: deeds_def)
  have p: "handle_frame env WS_PING payload t =
      (fst (send_frame env (build_ws_frame payload WS_PONG True) t),
       if snd (send_frame env (build_ws_frame payload WS_PONG True) t) then Waiting else Returned)" for t
    by (auto simp: handle_frame_def ws_opcodes split: prod.splits bool.splits)
  have snd: "snd (send_frame env f (deeds s)) = snd (send_frame env f s)" for f
    by (simp add: send_frame_def Let_def deeds_def)
  show ?thesis
  proof (cases "opcode = WS_PING")
    case True
    then show ?thesis by (simp add: p deeds_send_fst snd)
  next
    case False
    then show ?thesis
      by (auto simp: handle_frame_def deeds_send_close deeds_send_replies m deeds_simps split: option.splits)
  qed
qed

text \<open>The frame loop as a function of the deeds and the bytes alone.\<close>

function stream_core :: "ws_env \<Rightarrow> ws_state \<Rightarrow> bytes \<Rightarrow> ws_state \<times> ws_outcome \<times> bytes" where
  "stream_core env d buf =
     (case parse_ws_frame True buf of
        Inl Protocol_Error \<Rightarrow> (send_close env 1002 ''Protocol error'' (record_metric Protocol_Violation d), Returned, [])
      | Inl Too_Large \<Rightarrow> (send_close env 1009 ''Message too big'' (record_metric Message_Too_Big d), Returned, [])
      | Inr None \<Rightarrow> (d, Waiting, buf)
      | Inr (Some (opcode, payload, n)) \<Rightarrow>
          (case handle_frame env opcode payload d of
             (d', Waiting) \<Rightarrow> stream_core env d' (drop n buf)
           | (d', out) \<Rightarrow> (d', out, [])))"
  by pat_completeness auto
termination
proof (relation "measure (\<lambda>(env, d, buf). length buf)")
  fix env d buf r opcode payload n d' out and z :: "nat \<times> bytes \<times> nat" and y :: "bytes \<times> nat"
  assume p: "parse_ws_frame True buf = Inr r" "r = Some z" "(opcode, y) = z" "(payload, n) = y"
  have "parse_ws_frame True buf = Inr (Some (opcode, payload, n))" using p by auto
  from parse_consumed[OF this] show "((env, d', drop n buf), (env, d, buf)) \<in> measure (\<lambda>(env, d, buf). length buf)"
    by auto
qed auto

declare stream_core.simps [simp del]

definition loop_result :: "ws_state \<times> ws_outcome \<Rightarrow> ws_state \<times> ws_outcome \<times> bytes" where
  "loop_result r = (deeds (fst r), snd r, if snd r = Waiting then ws_buffer (fst r) else [])"

lemma handle_frame_deeds_eq:
  "handle_frame env opcode payload s = (s1, out) \<Longrightarrow> handle_frame env opcode payload (deeds s) = (deeds s1, out)"
  using deeds_handle_frame[of env opcode payload s] by simp

lemma deeds_wait [simp]: "deeds (set_recv_timeout t (s\<lparr>ws_ticks := n, ws_incomplete_since := i\<rparr>)) = deeds s"
  "ws_buffer (set_recv_timeout t s) = ws_buffer s"
  by (simp_all add: deeds_def set_recv_timeout_def)

lemma frame_loop_core: "loop_result (frame_loop env s) = stream_core env (deeds s) (ws_buffer s)"
proof (induction env s rule: frame_loop.induct)
  case (1 env s)
  show ?case
  proof (cases "parse_ws_frame True (ws_buffer s)")
    case (Inl e)
    then show ?thesis
      by (cases e) (simp_all add: frame_loop.simps[of env s] stream_core.simps[of env "deeds s"] loop_result_def
          deeds_send_close deeds_record)
  next
    case (Inr r)
    show ?thesis
    proof (cases r)
      case None
      then show ?thesis using Inr
        by (simp add: frame_loop.simps[of env s] stream_core.simps[of env "deeds s"] loop_result_def read_clock_def)
    next
      case (Some z)
      obtain opcode payload n where z: "z = (opcode, payload, n)" by (cases z)
      let ?t = "after_frame env (s\<lparr>ws_buffer := drop n (ws_buffer s)\<rparr>)"
      obtain s1 out where h: "handle_frame env opcode payload ?t = (s1, out)" by fastforce
      have b: "ws_buffer s1 = drop n (ws_buffer s)" using handle_frame_buffer[OF h] by simp
      have d: "handle_frame env opcode payload (deeds s) = (deeds s1, out)" using handle_frame_deeds_eq[OF h] by simp
      have ih: "out = Waiting \<Longrightarrow> loop_result (frame_loop env s1) = stream_core env (deeds s1) (ws_buffer s1)"
        using "1.IH"[OF Inr Some z[symmetric] refl h[symmetric]] z by simp
      show ?thesis using Inr Some z h d b ih
        by (cases out) (simp_all add: frame_loop.simps[of env s] stream_core.simps[of env "deeds s"] loop_result_def)
    qed
  qed
qed

lemma stream_core_append:
  "stream_core env d (buf @ bs) =
     (case stream_core env d buf of (d1, Waiting, rest) \<Rightarrow> stream_core env d1 (rest @ bs) | r \<Rightarrow> r)"
proof (induction env d buf rule: stream_core.induct)
  case (1 env d buf)
  show ?case
  proof (cases "parse_ws_frame True buf = Inr None")
    case True
    then show ?thesis by (simp add: stream_core.simps[of env d buf])
  next
    case False
    have p: "parse_ws_frame True (buf @ bs) = parse_ws_frame True buf" by (rule parse_append[OF refl False])
    show ?thesis
    proof (cases "parse_ws_frame True buf")
      case (Inl e)
      then show ?thesis using p by (cases e) (simp_all add: stream_core.simps[of env d])
    next
      case (Inr r)
      then obtain opcode payload n where r: "r = Some (opcode, payload, n)" using False by (cases r) auto
      have n: "n \<le> length buf" using parse_consumed Inr r by blast
      obtain d' out where h: "handle_frame env opcode payload d = (d', out)" by fastforce
      have ih: "out = Waiting \<Longrightarrow> stream_core env d' (drop n buf @ bs) =
          (case stream_core env d' (drop n buf) of (d1, Waiting, rest) \<Rightarrow> stream_core env d1 (rest @ bs) | r \<Rightarrow> r)"
        using "1.IH"[OF Inr r refl refl h[symmetric]] by simp
      show ?thesis using p Inr r h ih n
        by (cases out) (simp_all add: stream_core.simps[of env d] split: prod.splits)
    qed
  qed
qed

lemma stream_core_stops:
  "stream_core env d buf = (d1, Waiting, rest) \<Longrightarrow> parse_ws_frame True rest = Inr None"
proof (induction env d buf rule: stream_core.induct)
  case (1 env d buf)
  show ?case
  proof (cases "parse_ws_frame True buf")
    case (Inl e)
    then show ?thesis using "1.prems" by (cases e) (simp_all add: stream_core.simps[of env d])
  next
    case (Inr r)
    show ?thesis
    proof (cases r)
      case None
      then show ?thesis using "1.prems" Inr by (simp add: stream_core.simps[of env d])
    next
      case (Some z)
      obtain opcode payload n where z: "z = (opcode, payload, n)" by (cases z)
      obtain d' out where h: "handle_frame env opcode payload d = (d', out)" by fastforce
      show ?thesis using "1.prems" "1.IH"[OF Inr Some z[symmetric] refl h[symmetric]] Inr Some z h
        by (cases out) (simp_all add: stream_core.simps[of env d])
    qed
  qed
qed

lemma ws_loop_chunks:
  "\<forall>c \<in> set cs. c \<noteq> [] \<Longrightarrow> parse_ws_frame True (ws_buffer s) = Inr None \<Longrightarrow>
     loop_result (ws_loop env (map Chunk cs) s) = stream_core env (deeds s) (ws_buffer s @ concat cs)"
proof (induction cs arbitrary: s)
  case Nil
  then show ?case by (simp add: loop_result_def stream_core.simps[of env "deeds s"])
next
  case (Cons c cs)
  let ?s = "s\<lparr>ws_buffer := ws_buffer s @ c\<rparr>"
  obtain s1 out where l: "frame_loop env ?s = (s1, out)" by fastforce
  have core: "stream_core env (deeds s) (ws_buffer s @ c) = (deeds s1, out, if out = Waiting then ws_buffer s1 else [])"
    using frame_loop_core[of env ?s, symmetric] l by (simp add: loop_result_def)
  have c: "c \<noteq> []" using Cons.prems by simp
  have app: "stream_core env (deeds s) (ws_buffer s @ concat (c # cs)) =
      (if out = Waiting then stream_core env (deeds s1) (ws_buffer s1 @ concat cs) else (deeds s1, out, []))"
    using stream_core_append[of env "deeds s" "ws_buffer s @ c" "concat cs"] core by (cases out) simp_all
  show ?case
  proof (cases "out = Waiting")
    case True
    have stop: "parse_ws_frame True (ws_buffer s1) = Inr None"
      using stream_core_stops core True by fastforce
    have "loop_result (ws_loop env (map Chunk (c # cs)) s) = loop_result (ws_loop env (map Chunk cs) s1)"
      using l True c by simp
    then show ?thesis unfolding app using Cons.IH[of s1] Cons.prems(1) stop True by simp
  next
    case False
    then show ?thesis using l c app by (cases out) (simp_all add: loop_result_def)
  qed
qed

subsection \<open>The close frame\<close>

text \<open>The frames that a session may send between the handshake response and its close frame.\<close>

definition inner_frame :: "ws_env \<Rightarrow> bytes \<Rightarrow> bool" where
  "inner_frame env f \<longleftrightarrow> f = build_ws_frame [] WS_PING True \<or> (\<exists>p. f = build_ws_frame p WS_PONG True) \<or>
     (\<exists>ms m rs. we_handle_message env ms m = Some rs \<and> f \<in> set rs)"

definition is_close_frame :: "bytes \<Rightarrow> bool" where
  "is_close_frame f \<longleftrightarrow> (\<exists>code reason. f = build_ws_close_frame code reason)"

text \<open>The attempts after the handshake: inner frames, then at most one close frame, once it is marked sent.\<close>

definition tidy :: "ws_env \<Rightarrow> bytes \<Rightarrow> ws_state \<Rightarrow> bool" where
  "tidy env h s \<longleftrightarrow> (\<exists>inner close. map fst (ws_attempts s) = h # inner @ close \<and> (\<forall>f \<in> set inner. inner_frame env f) \<and>
     (if ws_close_sent s then \<exists>f. close = [f] \<and> is_close_frame f else close = []))"

definition open_tidy :: "ws_env \<Rightarrow> bytes \<Rightarrow> ws_state \<Rightarrow> bool" where
  "open_tidy env h s \<longleftrightarrow> tidy env h s \<and> \<not> ws_close_sent s"

lemma tidy_cong: "ws_attempts s = ws_attempts t \<Longrightarrow> ws_close_sent s = ws_close_sent t \<Longrightarrow> tidy env h s = tidy env h t"
  by (simp add: tidy_def)

lemma tidy_frame [simp]:
  "tidy env h (s\<lparr>ws_buffer := b\<rparr>) = tidy env h s" "tidy env h (s\<lparr>ws_incomplete_since := i\<rparr>) = tidy env h s"
  "tidy env h (s\<lparr>ws_messages := m\<rparr>) = tidy env h s" "tidy env h (record_metric x s) = tidy env h s"
  "tidy env h (set_recv_timeout t s) = tidy env h s" "tidy env h (after_frame env s) = tidy env h s"
  "tidy env h (s\<lparr>ws_ticks := n\<rparr>) = tidy env h s"
  by (auto intro!: tidy_cong simp: record_metric_def set_recv_timeout_def after_frame_def read_clock_def)

lemma close_sent_frame [simp]:
  "ws_close_sent (record_metric x s) = ws_close_sent s" "ws_close_sent (set_recv_timeout t s) = ws_close_sent s"
  "ws_close_sent (after_frame env s) = ws_close_sent s" "ws_close_sent (fst (send_frame env f s)) = ws_close_sent s"
  by (simp_all add: record_metric_def set_recv_timeout_def after_frame_def read_clock_def send_frame_def Let_def)

lemma open_tidy_frame [simp]:
  "open_tidy env h (s\<lparr>ws_buffer := b\<rparr>) = open_tidy env h s" "open_tidy env h (s\<lparr>ws_incomplete_since := i\<rparr>) = open_tidy env h s"
  "open_tidy env h (s\<lparr>ws_messages := m\<rparr>) = open_tidy env h s" "open_tidy env h (record_metric x s) = open_tidy env h s"
  "open_tidy env h (set_recv_timeout t s) = open_tidy env h s" "open_tidy env h (after_frame env s) = open_tidy env h s"
  "open_tidy env h (s\<lparr>ws_ticks := n\<rparr>) = open_tidy env h s"
  by (simp_all add: open_tidy_def)

lemma open_tidy_send: "open_tidy env h s \<Longrightarrow> inner_frame env f \<Longrightarrow> open_tidy env h (fst (send_frame env f s))"
  by (force simp: open_tidy_def tidy_def send_frame_def Let_def)

lemma open_tidy_replies: "open_tidy env h s \<Longrightarrow> (\<And>f. f \<in> set fs \<Longrightarrow> inner_frame env f) \<Longrightarrow> open_tidy env h (send_replies env fs s)"
  by (induction fs arbitrary: s) (simp_all add: open_tidy_send)

lemma send_close_tidy: "tidy env h s \<Longrightarrow> tidy env h (send_close env code reason s) \<and> ws_close_sent (send_close env code reason s)"
proof (cases "ws_close_sent s")
  case False
  assume "tidy env h s"
  then obtain inner where "map fst (ws_attempts s) = h # inner @ []" "\<forall>f \<in> set inner. inner_frame env f"
    using False unfolding tidy_def by auto
  then show ?thesis using False unfolding tidy_def send_close_def
    by (intro conjI exI[of _ inner] exI[of _ "[build_ws_close_frame code reason]"])
      (auto simp: send_frame_def Let_def is_close_frame_def)
qed (simp add: send_close_def)

lemma open_tidyD: "open_tidy env h s \<Longrightarrow> tidy env h s" by (simp add: open_tidy_def)

lemma handle_frame_tidy:
  assumes "open_tidy env h s" "handle_frame env opcode payload s = (s', out)"
  shows "tidy env h s' \<and> (out = Waiting \<longrightarrow> open_tidy env h s')"
proof -
  have pong: "open_tidy env h (fst (send_frame env (build_ws_frame payload WS_PONG True) s))"
    using assms(1) by (intro open_tidy_send) (auto simp: inner_frame_def)
  have reply: "open_tidy env h (send_replies env rs (s\<lparr>ws_messages := ms\<rparr>))"
    if "we_handle_message env (ws_messages s) payload = Some rs" for rs ms
    using assms(1) that by (intro open_tidy_replies) (auto simp: inner_frame_def)
  show ?thesis
    using assms pong reply send_close_tidy[OF open_tidyD[OF assms(1)]]
    by (auto simp: handle_frame_def open_tidyD split: if_splits prod.splits bool.splits option.splits)
qed

lemma frame_loop_tidy:
  "open_tidy env h s \<Longrightarrow> frame_loop env s = (s', out) \<Longrightarrow> tidy env h s' \<and> (out = Waiting \<longrightarrow> open_tidy env h s')"
proof (induction env s rule: frame_loop.induct)
  case (1 env s)
  show ?case
  proof (cases "parse_ws_frame True (ws_buffer s)")
    case (Inl e)
    then show ?thesis using "1.prems" send_close_tidy[of env h "record_metric _ s"]
      by (cases e) (auto simp: frame_loop.simps[of env s] open_tidyD)
  next
    case (Inr r)
    show ?thesis
    proof (cases r)
      case None
      then show ?thesis using "1.prems" Inr
        by (auto simp: frame_loop.simps[of env s] read_clock_def open_tidyD split: if_splits)
    next
      case (Some z)
      obtain opcode payload n where z: "z = (opcode, payload, n)" by (cases z)
      obtain s1 out1 where h: "handle_frame env opcode payload (after_frame env (s\<lparr>ws_buffer := drop n (ws_buffer s)\<rparr>)) = (s1, out1)"
        by fastforce
      have t: "tidy env h s1 \<and> (out1 = Waiting \<longrightarrow> open_tidy env h s1)" using "1.prems" by (intro handle_frame_tidy[OF _ h]) simp
      show ?thesis using "1.prems" "1.IH"[OF Inr Some z[symmetric] refl h[symmetric]] Inr Some z h t
        by (cases out1) (auto simp: frame_loop.simps[of env s])
    qed
  qed
qed

lemma ws_turn_tidy:
  assumes "open_tidy env h s" "ws_turn env s e = (s', out)"
  shows "tidy env h s' \<and> (out = Waiting \<longrightarrow> open_tidy env h s')"
proof (cases e)
  case Recv_Timeout
  define s1 where "s1 = (if ws_buffer s \<noteq> [] \<and> ws_incomplete_since s \<noteq> None then s\<lparr>ws_ticks := ws_ticks s + 1\<rparr> else s)"
  have o1: "open_tidy env h s1" using assms(1) by (simp add: s1_def)
  have ping: "open_tidy env h (fst (send_frame env (build_ws_frame [] WS_PING True) (record_metric Idle_Ping s1)))"
    using o1 by (intro open_tidy_send) (auto simp: inner_frame_def)
  show ?thesis
    using assms o1 ping Recv_Timeout send_close_tidy[of env h "record_metric Incomplete_Timeout s1"]
    by (auto simp: on_timeout_def s1_def read_clock_def Let_def open_tidyD split: list.splits option.splits prod.splits if_splits bool.splits)
next
  case (Chunk bs)
  then show ?thesis using assms frame_loop_tidy[of env h "s\<lparr>ws_buffer := ws_buffer s @ bs\<rparr>"]
    by (auto simp: open_tidyD split: if_splits)
qed (use assms in \<open>auto simp: open_tidyD\<close>)

lemma ws_loop_tidy:
  "open_tidy env h s \<Longrightarrow> ws_loop env es s = (s', out) \<Longrightarrow> tidy env h s' \<and> (out = Waiting \<longrightarrow> open_tidy env h s')"
proof (induction es arbitrary: s)
  case (Cons e es)
  obtain s1 out1 where t: "ws_turn env s e = (s1, out1)" by fastforce
  from ws_turn_tidy[OF Cons.prems(1) t] Cons t show ?case by (cases out1) auto
qed (simp add: open_tidyD)

subsection \<open>Properties\<close>

text \<open>C11. What a client achieves does not depend on how its bytes are cut into TCP segments: two deliveries of the
  same bytes in any nonempty chunks, from the start of a session, lead to the same messages given to the
  callback, the same frames sent (pongs, close frames with their codes), the same metrics, the same
  outcome of the loop, and when the session goes on, the same bytes left in the buffer.\<close>

theorem chunking_irrelevant:
  assumes "concat cs = concat ds" and "[] \<notin> set cs" and "[] \<notin> set ds" and "ws_buffer s = []"
  shows "loop_result (ws_loop env (map Chunk cs) s) = loop_result (ws_loop env (map Chunk ds) s)"
proof -
  have "parse_ws_frame True (ws_buffer s) = Inr None" using assms(4) by (simp add: parse_ws_frame_def)
  then show ?thesis using ws_loop_chunks[of cs s env] ws_loop_chunks[of ds s env] assms(1-3)
    by (metis (no_types))
qed

definition quiet_env :: ws_env where
  "quiet_env = \<lparr>we_send_ok = (\<lambda>_. True), we_clock = real, we_handle_message = (\<lambda>_ m. Some [build_ws_frame m WS_TEXT True]),
     we_sha1_b64 = (\<lambda>_. ''x''), we_frame_idle_timeout = 5, we_idle_timeout = 60\<rparr>"

lemma chunking_irrelevant_witness:
  "loop_result (ws_loop quiet_env (map Chunk [[0x81], [0x81, 1, 2], [3, 4, 0x60]]) ws_start) =
   loop_result (ws_loop quiet_env (map Chunk [[0x81, 0x81, 1, 2, 3, 4, 0x60]]) ws_start)"
  by (rule chunking_irrelevant) (simp_all add: ws_start_def)

text \<open>A session closes once and last: whatever the peer, the clock and the sockets do, when
  \<open>handle_session\<close> ends after a handshake that left, it has attempted exactly one close frame, after it
  nothing more, and between the handshake response and it only pings, pongs and frames of the message callback.\<close>

theorem close_frame_once_and_last:
  assumes "handle_session env ws_key es = (s, True)" and "we_send_ok env 0"
  shows "\<exists>inner f. map fst (ws_attempts s) =
      build_ws_handshake_response (we_sha1_b64 env) ws_key # inner @ [f] \<and> is_close_frame f \<and> list_all (inner_frame env) inner"
proof -
  let ?hs = "build_ws_handshake_response (we_sha1_b64 env) ws_key"
  define s0 where "s0 = set_recv_timeout (we_idle_timeout env) (fst (send_frame env ?hs ws_start))"
  have a0: "ws_attempts s0 = [(?hs, True)]" "\<not> ws_close_sent s0"
    using assms(2) by (auto simp: s0_def set_recv_timeout_def send_frame_def ws_start_def Let_def)
  have "open_tidy env ?hs s0" unfolding open_tidy_def tidy_def using a0
    by (auto intro!: exI[of _ "[]"])
  obtain s1 out where l: "ws_loop env es s0 = (s1, out)" by fastforce
  have t1: "tidy env ?hs s1" using ws_loop_tidy[OF \<open>open_tidy env ?hs s0\<close> l] by simp
  have f: "ws_finish env (s1, out) = (s, True)"
    using assms l unfolding s0_def by (simp add: handle_session_def send_frame_def ws_start_def Let_def)
  have "tidy env ?hs s \<and> ws_close_sent s"
    using f t1 send_close_tidy[of env ?hs "record_metric Session_Error s1"] send_close_tidy[OF t1]
      send_close_tidy[of env ?hs "send_close env 1011 ''Internal error'' (record_metric Session_Error s1)"]
    by (cases out) (auto simp: ws_finish_def)
  then show ?thesis unfolding tidy_def by (auto simp: list_all_iff)
qed

lemma close_frame_once_and_last_witness:
  "\<exists>s inner f. handle_session quiet_env ''key'' [Recv_Timeout, Eof] = (s, True) \<and>
     map fst (ws_attempts s) = build_ws_handshake_response (we_sha1_b64 quiet_env) ''key'' # inner @ [f] \<and>
     is_close_frame f \<and> list_all (inner_frame quiet_env) inner"
proof -
  obtain s b where h: "handle_session quiet_env ''key'' [Recv_Timeout, Eof] = (s, b)"
    by fastforce
  have "snd (handle_session quiet_env ''key'' [Recv_Timeout, Eof])"
    by (simp add: handle_session_def send_frame_def ws_start_def set_recv_timeout_def on_timeout_def record_metric_def
        quiet_env_def ws_finish_def Let_def)
  then have "b" using h by simp
  then show ?thesis using close_frame_once_and_last[of quiet_env "''key''"] h by (auto simp: quiet_env_def)
qed

end
