(* ===== verification/Http_Io.thy ===== *)
theory Http_Io
  imports Capacity Py_Text
begin

section \<open>Receiving one HTTP request\<close>

text \<open>
  \<open>receive_request_result\<close> of \<^verbatim>\<open>xferry/http/io.py\<close>: one request is read from a socket under header and body
  limits, deadlines and the body-memory budget. \<open>inp\<close> is everything the peer sends before it closes;
  a run is the list of what the calls of \<open>recv\<close> meet, with the clock readings the loop takes:
  \<open>Arrive n t\<close> hands over at most \<open>n\<close> (and at least one) of the bytes not read yet, or none at the end of
  \<open>inp\<close>, which is how a socket reports that the peer has closed. Decoding of the header bytes is the
  parameter \<open>rc_decode\<close> of the configuration, with \<open>body_limit_resolver\<close> and \<open>admit_headers\<close>.
\<close>

definition HEADER_TIMEOUT :: time where "HEADER_TIMEOUT = 30"
definition DEFAULT_IDLE_TIMEOUT :: time where "DEFAULT_IDLE_TIMEOUT = 5"
definition DEFAULT_BODY_MIN_RATE_GRACE :: time where "DEFAULT_BODY_MIN_RATE_GRACE = 1 / 4"
definition RECV_CHUNK :: nat where "RECV_CHUNK = 65536"
definition HEADER_TERMINATOR :: bytes where "HEADER_TERMINATOR = [13, 10, 13, 10]"

datatype reject_reason = Header_Too_Large | Body_Too_Large | Header_Timeout | Body_Timeout | Body_Idle_Timeout
  | Body_Rate_Too_Slow | Body_Incomplete | Unsupported_Transfer_Encoding | Invalid_Content_Length
  | Body_Memory_Budget_Exceeded | Request_Admission_Rejected

subsection \<open>Header scanning\<close>

text \<open>\<open>headers_part.split("\r\n")\<close>\<close>

fun split_crlf :: "string \<Rightarrow> string list" where
  "split_crlf [] = [[]]"
| "split_crlf [c] = [[c]]"
| "split_crlf (c # d # cs) =
     (if c = CHR 0x0D \<and> d = CHR 0x0A then [] # split_crlf cs
      else (case split_crlf (d # cs) of [] \<Rightarrow> [[c]] | p # ps \<Rightarrow> (c # p) # ps))"

text \<open>The values of the \<open>Content-Length\<close> lines in order; \<open>None\<close> when one is not a number.\<close>

fun content_lengths :: "string list \<Rightarrow> int list option" where
  "content_lengths [] = Some []"
| "content_lengths (line # rest) =
     (if prefix ''content-length:'' (py_lower line)
      then (case py_int (py_strip (tl (dropWhile (\<lambda>c. c \<noteq> CHR '':'') line))) of
              None \<Rightarrow> None | Some v \<Rightarrow> map_option ((#) v) (content_lengths rest))
      else content_lengths rest)"

definition parse_content_length :: "string \<Rightarrow> int option" where
  "parse_content_length headers_part =
     (case content_lengths (split_crlf headers_part) of
        None \<Rightarrow> None
      | Some [] \<Rightarrow> Some 0
      | Some (v # vs) \<Rightarrow> if set vs \<subseteq> {v} \<and> 0 \<le> v then Some v else None)"

definition has_transfer_encoding :: "string \<Rightarrow> bool" where
  "has_transfer_encoding headers_part =
     list_ex (\<lambda>line. prefix ''transfer-encoding:'' (py_lower line)) (split_crlf headers_part)"

subsection \<open>Configuration and state\<close>

record recv_config =
  rc_max_upload_size :: int
  rc_max_header_size :: int
  rc_idle_timeout :: "time option"
  rc_body_idle_timeout :: "time option"
  rc_body_timeout :: "time option"
  rc_body_min_rate :: real
  rc_decode :: "bytes \<Rightarrow> string"
  rc_body_limit_resolver :: "(string \<Rightarrow> int option) option"
  rc_admit_headers :: "(bytes \<Rightarrow> bool) option"

definition recv_config_ok :: "recv_config \<Rightarrow> bool" where
  "recv_config_ok cfg \<longleftrightarrow> \<not> (rc_max_upload_size cfg \<le> 0 \<or> rc_max_header_size cfg \<le> 0 \<or>
     (case rc_body_idle_timeout cfg of None \<Rightarrow> False | Some t \<Rightarrow> t \<le> 0) \<or>
     (case rc_body_timeout cfg of None \<Rightarrow> False | Some t \<Rightarrow> t \<le> 0) \<or> rc_body_min_rate cfg < 0)"

record recv_state =
  rs_data :: bytes
  rs_start_time :: time
  rs_body_start_time :: "time option"
  rs_headers_received :: bool
  rs_content_length :: int
  rs_effective_body_limit :: int
  rs_header_end_pos :: nat
  rs_first_recv :: bool
  rs_reservation :: "int option"
  rs_timeout_reason :: "reject_reason option"
  rs_sock_timeout :: "time option"
  rs_budget :: "budget option"

definition recv_init :: "recv_config \<Rightarrow> budget option \<Rightarrow> time \<Rightarrow> recv_state" where
  "recv_init cfg b now = \<lparr>rs_data = [], rs_start_time = now, rs_body_start_time = None, rs_headers_received = False,
     rs_content_length = 0, rs_effective_body_limit = rc_max_upload_size cfg, rs_header_end_pos = 0,
     rs_first_recv = True, rs_reservation = None, rs_timeout_reason = None,
     rs_sock_timeout = Some (case rc_idle_timeout cfg of None \<Rightarrow> DEFAULT_IDLE_TIMEOUT | Some t \<Rightarrow> t), rs_budget = b\<rparr>"

datatype recv_result = Received bytes "int option" | Rejected reject_reason | Recv_Failed py_error

text \<open>\<open>total_size - header_end_pos - len(HEADER_TERMINATOR)\<close>\<close>

definition body_received :: "recv_state \<Rightarrow> int" where
  "body_received s = int (length (rs_data s)) - int (rs_header_end_pos s) - 4"

definition body_received_bytes :: "recv_state \<Rightarrow> int" where
  "body_received_bytes s = (if \<not> rs_headers_received s then 0 else max 0 (body_received s))"

definition body_rate_deadline :: "recv_config \<Rightarrow> recv_state \<Rightarrow> time option" where
  "body_rate_deadline cfg s =
     (case rs_body_start_time s of
        None \<Rightarrow> None
      | Some t \<Rightarrow> if rs_content_length s \<le> 0 \<or> rc_body_min_rate cfg \<le> 0 then None
                  else Some (t + max DEFAULT_BODY_MIN_RATE_GRACE (of_int (rs_content_length s) / rc_body_min_rate cfg)))"

definition expired_body_deadline :: "recv_config \<Rightarrow> time \<Rightarrow> recv_state \<Rightarrow> reject_reason option" where
  "expired_body_deadline cfg now s =
     (case rs_body_start_time s of
        None \<Rightarrow> None
      | Some t \<Rightarrow>
          if rs_content_length s \<le> 0 \<or> rs_content_length s \<le> body_received_bytes s then None
          else if (case rc_body_timeout cfg of None \<Rightarrow> False | Some b \<Rightarrow> b \<le> now - t) then Some Body_Timeout
          else (case body_rate_deadline cfg s of
                  None \<Rightarrow> None | Some d \<Rightarrow> if d \<le> now then Some Body_Rate_Too_Slow else None))"

text \<open>\<open>min(timeouts, key=...)\<close>: the first of the smallest.\<close>

fun first_min :: "(time \<times> reject_reason) list \<Rightarrow> (time \<times> reject_reason) option" where
  "first_min [] = None"
| "first_min (x # xs) = (case first_min xs of None \<Rightarrow> Some x | Some y \<Rightarrow> if fst y < fst x then Some y else Some x)"

definition body_recv_timeout :: "recv_config \<Rightarrow> time \<Rightarrow> recv_state \<Rightarrow> (time \<times> reject_reason) option" where
  "body_recv_timeout cfg now s = first_min
     ((case rc_body_idle_timeout cfg of None \<Rightarrow> [] | Some t \<Rightarrow> [(t, Body_Idle_Timeout)]) @
      (case rs_body_start_time s of
         None \<Rightarrow> []
       | Some t \<Rightarrow>
           (case rc_body_timeout cfg of None \<Rightarrow> [] | Some b \<Rightarrow> [(max (1 / 1000) (b - (now - t)), Body_Timeout)]) @
           (case body_rate_deadline cfg s of None \<Rightarrow> [] | Some d \<Rightarrow> [(max (1 / 1000) (d - now), Body_Rate_Too_Slow)])))"

definition release_held :: "recv_state \<Rightarrow> recv_state" where
  "release_held s =
     (case (rs_reservation s, rs_budget s) of
        (Some n, Some b) \<Rightarrow> s\<lparr>rs_reservation := None, rs_budget := Some (budget_release b n)\<rparr>
      | _ \<Rightarrow> s\<lparr>rs_reservation := None\<rparr>)"

definition reject :: "reject_reason \<Rightarrow> recv_state \<Rightarrow> recv_state \<times> recv_result option" where
  "reject reason s = (release_held s, Some (Rejected reason))"

definition raise_error :: "py_error \<Rightarrow> recv_state \<Rightarrow> recv_state \<times> recv_result option" where
  "raise_error e s = (release_held s, Some (Recv_Failed e))"

text \<open>What follows the loop.\<close>

definition finish_request :: "recv_state \<Rightarrow> recv_state \<times> recv_result option" where
  "finish_request s =
     (let result = (if rs_headers_received s
                    then take (nat (int (rs_header_end_pos s) + 4 + rs_content_length s)) (rs_data s) else rs_data s)
      in (s, Some (Received result (rs_reservation s))))"

subsection \<open>The loop\<close>

text \<open>The reservation, once the declared length is admitted; \<open>t\<close> is the clock when the body starts.\<close>

definition start_body :: "recv_config \<Rightarrow> nat \<Rightarrow> int \<Rightarrow> int \<Rightarrow> time \<Rightarrow> recv_state \<Rightarrow> recv_state \<times> recv_result option" where
  "start_body cfg he cl limit t s =
     (let s1 = s\<lparr>rs_header_end_pos := he, rs_content_length := cl, rs_effective_body_limit := limit\<rparr>;
          reserved = (case rs_budget s1 of
             None \<Rightarrow> Inr s1
           | Some b \<Rightarrow>
               if cl \<le> 0 then Inr s1
               else (case try_reserve b cl of
                       Inl e \<Rightarrow> Inl s1
                     | Inr (b', None) \<Rightarrow> Inl (s1\<lparr>rs_budget := Some b'\<rparr>)
                     | Inr (b', Some n) \<Rightarrow> Inr (s1\<lparr>rs_budget := Some b', rs_reservation := Some n\<rparr>)))
      in case reserved of
           Inl s2 \<Rightarrow> reject Body_Memory_Budget_Exceeded s2
         | Inr s2 \<Rightarrow>
             (let s3 = s2\<lparr>rs_headers_received := True,
                          rs_body_start_time := (if 0 < cl then Some t else rs_body_start_time s2)\<rparr>
              in if limit < body_received s3 then reject Body_Too_Large s3
                 else if cl \<le> body_received s3 then finish_request s3
                 else (s3, None)))"

text \<open>A chunk has arrived and the header terminator is at \<open>he\<close>.\<close>

definition on_headers :: "recv_config \<Rightarrow> nat \<Rightarrow> time \<Rightarrow> recv_state \<Rightarrow> recv_state \<times> recv_result option" where
  "on_headers cfg he t s =
     (let headers_part = rc_decode cfg (take he (rs_data s))
      in if rc_max_header_size cfg < int he then reject Header_Too_Large s
         else if has_transfer_encoding headers_part then reject Unsupported_Transfer_Encoding s
         else case parse_content_length headers_part of
           None \<Rightarrow> reject Invalid_Content_Length s
         | Some cl \<Rightarrow>
             (let resolved = (case rc_body_limit_resolver cfg of None \<Rightarrow> None | Some f \<Rightarrow> f headers_part);
                  limit = (case resolved of None \<Rightarrow> rs_effective_body_limit s | Some l \<Rightarrow> l)
              in if (case resolved of None \<Rightarrow> False | Some l \<Rightarrow> l < 0) then raise_error ValueError s
                 else if limit < cl then reject Body_Too_Large s
                 else if (case rc_admit_headers cfg of None \<Rightarrow> False | Some f \<Rightarrow> \<not> f (take (he + 4) (rs_data s)))
                 then reject Request_Admission_Rejected s
                 else start_body cfg he cl limit t s))"

definition recv_size :: "recv_config \<Rightarrow> recv_state \<Rightarrow> nat" where
  "recv_size cfg s =
     (if \<not> rs_headers_received s
      then min RECV_CHUNK (nat (max 1 (rc_max_header_size cfg + 4 - int (length (rs_data s)))))
      else min RECV_CHUNK (nat (max 1 (rs_content_length s - body_received s))))"

definition on_chunk :: "recv_config \<Rightarrow> bytes \<Rightarrow> time \<Rightarrow> recv_state \<Rightarrow> recv_state \<times> recv_result option" where
  "on_chunk cfg chunk t s =
     (if chunk = []
      then (if rs_headers_received s \<and> body_received s < rs_content_length s then reject Body_Incomplete s
            else finish_request s)
      else
        (let s1 = (if rs_first_recv s \<and> rc_idle_timeout cfg \<noteq> None
                   then s\<lparr>rs_sock_timeout := Some DEFAULT_IDLE_TIMEOUT, rs_first_recv := False\<rparr> else s);
             s2 = s1\<lparr>rs_data := rs_data s1 @ chunk\<rparr>
         in if \<not> rs_headers_received s2
            then (case find_from HEADER_TERMINATOR (rs_data s2) of
                    Some he \<Rightarrow> on_headers cfg he t s2
                  | None \<Rightarrow> if rc_max_header_size cfg + 4 - 1 < int (length (rs_data s2)) then reject Header_Too_Large s2
                            else (s2, None))
            else if rs_effective_body_limit s2 < body_received s2 then reject Body_Too_Large s2
            else if rs_content_length s2 \<le> body_received s2 then finish_request s2
            else (s2, None)))"

definition on_recv_timeout :: "recv_config \<Rightarrow> time \<Rightarrow> recv_state \<Rightarrow> recv_state \<times> recv_result option" where
  "on_recv_timeout cfg t s =
     (if \<not> rs_headers_received s then finish_request s
      else case expired_body_deadline cfg t s of
        Some r \<Rightarrow> reject r s
      | None \<Rightarrow> if rs_timeout_reason s \<noteq> Some Body_Idle_Timeout then (s, None) else reject Body_Idle_Timeout s)"

datatype recv_event = Arrive nat time | Recv_Timed_Out time | Recv_Raised

text \<open>One iteration; \<open>now\<close> is the clock at its head. \<open>None\<close>: the loop goes on.\<close>

definition recv_turn :: "recv_config \<Rightarrow> bytes \<Rightarrow> time \<Rightarrow> recv_event \<Rightarrow> recv_state \<Rightarrow> recv_state \<times> recv_result option" where
  "recv_turn cfg inp now ev s =
     (if \<not> rs_headers_received s \<and> HEADER_TIMEOUT < now - rs_start_time s then reject Header_Timeout s
      else if rs_headers_received s \<and> expired_body_deadline cfg now s \<noteq> None
      then reject (the (expired_body_deadline cfg now s)) s
      else
        (let s1 = (if rs_headers_received s
                   then s\<lparr>rs_timeout_reason := map_option snd (body_recv_timeout cfg now s),
                          rs_sock_timeout := map_option fst (body_recv_timeout cfg now s)\<rparr> else s)
         in if rs_headers_received s1 \<and> rs_content_length s1 \<le> body_received s1 then finish_request s1
            else case ev of
              Arrive n t \<Rightarrow> on_chunk cfg (take (min (max 1 n) (recv_size cfg s1)) (drop (length (rs_data s1)) inp)) t s1
            | Recv_Timed_Out t \<Rightarrow> on_recv_timeout cfg t s1
            | Recv_Raised \<Rightarrow> raise_error OSError s1))"

fun recv_loop :: "recv_config \<Rightarrow> bytes \<Rightarrow> (time \<times> recv_event) list \<Rightarrow> recv_state \<Rightarrow> recv_state \<times> recv_result option" where
  "recv_loop cfg inp [] s = (s, None)"
| "recv_loop cfg inp ((now, ev) # evs) s =
     (case recv_turn cfg inp now ev s of
        (s', None) \<Rightarrow> recv_loop cfg inp evs s'
      | (s', Some r) \<Rightarrow> (s', Some r))"

definition receive_request_result ::
  "recv_config \<Rightarrow> budget option \<Rightarrow> bytes \<Rightarrow> time \<Rightarrow> (time \<times> recv_event) list \<Rightarrow> recv_state \<times> recv_result option"
where
  "receive_request_result cfg b inp now evs =
     (if recv_config_ok cfg then recv_loop cfg inp evs (recv_init cfg b now)
      else (recv_init cfg b now, Some (Recv_Failed ValueError)))"

subsection \<open>The invariant of the loop\<close>

text \<open>The body limit that applies to a request with these headers.\<close>

definition body_limit :: "recv_config \<Rightarrow> string \<Rightarrow> int" where
  "body_limit cfg headers_part =
     (case rc_body_limit_resolver cfg of None \<Rightarrow> rc_max_upload_size cfg
      | Some f \<Rightarrow> (case f headers_part of None \<Rightarrow> rc_max_upload_size cfg | Some l \<Rightarrow> l))"

text \<open>The framing of a request at the start of \<open>inp\<close>: its header block ends at \<open>he\<close> and announces \<open>cl\<close> bytes.\<close>

definition framed :: "recv_config \<Rightarrow> bytes \<Rightarrow> nat \<Rightarrow> int \<Rightarrow> bool" where
  "framed cfg inp he cl \<longleftrightarrow> find_from HEADER_TERMINATOR inp = Some he \<and> int he \<le> rc_max_header_size cfg \<and>
     \<not> has_transfer_encoding (rc_decode cfg (take he inp)) \<and>
     parse_content_length (rc_decode cfg (take he inp)) = Some cl \<and> 0 \<le> cl \<and>
     cl \<le> body_limit cfg (rc_decode cfg (take he inp)) \<and>
     (case rc_admit_headers cfg of None \<Rightarrow> True | Some f \<Rightarrow> f (take (he + 4) inp))"

definition budget_used :: "budget option \<Rightarrow> int" where
  "budget_used b = (case b of None \<Rightarrow> 0 | Some x \<Rightarrow> b_current x)"

definition budget_fine :: "budget option \<Rightarrow> bool" where
  "budget_fine b = (case b of None \<Rightarrow> True | Some x \<Rightarrow> 0 \<le> b_current x \<and> b_current x \<le> b_max x)"

definition reserved_of :: "int option \<Rightarrow> int" where
  "reserved_of r = (case r of None \<Rightarrow> 0 | Some n \<Rightarrow> n)"

definition holds :: "budget option \<Rightarrow> recv_state \<Rightarrow> bool" where
  "holds b0 s \<longleftrightarrow> budget_used (rs_budget s) = budget_used b0 + reserved_of (rs_reservation s) \<and>
     (rs_budget s = None \<longleftrightarrow> b0 = None) \<and> (b0 = None \<longrightarrow> rs_reservation s = None) \<and> 0 \<le> reserved_of (rs_reservation s) \<and>
     budget_fine (rs_budget s)"

definition recv_inv :: "recv_config \<Rightarrow> bytes \<Rightarrow> budget option \<Rightarrow> recv_state \<Rightarrow> bool" where
  "recv_inv cfg inp b0 s \<longleftrightarrow> prefix (rs_data s) inp \<and> holds b0 s \<and>
     (if rs_headers_received s
      then framed cfg inp (rs_header_end_pos s) (rs_content_length s) \<and> rs_header_end_pos s + 4 \<le> length (rs_data s) \<and>
        rs_reservation s = (if b0 = None \<or> rs_content_length s \<le> 0 then None else Some (rs_content_length s))
      else rs_effective_body_limit s = rc_max_upload_size cfg \<and> rs_reservation s = None \<and>
        find_from HEADER_TERMINATOR (rs_data s) = None)"

text \<open>What may be returned.\<close>

definition outcome_ok :: "recv_config \<Rightarrow> bytes \<Rightarrow> budget option \<Rightarrow> recv_state \<times> recv_result option \<Rightarrow> bool" where
  "outcome_ok cfg inp b0 r \<longleftrightarrow>
     (case r of
        (s, None) \<Rightarrow> recv_inv cfg inp b0 s
      | (s, Some (Received result res)) \<Rightarrow> holds b0 s \<and> res = rs_reservation s \<and>
          ((find_from HEADER_TERMINATOR result = None \<and> prefix result inp \<and> res = None) \<or>
           (\<exists>he cl. framed cfg inp he cl \<and> result = take (he + 4 + nat cl) inp \<and> length result = he + 4 + nat cl \<and>
              res = (if b0 = None \<or> cl \<le> 0 then None else Some cl)))
      | (s, Some _) \<Rightarrow> holds b0 s \<and> rs_reservation s = None)"

lemma holds_release: "holds b0 s \<Longrightarrow> budget_fine b0 \<Longrightarrow> holds b0 (release_held s) \<and> rs_reservation (release_held s) = None"
  by (auto simp: holds_def release_held_def budget_used_def budget_fine_def reserved_of_def budget_release_def
      split: option.splits)

lemma outcome_reject: "holds b0 s \<Longrightarrow> budget_fine b0 \<Longrightarrow> outcome_ok cfg inp b0 (reject r s)"
  using holds_release by (simp add: outcome_ok_def reject_def)

lemma outcome_raise: "holds b0 s \<Longrightarrow> budget_fine b0 \<Longrightarrow> outcome_ok cfg inp b0 (raise_error e s)"
  using holds_release by (simp add: outcome_ok_def raise_error_def)

lemma outcome_continue: "outcome_ok cfg inp b0 (s, None) = recv_inv cfg inp b0 s"
  by (simp add: outcome_ok_def)

lemma prefix_take: "prefix xs ys \<Longrightarrow> n \<le> length xs \<Longrightarrow> take n xs = take n ys"
  by (auto simp: prefix_def)

lemma outcome_finish_headers:
  assumes inv: "recv_inv cfg inp b0 s" and h: "rs_headers_received s" and full: "rs_content_length s \<le> body_received s"
  shows "outcome_ok cfg inp b0 (finish_request s)"
proof -
  let ?he = "rs_header_end_pos s" and ?cl = "rs_content_length s"
  have f: "framed cfg inp ?he ?cl" "prefix (rs_data s) inp" "?he + 4 \<le> length (rs_data s)" "holds b0 s"
    "rs_reservation s = (if b0 = None \<or> ?cl \<le> 0 then None else Some ?cl)"
    using inv h by (auto simp: recv_inv_def)
  have n: "nat (int ?he + 4 + ?cl) = ?he + 4 + nat ?cl" "?he + 4 + nat ?cl \<le> length (rs_data s)"
    using f(1,3) full by (auto simp: framed_def body_received_def)
  then have t: "take (?he + 4 + nat ?cl) (rs_data s) = take (?he + 4 + nat ?cl) inp" using prefix_take[OF f(2)] by simp
  have "length (take (?he + 4 + nat ?cl) inp) = ?he + 4 + nat ?cl" using n(2) prefix_length_le[OF f(2)] by simp
  then have ex: "\<exists>he cl. framed cfg inp he cl \<and> take (?he + 4 + nat ?cl) inp = take (he + 4 + nat cl) inp \<and>
      length (take (?he + 4 + nat ?cl) inp) = he + 4 + nat cl \<and>
      rs_reservation s = (if b0 = None \<or> cl \<le> 0 then None else Some cl)"
    using f by (intro exI[of _ ?he] exI[of _ ?cl]) simp
  have "finish_request s = (s, Some (Received (take (?he + 4 + nat ?cl) inp) (rs_reservation s)))"
    unfolding finish_request_def Let_def n(1) t using h by simp
  then show ?thesis using f(4) ex unfolding outcome_ok_def by simp
qed

lemma outcome_finish_plain:
  "recv_inv cfg inp b0 s \<Longrightarrow> \<not> rs_headers_received s \<Longrightarrow> outcome_ok cfg inp b0 (finish_request s)"
  by (auto simp: outcome_ok_def finish_request_def recv_inv_def)

lemma find_from_prefix: "find_from sep xs = Some n \<Longrightarrow> prefix xs ys \<Longrightarrow> find_from sep ys = Some n"
  by (auto simp: prefix_def find_from_append)

lemma start_body_ok:
  assumes f: "framed cfg inp he cl" and p: "prefix (rs_data s) inp" and len: "he + 4 \<le> length (rs_data s)"
    and h: "holds b0 s" "rs_reservation s = None" and b0: "budget_fine b0"
  shows "outcome_ok cfg inp b0 (start_body cfg he cl limit t s)"
proof -
  define s1 where "s1 = s\<lparr>rs_header_end_pos := he, rs_content_length := cl, rs_effective_body_limit := limit\<rparr>"
  have h1: "holds b0 s1" "rs_reservation s1 = None" using h by (auto simp: holds_def s1_def)
  have go: "outcome_ok cfg inp b0
      (let s3 = s2\<lparr>rs_headers_received := True, rs_body_start_time := (if 0 < cl then Some t else rs_body_start_time s2)\<rparr>
       in if limit < body_received s3 then reject Body_Too_Large s3
          else if cl \<le> body_received s3 then finish_request s3 else (s3, None))"
    if s2: "holds b0 s2" "rs_data s2 = rs_data s" "rs_header_end_pos s2 = he" "rs_content_length s2 = cl"
      "rs_reservation s2 = (if b0 = None \<or> cl \<le> 0 then None else Some cl)" for s2
  proof -
    define s3 where "s3 = s2\<lparr>rs_headers_received := True, rs_body_start_time := (if 0 < cl then Some t else rs_body_start_time s2)\<rparr>"
    have h3: "holds b0 s3" using s2(1) by (simp add: holds_def s3_def)
    have i3: "recv_inv cfg inp b0 s3" using f p len s2 h3 by (simp add: recv_inv_def s3_def)
    have "rs_headers_received s3" "rs_content_length s3 = cl" using s2 by (auto simp: s3_def)
    then show ?thesis unfolding s3_def[symmetric] Let_def
      using outcome_reject[OF h3 b0] outcome_finish_headers[OF i3] i3 by (auto simp: outcome_ok_def)
  qed
  show ?thesis
  proof (cases "rs_budget s1 = None \<or> cl \<le> 0")
    case True
    have "b0 = None \<or> cl \<le> 0" using True h1 by (auto simp: holds_def)
    then have g: "outcome_ok cfg inp b0
      (let s3 = s1\<lparr>rs_headers_received := True, rs_body_start_time := (if 0 < cl then Some t else rs_body_start_time s1)\<rparr>
       in if limit < body_received s3 then reject Body_Too_Large s3
          else if cl \<le> body_received s3 then finish_request s3 else (s3, None))"
      using h1 by (intro go) (auto simp: s1_def)
    have "(case rs_budget s1 of
             None \<Rightarrow> Inr s1
           | Some b \<Rightarrow>
               if cl \<le> 0 then Inr s1
               else (case try_reserve b cl of
                       Inl e \<Rightarrow> Inl s1
                     | Inr (b', None) \<Rightarrow> Inl (s1\<lparr>rs_budget := Some b'\<rparr>)
                     | Inr (b', Some n) \<Rightarrow> Inr (s1\<lparr>rs_budget := Some b', rs_reservation := Some n\<rparr>))) = Inr s1"
      using True by (auto split: option.splits)
    then show ?thesis using g unfolding start_body_def s1_def[symmetric] Let_def by simp
  next
    case False
    then obtain b where b: "rs_budget s1 = Some b" "0 < cl" by auto
    then have b0S: "b0 \<noteq> None" using h1 by (auto simp: holds_def)
    show ?thesis
    proof (cases "b_max b < b_current b + cl")
      case True
      then have "holds b0 (s1\<lparr>rs_budget := Some (b\<lparr>b_rejected := b_rejected b + 1\<rparr>)\<rparr>)"
        using h1 b by (auto simp: holds_def budget_used_def budget_fine_def reserved_of_def split: option.splits)
      then show ?thesis using b True outcome_reject[OF _ b0]
        unfolding start_body_def s1_def[symmetric] Let_def by (simp add: try_reserve_def)
    next
      case False
      let ?s2 = "s1\<lparr>rs_budget := Some (b\<lparr>b_current := b_current b + cl, b_peak := max (b_peak b) (b_current b + cl)\<rparr>),
        rs_reservation := Some cl\<rparr>"
      have "holds b0 ?s2"
        using h1 b False by (auto simp: holds_def budget_used_def budget_fine_def reserved_of_def split: option.splits)
      then have "outcome_ok cfg inp b0
        (let s3 = ?s2\<lparr>rs_headers_received := True, rs_body_start_time := (if 0 < cl then Some t else rs_body_start_time ?s2)\<rparr>
         in if limit < body_received s3 then reject Body_Too_Large s3
            else if cl \<le> body_received s3 then finish_request s3 else (s3, None))"
        using b b0S by (intro go) (auto simp: s1_def)
      then show ?thesis using b False unfolding start_body_def s1_def[symmetric] Let_def by (simp add: try_reserve_def)
    qed
  qed
qed

lemma parse_content_length_nonneg: "parse_content_length h = Some v \<Longrightarrow> 0 \<le> v"
  by (auto simp: parse_content_length_def split: option.splits list.splits if_splits)

lemma on_headers_ok:
  assumes p: "prefix (rs_data s) inp" and he: "find_from HEADER_TERMINATOR (rs_data s) = Some he"
    and h: "holds b0 s" "rs_reservation s = None" and b0: "budget_fine b0"
    and lim: "rs_effective_body_limit s = rc_max_upload_size cfg"
  shows "outcome_ok cfg inp b0 (on_headers cfg he t s)"
proof -
  have len: "he + 4 \<le> length (rs_data s)" using find_from_Some[OF he] by (simp add: HEADER_TERMINATOR_def)
  have tk: "take he (rs_data s) = take he inp" "take (he + 4) (rs_data s) = take (he + 4) inp"
    using prefix_take[OF p] len by auto
  have fi: "find_from HEADER_TERMINATOR inp = Some he" by (rule find_from_prefix[OF he p])
  let ?hp = "rc_decode cfg (take he inp)"
  define resolved where "resolved = (case rc_body_limit_resolver cfg of None \<Rightarrow> None | Some f \<Rightarrow> f ?hp)"
  have bl: "(case resolved of None \<Rightarrow> rs_effective_body_limit s | Some l \<Rightarrow> l) = body_limit cfg ?hp"
    by (simp add: resolved_def body_limit_def lim split: option.splits)
  have start: "outcome_ok cfg inp b0 (start_body cfg he cl (body_limit cfg ?hp) t s)"
    if "int he \<le> rc_max_header_size cfg" "\<not> has_transfer_encoding ?hp" "parse_content_length ?hp = Some cl"
      "cl \<le> body_limit cfg ?hp" "\<not> (case rc_admit_headers cfg of None \<Rightarrow> False | Some f \<Rightarrow> \<not> f (take (he + 4) inp))" for cl
    using that fi parse_content_length_nonneg
    by (intro start_body_ok[OF _ p len h b0]) (auto simp: framed_def split: option.splits)
  show ?thesis
    unfolding on_headers_def Let_def tk resolved_def[symmetric] bl
    using start outcome_reject[OF h(1) b0] outcome_raise[OF h(1) b0] by (auto split: option.splits)
qed

lemma holds_frame [simp]:
  "holds b0 (s\<lparr>rs_data := d\<rparr>) = holds b0 s" "holds b0 (s\<lparr>rs_sock_timeout := a\<rparr>) = holds b0 s"
  "holds b0 (s\<lparr>rs_first_recv := f\<rparr>) = holds b0 s" "holds b0 (s\<lparr>rs_timeout_reason := r\<rparr>) = holds b0 s"
  by (simp_all add: holds_def)

lemma on_chunk_ok:
  assumes inv: "recv_inv cfg inp b0 s" and c: "prefix (rs_data s @ chunk) inp" and b0: "budget_fine b0"
  shows "outcome_ok cfg inp b0 (on_chunk cfg chunk t s)"
proof (cases "chunk = []")
  case True
  have "holds b0 s" using inv by (simp add: recv_inv_def)
  then show ?thesis
    using True outcome_reject[OF _ b0] outcome_finish_headers[OF inv] outcome_finish_plain[OF inv]
    by (cases "rs_headers_received s") (auto simp: on_chunk_def)
next
  case False
  define s1 where "s1 = (if rs_first_recv s \<and> rc_idle_timeout cfg \<noteq> None
                   then s\<lparr>rs_sock_timeout := Some DEFAULT_IDLE_TIMEOUT, rs_first_recv := False\<rparr> else s)"
  define s2 where "s2 = s1\<lparr>rs_data := rs_data s1 @ chunk\<rparr>"
  have same: "rs_data s2 = rs_data s @ chunk" "rs_headers_received s2 = rs_headers_received s"
    "rs_reservation s2 = rs_reservation s" "rs_effective_body_limit s2 = rs_effective_body_limit s"
    "rs_header_end_pos s2 = rs_header_end_pos s" "rs_content_length s2 = rs_content_length s"
    by (auto simp: s1_def s2_def)
  have h2: "holds b0 s2" using inv by (simp add: recv_inv_def s2_def s1_def)
  have step: "on_chunk cfg chunk t s =
      (if \<not> rs_headers_received s2
       then (case find_from HEADER_TERMINATOR (rs_data s2) of
               Some he \<Rightarrow> on_headers cfg he t s2
             | None \<Rightarrow> if rc_max_header_size cfg + 4 - 1 < int (length (rs_data s2)) then reject Header_Too_Large s2
                       else (s2, None))
       else if rs_effective_body_limit s2 < body_received s2 then reject Body_Too_Large s2
       else if rs_content_length s2 \<le> body_received s2 then finish_request s2
       else (s2, None))"
    using False unfolding on_chunk_def Let_def s1_def[symmetric] s2_def[symmetric] by simp
  show ?thesis
  proof (cases "rs_headers_received s")
    case True
    have i2: "recv_inv cfg inp b0 s2" using inv c True h2 same by (auto simp: recv_inv_def)
    then show ?thesis using True same outcome_reject[OF h2 b0] outcome_finish_headers[OF i2]
      unfolding step by (auto simp: outcome_ok_def)
  next
    case False
    have n: "rs_reservation s2 = None" "rs_effective_body_limit s2 = rc_max_upload_size cfg"
      using inv False same by (auto simp: recv_inv_def)
    show ?thesis
    proof (cases "find_from HEADER_TERMINATOR (rs_data s2)")
      case None
      then have "recv_inv cfg inp b0 s2" using c False h2 same n by (auto simp: recv_inv_def)
      then show ?thesis using False same None outcome_reject[OF h2 b0] unfolding step by (auto simp: outcome_ok_def)
    next
      case (Some he)
      then show ?thesis using False same on_headers_ok[OF _ Some h2 n(1) b0 n(2)] c unfolding step by auto
    qed
  qed
qed

lemma recv_turn_ok:
  assumes inv: "recv_inv cfg inp b0 s" and b0: "budget_fine b0"
  shows "outcome_ok cfg inp b0 (recv_turn cfg inp now ev s)"
proof -
  have h: "holds b0 s" using inv by (simp add: recv_inv_def)
  define s1 where "s1 = (if rs_headers_received s
                   then s\<lparr>rs_timeout_reason := map_option snd (body_recv_timeout cfg now s),
                          rs_sock_timeout := map_option fst (body_recv_timeout cfg now s)\<rparr> else s)"
  have i1: "recv_inv cfg inp b0 s1" and h1: "holds b0 s1" using inv h by (auto simp: recv_inv_def s1_def)
  have chunk: "outcome_ok cfg inp b0 (on_chunk cfg (take m (drop (length (rs_data s1)) inp)) t s1)" for m t
  proof (rule on_chunk_ok[OF i1 _ b0])
    have "prefix (rs_data s1) inp" using i1 by (simp add: recv_inv_def)
    then obtain zs where "inp = rs_data s1 @ zs" by (auto simp: prefix_def)
    then show "prefix (rs_data s1 @ take m (drop (length (rs_data s1)) inp)) inp" by (simp add: take_is_prefix)
  qed
  have late: "outcome_ok cfg inp b0 (on_recv_timeout cfg t s1)" for t
    using i1 outcome_reject[OF h1 b0] outcome_finish_plain[OF i1]
    by (auto simp: on_recv_timeout_def outcome_continue split: option.splits)
  show ?thesis
    unfolding recv_turn_def Let_def s1_def[symmetric]
    using outcome_reject[OF h b0] outcome_finish_headers[OF i1] chunk late outcome_raise[OF h1 b0]
    by (auto split: recv_event.splits)
qed

lemma recv_loop_ok:
  assumes b0: "budget_fine b0"
  shows "recv_inv cfg inp b0 s \<Longrightarrow> outcome_ok cfg inp b0 (recv_loop cfg inp evs s)"
proof (induction evs arbitrary: s)
  case Nil
  then show ?case by (simp add: outcome_ok_def)
next
  case (Cons e evs)
  obtain now ev where e: "e = (now, ev)" by fastforce
  obtain s' r where t: "recv_turn cfg inp now ev s = (s', r)" by fastforce
  have ok: "outcome_ok cfg inp b0 (s', r)" using recv_turn_ok[OF Cons.prems b0, of now ev] t by simp
  show ?case
  proof (cases r)
    case None
    then have "recv_inv cfg inp b0 s'" using ok by (simp add: outcome_ok_def)
    from Cons.IH[OF this] show ?thesis using t e None by simp
  next
    case (Some x)
    then show ?thesis using ok t e by simp
  qed
qed

lemma recv_init_inv: "budget_fine b \<Longrightarrow> recv_inv cfg inp b (recv_init cfg b now)"
  by (auto simp: recv_inv_def recv_init_def holds_def reserved_of_def HEADER_TERMINATOR_def)

lemma receive_ok:
  assumes "budget_fine b"
  shows "outcome_ok cfg inp b (receive_request_result cfg b inp now evs)"
proof (cases "recv_config_ok cfg")
  case True
  then show ?thesis using recv_loop_ok[OF assms recv_init_inv[OF assms]] by (simp add: receive_request_result_def)
next
  case False
  have "holds b (recv_init cfg b now)" using recv_init_inv[OF assms] by (simp add: recv_inv_def)
  then show ?thesis using False by (simp add: receive_request_result_def outcome_ok_def recv_init_def)
qed

subsection \<open>Properties\<close>

text \<open>C13. What is handed to the parser is one correctly framed request: for any peer, any segmentation of its
  bytes and any timing, when the receiver returns data then either no header block was complete (the bytes are a
  terminator-free beginning of the stream, nothing reserved), or the data are exactly the header block that ends
  at the first blank line of the stream, within the header limit and without \<open>Transfer-Encoding\<close>, plus exactly as
  many body bytes as its unambiguous \<open>Content-Length\<close> says, within the limit that applies to these headers and
  after the admission callback accepted the header block. Two runs over the same stream that get that far
  therefore return the same request.\<close>

theorem received_request_framed:
  assumes "receive_request_result cfg b inp now evs = (s, Some (Received data res))"
    and "case b of None \<Rightarrow> True | Some x \<Rightarrow> 0 \<le> b_current x \<and> b_current x \<le> b_max x"
  shows "(find_from HEADER_TERMINATOR data = None \<and> prefix data inp \<and> res = None) \<or>
    (\<exists>he cl. framed cfg inp he cl \<and> data = take (he + 4 + nat cl) inp \<and> length data = he + 4 + nat cl \<and>
       res = (if b = None \<or> cl \<le> 0 then None else Some cl))"
proof -
  have "outcome_ok cfg inp b (s, Some (Received data res))"
    using receive_ok[of b cfg inp now evs] assms by (simp add: budget_fine_def)
  then show ?thesis unfolding outcome_ok_def prod.case option.case recv_result.case by blast
qed

definition demo_recv :: recv_config where
  "demo_recv = \<lparr>rc_max_upload_size = 100, rc_max_header_size = 1000, rc_idle_timeout = None,
     rc_body_idle_timeout = Some 5, rc_body_timeout = Some 300, rc_body_min_rate = 0,
     rc_decode = map (\<lambda>b. char_of (unat b)), rc_body_limit_resolver = None, rc_admit_headers = None\<rparr>"

definition demo_budget :: budget where
  "demo_budget = \<lparr>b_max = 50, b_current = 10, b_peak = 10, b_rejected = 0\<rparr>"

definition demo_headers :: string where "demo_headers = ''Content-Length:2''"

definition demo_request :: bytes where
  "demo_request = ascii_bytes demo_headers @ HEADER_TERMINATOR @ [104, 105, 106]"

lemmas chr_eval = char_of_def bit_iff_odd

lemma demo_headers_bytes:
  "ascii_bytes demo_headers = [67, 111, 110, 116, 101, 110, 116, 45, 76, 101, 110, 103, 116, 104, 58, 50]"
  "rc_decode demo_recv [67, 111, 110, 116, 101, 110, 116, 45, 76, 101, 110, 103, 116, 104, 58, 50] = demo_headers"
  by (simp_all add: ascii_bytes_def demo_recv_def demo_headers_def chr_eval)

lemma demo_headers_scan: "parse_content_length demo_headers = Some 2" "\<not> has_transfer_encoding demo_headers"
  by (simp_all add: parse_content_length_def py_lower_def lower_char_def ascii_upper_def py_int_def py_strip_def strip_by_def
      is_space_def Let_def is_digit_def has_transfer_encoding_def demo_headers_def chr_eval)

lemma demo_run:
  "snd (receive_request_result demo_recv (Some demo_budget) demo_request 0
     [(0, Arrive 9 0), (1, Arrive 100 1), (2, Arrive 100 2)]) = Some (Received (take 22 demo_request) (Some 2))"
proof -
  let ?b = "ascii_bytes demo_headers @ HEADER_TERMINATOR"
  have cfg: "rc_max_upload_size demo_recv = 100" "rc_max_header_size demo_recv = 1000" "rc_idle_timeout demo_recv = None"
    "rc_body_idle_timeout demo_recv = Some 5" "rc_body_timeout demo_recv = Some 300" "rc_body_min_rate demo_recv = 0"
    "rc_body_limit_resolver demo_recv = None" "rc_admit_headers demo_recv = None"
    by (simp_all add: demo_recv_def)
  show ?thesis
    by (simp add: receive_request_result_def recv_config_ok_def recv_init_def recv_turn_def recv_size_def on_chunk_def
        on_headers_def start_body_def try_reserve_def body_received_def finish_request_def HEADER_TIMEOUT_def RECV_CHUNK_def
        HEADER_TERMINATOR_def demo_request_def demo_budget_def demo_headers_bytes demo_headers_scan cfg Let_def)
qed

lemma received_request_framed_witness:
  "\<exists>he cl. framed demo_recv demo_request he cl \<and> take 22 demo_request = take (he + 4 + nat cl) demo_request \<and>
     length (take 22 demo_request) = he + 4 + nat cl"
proof -
  obtain s where r: "receive_request_result demo_recv (Some demo_budget) demo_request 0
     [(0, Arrive 9 0), (1, Arrive 100 1), (2, Arrive 100 2)] = (s, Some (Received (take 22 demo_request) (Some 2)))"
    using demo_run by (metis prod.collapse)
  from received_request_framed[OF r] show ?thesis by (auto simp: demo_budget_def)
qed

text \<open>The body-memory budget is settled exactly: after \<open>receive_request_result\<close> returns, by whatever path, the
  budget in use has grown by the reservation that is handed to the caller and by nothing else; a rejected or
  failed request leaves it as it was; and it never exceeds its maximum.\<close>

theorem receive_budget_settled:
  assumes "receive_request_result cfg (Some b) inp now evs = (s, Some r)" and "0 \<le> b_current b" and "b_current b \<le> b_max b"
  shows "\<exists>b'. rs_budget s = Some b' \<and> b_current b' \<le> b_max b' \<and>
    b_current b' = b_current b + (case r of Received _ (Some n) \<Rightarrow> n | _ \<Rightarrow> 0)"
proof -
  have ok: "outcome_ok cfg inp (Some b) (s, Some r)"
    using receive_ok[of "Some b" cfg inp now evs] assms by (simp add: budget_fine_def)
  then have h: "holds (Some b) s" by (auto simp: outcome_ok_def split: recv_result.splits)
  then obtain b' where b': "rs_budget s = Some b'" "b_current b' = b_current b + reserved_of (rs_reservation s)"
    "b_current b' \<le> b_max b'"
    by (cases "rs_budget s") (auto simp: holds_def budget_used_def budget_fine_def)
  moreover have "reserved_of (rs_reservation s) = (case r of Received _ (Some n) \<Rightarrow> n | _ \<Rightarrow> 0)"
    using ok by (auto simp: outcome_ok_def reserved_of_def split: recv_result.splits option.splits)
  ultimately show ?thesis by auto
qed

lemma receive_budget_settled_witness:
  "\<exists>(s :: recv_state) b'. rs_budget s = Some b' \<and> b_current b' \<le> b_max b' \<and> b_current b' = 10 + 2"
proof -
  obtain s where r: "receive_request_result demo_recv (Some demo_budget) demo_request 0
     [(0, Arrive 9 0), (1, Arrive 100 1), (2, Arrive 100 2)] = (s, Some (Received (take 22 demo_request) (Some 2)))"
    using demo_run by (metis prod.collapse)
  from receive_budget_settled[OF r] obtain b' where "rs_budget s = Some b'" "b_current b' \<le> b_max b'" "b_current b' = 10 + 2"
    by (auto simp: demo_budget_def)
  then show ?thesis by blast
qed

end
