(* ===== verification/Upload_Storage.thy ===== *)
theory Upload_Storage
  imports Py_Text
begin

section \<open>Upload storage: quota and atomic publishing\<close>

text \<open>
  \<open>UploadStorageService\<close> of \<^verbatim>\<open>xferry/storage.py\<close>. The upload directory has its regular files by name, the
  regular files further below by the segments of their path, with their sizes, and the names of its other
  entries. The usage that the quota is checked against leaves out every file whose name begins as the service's own
  temporary files do. A run interleaves the lock-protected sections of concurrent uploads: the reservation of
  \<open>publish_bytes\<close>, the write of its temporary file (outside the lock), its commit, and the \<open>reservation\<close>
  context that multi-step writers use; and what others do to the directory without asking the service. Free space on
  disk and the bytes that encrypted partial files still claim are read from the environment at each check
  (\<open>disk_reading\<close>). The temporary files of \<open>publish_bytes\<close> itself, whose names are random and never counted, are left out.
\<close>

record storage_policy =
  sp_max_total_bytes :: "int option"
  sp_max_file_count :: "int option"
  sp_reserved_free_bytes :: int

definition storage_policy_make :: "int option \<Rightarrow> int option \<Rightarrow> int \<Rightarrow> py_error + storage_policy" where
  "storage_policy_make max_total files free =
     (if (case max_total of None \<Rightarrow> False | Some n \<Rightarrow> n < 0) then Inl ValueError
      else if (case files of None \<Rightarrow> False | Some n \<Rightarrow> n < 0) then Inl ValueError
      else if free < 0 then Inl ValueError
      else Inr \<lparr>sp_max_total_bytes = max_total, sp_max_file_count = files, sp_reserved_free_bytes = free\<rparr>)"

definition has_limits :: "storage_policy \<Rightarrow> bool" where
  "has_limits p \<longleftrightarrow> sp_max_total_bytes p \<noteq> None \<or> sp_max_file_count p \<noteq> None \<or> 0 < sp_reserved_free_bytes p"

datatype storage_error = Negative_Size | Quota_Bytes | Quota_Files | Quota_Free_Space | Disk_Full
  | Name_Exhausted | Bad_Destination | Other_OSError

record disk_reading =
  dr_free :: int
  dr_unallocated :: int

text \<open>\<open>us_inflight\<close>: the uploads between their reservation and the end of \<open>publish_bytes\<close>, with the requested
  name and the data. \<open>us_contexts\<close>: the open \<open>reservation\<close> contexts with their sizes, and what each has written so far.\<close>

record upload_service =
  us_policy :: storage_policy
  us_files :: "(string, bytes) dict"
  us_nested :: "(string list, nat) dict"
  us_entries :: "string list"
  us_reserved_bytes :: int
  us_reserved_files :: int
  us_inflight :: "(nat, string \<times> bytes) dict"
  us_contexts :: "(nat, int \<times> int option) dict"

definition upload_service_init ::
  "storage_policy \<Rightarrow> (string, bytes) dict \<Rightarrow> (string list, nat) dict \<Rightarrow> string list \<Rightarrow> upload_service"
where
  "upload_service_init p files nested entries = \<lparr>us_policy = p, us_files = files, us_nested = nested, us_entries = entries,
     us_reserved_bytes = 0, us_reserved_files = 0, us_inflight = [], us_contexts = []\<rparr>"

definition size_of :: "bytes \<Rightarrow> int" where "size_of d = int (length d)"

definition is_service_temp_path :: "string \<Rightarrow> bool" where
  "is_service_temp_path name \<longleftrightarrow> prefix ''.upload-tmp-'' name"

text \<open>The walk of \<open>rglob\<close>: temporary names are skipped at any depth.\<close>

definition counted_files :: "upload_service \<Rightarrow> (string, bytes) dict" where
  "counted_files s = filter (\<lambda>x. \<not> is_service_temp_path (fst x)) (us_files s)"

definition counted_nested :: "upload_service \<Rightarrow> (string list, nat) dict" where
  "counted_nested s = filter (\<lambda>x. \<not> is_service_temp_path (last (fst x))) (us_nested s)"

definition current_usage :: "upload_service \<Rightarrow> int \<times> int" where
  "current_usage s =
     (dict_sum size_of (counted_files s) + dict_sum int (counted_nested s),
      int (length (counted_files s)) + int (length (counted_nested s)))"

text \<open>\<open>_check_accepts\<close>\<close>

definition check_accepts :: "disk_reading \<Rightarrow> int \<Rightarrow> bool \<Rightarrow> upload_service \<Rightarrow> storage_error + unit" where
  "check_accepts env amount require_free_for_size s =
     (let p = us_policy s; (total_bytes, file_count) = current_usage s;
          total_after = total_bytes + us_reserved_bytes s + amount;
          file_count_after = file_count + us_reserved_files s + 1;
          limited = (sp_max_total_bytes p \<noteq> None \<or> sp_max_file_count p \<noteq> None);
          required_free = sp_reserved_free_bytes p + dr_unallocated env +
            (if require_free_for_size then us_reserved_bytes s + amount else 0)
      in if amount < 0 then Inl Negative_Size
         else if limited \<and> (case sp_max_total_bytes p of None \<Rightarrow> False | Some m \<Rightarrow> m < total_after) then Inl Quota_Bytes
         else if limited \<and> (case sp_max_file_count p of None \<Rightarrow> False | Some m \<Rightarrow> m < file_count_after) then Inl Quota_Files
         else if dr_free env < required_free then Inl Quota_Free_Space
         else Inr ())"

definition reserve_upload :: "disk_reading \<Rightarrow> int \<Rightarrow> upload_service \<Rightarrow> storage_error + upload_service" where
  "reserve_upload env amount s =
     (case check_accepts env amount True s of
        Inl e \<Rightarrow> Inl e
      | Inr _ \<Rightarrow> Inr (s\<lparr>us_reserved_bytes := us_reserved_bytes s + amount, us_reserved_files := us_reserved_files s + 1\<rparr>))"

definition release_upload :: "int \<Rightarrow> upload_service \<Rightarrow> upload_service" where
  "release_upload amount s =
     s\<lparr>us_reserved_bytes := us_reserved_bytes s - amount, us_reserved_files := us_reserved_files s - 1\<rparr>"

text \<open>\<open>capacity()\<close>: the fields that depend on more than the policy.\<close>

record capacity_report =
  cr_used_bytes :: int
  cr_available_bytes :: int
  cr_file_count :: int
  cr_remaining_files :: "int option"

definition capacity :: "disk_reading \<Rightarrow> upload_service \<Rightarrow> capacity_report" where
  "capacity env s =
     (let p = us_policy s; (total_bytes, file_count) = current_usage s;
          available0 = max 0 (dr_free env - sp_reserved_free_bytes p - us_reserved_bytes s - dr_unallocated env);
          available = (case sp_max_total_bytes p of None \<Rightarrow> available0
                       | Some m \<Rightarrow> min available0 (max 0 (m - total_bytes - us_reserved_bytes s)));
          remaining = (case sp_max_file_count p of None \<Rightarrow> None
                       | Some m \<Rightarrow> Some (max 0 (m - file_count - us_reserved_files s)))
      in \<lparr>cr_used_bytes = total_bytes, cr_available_bytes = available, cr_file_count = file_count,
          cr_remaining_files = remaining\<rparr>)"

subsection \<open>Publishing\<close>

text \<open>\<open>_filename_with_unique_suffix\<close>: \<open>name.rsplit(".", 1)\<close> and a random suffix before the extension.\<close>

definition rsplit_dot :: "string \<Rightarrow> (string \<times> string) option" where
  "rsplit_dot s =
     (if CHR ''.'' \<in> set s
      then Some (rev (tl (dropWhile (\<lambda>c. c \<noteq> CHR ''.'') (rev s))), rev (takeWhile (\<lambda>c. c \<noteq> CHR ''.'') (rev s)))
      else None)"

definition filename_with_unique_suffix :: "string \<Rightarrow> string \<Rightarrow> string" where
  "filename_with_unique_suffix sfx name =
     (case rsplit_dot name of
        Some (stem, ext) \<Rightarrow> stem @ ''_'' @ sfx @ ''.'' @ ext
      | None \<Rightarrow> name @ ''_'' @ sfx)"

text \<open>\<open>_link_unique_temp\<close>: \<open>sfx i\<close> is the random text of attempt \<open>i\<close>, \<open>link_error i\<close> the error other than
  \<open>FileExistsError\<close> that the \<open>i\<close>-th \<open>os.link\<close> meets, if any. A name is taken by a file, by another entry (a directory, a link),
  or if it is \<open>..\<close>.\<close>

fun link_loop ::
  "nat \<Rightarrow> nat \<Rightarrow> (nat \<Rightarrow> string) \<Rightarrow> (nat \<Rightarrow> storage_error option) \<Rightarrow> string \<Rightarrow> string \<Rightarrow> bytes \<Rightarrow> string list
     \<Rightarrow> (string, bytes) dict \<Rightarrow> storage_error + (string \<times> (string, bytes) dict)"
where
  "link_loop 0 i sfx link_error name candidate content entries files = Inl Name_Exhausted"
| "link_loop (Suc n) i sfx link_error name candidate content entries files =
     (case link_error i of
        Some e \<Rightarrow> Inl e
      | None \<Rightarrow>
          if dict_get files candidate = None \<and> candidate \<notin> set entries \<and> candidate \<noteq> ''..''
          then Inr (candidate, dict_set candidate content files)
          else link_loop n (Suc i) sfx link_error name (filename_with_unique_suffix (sfx i) name) content entries files)"

text \<open>The three sections of \<open>publish_bytes\<close>. The first fails before the \<open>try\<close>, the others release in \<open>finally\<close>.\<close>

definition publish_begin ::
  "disk_reading \<Rightarrow> nat \<Rightarrow> bool \<Rightarrow> string \<Rightarrow> bytes \<Rightarrow> upload_service \<Rightarrow> storage_error + upload_service" where
  "publish_begin env call in_upload_dir name content s =
     (if \<not> in_upload_dir then Inl Bad_Destination
      else case reserve_upload env (size_of content) s of
        Inl e \<Rightarrow> Inl e
      | Inr s1 \<Rightarrow> Inr (s1\<lparr>us_inflight := dict_set call (name, content) (us_inflight s1)\<rparr>))"

definition publish_abort :: "nat \<Rightarrow> upload_service \<Rightarrow> upload_service" where
  "publish_abort call s =
     (case dict_get (us_inflight s) call of
        None \<Rightarrow> s
      | Some (name, content) \<Rightarrow> release_upload (size_of content) (s\<lparr>us_inflight := dict_del call (us_inflight s)\<rparr>))"

definition publish_commit ::
  "disk_reading \<Rightarrow> nat \<Rightarrow> int \<Rightarrow> (nat \<Rightarrow> string) \<Rightarrow> (nat \<Rightarrow> storage_error option) \<Rightarrow> upload_service
     \<Rightarrow> upload_service \<times> (storage_error + string) option"
where
  "publish_commit env call max_attempts sfx link_error s =
     (case dict_get (us_inflight s) call of
        None \<Rightarrow> (s, None)
      | Some (name, content) \<Rightarrow>
          (let s1 = release_upload (size_of content) (s\<lparr>us_inflight := dict_del call (us_inflight s)\<rparr>)
           in case check_accepts env (size_of content) False s1 of
                Inl e \<Rightarrow> (s1, Some (Inl e))
              | Inr _ \<Rightarrow>
                  (case link_loop (nat (max 1 max_attempts)) 0 sfx link_error name name content (us_entries s1) (us_files s1) of
                     Inl e \<Rightarrow> (s1, Some (Inl e))
                   | Inr (published, files) \<Rightarrow> (s1\<lparr>us_files := files\<rparr>, Some (Inr published)))))"

subsection \<open>Histories\<close>

text \<open>\<open>Temp_Failed\<close>: \<open>_write_temp_file\<close> raises. \<open>Context_Write\<close>: a multi-step writer creates its file, no larger than what it
  reserved. \<open>Delete_File\<close>, \<open>Nested_Remove\<close> and \<open>Nested_Move\<close> are what happens under \<open>mutation()\<close>. The last three are writers that do
  not ask this service: generated pages, directories and links made by an operator.\<close>

datatype storage_event =
    Publish_Begin disk_reading nat bool string bytes
  | Temp_Failed nat
  | Publish_Commit disk_reading nat int "nat \<Rightarrow> string" "nat \<Rightarrow> storage_error option"
  | Context_Enter disk_reading nat int
  | Context_Write nat "string list" nat
  | Context_Exit nat
  | Delete_File string
  | Nested_Remove "string list"
  | Nested_Move "string list" "string list"
  | Other_Write string bytes
  | Nested_Write "string list" nat
  | Entries_Changed "string list"

fun storage_step :: "upload_service \<Rightarrow> storage_event \<Rightarrow> upload_service" where
  "storage_step s (Publish_Begin env call ok name content) =
     (if dict_get (us_inflight s) call \<noteq> None then s
      else case publish_begin env call ok name content s of Inl _ \<Rightarrow> s | Inr s' \<Rightarrow> s')"
| "storage_step s (Temp_Failed call) = publish_abort call s"
| "storage_step s (Publish_Commit env call n sfx err) = fst (publish_commit env call n sfx err s)"
| "storage_step s (Context_Enter env call amount) =
     (if dict_get (us_contexts s) call \<noteq> None then s
      else case reserve_upload env amount s of
        Inl _ \<Rightarrow> s | Inr s' \<Rightarrow> s'\<lparr>us_contexts := dict_set call (amount, None) (us_contexts s')\<rparr>)"
| "storage_step s (Context_Write call path n) =
     (case dict_get (us_contexts s) call of
        Some (amount, None) \<Rightarrow>
          if int n \<le> amount
          then s\<lparr>us_nested := dict_set path n (us_nested s), us_contexts := dict_set call (amount, Some (int n)) (us_contexts s)\<rparr>
          else s
      | _ \<Rightarrow> s)"
| "storage_step s (Context_Exit call) =
     (case dict_get (us_contexts s) call of
        None \<Rightarrow> s | Some (amount, _) \<Rightarrow> release_upload amount (s\<lparr>us_contexts := dict_del call (us_contexts s)\<rparr>))"
| "storage_step s (Delete_File name) = s\<lparr>us_files := dict_del name (us_files s)\<rparr>"
| "storage_step s (Nested_Remove path) = s\<lparr>us_nested := dict_del path (us_nested s)\<rparr>"
| "storage_step s (Nested_Move path target) =
     (case dict_get (us_nested s) path of
        Some n \<Rightarrow> if is_service_temp_path (last path) then s else s\<lparr>us_nested := dict_set target n (dict_del path (us_nested s))\<rparr>
      | None \<Rightarrow> s)"
| "storage_step s (Other_Write name content) = s\<lparr>us_files := dict_set name content (us_files s)\<rparr>"
| "storage_step s (Nested_Write path n) = s\<lparr>us_nested := dict_set path n (us_nested s)\<rparr>"
| "storage_step s (Entries_Changed names) = s\<lparr>us_entries := names\<rparr>"

definition storage_run :: "upload_service \<Rightarrow> storage_event list \<Rightarrow> upload_service" where
  "storage_run = foldl storage_step"

text \<open>What a history writes without asking the service.\<close>

fun unasked_bytes :: "storage_event \<Rightarrow> int" where
  "unasked_bytes (Other_Write name content) = size_of content" | "unasked_bytes (Nested_Write path n) = int n" | "unasked_bytes _ = 0"

fun unasked_files :: "storage_event \<Rightarrow> int" where
  "unasked_files (Other_Write name content) = 1" | "unasked_files (Nested_Write path n) = 1" | "unasked_files _ = 0"

subsection \<open>The invariant\<close>

definition outstanding_bytes :: "upload_service \<Rightarrow> int" where
  "outstanding_bytes s = dict_sum (\<lambda>(n, d). size_of d) (us_inflight s) + dict_sum fst (us_contexts s)"

definition outstanding_files :: "upload_service \<Rightarrow> int" where
  "outstanding_files s = int (length (us_inflight s)) + int (length (us_contexts s))"

text \<open>What the open contexts have written out of what they reserved: it is counted and still reserved.\<close>

definition written_bytes :: "upload_service \<Rightarrow> int" where
  "written_bytes s = dict_sum (\<lambda>(a, w). case w of None \<Rightarrow> 0 | Some n \<Rightarrow> n) (us_contexts s)"

definition written_files :: "upload_service \<Rightarrow> int" where
  "written_files s = dict_sum (\<lambda>(a, w). if w = None then 0 else 1) (us_contexts s)"

abbreviation used_bytes :: "upload_service \<Rightarrow> int" where "used_bytes s \<equiv> fst (current_usage s)"
abbreviation used_files :: "upload_service \<Rightarrow> int" where "used_files s \<equiv> snd (current_usage s)"

text \<open>The limits, with an allowance for what was written unasked.\<close>

definition within_quota :: "int \<Rightarrow> int \<Rightarrow> upload_service \<Rightarrow> bool" where
  "within_quota xb xf s \<longleftrightarrow>
     (case sp_max_total_bytes (us_policy s) of None \<Rightarrow> True
      | Some m \<Rightarrow> used_bytes s + us_reserved_bytes s - written_bytes s \<le> m + xb) \<and>
     (case sp_max_file_count (us_policy s) of None \<Rightarrow> True
      | Some m \<Rightarrow> used_files s + us_reserved_files s - written_files s \<le> m + xf)"

definition context_ok :: "int \<times> int option \<Rightarrow> bool" where
  "context_ok c \<longleftrightarrow> 0 \<le> fst c \<and> (\<forall>n \<in> set_option (snd c). 0 \<le> n \<and> n \<le> fst c)"

definition storage_inv :: "int \<Rightarrow> int \<Rightarrow> upload_service \<Rightarrow> bool" where
  "storage_inv xb xf s \<longleftrightarrow> dict_ok (us_files s) \<and> dict_ok (us_nested s) \<and> dict_ok (us_inflight s) \<and> dict_ok (us_contexts s) \<and>
     (\<forall>x \<in> set (us_contexts s). context_ok (snd x)) \<and> 0 \<le> xb \<and> 0 \<le> xf \<and>
     us_reserved_bytes s = outstanding_bytes s \<and> us_reserved_files s = outstanding_files s \<and> within_quota xb xf s"

text \<open>Usage depends on the files only.\<close>

lemma usage_frame [simp]:
  "current_usage (s\<lparr>us_reserved_bytes := a\<rparr>) = current_usage s" "current_usage (s\<lparr>us_reserved_files := a\<rparr>) = current_usage s"
  "current_usage (s\<lparr>us_inflight := b\<rparr>) = current_usage s" "current_usage (s\<lparr>us_contexts := c\<rparr>) = current_usage s"
  "current_usage (s\<lparr>us_entries := h\<rparr>) = current_usage s"
  by (simp_all add: current_usage_def counted_files_def counted_nested_def)

lemma within_quota_frame:
  "within_quota xb xf s \<Longrightarrow> us_policy t = us_policy s \<Longrightarrow> used_bytes t + us_reserved_bytes t - written_bytes t \<le> used_bytes s + us_reserved_bytes s - written_bytes s + yb \<Longrightarrow>
     used_files t + us_reserved_files t - written_files t \<le> used_files s + us_reserved_files s - written_files s + yf \<Longrightarrow> within_quota (xb + yb) (xf + yf) t"
  by (auto simp: within_quota_def split: option.splits)

lemma size_of_nonneg [simp]: "0 \<le> size_of d" by (simp add: size_of_def)

lemma written_nonneg:
  assumes "\<forall>x \<in> set (us_contexts s). context_ok (snd x)"
  shows "0 \<le> written_bytes s" "0 \<le> written_files s"
  using assms by (auto simp: written_bytes_def written_files_def context_ok_def intro!: dict_sum_nonneg split: option.splits)

lemma counted_set_le:
  assumes "\<And>v. 0 \<le> f v"
  shows "dict_sum f (filter P (dict_set k v d)) \<le> dict_sum f (filter P d) + f v"
    "length (filter P (dict_set k v d)) \<le> Suc (length (filter P d))"
proof -
  have "dict_sum f (filter P (dict_set k v d)) \<le> dict_sum f (filter P d) + f v \<and> length (filter P (dict_set k v d)) \<le> Suc (length (filter P d))"
    by (induction d) (auto simp: assms add_increasing add_increasing2)
  then show "dict_sum f (filter P (dict_set k v d)) \<le> dict_sum f (filter P d) + f v"
    "length (filter P (dict_set k v d)) \<le> Suc (length (filter P d))" by blast+
qed

lemma counted_del_le:
  assumes "\<And>v. 0 \<le> f v"
  shows "dict_sum f (filter P (dict_del k d)) \<le> dict_sum f (filter P d)"
    "length (filter P (dict_del k d)) \<le> length (filter P d)"
proof -
  have "dict_sum f (filter P (dict_del k d)) \<le> dict_sum f (filter P d) \<and> length (filter P (dict_del k d)) \<le> length (filter P d)"
    by (induction d) (auto simp: assms add_increasing)
  then show "dict_sum f (filter P (dict_del k d)) \<le> dict_sum f (filter P d)"
    "length (filter P (dict_del k d)) \<le> length (filter P d)" by blast+
qed

lemma counted_del_present:
  assumes "dict_ok d" "dict_get d k = Some v" "P (k, v)"
  shows "dict_sum f (filter P (dict_del k d)) = dict_sum f (filter P d) - f v"
    "int (length (filter P (dict_del k d))) = int (length (filter P d)) - 1"
proof -
  have "dict_sum f (filter P (dict_del k d)) = dict_sum f (filter P d) - f v \<and>
      int (length (filter P (dict_del k d))) = int (length (filter P d)) - 1"
    using assms by (induction d) (auto simp: delete_id split: if_splits)
  then show "dict_sum f (filter P (dict_del k d)) = dict_sum f (filter P d) - f v"
    "int (length (filter P (dict_del k d))) = int (length (filter P d)) - 1" by blast+
qed

lemma dict_set_values: "\<forall>x \<in> set d. P (snd x) \<Longrightarrow> P v \<Longrightarrow> \<forall>x \<in> set (dict_set k v d). P (snd x)"
  using set_dict_set_subset[of k v d] by fastforce

lemma used_files_set:
  "used_bytes (s\<lparr>us_files := dict_set n c (us_files s)\<rparr>) \<le> used_bytes s + size_of c"
  "used_files (s\<lparr>us_files := dict_set n c (us_files s)\<rparr>) \<le> used_files s + 1"
  using counted_set_le[of size_of "\<lambda>x. \<not> is_service_temp_path (fst x)" n c "us_files s"]
  by (simp_all add: current_usage_def counted_files_def counted_nested_def)

lemma used_nested_set:
  "used_bytes (s\<lparr>us_nested := dict_set q k (us_nested s)\<rparr>) \<le> used_bytes s + int k"
  "used_files (s\<lparr>us_nested := dict_set q k (us_nested s)\<rparr>) \<le> used_files s + 1"
  using counted_set_le[of int "\<lambda>x. \<not> is_service_temp_path (last (fst x))" q k "us_nested s"]
  by (simp_all add: current_usage_def counted_files_def counted_nested_def)

lemma used_files_del:
  "used_bytes (s\<lparr>us_files := dict_del n (us_files s)\<rparr>) \<le> used_bytes s"
  "used_files (s\<lparr>us_files := dict_del n (us_files s)\<rparr>) \<le> used_files s"
  using counted_del_le[of size_of "\<lambda>x. \<not> is_service_temp_path (fst x)" n "us_files s"]
  by (simp_all add: current_usage_def counted_files_def counted_nested_def)

lemma used_nested_del:
  "used_bytes (s\<lparr>us_nested := dict_del q (us_nested s)\<rparr>) \<le> used_bytes s"
  "used_files (s\<lparr>us_nested := dict_del q (us_nested s)\<rparr>) \<le> used_files s"
  using counted_del_le[of int "\<lambda>x. \<not> is_service_temp_path (last (fst x))" q "us_nested s"]
  by (simp_all add: current_usage_def counted_files_def counted_nested_def)

lemma used_nested_move:
  assumes "dict_ok (us_nested s)" "dict_get (us_nested s) q = Some k" "\<not> is_service_temp_path (last q)"
  shows "used_bytes (s\<lparr>us_nested := dict_set r k (dict_del q (us_nested s))\<rparr>) \<le> used_bytes s"
    "used_files (s\<lparr>us_nested := dict_set r k (dict_del q (us_nested s))\<rparr>) \<le> used_files s"
  using counted_set_le[of int "\<lambda>x. \<not> is_service_temp_path (last (fst x))" r k "dict_del q (us_nested s)"]
    counted_del_present(1)[OF assms(1,2), of "\<lambda>x. \<not> is_service_temp_path (last (fst x))" int]
    counted_del_present(2)[OF assms(1,2), of "\<lambda>x. \<not> is_service_temp_path (last (fst x))"] assms(3)
  by (simp_all add: current_usage_def counted_files_def counted_nested_def)

lemma length_dict_del_present: "dict_ok d \<Longrightarrow> dict_get d k = Some v \<Longrightarrow> int (length (dict_del k d)) = int (length d) - 1"
  using counted_del_present(2)[of d k v "\<lambda>_. True"] by simp

lemma check_accepts_ok:
  assumes "check_accepts env amount full s = Inr u"
  shows "0 \<le> amount"
    "sp_max_total_bytes (us_policy s) = Some m \<Longrightarrow> used_bytes s + us_reserved_bytes s + amount \<le> m"
    "sp_max_file_count (us_policy s) = Some k \<Longrightarrow> used_files s + us_reserved_files s + 1 \<le> k"
  using assms by (auto simp: check_accepts_def Let_def split: if_splits prod.splits)

lemma accepted_within:
  assumes "check_accepts env amount full s = Inr u" "0 \<le> xb" "0 \<le> xf" "us_policy t = us_policy s"
    "\<forall>x \<in> set (us_contexts t). context_ok (snd x)"
    "used_bytes t + us_reserved_bytes t \<le> used_bytes s + us_reserved_bytes s + amount"
    "used_files t + us_reserved_files t \<le> used_files s + us_reserved_files s + 1"
  shows "within_quota xb xf t"
proof -
  have "sp_max_total_bytes (us_policy t) = Some m \<Longrightarrow> used_bytes t + us_reserved_bytes t - written_bytes t \<le> m + xb" for m
    using check_accepts_ok(2)[OF assms(1), of m] written_nonneg(1)[OF assms(5)] assms(2,4,6) by simp
  moreover have "sp_max_file_count (us_policy t) = Some k \<Longrightarrow> used_files t + us_reserved_files t - written_files t \<le> k + xf" for k
    using check_accepts_ok(3)[OF assms(1), of k] written_nonneg(2)[OF assms(5)] assms(3,4,7) by simp
  ultimately show ?thesis by (auto simp: within_quota_def split: option.splits)
qed

lemma link_loop_result:
  "link_loop n i sfx err name cand content entries files = Inr (p, files') \<Longrightarrow>
     dict_get files p = None \<and> p \<notin> set entries \<and> files' = dict_set p content files"
  by (induction n arbitrary: i cand) (auto split: option.splits if_splits)

lemma reserve_ok:
  assumes "storage_inv xb xf s" "reserve_upload env amount s = Inr s'"
  shows "0 \<le> amount" "s' = s\<lparr>us_reserved_bytes := us_reserved_bytes s + amount, us_reserved_files := us_reserved_files s + 1\<rparr>"
    "\<forall>x \<in> set (us_contexts t). context_ok (snd x) \<Longrightarrow> us_policy t = us_policy s \<Longrightarrow> current_usage t = current_usage s \<Longrightarrow>
       us_reserved_bytes t = us_reserved_bytes s' \<Longrightarrow> us_reserved_files t = us_reserved_files s' \<Longrightarrow> within_quota xb xf t"
proof -
  obtain u where c: "check_accepts env amount True s = Inr u" using assms(2) by (auto simp: reserve_upload_def split: sum.splits)
  then show s': "s' = s\<lparr>us_reserved_bytes := us_reserved_bytes s + amount, us_reserved_files := us_reserved_files s + 1\<rparr>"
    using assms(2) by (simp add: reserve_upload_def)
  show "0 \<le> amount" by (rule check_accepts_ok(1)[OF c])
  show "\<forall>x \<in> set (us_contexts t). context_ok (snd x) \<Longrightarrow> us_policy t = us_policy s \<Longrightarrow> current_usage t = current_usage s \<Longrightarrow>
       us_reserved_bytes t = us_reserved_bytes s' \<Longrightarrow> us_reserved_files t = us_reserved_files s' \<Longrightarrow> within_quota xb xf t"
    by (rule accepted_within[OF c]) (use assms(1) s' in \<open>auto simp: storage_inv_def\<close>)
qed

text \<open>An upload gives its reservation back.\<close>

lemma inflight_released:
  assumes "storage_inv xb xf s" "dict_get (us_inflight s) call = Some (name, content)"
  shows "storage_inv xb xf (release_upload (size_of content) (s\<lparr>us_inflight := dict_del call (us_inflight s)\<rparr>))"
proof -
  let ?t = "release_upload (size_of content) (s\<lparr>us_inflight := dict_del call (us_inflight s)\<rparr>)"
  have "within_quota (xb + 0) (xf + 0) ?t"
    by (rule within_quota_frame[of xb xf s])
      (use assms(1) in \<open>simp_all add: storage_inv_def release_upload_def written_bytes_def written_files_def\<close>)
  then show ?thesis using assms length_dict_del_present[OF _ assms(2)]
    by (simp add: storage_inv_def release_upload_def outstanding_bytes_def outstanding_files_def dict_sum_del)
qed

lemma context_released:
  assumes "storage_inv xb xf s" "dict_get (us_contexts s) call = Some (amount, w)"
  shows "storage_inv xb xf (release_upload amount (s\<lparr>us_contexts := dict_del call (us_contexts s)\<rparr>))"
proof -
  let ?t = "release_upload amount (s\<lparr>us_contexts := dict_del call (us_contexts s)\<rparr>)"
  have d: "dict_ok (us_contexts s)" "context_ok (amount, w)"
    using assms(1) dict_get_SomeD[OF assms(2)] by (auto simp: storage_inv_def)
  have "written_bytes s \<le> written_bytes ?t + amount" "written_files s \<le> written_files ?t + 1"
    using d assms(2) by (auto simp: written_bytes_def written_files_def release_upload_def dict_sum_del context_ok_def split: option.splits)
  then have "within_quota (xb + 0) (xf + 0) ?t"
    by (intro within_quota_frame[of xb xf s]) (use assms(1) in \<open>simp_all add: storage_inv_def release_upload_def\<close>)
  moreover have "\<forall>x \<in> set (us_contexts ?t). context_ok (snd x)"
    using assms(1) set_dict_del_subset[of call "us_contexts s"] by (auto simp: storage_inv_def release_upload_def)
  ultimately show ?thesis using assms length_dict_del_present[OF d(1) assms(2)]
    by (simp add: storage_inv_def release_upload_def outstanding_bytes_def outstanding_files_def dict_sum_del)
qed

lemma context_written:
  assumes "storage_inv xb xf s" "dict_get (us_contexts s) call = Some (amount, None)" "int n \<le> amount"
  shows "storage_inv xb xf (s\<lparr>us_nested := dict_set path n (us_nested s), us_contexts := dict_set call (amount, Some (int n)) (us_contexts s)\<rparr>)"
proof -
  let ?t = "s\<lparr>us_nested := dict_set path n (us_nested s), us_contexts := dict_set call (amount, Some (int n)) (us_contexts s)\<rparr>"
  have d: "dict_ok (us_contexts s)" "length (dict_set call (amount, Some (int n)) (us_contexts s)) = length (us_contexts s)"
    using assms(1) length_dict_set_old[OF assms(2)] by (simp_all add: storage_inv_def)
  have u: "current_usage ?t = current_usage (s\<lparr>us_nested := dict_set path n (us_nested s)\<rparr>)" by simp
  have "written_bytes ?t = written_bytes s + int n" "written_files ?t = written_files s + 1"
    using d(1) assms(2) by (auto simp: written_bytes_def written_files_def dict_sum_set)
  then have "within_quota (xb + 0) (xf + 0) ?t"
    using used_nested_set[of path n s] u by (intro within_quota_frame[of xb xf s]) (use assms(1) in \<open>simp_all add: storage_inv_def\<close>)
  moreover have "\<forall>x \<in> set (us_contexts ?t). context_ok (snd x)"
    using assms dict_get_SomeD[OF assms(2)] dict_set_values[of "us_contexts s" context_ok "(amount, Some (int n))" call]
    by (simp add: storage_inv_def context_ok_def)
  ultimately show ?thesis using assms(1,2) d
    by (simp add: storage_inv_def outstanding_bytes_def outstanding_files_def dict_sum_set)
qed

lemma publish_begin_inv:
  assumes inv: "storage_inv xb xf s" and new: "dict_get (us_inflight s) call = None"
    and r: "publish_begin env call ok name content s = Inr s'"
  shows "storage_inv xb xf s'"
proof -
  obtain s1 where s1: "reserve_upload env (size_of content) s = Inr s1"
    "s' = s1\<lparr>us_inflight := dict_set call (name, content) (us_inflight s1)\<rparr>"
    using r by (auto simp: publish_begin_def split: if_splits sum.splits)
  note ok = reserve_ok[OF inv s1(1)]
  have "within_quota xb xf s'" by (rule ok(3)) (use inv in \<open>simp_all add: s1(2) ok(2) storage_inv_def\<close>)
  then show ?thesis using ok(1,2) inv new
    by (simp add: s1(2) storage_inv_def outstanding_bytes_def outstanding_files_def dict_sum_set length_dict_set_new)
qed

lemma context_enter_inv:
  assumes inv: "storage_inv xb xf s" and new: "dict_get (us_contexts s) call = None" and r: "reserve_upload env amount s = Inr s1"
  shows "storage_inv xb xf (s1\<lparr>us_contexts := dict_set call (amount, None) (us_contexts s1)\<rparr>)"
proof -
  note ok = reserve_ok[OF inv r]
  let ?t = "s1\<lparr>us_contexts := dict_set call (amount, None) (us_contexts s1)\<rparr>"
  have c: "\<forall>x \<in> set (us_contexts ?t). context_ok (snd x)"
    using inv ok(1,2) dict_set_values[of "us_contexts s" context_ok "(amount, None)" call] by (simp add: storage_inv_def context_ok_def)
  have "within_quota xb xf ?t" by (rule ok(3)[OF c]) (simp_all add: ok(2))
  then show ?thesis using ok(1,2) inv new c
    by (simp add: storage_inv_def outstanding_bytes_def outstanding_files_def dict_sum_set length_dict_set_new)
qed

lemma publish_commit_inv:
  assumes inv: "storage_inv xb xf s"
  shows "storage_inv xb xf (fst (publish_commit env call n sfx err s))"
proof (cases "dict_get (us_inflight s) call")
  case None
  then show ?thesis using inv by (simp add: publish_commit_def)
next
  case (Some nc)
  obtain name content where nc: "nc = (name, content)" by fastforce
  define s1 where "s1 = release_upload (size_of content) (s\<lparr>us_inflight := dict_del call (us_inflight s)\<rparr>)"
  have inv1: "storage_inv xb xf s1" using inflight_released[OF inv] Some nc by (simp add: s1_def)
  have link: "storage_inv xb xf (s1\<lparr>us_files := files\<rparr>)"
    if c: "check_accepts env (size_of content) False s1 = Inr u"
      and l: "link_loop k i sfx err name name content (us_entries s1) (us_files s1) = Inr (p, files)" for u k i p files
  proof -
    have f: "files = dict_set p content (us_files s1)" using link_loop_result[OF l] by simp
    have "within_quota xb xf (s1\<lparr>us_files := files\<rparr>)"
      by (rule accepted_within[OF c]) (use inv1 used_files_set[of p content s1] f in \<open>simp_all add: storage_inv_def\<close>)
    then show ?thesis using inv1 f by (simp add: storage_inv_def outstanding_bytes_def outstanding_files_def)
  qed
  show ?thesis
    using Some nc inv1 link unfolding publish_commit_def by (auto simp: s1_def[symmetric] Let_def split: sum.splits prod.splits)
qed

text \<open>A step that changes only the files.\<close>

lemma storage_inv_files:
  assumes "storage_inv xb xf s" "t = s\<lparr>us_files := f, us_nested := g, us_entries := h\<rparr>" "dict_ok f" "dict_ok g"
    "used_bytes t \<le> used_bytes s + yb" "used_files t \<le> used_files s + yf" "0 \<le> yb" "0 \<le> yf"
  shows "storage_inv (xb + yb) (xf + yf) t"
proof -
  have "within_quota (xb + yb) (xf + yf) t"
    by (rule within_quota_frame[of xb xf s]) (use assms in \<open>simp_all add: storage_inv_def written_bytes_def written_files_def\<close>)
  then show ?thesis using assms by (simp add: storage_inv_def outstanding_bytes_def outstanding_files_def)
qed

lemma storage_step_inv:
  assumes inv: "storage_inv xb xf s" shows "storage_inv (xb + unasked_bytes e) (xf + unasked_files e) (storage_step s e)"
proof -
  have d: "dict_ok (us_files s)" "dict_ok (us_nested s)" using inv by (simp_all add: storage_inv_def)
  note files = storage_inv_files[OF inv]
  show ?thesis
  proof (cases e)
    case (Publish_Begin env call ok name content)
    then show ?thesis using inv publish_begin_inv[OF inv, of call env ok name content]
      by (cases "dict_get (us_inflight s) call"; cases "publish_begin env call ok name content s") simp_all
  next
    case (Temp_Failed call)
    then show ?thesis using inv inflight_released[OF inv, of call] by (auto simp: publish_abort_def split: option.splits)
  next
    case (Publish_Commit env call n sfx err)
    then show ?thesis using publish_commit_inv[OF inv] by simp
  next
    case (Context_Enter env call amount)
    then show ?thesis using inv context_enter_inv[OF inv, of call env amount]
      by (cases "dict_get (us_contexts s) call"; cases "reserve_upload env amount s") simp_all
  next
    case (Context_Write call path n)
    then show ?thesis using inv context_written[OF inv, of call _ n path] by (auto split: option.splits)
  next
    case (Context_Exit call)
    then show ?thesis using inv context_released[OF inv, of call] by (auto split: option.splits)
  next
    case (Delete_File name)
    then show ?thesis using d used_files_del[of name s] files[of _ "us_entries s" "us_nested s" "dict_del name (us_files s)" 0 0] by simp
  next
    case (Nested_Remove path)
    then show ?thesis using d used_nested_del[of path s] files[of _ "us_entries s" "dict_del path (us_nested s)" "us_files s" 0 0] by simp
  next
    case (Nested_Move path target)
    then show ?thesis using inv d used_nested_move[OF d(2), of path _ target]
        files[of _ "us_entries s" "dict_set target _ (dict_del path (us_nested s))" "us_files s" 0 0]
      by (auto split: option.splits)
  next
    case (Other_Write name content)
    then show ?thesis using d used_files_set[of name content s]
        files[of _ "us_entries s" "us_nested s" "dict_set name content (us_files s)" "size_of content" 1] by simp
  next
    case (Nested_Write path n)
    then show ?thesis using d used_nested_set[of path n s] files[of _ "us_entries s" "dict_set path n (us_nested s)" "us_files s" "int n" 1] by simp
  next
    case (Entries_Changed names)
    then show ?thesis using d files[of _ names "us_nested s" "us_files s" 0 0] by simp
  qed
qed

lemma storage_run_inv:
  "storage_inv xb xf s \<Longrightarrow> storage_inv (xb + sum_list (map unasked_bytes es)) (xf + sum_list (map unasked_files es)) (storage_run s es)"
proof (induction es arbitrary: s xb xf)
  case (Cons e es)
  from Cons.IH[OF storage_step_inv[OF Cons.prems, of e]] show ?case by (simp add: storage_run_def add.assoc)
qed (simp add: storage_run_def)

lemma us_policy_step [simp]: "us_policy (storage_step s e) = us_policy s"
  by (cases "(s, e)" rule: storage_step.cases)
    (auto simp: publish_begin_def reserve_upload_def publish_abort_def release_upload_def publish_commit_def Let_def
      split: sum.splits option.splits prod.splits)

lemma us_policy_run [simp]: "us_policy (storage_run s es) = us_policy s"
  by (induction es arbitrary: s) (simp_all add: storage_run_def)

subsection \<open>Names like those of temporary files\<close>

text \<open>A name that is no temporary one never becomes one by the suffix.\<close>

lemma prefix_before: "c \<notin> set u \<Longrightarrow> prefix u (a @ c # b) \<Longrightarrow> prefix u a"
  by (auto simp: prefix_append prefix_Cons)

lemma rsplit_dot_Some: "rsplit_dot name = Some (stem, ext) \<Longrightarrow> name = stem @ ''.'' @ ext"
proof -
  assume r: "rsplit_dot name = Some (stem, ext)"
  let ?P = "\<lambda>c. c \<noteq> CHR ''.''"
  have "CHR ''.'' \<in> set (rev name)" using r by (simp add: rsplit_dot_def split: if_splits)
  then have ne: "dropWhile ?P (rev name) \<noteq> []" by (auto simp: dropWhile_eq_Nil_conv)
  then have h: "dropWhile ?P (rev name) = CHR ''.'' # tl (dropWhile ?P (rev name))" using hd_dropWhile[OF ne] by (metis list.collapse)
  have "rev name = takeWhile ?P (rev name) @ CHR ''.'' # tl (dropWhile ?P (rev name))" using h by (metis takeWhile_dropWhile_id)
  then have "name = rev (takeWhile ?P (rev name) @ CHR ''.'' # tl (dropWhile ?P (rev name)))" by (metis rev_rev_ident)
  then show ?thesis using r by (simp add: rsplit_dot_def split: if_splits)
qed

lemma suffix_keeps_counted:
  "is_service_temp_path (filename_with_unique_suffix sfx name) \<Longrightarrow> is_service_temp_path name"
proof (cases "rsplit_dot name")
  case None
  then show "is_service_temp_path (filename_with_unique_suffix sfx name) \<Longrightarrow> is_service_temp_path name"
    using prefix_before[of "CHR ''_''" "''.upload-tmp-''" name sfx] by (simp add: is_service_temp_path_def filename_with_unique_suffix_def)
next
  case (Some x)
  obtain stem ext where x: "x = (stem, ext)" by fastforce
  then have "name = stem @ ''.'' @ ext" using rsplit_dot_Some Some by blast
  then show "is_service_temp_path (filename_with_unique_suffix sfx name) \<Longrightarrow> is_service_temp_path name"
    using prefix_before[of "CHR ''_''" "''.upload-tmp-''" stem "sfx @ ''.'' @ ext"] Some x
    by (simp add: is_service_temp_path_def filename_with_unique_suffix_def)
qed

lemma link_loop_counted:
  "link_loop n i sfx err name cand content entries files = Inr (p, files') \<Longrightarrow> \<not> is_service_temp_path name \<Longrightarrow> \<not> is_service_temp_path cand \<Longrightarrow>
     \<not> is_service_temp_path p"
  by (induction n arbitrary: i cand) (auto split: option.splits if_splits dest: suffix_keeps_counted)

text \<open>A history in which nobody uses such a name.\<close>

fun counted_event :: "storage_event \<Rightarrow> bool" where
  "counted_event (Publish_Begin env call ok name content) = (\<not> is_service_temp_path name)"
| "counted_event (Other_Write name content) = (\<not> is_service_temp_path name)"
| "counted_event (Context_Write call path n) = (\<not> is_service_temp_path (last path))"
| "counted_event (Nested_Write path n) = (\<not> is_service_temp_path (last path))"
| "counted_event (Nested_Move path target) = (\<not> is_service_temp_path (last target))"
| "counted_event _ = True"

definition all_counted :: "upload_service \<Rightarrow> bool" where
  "all_counted s \<longleftrightarrow> (\<forall>n \<in> fst ` set (us_files s). \<not> is_service_temp_path n) \<and>
     (\<forall>q \<in> fst ` set (us_nested s). \<not> is_service_temp_path (last q)) \<and>
     (\<forall>x \<in> set (us_inflight s). \<not> is_service_temp_path (fst (snd x)))"

lemma all_counted_set:
  "all_counted s \<Longrightarrow> \<not> is_service_temp_path n \<Longrightarrow> all_counted (s\<lparr>us_files := dict_set n c (us_files s)\<rparr>)"
  "all_counted s \<Longrightarrow> \<not> is_service_temp_path (last q) \<Longrightarrow> all_counted (s\<lparr>us_nested := dict_set q k (us_nested s)\<rparr>)"
  "all_counted s \<Longrightarrow> \<not> is_service_temp_path n \<Longrightarrow> all_counted (s\<lparr>us_inflight := dict_set call (n, c) (us_inflight s)\<rparr>)"
  using set_dict_set_subset[of n c "us_files s"] set_dict_set_subset[of q k "us_nested s"] set_dict_set_subset[of call "(n, c)" "us_inflight s"]
  by (auto simp: all_counted_def)

lemma all_counted_del:
  "all_counted s \<Longrightarrow> all_counted (s\<lparr>us_files := dict_del n (us_files s)\<rparr>)"
  "all_counted s \<Longrightarrow> all_counted (s\<lparr>us_nested := dict_del q (us_nested s)\<rparr>)"
  "all_counted s \<Longrightarrow> all_counted (s\<lparr>us_inflight := dict_del call (us_inflight s)\<rparr>)"
  by (auto simp: all_counted_def dict_del_filter)

lemma all_counted_frame:
  "us_files t = us_files s \<Longrightarrow> us_nested t = us_nested s \<Longrightarrow> us_inflight t = us_inflight s \<Longrightarrow> all_counted t = all_counted s"
  by (simp add: all_counted_def)

lemma all_counted_release: "all_counted (release_upload a s) = all_counted s"
  by (rule all_counted_frame) (simp_all add: release_upload_def)

lemma all_counted_reserve: "reserve_upload env a s = Inr s' \<Longrightarrow> all_counted s' = all_counted s"
  by (rule all_counted_frame) (auto simp: reserve_upload_def split: sum.splits)

lemma all_counted_commit:
  assumes "all_counted s" shows "all_counted (fst (publish_commit env call n sfx err s))"
proof (cases "dict_get (us_inflight s) call")
  case (Some nc)
  obtain name content where nc: "nc = (name, content)" by fastforce
  define s1 where "s1 = release_upload (size_of content) (s\<lparr>us_inflight := dict_del call (us_inflight s)\<rparr>)"
  have s1: "all_counted s1" using all_counted_del(3)[OF assms] by (simp add: s1_def all_counted_release)
  have "\<not> is_service_temp_path name" using assms dict_get_SomeD[OF Some] nc by (force simp: all_counted_def)
  then have "all_counted (s1\<lparr>us_files := files\<rparr>)"
    if "link_loop k i sfx err name name content (us_entries s1) (us_files s1) = Inr (p, files)" for k i p files
    using that link_loop_result[OF that] link_loop_counted[OF that] all_counted_set(1)[OF s1] by simp
  then show ?thesis using Some nc s1 unfolding publish_commit_def by (auto simp: s1_def[symmetric] Let_def split: sum.splits prod.splits)
qed (simp add: publish_commit_def assms)

lemma all_counted_step: "all_counted s \<Longrightarrow> counted_event e \<Longrightarrow> all_counted (storage_step s e)"
proof (cases e)
  case (Publish_Begin env call ok name content)
  moreover assume "all_counted s" "counted_event e"
  ultimately show ?thesis
    using all_counted_set(3) all_counted_reserve by (auto simp: publish_begin_def split: sum.splits)
next
  case (Temp_Failed call)
  moreover assume "all_counted s"
  ultimately show ?thesis using all_counted_del(3) by (auto simp: publish_abort_def all_counted_release split: option.splits)
next
  case (Publish_Commit env call n sfx err)
  moreover assume "all_counted s"
  ultimately show ?thesis using all_counted_commit by simp
next
  case (Context_Enter env call amount)
  moreover assume "all_counted s"
  ultimately show ?thesis using all_counted_reserve by (auto simp: all_counted_def split: sum.splits)
next
  case (Context_Write call path n)
  moreover assume "all_counted s" "counted_event e"
  ultimately show ?thesis using all_counted_set(2)[of s path n] by (auto simp: all_counted_def split: option.splits)
next
  case (Context_Exit call)
  moreover assume "all_counted s"
  ultimately show ?thesis using all_counted_frame[of "s\<lparr>us_contexts := dict_del call (us_contexts s)\<rparr>" s]
    by (auto simp: all_counted_release split: option.splits)
next
  case (Nested_Move path target)
  moreover assume "all_counted s" "counted_event e"
  ultimately show ?thesis using all_counted_set(2)[OF all_counted_del(2)[of s path], of target] by (auto split: option.splits)
next
  case (Entries_Changed names)
  moreover assume "all_counted s"
  ultimately show ?thesis using all_counted_frame[of "s\<lparr>us_entries := names\<rparr>" s] by simp
qed (simp_all add: all_counted_set all_counted_del)

lemma all_counted_run: "all_counted s \<Longrightarrow> list_all counted_event es \<Longrightarrow> all_counted (storage_run s es)"
  by (induction es arbitrary: s) (simp_all add: storage_run_def all_counted_step)

lemma all_counted_usage:
  "all_counted s \<Longrightarrow> current_usage s = (dict_sum size_of (us_files s) + dict_sum int (us_nested s), int (length (us_files s) + length (us_nested s)))"
proof -
  assume "all_counted s"
  then have "counted_files s = us_files s" "counted_nested s = us_nested s"
    by (auto simp: counted_files_def counted_nested_def all_counted_def intro!: filter_True)
  then show ?thesis by (simp add: current_usage_def)
qed

subsection \<open>Properties\<close>

text \<open>C15. The upload quota holds whatever interleaves. Starting from a usage within the limits, after any mixture of concurrent
  uploads, failed temporary writes, commits, reservation contexts, deletions and renames, the counted files together with everything
  reserved and not yet written stay within \<open>max_total_bytes\<close> and \<open>max_file_count\<close>, exceeded at most by what others wrote without asking
  the service; the reservation counters are exactly the sizes and the number of the uploads and contexts still open, so
  that no failure path leaks or double-frees a reservation. What is counted is every file except those whose name begins with
  \<^verbatim>\<open>.upload-tmp-\<close>; if no file, upload or writer uses such a name, it is every file of the directory.\<close>

theorem upload_quota_holds:
  assumes "storage_policy_make max_total max_files free = Inr p" and "dict_ok files" and "dict_ok nested"
    and s0: "s0 = upload_service_init p files nested entries"
    and "case max_total of None \<Rightarrow> True | Some m \<Rightarrow> used_bytes s0 \<le> m"
    and "case max_files of None \<Rightarrow> True | Some m \<Rightarrow> used_files s0 \<le> m"
    and "storage_run s0 es = s"
  shows "us_reserved_bytes s = outstanding_bytes s \<and> us_reserved_files s = outstanding_files s \<and>
    (case max_total of None \<Rightarrow> True
     | Some m \<Rightarrow> used_bytes s + (outstanding_bytes s - written_bytes s) \<le> m + sum_list (map unasked_bytes es)) \<and>
    (case max_files of None \<Rightarrow> True
     | Some m \<Rightarrow> used_files s + (outstanding_files s - written_files s) \<le> m + sum_list (map unasked_files es)) \<and>
    (all_counted s0 \<and> list_all counted_event es \<longrightarrow>
       current_usage s = (dict_sum size_of (us_files s) + dict_sum int (us_nested s), int (length (us_files s) + length (us_nested s))))"
proof -
  have p: "sp_max_total_bytes p = max_total" "sp_max_file_count p = max_files"
    using assms(1) by (auto simp: storage_policy_make_def split: if_splits)
  have pol: "us_policy s0 = p" "us_policy s = p" by (simp_all add: assms(7)[symmetric] s0 upload_service_init_def)
  have z: "us_reserved_bytes s0 = 0" "us_reserved_files s0 = 0" "us_inflight s0 = []" "us_contexts s0 = []" "us_files s0 = files" "us_nested s0 = nested"
    by (simp_all add: s0 upload_service_init_def)
  have "storage_inv 0 0 s0" using assms(2,3,5,6) p
    by (simp add: storage_inv_def z pol outstanding_bytes_def outstanding_files_def within_quota_def written_bytes_def written_files_def split: option.splits)
  then have "storage_inv (0 + sum_list (map unasked_bytes es)) (0 + sum_list (map unasked_files es)) s"
    unfolding assms(7)[symmetric] by (rule storage_run_inv)
  moreover have "all_counted s0 \<and> list_all counted_event es \<longrightarrow> all_counted s" using all_counted_run[of s0 es] assms(7) by auto
  ultimately show ?thesis using p pol all_counted_usage by (auto simp: storage_inv_def within_quota_def split: option.splits)
qed

definition roomy :: disk_reading where "roomy = \<lparr>dr_free = 1000, dr_unallocated = 0\<rparr>"

definition limited_policy :: storage_policy where
  "limited_policy = \<lparr>sp_max_total_bytes = Some 5, sp_max_file_count = Some 2, sp_reserved_free_bytes = 0\<rparr>"

lemma upload_quota_holds_witness:
  "let s = storage_run (upload_service_init limited_policy [(''a'', [1, 2])] [] [])
       [Publish_Begin roomy 0 True ''a'' [7, 8, 9], Publish_Commit roomy 0 64 (\<lambda>_. ''0f'') (\<lambda>_. None)]
   in us_reserved_bytes s = outstanding_bytes s \<and> us_reserved_files s = outstanding_files s \<and>
     used_bytes s + (outstanding_bytes s - written_bytes s) \<le> 5 \<and> used_files s + (outstanding_files s - written_files s) \<le> 2"
  using upload_quota_holds[of "Some 5" "Some 2" 0 limited_policy "[(''a'', [1, 2])]" "[]" _ "[]"
      "[Publish_Begin roomy 0 True ''a'' [7, 8, 9], Publish_Commit roomy 0 64 (\<lambda>_. ''0f'') (\<lambda>_. None)]", OF _ _ _ refl _ _ refl]
  by (simp add: storage_policy_make_def limited_policy_def size_of_def Let_def current_usage_def counted_files_def counted_nested_def
      is_service_temp_path_def upload_service_init_def)

lemma link_loop_free:
  "0 < n \<Longrightarrow> dict_get files name = None \<Longrightarrow> name \<notin> set entries \<Longrightarrow> name \<noteq> ''..'' \<Longrightarrow>
     link_loop n i sfx (\<lambda>_. None) name name content entries files = Inr (name, files @ [(name, content)])"
  by (cases n) (simp_all add: dict_set_new)

text \<open>The exception is real. A client may name its upload like a temporary file, and the directory then grows past any limit: every
  number of such uploads is accepted, one after the other, under the smallest limits that admit one.\<close>

definition service_name :: "nat \<Rightarrow> string" where "service_name i = ''.upload-tmp-'' @ replicate i CHR ''a''"

definition service_uploads :: "disk_reading \<Rightarrow> nat \<Rightarrow> storage_event list" where
  "service_uploads env n =
     concat (map (\<lambda>i. [Publish_Begin env 0 True (service_name i) [0], Publish_Commit env 0 64 (\<lambda>_. []) (\<lambda>_. None)]) [0..<n])"

theorem service_names_escape_quota:
  assumes "storage_policy_make (Some m) (Some k) free = Inr p" "1 \<le> m" "1 \<le> k" and env: "env = \<lparr>dr_free = free + 1, dr_unallocated = 0\<rparr>"
  shows "us_files (storage_run (upload_service_init p [] [] []) (service_uploads env n)) = map (\<lambda>i. (service_name i, [0])) [0..<n] \<and>
    used_bytes (storage_run (upload_service_init p [] [] []) (service_uploads env n)) = 0"
proof -
  have p: "sp_max_total_bytes p = Some m" "sp_max_file_count p = Some k" "sp_reserved_free_bytes p = free"
    using assms(1) by (auto simp: storage_policy_make_def split: if_splits)
  let ?st = "\<lambda>n. \<lparr>us_policy = p, us_files = map (\<lambda>i. (service_name i, [0])) [0..<n], us_nested = [], us_entries = [],
     us_reserved_bytes = 0, us_reserved_files = 0, us_inflight = [], us_contexts = []\<rparr> :: upload_service"
  have names: "is_service_temp_path (service_name i)" "service_name i \<noteq> ''..''" for i
    by (simp_all add: is_service_temp_path_def service_name_def)
  have usage: "counted_files (?st n) = []" "counted_nested (?st n) = []" for n
    by (auto simp: counted_files_def counted_nested_def names filter_empty_conv)
  have new: "dict_get (us_files (?st n)) (service_name n) = None" for n
    by (auto simp: map_of_eq_None_iff service_name_def)
  have "storage_run (upload_service_init p [] [] []) (service_uploads env n) = ?st n"
  proof (induction n)
    case (Suc n)
    let ?t = "(?st n)\<lparr>us_reserved_bytes := 1, us_reserved_files := 1, us_inflight := [(0, (service_name n, [0]))]\<rparr>"
    have u: "current_usage (?st n) = (0, 0)" "current_usage ?t = (0, 0)" using usage[of n] by (simp_all add: current_usage_def counted_files_def counted_nested_def)
    have begun: "storage_step (?st n) (Publish_Begin env 0 True (service_name n) [0]) = ?t"
      using u(1) assms(2,3) by (simp add: publish_begin_def reserve_upload_def check_accepts_def p env size_of_def)
    have rel: "release_upload (size_of [0]) (?t\<lparr>us_inflight := dict_del 0 (us_inflight ?t)\<rparr>) = ?st n"
      by (simp add: release_upload_def size_of_def)
    have acc: "check_accepts env (size_of [0]) False (?st n) = Inr ()"
      using u(1) assms(2,3) by (simp add: check_accepts_def p env size_of_def)
    have "link_loop (nat (max 1 64)) 0 (\<lambda>_. []) (\<lambda>_. None) (service_name n) (service_name n) [0] [] (us_files (?st n)) =
        Inr (service_name n, us_files (?st n) @ [(service_name n, [0])])"
      by (rule link_loop_free) (use new[of n] names(2)[of n] in simp_all)
    then have commit: "storage_step ?t (Publish_Commit env 0 64 (\<lambda>_. []) (\<lambda>_. None)) = ?st (Suc n)"
      using rel acc by (simp add: publish_commit_def)
    have "service_uploads env (Suc n) = service_uploads env n @ [Publish_Begin env 0 True (service_name n) [0], Publish_Commit env 0 64 (\<lambda>_. []) (\<lambda>_. None)]"
      by (simp add: service_uploads_def)
    then have "storage_run (upload_service_init p [] [] []) (service_uploads env (Suc n)) =
        storage_step (storage_step (?st n) (Publish_Begin env 0 True (service_name n) [0])) (Publish_Commit env 0 64 (\<lambda>_. []) (\<lambda>_. None))"
      using Suc by (simp add: storage_run_def)
    then show ?case unfolding begun commit .
  qed (simp add: storage_run_def service_uploads_def upload_service_init_def)
  then show ?thesis using usage[of n] by (simp add: current_usage_def)
qed

text \<open>C16. Publishing never overwrites: a commit either fails and leaves every file as it was, or it adds exactly one
  file, under the requested name or one derived from it that did not exist, which no directory or link had either, holding exactly the data given
  when the upload was reserved, and leaves every other file as it was; in both cases that upload's
  reservation is returned exactly once.\<close>

theorem publish_never_overwrites:
  assumes "publish_commit env call n sfx err s = (s', Some r)"
  shows "\<exists>name content. dict_get (us_inflight s) call = Some (name, content) \<and>
    us_inflight s' = dict_del call (us_inflight s) \<and>
    us_reserved_bytes s' = us_reserved_bytes s - size_of content \<and> us_reserved_files s' = us_reserved_files s - 1 \<and>
    (case r of
       Inl _ \<Rightarrow> us_files s' = us_files s
     | Inr published \<Rightarrow> dict_get (us_files s) published = None \<and> published \<notin> set (us_entries s) \<and>
         us_files s' = us_files s @ [(published, content)] \<and>
         (published = name \<or> (\<exists>i. published = filename_with_unique_suffix (sfx i) name)))"
proof -
  obtain name content where nc: "dict_get (us_inflight s) call = Some (name, content)"
    using assms by (auto simp: publish_commit_def split: option.splits)
  define s1 where "s1 = release_upload (size_of content) (s\<lparr>us_inflight := dict_del call (us_inflight s)\<rparr>)"
  have s1: "us_files s1 = us_files s" "us_entries s1 = us_entries s" "us_inflight s1 = dict_del call (us_inflight s)"
    "us_reserved_bytes s1 = us_reserved_bytes s - size_of content" "us_reserved_files s1 = us_reserved_files s - 1"
    by (simp_all add: s1_def release_upload_def)
  have name: "p = cand \<or> (\<exists>i. p = filename_with_unique_suffix (sfx i) name)"
    if "link_loop k i sfx err name cand content entries files = Inr (p, files')" for k i cand entries files p files'
    using that by (induction k arbitrary: i cand) (auto split: option.splits if_splits)
  have app: "dict_get files q = None \<Longrightarrow> dict_set q content files = files @ [(q, content)]" for q files
    by (rule dict_set_new)
  have "case r of
       Inl _ \<Rightarrow> s' = s1
     | Inr published \<Rightarrow> dict_get (us_files s) published = None \<and> published \<notin> set (us_entries s) \<and> s' = s1\<lparr>us_files := us_files s @ [(published, content)]\<rparr> \<and>
         (published = name \<or> (\<exists>i. published = filename_with_unique_suffix (sfx i) name))"
  proof (cases r)
    case (Inl e)
    then show ?thesis using assms nc unfolding publish_commit_def
      by (auto simp: s1_def[symmetric] Let_def split: sum.splits prod.splits)
  next
    case (Inr published)
    then obtain files where l: "link_loop (nat (max 1 n)) 0 sfx err name name content (us_entries s1) (us_files s1) = Inr (published, files)"
      "s' = s1\<lparr>us_files := files\<rparr>"
      using assms nc unfolding publish_commit_def by (auto simp: s1_def[symmetric] Let_def split: sum.splits prod.splits)
    then show ?thesis using link_loop_result[OF l(1)] name[OF l(1)] app[of "us_files s1" published] s1(1,2) Inr by simp
  qed
  then show ?thesis using nc s1 by (auto split: sum.splits)
qed

definition demo_service :: upload_service where
  "demo_service = \<lparr>us_policy = \<lparr>sp_max_total_bytes = Some 5, sp_max_file_count = None, sp_reserved_free_bytes = 0\<rparr>,
     us_files = [(''a.txt'', [1, 2])], us_nested = [], us_entries = [], us_reserved_bytes = 3, us_reserved_files = 1,
     us_inflight = [(0, (''a.txt'', [7, 8, 9]))], us_contexts = []\<rparr>"

lemma publish_never_overwrites_witness:
  "us_files (fst (publish_commit roomy 0 64 (\<lambda>_. ''0f'') (\<lambda>_. None) demo_service)) =
     [(''a.txt'', [1, 2]), (''a_0f.txt'', [7, 8, 9])]"
proof -
  have r: "publish_commit roomy 0 64 (\<lambda>_. ''0f'') (\<lambda>_. None) demo_service =
      (fst (publish_commit roomy 0 64 (\<lambda>_. ''0f'') (\<lambda>_. None) demo_service), Some (Inr ''a_0f.txt''))"
    by (simp add: publish_commit_def demo_service_def release_upload_def check_accepts_def current_usage_def counted_files_def counted_nested_def is_service_temp_path_def roomy_def
        size_of_def Let_def numeral_eq_Suc filename_with_unique_suffix_def rsplit_dot_def)
  from publish_never_overwrites[OF r] show ?thesis by (simp add: demo_service_def)
qed

text \<open>The capacity that is advertised is the one that is enforced: for a nonempty upload, under the same reading
  of the disk, \<open>_reserve\<close> accepts it exactly when the size is at most the advertised \<open>available_bytes\<close> and
  \<open>remaining_files\<close> is unlimited or not zero.\<close>

theorem capacity_matches_admission:
  assumes "0 < amount"
  shows "(\<exists>s'. reserve_upload env amount s = Inr s') =
    (amount \<le> cr_available_bytes (capacity env s) \<and>
     (case cr_remaining_files (capacity env s) of None \<Rightarrow> True | Some k \<Rightarrow> 0 < k))"
  using assms
  by (cases "current_usage s") (auto simp: reserve_upload_def check_accepts_def capacity_def Let_def split: option.splits sum.splits)

lemma capacity_matches_admission_witness:
  "(\<exists>s'. reserve_upload roomy 1 demo_service = Inr s') =
    (1 \<le> cr_available_bytes (capacity roomy demo_service) \<and>
     (case cr_remaining_files (capacity roomy demo_service) of None \<Rightarrow> True | Some k \<Rightarrow> 0 < k))"
  by (rule capacity_matches_admission) simp

end
