(* ===== verification/Encrypted_Transfer.thy ===== *)
theory Encrypted_Transfer
  imports Py_Text
begin

section \<open>EUF v1: client-encrypted transfer\<close>

text \<open>
  \<^verbatim>\<open>xferry/encrypted_transfer.py\<close>: the manifest of an encrypted file, canonical base64url, the authenticated
  contexts and nonces, and chunk encryption. AES-GCM, PBKDF2/HKDF and HMAC-SHA256 belong to libraries and are
  parameters (\<open>gcm_encrypt\<close>, \<open>gcm_decrypt\<close>, \<open>pbkdf2\<close>, \<open>hkdf\<close>, \<open>hmac\<close>); the JSON codec of the private
  metadata is \<open>json_encode\<close> and \<open>json_decode\<close>.
\<close>

definition EUF_VERSION :: nat where "EUF_VERSION = 1"
definition EUF_CHUNK_SIZE :: nat where "EUF_CHUNK_SIZE = 8 * 1024 * 1024"
definition EUF_MAX_CHUNK_COUNT :: nat where "EUF_MAX_CHUNK_COUNT = 4096"
definition EUF_MAX_FILE_SIZE :: nat where "EUF_MAX_FILE_SIZE = EUF_MAX_CHUNK_COUNT * EUF_CHUNK_SIZE"
definition EUF_GCM_TAG_SIZE :: nat where "EUF_GCM_TAG_SIZE = 16"
definition EUF_MAX_METADATA_SIZE :: nat where "EUF_MAX_METADATA_SIZE = 4096"
definition EUF_METADATA_INDEX :: nat where "EUF_METADATA_INDEX = 0xFFFFFFFF"

lemmas euf_constants = EUF_VERSION_def EUF_CHUNK_SIZE_def EUF_MAX_CHUNK_COUNT_def EUF_MAX_FILE_SIZE_def
  EUF_GCM_TAG_SIZE_def EUF_MAX_METADATA_SIZE_def EUF_METADATA_INDEX_def

definition METADATA_AAD_PREFIX :: bytes where "METADATA_AAD_PREFIX = ascii_bytes ''XFERRY-EUF1-META'' @ [0]"
definition CHUNK_AAD_PREFIX :: bytes where "CHUNK_AAD_PREFIX = ascii_bytes ''XFERRY-EUF1-CHUNK'' @ [0]"
definition RESUME_PREFIX :: bytes where "RESUME_PREFIX = ascii_bytes ''XFERRY-EUF1-RESUME'' @ [0]"

text \<open>\<open>EncryptedTransferValidationError\<close>\<close>

datatype euf_error = Euf_Invalid

subsection \<open>Canonical base64url and file identifiers\<close>

definition b64url_encode :: "bytes \<Rightarrow> string" where "b64url_encode data = b64url_nopad data"

definition b64url_decode :: "string \<Rightarrow> euf_error + bytes" where
  "b64url_decode value =
     (if \<not> list_all (\<lambda>c. is_alnum c \<or> c = CHR ''_'' \<or> c = CHR ''-'') value then Inl Euf_Invalid
      else if length value mod 4 = 1 then Inl Euf_Invalid
      else case b64_groups (CHR ''-'') (CHR ''_'') value of
        None \<Rightarrow> Inl Euf_Invalid
      | Some groups \<Rightarrow>
          (let decoded = unsextets groups
           in if b64url_encode decoded \<noteq> value then Inl Euf_Invalid else Inr decoded))"

definition hex_value :: "char \<Rightarrow> nat" where
  "hex_value c = (if is_digit c then ord c - 48 else ord c - 87)"

text \<open>\<open>bytes.fromhex\<close> on lowercase hexadecimal digits.\<close>

fun hex_pairs :: "string \<Rightarrow> bytes" where
  "hex_pairs (a # b # r) = word_of_nat (hex_value a * 16 + hex_value b) # hex_pairs r"
| "hex_pairs _ = []"

definition file_id_bytes :: "string \<Rightarrow> euf_error + bytes" where
  "file_id_bytes file_id =
     (if length file_id \<noteq> 32 \<or> \<not> list_all is_lower_hex file_id then Inl Euf_Invalid
      else Inr (hex_pairs file_id))"

subsection \<open>The manifest\<close>

record euf_manifest =
  em_file_id :: string
  em_plaintext_size :: nat
  em_chunk_size :: nat
  em_chunk_count :: nat
  em_salt :: bytes
  em_nonce_prefix :: bytes
  em_encrypted_metadata :: bytes
  em_version :: nat

text \<open>\<open>EncryptedTransferManifest.__post_init__\<close>, on an already typed candidate.\<close>

definition manifest_check :: "euf_manifest \<Rightarrow> euf_error + euf_manifest" where
  "manifest_check m =
     (case file_id_bytes (em_file_id m) of
        Inl e \<Rightarrow> Inl e
      | Inr _ \<Rightarrow>
          if em_version m \<noteq> EUF_VERSION then Inl Euf_Invalid
          else if EUF_MAX_FILE_SIZE < em_plaintext_size m then Inl Euf_Invalid
          else if em_chunk_size m \<noteq> EUF_CHUNK_SIZE then Inl Euf_Invalid
          else if em_chunk_count m \<noteq> (em_plaintext_size m + em_chunk_size m - 1) div em_chunk_size m then Inl Euf_Invalid
          else if length (em_salt m) \<noteq> 16 then Inl Euf_Invalid
          else if length (em_nonce_prefix m) \<noteq> 8 then Inl Euf_Invalid
          else if \<not> (EUF_GCM_TAG_SIZE \<le> length (em_encrypted_metadata m) \<and>
                      length (em_encrypted_metadata m) \<le> EUF_MAX_METADATA_SIZE + EUF_GCM_TAG_SIZE) then Inl Euf_Invalid
          else Inr m)"

definition ciphertext_size :: "euf_manifest \<Rightarrow> nat" where
  "ciphertext_size m = em_plaintext_size m + em_chunk_count m * EUF_GCM_TAG_SIZE"

text \<open>\<open>min(chunk_size, plaintext_size - index * chunk_size)\<close>, as integers.\<close>

definition chunk_length :: "euf_manifest \<Rightarrow> nat \<Rightarrow> int" where
  "chunk_length m index = min (int (em_chunk_size m)) (int (em_plaintext_size m) - int index * int (em_chunk_size m))"

subsection \<open>Authenticated contexts and nonces\<close>

definition metadata_aad :: "euf_manifest \<Rightarrow> euf_error + bytes" where
  "metadata_aad m =
     (case file_id_bytes (em_file_id m) of
        Inl e \<Rightarrow> Inl e
      | Inr fid \<Rightarrow> Inr (METADATA_AAD_PREFIX @ fid @ be_pack 8 (em_plaintext_size m) @ be_pack 4 (em_chunk_size m) @
                        be_pack 4 (em_chunk_count m)))"

definition chunk_aad :: "euf_manifest \<Rightarrow> int \<Rightarrow> int \<Rightarrow> euf_error + bytes" where
  "chunk_aad m index plaintext_length =
     (if \<not> (0 \<le> index \<and> index < int (em_chunk_count m)) then Inl Euf_Invalid
      else if plaintext_length \<noteq> chunk_length m (nat index) then Inl Euf_Invalid
      else case file_id_bytes (em_file_id m) of
        Inl e \<Rightarrow> Inl e
      | Inr fid \<Rightarrow> Inr (CHUNK_AAD_PREFIX @ fid @ be_pack 8 (em_plaintext_size m) @ be_pack 4 (em_chunk_size m) @
                        be_pack 4 (em_chunk_count m) @ be_pack 4 (nat index) @ be_pack 4 (nat plaintext_length)))"

definition nonce :: "euf_manifest \<Rightarrow> nat \<Rightarrow> bytes" where
  "nonce m index = em_nonce_prefix m @ be_pack 4 index"

subsection \<open>Keys, metadata and chunks\<close>

definition derive_keys ::
  "(bytes \<Rightarrow> bytes \<Rightarrow> bytes) \<Rightarrow> (bytes \<Rightarrow> bytes \<Rightarrow> string \<Rightarrow> bytes) \<Rightarrow> string \<Rightarrow> bytes \<Rightarrow> string
     \<Rightarrow> euf_error + bytes \<times> bytes"
where
  "derive_keys pbkdf2 hkdf password salt file_id =
     (if length password < 14 then Inl Euf_Invalid
      else if 1024 < length (utf8_encode password) then Inl Euf_Invalid
      else if length salt \<noteq> 16 then Inl Euf_Invalid
      else case file_id_bytes file_id of
        Inl e \<Rightarrow> Inl e
      | Inr fid \<Rightarrow>
          (let master = pbkdf2 (utf8_encode password) salt
           in Inr (hkdf fid master ''xferry-euf-v1/content'', hkdf fid master ''xferry-euf-v1/resume'')))"

type_synonym aead_encrypt = "bytes \<Rightarrow> bytes \<Rightarrow> bytes \<Rightarrow> bytes \<Rightarrow> bytes"
type_synonym aead_decrypt = "bytes \<Rightarrow> bytes \<Rightarrow> bytes \<Rightarrow> bytes \<Rightarrow> bytes option"

definition encrypt_chunk :: "aead_encrypt \<Rightarrow> bytes \<Rightarrow> bytes \<Rightarrow> euf_manifest \<Rightarrow> int \<Rightarrow> euf_error + bytes" where
  "encrypt_chunk gcm_encrypt plaintext key m index =
     (if length key \<noteq> 32 then Inl Euf_Invalid
      else case chunk_aad m index (int (length plaintext)) of
        Inl e \<Rightarrow> Inl e
      | Inr aad \<Rightarrow> Inr (gcm_encrypt key (nonce m (nat index)) plaintext aad))"

definition decrypt_chunk :: "aead_decrypt \<Rightarrow> bytes \<Rightarrow> bytes \<Rightarrow> euf_manifest \<Rightarrow> int \<Rightarrow> euf_error + bytes option" where
  "decrypt_chunk gcm_decrypt ciphertext key m index =
     (if length key \<noteq> 32 then Inl Euf_Invalid
      else
        (let n = min (int (em_chunk_size m)) (int (em_plaintext_size m) - index * int (em_chunk_size m))
         in case chunk_aad m index n of
              Inl e \<Rightarrow> Inl e
            | Inr aad \<Rightarrow>
                if int (length ciphertext) \<noteq> n + int EUF_GCM_TAG_SIZE then Inr None
                else Inr (gcm_decrypt key (nonce m (nat index)) ciphertext aad)))"

record euf_metadata =
  mt_name :: string
  mt_content_type :: string
  mt_last_modified_ms :: int

definition metadata_check :: "euf_metadata \<Rightarrow> euf_error + euf_metadata" where
  "metadata_check d =
     (if mt_name d = [] \<or> CHR 0x00 \<in> set (mt_name d) then Inl Euf_Invalid
      else if CHR 0x0D \<in> set (mt_content_type d) \<or> CHR 0x0A \<in> set (mt_content_type d) then Inl Euf_Invalid
      else if \<not> (0 \<le> mt_last_modified_ms d \<and> mt_last_modified_ms d \<le> 9007199254740991) then Inl Euf_Invalid
      else Inr d)"

definition encrypt_metadata ::
  "aead_encrypt \<Rightarrow> (euf_metadata \<Rightarrow> bytes) \<Rightarrow> euf_metadata \<Rightarrow> bytes \<Rightarrow> euf_manifest \<Rightarrow> euf_error + bytes" where
  "encrypt_metadata gcm_encrypt json_encode d key m =
     (if length key \<noteq> 32 then Inl Euf_Invalid
      else if EUF_MAX_METADATA_SIZE < length (json_encode d) then Inl Euf_Invalid
      else case metadata_aad m of
        Inl e \<Rightarrow> Inl e
      | Inr aad \<Rightarrow> Inr (gcm_encrypt key (nonce m EUF_METADATA_INDEX) (json_encode d) aad))"

text \<open>\<open>json_decode\<close> stands for the strict decoding to the three fields; \<open>None\<close> is any failure of it.\<close>

definition decrypt_metadata ::
  "aead_decrypt \<Rightarrow> (bytes \<Rightarrow> euf_metadata option) \<Rightarrow> bytes \<Rightarrow> euf_manifest \<Rightarrow> euf_error + euf_metadata option" where
  "decrypt_metadata gcm_decrypt json_decode key m =
     (if length key \<noteq> 32 then Inl Euf_Invalid
      else case metadata_aad m of
        Inl e \<Rightarrow> Inr None
      | Inr aad \<Rightarrow>
          (case gcm_decrypt key (nonce m EUF_METADATA_INDEX) (em_encrypted_metadata m) aad of
             None \<Rightarrow> Inr None
           | Some plaintext \<Rightarrow>
               if EUF_MAX_METADATA_SIZE < length plaintext then Inr None
               else (case json_decode plaintext of
                       None \<Rightarrow> Inr None
                     | Some d \<Rightarrow> (case metadata_check d of Inl _ \<Rightarrow> Inr None | Inr d' \<Rightarrow> Inr (Some d')))))"

definition compute_resume_mac ::
  "(bytes \<Rightarrow> bytes \<Rightarrow> bytes) \<Rightarrow> bytes \<Rightarrow> bytes \<Rightarrow> euf_manifest \<Rightarrow> int \<Rightarrow> euf_error + bytes" where
  "compute_resume_mac hmac plaintext key m index =
     (if length key \<noteq> 32 then Inl Euf_Invalid
      else case chunk_aad m index (int (length plaintext)) of
        Inl e \<Rightarrow> Inl e
      | Inr _ \<Rightarrow>
          (case file_id_bytes (em_file_id m) of
             Inl e \<Rightarrow> Inl e
           | Inr fid \<Rightarrow> Inr (hmac key (RESUME_PREFIX @ fid @ be_pack 4 (nat index) @ be_pack 4 (length plaintext) @ plaintext))))"

definition verify_resume_mac ::
  "(bytes \<Rightarrow> bytes \<Rightarrow> bytes) \<Rightarrow> bytes \<Rightarrow> bytes \<Rightarrow> euf_manifest \<Rightarrow> int \<Rightarrow> bytes \<Rightarrow> euf_error + bool" where
  "verify_resume_mac hmac plaintext key m index expected =
     (if length expected \<noteq> 32 then Inr False
      else case compute_resume_mac hmac plaintext key m index of
        Inl e \<Rightarrow> Inl e
      | Inr computed \<Rightarrow> Inr (computed = expected))"

subsection \<open>Lemmas\<close>

lemma manifest_facts:
  assumes "manifest_check m = Inr m'"
  shows "m' = m" "em_plaintext_size m \<le> 34359738368" "em_chunk_size m = 8388608" "em_chunk_count m \<le> 4096"
    "em_chunk_count m = (em_plaintext_size m + 8388607) div 8388608" "length (em_nonce_prefix m) = 8"
    "length (em_file_id m) = 32" "list_all is_lower_hex (em_file_id m)"
    "file_id_bytes (em_file_id m) = Inr (hex_pairs (em_file_id m))"
proof -
  have all: "m' = m \<and> em_plaintext_size m \<le> 34359738368 \<and> em_chunk_size m = 8388608 \<and>
    em_chunk_count m = (em_plaintext_size m + 8388607) div 8388608 \<and> length (em_nonce_prefix m) = 8 \<and>
    length (em_file_id m) = 32 \<and> list_all is_lower_hex (em_file_id m)"
    using assms by (auto simp: manifest_check_def euf_constants file_id_bytes_def split: if_splits sum.splits)
  then show "m' = m" "em_plaintext_size m \<le> 34359738368" "em_chunk_size m = 8388608"
    "em_chunk_count m = (em_plaintext_size m + 8388607) div 8388608" "length (em_nonce_prefix m) = 8"
    "length (em_file_id m) = 32" "list_all is_lower_hex (em_file_id m)"
    "file_id_bytes (em_file_id m) = Inr (hex_pairs (em_file_id m))" by (auto simp: file_id_bytes_def)
  have "(em_plaintext_size m + 8388607) div 8388608 \<le> (34359738368 + 8388607) div 8388608"
    using all by (intro div_le_mono) simp
  then show "em_chunk_count m \<le> 4096" using all by simp
qed

lemma hex_value_bound: "is_lower_hex c \<Longrightarrow> hex_value c < 16"
  by (auto simp: is_lower_hex_def hex_value_def is_digit_def)

lemma hex_code_inject:
  "48 \<le> x \<and> x \<le> 57 \<or> 97 \<le> x \<and> x \<le> 102 \<Longrightarrow> 48 \<le> y \<and> y \<le> 57 \<or> 97 \<le> y \<and> y \<le> 102 \<Longrightarrow>
     (if 48 \<le> x \<and> x \<le> 57 then x - 48 else x - 87) = (if 48 \<le> y \<and> y \<le> 57 then y - 48 else y - 87) \<Longrightarrow> x = (y :: nat)"
  by (auto split: if_splits)

lemma hex_value_inject: "is_lower_hex c \<Longrightarrow> is_lower_hex d \<Longrightarrow> hex_value c = hex_value d \<Longrightarrow> c = d"
  using hex_code_inject[of "ord c" "ord d"] by (simp add: is_lower_hex_def hex_value_def is_digit_def)

lemma length_hex_pairs: "length (hex_pairs s) = length s div 2"
  by (induction s rule: hex_pairs.induct) auto

lemma byte_of_nat_inject: "m < 256 \<Longrightarrow> n < 256 \<Longrightarrow> (word_of_nat m :: byte) = word_of_nat n \<Longrightarrow> m = n"
  by (metis unat_of_nat_byte)

lemma pair_inject_16: "p * 16 + q = r * 16 + s \<Longrightarrow> q < 16 \<Longrightarrow> s < 16 \<Longrightarrow> p = r \<and> q = (s :: nat)"
proof -
  assume e: "p * 16 + q = r * 16 + s" and "q < 16" "s < 16"
  then have "p = (p * 16 + q) div 16" "r = (r * 16 + s) div 16" by simp_all
  then have "p = r" using e by simp
  then show ?thesis using e by simp
qed

lemma hex_pairs_inject:
  "list_all is_lower_hex s \<Longrightarrow> list_all is_lower_hex t \<Longrightarrow> even (length s) \<Longrightarrow> length s = length t \<Longrightarrow>
     hex_pairs s = hex_pairs t \<Longrightarrow> s = t"
proof (induction s arbitrary: t rule: hex_pairs.induct)
  case (1 a b r)
  obtain c d u where t: "t = c # d # u"
    using "1.prems"(4) by (cases t rule: hex_pairs.cases) auto
  have h: "hex_value a < 16" "hex_value b < 16" "hex_value c < 16" "hex_value d < 16"
    using "1.prems"(1,2) t by (simp_all add: hex_value_bound)
  have "hex_value a * 16 + hex_value b = hex_value c * 16 + hex_value d"
    using "1.prems"(5) t h by (intro byte_of_nat_inject) auto
  then have "hex_value a = hex_value c" "hex_value b = hex_value d" using h pair_inject_16 by blast+
  then have "a = c" "b = d" using "1.prems"(1,2) t by (auto intro: hex_value_inject)
  then show ?case using 1 t by simp
qed auto

lemma be_pack_eq: "v < 256 ^ n \<Longrightarrow> w < 256 ^ n \<Longrightarrow> be_pack n v = be_pack n w \<Longrightarrow> v = w"
  by (simp add: be_pack_inject)

text \<open>The chunks of a file.\<close>

lemma chunk_length_nat:
  "i * em_chunk_size m < em_plaintext_size m \<Longrightarrow>
     chunk_length m i = int (min (em_chunk_size m) (em_plaintext_size m - i * em_chunk_size m))"
proof -
  assume "i * em_chunk_size m < em_plaintext_size m"
  then have "int (em_plaintext_size m) - int i * int (em_chunk_size m) = int (em_plaintext_size m - i * em_chunk_size m)"
    by (simp add: of_nat_diff)
  then show ?thesis unfolding chunk_length_def by (simp only: of_nat_min)
qed

lemma chunk_start:
  assumes "manifest_check m = Inr m'" "i < em_chunk_count m"
  shows "i * em_chunk_size m < em_plaintext_size m"
proof -
  let ?c = "em_chunk_size m" and ?p = "em_plaintext_size m"
  have c: "em_chunk_count m = (?p + ?c - 1) div ?c" "0 < ?c" using manifest_facts[OF assms(1)] by simp_all
  have "Suc i \<le> (?p + ?c - 1) div ?c" using c assms(2) by simp
  then have "Suc i * ?c \<le> (?p + ?c - 1) div ?c * ?c" by (rule mult_le_mono1)
  also have "\<dots> \<le> ?p + ?c - 1" by (rule div_times_less_eq_dividend)
  finally show ?thesis using c(2) by simp
qed

definition nth_chunk :: "nat \<Rightarrow> 'a list \<Rightarrow> nat \<Rightarrow> 'a list" where
  "nth_chunk n xs i = take n (drop (i * n) xs)"

lemma concat_chunks: "concat (map (nth_chunk n xs) [0..<k]) = take (k * n) xs"
proof (induction k)
  case (Suc k)
  have "take (k * n) xs @ take n (drop (k * n) xs) = take (k * n + n) xs" by (simp add: take_add)
  then show ?case using Suc by (simp add: nth_chunk_def add.commute)
qed simp

subsection \<open>Properties\<close>

text \<open>C18. The authenticated context pins a chunk to its place: for valid manifests, two chunk contexts are equal only
  for the same file identifier, file size, chunk index and chunk length, so no ciphertext chunk can be
  replayed at another position, in another file or as the tail of a truncated one; and no chunk
  context is ever the metadata context.\<close>

theorem chunk_context_binds:
  assumes "manifest_check m = Inr m0" and "manifest_check m' = Inr m0'"
    and "chunk_aad m i n = Inr aad" and "chunk_aad m' j k = Inr aad"
  shows "em_file_id m = em_file_id m' \<and> em_plaintext_size m = em_plaintext_size m' \<and> i = j \<and> n = k \<and>
    metadata_aad m' \<noteq> Inr aad"
proof -
  note f = manifest_facts[OF assms(1)] and f' = manifest_facts[OF assms(2)]
  have ij: "0 \<le> i" "i < int (em_chunk_count m)" "0 \<le> j" "j < int (em_chunk_count m')"
    using assms(3,4) by (auto simp: chunk_aad_def split: if_splits)
  have nk: "n = chunk_length m (nat i)" "k = chunk_length m' (nat j)"
    using assms(3,4) by (auto simp: chunk_aad_def split: if_splits)
  have a: "aad = CHUNK_AAD_PREFIX @ hex_pairs (em_file_id m) @ be_pack 8 (em_plaintext_size m) @ be_pack 4 (em_chunk_size m) @
      be_pack 4 (em_chunk_count m) @ be_pack 4 (nat i) @ be_pack 4 (nat n)"
    using assms(3) f(9) by (auto simp: chunk_aad_def split: if_splits)
  have a': "aad = CHUNK_AAD_PREFIX @ hex_pairs (em_file_id m') @ be_pack 8 (em_plaintext_size m') @ be_pack 4 (em_chunk_size m') @
      be_pack 4 (em_chunk_count m') @ be_pack 4 (nat j) @ be_pack 4 (nat k)"
    using assms(4) f'(9) by (auto simp: chunk_aad_def split: if_splits)
  have len: "length (hex_pairs (em_file_id m)) = length (hex_pairs (em_file_id m'))"
    using f(7) f'(7) by (simp add: length_hex_pairs)
  have parts: "hex_pairs (em_file_id m) = hex_pairs (em_file_id m')" "be_pack 8 (em_plaintext_size m) = be_pack 8 (em_plaintext_size m')"
    "be_pack 4 (nat i) = be_pack 4 (nat j)"
    using a a' len by auto
  have "em_file_id m = em_file_id m'" using parts(1) f(7,8) f'(7,8) by (intro hex_pairs_inject) auto
  moreover have "em_plaintext_size m = em_plaintext_size m'" using parts(2) f(2) f'(2) by (intro be_pack_eq) auto
  moreover have "nat i = nat j" using parts(3) ij f(4) f'(4) by (intro be_pack_eq[of _ 4]) auto
  then have "i = j" using ij by simp
  moreover have "n = k" using calculation nk f(3) f'(3) by (simp add: chunk_length_def)
  moreover have "metadata_aad m' \<noteq> Inr aad"
  proof
    assume "metadata_aad m' = Inr aad"
    then have "METADATA_AAD_PREFIX @ hex_pairs (em_file_id m') @ be_pack 8 (em_plaintext_size m') @ be_pack 4 (em_chunk_size m') @
        be_pack 4 (em_chunk_count m') = aad" using f'(9) by (simp add: metadata_aad_def)
    then have "take 13 aad = take 13 METADATA_AAD_PREFIX" "take 13 aad = take 13 CHUNK_AAD_PREFIX"
      using a by (auto simp: METADATA_AAD_PREFIX_def CHUNK_AAD_PREFIX_def ascii_bytes_def)
    then show False by (simp add: METADATA_AAD_PREFIX_def CHUNK_AAD_PREFIX_def ascii_bytes_def)
  qed
  ultimately show ?thesis by blast
qed

text \<open>No nonce is used twice under one content key: for a valid manifest the nonces of all its chunks and of its
  metadata are pairwise distinct, and each has the twelve bytes that AES-GCM expects.\<close>

theorem nonces_distinct:
  assumes "manifest_check m = Inr m0"
  shows "distinct (map (nonce m) ([0..<em_chunk_count m] @ [EUF_METADATA_INDEX])) \<and>
    list_all (\<lambda>n. length n = 12) (map (nonce m) ([0..<em_chunk_count m] @ [EUF_METADATA_INDEX]))"
proof -
  note f = manifest_facts[OF assms]
  have small: "i < 256 ^ 4" if "i \<in> set ([0..<em_chunk_count m] @ [EUF_METADATA_INDEX])" for i
    using that f(4) by (auto simp: EUF_METADATA_INDEX_def)
  have "inj_on (nonce m) (set ([0..<em_chunk_count m] @ [EUF_METADATA_INDEX]))"
    using be_pack_eq[OF small small] by (auto simp: inj_on_def nonce_def)
  moreover have "distinct ([0..<em_chunk_count m] @ [EUF_METADATA_INDEX])"
    using f(4) by (auto simp: EUF_METADATA_INDEX_def)
  ultimately show ?thesis using f(6) by (simp add: distinct_map list_all_iff nonce_def)
qed

definition demo_manifest :: euf_manifest where
  "demo_manifest = \<lparr>em_file_id = replicate 32 CHR ''a'', em_plaintext_size = 3, em_chunk_size = 8388608, em_chunk_count = 1,
     em_salt = replicate 16 0, em_nonce_prefix = replicate 8 0, em_encrypted_metadata = replicate 16 0, em_version = 1\<rparr>"

lemma demo_manifest_ok: "manifest_check demo_manifest = Inr demo_manifest"
  by (simp add: manifest_check_def demo_manifest_def file_id_bytes_def is_lower_hex_def is_digit_def euf_constants list_all_iff)

lemma demo_chunk_aad: "\<exists>aad. chunk_aad demo_manifest 0 3 = Inr aad"
  by (simp add: chunk_aad_def chunk_length_def demo_manifest_def file_id_bytes_def is_lower_hex_def is_digit_def list_all_iff)

lemma chunk_context_binds_witness:
  "\<exists>aad. chunk_aad demo_manifest 0 3 = Inr aad \<and> em_file_id demo_manifest = replicate 32 CHR ''a'' \<and>
     metadata_aad demo_manifest \<noteq> Inr aad"
proof -
  obtain aad where a: "chunk_aad demo_manifest 0 3 = Inr aad" using demo_chunk_aad by blast
  from chunk_context_binds[OF demo_manifest_ok demo_manifest_ok a a] a show ?thesis by (auto simp: demo_manifest_def)
qed

lemma nonces_distinct_witness:
  "distinct (map (nonce demo_manifest) ([0..<1] @ [EUF_METADATA_INDEX]))"
  using nonces_distinct[OF demo_manifest_ok] by (simp add: demo_manifest_def)

text \<open>A file comes back whole: for a valid manifest and plaintext of its size, cut into the manifest's chunks and
  encrypted one by one, every encryption succeeds, the ciphertexts have together exactly \<open>ciphertext_size\<close>
  bytes, and decrypting them in place and joining the results gives the plaintext. Of the cipher this
  needs only its documented contract: the tag adds 16 bytes, and decryption under the same key, nonce and context inverts
  encryption.\<close>

theorem encrypted_file_roundtrip:
  assumes "manifest_check m = Inr m0" and "length plaintext = em_plaintext_size m" and "length key = 32"
    and "\<And>k n p a. length (enc k n p a) = length p + EUF_GCM_TAG_SIZE" and "\<And>k n p a. dec k n (enc k n p a) a = Some p"
  shows "\<exists>cts pts. map (\<lambda>i. encrypt_chunk enc (nth_chunk (em_chunk_size m) plaintext i) key m (int i)) [0..<em_chunk_count m] = map Inr cts \<and>
    sum_list (map length cts) = ciphertext_size m \<and>
    map (\<lambda>(i, ct). decrypt_chunk dec ct key m (int i)) (zip [0..<em_chunk_count m] cts) = map (\<lambda>p. Inr (Some p)) pts \<and>
    concat pts = plaintext"
proof -
  note f = manifest_facts[OF assms(1)]
  let ?c = "em_chunk_size m" and ?k = "em_chunk_count m"
  define pt where "pt i = nth_chunk ?c plaintext i" for i
  have len: "int (length (pt i)) = chunk_length m i" if "i < ?k" for i
    using chunk_length_nat[OF chunk_start[OF assms(1) that]] assms(2) by (simp add: pt_def nth_chunk_def min.commute)
  define aad where "aad i = CHUNK_AAD_PREFIX @ hex_pairs (em_file_id m) @ be_pack 8 (em_plaintext_size m) @ be_pack 4 ?c @
      be_pack 4 ?k @ be_pack 4 i @ be_pack 4 (length (pt i))" for i
  have aad: "chunk_aad m (int i) (int (length (pt i))) = Inr (aad i)" if "i < ?k" for i
    using that len[OF that, symmetric] f(9) by (simp add: chunk_aad_def aad_def)
  define ct where "ct i = enc key (nonce m i) (pt i) (aad i)" for i
  have encs: "encrypt_chunk enc (pt i) key m (int i) = Inr (ct i)" if "i < ?k" for i
    using aad[OF that] assms(3) by (simp add: encrypt_chunk_def ct_def)
  have decs: "decrypt_chunk dec (ct i) key m (int i) = Inr (Some (pt i))" if "i < ?k" for i
    using aad[OF that] len[OF that] assms(3-5)
    by (simp add: decrypt_chunk_def ct_def chunk_length_def EUF_GCM_TAG_SIZE_def Let_def)
  have all: "concat (map pt [0..<?k]) = plaintext"
  proof -
    have "em_plaintext_size m \<le> ?k * ?c"
      using f(3,5) dividend_less_times_div[of ?c "em_plaintext_size m + 8388607"] by (simp add: algebra_simps)
    then show ?thesis using concat_chunks[of ?c plaintext ?k] assms(2) by (simp add: pt_def[abs_def])
  qed
  have "sum_list (map length (map ct [0..<?k])) = sum_list (map length (map pt [0..<?k])) + ?k * EUF_GCM_TAG_SIZE"
    using assms(4) by (simp add: comp_def ct_def sum_list_addf sum_list_triv)
  also have "sum_list (map length (map pt [0..<?k])) = em_plaintext_size m"
    using arg_cong[OF all, of length] assms(2) by (simp add: length_concat)
  finally have size: "sum_list (map length (map ct [0..<?k])) = ciphertext_size m" by (simp add: ciphertext_size_def)
  have zip: "zip [0..<?k] (map ct [0..<?k]) = map (\<lambda>i. (i, ct i)) [0..<?k]" by (simp add: zip_map2 zip_same_conv_map)
  show ?thesis
    by (rule exI[of _ "map ct [0..<?k]"], rule exI[of _ "map pt [0..<?k]"])
      (use size in \<open>simp add: encs decs all zip pt_def[symmetric]\<close>)
qed

definition toy_encrypt :: aead_encrypt where "toy_encrypt k n p a = p @ replicate 16 0"
definition toy_decrypt :: aead_decrypt where "toy_decrypt k n c a = Some (take (length c - 16) c)"

lemma encrypted_file_roundtrip_witness:
  "\<exists>cts pts. map (\<lambda>i. encrypt_chunk toy_encrypt (nth_chunk 8388608 [7, 8, 9] i) (replicate 32 1) demo_manifest (int i)) [0..<1] = map Inr cts \<and>
    sum_list (map length cts) = 19 \<and> concat pts = [7, 8, 9 :: byte]"
proof -
  have d: "em_chunk_size demo_manifest = 8388608" "em_chunk_count demo_manifest = 1" "ciphertext_size demo_manifest = 19"
    "em_plaintext_size demo_manifest = 3"
    by (simp_all add: demo_manifest_def ciphertext_size_def EUF_GCM_TAG_SIZE_def)
  have enc: "length (toy_encrypt k n p a) = length p + EUF_GCM_TAG_SIZE" "toy_decrypt k n (toy_encrypt k n p a) a = Some p"
    for k n p a by (simp_all add: toy_encrypt_def toy_decrypt_def EUF_GCM_TAG_SIZE_def)
  have l: "length [7, 8, 9 :: byte] = 3" "length (replicate 32 (1 :: byte)) = 32" by simp_all
  note r = encrypted_file_roundtrip[where enc = toy_encrypt and dec = toy_decrypt, OF demo_manifest_ok, unfolded d, OF l]
  show ?thesis using r[OF enc] by blast
qed

lemma b64url_decode_iff: "(b64url_decode value = Inr data) = (value = b64url_encode data)"
proof
  assume "b64url_decode value = Inr data"
  then show "value = b64url_encode data"
    by (auto simp: b64url_decode_def Let_def split: if_splits option.splits)
next
  assume v: "value = b64url_encode data"
  have alphabet: "is_alnum c \<or> c = CHR ''_'' \<or> c = CHR ''-''" if c: "c \<in> set value" for c
  proof -
    obtain n where n: "n < 64" "c = b64_char (CHR ''-'') (CHR ''_'') n"
      using c sextets_bound by (auto simp: v b64url_encode_def b64url_nopad_def)
    then show ?thesis by (auto simp: b64_char_def is_alnum_def ascii_upper_def is_digit_def)
  qed
  have "length value mod 4 \<noteq> 1"
  proof -
    have "(4 * n + 2) div 3 mod 4 \<noteq> 1" for n :: nat by presburger
    then show ?thesis by (simp add: v b64url_encode_def)
  qed
  then show "b64url_decode value = Inr data"
    using alphabet by (simp add: b64url_decode_def v b64url_encode_def Let_def list_all_iff)
qed

text \<open>Base64url fields are canonical: decoding accepts the encoding of every byte string and returns it, and it
  accepts nothing else, so each byte string has exactly one accepted text.\<close>

theorem b64url_canonical: "(b64url_decode value = Inr data) = (value = b64url_encode data)"
  by (rule b64url_decode_iff)

end
