(* ===== verification/Encrypted_Storage.thy ===== *)
theory Encrypted_Storage
  imports Encrypted_Transfer "HOL-Library.List_Lexorder"
begin

section \<open>Crash-safe storage of encrypted transfers\<close>

text \<open>
  \<open>EncryptedStorageService\<close> of \<^verbatim>\<open>xferry/encrypted_storage.py\<close>. The disk has the sidecars (\<open><id>.json\<close>), the
  partial files (\<open><id>.part\<close>) and the complete files (\<open><id>.xfr\<close>), each keyed by identifier; a sidecar that does
  not decode is \<open>Corrupt_Sidecar\<close>. Each operation is a function from the disk to its result and to the list
  of durable actions it takes in order: every action is one atomic replacement, rename, unlink or synced write of the
  code. A crash keeps a prefix of that list, and tears the write it interrupts. SHA-256 is the parameter
  \<open>sha\<close>; the result of the quota reservation and the clock readings are arguments. The clock is taken to be finite
  and not negative; \<open>_now\<close> raises otherwise.
\<close>

datatype enc_status = Partial_File | Committing | Complete_File

record stored_chunk =
  sc_index :: nat
  sc_length :: nat
  sc_resume_mac :: bytes
  sc_sha256 :: bytes

record stored_file =
  sf_manifest :: euf_manifest
  sf_status :: enc_status
  sf_chunks :: "stored_chunk list"
  sf_created_at :: time
  sf_updated_at :: time

datatype sidecar = Valid_Sidecar stored_file | Corrupt_Sidecar

record enc_disk =
  ed_state :: "(string, sidecar) dict"
  ed_part :: "(string, bytes) dict"
  ed_complete :: "(string, bytes) dict"

datatype enc_error = Not_Found | Enc_Conflict | Enc_Incomplete | Enc_Corrupt | Enc_Invalid | Enc_Quota | Enc_IO

record enc_config =
  ec_max_plaintext_size :: nat
  ec_incomplete_ttl :: time

definition enc_config_make :: "nat \<Rightarrow> time \<Rightarrow> py_error + enc_config" where
  "enc_config_make max_plaintext ttl =
     (if ttl \<le> 0 then Inl ValueError
      else Inr \<lparr>ec_max_plaintext_size = min (if max_plaintext = 0 then EUF_MAX_FILE_SIZE else max_plaintext) EUF_MAX_FILE_SIZE,
             ec_incomplete_ttl = ttl\<rparr>)"

definition empty_disk :: enc_disk where "empty_disk = \<lparr>ed_state = [], ed_part = [], ed_complete = []\<rparr>"

definition sf_file_id :: "stored_file \<Rightarrow> string" where "sf_file_id r = em_file_id (sf_manifest r)"

subsection \<open>Chunk geometry and file contents\<close>

text \<open>\<open>encrypted_chunk_length\<close>\<close>

definition encrypted_chunk_length :: "euf_manifest \<Rightarrow> nat \<Rightarrow> enc_error + nat" where
  "encrypted_chunk_length m index =
     (if em_chunk_count m \<le> index then Inl Enc_Invalid
      else Inr (min (em_chunk_size m) (em_plaintext_size m - index * em_chunk_size m) + EUF_GCM_TAG_SIZE))"

definition chunk_offset :: "euf_manifest \<Rightarrow> nat \<Rightarrow> nat" where
  "chunk_offset m index = index * (em_chunk_size m + EUF_GCM_TAG_SIZE)"

text \<open>\<open>_read_exact\<close> and \<open>_write_all\<close> inside a file of fixed size.\<close>

definition read_exact :: "nat \<Rightarrow> nat \<Rightarrow> bytes \<Rightarrow> enc_error + bytes" where
  "read_exact off n content = (if length content < off + n \<and> 0 < n then Inl Enc_Corrupt else Inr (take n (drop off content)))"

definition write_at :: "nat \<Rightarrow> bytes \<Rightarrow> bytes \<Rightarrow> bytes" where
  "write_at off bs content = take off content @ bs @ drop (off + length bs) content"

subsection \<open>Durable actions\<close>

datatype disk_action =
    Put_State string stored_file
  | Put_Part string bytes
  | Write_Part string nat bytes
  | Publish string
  | Drop_Part string
  | Drop_Complete string
  | Drop_State string

fun apply_action :: "disk_action \<Rightarrow> enc_disk \<Rightarrow> enc_disk" where
  "apply_action (Put_State i r) d = d\<lparr>ed_state := dict_set i (Valid_Sidecar r) (ed_state d)\<rparr>"
| "apply_action (Put_Part i c) d = d\<lparr>ed_part := dict_set i c (ed_part d)\<rparr>"
| "apply_action (Write_Part i off bs) d =
     (case dict_get (ed_part d) i of None \<Rightarrow> d | Some c \<Rightarrow> d\<lparr>ed_part := dict_set i (write_at off bs c) (ed_part d)\<rparr>)"
| "apply_action (Publish i) d =
     (case dict_get (ed_part d) i of
        None \<Rightarrow> d
      | Some c \<Rightarrow> d\<lparr>ed_part := dict_del i (ed_part d), ed_complete := dict_set i c (ed_complete d)\<rparr>)"
| "apply_action (Drop_Part i) d = d\<lparr>ed_part := dict_del i (ed_part d)\<rparr>"
| "apply_action (Drop_Complete i) d = d\<lparr>ed_complete := dict_del i (ed_complete d)\<rparr>"
| "apply_action (Drop_State i) d = d\<lparr>ed_state := dict_del i (ed_state d)\<rparr>"

definition apply_actions :: "disk_action list \<Rightarrow> enc_disk \<Rightarrow> enc_disk" where
  "apply_actions acts d = fold apply_action acts d"

text \<open>A crash after \<open>k\<close> actions; an interrupted write leaves \<open>junk\<close> where it was writing.\<close>

definition crashed_actions :: "nat \<Rightarrow> bytes \<Rightarrow> disk_action list \<Rightarrow> disk_action list" where
  "crashed_actions k junk acts = take k acts @
     (case drop k acts of
        Write_Part i off bs # _ \<Rightarrow> if length junk = length bs then [Write_Part i off junk] else []
      | _ \<Rightarrow> [])"

subsection \<open>Reading, listing, expiry and deletion\<close>

text \<open>\<open>_read_state_path\<close>: decoding also checks that the sidecar names its own file.\<close>

definition read_state :: "string \<Rightarrow> enc_disk \<Rightarrow> enc_error + stored_file" where
  "read_state i d =
     (case dict_get (ed_state d) i of
        None \<Rightarrow> Inl Not_Found
      | Some Corrupt_Sidecar \<Rightarrow> Inl Enc_Corrupt
      | Some (Valid_Sidecar r) \<Rightarrow> if sf_file_id r \<noteq> i then Inl Enc_Corrupt else Inr r)"

definition state_ids :: "enc_disk \<Rightarrow> string list" where "state_ids d = sort (map fst (ed_state d))"

text \<open>\<open>_list_files_locked\<close>: the first unreadable sidecar raises.\<close>

fun read_all :: "enc_disk \<Rightarrow> string list \<Rightarrow> enc_error + stored_file list" where
  "read_all d [] = Inr []"
| "read_all d (i # is) =
     (case read_state i d of
        Inl e \<Rightarrow> Inl e
      | Inr r \<Rightarrow> (case read_all d is of Inl e \<Rightarrow> Inl e | Inr rs \<Rightarrow> Inr (r # rs)))"

definition list_files_locked :: "enc_status option \<Rightarrow> enc_disk \<Rightarrow> enc_error + stored_file list" where
  "list_files_locked status d =
     (case read_all d (state_ids d) of
        Inl e \<Rightarrow> Inl e
      | Inr rs \<Rightarrow> Inr (filter (\<lambda>r. status = None \<or> status = Some (sf_status r)) rs))"

definition delete_actions :: "string \<Rightarrow> disk_action list" where
  "delete_actions i = [Drop_Part i, Drop_Complete i, Drop_State i]"

definition expired_file :: "enc_config \<Rightarrow> time \<Rightarrow> stored_file \<Rightarrow> bool" where
  "expired_file cfg now r \<longleftrightarrow> ec_incomplete_ttl cfg < now - sf_updated_at r"

definition expire_actions :: "enc_config \<Rightarrow> time \<Rightarrow> enc_disk \<Rightarrow> enc_error + disk_action list" where
  "expire_actions cfg now d =
     (case list_files_locked (Some Partial_File) d of
        Inl e \<Rightarrow> Inl e
      | Inr rs \<Rightarrow> Inr (concat (map (\<lambda>r. delete_actions (sf_file_id r)) (filter (expired_file cfg now) rs))))"

type_synonym 'a enc_result = "disk_action list \<times> (enc_error + 'a)"

definition get_file :: "enc_config \<Rightarrow> time \<Rightarrow> string \<Rightarrow> enc_disk \<Rightarrow> stored_file option enc_result" where
  "get_file cfg now i d =
     (case file_id_bytes i of
        Inl _ \<Rightarrow> ([], Inl Enc_Invalid)
      | Inr _ \<Rightarrow>
          (case dict_get (ed_state d) i of
             None \<Rightarrow> ([], Inr None)
           | Some _ \<Rightarrow>
               (case read_state i d of
                  Inl e \<Rightarrow> ([], Inl e)
                | Inr r \<Rightarrow> if sf_status r = Partial_File \<and> expired_file cfg now r
                           then (delete_actions i, Inr None) else ([], Inr (Some r)))))"

definition require_file :: "enc_config \<Rightarrow> time \<Rightarrow> string \<Rightarrow> enc_disk \<Rightarrow> stored_file enc_result" where
  "require_file cfg now i d =
     (case get_file cfg now i d of
        (acts, Inl e) \<Rightarrow> (acts, Inl e)
      | (acts, Inr None) \<Rightarrow> (acts, Inl Not_Found)
      | (acts, Inr (Some r)) \<Rightarrow> (acts, Inr r))"

subsection \<open>Creating\<close>

text \<open>\<open>now1\<close>, \<open>now2\<close>, \<open>now3\<close>: the clock for expiry, for the lookup and for the new record. \<open>space\<close>: the quota
  reservation succeeds. \<open>io_ok\<close>: presizing and writing the sidecar succeed; otherwise the artifacts are removed.\<close>

definition create_file ::
  "enc_config \<Rightarrow> time \<Rightarrow> time \<Rightarrow> time \<Rightarrow> bool \<Rightarrow> bool \<Rightarrow> euf_manifest \<Rightarrow> enc_disk \<Rightarrow> (stored_file \<times> bool) enc_result" where
  "create_file cfg now1 now2 now3 space io_ok m d =
     (case expire_actions cfg now1 d of
        Inl e \<Rightarrow> ([], Inl e)
      | Inr a1 \<Rightarrow>
          (let d1 = apply_actions a1 d; i = em_file_id m
           in case get_file cfg now2 i d1 of
                (a2, Inl e) \<Rightarrow> (a1 @ a2, Inl e)
              | (a2, Inr (Some existing)) \<Rightarrow>
                  (a1 @ a2, if sf_manifest existing \<noteq> m then Inl Enc_Conflict else Inr (existing, False))
              | (a2, Inr None) \<Rightarrow>
                  (let d2 = apply_actions a2 d1;
                       r = \<lparr>sf_manifest = m, sf_status = Partial_File, sf_chunks = [], sf_created_at = now3, sf_updated_at = now3\<rparr>;
                       presize = Put_Part i (replicate (ciphertext_size m) 0)
                   in if ec_max_plaintext_size cfg < em_plaintext_size m then (a1 @ a2, Inl Enc_Invalid)
                      else if dict_get (ed_part d2) i \<noteq> None \<or> dict_get (ed_complete d2) i \<noteq> None
                      then (a1 @ a2, Inl Enc_Conflict)
                      else if \<not> space then (a1 @ a2, Inl Enc_Quota)
                      else if io_ok then (a1 @ a2 @ [presize, Put_State i r], Inr (r, True))
                      else (a1 @ a2 @ [presize, Drop_Part i, Drop_State i], Inl Enc_IO))))"

subsection \<open>Writing chunks\<close>

definition data_of_record :: "stored_file \<Rightarrow> enc_disk \<Rightarrow> bytes option" where
  "data_of_record r d =
     (if sf_status r = Partial_File then dict_get (ed_part d) (sf_file_id r) else dict_get (ed_complete d) (sf_file_id r))"

definition write_chunk ::
  "(bytes \<Rightarrow> bytes) \<Rightarrow> enc_config \<Rightarrow> time \<Rightarrow> time \<Rightarrow> string \<Rightarrow> nat \<Rightarrow> bytes \<Rightarrow> bytes \<Rightarrow> enc_disk
     \<Rightarrow> (stored_file \<times> bool) enc_result"
where
  "write_chunk sha cfg now1 now2 i index ciphertext resume_mac d =
     (if length resume_mac \<noteq> 32 then ([], Inl Enc_Invalid)
      else case require_file cfg now1 i d of
        (acts, Inl e) \<Rightarrow> (acts, Inl e)
      | (acts, Inr r) \<Rightarrow>
          (case encrypted_chunk_length (sf_manifest r) index of
             Inl e \<Rightarrow> (acts, Inl e)
           | Inr expected \<Rightarrow>
               if length ciphertext \<noteq> expected then (acts, Inl Enc_Invalid)
               else
                 (let off = chunk_offset (sf_manifest r) index
                  in case find (\<lambda>c. sc_index c = index) (sf_chunks r) of
                       Some existing \<Rightarrow>
                         (case data_of_record r d of
                            None \<Rightarrow> (acts, Inl Enc_IO)
                          | Some content \<Rightarrow>
                              (case read_exact off expected content of
                                 Inl e \<Rightarrow> (acts, Inl e)
                               | Inr persisted \<Rightarrow>
                                   if sc_length existing = expected \<and> sc_resume_mac existing = resume_mac \<and>
                                      sc_sha256 existing = sha ciphertext \<and> persisted = ciphertext
                                   then (acts, Inr (r, False)) else (acts, Inl Enc_Conflict)))
                     | None \<Rightarrow>
                         if sf_status r \<noteq> Partial_File then (acts, Inl Enc_Conflict)
                         else (case data_of_record r d of
                                 None \<Rightarrow> (acts, Inl Enc_IO)
                               | Some content \<Rightarrow>
                                   if length content \<noteq> ciphertext_size (sf_manifest r) then (acts, Inl Enc_Corrupt)
                                   else
                                     (let c = \<lparr>sc_index = index, sc_length = expected, sc_resume_mac = resume_mac,
                                               sc_sha256 = sha ciphertext\<rparr>;
                                          r' = r\<lparr>sf_chunks := sort_key sc_index (sf_chunks r @ [c]),
                                                 sf_updated_at := max (sf_updated_at r) now2\<rparr>
                                      in (acts @ [Write_Part i off ciphertext, Put_State i r'], Inr (r', True)))))))"

subsection \<open>Completing\<close>

definition publish_committing :: "time \<Rightarrow> stored_file \<Rightarrow> enc_disk \<Rightarrow> stored_file enc_result" where
  "publish_committing now r d =
     (let i = sf_file_id r; part = dict_get (ed_part d) i; full = dict_get (ed_complete d) i;
          size_ok = (\<lambda>c. length c = ciphertext_size (sf_manifest r));
          r' = r\<lparr>sf_status := Complete_File, sf_updated_at := max (sf_updated_at r) now\<rparr>
      in case (part, full) of
           (Some _, Some _) \<Rightarrow> ([], Inl Enc_Corrupt)
         | (Some c, None) \<Rightarrow> if size_ok c then ([Publish i, Put_State i r'], Inr r') else ([], Inl Enc_Corrupt)
         | (None, Some c) \<Rightarrow> if size_ok c then ([Put_State i r'], Inr r') else ([], Inl Enc_Corrupt)
         | (None, None) \<Rightarrow> ([], Inl Enc_Corrupt))"

definition complete_file :: "enc_config \<Rightarrow> time \<Rightarrow> time \<Rightarrow> time \<Rightarrow> string \<Rightarrow> enc_disk \<Rightarrow> (stored_file \<times> bool) enc_result" where
  "complete_file cfg now1 now2 now3 i d =
     (case require_file cfg now1 i d of
        (acts, Inl e) \<Rightarrow> (acts, Inl e)
      | (acts, Inr r) \<Rightarrow>
          if sf_status r = Complete_File then (acts, Inr (r, False))
          else if length (sf_chunks r) \<noteq> em_chunk_count (sf_manifest r) then (acts, Inl Enc_Incomplete)
          else
            (let r1 = (if sf_status r = Partial_File
                       then r\<lparr>sf_status := Committing, sf_updated_at := max (sf_updated_at r) now2\<rparr> else r);
                 a1 = (if sf_status r = Partial_File then [Put_State i r1] else [])
             in case publish_committing now3 r1 d of
                  (a2, Inl e) \<Rightarrow> (acts @ a1 @ a2, Inl e)
                | (a2, Inr r2) \<Rightarrow> (acts @ a1 @ a2, Inr (r2, True))))"

subsection \<open>Recovery\<close>

text \<open>\<open>_reconcile_record\<close>\<close>

definition reconcile_record :: "time \<Rightarrow> stored_file \<Rightarrow> enc_disk \<Rightarrow> stored_file enc_result" where
  "reconcile_record now r d =
     (let i = sf_file_id r; size_ok = (\<lambda>c. length c = ciphertext_size (sf_manifest r))
      in case sf_status r of
           Partial_File \<Rightarrow>
             if dict_get (ed_complete d) i \<noteq> None then ([], Inl Enc_Corrupt)
             else (case dict_get (ed_part d) i of
                     Some c \<Rightarrow> if size_ok c then ([], Inr r) else ([], Inl Enc_Corrupt)
                   | None \<Rightarrow> ([], Inl Enc_Corrupt))
         | Committing \<Rightarrow> publish_committing now r d
         | Complete_File \<Rightarrow>
             if dict_get (ed_part d) i \<noteq> None then ([], Inl Enc_Corrupt)
             else (case dict_get (ed_complete d) i of
                     Some c \<Rightarrow> if size_ok c then ([], Inr r) else ([], Inl Enc_Corrupt)
                   | None \<Rightarrow> ([], Inl Enc_Corrupt)))"

text \<open>One sidecar of the loop of \<open>reconcile\<close>: its actions, and the record it keeps.\<close>

definition reconcile_one :: "time \<Rightarrow> string \<Rightarrow> enc_disk \<Rightarrow> disk_action list \<times> stored_file option" where
  "reconcile_one now i d =
     (case file_id_bytes i of
        Inl _ \<Rightarrow> ([Drop_State i], None)
      | Inr _ \<Rightarrow>
          (case read_state i d of
             Inl _ \<Rightarrow> (delete_actions i, None)
           | Inr r \<Rightarrow>
               (case reconcile_record now r d of
                  (acts, Inl _) \<Rightarrow> (acts @ delete_actions i, None)
                | (acts, Inr r') \<Rightarrow> (acts, Some r'))))"

fun reconcile_loop :: "time \<Rightarrow> string list \<Rightarrow> enc_disk \<Rightarrow> disk_action list \<times> stored_file list" where
  "reconcile_loop now [] d = ([], [])"
| "reconcile_loop now (i # is) d =
     (let (acts, kept) = reconcile_one now i d;
          (acts', rs) = reconcile_loop now is (apply_actions acts d)
      in (acts @ acts', (case kept of None \<Rightarrow> rs | Some r \<Rightarrow> r # rs)))"

definition reconcile :: "time \<Rightarrow> enc_disk \<Rightarrow> disk_action list" where
  "reconcile now d =
     (let (acts, kept) = reconcile_loop now (state_ids d) d;
          d1 = apply_actions acts d;
          parts = map sf_file_id (filter (\<lambda>r. sf_status r = Partial_File) kept);
          fulls = map sf_file_id (filter (\<lambda>r. sf_status r \<noteq> Partial_File) kept)
      in acts @ map Drop_Part (filter (\<lambda>i. i \<notin> set parts) (map fst (ed_part d1))) @
                map Drop_Complete (filter (\<lambda>i. i \<notin> set fulls) (map fst (ed_complete d1))))"

subsection \<open>Advertised capacity\<close>

text \<open>The bisection of \<open>capacity\<close>; \<open>available\<close> and \<open>remaining\<close> are the upload storage's snapshot.\<close>

definition fits_with_tags :: "nat \<Rightarrow> nat \<Rightarrow> bool" where
  "fits_with_tags available n \<longleftrightarrow> n + (n + EUF_CHUNK_SIZE - 1) div EUF_CHUNK_SIZE * EUF_GCM_TAG_SIZE \<le> available"

function bisect_capacity :: "nat \<Rightarrow> nat \<Rightarrow> nat \<Rightarrow> nat" where
  "bisect_capacity available low high =
     (if low < high then
        (let middle = (low + high + 1) div 2
         in if fits_with_tags available middle then bisect_capacity available middle high
            else bisect_capacity available low (middle - 1))
      else low)"
  by pat_completeness auto
termination by (relation "measure (\<lambda>(_, low, high). high - low)") auto

declare bisect_capacity.simps [simp del]

definition enc_capacity :: "enc_config \<Rightarrow> nat \<Rightarrow> nat option \<Rightarrow> nat" where
  "enc_capacity cfg available remaining =
     (if remaining = Some 0 then 0 else bisect_capacity available 0 (min (ec_max_plaintext_size cfg) available))"

subsection \<open>Histories with crashes\<close>

datatype enc_op =
    Op_Create_File time time time bool bool euf_manifest
  | Op_Write_Chunk time time string nat bytes bytes
  | Op_Complete time time time string
  | Op_Get time string
  | Op_Delete string
  | Op_Expire time
  | Op_Reconcile time

fun op_actions :: "(bytes \<Rightarrow> bytes) \<Rightarrow> enc_config \<Rightarrow> enc_op \<Rightarrow> enc_disk \<Rightarrow> disk_action list" where
  "op_actions sha cfg (Op_Create_File t1 t2 t3 space io_ok m) d =
     (case manifest_check m of Inl _ \<Rightarrow> [] | Inr m' \<Rightarrow> fst (create_file cfg t1 t2 t3 space io_ok m' d))"
| "op_actions sha cfg (Op_Write_Chunk t1 t2 i index ct mac) d = fst (write_chunk sha cfg t1 t2 i index ct mac d)"
| "op_actions sha cfg (Op_Complete t1 t2 t3 i) d = fst (complete_file cfg t1 t2 t3 i d)"
| "op_actions sha cfg (Op_Get t i) d = fst (get_file cfg t i d)"
| "op_actions sha cfg (Op_Delete i) d = (case file_id_bytes i of Inl _ \<Rightarrow> [] | Inr _ \<Rightarrow> delete_actions i)"
| "op_actions sha cfg (Op_Expire t) d = (case expire_actions cfg t d of Inl _ \<Rightarrow> [] | Inr a \<Rightarrow> a)"
| "op_actions sha cfg (Op_Reconcile t) d = reconcile t d"

text \<open>\<open>Done op\<close>: the operation ran to its end. \<open>Crashed op k junk\<close>: it was cut after \<open>k\<close> actions.\<close>

datatype enc_event = Done enc_op | Crashed enc_op nat bytes

fun enc_step :: "(bytes \<Rightarrow> bytes) \<Rightarrow> enc_config \<Rightarrow> enc_disk \<Rightarrow> enc_event \<Rightarrow> enc_disk" where
  "enc_step sha cfg d (Done op) = apply_actions (op_actions sha cfg op d) d"
| "enc_step sha cfg d (Crashed op k junk) = apply_actions (crashed_actions k junk (op_actions sha cfg op d)) d"

definition enc_run :: "(bytes \<Rightarrow> bytes) \<Rightarrow> enc_config \<Rightarrow> enc_disk \<Rightarrow> enc_event list \<Rightarrow> enc_disk" where
  "enc_run sha cfg = foldl (enc_step sha cfg)"

subsection \<open>Geometry\<close>

definition enc_len :: "euf_manifest \<Rightarrow> nat \<Rightarrow> nat" where
  "enc_len m i = min (em_chunk_size m) (em_plaintext_size m - i * em_chunk_size m) + EUF_GCM_TAG_SIZE"

definition region :: "euf_manifest \<Rightarrow> nat \<Rightarrow> bytes \<Rightarrow> bytes" where
  "region m i content = take (enc_len m i) (drop (chunk_offset m i) content)"

lemma encrypted_chunk_length_eq:
  "encrypted_chunk_length m i = (if em_chunk_count m \<le> i then Inl Enc_Invalid else Inr (enc_len m i))"
  by (simp add: encrypted_chunk_length_def enc_len_def)

lemma region_end:
  assumes "manifest_check m = Inr m'" "i < em_chunk_count m"
  shows "chunk_offset m i + enc_len m i \<le> ciphertext_size m"
proof -
  let ?c = "em_chunk_size m" and ?p = "em_plaintext_size m"
  have "i * ?c + min ?c (?p - i * ?c) \<le> ?p" using chunk_start[OF assms] by linarith
  moreover have "i * EUF_GCM_TAG_SIZE + EUF_GCM_TAG_SIZE \<le> em_chunk_count m * EUF_GCM_TAG_SIZE"
    using assms(2) mult_le_mono1[of "Suc i" "em_chunk_count m" EUF_GCM_TAG_SIZE] by simp
  ultimately show ?thesis by (simp add: chunk_offset_def enc_len_def ciphertext_size_def algebra_simps)
qed

lemma region_before: "i < j \<Longrightarrow> chunk_offset m i + enc_len m i \<le> chunk_offset m j"
proof -
  assume "i < j"
  then have "Suc i * (em_chunk_size m + EUF_GCM_TAG_SIZE) \<le> j * (em_chunk_size m + EUF_GCM_TAG_SIZE)"
    by (intro mult_le_mono1) simp
  then show ?thesis by (simp add: chunk_offset_def enc_len_def)
qed

lemma length_write_at [simp]: "off + length bs \<le> length content \<Longrightarrow> length (write_at off bs content) = length content"
  by (simp add: write_at_def)

lemma write_at_inside: "off + length bs \<le> length content \<Longrightarrow> take (length bs) (drop off (write_at off bs content)) = bs"
  by (simp add: write_at_def)

lemma write_at_outside:
  assumes "off + length bs \<le> length content" "k + n \<le> length content" "k + n \<le> off \<or> off + length bs \<le> k"
  shows "take n (drop k (write_at off bs content)) = take n (drop k content)"
proof (rule nth_equalityI)
  show "length (take n (drop k (write_at off bs content))) = length (take n (drop k content))" using assms by simp
  fix x assume "x < length (take n (drop k (write_at off bs content)))"
  then have x: "x < n" "k + x < length content" using assms by auto
  have "write_at off bs content ! (k + x) = content ! (k + x)"
    using x assms by (auto simp: write_at_def nth_append)
  then show "take n (drop k (write_at off bs content)) ! x = take n (drop k content) ! x" using x assms by simp
qed

lemma region_write_same:
  "manifest_check m = Inr m' \<Longrightarrow> i < em_chunk_count m \<Longrightarrow> length bs = enc_len m i \<Longrightarrow> length content = ciphertext_size m \<Longrightarrow>
     region m i (write_at (chunk_offset m i) bs content) = bs"
  using region_end[of m m' i] write_at_inside[of "chunk_offset m i" bs content] by (simp add: region_def)

lemma region_write_other:
  assumes "manifest_check m = Inr m'" "i < em_chunk_count m" "j < em_chunk_count m" "i \<noteq> j" "length bs = enc_len m i"
    "length content = ciphertext_size m"
  shows "region m j (write_at (chunk_offset m i) bs content) = region m j content"
  unfolding region_def
proof (rule write_at_outside)
  show "chunk_offset m j + enc_len m j \<le> chunk_offset m i \<or> chunk_offset m i + length bs \<le> chunk_offset m j"
    using region_before[of i j m] region_before[of j i m] assms(4,5) by (cases "i < j") auto
qed (use region_end[OF assms(1)] assms in simp_all)

text \<open>The regions tile a file of the right size.\<close>

lemma region_tiles_upto:
  "\<forall>i < k. chunk_offset m i + (em_chunk_size m + EUF_GCM_TAG_SIZE) \<le> length content \<and> enc_len m i = em_chunk_size m + EUF_GCM_TAG_SIZE \<Longrightarrow>
     concat (map (\<lambda>i. region m i content) [0..<k]) = take (chunk_offset m k) content"
proof (induction k)
  case (Suc k)
  let ?w = "em_chunk_size m + EUF_GCM_TAG_SIZE"
  have k: "region m k content = take ?w (drop (chunk_offset m k) content)" using Suc.prems by (simp add: region_def)
  have "take (chunk_offset m k) content @ take ?w (drop (chunk_offset m k) content) = take (chunk_offset m k + ?w) content"
    by (simp add: take_add)
  moreover have "chunk_offset m (Suc k) = chunk_offset m k + ?w" by (simp add: chunk_offset_def)
  ultimately show ?case using Suc k by simp
qed (simp add: chunk_offset_def)

lemma region_tiles:
  assumes m: "manifest_check m = Inr m'" and len: "length content = ciphertext_size m"
  shows "concat (map (\<lambda>i. region m i content) [0..<em_chunk_count m]) = content"
proof (cases "em_chunk_count m")
  case 0
  then have "em_plaintext_size m = 0" using manifest_facts(5)[OF m] by simp
  then show ?thesis using 0 len by (simp add: ciphertext_size_def)
next
  case (Suc k)
  let ?c = "em_chunk_size m" and ?p = "em_plaintext_size m"
  have last: "k * ?c < ?p" using chunk_start[OF m, of k] Suc by simp
  have "?p \<le> Suc k * ?c"
    using manifest_facts(3,5)[OF m] dividend_less_times_div[of ?c "?p + 8388607"] Suc by (simp add: algebra_simps)
  then have min: "min ?c (?p - k * ?c) = ?p - k * ?c" by simp
  have lenk: "chunk_offset m k + enc_len m k = ciphertext_size m"
    using last min Suc by (simp add: chunk_offset_def enc_len_def ciphertext_size_def algebra_simps)
  have full: "enc_len m i = ?c + EUF_GCM_TAG_SIZE \<and> chunk_offset m i + (?c + EUF_GCM_TAG_SIZE) \<le> length content" if "i < k" for i
  proof -
    have "Suc i * ?c \<le> k * ?c" using that by (intro mult_le_mono1) simp
    then have "?c \<le> ?p - i * ?c" using last by simp
    then have e: "enc_len m i = ?c + EUF_GCM_TAG_SIZE" by (simp add: enc_len_def)
    have "chunk_offset m i + enc_len m i \<le> ciphertext_size m" using region_end[OF m, of i] that Suc by simp
    then show ?thesis using e len by simp
  qed
  have "concat (map (\<lambda>i. region m i content) [0..<k]) = take (chunk_offset m k) content"
    using full by (intro region_tiles_upto) auto
  moreover have "region m k content = drop (chunk_offset m k) content" using lenk len by (simp add: region_def)
  ultimately show ?thesis using Suc by simp
qed

subsection \<open>The invariant of the disk\<close>

definition content_ok :: "(bytes \<Rightarrow> bytes) \<Rightarrow> stored_file \<Rightarrow> bytes \<Rightarrow> bool" where
  "content_ok sha r content \<longleftrightarrow> length content = ciphertext_size (sf_manifest r) \<and>
     (\<forall>ch \<in> set (sf_chunks r). sha (region (sf_manifest r) (sc_index ch) content) = sc_sha256 ch)"

definition record_ok :: "string \<Rightarrow> stored_file \<Rightarrow> bool" where
  "record_ok i r \<longleftrightarrow> manifest_check (sf_manifest r) = Inr (sf_manifest r) \<and> sf_file_id r = i \<and>
     distinct (map sc_index (sf_chunks r)) \<and>
     (\<forall>ch \<in> set (sf_chunks r). sc_index ch < em_chunk_count (sf_manifest r) \<and>
        sc_length ch = enc_len (sf_manifest r) (sc_index ch)) \<and>
     (sf_status r \<noteq> Partial_File \<longrightarrow> length (sf_chunks r) = em_chunk_count (sf_manifest r))"

text \<open>A record agrees with whatever data of its identifier is there.\<close>

definition agrees :: "(bytes \<Rightarrow> bytes) \<Rightarrow> stored_file \<Rightarrow> bytes option \<Rightarrow> bytes option \<Rightarrow> bool" where
  "agrees sha r part full \<longleftrightarrow>
     (\<forall>c. part = Some c \<longrightarrow> sf_status r \<noteq> Complete_File \<and> content_ok sha r c) \<and>
     (\<forall>c. full = Some c \<longrightarrow> sf_status r \<noteq> Partial_File \<and> content_ok sha r c) \<and> (part = None \<or> full = None)"

definition disk_inv :: "(bytes \<Rightarrow> bytes) \<Rightarrow> enc_disk \<Rightarrow> bool" where
  "disk_inv sha d \<longleftrightarrow> dict_ok (ed_state d) \<and> dict_ok (ed_part d) \<and> dict_ok (ed_complete d) \<and>
     (\<forall>i sc. dict_get (ed_state d) i = Some sc \<longrightarrow>
        (\<exists>r. sc = Valid_Sidecar r \<and> record_ok i r \<and> agrees sha r (dict_get (ed_part d) i) (dict_get (ed_complete d) i)))"

lemma disk_inv_get:
  "disk_inv sha d \<Longrightarrow> dict_get (ed_state d) i = Some sc \<Longrightarrow>
     \<exists>r. sc = Valid_Sidecar r \<and> record_ok i r \<and> agrees sha r (dict_get (ed_part d) i) (dict_get (ed_complete d) i)"
  by (simp add: disk_inv_def)

text \<open>What makes one action safe at the moment it is taken.\<close>

fun safe_action :: "(bytes \<Rightarrow> bytes) \<Rightarrow> disk_action \<Rightarrow> enc_disk \<Rightarrow> bool" where
  "safe_action sha (Put_State i r) d =
     (record_ok i r \<and> agrees sha r (dict_get (ed_part d) i) (dict_get (ed_complete d) i))"
| "safe_action sha (Put_Part i c) d = (dict_get (ed_state d) i = None)"
| "safe_action sha (Write_Part i off bs) d =
     (\<forall>r. dict_get (ed_state d) i = Some (Valid_Sidecar r) \<longrightarrow>
        (\<exists>k < em_chunk_count (sf_manifest r). off = chunk_offset (sf_manifest r) k \<and> length bs = enc_len (sf_manifest r) k \<and>
           k \<notin> sc_index ` set (sf_chunks r)))"
| "safe_action sha (Publish i) d =
     (dict_get (ed_complete d) i = None \<and>
      (\<forall>r. dict_get (ed_state d) i = Some (Valid_Sidecar r) \<longrightarrow> sf_status r = Committing))"
| "safe_action sha _ d = True"

lemma content_ok_write:
  assumes ok: "record_ok i r" and c: "content_ok sha r content" and k: "k < em_chunk_count (sf_manifest r)"
    "length bs = enc_len (sf_manifest r) k" "k \<notin> sc_index ` set (sf_chunks r)"
  shows "content_ok sha r (write_at (chunk_offset (sf_manifest r) k) bs content)"
proof -
  let ?m = "sf_manifest r"
  have m: "manifest_check ?m = Inr ?m" using ok by (simp add: record_ok_def)
  have len: "length content = ciphertext_size ?m" using c by (simp add: content_ok_def)
  have room: "chunk_offset ?m k + length bs \<le> length content" using region_end[OF m k(1)] k(2) len by simp
  have "region ?m (sc_index ch) (write_at (chunk_offset ?m k) bs content) = region ?m (sc_index ch) content"
    if ch: "ch \<in> set (sf_chunks r)" for ch
  proof (rule region_write_other[OF m k(1) _ _ k(2) len])
    show "sc_index ch < em_chunk_count ?m" using ok ch by (simp add: record_ok_def)
    show "k \<noteq> sc_index ch" using k(3) ch by auto
  qed
  then show ?thesis using c room by (simp add: content_ok_def)
qed

lemma safe_action_inv:
  assumes inv: "disk_inv sha d" and safe: "safe_action sha a d"
  shows "disk_inv sha (apply_action a d)"
proof (cases a)
  case (Put_State i r)
  then show ?thesis using inv safe by (auto simp: disk_inv_def)
next
  case (Put_Part i c)
  then show ?thesis using inv safe by (auto simp: disk_inv_def)
next
  case (Write_Part i off bs)
  show ?thesis
  proof (cases "dict_get (ed_part d) i")
    case None
    then show ?thesis using inv Write_Part by simp
  next
    case (Some c)
    have "agrees sha r (Some (write_at off bs c)) (dict_get (ed_complete d) i)"
      if st: "dict_get (ed_state d) i = Some (Valid_Sidecar r)" for r
    proof -
      obtain k where k: "k < em_chunk_count (sf_manifest r)" "off = chunk_offset (sf_manifest r) k"
        "length bs = enc_len (sf_manifest r) k" "k \<notin> sc_index ` set (sf_chunks r)"
        using safe st Write_Part by auto
      have ok: "record_ok i r" "agrees sha r (Some c) (dict_get (ed_complete d) i)"
        using disk_inv_get[OF inv st] Some by auto
      then show ?thesis using content_ok_write[OF ok(1) _ k(1,3,4)] k(2) by (auto simp: agrees_def)
    qed
    then show ?thesis using inv Write_Part Some unfolding disk_inv_def by fastforce
  qed
next
  case (Publish i)
  show ?thesis
  proof (cases "dict_get (ed_part d) i")
    case None
    then show ?thesis using inv Publish by simp
  next
    case (Some c)
    have "agrees sha r None (Some c)" if st: "dict_get (ed_state d) i = Some (Valid_Sidecar r)" for r
    proof -
      have "agrees sha r (Some c) (dict_get (ed_complete d) i)" using disk_inv_get[OF inv st] Some by auto
      moreover have "sf_status r = Committing" using safe st Publish by auto
      ultimately show ?thesis by (simp add: agrees_def)
    qed
    then show ?thesis using inv Publish Some unfolding disk_inv_def by fastforce
  qed
next
  case (Drop_Part i)
  then show ?thesis using inv by (fastforce simp: disk_inv_def agrees_def)
next
  case (Drop_Complete i)
  then show ?thesis using inv by (fastforce simp: disk_inv_def agrees_def)
next
  case (Drop_State i)
  then show ?thesis using inv by (auto simp: disk_inv_def)
qed

lemma apply_actions_simps [simp]:
  "apply_actions [] d = d" "apply_actions (a # as) d = apply_actions as (apply_action a d)"
  "apply_actions (as @ bs) d = apply_actions bs (apply_actions as d)"
  by (simp_all add: apply_actions_def)

subsection \<open>Guarded action sequences\<close>

text \<open>\<open>all_actions G acts d\<close>: every action of the sequence satisfies its guard \<open>G\<close> at the moment it is taken.\<close>

fun all_actions :: "(disk_action \<Rightarrow> enc_disk \<Rightarrow> bool) \<Rightarrow> disk_action list \<Rightarrow> enc_disk \<Rightarrow> bool" where
  "all_actions G [] d = True"
| "all_actions G (a # as) d = (G a d \<and> all_actions G as (apply_action a d))"

lemma all_actions_append [simp]:
  "all_actions G (as @ bs) d = (all_actions G as d \<and> all_actions G bs (apply_actions as d))"
  by (induction as arbitrary: d) auto

lemma all_actions_uniform: "(\<And>a d. a \<in> set as \<Longrightarrow> G a d) \<Longrightarrow> all_actions G as d"
  by (induction as arbitrary: d) auto

text \<open>
  The interface between the operations and the disk: a guard that keeps an invariant and that a torn write still
  satisfies. What the guard admits is then safe to crash anywhere.
\<close>

locale guarded_disk =
  fixes G :: "disk_action \<Rightarrow> enc_disk \<Rightarrow> bool" and Inv :: "enc_disk \<Rightarrow> bool"
  assumes keeps: "Inv d \<Longrightarrow> G a d \<Longrightarrow> Inv (apply_action a d)"
    and tear: "G (Write_Part i off bs) d \<Longrightarrow> length junk = length bs \<Longrightarrow> G (Write_Part i off junk) d"
begin

lemma run_keeps: "Inv d \<Longrightarrow> all_actions G as d \<Longrightarrow> Inv (apply_actions as d)"
  by (induction as arbitrary: d) (auto intro: keeps)

lemma crash_guarded:
  assumes "all_actions G as d"
  shows "all_actions G (crashed_actions k junk as) d"
proof -
  have split: "all_actions G (take k as) d \<and> all_actions G (drop k as) (apply_actions (take k as) d)"
    using assms all_actions_append[of G "take k as" "drop k as" d] by simp
  show ?thesis
  proof (cases "\<exists>i off bs rest. drop k as = Write_Part i off bs # rest \<and> length junk = length bs")
    case True
    then show ?thesis using split by (auto simp: crashed_actions_def intro: tear)
  next
    case False
    then have "crashed_actions k junk as = take k as"
      by (auto simp: crashed_actions_def split: list.splits disk_action.splits)
    then show ?thesis using split by simp
  qed
qed

lemma step_keeps:
  assumes "Inv d" "ev = Done op \<or> ev = Crashed op k junk" "all_actions G (op_actions sha cfg op d) d"
  shows "Inv (enc_step sha cfg d ev)"
  using assms run_keeps crash_guarded[of "op_actions sha cfg op d" d k junk] by auto

end

interpretation invariant: guarded_disk "safe_action sha" "disk_inv sha" for sha
  by unfold_locales (auto intro: safe_action_inv)

end
