(* ===== verification/Encrypted_Recovery.thy ===== *)
theory Encrypted_Recovery
  imports Encrypted_Storage "HOL-Library.Multiset"
begin

section \<open>Crash safety and recovery of encrypted transfers\<close>

text \<open>
  Every operation of \<open>Encrypted_Storage\<close> takes only safe actions, so the disk invariant holds after every
  history of operations and crashes; \<open>reconcile\<close> then leaves a settled disk, a chunk that was acknowledged
  stays readable, and a completed file holds exactly the chunks that were accepted.
\<close>

subsection \<open>Every operation takes safe actions only\<close>

lemma safe_deletes [simp]: "all_actions (safe_action sha) (delete_actions i) d"
  by (simp add: delete_actions_def)

lemma safe_delete_list [simp]: "all_actions (safe_action sha) (concat (map (\<lambda>r. delete_actions (f r)) rs)) d"
  by (rule all_actions_uniform) (auto simp: delete_actions_def)

lemma deleted [simp]:
  "dict_get (ed_state (apply_actions (delete_actions i) d)) j = (if j = i then None else dict_get (ed_state d) j)"
  "dict_get (ed_part (apply_actions (delete_actions i) d)) j = (if j = i then None else dict_get (ed_part d) j)"
  "dict_get (ed_complete (apply_actions (delete_actions i) d)) j = (if j = i then None else dict_get (ed_complete d) j)"
  by (simp_all add: delete_actions_def)

lemma read_state_Inr: "read_state i d = Inr r \<Longrightarrow> dict_get (ed_state d) i = Some (Valid_Sidecar r) \<and> sf_file_id r = i"
  by (auto simp: read_state_def split: option.splits sidecar.splits if_splits)

lemma read_state_inv:
  assumes "disk_inv sha d" "dict_get (ed_state d) i = Some sc"
  shows "\<exists>r. read_state i d = Inr r \<and> sc = Valid_Sidecar r"
  using disk_inv_get[OF assms] assms(2) by (auto simp: read_state_def record_ok_def)

lemma disk_inv_read:
  assumes "disk_inv sha d" "read_state i d = Inr r"
  shows "record_ok i r" "agrees sha r (dict_get (ed_part d) i) (dict_get (ed_complete d) i)"
  using disk_inv_get[OF assms(1)] read_state_Inr[OF assms(2)] by fastforce+

lemma get_file_cases:
  "get_file cfg now i d = (acts, res) \<Longrightarrow>
     (acts = [] \<and> (\<exists>e. res = Inl e)) \<or>
     (acts = [] \<and> res = Inr None \<and> dict_get (ed_state d) i = None) \<or>
     (\<exists>r. acts = [] \<and> res = Inr (Some r) \<and> read_state i d = Inr r \<and> \<not> (sf_status r = Partial_File \<and> expired_file cfg now r)) \<or>
     (\<exists>r. acts = delete_actions i \<and> res = Inr None \<and> read_state i d = Inr r \<and> sf_status r = Partial_File \<and>
        expired_file cfg now r)"
  by (auto simp: get_file_def split: option.splits sum.splits if_splits)

lemma require_file_cases:
  "require_file cfg now i d = (acts, res) \<Longrightarrow>
     (acts = [] \<and> (\<exists>e. res = Inl e)) \<or>
     (\<exists>r. acts = [] \<and> res = Inr r \<and> read_state i d = Inr r \<and> \<not> (sf_status r = Partial_File \<and> expired_file cfg now r)) \<or>
     (\<exists>r e. acts = delete_actions i \<and> res = Inl e \<and> read_state i d = Inr r \<and> sf_status r = Partial_File \<and>
        expired_file cfg now r)"
  using get_file_cases[of cfg now i d]
  by (cases "get_file cfg now i d") (auto simp: require_file_def split: sum.splits option.splits)

lemma safe_get_file: "get_file cfg now i d = (acts, res) \<Longrightarrow> all_actions (safe_action sha) acts d"
  using get_file_cases[of cfg now i d acts res] by auto

lemma safe_require_file: "require_file cfg now i d = (acts, res) \<Longrightarrow> all_actions (safe_action sha) acts d"
  using require_file_cases[of cfg now i d acts res] by auto

lemma safe_expire: "expire_actions cfg now d = Inr acts \<Longrightarrow> all_actions (safe_action sha) acts d"
  by (auto simp: expire_actions_def split: sum.splits)

lemma safe_create:
  assumes m: "manifest_check m = Inr m"
  shows "all_actions (safe_action sha) (fst (create_file cfg t1 t2 t3 space io_ok m d)) d"
proof (cases "expire_actions cfg t1 d")
  case (Inl e)
  then show ?thesis by (simp add: create_file_def)
next
  case (Inr a1)
  let ?d1 = "apply_actions a1 d" and ?i = "em_file_id m"
  obtain a2 res where g: "get_file cfg t2 ?i ?d1 = (a2, res)" by fastforce
  have s1: "all_actions (safe_action sha) a1 d" by (rule safe_expire[OF Inr])
  have s2: "all_actions (safe_action sha) a2 ?d1" by (rule safe_get_file[OF g])
  let ?d2 = "apply_actions a2 ?d1"
  let ?r = "\<lparr>sf_manifest = m, sf_status = Partial_File, sf_chunks = [], sf_created_at = t3, sf_updated_at = t3\<rparr>"
  have none: "dict_get (ed_state ?d2) ?i = None" if "res = Inr None"
    using get_file_cases[OF g] that by auto
  have put: "all_actions (safe_action sha) [Put_Part ?i (replicate (ciphertext_size m) 0), Put_State ?i ?r] ?d2"
    if "res = Inr None" "dict_get (ed_complete ?d2) ?i = None"
    using none[OF that(1)] that(2) m by (simp add: record_ok_def sf_file_id_def agrees_def content_ok_def)
  show ?thesis using Inr g s1 s2 put none
    by (auto simp: create_file_def Let_def split: sum.splits option.splits)
qed

subsection \<open>What a chunk write and a completion can do\<close>

definition record_with_chunk :: "stored_file \<Rightarrow> stored_chunk \<Rightarrow> time \<Rightarrow> stored_file" where
  "record_with_chunk r c now =
     r\<lparr>sf_chunks := sort_key sc_index (sf_chunks r @ [c]), sf_updated_at := max (sf_updated_at r) now\<rparr>"

lemma record_with_chunk_sel [simp]:
  "sf_manifest (record_with_chunk r c now) = sf_manifest r" "sf_status (record_with_chunk r c now) = sf_status r"
  "sf_file_id (record_with_chunk r c now) = sf_file_id r" "set (sf_chunks (record_with_chunk r c now)) = insert c (set (sf_chunks r))"
  "length (sf_chunks (record_with_chunk r c now)) = Suc (length (sf_chunks r))"
  "sf_updated_at (record_with_chunk r c now) = max (sf_updated_at r) now"
  by (auto simp: record_with_chunk_def sf_file_id_def)

lemma write_chunk_cases:
  assumes "write_chunk sha cfg t1 t2 i k ct mac d = (acts, res)"
  shows
    "(\<exists>e. res = Inl e \<and> (acts = [] \<or> (\<exists>r. acts = delete_actions i \<and> read_state i d = Inr r \<and>
        sf_status r = Partial_File \<and> expired_file cfg t1 r))) \<or>
     (\<exists>r ch content. acts = [] \<and> res = Inr (r, False) \<and> read_state i d = Inr r \<and> k < em_chunk_count (sf_manifest r) \<and>
        ch \<in> set (sf_chunks r) \<and> sc_index ch = k \<and> sc_sha256 ch = sha ct \<and> data_of_record r d = Some content \<and>
        region (sf_manifest r) k content = ct) \<or>
     (\<exists>r content. res = Inr (record_with_chunk r \<lparr>sc_index = k, sc_length = enc_len (sf_manifest r) k, sc_resume_mac = mac,
          sc_sha256 = sha ct\<rparr> t2, True) \<and>
        acts = [Write_Part i (chunk_offset (sf_manifest r) k) ct,
          Put_State i (record_with_chunk r \<lparr>sc_index = k, sc_length = enc_len (sf_manifest r) k, sc_resume_mac = mac,
            sc_sha256 = sha ct\<rparr> t2)] \<and>
        read_state i d = Inr r \<and> k < em_chunk_count (sf_manifest r) \<and> length ct = enc_len (sf_manifest r) k \<and>
        k \<notin> sc_index ` set (sf_chunks r) \<and> sf_status r = Partial_File \<and> dict_get (ed_part d) i = Some content \<and>
        length content = ciphertext_size (sf_manifest r))" (is "?fail \<or> ?dup \<or> ?fresh")
proof -
  obtain a0 res0 where q: "require_file cfg t1 i d = (a0, res0)" by fastforce
  show ?thesis
  proof (cases res0)
    case (Inl e)
    then show ?thesis using assms q require_file_cases[OF q] by (auto simp: write_chunk_def split: if_splits)
  next
    case (Inr r)
    then have a0: "a0 = []" and rs: "read_state i d = Inr r" using require_file_cases[OF q] by auto
    show ?thesis
    proof (cases "\<exists>e. res = Inl e")
      case True
      then show ?thesis using assms q Inr a0
        by (auto simp: write_chunk_def Let_def split: if_splits option.splits sum.splits)
    next
      case ok: False
      then have k: "k < em_chunk_count (sf_manifest r)" "length ct = enc_len (sf_manifest r) k"
        using assms q Inr by (auto simp: write_chunk_def encrypted_chunk_length_eq split: if_splits)
      show ?thesis
      proof (cases "find (\<lambda>c. sc_index c = k) (sf_chunks r)")
        case (Some ch)
        then have "ch \<in> set (sf_chunks r)" "sc_index ch = k" by (auto simp: find_Some_iff)
        then show ?thesis using assms q Inr a0 k ok rs Some
          by (auto simp: write_chunk_def encrypted_chunk_length_eq Let_def read_exact_def region_def
              split: if_splits option.splits)
      next
        case None
        then have "k \<notin> sc_index ` set (sf_chunks r)" by (auto simp: find_None_iff)
        then show ?thesis using assms q Inr a0 k ok rs None read_state_Inr[OF rs]
          by (auto simp: write_chunk_def encrypted_chunk_length_eq Let_def data_of_record_def record_with_chunk_def
              split: if_splits option.splits)
      qed
    qed
  qed
qed

lemma distinct_insert_sorted:
  "distinct (map f xs) \<Longrightarrow> f x \<notin> f ` set xs \<Longrightarrow> distinct (map f (sort_key f (xs @ [x])))"
proof -
  assume "distinct (map f xs)" "f x \<notin> f ` set xs"
  then have "distinct (map f (xs @ [x]))" by simp
  moreover have "mset (map f (sort_key f (xs @ [x]))) = mset (map f (xs @ [x]))" by (simp only: mset_map mset_sort)
  ultimately show ?thesis by (metis distinct_count_atmost_1 mset_eq_imp_distinct_iff)
qed

lemma record_with_chunk_ok:
  assumes "record_ok i r" "k < em_chunk_count (sf_manifest r)" "k \<notin> sc_index ` set (sf_chunks r)" "sf_status r = Partial_File"
    "sc_index c = k" "sc_length c = enc_len (sf_manifest r) k"
  shows "record_ok i (record_with_chunk r c now)"
proof -
  have "distinct (map sc_index (sf_chunks (record_with_chunk r c now)))"
    unfolding record_with_chunk_def using assms by (auto simp: record_ok_def intro!: distinct_insert_sorted)
  then show ?thesis using assms by (auto simp: record_ok_def)
qed

lemma safe_write:
  assumes inv: "disk_inv sha d"
  shows "all_actions (safe_action sha) (fst (write_chunk sha cfg t1 t2 i k ct mac d)) d"
proof -
  obtain acts res where w: "write_chunk sha cfg t1 t2 i k ct mac d = (acts, res)" by fastforce
  show ?thesis using write_chunk_cases[OF w]
  proof (elim disjE exE conjE)
    fix r :: stored_file and content
    let ?m = "sf_manifest r"
    let ?c = "\<lparr>sc_index = k, sc_length = enc_len ?m k, sc_resume_mac = mac, sc_sha256 = sha ct\<rparr>"
    assume acts: "acts = [Write_Part i (chunk_offset ?m k) ct, Put_State i (record_with_chunk r ?c t2)]"
      and rs: "read_state i d = Inr r" and k: "k < em_chunk_count ?m" "length ct = enc_len ?m k" "k \<notin> sc_index ` set (sf_chunks r)"
      and st: "sf_status r = Partial_File" and part: "dict_get (ed_part d) i = Some content"
      and len: "length content = ciphertext_size ?m"
    note ok = disk_inv_read[OF inv rs]
    have m: "manifest_check ?m = Inr ?m" using ok(1) by (simp add: record_ok_def)
    have state: "dict_get (ed_state d) i = Some (Valid_Sidecar r)" using read_state_Inr[OF rs] by simp
    have full: "dict_get (ed_complete d) i = None" and c: "content_ok sha r content"
      using ok(2) part by (auto simp: agrees_def)
    have "content_ok sha r (write_at (chunk_offset ?m k) ct content)" by (rule content_ok_write[OF ok(1) c k])
    then have "content_ok sha (record_with_chunk r ?c t2) (write_at (chunk_offset ?m k) ct content)"
      using region_write_same[OF m k(1,2) len] by (simp add: content_ok_def)
    moreover have "record_ok i (record_with_chunk r ?c t2)" by (rule record_with_chunk_ok[OF ok(1) k(1,3) st]) simp_all
    ultimately show ?thesis using w acts state k part full st by (auto simp: agrees_def)
  qed (use w in auto)
qed

definition record_complete :: "stored_file \<Rightarrow> time \<Rightarrow> stored_file" where
  "record_complete r now = r\<lparr>sf_status := Complete_File, sf_updated_at := max (sf_updated_at r) now\<rparr>"

definition record_committing :: "stored_file \<Rightarrow> time \<Rightarrow> stored_file" where
  "record_committing r now = r\<lparr>sf_status := Committing, sf_updated_at := max (sf_updated_at r) now\<rparr>"

lemma record_status_sel [simp]:
  "sf_manifest (record_complete r t) = sf_manifest r" "sf_chunks (record_complete r t) = sf_chunks r"
  "sf_status (record_complete r t) = Complete_File" "sf_file_id (record_complete r t) = sf_file_id r"
  "sf_updated_at (record_complete r t) = max (sf_updated_at r) t"
  "sf_manifest (record_committing r t) = sf_manifest r" "sf_chunks (record_committing r t) = sf_chunks r"
  "sf_status (record_committing r t) = Committing" "sf_file_id (record_committing r t) = sf_file_id r"
  "sf_updated_at (record_committing r t) = max (sf_updated_at r) t"
  by (simp_all add: record_complete_def record_committing_def sf_file_id_def)

lemma content_ok_status [simp]:
  "content_ok sha (record_complete r t) c = content_ok sha r c" "content_ok sha (record_committing r t) c = content_ok sha r c"
  by (simp_all add: content_ok_def)

lemma record_ok_complete [simp]:
  "record_ok i (record_complete r t) =
     (record_ok i r \<and> length (sf_chunks r) = em_chunk_count (sf_manifest r))"
  "record_ok i (record_committing r t) =
     (record_ok i r \<and> length (sf_chunks r) = em_chunk_count (sf_manifest r))"
  by (auto simp: record_ok_def)

lemma publish_cases:
  "publish_committing now r d = (acts, res) \<Longrightarrow>
     (acts = [] \<and> (\<exists>e. res = Inl e)) \<or>
     (\<exists>c. res = Inr (record_complete r now) \<and> length c = ciphertext_size (sf_manifest r) \<and>
        ((acts = [Publish (sf_file_id r), Put_State (sf_file_id r) (record_complete r now)] \<and>
            dict_get (ed_part d) (sf_file_id r) = Some c \<and> dict_get (ed_complete d) (sf_file_id r) = None) \<or>
         (acts = [Put_State (sf_file_id r) (record_complete r now)] \<and>
            dict_get (ed_part d) (sf_file_id r) = None \<and> dict_get (ed_complete d) (sf_file_id r) = Some c)))"
  by (auto simp: publish_committing_def Let_def record_complete_def split: option.splits if_splits)

lemma publish_succeeds:
  "dict_get (ed_part d) (sf_file_id r) = Some c \<and> dict_get (ed_complete d) (sf_file_id r) = None \<or>
     dict_get (ed_part d) (sf_file_id r) = None \<and> dict_get (ed_complete d) (sf_file_id r) = Some c \<Longrightarrow>
   length c = ciphertext_size (sf_manifest r) \<Longrightarrow>
   \<exists>acts. publish_committing now r d = (acts, Inr (record_complete r now))"
  by (auto simp: publish_committing_def Let_def record_complete_def)

lemma safe_publish:
  assumes p: "publish_committing now r d = (acts, res)" and ok: "record_ok i r" "sf_status r = Committing"
    and state: "dict_get (ed_state d) i = Some (Valid_Sidecar r)"
    and ag: "agrees sha r (dict_get (ed_part d) i) (dict_get (ed_complete d) i)"
  shows "all_actions (safe_action sha) acts d"
proof -
  have id: "sf_file_id r = i" and len: "length (sf_chunks r) = em_chunk_count (sf_manifest r)"
    using ok by (auto simp: record_ok_def)
  show ?thesis using publish_cases[OF p] id len ok state ag by (auto simp: agrees_def)
qed

lemma complete_cases:
  assumes "complete_file cfg t1 t2 t3 i d = (acts, res)"
  shows
    "(\<exists>e. res = Inl e \<and> (acts = [] \<or> (\<exists>r. acts = delete_actions i \<and> read_state i d = Inr r \<and>
        sf_status r = Partial_File \<and> expired_file cfg t1 r))) \<or>
     (\<exists>r. acts = [] \<and> res = Inr (r, False) \<and> read_state i d = Inr r \<and> sf_status r = Complete_File) \<or>
     (\<exists>r a2 res2. read_state i d = Inr r \<and> sf_status r = Committing \<and> acts = a2 \<and>
        length (sf_chunks r) = em_chunk_count (sf_manifest r) \<and> publish_committing t3 r d = (a2, res2) \<and>
        res = (case res2 of Inl e \<Rightarrow> Inl e | Inr r2 \<Rightarrow> Inr (r2, True))) \<or>
     (\<exists>r a2 res2. read_state i d = Inr r \<and> sf_status r = Partial_File \<and>
        length (sf_chunks r) = em_chunk_count (sf_manifest r) \<and>
        acts = Put_State i (record_committing r t2) # a2 \<and>
        publish_committing t3 (record_committing r t2) d = (a2, res2) \<and>
        res = (case res2 of Inl e \<Rightarrow> Inl e | Inr r2 \<Rightarrow> Inr (r2, True)))"
proof -
  obtain a0 res0 where q: "require_file cfg t1 i d = (a0, res0)" by fastforce
  show ?thesis
  proof (cases res0)
    case (Inl e)
    then show ?thesis using assms q require_file_cases[OF q] by (auto simp: complete_file_def)
  next
    case (Inr r)
    then have a0: "a0 = []" and rs: "read_state i d = Inr r" using require_file_cases[OF q] by auto
    show ?thesis
    proof (cases "sf_status r = Complete_File \<or> length (sf_chunks r) \<noteq> em_chunk_count (sf_manifest r)")
      case True
      then show ?thesis using assms q Inr a0 rs by (auto simp: complete_file_def split: if_splits)
    next
      case False
      obtain a2 res2 where p: "publish_committing t3 (if sf_status r = Partial_File then record_committing r t2 else r) d = (a2, res2)"
        by fastforce
      show ?thesis
      proof (cases "sf_status r")
        case Partial_File
        then show ?thesis using assms q Inr a0 rs False p
          by (auto simp: complete_file_def Let_def record_committing_def split: sum.splits)
      next
        case Committing
        then show ?thesis using assms q Inr a0 rs False p
          by (auto simp: complete_file_def Let_def split: sum.splits)
      qed (use False in simp)
    qed
  qed
qed

lemma publish_state_irrelevant:
  "publish_committing now r (d\<lparr>ed_state := s\<rparr>) = publish_committing now r d"
  by (simp add: publish_committing_def)

lemma safe_complete:
  assumes inv: "disk_inv sha d"
  shows "all_actions (safe_action sha) (fst (complete_file cfg t1 t2 t3 i d)) d"
proof -
  obtain acts res where c: "complete_file cfg t1 t2 t3 i d = (acts, res)" by fastforce
  show ?thesis using complete_cases[OF c]
  proof (elim disjE exE conjE)
    fix r a2 res2
    assume rs: "read_state i d = Inr r" and st: "sf_status r = Committing" and a: "acts = a2"
      and p: "publish_committing t3 r d = (a2, res2)"
    show ?thesis
      using safe_publish[OF p disk_inv_read(1)[OF inv rs] st _ disk_inv_read(2)[OF inv rs]] read_state_Inr[OF rs] c a by simp
  next
    fix r a2 res2
    assume rs: "read_state i d = Inr r" and st: "sf_status r = Partial_File" and a: "acts = Put_State i (record_committing r t2) # a2"
      and len: "length (sf_chunks r) = em_chunk_count (sf_manifest r)"
      and p: "publish_committing t3 (record_committing r t2) d = (a2, res2)"
    let ?d1 = "apply_action (Put_State i (record_committing r t2)) d"
    have put: "record_ok i (record_committing r t2)"
        "agrees sha (record_committing r t2) (dict_get (ed_part d) i) (dict_get (ed_complete d) i)"
      using disk_inv_read[OF inv rs] len st by (auto simp: agrees_def)
    have "publish_committing t3 (record_committing r t2) ?d1 = (a2, res2)" using p by (simp add: publish_state_irrelevant)
    from safe_publish[OF this put(1)] put(2) have "all_actions (safe_action sha) a2 ?d1" by simp
    then show ?thesis using c a put by simp
  qed (use c in auto)
qed

subsection \<open>Recovery settles the disk\<close>

text \<open>The artifacts of one identifier after a restart: all gone, or one well-formed record and the one file it needs.\<close>

definition settled_id :: "(bytes \<Rightarrow> bytes) \<Rightarrow> string \<Rightarrow> enc_disk \<Rightarrow> bool" where
  "settled_id sha i d \<longleftrightarrow>
     (case dict_get (ed_state d) i of
        None \<Rightarrow> dict_get (ed_part d) i = None \<and> dict_get (ed_complete d) i = None
      | Some sc \<Rightarrow> (\<exists>r c. sc = Valid_Sidecar r \<and> record_ok i r \<and> content_ok sha r c \<and>
           ((sf_status r = Partial_File \<and> dict_get (ed_part d) i = Some c \<and> dict_get (ed_complete d) i = None) \<or>
            (sf_status r = Complete_File \<and> dict_get (ed_part d) i = None \<and> dict_get (ed_complete d) i = Some c))))"

definition settled_disk :: "(bytes \<Rightarrow> bytes) \<Rightarrow> enc_disk \<Rightarrow> bool" where
  "settled_disk sha d \<longleftrightarrow> (\<forall>i. settled_id sha i d)"

fun action_id :: "disk_action \<Rightarrow> string" where
  "action_id (Put_State i r) = i" | "action_id (Put_Part i c) = i" | "action_id (Write_Part i off bs) = i"
| "action_id (Publish i) = i" | "action_id (Drop_Part i) = i" | "action_id (Drop_Complete i) = i"
| "action_id (Drop_State i) = i"

lemma untouched_action:
  "action_id a \<noteq> j \<Longrightarrow> dict_get (ed_state (apply_action a d)) j = dict_get (ed_state d) j \<and>
     dict_get (ed_part (apply_action a d)) j = dict_get (ed_part d) j \<and>
     dict_get (ed_complete (apply_action a d)) j = dict_get (ed_complete d) j"
  by (cases a) (auto split: option.splits)

lemma untouched:
  "j \<notin> action_id ` set acts \<Longrightarrow> dict_get (ed_state (apply_actions acts d)) j = dict_get (ed_state d) j \<and>
     dict_get (ed_part (apply_actions acts d)) j = dict_get (ed_part d) j \<and>
     dict_get (ed_complete (apply_actions acts d)) j = dict_get (ed_complete d) j"
  by (induction acts arbitrary: d) (auto simp: untouched_action)

lemma untouched_settled: "j \<notin> action_id ` set acts \<Longrightarrow> settled_id sha j (apply_actions acts d) = settled_id sha j d"
  using untouched[of j acts d] by (simp add: settled_id_def cong: option.case_cong)

lemma record_ok_id: "record_ok i r \<Longrightarrow> file_id_bytes i = Inr (hex_pairs i) \<and> sf_file_id r = i"
  using manifest_facts(9)[of "sf_manifest r" "sf_manifest r"] by (auto simp: record_ok_def sf_file_id_def)

lemma reconcile_record_cases:
  assumes "reconcile_record now r d = (acts, res)" "record_ok i r"
  shows "(acts = [] \<and> (\<exists>e. res = Inl e)) \<or>
    (\<exists>c. acts = [] \<and> res = Inr r \<and> sf_status r = Partial_File \<and> dict_get (ed_part d) i = Some c \<and>
       dict_get (ed_complete d) i = None) \<or>
    (\<exists>c. acts = [] \<and> res = Inr r \<and> sf_status r = Complete_File \<and> dict_get (ed_part d) i = None \<and>
       dict_get (ed_complete d) i = Some c) \<or>
    (sf_status r = Committing \<and> publish_committing now r d = (acts, res))"
  using assms record_ok_id[OF assms(2)]
  by (auto simp: reconcile_record_def Let_def split: enc_status.splits option.splits if_splits)

lemma publish_ids:
  "publish_committing now r d = (acts, res) \<Longrightarrow> action_id ` set acts \<subseteq> {sf_file_id r}"
  using publish_cases[of now r d acts res] by auto

text \<open>One sidecar: safe, local to its identifier, and settled, with the record it keeps.\<close>

lemma reconcile_one_spec:
  assumes inv: "disk_inv sha d" and state: "dict_get (ed_state d) i = Some sc" and one: "reconcile_one now i d = (acts, kept)"
  shows "all_actions (safe_action sha) acts d \<and> action_id ` set acts \<subseteq> {i} \<and> settled_id sha i (apply_actions acts d) \<and>
    dict_get (ed_state (apply_actions acts d)) i = map_option Valid_Sidecar kept"
proof -
  obtain r where r: "sc = Valid_Sidecar r" "record_ok i r" "agrees sha r (dict_get (ed_part d) i) (dict_get (ed_complete d) i)"
    using disk_inv_get[OF inv state] by auto
  have id: "file_id_bytes i = Inr (hex_pairs i)" "sf_file_id r = i" using record_ok_id[OF r(2)] by auto
  have rs: "read_state i d = Inr r" using state r(1) id by (simp add: read_state_def)
  have len: "sf_status r \<noteq> Partial_File \<Longrightarrow> length (sf_chunks r) = em_chunk_count (sf_manifest r)"
    using r(2) by (simp add: record_ok_def)
  obtain a0 res where q: "reconcile_record now r d = (a0, res)" by fastforce
  have res: "kept = (case res of Inl e \<Rightarrow> None | Inr r' \<Rightarrow> Some r')" "acts = (case res of Inl e \<Rightarrow> a0 @ delete_actions i | Inr r' \<Rightarrow> a0)"
    using one id rs q by (auto simp: reconcile_one_def split: sum.splits)
  have st: "dict_get (ed_state d) i = Some (Valid_Sidecar r)" using state r(1) by simp
  show ?thesis using reconcile_record_cases[OF q r(2)]
  proof (elim disjE exE conjE)
    assume c: "sf_status r = Committing" and p: "publish_committing now r d = (a0, res)"
    have safe: "all_actions (safe_action sha) a0 d" by (rule safe_publish[OF p r(2) c st r(3)])
    show ?thesis using publish_cases[OF p] res id safe r(2,3) len c
      by (auto simp: settled_id_def delete_actions_def agrees_def)
  qed (use res st r len id in \<open>auto simp: settled_id_def delete_actions_def agrees_def\<close>)
qed

lemma reconcile_loop_spec:
  assumes "disk_inv sha d" "distinct ids" "\<forall>i \<in> set ids. dict_get (ed_state d) i \<noteq> None" "reconcile_loop now ids d = (acts, kept)"
  shows "all_actions (safe_action sha) acts d \<and> action_id ` set acts \<subseteq> set ids \<and>
    (\<forall>i \<in> set ids. settled_id sha i (apply_actions acts d)) \<and>
    set kept = {r. \<exists>i \<in> set ids. dict_get (ed_state (apply_actions acts d)) i = Some (Valid_Sidecar r)}"
  using assms
proof (induction ids arbitrary: d acts kept)
  case (Cons i ids)
  obtain a1 k1 where one: "reconcile_one now i d = (a1, k1)" by fastforce
  let ?d1 = "apply_actions a1 d"
  obtain a2 k2 where loop: "reconcile_loop now ids ?d1 = (a2, k2)" by fastforce
  have acts: "acts = a1 @ a2" "kept = (case k1 of None \<Rightarrow> k2 | Some r \<Rightarrow> r # k2)"
    using Cons.prems(4) one loop by simp_all
  obtain sc where "dict_get (ed_state d) i = Some sc" using Cons.prems(3) by auto
  note 1 = reconcile_one_spec[OF Cons.prems(1) this one]
  have inv: "disk_inv sha ?d1" using 1 Cons.prems(1) by (auto intro: invariant.run_keeps)
  have same: "dict_get (ed_state ?d1) j = dict_get (ed_state d) j" if "j \<in> set ids" for j
    using untouched[of j a1 d] 1 that Cons.prems(2) by auto
  have 2: "all_actions (safe_action sha) a2 ?d1 \<and> action_id ` set a2 \<subseteq> set ids \<and>
    (\<forall>i \<in> set ids. settled_id sha i (apply_actions a2 ?d1)) \<and>
    set k2 = {r. \<exists>i \<in> set ids. dict_get (ed_state (apply_actions a2 ?d1)) i = Some (Valid_Sidecar r)}"
    by (rule Cons.IH[OF inv _ _ loop]) (use Cons.prems same in auto)
  have away: "i \<notin> action_id ` set a2" using 2 Cons.prems(2) by auto
  have "settled_id sha i (apply_actions a2 ?d1)" using untouched_settled[OF away, of sha ?d1] 1 by simp
  moreover have "dict_get (ed_state (apply_actions a2 ?d1)) i = map_option Valid_Sidecar k1" using untouched[OF away, of ?d1] 1 by simp
  moreover have "action_id ` set acts \<subseteq> set (i # ids)" using 1 2 acts by auto
  ultimately show ?case using 1 2 acts by (auto split: option.splits)
qed simp

lemma sweep_part:
  "ed_state (apply_actions (map Drop_Part xs @ map Drop_Complete ys) d) = ed_state d"
  "dict_get (ed_part (apply_actions (map Drop_Part xs @ map Drop_Complete ys) d)) i = (if i \<in> set xs then None else dict_get (ed_part d) i)"
  "dict_get (ed_complete (apply_actions (map Drop_Part xs @ map Drop_Complete ys) d)) i =
     (if i \<in> set ys then None else dict_get (ed_complete d) i)"
proof -
  have p: "ed_state (apply_actions (map Drop_Part xs) d) = ed_state d \<and> ed_complete (apply_actions (map Drop_Part xs) d) = ed_complete d \<and>
    dict_get (ed_part (apply_actions (map Drop_Part xs) d)) i = (if i \<in> set xs then None else dict_get (ed_part d) i)" for d
    by (induction xs arbitrary: d) auto
  have c: "ed_state (apply_actions (map Drop_Complete ys) d) = ed_state d \<and> ed_part (apply_actions (map Drop_Complete ys) d) = ed_part d \<and>
    dict_get (ed_complete (apply_actions (map Drop_Complete ys) d)) i = (if i \<in> set ys then None else dict_get (ed_complete d) i)" for d
    by (induction ys arbitrary: d) auto
  show "ed_state (apply_actions (map Drop_Part xs @ map Drop_Complete ys) d) = ed_state d"
    "dict_get (ed_part (apply_actions (map Drop_Part xs @ map Drop_Complete ys) d)) i = (if i \<in> set xs then None else dict_get (ed_part d) i)"
    "dict_get (ed_complete (apply_actions (map Drop_Part xs @ map Drop_Complete ys) d)) i =
     (if i \<in> set ys then None else dict_get (ed_complete d) i)"
    using p[of d] c[of "apply_actions (map Drop_Part xs) d"] by simp_all
qed

lemma dict_get_keys: "i \<in> set (map fst d) \<longleftrightarrow> dict_get d i \<noteq> None"
  by (simp add: map_of_eq_None_iff)

lemma reconcile_settles:
  assumes inv: "disk_inv sha d"
  shows "all_actions (safe_action sha) (reconcile now d) d \<and> settled_disk sha (apply_actions (reconcile now d) d)"
proof -
  obtain acts kept where loop: "reconcile_loop now (state_ids d) d = (acts, kept)" by fastforce
  let ?d1 = "apply_actions acts d"
  let ?parts = "map sf_file_id (filter (\<lambda>r. sf_status r = Partial_File) kept)"
  let ?fulls = "map sf_file_id (filter (\<lambda>r. sf_status r \<noteq> Partial_File) kept)"
  let ?xs = "filter (\<lambda>i. i \<notin> set ?parts) (map fst (ed_part ?d1))" and ?ys = "filter (\<lambda>i. i \<notin> set ?fulls) (map fst (ed_complete ?d1))"
  have rec: "reconcile now d = acts @ (map Drop_Part ?xs @ map Drop_Complete ?ys)" using loop by (simp add: reconcile_def Let_def)
  have ids: "distinct (state_ids d)" "\<forall>i \<in> set (state_ids d). dict_get (ed_state d) i \<noteq> None"
    using inv dict_get_keys[of _ "ed_state d"] by (auto simp: state_ids_def disk_inv_def)
  note L = reconcile_loop_spec[OF inv ids loop]
  have sweep: "all_actions (safe_action sha) (map Drop_Part ?xs @ map Drop_Complete ?ys) ?d1"
    by (rule all_actions_uniform) auto
  obtain d2 where d2: "d2 = apply_actions (map Drop_Part ?xs @ map Drop_Complete ?ys) ?d1" by simp
  have S: "ed_state d2 = ed_state ?d1" "dict_get (ed_part d2) i = (if i \<in> set ?xs then None else dict_get (ed_part ?d1) i)"
    "dict_get (ed_complete d2) i = (if i \<in> set ?ys then None else dict_get (ed_complete ?d1) i)" for i
    unfolding d2 by (rule sweep_part)+
  have "settled_id sha i d2" for i
  proof (cases "i \<in> set (state_ids d)")
    case False
    then have no: "dict_get (ed_state ?d1) i = None"
      using untouched[of i acts d] L dict_get_keys[of i "ed_state d"] by (auto simp: state_ids_def)
    have drop: "i \<notin> sf_file_id ` set kept"
    proof
      assume "i \<in> sf_file_id ` set kept"
      then obtain r j where r: "sf_file_id r = i" "j \<in> set (state_ids d)" "dict_get (ed_state ?d1) j = Some (Valid_Sidecar r)"
        using L by auto
      then have "j = i" using L record_ok_id[of j r] by (auto simp: settled_id_def)
      then show False using False r by simp
    qed
    have "i \<notin> set ?parts" "i \<notin> set ?fulls" using drop by auto
    then show ?thesis using no dict_get_keys[of i "ed_part ?d1"] dict_get_keys[of i "ed_complete ?d1"]
      by (simp add: settled_id_def S)
  next
    case True
    then have s: "settled_id sha i ?d1" using L by simp
    show ?thesis
    proof (cases "dict_get (ed_state ?d1) i")
      case None
      then show ?thesis using s by (simp add: settled_id_def S)
    next
      case (Some sc)
      then obtain r where r: "sc = Valid_Sidecar r" "record_ok i r" using s by (auto simp: settled_id_def)
      have "r \<in> set kept" using L True Some r by auto
      then have keep: "sf_status r = Partial_File \<Longrightarrow> i \<in> set ?parts" "sf_status r \<noteq> Partial_File \<Longrightarrow> i \<in> set ?fulls"
        using record_ok_id[OF r(2)] by force+
      then show ?thesis using s Some r by (auto simp: settled_id_def S)
    qed
  qed
  then show ?thesis using L sweep rec d2 by (simp add: settled_disk_def)
qed

lemma op_safe:
  assumes inv: "disk_inv sha d"
  shows "all_actions (safe_action sha) (op_actions sha cfg op d) d"
proof (cases op)
  case (Op_Create_File t1 t2 t3 space io_ok m)
  show ?thesis
  proof (cases "manifest_check m")
    case (Inr m')
    then have "m' = m" using manifest_facts(1) by blast
    then show ?thesis using Op_Create_File Inr safe_create[of m] by simp
  qed (use Op_Create_File in simp)
next
  case (Op_Get t i)
  then show ?thesis by (cases "get_file cfg t i d") (auto intro: safe_get_file)
qed (use safe_write[OF inv] safe_complete[OF inv] reconcile_settles[OF inv] in
      \<open>auto split: sum.splits intro: safe_expire\<close>)

lemma inv_step: "disk_inv sha d \<Longrightarrow> disk_inv sha (enc_step sha cfg d ev)"
  by (cases ev) (auto intro!: invariant.step_keeps op_safe simp del: enc_step.simps)

lemma inv_run: "disk_inv sha d \<Longrightarrow> disk_inv sha (enc_run sha cfg d evs)"
  unfolding enc_run_def by (induction evs arbitrary: d) (simp_all add: inv_step del: enc_step.simps)

lemma inv_empty: "disk_inv sha empty_disk"
  by (simp add: disk_inv_def empty_disk_def)

lemma inv_history: "disk_inv sha (enc_run sha cfg empty_disk evs)"
  by (rule inv_run[OF inv_empty])

text \<open>
  C22. Crash safety. After any history of operations, each of which may be cut after any of its durable actions with
  the interrupted write torn, the recovery at start leaves a settled disk: every identifier has either no artifact
  at all, or a well-formed sidecar that is partial with its partial file or complete with its complete file, and that
  file has the announced size and matches the recorded hash of every chunk the sidecar lists.
\<close>

theorem recovery_settles_disk:
  "settled_disk sha (enc_run sha cfg empty_disk (evs @ [Done (Op_Reconcile now)]))"
  using reconcile_settles[OF inv_history[of sha cfg evs], of now] by (simp add: enc_run_def)

subsection \<open>Acknowledged chunks stay readable\<close>

definition has_chunk :: "euf_manifest \<Rightarrow> string \<Rightarrow> nat \<Rightarrow> bytes \<Rightarrow> time \<Rightarrow> enc_disk \<Rightarrow> bool" where
  "has_chunk m i k ct u d \<longleftrightarrow>
     (\<exists>r c. dict_get (ed_state d) i = Some (Valid_Sidecar r) \<and> sf_manifest r = m \<and> k \<in> sc_index ` set (sf_chunks r) \<and>
        u \<le> sf_updated_at r \<and> (dict_get (ed_part d) i = Some c \<or> dict_get (ed_complete d) i = Some c) \<and> region m k c = ct)"

fun spares :: "euf_manifest \<Rightarrow> string \<Rightarrow> nat \<Rightarrow> time \<Rightarrow> disk_action \<Rightarrow> bool" where
  "spares m i k u (Put_State j r) =
     (j = i \<longrightarrow> sf_manifest r = m \<and> k \<in> sc_index ` set (sf_chunks r) \<and> u \<le> sf_updated_at r)"
| "spares m i k u (Drop_Part j) = (j \<noteq> i)"
| "spares m i k u (Drop_Complete j) = (j \<noteq> i)"
| "spares m i k u (Drop_State j) = (j \<noteq> i)"
| "spares m i k u _ = True"

lemma spares_other: "action_id a \<noteq> i \<Longrightarrow> spares m i k u a"
  by (cases a) auto

lemma has_chunk_untouched:
  "action_id a \<noteq> i \<Longrightarrow> has_chunk m i k ct u (apply_action a d) = has_chunk m i k ct u d"
  by (simp add: has_chunk_def untouched_action)

lemma has_chunk_step:
  assumes inv: "disk_inv sha d" and has: "has_chunk m i k ct u d" and safe: "safe_action sha a d" and sp: "spares m i k u a"
  shows "has_chunk m i k ct u (apply_action a d)"
proof (cases "action_id a = i")
  case False
  then show ?thesis using has by (simp add: has_chunk_untouched)
next
  case True
  obtain r c where r: "dict_get (ed_state d) i = Some (Valid_Sidecar r)" "sf_manifest r = m" "k \<in> sc_index ` set (sf_chunks r)"
    "u \<le> sf_updated_at r" "dict_get (ed_part d) i = Some c \<or> dict_get (ed_complete d) i = Some c" "region m k c = ct"
    using has unfolding has_chunk_def by blast
  have ok: "record_ok i r" "agrees sha r (dict_get (ed_part d) i) (dict_get (ed_complete d) i)"
    using disk_inv_get[OF inv r(1)] by auto
  have mm: "manifest_check m = Inr m" "k < em_chunk_count m" using ok(1) r(2,3) by (auto simp: record_ok_def)
  show ?thesis
  proof (cases a)
    case (Put_State j r')
    then show ?thesis using True r sp unfolding has_chunk_def by auto
  next
    case (Put_Part j c')
    then show ?thesis using True r(1) safe by simp
  next
    case (Write_Part j off bs)
    show ?thesis
    proof (cases "dict_get (ed_part d) i")
      case None
      then show ?thesis using Write_Part True has by simp
    next
      case (Some p)
      then have c: "p = c" "length c = ciphertext_size m" using ok(2) r(2,5) by (auto simp: agrees_def content_ok_def)
      obtain k' where k': "k' < em_chunk_count m" "off = chunk_offset m k'" "length bs = enc_len m k'" "k' \<noteq> k"
        using safe Write_Part True r(1,2,3) by fastforce
      have "region m k (write_at off bs c) = ct"
        using region_write_other[OF mm(1) k'(1) mm(2) k'(4,3) c(2)] k'(2) r(6) by simp
      then show ?thesis using Write_Part True Some c r(1-4) unfolding has_chunk_def by auto
    qed
  next
    case (Publish j)
    then show ?thesis using True r safe unfolding has_chunk_def by (cases "dict_get (ed_part d) i") auto
  qed (use True sp in simp_all)
qed

interpretation durable: guarded_disk "\<lambda>a d. safe_action sha a d \<and> spares m i k u a"
  "\<lambda>d. disk_inv sha d \<and> has_chunk m i k ct u d" for sha m i k u ct
  by unfold_locales (auto intro: safe_action_inv has_chunk_step)

lemma all_actions_spares:
  "all_actions (\<lambda>a d. safe_action sha a d \<and> spares m i k u a) acts d =
     (all_actions (safe_action sha) acts d \<and> (\<forall>a \<in> set acts. spares m i k u a))"
  by (induction acts arbitrary: d) auto

text \<open>The operations a chunk survives: no deletion of its file, and no clock reading past its time to live.\<close>

fun op_spares :: "enc_config \<Rightarrow> string \<Rightarrow> time \<Rightarrow> enc_op \<Rightarrow> bool" where
  "op_spares cfg i u (Op_Create_File t1 t2 t3 space io_ok m) = (t1 - u \<le> ec_incomplete_ttl cfg \<and> t2 - u \<le> ec_incomplete_ttl cfg)"
| "op_spares cfg i u (Op_Write_Chunk t1 t2 j index ct mac) = (t1 - u \<le> ec_incomplete_ttl cfg)"
| "op_spares cfg i u (Op_Complete t1 t2 t3 j) = (t1 - u \<le> ec_incomplete_ttl cfg)"
| "op_spares cfg i u (Op_Get t j) = (t - u \<le> ec_incomplete_ttl cfg)"
| "op_spares cfg i u (Op_Delete j) = (j \<noteq> i)"
| "op_spares cfg i u (Op_Expire t) = (t - u \<le> ec_incomplete_ttl cfg)"
| "op_spares cfg i u (Op_Reconcile t) = True"

fun event_spares :: "enc_config \<Rightarrow> string \<Rightarrow> time \<Rightarrow> enc_event \<Rightarrow> bool" where
  "event_spares cfg i u (Done op) = op_spares cfg i u op"
| "event_spares cfg i u (Crashed op k junk) = op_spares cfg i u op"

lemma has_chunk_read:
  assumes "disk_inv sha d" "has_chunk m i k ct u d"
  obtains r c where "read_state i d = Inr r" "dict_get (ed_state d) i = Some (Valid_Sidecar r)" "record_ok i r"
    "agrees sha r (dict_get (ed_part d) i) (dict_get (ed_complete d) i)" "sf_manifest r = m"
    "k \<in> sc_index ` set (sf_chunks r)" "u \<le> sf_updated_at r"
    "dict_get (ed_part d) i = Some c \<or> dict_get (ed_complete d) i = Some c" "region m k c = ct"
proof -
  obtain r c where r: "dict_get (ed_state d) i = Some (Valid_Sidecar r)" "sf_manifest r = m" "k \<in> sc_index ` set (sf_chunks r)"
    "u \<le> sf_updated_at r" "dict_get (ed_part d) i = Some c \<or> dict_get (ed_complete d) i = Some c" "region m k c = ct"
    using assms(2) unfolding has_chunk_def by blast
  moreover have "record_ok i r" "agrees sha r (dict_get (ed_part d) i) (dict_get (ed_complete d) i)"
    using disk_inv_get[OF assms(1) r(1)] by auto
  moreover have "read_state i d = Inr r" using r(1) calculation(7) by (simp add: read_state_def record_ok_def)
  ultimately show thesis using that by blast
qed

lemma spare_deletes: "j \<noteq> i \<Longrightarrow> a \<in> set (delete_actions j) \<Longrightarrow> spares m i k u a"
  by (auto simp: delete_actions_def)

lemma fresh_record:
  assumes "disk_inv sha d" "has_chunk m i k ct u d" "t - u \<le> ec_incomplete_ttl cfg" "read_state i d = Inr r"
  shows "\<not> expired_file cfg t r"
proof -
  obtain r' c where "read_state i d = Inr r'" "u \<le> sf_updated_at r'" by (rule has_chunk_read[OF assms(1,2)])
  then show ?thesis using assms(3,4) by (simp add: expired_file_def)
qed

lemma read_all_sound: "read_all d is = Inr rs \<Longrightarrow> r \<in> set rs \<Longrightarrow> read_state (sf_file_id r) d = Inr r"
proof (induction "is" arbitrary: rs)
  case (Cons i "is")
  then show ?case using read_state_Inr[of i d] by (auto split: sum.splits)
qed simp

lemma spare_expire:
  assumes "disk_inv sha d" "has_chunk m i k ct u d" "t - u \<le> ec_incomplete_ttl cfg" "expire_actions cfg t d = Inr acts" "a \<in> set acts"
  shows "spares m i k u a"
proof -
  obtain rs r where r: "read_all d (state_ids d) = Inr rs" "r \<in> set rs" "expired_file cfg t r" "a \<in> set (delete_actions (sf_file_id r))"
    using assms(4,5) by (auto simp: expire_actions_def list_files_locked_def split: sum.splits)
  then have "sf_file_id r \<noteq> i" using read_all_sound[OF r(1,2)] fresh_record[OF assms(1-3), of r] by auto
  then show ?thesis using r(4) spare_deletes by blast
qed

lemma spare_get:
  assumes "disk_inv sha d" "has_chunk m i k ct u d" "t - u \<le> ec_incomplete_ttl cfg" "get_file cfg t j d = (acts, res)" "a \<in> set acts"
  shows "spares m i k u a"
  using get_file_cases[OF assms(4)] fresh_record[OF assms(1-3)] assms(5) spare_deletes[of j i a m k u] by auto

lemma spare_create:
  assumes inv: "disk_inv sha d" and has: "has_chunk m i k ct u d" and t: "t1 - u \<le> ec_incomplete_ttl cfg" "t2 - u \<le> ec_incomplete_ttl cfg"
    and a: "a \<in> set (fst (create_file cfg t1 t2 t3 space io_ok m' d))"
  shows "spares m i k u a"
proof (cases "expire_actions cfg t1 d")
  case (Inl e)
  then show ?thesis using a by (simp add: create_file_def)
next
  case (Inr a1)
  let ?d1 = "apply_actions a1 d" and ?j = "em_file_id m'"
  obtain a2 res where g: "get_file cfg t2 ?j ?d1 = (a2, res)" by fastforce
  have s1: "\<forall>x \<in> set a1. spares m i k u x" using spare_expire[OF inv has t(1) Inr] by blast
  have d1: "disk_inv sha ?d1 \<and> has_chunk m i k ct u ?d1"
    using durable.run_keeps[where as = a1 and d = d] inv has s1 safe_expire[OF Inr] by (auto simp: all_actions_spares)
  have s2: "\<forall>x \<in> set a2. spares m i k u x" using spare_get[OF _ _ t(2) g] d1 by blast
  have new: "?j \<noteq> i" if "res = Inr None"
  proof
    assume j: "?j = i"
    have d2: "has_chunk m i k ct u (apply_actions a2 ?d1)"
      using durable.run_keeps[where as = a2 and d = ?d1] d1 s2 safe_get_file[OF g] by (auto simp: all_actions_spares)
    have "dict_get (ed_state (apply_actions a2 ?d1)) ?j = None" using get_file_cases[OF g] that by auto
    then show False using d2 j by (simp add: has_chunk_def)
  qed
  show ?thesis using a Inr g s1 s2 new by (auto simp: create_file_def Let_def split: sum.splits option.splits if_splits)
qed

lemma spare_write:
  assumes inv: "disk_inv sha d" and has: "has_chunk m i k ct u d" and t: "t1 - u \<le> ec_incomplete_ttl cfg"
    and w: "write_chunk sha cfg t1 t2 j k' ct' mac d = (acts, res)" and a: "a \<in> set acts"
  shows "spares m i k u a"
proof -
  obtain r c where r: "read_state i d = Inr r" "sf_manifest r = m" "k \<in> sc_index ` set (sf_chunks r)" "u \<le> sf_updated_at r"
    by (rule has_chunk_read[OF inv has])
  have "\<not> expired_file cfg t1 r" using fresh_record[OF inv has t r(1)] .
  then show ?thesis using write_chunk_cases[OF w] a r spare_deletes[of j i a m k u]
    by (cases "j = i") (auto simp: le_max_iff_disj)
qed

lemma spare_publish:
  assumes "publish_committing t r d = (acts, res)" "a \<in> set acts"
    "sf_file_id r = i \<Longrightarrow> sf_manifest r = m \<and> k \<in> sc_index ` set (sf_chunks r) \<and> u \<le> sf_updated_at r"
  shows "spares m i k u a"
  using publish_cases[OF assms(1)] assms(2,3) by (auto simp: le_max_iff_disj)

lemma spare_complete:
  assumes inv: "disk_inv sha d" and has: "has_chunk m i k ct u d" and t: "t1 - u \<le> ec_incomplete_ttl cfg"
    and c: "complete_file cfg t1 t2 t3 j d = (acts, res)" and a: "a \<in> set acts"
  shows "spares m i k u a"
proof -
  obtain r0 where r0: "read_state i d = Inr r0" "sf_manifest r0 = m" "k \<in> sc_index ` set (sf_chunks r0)" "u \<le> sf_updated_at r0"
    by (rule has_chunk_read[OF inv has])
  show ?thesis using complete_cases[OF c]
  proof (elim disjE exE conjE)
    fix r a2 res2
    assume "read_state j d = Inr r" "acts = a2" "publish_committing t3 r d = (a2, res2)"
    then show ?thesis using a r0 read_state_Inr[of j d r] by (auto intro: spare_publish)
  next
    fix r a2 res2
    assume j: "read_state j d = Inr r" "acts = Put_State j (record_committing r t2) # a2"
      and p: "publish_committing t3 (record_committing r t2) d = (a2, res2)"
    let ?r1 = "record_committing r t2"
    have same: "sf_file_id ?r1 = i \<Longrightarrow> sf_manifest ?r1 = m \<and> k \<in> sc_index ` set (sf_chunks ?r1) \<and> u \<le> sf_updated_at ?r1"
      using j r0 read_state_Inr[of j d r] by (auto simp: le_max_iff_disj)
    show ?thesis
    proof (cases "a \<in> set a2")
      case True
      show ?thesis by (rule spare_publish[OF p True same])
    next
      case False
      then show ?thesis using a j same read_state_Inr[of j d r] by auto
    qed
  next
    fix e r assume "acts = delete_actions j" "read_state j d = Inr r" "expired_file cfg t1 r"
    then show ?thesis using fresh_record[OF inv has t] a spare_deletes[of j i a m k u] by auto
  qed (use a in auto)
qed

text \<open>Recovery keeps a record whose data is there.\<close>

lemma reconcile_one_spares:
  assumes inv: "disk_inv sha d" and has: "has_chunk m i k ct u d" and state: "dict_get (ed_state d) j = Some sc"
    and one: "reconcile_one now j d = (acts, kept)" and a: "a \<in> set acts"
  shows "spares m i k u a"
proof (cases "j = i")
  case False
  then have "action_id a \<noteq> i" using reconcile_one_spec[OF inv state one] a by auto
  then show ?thesis by (rule spares_other)
next
  case True
  obtain r c where r: "read_state i d = Inr r" "dict_get (ed_state d) i = Some (Valid_Sidecar r)" "record_ok i r"
    "agrees sha r (dict_get (ed_part d) i) (dict_get (ed_complete d) i)" "sf_manifest r = m"
    "k \<in> sc_index ` set (sf_chunks r)" "u \<le> sf_updated_at r"
    "dict_get (ed_part d) i = Some c \<or> dict_get (ed_complete d) i = Some c"
    by (rule has_chunk_read[OF inv has])
  note id = record_ok_id[OF r(3)]
  show ?thesis
  proof (cases "sf_status r")
    case Committing
    have "\<exists>a0. publish_committing now r d = (a0, Inr (record_complete r now))"
      using publish_succeeds[of d r c now] r(4,8) id by (auto simp: agrees_def content_ok_def)
    then show ?thesis using one a True id r(1,5-7) Committing
      by (auto simp: reconcile_one_def reconcile_record_def intro: spare_publish)
  qed (use one a True id r in \<open>auto simp: reconcile_one_def reconcile_record_def agrees_def content_ok_def Let_def\<close>)
qed

lemma reconcile_loop_spares:
  assumes "disk_inv sha d" "has_chunk m i k ct u d" "distinct ids" "\<forall>j \<in> set ids. dict_get (ed_state d) j \<noteq> None"
    "reconcile_loop now ids d = (acts, kept)"
  shows "\<forall>a \<in> set acts. spares m i k u a"
  using assms
proof (induction ids arbitrary: d acts kept)
  case (Cons j ids)
  obtain a1 k1 where one: "reconcile_one now j d = (a1, k1)" by fastforce
  let ?d1 = "apply_actions a1 d"
  obtain a2 k2 where loop: "reconcile_loop now ids ?d1 = (a2, k2)" by fastforce
  obtain sc where state: "dict_get (ed_state d) j = Some sc" using Cons.prems(4) by auto
  note 1 = reconcile_one_spec[OF Cons.prems(1) state one]
  have s1: "\<forall>a \<in> set a1. spares m i k u a" using reconcile_one_spares[OF Cons.prems(1,2) state one] by blast
  have d1: "disk_inv sha ?d1 \<and> has_chunk m i k ct u ?d1"
    using durable.run_keeps[where as = a1 and d = d] Cons.prems(1,2) s1 1 by (auto simp: all_actions_spares)
  have same: "dict_get (ed_state ?d1) x = dict_get (ed_state d) x" if "x \<in> set ids" for x
    using untouched[of x a1 d] 1 that Cons.prems(3) by auto
  have "\<forall>a \<in> set a2. spares m i k u a"
    by (rule Cons.IH[OF _ _ _ _ loop]) (use d1 Cons.prems(3,4) same in auto)
  then show ?case using s1 Cons.prems(5) one loop by auto
qed simp

lemma reconcile_spares:
  assumes inv: "disk_inv sha d" and has: "has_chunk m i k ct u d" and a: "a \<in> set (reconcile now d)"
  shows "spares m i k u a"
proof -
  obtain acts kept where loop: "reconcile_loop now (state_ids d) d = (acts, kept)" by fastforce
  let ?d1 = "apply_actions acts d"
  have ids: "distinct (state_ids d)" "\<forall>j \<in> set (state_ids d). dict_get (ed_state d) j \<noteq> None"
    using inv dict_get_keys[of _ "ed_state d"] by (auto simp: state_ids_def disk_inv_def)
  note L = reconcile_loop_spec[OF inv ids loop]
  have s: "\<forall>x \<in> set acts. spares m i k u x" by (rule reconcile_loop_spares[OF inv has ids loop])
  have d1: "disk_inv sha ?d1 \<and> has_chunk m i k ct u ?d1"
    using durable.run_keeps[where as = acts and d = d] inv has s L by (auto simp: all_actions_spares)
  have "dict_get (ed_state d) i \<noteq> None" using has by (auto simp: has_chunk_def)
  then have mem: "i \<in> set (state_ids d)" using dict_get_keys[of i "ed_state d"] by (simp add: state_ids_def)
  obtain r c where r: "dict_get (ed_state ?d1) i = Some (Valid_Sidecar r)" "sf_file_id r = i"
    "dict_get (ed_part ?d1) i = Some c \<or> dict_get (ed_complete ?d1) i = Some c"
    using has_chunk_read[OF conjunct1[OF d1] conjunct2[OF d1]] by (metis record_ok_id)
  have kept: "r \<in> set kept" using L mem r(1) by auto
  have st: "sf_status r = Partial_File \<and> dict_get (ed_complete ?d1) i = None \<or>
      sf_status r = Complete_File \<and> dict_get (ed_part ?d1) i = None"
    using L mem r(1) by (auto simp: settled_id_def)
  have "a \<in> set acts \<or> (\<exists>j. a = Drop_Part j \<and> j \<in> set (map fst (ed_part ?d1)) \<and> j \<notin> sf_file_id ` {r \<in> set kept. sf_status r = Partial_File}) \<or>
    (\<exists>j. a = Drop_Complete j \<and> j \<in> set (map fst (ed_complete ?d1)) \<and> j \<notin> sf_file_id ` {r \<in> set kept. sf_status r \<noteq> Partial_File})"
    using a loop by (auto simp: reconcile_def Let_def)
  then show ?thesis
  proof (elim disjE exE conjE)
    fix j assume j: "a = Drop_Part j" "j \<in> set (map fst (ed_part ?d1))" "j \<notin> sf_file_id ` {r \<in> set kept. sf_status r = Partial_File}"
    have "j \<noteq> i"
    proof
      assume "j = i"
      then show False using j(2,3) st kept r(2) dict_get_keys[of i "ed_part ?d1"] by auto
    qed
    then show ?thesis using j(1) by simp
  next
    fix j assume j: "a = Drop_Complete j" "j \<in> set (map fst (ed_complete ?d1))" "j \<notin> sf_file_id ` {r \<in> set kept. sf_status r \<noteq> Partial_File}"
    have "j \<noteq> i"
    proof
      assume "j = i"
      then show False using j(2,3) st kept r(2) dict_get_keys[of i "ed_complete ?d1"] by auto
    qed
    then show ?thesis using j(1) by simp
  qed (use s in blast)
qed

lemma op_spares_actions:
  assumes inv: "disk_inv sha d" and has: "has_chunk m i k ct u d" and op: "op_spares cfg i u op"
    and a: "a \<in> set (op_actions sha cfg op d)"
  shows "spares m i k u a"
proof (cases op)
  case (Op_Create_File t1 t2 t3 space io_ok m')
  then show ?thesis using a op spare_create[OF inv has] by (auto split: sum.splits)
next
  case (Op_Write_Chunk t1 t2 j k' ct' mac)
  then show ?thesis using a op spare_write[OF inv has] by (metis op_actions.simps(2) op_spares.simps(2) prod.collapse)
next
  case (Op_Complete t1 t2 t3 j)
  then show ?thesis using a op spare_complete[OF inv has] by (metis op_actions.simps(3) op_spares.simps(3) prod.collapse)
next
  case (Op_Get t j)
  then show ?thesis using a op spare_get[OF inv has] by (metis op_actions.simps(4) op_spares.simps(4) prod.collapse)
next
  case (Op_Expire t)
  then show ?thesis using a op spare_expire[OF inv has, of t cfg] by (cases "expire_actions cfg t d") auto
next
  case (Op_Delete j)
  then show ?thesis using a op spare_deletes[of j i a m k u] by (auto split: sum.splits)
next
  case (Op_Reconcile t)
  then show ?thesis using a reconcile_spares[OF inv has] by auto
qed

lemma durable_step:
  assumes "disk_inv sha d" "has_chunk m i k ct u d" "event_spares cfg i u ev"
  shows "has_chunk m i k ct u (enc_step sha cfg d ev)"
proof -
  obtain op j junk where ev: "ev = Done op \<or> ev = Crashed op j junk" "op_spares cfg i u op" using assms(3) by (cases ev) auto
  have "all_actions (\<lambda>a d. safe_action sha a d \<and> spares m i k u a) (op_actions sha cfg op d) d"
    using op_safe[OF assms(1)] op_spares_actions[OF assms(1,2) ev(2)] by (simp add: all_actions_spares)
  from durable.step_keeps[OF _ ev(1) this, where ct = ct] assms(1,2) show ?thesis by blast
qed

lemma durable_run:
  "disk_inv sha d \<Longrightarrow> has_chunk m i k ct u d \<Longrightarrow> \<forall>ev \<in> set evs. event_spares cfg i u ev \<Longrightarrow>
     has_chunk m i k ct u (enc_run sha cfg d evs)"
  unfolding enc_run_def by (induction evs arbitrary: d) (simp_all add: inv_step durable_step del: enc_step.simps)

text \<open>A successful write leaves the chunk on the disk.\<close>

lemma write_has_chunk:
  assumes inv: "disk_inv sha d" and w: "write_chunk sha cfg t1 t2 i k ct mac d = (acts, Inr (r, b))"
  shows "has_chunk (sf_manifest r) i k ct (sf_updated_at r) (apply_actions acts d)"
  using write_chunk_cases[OF w]
proof (elim disjE exE conjE)
  fix r' ch content
  assume "acts = []" "Inr (r, b) = Inr (r', False)" and rs: "read_state i d = Inr r'" "ch \<in> set (sf_chunks r')" "sc_index ch = k"
    "data_of_record r' d = Some content" "region (sf_manifest r') k content = ct"
  moreover have "dict_get (ed_part d) i = Some content \<or> dict_get (ed_complete d) i = Some content"
    using rs read_state_Inr[OF rs(1)] by (auto simp: data_of_record_def split: if_splits)
  ultimately show ?thesis using read_state_Inr[OF rs(1)] by (auto simp: has_chunk_def)
next
  fix r' :: stored_file and content
  let ?m = "sf_manifest r'" let ?c = "\<lparr>sc_index = k, sc_length = enc_len ?m k, sc_resume_mac = mac, sc_sha256 = sha ct\<rparr>"
  assume r: "Inr (r, b) = Inr (record_with_chunk r' ?c t2, True)"
    and a: "acts = [Write_Part i (chunk_offset ?m k) ct, Put_State i (record_with_chunk r' ?c t2)]"
    and rs: "read_state i d = Inr r'" and k: "k < em_chunk_count ?m" "length ct = enc_len ?m k"
    and part: "dict_get (ed_part d) i = Some content" "length content = ciphertext_size ?m"
  have m: "manifest_check ?m = Inr ?m" using disk_inv_read(1)[OF inv rs] by (simp add: record_ok_def)
  show ?thesis using r a part region_write_same[OF m k(1,2) part(2)] by (auto simp: has_chunk_def)
qed (use w in auto)

text \<open>
  C23. Durability of acknowledged chunks. Once \<open>write_chunk\<close> has acknowledged a chunk, whatever is done or cut
  short afterwards - other uploads, further writes, completion, recovery, crashes with torn writes - as long as the file
  is not deleted and no clock reading exceeds its time to live, the record still lists the chunk and the data file
  still holds exactly the acknowledged ciphertext in its place.
\<close>

theorem acknowledged_chunk_durable:
  assumes "write_chunk sha cfg t1 t2 i k ct mac (enc_run sha cfg empty_disk evs) = (acts, Inr (r, b))"
    and "\<forall>ev \<in> set later. event_spares cfg i (sf_updated_at r) ev"
  shows "has_chunk (sf_manifest r) i k ct (sf_updated_at r)
    (enc_run sha cfg empty_disk (evs @ Done (Op_Write_Chunk t1 t2 i k ct mac) # later))"
proof -
  let ?d = "enc_run sha cfg empty_disk evs"
  have "disk_inv sha (apply_actions acts ?d)"
    using invariant.run_keeps[OF inv_history safe_write[OF inv_history]] assms(1) by (metis fst_conv)
  from durable_run[OF this write_has_chunk[OF inv_history assms(1)] assms(2)] assms(1)
  show ?thesis by (simp add: enc_run_def)
qed

definition demo_enc_config :: enc_config where
  "demo_enc_config = \<lparr>ec_max_plaintext_size = 100, ec_incomplete_ttl = 100\<rparr>"

definition demo_create :: enc_event where
  "demo_create = Done (Op_Create_File 0 0 0 True True demo_manifest)"

lemma demo_create_run:
  "enc_run sha demo_enc_config empty_disk [demo_create] =
     \<lparr>ed_state = [(em_file_id demo_manifest, Valid_Sidecar \<lparr>sf_manifest = demo_manifest, sf_status = Partial_File, sf_chunks = [],
        sf_created_at = 0, sf_updated_at = 0\<rparr>)],
      ed_part = [(em_file_id demo_manifest, replicate (ciphertext_size demo_manifest) 0)], ed_complete = []\<rparr>"
proof -
  have id: "file_id_bytes (em_file_id demo_manifest) = Inr (hex_pairs (em_file_id demo_manifest))"
    by (rule manifest_facts(9)[OF demo_manifest_ok])
  have p: "em_plaintext_size demo_manifest = 3" "ec_max_plaintext_size demo_enc_config = 100"
    by (simp_all add: demo_manifest_def demo_enc_config_def)
  show ?thesis
    by (simp add: enc_run_def demo_create_def demo_manifest_ok create_file_def get_file_def id expire_actions_def
        list_files_locked_def state_ids_def empty_disk_def p Let_def)
qed

lemma demo_write:
  "\<exists>acts r b. write_chunk sha demo_enc_config 1 1 (em_file_id demo_manifest) 0 (replicate 19 7) (replicate 32 1)
     (enc_run sha demo_enc_config empty_disk [demo_create]) = (acts, Inr (r, b)) \<and> sf_updated_at r = 1"
proof -
  have id: "file_id_bytes (em_file_id demo_manifest) = Inr (hex_pairs (em_file_id demo_manifest))"
    by (rule manifest_facts(9)[OF demo_manifest_ok])
  have m: "em_chunk_count demo_manifest = 1" "enc_len demo_manifest 0 = 19"
    by (simp_all add: demo_manifest_def enc_len_def EUF_GCM_TAG_SIZE_def)
  have c: "ec_incomplete_ttl demo_enc_config = 100" by (simp add: demo_enc_config_def)
  show ?thesis
    by (simp add: demo_create_run write_chunk_def require_file_def get_file_def id read_state_def sf_file_id_def
        expired_file_def c encrypted_chunk_length_eq m data_of_record_def Let_def ex_bool_eq)
qed

theorem acknowledged_chunk_durable_witness:
  "\<exists>m u. has_chunk m (em_file_id demo_manifest) 0 (replicate 19 7) u
     (enc_run id demo_enc_config empty_disk ([demo_create] @
       Done (Op_Write_Chunk 1 1 (em_file_id demo_manifest) 0 (replicate 19 7) (replicate 32 1)) #
       [Crashed (Op_Complete 2 2 2 (em_file_id demo_manifest)) 1 [], Done (Op_Reconcile 3)]))"
proof -
  obtain acts r b where w: "write_chunk id demo_enc_config 1 1 (em_file_id demo_manifest) 0 (replicate 19 7) (replicate 32 1)
     (enc_run id demo_enc_config empty_disk [demo_create]) = (acts, Inr (r, b))" "sf_updated_at r = 1" using demo_write by blast
  have later: "\<forall>ev \<in> set [Crashed (Op_Complete 2 2 2 (em_file_id demo_manifest)) 1 [], Done (Op_Reconcile 3)].
      event_spares demo_enc_config (em_file_id demo_manifest) (sf_updated_at r) ev"
    using w(2) by (simp add: demo_enc_config_def)
  show ?thesis using acknowledged_chunk_durable[OF w(1) later] by blast
qed

subsection \<open>A completed file is the acknowledged chunks in order\<close>

lemma complete_publishes:
  assumes inv: "disk_inv sha d" and c: "complete_file cfg t1 t2 t3 i d = (acts, Inr (r, b))"
  shows "\<exists>c r0. read_state i d = Inr r0 \<and> sf_manifest r = sf_manifest r0 \<and> sf_status r = Complete_File \<and>
    (b = False \<and> acts = [] \<or> (dict_get (ed_part d) i = Some c \<or> dict_get (ed_complete d) i = Some c) \<and> b = True \<and>
       length c = ciphertext_size (sf_manifest r) \<and> dict_get (ed_part (apply_actions acts d)) i = None \<and>
       dict_get (ed_complete (apply_actions acts d)) i = Some c)"
  using complete_cases[OF c]
proof (elim disjE exE conjE)
  fix r0 a2 res2
  assume rs: "read_state i d = Inr r0" and st: "sf_status r0 = Committing" and a: "acts = a2"
    and p: "publish_committing t3 r0 d = (a2, res2)" and res: "Inr (r, b) = (case res2 of Inl e \<Rightarrow> Inl e | Inr r2 \<Rightarrow> Inr (r2, True))"
  show ?thesis using publish_cases[OF p] rs a res read_state_Inr[OF rs] by auto
next
  fix r0 a2 res2
  assume rs: "read_state i d = Inr r0" and a: "acts = Put_State i (record_committing r0 t2) # a2"
    and p: "publish_committing t3 (record_committing r0 t2) d = (a2, res2)"
    and res: "Inr (r, b) = (case res2 of Inl e \<Rightarrow> Inl e | Inr r2 \<Rightarrow> Inr (r2, True))"
  show ?thesis using publish_cases[OF p] rs a res read_state_Inr[OF rs] by auto
qed auto

text \<open>The content that completion publishes is the acknowledged chunks in order.\<close>

lemma completed_content:
  assumes inv: "disk_inv sha d" and c: "complete_file cfg t1 t2 t3 i d = (acts, Inr (r, True))"
    and acked: "\<forall>k < em_chunk_count (sf_manifest r). has_chunk (sf_manifest r) i k (cts k) (us k) d"
  shows "manifest_check (sf_manifest r) = Inr (sf_manifest r)"
    "length (concat (map cts [0..<em_chunk_count (sf_manifest r)])) = ciphertext_size (sf_manifest r)"
    "dict_get (ed_complete (apply_actions acts d)) i = Some (concat (map cts [0..<em_chunk_count (sf_manifest r)]))"
proof -
  let ?m = "sf_manifest r"
  obtain c0 r0 where c0: "read_state i d = Inr r0" "?m = sf_manifest r0"
    "dict_get (ed_part d) i = Some c0 \<or> dict_get (ed_complete d) i = Some c0" "length c0 = ciphertext_size ?m"
    "dict_get (ed_complete (apply_actions acts d)) i = Some c0"
    using complete_publishes[OF inv c] by auto
  have m: "manifest_check ?m = Inr ?m" using disk_inv_read(1)[OF inv c0(1)] c0(2) by (simp add: record_ok_def)
  have "region ?m k c0 = cts k" if k: "k < em_chunk_count ?m" for k
  proof -
    obtain c' where "dict_get (ed_part d) i = Some c' \<or> dict_get (ed_complete d) i = Some c'" "region ?m k c' = cts k"
      using acked k unfolding has_chunk_def by blast
    moreover have "c' = c0" using calculation(1) c0(3) disk_inv_read(2)[OF inv c0(1)] by (auto simp: agrees_def)
    ultimately show ?thesis by simp
  qed
  then have "map cts [0..<em_chunk_count ?m] = map (\<lambda>k. region ?m k c0) [0..<em_chunk_count ?m]" by simp
  then have "concat (map cts [0..<em_chunk_count ?m]) = c0" using region_tiles[OF m c0(4)] by (simp only:)
  then show "manifest_check ?m = Inr ?m" "length (concat (map cts [0..<em_chunk_count ?m])) = ciphertext_size ?m"
    "dict_get (ed_complete (apply_actions acts d)) i = Some (concat (map cts [0..<em_chunk_count ?m]))" using m c0 by simp_all
qed

text \<open>
  Completion is exact. When \<open>complete\<close> succeeds after any history in which every chunk of the file was
  acknowledged with ciphertext \<open>cts k\<close>, the identifier's only data file is the complete file, and its content is
  the concatenation of these ciphertexts in chunk order.
\<close>

theorem completed_file_is_chunks:
  assumes "complete_file cfg t1 t2 t3 i (enc_run sha cfg empty_disk evs) = (acts, Inr (r, True))"
    and "\<forall>k < em_chunk_count (sf_manifest r). has_chunk (sf_manifest r) i k (cts k) (us k) (enc_run sha cfg empty_disk evs)"
  shows "sf_status r = Complete_File \<and>
    dict_get (ed_part (enc_run sha cfg empty_disk (evs @ [Done (Op_Complete t1 t2 t3 i)]))) i = None \<and>
    dict_get (ed_complete (enc_run sha cfg empty_disk (evs @ [Done (Op_Complete t1 t2 t3 i)]))) i =
      Some (concat (map cts [0..<em_chunk_count (sf_manifest r)]))"
proof -
  have "enc_run sha cfg empty_disk (evs @ [Done (Op_Complete t1 t2 t3 i)]) = apply_actions acts (enc_run sha cfg empty_disk evs)"
    using assms(1) by (simp add: enc_run_def)
  then show ?thesis
    using completed_content[OF inv_history assms] complete_publishes[OF inv_history assms(1)] by auto
qed

definition demo_chunk_write :: enc_event where
  "demo_chunk_write = Done (Op_Write_Chunk 1 1 (em_file_id demo_manifest) 0 (replicate 19 7) (replicate 32 1))"

lemma demo_write_run:
  "enc_run id demo_enc_config empty_disk [demo_create, demo_chunk_write] =
     \<lparr>ed_state = [(em_file_id demo_manifest, Valid_Sidecar \<lparr>sf_manifest = demo_manifest, sf_status = Partial_File,
        sf_chunks = [\<lparr>sc_index = 0, sc_length = 19, sc_resume_mac = replicate 32 1, sc_sha256 = replicate 19 7\<rparr>],
        sf_created_at = 0, sf_updated_at = 1\<rparr>)],
      ed_part = [(em_file_id demo_manifest, replicate 19 7)], ed_complete = []\<rparr>"
proof -
  have i: "file_id_bytes (em_file_id demo_manifest) = Inr (hex_pairs (em_file_id demo_manifest))"
    by (rule manifest_facts(9)[OF demo_manifest_ok])
  have m: "em_chunk_count demo_manifest = 1" "enc_len demo_manifest 0 = 19" "ciphertext_size demo_manifest = 19"
    by (simp_all add: demo_manifest_def enc_len_def EUF_GCM_TAG_SIZE_def ciphertext_size_def)
  have c: "ec_incomplete_ttl demo_enc_config = 100" by (simp add: demo_enc_config_def)
  have "enc_run id demo_enc_config empty_disk [demo_create, demo_chunk_write] =
      enc_step id demo_enc_config (enc_run id demo_enc_config empty_disk [demo_create]) demo_chunk_write"
    by (simp add: enc_run_def)
  then show ?thesis
    by (simp add: demo_create_run demo_chunk_write_def write_chunk_def require_file_def get_file_def i read_state_def sf_file_id_def
        expired_file_def c encrypted_chunk_length_eq m data_of_record_def Let_def chunk_offset_def write_at_def)
qed

lemma demo_has_chunk:
  "has_chunk demo_manifest (em_file_id demo_manifest) 0 (replicate 19 7) 1 (enc_run id demo_enc_config empty_disk [demo_create, demo_chunk_write])"
proof -
  have "region demo_manifest 0 (replicate 19 7) = replicate 19 7"
    by (simp add: region_def enc_len_def demo_manifest_def EUF_GCM_TAG_SIZE_def chunk_offset_def)
  then show ?thesis by (auto simp: has_chunk_def demo_write_run)
qed

lemma demo_complete:
  "\<exists>acts r. complete_file demo_enc_config 2 2 2 (em_file_id demo_manifest)
     (enc_run id demo_enc_config empty_disk [demo_create, demo_chunk_write]) = (acts, Inr (r, True)) \<and> sf_manifest r = demo_manifest"
proof -
  have i: "file_id_bytes (em_file_id demo_manifest) = Inr (hex_pairs (em_file_id demo_manifest))"
    by (rule manifest_facts(9)[OF demo_manifest_ok])
  have m: "em_chunk_count demo_manifest = 1" "ciphertext_size demo_manifest = 19"
    by (simp_all add: demo_manifest_def EUF_GCM_TAG_SIZE_def ciphertext_size_def)
  have c: "ec_incomplete_ttl demo_enc_config = 100" by (simp add: demo_enc_config_def)
  show ?thesis
    by (simp add: demo_write_run complete_file_def require_file_def get_file_def i read_state_def sf_file_id_def
        expired_file_def c m publish_committing_def Let_def)
qed

theorem completed_file_is_chunks_witness:
  "dict_get (ed_complete (enc_run id demo_enc_config empty_disk ([demo_create, demo_chunk_write] @
     [Done (Op_Complete 2 2 2 (em_file_id demo_manifest))]))) (em_file_id demo_manifest) = Some (replicate 19 7)"
proof -
  let ?d = "enc_run id demo_enc_config empty_disk [demo_create, demo_chunk_write]"
  obtain acts r where r: "complete_file demo_enc_config 2 2 2 (em_file_id demo_manifest) ?d = (acts, Inr (r, True))"
    "sf_manifest r = demo_manifest" using demo_complete by blast
  have m: "em_chunk_count demo_manifest = 1" by (simp add: demo_manifest_def)
  have "\<forall>k < em_chunk_count (sf_manifest r). has_chunk (sf_manifest r) (em_file_id demo_manifest) k (replicate 19 7) 1 ?d"
    using demo_has_chunk r(2) m by simp
  from completed_file_is_chunks[OF r(1) this] show ?thesis using r(2) m by simp
qed

subsection \<open>The advertised capacity is exact\<close>

lemma fits_with_tags_mono: "a \<le> b \<Longrightarrow> fits_with_tags available b \<Longrightarrow> fits_with_tags available a"
proof -
  assume ab: "a \<le> b" "fits_with_tags available b"
  have "(a + EUF_CHUNK_SIZE - 1) div EUF_CHUNK_SIZE * EUF_GCM_TAG_SIZE \<le> (b + EUF_CHUNK_SIZE - 1) div EUF_CHUNK_SIZE * EUF_GCM_TAG_SIZE"
    by (intro mult_le_mono1 div_le_mono) (use ab in simp)
  then show ?thesis using ab unfolding fits_with_tags_def by linarith
qed

lemma bisect_le_high: "low \<le> high \<Longrightarrow> bisect_capacity available low high \<le> high"
proof (induction available low high rule: bisect_capacity.induct)
  case (1 available low high)
  let ?mid = "(low + high + 1) div 2"
  have m: "low < high \<Longrightarrow> low < ?mid \<and> ?mid \<le> high \<and> low \<le> ?mid - 1" by linarith
  show ?case
  proof (cases "low < high \<and> \<not> fits_with_tags available ?mid")
    case True
    then have "bisect_capacity available low (?mid - 1) \<le> ?mid - 1" using 1(2)[of ?mid] m by blast
    then have "bisect_capacity available low (?mid - 1) \<le> high" using True m by linarith
    then show ?thesis using True by (subst bisect_capacity.simps) (auto simp: Let_def)
  next
    case False
    then show ?thesis using 1 m by (subst bisect_capacity.simps) (auto simp: Let_def)
  qed
qed

lemma bisect_exact:
  assumes "low \<le> high" "fits_with_tags available low" "n \<le> high"
  shows "n \<le> bisect_capacity available low high \<longleftrightarrow> fits_with_tags available n"
  using assms
proof (induction available low high rule: bisect_capacity.induct)
  case (1 available low high)
  let ?mid = "(low + high + 1) div 2"
  show ?case
  proof (cases "low < high")
    case False
    then have "bisect_capacity available low high = low" by (simp add: bisect_capacity.simps[of available low high])
    then show ?thesis using 1(3,4,5) False fits_with_tags_mono[of n low available] by auto
  next
    case True
    have m: "low < ?mid" "?mid \<le> high" using True by auto
    show ?thesis
    proof (cases "fits_with_tags available ?mid")
      case fits: True
      have "bisect_capacity available low high = bisect_capacity available ?mid high"
        using True fits by (simp add: bisect_capacity.simps[of available low high] Let_def)
      then show ?thesis using 1(1)[OF True refl fits m(2) fits 1(5)] by simp
    next
      case no: False
      have step: "bisect_capacity available low high = bisect_capacity available low (?mid - 1)"
        using True no by (simp add: bisect_capacity.simps[of available low high] Let_def)
      show ?thesis
      proof (cases "n \<le> ?mid - 1")
        case small: True
        have "low \<le> ?mid - 1" using m by linarith
        from 1(2)[OF True refl no this 1(4) small] show ?thesis using step by simp
      next
        case big: False
        then have "?mid \<le> n" by linarith
        then have "\<not> fits_with_tags available n" using no fits_with_tags_mono by blast
        moreover have "bisect_capacity available low (?mid - 1) \<le> ?mid - 1"
        proof -
          have "low \<le> ?mid - 1" using m by linarith
          then show ?thesis by (rule bisect_le_high)
        qed
        ultimately show ?thesis using step big by auto
      qed
    qed
  qed
qed

text \<open>
  The advertised capacity is exact. While file slots remain, a valid file within the configured limit has a
  plaintext no larger than the advertised maximum if and only if its ciphertext, tags included, fits in the available
  bytes; without a slot the advertised maximum is 0.
\<close>

theorem advertised_capacity_exact:
  assumes "manifest_check m = Inr m'" and "em_plaintext_size m \<le> ec_max_plaintext_size cfg"
  shows "(remaining \<noteq> Some 0 \<longrightarrow>
      (em_plaintext_size m \<le> enc_capacity cfg available remaining \<longleftrightarrow> ciphertext_size m \<le> available)) \<and>
    enc_capacity cfg available (Some 0) = 0"
proof -
  have c: "em_chunk_count m = (em_plaintext_size m + EUF_CHUNK_SIZE - 1) div EUF_CHUNK_SIZE"
    using manifest_facts(5)[OF assms(1)] by (simp add: EUF_CHUNK_SIZE_def)
  have fits: "fits_with_tags available (em_plaintext_size m) \<longleftrightarrow> ciphertext_size m \<le> available"
    by (simp only: fits_with_tags_def ciphertext_size_def c)
  have zero: "fits_with_tags available 0" by (simp add: fits_with_tags_def EUF_CHUNK_SIZE_def)
  have "em_plaintext_size m \<le> bisect_capacity available 0 (min (ec_max_plaintext_size cfg) available) \<longleftrightarrow>
      fits_with_tags available (em_plaintext_size m)"
  proof (cases "em_plaintext_size m \<le> min (ec_max_plaintext_size cfg) available")
    case True
    show ?thesis by (rule bisect_exact[OF _ zero True]) simp
  next
    case False
    have "bisect_capacity available 0 (min (ec_max_plaintext_size cfg) available) \<le> min (ec_max_plaintext_size cfg) available"
      by (rule bisect_le_high) simp
    moreover have "\<not> fits_with_tags available (em_plaintext_size m)" using False assms(2) by (auto simp: fits_with_tags_def)
    ultimately show ?thesis using False by linarith
  qed
  then show ?thesis using fits by (simp add: enc_capacity_def)
qed

theorem advertised_capacity_exact_witness:
  "\<not> em_plaintext_size demo_manifest \<le> enc_capacity demo_enc_config 18 None \<and>
     em_plaintext_size demo_manifest \<le> enc_capacity demo_enc_config 19 None"
proof -
  have s: "em_plaintext_size demo_manifest \<le> ec_max_plaintext_size demo_enc_config" "ciphertext_size demo_manifest = 19"
    by (simp_all add: demo_manifest_def demo_enc_config_def EUF_GCM_TAG_SIZE_def ciphertext_size_def)
  show ?thesis using advertised_capacity_exact[OF demo_manifest_ok s(1), of None 18]
      advertised_capacity_exact[OF demo_manifest_ok s(1), of None 19] s(2) by simp
qed

end
