(* ===== verification/Py_Json.thy ===== *)
theory Py_Json
  imports Py_Text "HOL-Library.List_Lexorder" "HOL-Library.Multiset"
begin

section \<open>JSON values and their compact rendering\<close>

text \<open>
  The values of \<open>json.loads\<close> (objects as dictionaries with distinct keys) and the text that
  \<open>json.dumps(\<dots>, ensure_ascii=True, sort_keys=True, separators=(",", ":"))\<close> gives for them, with
  \<open>float.__repr__\<close> as the parameter \<open>ft\<close>. Strings are over the code points below 256.
\<close>

datatype json = J_Null | J_Bool bool | J_Int int | J_Float real | J_Nonfinite | J_Str string | J_Arr "json list"
  | J_Obj "(string \<times> json) list"

fun json_sorted :: "json \<Rightarrow> json" where
  "json_sorted (J_Arr xs) = J_Arr (map json_sorted xs)"
| "json_sorted (J_Obj d) = J_Obj (sort_key fst (map (\<lambda>(k, v). (k, json_sorted v)) d))"
| "json_sorted j = j"

definition hex_digit :: "nat \<Rightarrow> char" where "hex_digit n = (if n < 10 then chr (48 + n) else chr (87 + n))"

definition json_escape :: "char \<Rightarrow> string" where
  "json_escape c =
     (if ord c = 34 then [chr 92, chr 34] else if ord c = 92 then [chr 92, chr 92]
      else if ord c = 10 then [chr 92, CHR ''n''] else if ord c = 13 then [chr 92, CHR ''r'']
      else if ord c = 9 then [chr 92, CHR ''t''] else if ord c = 12 then [chr 92, CHR ''f'']
      else if ord c = 8 then [chr 92, CHR ''b'']
      else if 32 \<le> ord c \<and> ord c \<le> 126 then [c]
      else [chr 92, CHR ''u'', CHR ''0'', CHR ''0'', hex_digit (ord c div 16), hex_digit (ord c mod 16)])"

definition json_quote :: "string \<Rightarrow> string" where
  "json_quote s = [chr 34] @ concat (map json_escape s) @ [chr 34]"

fun comma_join :: "string list \<Rightarrow> string" where
  "comma_join [] = []"
| "comma_join [s] = s"
| "comma_join (s # t # r) = s @ '','' @ comma_join (t # r)"

fun json_text :: "(real \<Rightarrow> string) \<Rightarrow> json \<Rightarrow> string" where
  "json_text ft J_Null = ''null''"
| "json_text ft (J_Bool b) = (if b then ''true'' else ''false'')"
| "json_text ft (J_Int n) = py_str_int n"
| "json_text ft (J_Float t) = ft t"
| "json_text ft J_Nonfinite = ''NaN''"
| "json_text ft (J_Str s) = json_quote s"
| "json_text ft (J_Arr xs) = ''['' @ comma_join (map (json_text ft) xs) @ '']''"
| "json_text ft (J_Obj d) = ''{'' @ comma_join (map (\<lambda>(k, v). json_quote k @ '':'' @ json_text ft v) d) @ ''}''"

definition json_dumps :: "(real \<Rightarrow> string) \<Rightarrow> json \<Rightarrow> string" where
  "json_dumps ft j = json_text ft (json_sorted j)"

subsection \<open>Size of a rendering\<close>

definition member_cost :: "(real \<Rightarrow> string) \<Rightarrow> string \<times> json \<Rightarrow> nat" where
  "member_cost ft kv = length (json_quote (fst kv)) + 2 + length (json_dumps ft (snd kv))"

lemma length_comma_join: "length (comma_join ss) \<le> sum_list (map (\<lambda>s. Suc (length s)) ss)"
  by (induction ss rule: comma_join.induct) auto

lemma sum_list_sort: "sum_list (map f (sort_key k xs)) = sum_list (map f (xs :: 'a list)) " for f :: "'a \<Rightarrow> nat"
proof -
  have "sum_list (map f xs) = sum_mset (image_mset f (mset xs))" for xs :: "'a list"
    by (simp flip: mset_map add: sum_mset_sum_list)
  then show ?thesis by simp
qed

lemma length_dumps_obj: "length (json_dumps ft (J_Obj d)) \<le> 2 + sum_list (map (member_cost ft) d)"
proof -
  let ?e = "sort_key fst (map (\<lambda>(k, v). (k, json_sorted v)) d)" and ?f = "\<lambda>(k, v). json_quote k @ '':'' @ json_text ft v"
  have "length (json_dumps ft (J_Obj d)) = 2 + length (comma_join (map ?f ?e))" by (simp add: json_dumps_def)
  also have "\<dots> \<le> 2 + sum_list (map (\<lambda>kv. Suc (length (?f kv))) ?e)"
    using length_comma_join[of "map ?f ?e"] by (simp add: comp_def)
  also have "sum_list (map (\<lambda>kv. Suc (length (?f kv))) ?e) = sum_list (map (\<lambda>kv. Suc (length (?f kv))) (map (\<lambda>(k, v). (k, json_sorted v)) d))"
    by (rule sum_list_sort)
  also have "\<dots> = sum_list (map (member_cost ft) d)"
    by (intro arg_cong[of _ _ sum_list]) (simp add: comp_def member_cost_def json_dumps_def split_beta)
  finally show ?thesis by simp
qed

text \<open>A string of letters, digits, minus and underscore is rendered as it is.\<close>

definition plain :: "string \<Rightarrow> bool" where
  "plain s \<longleftrightarrow> list_all (\<lambda>c. is_alnum c \<or> c = CHR ''_'' \<or> c = CHR ''-'') s"

lemma length_quote_plain: "plain s \<Longrightarrow> length (json_quote s) = length s + 2"
proof -
  have "is_alnum c \<or> c = CHR ''_'' \<or> c = CHR ''-'' \<Longrightarrow> json_escape c = [c]" for c
    by (auto simp: json_escape_def is_alnum_def is_digit_def ascii_upper_def)
  then show "plain s \<Longrightarrow> length (json_quote s) = length s + 2"
    by (induction s) (auto simp: plain_def json_quote_def)
qed

lemma plain_b64url: "plain (b64url_nopad bs)"
proof -
  have "is_alnum (b64_char (CHR ''-'') (CHR ''_'') n) \<or> b64_char (CHR ''-'') (CHR ''_'') n = CHR ''_'' \<or>
      b64_char (CHR ''-'') (CHR ''_'') n = CHR ''-''" if "n < 64" for n
    using that by (auto simp: b64_char_def is_alnum_def is_digit_def ascii_upper_def)
  then show ?thesis using sextets_bound[of _ bs] by (auto simp: plain_def b64url_nopad_def list_all_iff)
qed

lemma plain_decimal: "plain (decimal_digits n)"
  using decimal_digits_all[of _ n] by (auto simp: plain_def list_all_iff is_alnum_def)

end
