(* ===== verification/Encrypted_Sidecar.thy ===== *)
theory Encrypted_Sidecar
  imports Encrypted_Recovery Py_Json
begin

section \<open>The sidecar codec of encrypted transfers\<close>

text \<open>
  The JSON form of a stored record (\<open>_record_to_json\<close>) and its strict decoding (\<open>decode_encrypted_state\<close>,
  \<open>_decode_encrypted_manifest\<close>) in \<^verbatim>\<open>xferry/encrypted_storage.py\<close>. \<open>json.loads\<close> on UTF-8 text, with its hook
  that refuses duplicate members, is the parameter \<open>loads\<close>; \<open>float.__repr__\<close> is \<open>ft\<close>.
\<close>

definition MAX_STATE_BYTES :: nat where "MAX_STATE_BYTES = 1024 * 1024"

definition require :: "bool \<Rightarrow> enc_error + unit" where "require c = (if c then Inr () else Inl Enc_Corrupt)"

lemma require_simps [simp]: "require True = Inr ()" "require False = Inl Enc_Corrupt"
  by (simp_all add: require_def)

subsection \<open>Decoding\<close>

definition require_exact_keys :: "(string \<times> json) list \<Rightarrow> string list \<Rightarrow> enc_error + unit" where
  "require_exact_keys d expected = require (set (map fst d) = set expected)"

definition require_int :: "json option \<Rightarrow> enc_error + nat" where
  "require_int v = (case v of Some (J_Int n) \<Rightarrow> if n < 0 then Inl Enc_Corrupt else Inr (nat n) | _ \<Rightarrow> Inl Enc_Corrupt)"

definition require_number :: "json option \<Rightarrow> enc_error + time" where
  "require_number v =
     (case v of
        Some (J_Int n) \<Rightarrow> if n < 0 then Inl Enc_Corrupt else Inr (real_of_int n)
      | Some (J_Float t) \<Rightarrow> if t < 0 then Inl Enc_Corrupt else Inr t
      | _ \<Rightarrow> Inl Enc_Corrupt)"

definition require_str :: "json option \<Rightarrow> enc_error + string" where
  "require_str v = (case v of Some (J_Str s) \<Rightarrow> Inr s | _ \<Rightarrow> Inl Enc_Corrupt)"

definition require_b64 :: "string \<Rightarrow> enc_error + bytes" where
  "require_b64 s = (case b64url_decode s of Inl _ \<Rightarrow> Inl Enc_Corrupt | Inr bs \<Rightarrow> Inr bs)"

definition decode_encrypted_manifest :: "json option \<Rightarrow> enc_error + euf_manifest" where
  "decode_encrypted_manifest raw =
     (case raw of
        Some (J_Obj d) \<Rightarrow>
          and_then (require_exact_keys d [''version'', ''file_id'', ''plaintext_size'', ''chunk_size'', ''chunk_count'',
            ''salt'', ''nonce_prefix'', ''encrypted_metadata'']) (\<lambda>_.
          and_then (require_str (dict_get d ''file_id'')) (\<lambda>fid.
          and_then (require_str (dict_get d ''salt'')) (\<lambda>salt_text.
          and_then (require_str (dict_get d ''nonce_prefix'')) (\<lambda>nonce_text.
          and_then (require_str (dict_get d ''encrypted_metadata'')) (\<lambda>metadata_text.
          and_then (require_int (dict_get d ''version'')) (\<lambda>version.
          and_then (require_int (dict_get d ''plaintext_size'')) (\<lambda>plaintext_size.
          and_then (require_int (dict_get d ''chunk_size'')) (\<lambda>chunk_size.
          and_then (require_int (dict_get d ''chunk_count'')) (\<lambda>chunk_count.
          and_then (require_b64 salt_text) (\<lambda>salt.
          and_then (require_b64 nonce_text) (\<lambda>nonce_prefix.
          and_then (require_b64 metadata_text) (\<lambda>metadata.
          case manifest_check \<lparr>em_file_id = fid, em_plaintext_size = plaintext_size, em_chunk_size = chunk_size,
              em_chunk_count = chunk_count, em_salt = salt, em_nonce_prefix = nonce_prefix,
              em_encrypted_metadata = metadata, em_version = version\<rparr> of
            Inl _ \<Rightarrow> Inl Enc_Corrupt | Inr m \<Rightarrow> Inr m))))))))))))
      | _ \<Rightarrow> Inl Enc_Corrupt)"

text \<open>The index names a chunk in decimal without leading zeros; \<open>int\<close> refuses overlong text (\<open>ValueError\<close>).\<close>

definition decode_index :: "string \<Rightarrow> enc_error + nat" where
  "decode_index raw =
     (if raw = [] \<or> (raw \<noteq> ''0'' \<and> (\<not> list_all is_digit raw \<or> hd raw = CHR ''0'')) then Inl Enc_Corrupt
      else case py_int raw of None \<Rightarrow> Inl Enc_Invalid | Some n \<Rightarrow> Inr (nat n))"

definition decode_chunk :: "euf_manifest \<Rightarrow> string \<times> json \<Rightarrow> enc_error + stored_chunk" where
  "decode_chunk m kv =
     and_then (decode_index (fst kv)) (\<lambda>index.
     and_then (encrypted_chunk_length m index) (\<lambda>expected.
     case snd kv of
       J_Obj d \<Rightarrow>
         and_then (require_exact_keys d [''length'', ''resume_mac'', ''ciphertext_sha256'']) (\<lambda>_.
         and_then (require_int (dict_get d ''length'')) (\<lambda>len.
         and_then (require (len = expected)) (\<lambda>_.
         and_then (require_str (dict_get d ''resume_mac'')) (\<lambda>mac_text.
         and_then (require_str (dict_get d ''ciphertext_sha256'')) (\<lambda>hash_text.
         and_then (require_b64 mac_text) (\<lambda>mac.
         and_then (require_b64 hash_text) (\<lambda>hash.
         and_then (require (length mac = 32 \<and> length hash = 32)) (\<lambda>_.
         Inr \<lparr>sc_index = index, sc_length = len, sc_resume_mac = mac, sc_sha256 = hash\<rparr>))))))))
     | _ \<Rightarrow> Inl Enc_Corrupt))"

fun decode_chunks :: "euf_manifest \<Rightarrow> (string \<times> json) list \<Rightarrow> enc_error + stored_chunk list" where
  "decode_chunks m [] = Inr []"
| "decode_chunks m (kv # kvs) = and_then (decode_chunk m kv) (\<lambda>c. and_then (decode_chunks m kvs) (\<lambda>cs. Inr (c # cs)))"

definition decode_status :: "string \<Rightarrow> enc_error + enc_status" where
  "decode_status s =
     (if s = ''partial'' then Inr Partial_File else if s = ''committing'' then Inr Committing
      else if s = ''complete'' then Inr Complete_File else Inl Enc_Corrupt)"

definition decode_state_value :: "json \<Rightarrow> string \<Rightarrow> enc_error + stored_file" where
  "decode_state_value j expected_file_id =
     (case j of
        J_Obj d \<Rightarrow>
          and_then (require_exact_keys d [''schema_version'', ''status'', ''created_at'', ''updated_at'', ''manifest'',
            ''received_chunks'']) (\<lambda>_.
          and_then (require_int (dict_get d ''schema_version'')) (\<lambda>schema.
          and_then (require (schema = 1)) (\<lambda>_.
          and_then (require_str (dict_get d ''status'')) (\<lambda>status_text.
          and_then (decode_status status_text) (\<lambda>status.
          and_then (decode_encrypted_manifest (dict_get d ''manifest'')) (\<lambda>m.
          and_then (require (em_file_id m = expected_file_id)) (\<lambda>_.
          case dict_get d ''received_chunks'' of
            Some (J_Obj raw_chunks) \<Rightarrow>
              and_then (decode_chunks m raw_chunks) (\<lambda>unsorted.
              let chunks = sort_key sc_index unsorted in
              and_then (require (status = Partial_File \<or> length chunks = em_chunk_count m)) (\<lambda>_.
              and_then (require_number (dict_get d ''created_at'')) (\<lambda>created.
              and_then (require_number (dict_get d ''updated_at'')) (\<lambda>updated.
              and_then (require (created \<le> updated)) (\<lambda>_.
              Inr \<lparr>sf_manifest = m, sf_status = status, sf_chunks = chunks, sf_created_at = created, sf_updated_at = updated\<rparr>)))))
          | _ \<Rightarrow> Inl Enc_Corrupt)))))))
      | _ \<Rightarrow> Inl Enc_Corrupt)"

definition decode_encrypted_state :: "(bytes \<Rightarrow> json option) \<Rightarrow> bytes \<Rightarrow> string \<Rightarrow> enc_error + stored_file" where
  "decode_encrypted_state loads raw expected_file_id =
     (if MAX_STATE_BYTES < length raw then Inl Enc_Corrupt
      else case loads raw of None \<Rightarrow> Inl Enc_Corrupt | Some j \<Rightarrow> decode_state_value j expected_file_id)"

subsection \<open>Encoding\<close>

definition manifest_json :: "euf_manifest \<Rightarrow> json" where
  "manifest_json m = J_Obj
     [(''version'', J_Int (int (em_version m))), (''file_id'', J_Str (em_file_id m)),
      (''plaintext_size'', J_Int (int (em_plaintext_size m))), (''chunk_size'', J_Int (int (em_chunk_size m))),
      (''chunk_count'', J_Int (int (em_chunk_count m))), (''salt'', J_Str (b64url_encode (em_salt m))),
      (''nonce_prefix'', J_Str (b64url_encode (em_nonce_prefix m))),
      (''encrypted_metadata'', J_Str (b64url_encode (em_encrypted_metadata m)))]"

definition chunk_json :: "stored_chunk \<Rightarrow> string \<times> json" where
  "chunk_json c = (py_str_int (int (sc_index c)), J_Obj
     [(''length'', J_Int (int (sc_length c))), (''resume_mac'', J_Str (b64url_encode (sc_resume_mac c))),
      (''ciphertext_sha256'', J_Str (b64url_encode (sc_sha256 c)))])"

definition status_text :: "enc_status \<Rightarrow> string" where
  "status_text s = (case s of Partial_File \<Rightarrow> ''partial'' | Committing \<Rightarrow> ''committing'' | Complete_File \<Rightarrow> ''complete'')"

definition record_json :: "stored_file \<Rightarrow> json" where
  "record_json r = J_Obj
     [(''schema_version'', J_Int 1), (''status'', J_Str (status_text (sf_status r))),
      (''created_at'', J_Float (sf_created_at r)), (''updated_at'', J_Float (sf_updated_at r)),
      (''manifest'', manifest_json (sf_manifest r)), (''received_chunks'', J_Obj (map chunk_json (sf_chunks r)))]"

definition record_to_json :: "(real \<Rightarrow> string) \<Rightarrow> stored_file \<Rightarrow> bytes" where
  "record_to_json ft r = ascii_bytes (json_dumps ft (record_json r))"

subsection \<open>What is encoded decodes\<close>

lemma object_get:
  "distinct (map fst d) \<Longrightarrow>
     dict_get (sort_key fst (map (\<lambda>(k, v). (k, json_sorted v)) d)) k = map_option json_sorted (dict_get d k)"
proof -
  assume d: "distinct (map fst d)"
  let ?e = "map (\<lambda>(k, v). (k, json_sorted v)) d"
  have keys: "map fst ?e = map fst d" by (simp add: comp_def split_beta)
  have "mset (map fst (sort_key fst ?e)) = mset (map fst d)" by (simp only: mset_map mset_sort flip: keys)
  then have "distinct (map fst (sort_key fst ?e))" using d mset_eq_imp_distinct_iff by blast
  moreover have "distinct (map fst ?e)" using keys d by (simp only:)
  ultimately have "dict_get (sort_key fst ?e) = dict_get ?e" by (metis map_of_inject_set set_sort)
  moreover have "dict_get ?e k = map_option json_sorted (dict_get d k)" by (induction d) auto
  ultimately show ?thesis by simp
qed

lemma object_keys: "set (map fst (sort_key fst (map (\<lambda>(k, v). (k, json_sorted v)) d))) = set (map fst d)"
  by force

lemma b64_decode_encode [simp]: "require_b64 (b64url_encode bs) = Inr bs"
  using b64url_decode_iff[of "b64url_encode bs" bs] by (simp add: require_b64_def)

lemma decode_manifest_json:
  assumes "manifest_check m = Inr m"
  shows "decode_encrypted_manifest (Some (json_sorted (manifest_json m))) = Inr m"
proof -
  let ?d = "[(''version'', J_Int (int (em_version m))), (''file_id'', J_Str (em_file_id m)),
      (''plaintext_size'', J_Int (int (em_plaintext_size m))), (''chunk_size'', J_Int (int (em_chunk_size m))),
      (''chunk_count'', J_Int (int (em_chunk_count m))), (''salt'', J_Str (b64url_encode (em_salt m))),
      (''nonce_prefix'', J_Str (b64url_encode (em_nonce_prefix m))),
      (''encrypted_metadata'', J_Str (b64url_encode (em_encrypted_metadata m)))]"
  let ?e = "sort_key fst (map (\<lambda>(k, v). (k, json_sorted v)) ?d)"
  have e: "json_sorted (manifest_json m) = J_Obj ?e" unfolding manifest_json_def json_sorted.simps ..
  have get: "dict_get ?e k = map_option json_sorted (dict_get ?d k)" for k by (rule object_get) simp
  have keys: "set (map fst ?e) = set (map fst ?d)" by (rule object_keys)
  obtain x where x: "x = ?e" by blast
  have m: "\<lparr>em_file_id = em_file_id m, em_plaintext_size = em_plaintext_size m, em_chunk_size = em_chunk_size m,
      em_chunk_count = em_chunk_count m, em_salt = em_salt m, em_nonce_prefix = em_nonce_prefix m,
      em_encrypted_metadata = em_encrypted_metadata m, em_version = em_version m\<rparr> = m"
    by (rule euf_manifest.equality) simp_all
  show ?thesis unfolding e x[symmetric] using get keys assms unfolding x[symmetric]
    by (simp add: decode_encrypted_manifest_def require_exact_keys_def require_def require_str_def require_int_def m)
qed

lemma decode_index_str: "n < 10000 \<Longrightarrow> decode_index (py_str_int (int n)) = Inr n"
proof -
  assume n: "n < 10000"
  let ?s = "decimal_digits n"
  have s: "py_str_int (int n) = ?s" by (simp add: py_str_int_def)
  have ne: "?s \<noteq> []" by (subst decimal_digits.simps) simp
  have digits: "is_digit c" if "c \<in> set ?s" for c using decimal_digits_all that .
  have "length ?s \<le> 4" by (rule length_decimal) (use n in simp_all)
  then have int: "py_int ?s = Some (int n)" by (intro py_int_decimal) simp
  have "n = 0 \<Longrightarrow> ?s = ''0''" by (simp add: decimal_digits.simps char_of_def bit_iff_odd)
  then show ?thesis using ne digits decimal_head[of n] int s by (cases "n = 0") (auto simp: decode_index_def list_all_iff)
qed

lemma decode_chunk_json:
  assumes "sc_index c < em_chunk_count m" "em_chunk_count m \<le> 4096" "sc_length c = enc_len m (sc_index c)"
    "length (sc_resume_mac c) = 32" "length (sc_sha256 c) = 32"
  shows "decode_chunk m (fst (chunk_json c), json_sorted (snd (chunk_json c))) = Inr c"
proof -
  let ?d = "[(''length'', J_Int (int (sc_length c))), (''resume_mac'', J_Str (b64url_encode (sc_resume_mac c))),
      (''ciphertext_sha256'', J_Str (b64url_encode (sc_sha256 c)))]"
  let ?e = "sort_key fst (map (\<lambda>(k, v). (k, json_sorted v)) ?d)"
  have e: "json_sorted (snd (chunk_json c)) = J_Obj ?e" unfolding chunk_json_def json_sorted.simps snd_conv ..
  have get: "dict_get ?e k = map_option json_sorted (dict_get ?d k)" for k by (rule object_get) simp
  have keys: "set (map fst ?e) = set (map fst ?d)" by (rule object_keys)
  have index: "decode_index (fst (chunk_json c)) = Inr (sc_index c)"
    using assms(1,2) by (simp add: chunk_json_def decode_index_str)
  obtain x where x: "x = ?e" by blast
  have c: "\<lparr>sc_index = sc_index c, sc_length = sc_length c, sc_resume_mac = sc_resume_mac c, sc_sha256 = sc_sha256 c\<rparr> = c"
    by (rule stored_chunk.equality) simp_all
  show ?thesis unfolding e x[symmetric] using get keys assms index c unfolding x[symmetric]
    by (simp add: decode_chunk_def encrypted_chunk_length_eq require_exact_keys_def require_str_def require_int_def)
qed

lemma decode_chunks_map: "(\<And>kv. kv \<in> set kvs \<Longrightarrow> decode_chunk m kv = Inr (f kv)) \<Longrightarrow> decode_chunks m kvs = Inr (map f kvs)"
  by (induction kvs) auto

text \<open>What the code keeps true of a sidecar besides \<open>record_ok\<close>.\<close>

definition sidecar_ok :: "stored_file \<Rightarrow> bool" where
  "sidecar_ok r \<longleftrightarrow> sorted (map sc_index (sf_chunks r)) \<and>
     (\<forall>c \<in> set (sf_chunks r). length (sc_resume_mac c) = 32 \<and> length (sc_sha256 c) = 32) \<and>
     0 \<le> sf_created_at r \<and> sf_created_at r \<le> sf_updated_at r"

lemma decode_chunks_json:
  assumes ok: "record_ok i r" "sidecar_ok r"
  shows "\<exists>cs. decode_chunks (sf_manifest r) (sort_key fst (map (\<lambda>(k, v). (k, json_sorted v)) (map chunk_json (sf_chunks r)))) = Inr cs \<and>
    sort_key sc_index cs = sf_chunks r"
proof -
  let ?m = "sf_manifest r" and ?g = "\<lambda>c. (fst (chunk_json c), json_sorted (snd (chunk_json c)))"
  let ?kvs = "sort_key fst (map (\<lambda>(k, v). (k, json_sorted v)) (map chunk_json (sf_chunks r)))"
  let ?f = "\<lambda>kv. projr (decode_chunk ?m kv)"
  have count: "em_chunk_count ?m \<le> 4096" using ok(1) manifest_facts(4)[of ?m ?m] by (simp add: record_ok_def)
  have one: "decode_chunk ?m (?g c) = Inr c" if "c \<in> set (sf_chunks r)" for c
    by (rule decode_chunk_json[OF _ count]) (use ok that in \<open>auto simp: record_ok_def sidecar_ok_def\<close>)
  have kvs: "map (\<lambda>(k, v). (k, json_sorted v)) (map chunk_json (sf_chunks r)) = map ?g (sf_chunks r)"
    by (simp add: split_beta)
  have dec: "decode_chunks ?m ?kvs = Inr (map ?f ?kvs)"
  proof (rule decode_chunks_map)
    fix kv assume "kv \<in> set ?kvs"
    then obtain c where "c \<in> set (sf_chunks r)" "kv = ?g c" unfolding kvs by auto
    then show "decode_chunk ?m kv = Inr (?f kv)" using one by simp
  qed
  have "mset (map ?f ?kvs) = mset (map ?f (map ?g (sf_chunks r)))" unfolding kvs by (simp only: mset_map mset_sort)
  also have "map ?f (map ?g (sf_chunks r)) = sf_chunks r" using one by (simp add: map_idI)
  finally have perm: "mset (map ?f ?kvs) = mset (sf_chunks r)" .
  have "sort_key sc_index (map ?f ?kvs) = sf_chunks r"
  proof (rule sort_key_inj_key_eq[OF perm])
    have "set (map ?f ?kvs) = set (sf_chunks r)" using perm mset_eq_setD by blast
    then show "inj_on sc_index (set (map ?f ?kvs))" using ok(1) by (simp add: record_ok_def distinct_map del: set_map)
    show "sorted (map sc_index (sf_chunks r))" using ok(2) by (simp add: sidecar_ok_def)
  qed
  then show ?thesis using dec by blast
qed

lemma decode_record_json:
  assumes ok: "record_ok i r" "sidecar_ok r"
  shows "decode_state_value (json_sorted (record_json r)) i = Inr r"
proof -
  let ?d = "[(''schema_version'', J_Int 1), (''status'', J_Str (status_text (sf_status r))),
      (''created_at'', J_Float (sf_created_at r)), (''updated_at'', J_Float (sf_updated_at r)),
      (''manifest'', manifest_json (sf_manifest r)), (''received_chunks'', J_Obj (map chunk_json (sf_chunks r)))]"
  let ?e = "sort_key fst (map (\<lambda>(k, v). (k, json_sorted v)) ?d)"
  have e: "json_sorted (record_json r) = J_Obj ?e" unfolding record_json_def json_sorted.simps ..
  have get: "dict_get ?e k = map_option json_sorted (dict_get ?d k)" for k by (rule object_get) simp
  have keys: "set (map fst ?e) = set (map fst ?d)" by (rule object_keys)
  obtain x where x: "x = ?e" by blast
  obtain cs where cs: "decode_chunks (sf_manifest r) (sort_key fst (map (\<lambda>(k, v). (k, json_sorted v)) (map chunk_json (sf_chunks r)))) = Inr cs"
    "sort_key sc_index cs = sf_chunks r" using decode_chunks_json[OF ok] by blast
  have chunks: "json_sorted (J_Obj (map chunk_json (sf_chunks r))) =
      J_Obj (sort_key fst (map (\<lambda>(k, v). (k, json_sorted v)) (map chunk_json (sf_chunks r))))" by (simp only: json_sorted.simps)
  have m: "decode_encrypted_manifest (Some (json_sorted (manifest_json (sf_manifest r)))) = Inr (sf_manifest r)"
    by (rule decode_manifest_json) (use ok(1) in \<open>simp add: record_ok_def\<close>)
  have status: "decode_status (status_text (sf_status r)) = Inr (sf_status r)"
    by (cases "sf_status r") (simp_all add: decode_status_def status_text_def)
  have id: "em_file_id (sf_manifest r) = i" "sf_status r = Partial_File \<or> length (sf_chunks r) = em_chunk_count (sf_manifest r)"
    using ok(1) by (auto simp: record_ok_def sf_file_id_def)
  have t: "0 \<le> sf_created_at r" "sf_created_at r \<le> sf_updated_at r" using ok(2) by (simp_all add: sidecar_ok_def)
  have r: "\<lparr>sf_manifest = sf_manifest r, sf_status = sf_status r, sf_chunks = sf_chunks r, sf_created_at = sf_created_at r,
      sf_updated_at = sf_updated_at r\<rparr> = r" by (rule stored_file.equality) simp_all
  have fields: "dict_get x ''schema_version'' = Some (J_Int 1)" "dict_get x ''status'' = Some (J_Str (status_text (sf_status r)))"
    "dict_get x ''created_at'' = Some (J_Float (sf_created_at r))" "dict_get x ''updated_at'' = Some (J_Float (sf_updated_at r))"
    "dict_get x ''manifest'' = Some (json_sorted (manifest_json (sf_manifest r)))"
    "dict_get x ''received_chunks'' = Some (json_sorted (J_Obj (map chunk_json (sf_chunks r))))"
    "set (map fst x) = set [''schema_version'', ''status'', ''created_at'', ''updated_at'', ''manifest'', ''received_chunks'']"
    unfolding x get keys by (simp_all del: json_sorted.simps(2))
  have exact: "require_exact_keys x [''schema_version'', ''status'', ''created_at'', ''updated_at'', ''manifest'',
      ''received_chunks''] = Inr ()" unfolding require_exact_keys_def fields(7) by simp
  have len: "length cs = length (sf_chunks r)" using cs(2) by (metis length_sort)
  show ?thesis unfolding e x[symmetric]
    using cs t id by (simp add: decode_state_value_def fields(1-6) chunks m status Let_def exact require_str_def
        require_int_def require_number_def len r del: json_sorted.simps map_map list.map)
qed

subsection \<open>A record fits in its sidecar\<close>

lemma member_cost_simps [simp]:
  "member_cost ft (k, J_Int n) = length (json_quote k) + 2 + length (py_str_int n)"
  "member_cost ft (k, J_Str s) = length (json_quote k) + 2 + length (json_quote s)"
  "member_cost ft (k, J_Float t) = length (json_quote k) + 2 + length (ft t)"
  by (simp_all add: member_cost_def json_dumps_def)

lemma quote_b64 [simp]: "length (json_quote (b64url_encode bs)) = (4 * length bs + 2) div 3 + 2"
  using length_quote_plain[OF plain_b64url, of bs] by (simp add: b64url_encode_def)

lemma length_int_text: "0 < k \<Longrightarrow> n < 10 ^ k \<Longrightarrow> length (py_str_int (int n)) \<le> k"
  by (simp add: py_str_int_def length_decimal)

lemma quote_key: "plain k \<Longrightarrow> length (json_quote k) = length k + 2"
  by (rule length_quote_plain)

lemma plain_keys [simp]: "plain ''length''" "plain ''resume_mac''" "plain ''ciphertext_sha256''" "plain ''version''" "plain ''file_id''"
  "plain ''plaintext_size''" "plain ''chunk_size''" "plain ''chunk_count''" "plain ''salt''" "plain ''nonce_prefix''"
  "plain ''encrypted_metadata''" "plain ''schema_version''" "plain ''status''" "plain ''created_at''" "plain ''updated_at''"
  "plain ''manifest''" "plain ''received_chunks''" "plain ''partial''" "plain ''committing''" "plain ''complete''"
  by (simp_all add: plain_def is_alnum_def is_digit_def ascii_upper_def)

lemma manifest_sizes:
  assumes "manifest_check m = Inr m'"
  shows "em_version m = 1" "length (em_salt m) = 16" "length (em_encrypted_metadata m) \<le> 4112" "plain (em_file_id m)"
proof -
  show "em_version m = 1" "length (em_salt m) = 16" "length (em_encrypted_metadata m) \<le> 4112"
    using assms by (auto simp: manifest_check_def euf_constants split: if_splits sum.splits)
  show "plain (em_file_id m)" using manifest_facts(8)[OF assms]
    by (auto simp: plain_def list_all_iff is_lower_hex_def is_alnum_def)
qed

lemma chunk_cost:
  assumes "manifest_check m = Inr m'" "sc_index c < em_chunk_count m" "sc_length c = enc_len m (sc_index c)"
    "length (sc_resume_mac c) = 32" "length (sc_sha256 c) = 32"
  shows "member_cost ft (chunk_json c) \<le> 160"
proof -
  have "sc_index c < 10 ^ 4" using assms(2) manifest_facts(4)[OF assms(1)] by simp
  then have i: "length (py_str_int (int (sc_index c))) \<le> 4" by (rule length_int_text[rotated]) simp
  have "sc_length c < 10 ^ 7" using manifest_facts(3)[OF assms(1)] assms(3) by (simp add: enc_len_def EUF_GCM_TAG_SIZE_def)
  then have l: "length (py_str_int (int (sc_length c))) \<le> 7" by (rule length_int_text[rotated]) simp
  have "plain (py_str_int (int (sc_index c)))" by (simp add: py_str_int_def plain_decimal)
  then have "length (json_quote (py_str_int (int (sc_index c)))) \<le> 6" using i by (simp add: length_quote_plain)
  moreover have "length (json_dumps ft (snd (chunk_json c))) \<le> 144"
    unfolding chunk_json_def snd_conv by (rule order_trans[OF length_dumps_obj]) (use l assms(4,5) in \<open>simp add: quote_key\<close>)
  ultimately show ?thesis by (simp add: member_cost_def chunk_json_def)
qed

lemma manifest_cost:
  assumes "manifest_check m = Inr m'"
  shows "length (json_dumps ft (manifest_json m)) \<le> 6000"
proof -
  note f = manifest_facts[OF assms] and s = manifest_sizes[OF assms]
  have n: "length (py_str_int (int (em_plaintext_size m))) \<le> 11" "length (py_str_int (int (em_chunk_count m))) \<le> 11"
    "length (py_str_int (int (em_chunk_size m))) \<le> 11" "length (py_str_int (int (em_version m))) \<le> 11"
    by (rule length_int_text, simp, use f(2-4) s in simp)+
  have "(4 * length (em_encrypted_metadata m) + 2) div 3 \<le> (4 * 4112 + 2) div 3" using s(3) by (intro div_le_mono) simp
  then have e: "(4 * length (em_encrypted_metadata m) + 2) div 3 \<le> 5483" by simp
  show ?thesis unfolding manifest_json_def
    by (rule order_trans[OF length_dumps_obj]) (use n e f s in \<open>simp add: quote_key\<close>)
qed

lemma record_fits:
  assumes ok: "record_ok i r" "sidecar_ok r" and ft: "\<And>t. length (ft t) \<le> 32"
  shows "length (record_to_json ft r) \<le> MAX_STATE_BYTES"
proof -
  let ?m = "sf_manifest r" and ?cs = "sf_chunks r"
  have m: "manifest_check ?m = Inr ?m" using ok(1) by (simp add: record_ok_def)
  have "length ?cs = card (sc_index ` set ?cs)" using ok(1) by (simp add: record_ok_def distinct_card flip: set_map)
  also have "\<dots> \<le> card {..<em_chunk_count ?m}" using ok(1) by (intro card_mono) (auto simp: record_ok_def)
  finally have n: "length ?cs \<le> 4096" using manifest_facts(4)[OF m] by simp
  have "member_cost ft (chunk_json c) \<le> 160" if "c \<in> set ?cs" for c
    by (rule chunk_cost[OF m]) (use ok that in \<open>auto simp: record_ok_def sidecar_ok_def\<close>)
  then have "sum_list (map (\<lambda>c. member_cost ft (chunk_json c)) ?cs) \<le> sum_list (map (\<lambda>_. 160) ?cs)" by (intro sum_list_mono) simp
  also have "\<dots> \<le> 655360" using n by (simp add: sum_list_triv)
  finally have "length (json_dumps ft (J_Obj (map chunk_json ?cs))) \<le> 2 + 655360"
    using length_dumps_obj[of ft "map chunk_json ?cs"] by (simp add: comp_def)
  then have c: "member_cost ft (''received_chunks'', J_Obj (map chunk_json ?cs)) \<le> 655381" by (simp add: member_cost_def quote_key)
  have mc: "member_cost ft (''manifest'', manifest_json ?m) \<le> 6012" using manifest_cost[OF m, of ft] by (simp add: member_cost_def quote_key)
  have st: "length (json_quote (status_text (sf_status r))) \<le> 12" by (cases "sf_status r") (simp_all add: status_text_def quote_key)
  have one: "length (py_str_int 1) \<le> 1" using length_int_text[of 1 1] by simp
  have "length (json_dumps ft (record_json r)) \<le> 1048576"
    unfolding record_json_def
    by (rule order_trans[OF length_dumps_obj]) (use c mc st one ft[of "sf_created_at r"] ft[of "sf_updated_at r"] in \<open>simp add: quote_key\<close>)
  then show ?thesis by (simp add: record_to_json_def ascii_bytes_def MAX_STATE_BYTES_def)
qed

subsection \<open>Every sidecar of every history is well-formed\<close>

definition sidecars_ok :: "enc_disk \<Rightarrow> bool" where
  "sidecars_ok d \<longleftrightarrow> (\<forall>i r. dict_get (ed_state d) i = Some (Valid_Sidecar r) \<longrightarrow> sidecar_ok r)"

fun writes_ok :: "disk_action \<Rightarrow> bool" where
  "writes_ok (Put_State i r) = sidecar_ok r"
| "writes_ok _ = True"

lemma writes_ok_step: "sidecars_ok d \<Longrightarrow> writes_ok a \<Longrightarrow> sidecars_ok (apply_action a d)"
  by (cases a) (auto simp: sidecars_ok_def split: option.splits if_splits)

interpretation sidecars: guarded_disk "\<lambda>a d. safe_action sha a d \<and> writes_ok a" "\<lambda>d. disk_inv sha d \<and> sidecars_ok d" for sha
  by unfold_locales (auto intro: safe_action_inv writes_ok_step)

lemma all_actions_writes:
  "all_actions (\<lambda>a d. safe_action sha a d \<and> writes_ok a) acts d =
     (all_actions (safe_action sha) acts d \<and> (\<forall>a \<in> set acts. writes_ok a))"
  by (induction acts arbitrary: d) auto

lemma sidecars_read: "sidecars_ok d \<Longrightarrow> read_state i d = Inr r \<Longrightarrow> sidecar_ok r"
  using read_state_Inr[of i d r] by (auto simp: sidecars_ok_def)

lemma sidecar_ok_status [simp]:
  "sidecar_ok r \<Longrightarrow> sidecar_ok (record_complete r t)" "sidecar_ok r \<Longrightarrow> sidecar_ok (record_committing r t)"
  by (auto simp: sidecar_ok_def record_complete_def record_committing_def le_max_iff_disj)

lemma deletes_write_ok: "a \<in> set (delete_actions i) \<Longrightarrow> writes_ok a"
  by (auto simp: delete_actions_def)

lemma publish_writes_ok: "publish_committing t r d = (acts, res) \<Longrightarrow> sidecar_ok r \<Longrightarrow> a \<in> set acts \<Longrightarrow> writes_ok a"
  using publish_cases[of t r d acts res] by auto

lemma write_writes_ok:
  assumes sha: "\<And>x. length (sha x) = 32" and ok: "sidecars_ok d"
    and w: "write_chunk sha cfg t1 t2 i k ct mac d = (acts, res)" and a: "a \<in> set acts"
  shows "writes_ok a"
proof -
  have mac: "length mac = 32" using w a by (auto simp: write_chunk_def split: if_splits)
  have ins: "sidecar_ok (record_with_chunk r c t2)"
    if "read_state i d = Inr r" "length (sc_resume_mac c) = 32" "length (sc_sha256 c) = 32" for r c
    using sidecars_read[OF ok that(1)] that(2,3) by (auto simp: sidecar_ok_def record_with_chunk_def le_max_iff_disj)
  show ?thesis using write_chunk_cases[OF w] a mac sha ins deletes_write_ok by auto
qed

lemma complete_writes_ok:
  assumes ok: "sidecars_ok d" and c: "complete_file cfg t1 t2 t3 i d = (acts, res)" and a: "a \<in> set acts"
  shows "writes_ok a"
  using complete_cases[OF c]
proof (elim disjE exE conjE)
  fix r a2 res2
  assume "read_state i d = Inr r" "acts = a2" "publish_committing t3 r d = (a2, res2)"
  then show ?thesis using a sidecars_read[OF ok] publish_writes_ok by blast
next
  fix r a2 res2
  assume r: "read_state i d = Inr r" "acts = Put_State i (record_committing r t2) # a2"
    and p: "publish_committing t3 (record_committing r t2) d = (a2, res2)"
  have "sidecar_ok (record_committing r t2)" using sidecars_read[OF ok r(1)] by simp
  then show ?thesis using a r(2) publish_writes_ok[OF p, of a] by auto
qed (use a deletes_write_ok in auto)

lemma create_writes_ok:
  "0 \<le> t3 \<Longrightarrow> a \<in> set (fst (create_file cfg t1 t2 t3 space io_ok m d)) \<Longrightarrow> writes_ok a"
  using get_file_cases[of cfg t2 "em_file_id m"]
  by (auto simp: create_file_def expire_actions_def get_file_def delete_actions_def Let_def sidecar_ok_def
      split: sum.splits option.splits if_splits)

lemma reconcile_loop_writes_ok:
  assumes "disk_inv sha d" "sidecars_ok d" "distinct ids" "\<forall>j \<in> set ids. dict_get (ed_state d) j \<noteq> None"
    "reconcile_loop now ids d = (acts, kept)"
  shows "\<forall>a \<in> set acts. writes_ok a"
  using assms
proof (induction ids arbitrary: d acts kept)
  case (Cons j ids)
  obtain a1 k1 where one: "reconcile_one now j d = (a1, k1)" by fastforce
  let ?d1 = "apply_actions a1 d"
  obtain a2 k2 where loop: "reconcile_loop now ids ?d1 = (a2, k2)" by fastforce
  obtain sc where state: "dict_get (ed_state d) j = Some sc" using Cons.prems(4) by auto
  note 1 = reconcile_one_spec[OF Cons.prems(1) state one]
  have s1: "\<forall>a \<in> set a1. writes_ok a"
    using one sidecars_read[OF Cons.prems(2)] publish_writes_ok deletes_write_ok
    by (fastforce simp: reconcile_one_def reconcile_record_def Let_def split: sum.splits enc_status.splits option.splits if_splits prod.splits)
  have d1: "disk_inv sha ?d1 \<and> sidecars_ok ?d1"
    using sidecars.run_keeps[where as = a1 and d = d] Cons.prems(1,2) s1 1 by (auto simp: all_actions_writes)
  have same: "dict_get (ed_state ?d1) x = dict_get (ed_state d) x" if "x \<in> set ids" for x
    using untouched[of x a1 d] 1 that Cons.prems(3) by auto
  have "\<forall>a \<in> set a2. writes_ok a"
    by (rule Cons.IH[OF _ _ _ _ loop]) (use d1 Cons.prems(3,4) same in auto)
  then show ?case using s1 Cons.prems(5) one loop by auto
qed simp

text \<open>The clock of a creation; \<open>_now\<close> refuses a negative reading.\<close>

fun clock_ok :: "enc_event \<Rightarrow> bool" where
  "clock_ok (Done (Op_Create_File t1 t2 t3 space io_ok m)) = (0 \<le> t3)"
| "clock_ok (Crashed (Op_Create_File t1 t2 t3 space io_ok m) k junk) = (0 \<le> t3)"
| "clock_ok _ = True"

lemma clock_ok_crashed [simp]: "clock_ok (Crashed op k junk) = clock_ok (Done op)"
  by (cases op) simp_all

lemma op_writes_ok:
  assumes sha: "\<And>x. length (sha x) = 32" and inv: "disk_inv sha d" and ok: "sidecars_ok d" and clock: "clock_ok (Done op)"
    and a: "a \<in> set (op_actions sha cfg op d)"
  shows "writes_ok a"
proof (cases op)
  case (Op_Create_File t1 t2 t3 space io_ok m)
  then show ?thesis using a clock create_writes_ok by (auto split: sum.splits)
next
  case (Op_Write_Chunk t1 t2 i k ct mac)
  obtain acts res where w: "write_chunk sha cfg t1 t2 i k ct mac d = (acts, res)" by fastforce
  show ?thesis by (rule write_writes_ok[OF sha ok w]) (use a Op_Write_Chunk w in simp)
next
  case (Op_Complete t1 t2 t3 i)
  then show ?thesis using a complete_writes_ok[OF ok] by (metis op_actions.simps(3) prod.collapse)
next
  case (Op_Get t i)
  then show ?thesis using a deletes_write_ok
    by (auto simp: get_file_def split: sum.splits option.splits if_splits)
next
  case (Op_Delete i)
  then show ?thesis using a deletes_write_ok by (auto split: sum.splits)
next
  case (Op_Expire t)
  then show ?thesis using a deletes_write_ok by (auto simp: expire_actions_def split: sum.splits)
next
  case (Op_Reconcile t)
  obtain acts kept where loop: "reconcile_loop t (state_ids d) d = (acts, kept)" by fastforce
  have ids: "distinct (state_ids d)" "\<forall>j \<in> set (state_ids d). dict_get (ed_state d) j \<noteq> None"
    using inv dict_get_keys[of _ "ed_state d"] by (auto simp: state_ids_def disk_inv_def)
  show ?thesis using a Op_Reconcile loop reconcile_loop_writes_ok[OF inv ok ids loop]
    by (auto simp: reconcile_def Let_def)
qed

lemma sidecars_step:
  assumes "\<And>x. length (sha x) = 32" "disk_inv sha d" "sidecars_ok d" "clock_ok ev"
  shows "sidecars_ok (enc_step sha cfg d ev)"
proof -
  obtain op k junk where ev: "ev = Done op \<or> ev = Crashed op k junk" by (cases ev) auto
  have "clock_ok (Done op)" using assms(4) ev clock_ok_crashed by blast
  then have "all_actions (\<lambda>a d. safe_action sha a d \<and> writes_ok a) (op_actions sha cfg op d) d"
    using op_safe[OF assms(2)] op_writes_ok[OF assms(1-3)] by (simp add: all_actions_writes)
  from sidecars.step_keeps[OF _ ev this] assms(2,3) show ?thesis by blast
qed

lemma sidecars_run:
  "(\<And>x. length (sha x) = 32) \<Longrightarrow> disk_inv sha d \<Longrightarrow> sidecars_ok d \<Longrightarrow> \<forall>ev \<in> set evs. clock_ok ev \<Longrightarrow>
     sidecars_ok (enc_run sha cfg d evs)"
  unfolding enc_run_def by (induction evs arbitrary: d) (simp_all add: inv_step sidecars_step del: enc_step.simps)

text \<open>
  C26. Sidecars survive their codec. Whatever record any history of operations and crashes leaves in a sidecar, its JSON text stays
  within the journal limit, and the strict decoder of the next start reads exactly that record back, provided
  \<open>json.loads\<close> inverts \<open>json.dumps\<close> on it, digests have 32 bytes and a float prints in at most 32 characters.
\<close>

theorem sidecar_decodes_to_itself:
  assumes "\<forall>x. length (sha x) = 32" and "\<forall>t. length (ft t) \<le> 32" and "\<forall>ev \<in> set evs. clock_ok ev"
    and "dict_get (ed_state (enc_run sha cfg empty_disk evs)) i = Some (Valid_Sidecar r)"
    and "loads (record_to_json ft r) = Some (json_sorted (record_json r))"
  shows "length (record_to_json ft r) \<le> MAX_STATE_BYTES \<and> decode_encrypted_state loads (record_to_json ft r) i = Inr r"
proof -
  have "sidecars_ok empty_disk" by (simp add: sidecars_ok_def empty_disk_def)
  then have "sidecars_ok (enc_run sha cfg empty_disk evs)" using sidecars_run[OF _ inv_empty] assms(1,3) by blast
  then have ok: "record_ok i r" "sidecar_ok r"
    using disk_inv_get[OF inv_history assms(4)] assms(4) by (auto simp: sidecars_ok_def)
  have fits: "length (record_to_json ft r) \<le> MAX_STATE_BYTES" by (rule record_fits[OF ok]) (use assms(2) in blast)
  then show ?thesis using assms(5) decode_record_json[OF ok] by (simp add: decode_encrypted_state_def)
qed

theorem sidecar_decodes_to_itself_witness:
  "decode_encrypted_state (\<lambda>_. Some (json_sorted (record_json \<lparr>sf_manifest = demo_manifest, sf_status = Partial_File, sf_chunks = [],
       sf_created_at = 0, sf_updated_at = 0\<rparr>)))
     (record_to_json (\<lambda>_. ''0.0'') \<lparr>sf_manifest = demo_manifest, sf_status = Partial_File, sf_chunks = [],
       sf_created_at = 0, sf_updated_at = 0\<rparr>) (em_file_id demo_manifest) =
   Inr \<lparr>sf_manifest = demo_manifest, sf_status = Partial_File, sf_chunks = [], sf_created_at = 0, sf_updated_at = 0\<rparr>"
proof -
  let ?r = "\<lparr>sf_manifest = demo_manifest, sf_status = Partial_File, sf_chunks = [], sf_created_at = 0, sf_updated_at = 0\<rparr>"
  let ?sha = "\<lambda>x :: bytes. take 32 (x @ replicate 32 0)"
  have h: "\<forall>x. length (?sha x) = 32" "\<forall>t :: real. length (''0.0'' :: string) \<le> 32" "\<forall>ev \<in> set [demo_create]. clock_ok ev"
    by (auto simp: demo_create_def min_def)
  have s: "dict_get (ed_state (enc_run ?sha demo_enc_config empty_disk [demo_create])) (em_file_id demo_manifest) = Some (Valid_Sidecar ?r)"
    by (simp add: demo_create_run)
  from sidecar_decodes_to_itself[where ft = "\<lambda>_. ''0.0''" and loads = "\<lambda>_. Some (json_sorted (record_json ?r))", OF h s refl]
  show ?thesis by blast
qed

end
