(* ===== verification/Ecdh_Sessions.thy ===== *)
theory Ecdh_Sessions
  imports Py_Prelude "HOL-Library.Sublist"
begin

section \<open>Key-exchange sessions with idle expiry and a size cap\<close>

text \<open>
  \<open>ECDHKeyManager\<close> of \<^verbatim>\<open>xferry/security/keys.py\<close>. The table is an \<open>OrderedDict\<close> kept in order of last use; cleanup
  pops its front while it is expired, and then while there are too many. P-256, HKDF and AES-GCM are
  parameters; the session identifier drawn by \<open>secrets.token_hex(16)\<close>, the nonce and every clock reading are arguments.
\<close>

record ecdh_session =
  se_key :: bytes
  se_last :: time

record ecdh =
  ek_ttl :: time
  ek_max :: nat
  ek_sessions :: "(string, ecdh_session) dict"

definition NONCE_LEN :: nat where "NONCE_LEN = 12"

definition ecdh_make :: "time \<Rightarrow> nat \<Rightarrow> py_error + ecdh" where
  "ecdh_make ttl limit =
     (if ttl \<le> 0 then Inl ValueError else if limit = 0 then Inl ValueError
      else Inr \<lparr>ek_ttl = ttl, ek_max = limit, ek_sessions = []\<rparr>)"

text \<open>The two loops of \<open>_cleanup_sessions_unlocked\<close>.\<close>

fun pop_expired :: "time \<Rightarrow> (string, ecdh_session) dict \<Rightarrow> (string, ecdh_session) dict" where
  "pop_expired cutoff [] = []"
| "pop_expired cutoff (kv # kvs) = (if cutoff < se_last (snd kv) then kv # kvs else pop_expired cutoff kvs)"

fun pop_over :: "nat \<Rightarrow> (string, ecdh_session) dict \<Rightarrow> (string, ecdh_session) dict" where
  "pop_over limit [] = []"
| "pop_over limit (kv # kvs) = (if limit < length (kv # kvs) then pop_over limit kvs else kv # kvs)"

definition cleanup_sessions :: "time \<Rightarrow> ecdh \<Rightarrow> ecdh" where
  "cleanup_sessions now m = m\<lparr>ek_sessions := pop_over (ek_max m) (pop_expired (now - ek_ttl m) (ek_sessions m))\<rparr>"

definition active_session_count :: "time \<Rightarrow> ecdh \<Rightarrow> nat \<times> ecdh" where
  "active_session_count now m = (let m' = cleanup_sessions now m in (length (ek_sessions m'), m'))"

text \<open>\<open>exchange\<close>: the shared secret with the client's point, \<open>None\<close> when the encoding is refused.\<close>

definition derive_session ::
  "(bytes \<Rightarrow> bytes option) \<Rightarrow> (bytes \<Rightarrow> bytes) \<Rightarrow> time \<Rightarrow> string \<Rightarrow> bytes \<Rightarrow> ecdh \<Rightarrow> (py_error + string \<times> bytes) \<times> ecdh" where
  "derive_session exchange hkdf now sid client_pub m =
     (case exchange client_pub of
        None \<Rightarrow> (Inl ValueError, m)
      | Some shared \<Rightarrow>
          (let key = hkdf shared; m1 = cleanup_sessions now m;
               m2 = m1\<lparr>ek_sessions := dict_set sid \<lparr>se_key = key, se_last = now\<rparr> (ek_sessions m1)\<rparr>
           in (Inr (sid, key), cleanup_sessions now m2)))"

definition move_to_end :: "'k \<Rightarrow> ('k, 'v) dict \<Rightarrow> ('k, 'v) dict" where
  "move_to_end k d = (case dict_get d k of None \<Rightarrow> d | Some v \<Rightarrow> dict_del k d @ [(k, v)])"

definition get_session_key :: "time \<Rightarrow> string \<Rightarrow> ecdh \<Rightarrow> bytes option \<times> ecdh" where
  "get_session_key now sid m =
     (let m1 = cleanup_sessions now m
      in case dict_get (ek_sessions m1) sid of
           None \<Rightarrow> (None, m1)
         | Some s \<Rightarrow> (Some (se_key s), m1\<lparr>ek_sessions := move_to_end sid (dict_set sid (s\<lparr>se_last := now\<rparr>) (ek_sessions m1))\<rparr>))"

definition remove_session :: "string \<Rightarrow> ecdh \<Rightarrow> ecdh" where
  "remove_session sid m = m\<lparr>ek_sessions := dict_del sid (ek_sessions m)\<rparr>"

definition ecdh_encrypt ::
  "(bytes \<Rightarrow> bytes \<Rightarrow> bytes \<Rightarrow> bytes) \<Rightarrow> time \<Rightarrow> bytes \<Rightarrow> string \<Rightarrow> bytes \<Rightarrow> ecdh \<Rightarrow> (py_error + bytes) \<times> ecdh" where
  "ecdh_encrypt gcm_encrypt now nonce sid plaintext m =
     (case get_session_key now sid m of
        (None, m') \<Rightarrow> (Inl ValueError, m')
      | (Some key, m') \<Rightarrow> (Inr (nonce @ gcm_encrypt key nonce plaintext), m'))"

text \<open>\<open>gcm_decrypt\<close> is \<open>None\<close> when the tag does not verify (\<open>InvalidTag\<close>); the result is then \<open>Inr None\<close>.\<close>

definition ecdh_decrypt ::
  "(bytes \<Rightarrow> bytes \<Rightarrow> bytes \<Rightarrow> bytes option) \<Rightarrow> time \<Rightarrow> string \<Rightarrow> bytes \<Rightarrow> ecdh \<Rightarrow> (py_error + bytes option) \<times> ecdh" where
  "ecdh_decrypt gcm_decrypt now sid data m =
     (case get_session_key now sid m of
        (None, m') \<Rightarrow> (Inl ValueError, m')
      | (Some key, m') \<Rightarrow>
          if length data < NONCE_LEN + 16 then (Inl ValueError, m')
          else (Inr (gcm_decrypt key (take NONCE_LEN data) (drop NONCE_LEN data)), m'))"

subsection \<open>Histories\<close>

datatype ecdh_op = K_Derive time string bytes | K_Get time string | K_Remove string | K_Count time

datatype ecdh_result = R_Derived "py_error + string \<times> bytes" | R_Key "bytes option" | R_Removed | R_Count nat

fun ecdh_step :: "(bytes \<Rightarrow> bytes option) \<Rightarrow> (bytes \<Rightarrow> bytes) \<Rightarrow> ecdh_op \<Rightarrow> ecdh \<Rightarrow> ecdh_result \<times> ecdh" where
  "ecdh_step ex kdf (K_Derive now sid pub) m = (let (r, m') = derive_session ex kdf now sid pub m in (R_Derived r, m'))"
| "ecdh_step ex kdf (K_Get now sid) m = (let (r, m') = get_session_key now sid m in (R_Key r, m'))"
| "ecdh_step ex kdf (K_Remove sid) m = (R_Removed, remove_session sid m)"
| "ecdh_step ex kdf (K_Count now) m = (let (r, m') = active_session_count now m in (R_Count r, m'))"

fun ecdh_run :: "(bytes \<Rightarrow> bytes option) \<Rightarrow> (bytes \<Rightarrow> bytes) \<Rightarrow> ecdh_op list \<Rightarrow> ecdh \<Rightarrow> ecdh_result list \<times> ecdh" where
  "ecdh_run ex kdf [] m = ([], m)"
| "ecdh_run ex kdf (op # ops) m =
     (let (r, m1) = ecdh_step ex kdf op m; (rs, m2) = ecdh_run ex kdf ops m1 in (r # rs, m2))"

subsection \<open>Cleanup drops a prefix\<close>

lemma pop_over_drop: "pop_over limit d = drop (length d - limit) d"
  by (induction limit d rule: pop_over.induct) (auto simp: Suc_diff_le)

lemma pop_expired_drop: "\<exists>n. pop_expired cutoff d = drop n d"
proof (induction d)
  case (Cons kv d)
  then obtain n where "pop_expired cutoff d = drop n d" by blast
  then have "pop_expired cutoff (kv # d) = drop (if cutoff < se_last (snd kv) then 0 else Suc n) (kv # d)" by simp
  then show ?case by blast
qed simp

lemma cleanup_suffix: "\<exists>n. ek_sessions (cleanup_sessions now m) = drop n (ek_sessions m)"
proof -
  obtain n where "pop_expired (now - ek_ttl m) (ek_sessions m) = drop n (ek_sessions m)" using pop_expired_drop by blast
  then show ?thesis by (auto simp: cleanup_sessions_def pop_over_drop)
qed

lemma cleanup_config [simp]:
  "ek_ttl (cleanup_sessions now m) = ek_ttl m" "ek_max (cleanup_sessions now m) = ek_max m"
  by (simp_all add: cleanup_sessions_def)

lemma cleanup_length: "length (ek_sessions (cleanup_sessions now m)) \<le> ek_max m"
  by (simp add: cleanup_sessions_def pop_over_drop)

lemma pop_expired_front: "pop_expired cutoff d = kv # rest \<Longrightarrow> cutoff < se_last (snd kv)"
  by (induction d) (auto split: if_splits)

subsection \<open>Idle expiry under skewed clock readings\<close>

text \<open>
  The clock is read before the lock is taken, so two threads may enter with readings out of order. \<open>staggered \<delta>\<close>:
  no entry was used more than \<open>\<delta>\<close> later than an entry behind it.
\<close>

definition staggered :: "time \<Rightarrow> (string, ecdh_session) dict \<Rightarrow> bool" where
  "staggered \<delta> d \<longleftrightarrow> sorted_wrt (\<lambda>x y. se_last (snd x) \<le> se_last (snd y) + \<delta>) d"

definition used_before :: "time \<Rightarrow> time \<Rightarrow> (string, ecdh_session) dict \<Rightarrow> bool" where
  "used_before \<delta> now d \<longleftrightarrow> (\<forall>x \<in> set d. se_last (snd x) \<le> now + \<delta>)"

lemma staggered_simps [simp]:
  "staggered \<delta> []" "staggered \<delta> (d @ [x]) \<longleftrightarrow> staggered \<delta> d \<and> (\<forall>y \<in> set d. se_last (snd y) \<le> se_last (snd x) + \<delta>)"
  by (auto simp: staggered_def sorted_wrt_append)

lemma staggered_drop: "staggered \<delta> d \<Longrightarrow> staggered \<delta> (drop n d)"
  by (simp add: staggered_def sorted_wrt_drop)

lemma staggered_filter: "staggered \<delta> d \<Longrightarrow> staggered \<delta> (filter P d)"
  by (simp add: staggered_def sorted_wrt_filter)

lemma dict_ok_drop: "dict_ok d \<Longrightarrow> dict_ok (drop n d)"
  by (simp add: drop_map[symmetric])

text \<open>An entry of the table after a cleanup has not been idle for the time to live and the skew.\<close>

lemma cleanup_idle:
  assumes "staggered \<delta> (ek_sessions m)" "0 \<le> \<delta>" "x \<in> set (ek_sessions (cleanup_sessions now m))"
  shows "now - se_last (snd x) < ek_ttl m + \<delta>"
proof -
  let ?p = "pop_expired (now - ek_ttl m) (ek_sessions m)"
  have x: "x \<in> set ?p" using assms(3) by (auto simp: cleanup_sessions_def pop_over_drop dest: in_set_dropD)
  then obtain kv rest where p: "?p = kv # rest" by (cases ?p) auto
  have "staggered \<delta> ?p" using pop_expired_drop staggered_drop[OF assms(1)] by metis
  then have "se_last (snd kv) \<le> se_last (snd x) + \<delta>" using x p assms(2) by (auto simp: staggered_def)
  moreover have "now - ek_ttl m < se_last (snd kv)" by (rule pop_expired_front[OF p])
  ultimately show ?thesis by linarith
qed

text \<open>Every entry goes back to its derivation and to its last use.\<close>

fun op_time :: "ecdh_op \<Rightarrow> time option" where
  "op_time (K_Derive now sid pub) = Some now" | "op_time (K_Get now sid) = Some now" | "op_time (K_Remove sid) = None"
| "op_time (K_Count now) = Some now"

fun op_sid :: "ecdh_op \<Rightarrow> string option" where
  "op_sid (K_Derive now sid pub) = Some sid" | "op_sid (K_Get now sid) = Some sid" | "op_sid _ = None"

definition skewed :: "time \<Rightarrow> ecdh_op list \<Rightarrow> bool" where
  "skewed \<delta> ops \<longleftrightarrow> sorted_wrt (\<lambda>a b. \<forall>s t. op_time a = Some s \<longrightarrow> op_time b = Some t \<longrightarrow> s \<le> t + \<delta>) ops"

definition derives :: "ecdh_op list \<Rightarrow> string list" where
  "derives ops = concat (map (\<lambda>op. case op of K_Derive _ sid _ \<Rightarrow> [sid] | _ \<Rightarrow> []) ops)"

definition used_at :: "ecdh_op list \<Rightarrow> string \<Rightarrow> time \<Rightarrow> bool" where
  "used_at ops sid t \<longleftrightarrow> (\<exists>op \<in> set ops. op_sid op = Some sid \<and> op_time op = Some t)"

definition derived_with :: "(bytes \<Rightarrow> bytes option) \<Rightarrow> (bytes \<Rightarrow> bytes) \<Rightarrow> ecdh_op list \<Rightarrow> string \<Rightarrow> bytes \<Rightarrow> bool" where
  "derived_with ex kdf ops sid key \<longleftrightarrow> (\<exists>now pub shared. K_Derive now sid pub \<in> set ops \<and> ex pub = Some shared \<and> key = kdf shared)"

text \<open>\<open>live\<close>: never removed after it was derived.\<close>

definition live :: "ecdh_op list \<Rightarrow> string \<Rightarrow> bool" where
  "live ops sid \<longleftrightarrow> (\<forall>pre post. ops = pre @ K_Remove sid # post \<longrightarrow> sid \<notin> set (derives pre))"

definition backed ::
  "(bytes \<Rightarrow> bytes option) \<Rightarrow> (bytes \<Rightarrow> bytes) \<Rightarrow> ecdh_op list \<Rightarrow> string \<times> ecdh_session \<Rightarrow> bool" where
  "backed ex kdf past x \<longleftrightarrow> derived_with ex kdf past (fst x) (se_key (snd x)) \<and> used_at past (fst x) (se_last (snd x)) \<and>
     live past (fst x)"

definition ecdh_core ::
  "(bytes \<Rightarrow> bytes option) \<Rightarrow> (bytes \<Rightarrow> bytes) \<Rightarrow> time \<Rightarrow> ecdh_op list \<Rightarrow> (string, ecdh_session) dict \<Rightarrow> bool" where
  "ecdh_core ex kdf \<delta> past d \<longleftrightarrow> dict_ok d \<and> staggered \<delta> d \<and> (\<forall>x \<in> set d. backed ex kdf past x)"

lemma core_drop: "ecdh_core ex kdf \<delta> past d \<Longrightarrow> ecdh_core ex kdf \<delta> past (drop n d)"
  by (auto simp: ecdh_core_def dict_ok_drop staggered_drop dest: in_set_dropD)

lemma core_cleanup: "ecdh_core ex kdf \<delta> past (ek_sessions m) \<Longrightarrow> ecdh_core ex kdf \<delta> past (ek_sessions (cleanup_sessions now m))"
  using cleanup_suffix[of now m] core_drop by metis

lemma derived_past: "derived_with ex kdf past sid key \<Longrightarrow> derived_with ex kdf (past @ [op]) sid key"
  unfolding derived_with_def set_append by blast

lemma used_past: "used_at past sid t \<Longrightarrow> used_at (past @ [op]) sid t"
  unfolding used_at_def set_append by blast

lemma live_past: "live past sid \<Longrightarrow> op \<noteq> K_Remove sid \<Longrightarrow> live (past @ [op]) sid"
  unfolding live_def by (metis append_butlast_last_id butlast.simps(2) butlast_append last.simps last_appendR list.distinct(1)
      last_snoc butlast_snoc)

lemma live_fresh: "sid \<notin> set (derives past) \<Longrightarrow> op \<noteq> K_Remove sid \<Longrightarrow> live (past @ [op]) sid"
  by (rule live_past) (auto simp: live_def derives_def)

lemma core_past:
  "ecdh_core ex kdf \<delta> past d \<Longrightarrow> (\<And>sid. op = K_Remove sid \<Longrightarrow> sid \<notin> fst ` set d) \<Longrightarrow> ecdh_core ex kdf \<delta> (past @ [op]) d"
  unfolding ecdh_core_def backed_def by (blast intro: derived_past used_past live_past)

text \<open>An operation at \<open>now\<close> is at most \<open>\<delta>\<close> behind every use so far.\<close>

lemma used_now:
  assumes "ecdh_core ex kdf \<delta> past d" "skewed \<delta> (past @ [op])" "op_time op = Some now" "x \<in> set d"
  shows "se_last (snd x) \<le> now + \<delta>"
proof -
  obtain p where "p \<in> set past" "op_time p = Some (se_last (snd x))"
    using assms(1,4) by (auto simp: ecdh_core_def backed_def used_at_def)
  then show ?thesis using assms(2,3) by (auto simp: skewed_def sorted_wrt_append)
qed

lemma core_append:
  assumes "ecdh_core ex kdf \<delta> past d" "skewed \<delta> (past @ [op])" "op_time op = Some now" "op_sid op = Some sid"
    "sid \<notin> fst ` set d" "derived_with ex kdf (past @ [op]) sid key" "live (past @ [op]) sid"
  shows "ecdh_core ex kdf \<delta> (past @ [op]) (d @ [(sid, \<lparr>se_key = key, se_last = now\<rparr>)])"
proof -
  have "used_at (past @ [op]) sid now" using assms(3,4) by (auto simp: used_at_def)
  moreover have "op \<noteq> K_Remove i" for i using assms(3) by auto
  ultimately show ?thesis using core_past[OF assms(1), of op] used_now[OF assms(1-3)] assms(5-7)
    by (auto simp: ecdh_core_def backed_def)
qed

lemma core_filter: "ecdh_core ex kdf \<delta> past d \<Longrightarrow> ecdh_core ex kdf \<delta> past (dict_del sid d)"
  by (auto simp: ecdh_core_def staggered_filter dict_del_filter)

lemma core_step:
  assumes core: "ecdh_core ex kdf \<delta> past (ek_sessions m)" and sk: "skewed \<delta> (past @ [op])" and fresh: "distinct (derives (past @ [op]))"
  shows "ecdh_core ex kdf \<delta> (past @ [op]) (ek_sessions (snd (ecdh_step ex kdf op m)))"
proof (cases op)
  case (K_Derive now sid pub)
  show ?thesis
  proof (cases "ex pub")
    case None
    then show ?thesis using K_Derive core_past[OF core, of op] by (simp add: derive_session_def)
  next
    case (Some shared)
    let ?d = "ek_sessions (cleanup_sessions now m)"
    have c: "ecdh_core ex kdf \<delta> past ?d" by (rule core_cleanup[OF core])
    have unused: "sid \<notin> set (derives past)" using fresh K_Derive by (simp add: derives_def)
    moreover have "fst x \<in> set (derives past)" if "x \<in> set ?d" for x
      using c that by (force simp: ecdh_core_def backed_def derived_with_def derives_def)
    ultimately have new: "sid \<notin> fst ` set ?d" by auto
    have "derived_with ex kdf (past @ [op]) sid (kdf shared)" using Some K_Derive by (auto simp: derived_with_def)
    from core_append[OF c sk _ _ new this live_fresh[OF unused]] K_Derive
    have "ecdh_core ex kdf \<delta> (past @ [op]) (?d @ [(sid, \<lparr>se_key = kdf shared, se_last = now\<rparr>)])" by simp
    moreover have "dict_set sid \<lparr>se_key = kdf shared, se_last = now\<rparr> ?d = ?d @ [(sid, \<lparr>se_key = kdf shared, se_last = now\<rparr>)]"
      by (rule dict_set_new) (use new in \<open>simp add: map_of_eq_None_iff\<close>)
    ultimately show ?thesis using K_Derive Some by (simp add: derive_session_def Let_def core_cleanup)
  qed
next
  case (K_Get now sid)
  let ?d = "ek_sessions (cleanup_sessions now m)"
  have c: "ecdh_core ex kdf \<delta> past ?d" by (rule core_cleanup[OF core])
  show ?thesis
  proof (cases "dict_get ?d sid")
    case None
    then show ?thesis using K_Get core_past[OF c, of op] by (simp add: get_session_key_def Let_def)
  next
    case (Some s)
    have "derived_with ex kdf (past @ [op]) sid (se_key s)"
      using c Some dict_get_SomeD[OF Some] derived_past by (force simp: ecdh_core_def backed_def)
    have t: "op_time op = Some now" "op_sid op = Some sid" "sid \<notin> fst ` set (dict_del sid ?d)"
      using K_Get by (auto simp: dict_del_filter)
    have "ecdh_core ex kdf \<delta> (past @ [op]) (dict_del sid ?d @ [(sid, \<lparr>se_key = se_key s, se_last = now\<rparr>)])"
    proof (rule core_append[OF core_filter[OF c] sk t])
      have "live past sid" using c Some dict_get_SomeD[OF Some] by (force simp: ecdh_core_def backed_def)
      then show "live (past @ [op]) sid" using K_Get by (simp add: live_past)
    qed fact
    moreover have "dict_del sid (dict_set sid (s\<lparr>se_last := now\<rparr>) ?d) = dict_del sid ?d" by (simp add: dict_del_filter filter_dict_set)
    moreover have upd: "s\<lparr>se_last := now\<rparr> = \<lparr>se_key = se_key s, se_last = now\<rparr>" by simp
    ultimately show ?thesis using K_Get Some by (simp add: get_session_key_def Let_def move_to_end_def upd)
  qed
next
  case (K_Remove sid)
  show ?thesis using core_past[OF core_filter[OF core], of op sid] K_Remove by (auto simp: remove_session_def dict_del_filter)
next
  case (K_Count now)
  then show ?thesis using core_past[OF core_cleanup[OF core], of op] by (simp add: active_session_count_def Let_def)
qed

lemma step_config [simp]:
  "ek_ttl (snd (ecdh_step ex kdf op m)) = ek_ttl m" "ek_max (snd (ecdh_step ex kdf op m)) = ek_max m"
  by (cases op; simp add: derive_session_def get_session_key_def remove_session_def active_session_count_def Let_def split: option.split)+

lemma derives_append [simp]: "derives (a @ b) = derives a @ derives b"
  by (simp add: derives_def)

lemma skewed_append: "skewed \<delta> (a @ b) \<Longrightarrow> skewed \<delta> a"
  by (simp add: skewed_def sorted_wrt_append)

lemma core_run:
  "ecdh_core ex kdf \<delta> past (ek_sessions m) \<Longrightarrow> skewed \<delta> (past @ ops) \<Longrightarrow> distinct (derives (past @ ops)) \<Longrightarrow>
     ecdh_core ex kdf \<delta> (past @ ops) (ek_sessions (snd (ecdh_run ex kdf ops m))) \<and>
     ek_ttl (snd (ecdh_run ex kdf ops m)) = ek_ttl m \<and> ek_max (snd (ecdh_run ex kdf ops m)) = ek_max m"
proof (induction ops arbitrary: past m)
  case (Cons op ops)
  have "derives (past @ op # ops) = derives (past @ [op]) @ derives ops" by (simp add: derives_def)
  then have "skewed \<delta> (past @ [op])" "distinct (derives (past @ [op]))"
    using Cons.prems(2,3) skewed_append[of \<delta> "past @ [op]" ops] by (simp_all del: derives_append)
  from core_step[OF Cons.prems(1) this]
  have "ecdh_core ex kdf \<delta> (past @ [op]) (ek_sessions (snd (ecdh_step ex kdf op m)))" .
  from Cons.IH[OF this] Cons.prems(2,3) show ?case by (simp add: split_beta Let_def)
qed simp

lemma core_empty [simp]: "ecdh_core ex kdf \<delta> past []"
  by (simp add: ecdh_core_def)

text \<open>
  No session outlives its idle time. Take any history of derivations with fresh identifiers, look-ups, removals and counts whose
  clock readings are at most \<open>\<delta>\<close> out of order (threads read the clock before they take the lock). A look-up
  that returns a key returns the key derived for that very identifier, which was not removed since, and the
  session was used less than the time to live plus \<open>\<delta>\<close> ago; the table never exceeds its cap.
\<close>

theorem session_idle_bounded:
  assumes "ecdh_make ttl limit = Inr m0" and "0 \<le> \<delta>" and "skewed \<delta> ops" and "distinct (derives ops)"
    and "get_session_key now sid (snd (ecdh_run ex kdf ops m0)) = (Some key, m')"
  shows "derived_with ex kdf ops sid key \<and> live ops sid \<and> (\<exists>t. used_at ops sid t \<and> now - t < ttl + \<delta>) \<and>
    length (ek_sessions m') \<le> limit"
proof -
  let ?m = "snd (ecdh_run ex kdf ops m0)" and ?c = "cleanup_sessions now (snd (ecdh_run ex kdf ops m0))"
  have m0: "ek_sessions m0 = []" "ek_ttl m0 = ttl" "ek_max m0 = limit" using assms(1) by (auto simp: ecdh_make_def split: if_splits)
  have core: "ecdh_core ex kdf \<delta> ops (ek_sessions ?m)" "ek_ttl ?m = ttl" "ek_max ?m = limit"
    using core_run[of ex kdf \<delta> "[]" m0 ops] assms(3,4) m0 by simp_all
  obtain s where s: "dict_get (ek_sessions ?c) sid = Some s" "se_key s = key"
    "m' = ?c\<lparr>ek_sessions := move_to_end sid (dict_set sid (s\<lparr>se_last := now\<rparr>) (ek_sessions ?c))\<rparr>"
    using assms(5) by (auto simp: get_session_key_def Let_def split: option.splits)
  have x: "(sid, s) \<in> set (ek_sessions ?c)" by (rule dict_get_SomeD[OF s(1)])
  have "backed ex kdf ops (sid, s)" using core_cleanup[OF core(1)] x by (auto simp: ecdh_core_def)
  moreover have "now - se_last s < ttl + \<delta>"
    using cleanup_idle[OF _ assms(2) x] core(1,2) by (simp add: ecdh_core_def)
  moreover have "length (ek_sessions m') \<le> limit"
  proof -
    have "length (dict_del sid (ek_sessions ?c)) < length (ek_sessions ?c)"
      unfolding dict_del_filter by (rule length_filter_less[OF x]) simp
    then show ?thesis using cleanup_length[of now ?m] core(3) s by (simp add: move_to_end_def dict_del_filter filter_dict_set)
  qed
  ultimately show ?thesis using s(2) by (auto simp: backed_def)
qed

theorem session_idle_bounded_witness:
  "\<exists>t. used_at [K_Derive 5 ''a'' [1], K_Derive 4 ''b'' [2]] ''b'' t \<and> 103 - t < (100 + 1 :: real)"
proof -
  let ?ops = "[K_Derive 5 ''a'' [1], K_Derive 4 ''b'' [2]]"
  obtain m0 where m0: "ecdh_make 100 2 = Inr m0" by (simp add: ecdh_make_def)
  have h: "skewed 1 ?ops" "distinct (derives ?ops)" by (simp_all add: skewed_def derives_def)
  have g: "get_session_key 103 ''b'' (snd (ecdh_run Some id ?ops m0)) =
      (Some [2], snd (get_session_key 103 ''b'' (snd (ecdh_run Some id ?ops m0))))"
    using m0 by (auto simp: ecdh_make_def derive_session_def cleanup_sessions_def get_session_key_def Let_def)
  from session_idle_bounded[OF m0 _ h g] show ?thesis by simp
qed

subsection \<open>With an ordered clock the prefix scan is the full scan\<close>

text \<open>The specification: one cleanup per operation, that looks at every entry.\<close>

definition spec_cleanup :: "time \<Rightarrow> ecdh \<Rightarrow> ecdh" where
  "spec_cleanup now m =
     (let active = filter (\<lambda>x. now - ek_ttl m < se_last (snd x)) (ek_sessions m)
      in m\<lparr>ek_sessions := drop (length active - ek_max m) active\<rparr>)"

fun spec_step :: "(bytes \<Rightarrow> bytes option) \<Rightarrow> (bytes \<Rightarrow> bytes) \<Rightarrow> ecdh_op \<Rightarrow> ecdh \<Rightarrow> ecdh_result \<times> ecdh" where
  "spec_step ex kdf (K_Derive now sid pub) m =
     (case ex pub of
        None \<Rightarrow> (R_Derived (Inl ValueError), m)
      | Some shared \<Rightarrow> (R_Derived (Inr (sid, kdf shared)),
          spec_cleanup now (m\<lparr>ek_sessions := ek_sessions m @ [(sid, \<lparr>se_key = kdf shared, se_last = now\<rparr>)]\<rparr>)))"
| "spec_step ex kdf (K_Get now sid) m =
     (let active = spec_cleanup now m
      in case dict_get (ek_sessions active) sid of
           None \<Rightarrow> (R_Key None, active)
         | Some s \<Rightarrow> (R_Key (Some (se_key s)),
             active\<lparr>ek_sessions := filter (\<lambda>x. fst x \<noteq> sid) (ek_sessions active) @ [(sid, s\<lparr>se_last := now\<rparr>)]\<rparr>))"
| "spec_step ex kdf (K_Remove sid) m = (R_Removed, m\<lparr>ek_sessions := filter (\<lambda>x. fst x \<noteq> sid) (ek_sessions m)\<rparr>)"
| "spec_step ex kdf (K_Count now) m = (R_Count (length (ek_sessions (spec_cleanup now m))), spec_cleanup now m)"

fun spec_run :: "(bytes \<Rightarrow> bytes option) \<Rightarrow> (bytes \<Rightarrow> bytes) \<Rightarrow> ecdh_op list \<Rightarrow> ecdh \<Rightarrow> ecdh_result list \<times> ecdh" where
  "spec_run ex kdf [] m = ([], m)"
| "spec_run ex kdf (op # ops) m =
     (let (r, m1) = spec_step ex kdf op m; (rs, m2) = spec_run ex kdf ops m1 in (r # rs, m2))"

lemma pop_expired_filter: "staggered 0 d \<Longrightarrow> pop_expired cutoff d = filter (\<lambda>x. cutoff < se_last (snd x)) d"
proof (induction d)
  case (Cons kv d)
  show ?case
  proof (cases "cutoff < se_last (snd kv)")
    case True
    then have "\<forall>x \<in> set d. cutoff < se_last (snd x)" using Cons.prems by (auto simp: staggered_def)
    then show ?thesis using True by simp
  next
    case False
    then show ?thesis using Cons by (simp add: staggered_def)
  qed
qed simp

lemma cleanup_spec: "staggered 0 (ek_sessions m) \<Longrightarrow> cleanup_sessions now m = spec_cleanup now m"
  by (simp add: cleanup_sessions_def spec_cleanup_def pop_expired_filter pop_over_drop Let_def)

lemma spec_cleanup_idem:
  assumes "0 < ek_max m" "now - ek_ttl m < se_last s"
  shows "spec_cleanup now ((spec_cleanup now m)\<lparr>ek_sessions := ek_sessions (spec_cleanup now m) @ [(sid, s)]\<rparr>) =
    spec_cleanup now (m\<lparr>ek_sessions := ek_sessions m @ [(sid, s)]\<rparr>)"
proof -
  let ?P = "\<lambda>x. now - ek_ttl m < se_last (snd x)"
  let ?a = "filter ?P (ek_sessions m)"
  let ?d = "drop (length ?a - ek_max m) ?a"
  have "filter ?P ?d = ?d" by (rule filter_True) (auto dest: in_set_dropD)
  moreover have "Suc n - (n - k + k) + (n - k) = Suc n - k" for n k :: nat by linarith
  ultimately show ?thesis using assms by (simp add: spec_cleanup_def Let_def)
qed

lemma step_spec:
  assumes core: "ecdh_core ex kdf 0 past (ek_sessions m)" and sk: "skewed 0 (past @ [op])"
    and fresh: "distinct (derives (past @ [op]))" and cfg: "0 < ek_ttl m" "0 < ek_max m"
  shows "ecdh_step ex kdf op m = spec_step ex kdf op m"
proof (cases op)
  case (K_Derive now sid pub)
  show ?thesis
  proof (cases "ex pub")
    case (Some shared)
    let ?c = "cleanup_sessions now m" and ?s = "\<lparr>se_key = kdf shared, se_last = now\<rparr>"
    have c: "ecdh_core ex kdf 0 past (ek_sessions ?c)" by (rule core_cleanup[OF core])
    have "sid \<notin> set (derives past)" using fresh K_Derive by (simp add: derives_def)
    moreover have "fst x \<in> set (derives past)" if "x \<in> set (ek_sessions ?c)" for x
      using c that by (force simp: ecdh_core_def backed_def derived_with_def derives_def)
    ultimately have "sid \<notin> fst ` set (ek_sessions ?c)" by auto
    then have set: "dict_set sid ?s (ek_sessions ?c) = ek_sessions ?c @ [(sid, ?s)]"
      by (intro dict_set_new) (simp add: map_of_eq_None_iff)
    have "\<forall>x \<in> set (ek_sessions ?c). se_last (snd x) \<le> now" using used_now[OF c sk] K_Derive by simp
    then have st: "staggered 0 (ek_sessions ?c @ [(sid, ?s)])" using c by (simp add: ecdh_core_def)
    have "staggered 0 (ek_sessions m)" using core by (simp add: ecdh_core_def)
    then have eq: "?c = spec_cleanup now m" by (rule cleanup_spec)
    have "cleanup_sessions now (?c\<lparr>ek_sessions := ek_sessions ?c @ [(sid, ?s)]\<rparr>) =
        spec_cleanup now (?c\<lparr>ek_sessions := ek_sessions ?c @ [(sid, ?s)]\<rparr>)" by (rule cleanup_spec) (use st in simp)
    also have "\<dots> = spec_cleanup now (m\<lparr>ek_sessions := ek_sessions m @ [(sid, ?s)]\<rparr>)"
      unfolding eq by (rule spec_cleanup_idem) (use cfg in simp_all)
    finally show ?thesis using K_Derive Some set by (simp add: derive_session_def Let_def)
  qed (use K_Derive in \<open>simp add: derive_session_def\<close>)
next
  case (K_Get now sid)
  have "staggered 0 (ek_sessions m)" using core by (simp add: ecdh_core_def)
  then have "cleanup_sessions now m = spec_cleanup now m" by (rule cleanup_spec)
  then show ?thesis using K_Get
    by (simp add: get_session_key_def move_to_end_def dict_del_filter filter_dict_set Let_def split: option.split)
next
  case (K_Count now)
  have "staggered 0 (ek_sessions m)" using core by (simp add: ecdh_core_def)
  then show ?thesis using K_Count cleanup_spec by (simp add: active_session_count_def Let_def)
qed (simp add: remove_session_def dict_del_filter)

lemma run_spec:
  "ecdh_core ex kdf 0 past (ek_sessions m) \<Longrightarrow> skewed 0 (past @ ops) \<Longrightarrow> distinct (derives (past @ ops)) \<Longrightarrow>
     0 < ek_ttl m \<Longrightarrow> 0 < ek_max m \<Longrightarrow> ecdh_run ex kdf ops m = spec_run ex kdf ops m"
proof (induction ops arbitrary: past m)
  case (Cons op ops)
  have "derives (past @ op # ops) = derives (past @ [op]) @ derives ops" by (simp add: derives_def)
  then have h: "skewed 0 (past @ [op])" "distinct (derives (past @ [op]))"
    using Cons.prems(2,3) skewed_append[of 0 "past @ [op]" ops] by (simp_all del: derives_append)
  have "ecdh_run ex kdf ops (snd (ecdh_step ex kdf op m)) = spec_run ex kdf ops (snd (ecdh_step ex kdf op m))"
    by (rule Cons.IH[OF core_step[OF Cons.prems(1) h]]) (use Cons.prems in simp_all)
  then show ?case using step_spec[OF Cons.prems(1) h Cons.prems(4,5)] by (simp add: split_beta Let_def)
qed simp

text \<open>
  C28. Refinement of the session table. When clock readings are in order and identifiers fresh, every history of the
  manager gives the results and the table of the specification that scans all entries and cleans up once per
  operation: popping an expired prefix, twice around an insertion, loses nothing and forgets nothing.
\<close>

theorem sessions_refine_full_scan:
  assumes "ecdh_make ttl limit = Inr m0" and "skewed 0 ops" and "distinct (derives ops)"
  shows "ecdh_run ex kdf ops m0 = spec_run ex kdf ops m0"
proof -
  have "ek_sessions m0 = []" "0 < ek_ttl m0" "0 < ek_max m0" using assms(1) by (auto simp: ecdh_make_def split: if_splits)
  then show ?thesis using run_spec[of ex kdf "[]" m0 ops] assms(2,3) by simp
qed

theorem sessions_refine_full_scan_witness:
  "\<exists>m0. ecdh_make 10 1 = Inr m0 \<and>
     ecdh_run Some id [K_Derive 1 ''a'' [1], K_Derive 2 ''b'' [2], K_Get 3 ''a'', K_Get 4 ''b''] m0 =
     spec_run Some id [K_Derive 1 ''a'' [1], K_Derive 2 ''b'' [2], K_Get 3 ''a'', K_Get 4 ''b''] m0"
proof -
  obtain m0 where m0: "ecdh_make 10 1 = Inr m0" by (simp add: ecdh_make_def)
  show ?thesis
    using sessions_refine_full_scan[OF m0, of "[K_Derive 1 ''a'' [1], K_Derive 2 ''b'' [2], K_Get 3 ''a'', K_Get 4 ''b'']"] m0
    by (simp add: skewed_def derives_def)
qed

subsection \<open>Two readings out of order\<close>

lemma pop_expired_subset: "set (pop_expired cutoff d) \<subseteq> set d"
  by (induction d) auto

lemma pop_expired_keeps: "cutoff < se_last (snd kv) \<Longrightarrow> \<exists>pre'. pop_expired cutoff (pre @ kv # post) = pre' @ kv # post \<and> set pre' \<subseteq> set pre"
proof (induction pre)
  case (Cons x pre)
  then obtain pre' where "pop_expired cutoff (pre @ kv # post) = pre' @ kv # post" "set pre' \<subseteq> set pre" by blast
  then show ?case by (intro exI[of _ "if cutoff < se_last (snd x) then x # pre else pre'"]) auto
qed simp

lemma pop_expired_skips: "\<forall>x \<in> set d. se_last (snd x) \<le> cutoff \<Longrightarrow> pop_expired cutoff (d @ e) = pop_expired cutoff e"
  by (induction d) auto

lemma pop_expired_again: "cutoff < se_last (snd kv) \<Longrightarrow> pop_expired cutoff (pop_expired cutoff d @ [kv]) = pop_expired cutoff d @ [kv]"
  by (induction d) auto

lemma pop_over_small: "length d \<le> limit \<Longrightarrow> pop_over limit d = d"
  by (simp add: pop_over_drop)

lemma length_pop_expired: "length (pop_expired cutoff d) \<le> length d"
  using pop_expired_drop[of cutoff d] by auto

text \<open>The table after a derivation that finds room.\<close>

lemma derive_table:
  assumes "ex pub = Some shared" "sid \<notin> fst ` set (ek_sessions m)" "length (ek_sessions m) < ek_max m" "0 < ek_ttl m"
    and m': "m' = snd (ecdh_step ex kdf (K_Derive now sid pub) m)"
  shows "ek_sessions m' = pop_expired (now - ek_ttl m) (ek_sessions m) @ [(sid, \<lparr>se_key = kdf shared, se_last = now\<rparr>)]"
    "ek_ttl m' = ek_ttl m" "ek_max m' = ek_max m"
proof -
  let ?d = "pop_expired (now - ek_ttl m) (ek_sessions m)" and ?new = "(sid, \<lparr>se_key = kdf shared, se_last = now\<rparr>)"
  have len: "length ?d < ek_max m" using length_pop_expired assms(3) by (rule le_less_trans)
  have "sid \<notin> fst ` set ?d" using assms(2) pop_expired_subset by fastforce
  then have new: "dict_set sid (snd ?new) ?d = ?d @ [?new]" by (simp add: dict_set_new map_of_eq_None_iff)
  have again: "pop_expired (now - ek_ttl m) (?d @ [?new]) = ?d @ [?new]" by (rule pop_expired_again) (simp add: assms(4))
  show "ek_sessions m' = ?d @ [?new]"
    using new again len
    by (simp add: m' derive_session_def assms(1) cleanup_sessions_def pop_over_small Let_def)
  show "ek_ttl m' = ek_ttl m" "ek_max m' = ek_max m" unfolding m' by (rule step_config)+
qed

lemma key_served:
  "length (ek_sessions m) \<le> ek_max m \<Longrightarrow>
     fst (get_session_key now sid m) = map_option se_key (dict_get (pop_expired (now - ek_ttl m) (ek_sessions m)) sid)"
  using length_pop_expired[of "now - ek_ttl m" "ek_sessions m"]
  by (auto simp: get_session_key_def cleanup_sessions_def pop_over_small Let_def split: option.split)

lemma idle_refused_in_order:
  assumes room: "length (ek_sessions m) + 2 \<le> ek_max m" "0 < ek_ttl m"
    and new: "a \<notin> fst ` set (ek_sessions m)" "b \<notin> fst ` set (ek_sessions m)" "a \<noteq> b"
    and ex: "ex pa = Some sa" "ex pb = Some sb"
    and clock: "used_before 0 t0 (ek_sessions m)" and now: "t0 + ek_ttl m \<le> now"
  shows "fst (get_session_key now b (snd (ecdh_run ex kdf [K_Derive t0 b pb, K_Derive t1 a pa] m))) = None"
proof -
  let ?a = "(a, \<lparr>se_key = kdf sa, se_last = t1\<rparr>)" and ?b = "(b, \<lparr>se_key = kdf sb, se_last = t0\<rparr>)"
  let ?d0 = "pop_expired (t0 - ek_ttl m) (ek_sessions m)"
  define m1 where "m1 = snd (ecdh_step ex kdf (K_Derive t0 b pb) m)"
  define m2 where "m2 = snd (ecdh_step ex kdf (K_Derive t1 a pa) m1)"
  have d1: "ek_sessions m1 = ?d0 @ [?b]" "ek_ttl m1 = ek_ttl m" "ek_max m1 = ek_max m"
    using derive_table[OF ex(2) new(2) _ room(2) m1_def] room(1) by simp_all
  have sub: "set ?d0 \<subseteq> set (ek_sessions m)" by (rule pop_expired_subset)
  have fresh: "a \<notin> fst ` set (ek_sessions m1)" using d1(1) sub new by auto
  have short: "length (ek_sessions m1) < ek_max m1"
    using d1 room(1) length_pop_expired[of "t0 - ek_ttl m" "ek_sessions m"] by simp
  have d2: "ek_sessions m2 = pop_expired (t1 - ek_ttl m) (?d0 @ [?b]) @ [?a]" "ek_ttl m2 = ek_ttl m" "ek_max m2 = ek_max m"
    using derive_table[OF ex(1) fresh short _ m2_def] d1 room(2) by simp_all
  have "\<forall>x \<in> set (pop_expired (t1 - ek_ttl m) (?d0 @ [?b])). se_last (snd x) \<le> now - ek_ttl m"
    using clock now sub pop_expired_subset[of "t1 - ek_ttl m" "?d0 @ [?b]"] by (fastforce simp: used_before_def)
  then have "pop_expired (now - ek_ttl m) (ek_sessions m2) = pop_expired (now - ek_ttl m) [?a]"
    unfolding d2(1) by (rule pop_expired_skips)
  moreover have "length (ek_sessions m2) \<le> ek_max m2"
    using d2 short d1 length_pop_expired[of "t1 - ek_ttl m" "?d0 @ [?b]"] by simp
  ultimately have "fst (get_session_key now b m2) = None" using new(3) d2(2) by (simp add: key_served)
  then show ?thesis by (simp add: m1_def m2_def split_beta Let_def)
qed

lemma idle_served_out_of_order:
  assumes room: "length (ek_sessions m) + 2 \<le> ek_max m" "0 < ek_ttl m"
    and new: "a \<notin> fst ` set (ek_sessions m)" "b \<notin> fst ` set (ek_sessions m)" "a \<noteq> b"
    and ex: "ex pa = Some sa" "ex pb = Some sb"
    and clock: "t0 < t1" and later: "now < t1 + ek_ttl m"
  shows "fst (get_session_key now b (snd (ecdh_run ex kdf [K_Derive t1 a pa, K_Derive t0 b pb] m))) = Some (kdf sb)"
proof -
  let ?a = "(a, \<lparr>se_key = kdf sa, se_last = t1\<rparr>)" and ?b = "(b, \<lparr>se_key = kdf sb, se_last = t0\<rparr>)"
  let ?d0 = "pop_expired (t1 - ek_ttl m) (ek_sessions m)"
  define m1 where "m1 = snd (ecdh_step ex kdf (K_Derive t1 a pa) m)"
  define m2 where "m2 = snd (ecdh_step ex kdf (K_Derive t0 b pb) m1)"
  have d1: "ek_sessions m1 = ?d0 @ [?a]" "ek_ttl m1 = ek_ttl m" "ek_max m1 = ek_max m"
    using derive_table[OF ex(1) new(1) _ room(2) m1_def] room(1) by simp_all
  have sub: "set ?d0 \<subseteq> set (ek_sessions m)" by (rule pop_expired_subset)
  have fresh: "b \<notin> fst ` set (ek_sessions m1)" using d1(1) sub new by auto
  have short: "length (ek_sessions m1) < ek_max m1"
    using d1 room(1) length_pop_expired[of "t1 - ek_ttl m" "ek_sessions m"] by simp
  have d2: "ek_sessions m2 = pop_expired (t0 - ek_ttl m) (?d0 @ [?a]) @ [?b]" "ek_ttl m2 = ek_ttl m" "ek_max m2 = ek_max m"
    using derive_table[OF ex(2) fresh short _ m2_def] d1 room(2) by simp_all
  obtain p1 where p1: "pop_expired (t0 - ek_ttl m) (?d0 @ [?a]) = p1 @ [?a]" "set p1 \<subseteq> set ?d0"
    using pop_expired_keeps[of "t0 - ek_ttl m" ?a ?d0 "[]"] clock room(2) by auto
  obtain p2 where p2: "pop_expired (now - ek_ttl m) (p1 @ ?a # [?b]) = p2 @ ?a # [?b]" "set p2 \<subseteq> set p1"
    using pop_expired_keeps[of "now - ek_ttl m" ?a p1 "[?b]"] later by auto
  have "b \<notin> fst ` set p2" using p1(2) p2(2) sub new(2) by blast
  then have "dict_get p2 b = None" by (simp add: map_of_eq_None_iff)
  then have "dict_get (pop_expired (now - ek_ttl m) (ek_sessions m2)) b = Some (snd ?b)"
    unfolding d2(1) p1(1) append_assoc using p2(1) new(3) by (simp add: map_add_def)
  moreover have "length (ek_sessions m2) \<le> ek_max m2"
    using d2 short d1 length_pop_expired[of "t0 - ek_ttl m" "?d0 @ [?a]"] by simp
  ultimately have "fst (get_session_key now b m2) = Some (kdf sb)" using d2(2) by (simp add: key_served)
  then show ?thesis by (simp add: m1_def m2_def split_beta Let_def)
qed

text \<open>
  C29. The order of the clock readings matters. Take any manager with room for two sessions and no later use than \<open>t0\<close>, two key exchanges
  with readings \<open>t0 < t1\<close>, and a time \<open>now\<close> when the session of the earlier one has been idle for its whole time to live and
  that of the later one has not. If the exchanges take the lock in the order of their readings, the idle session is refused, as it should
  be. If they take it the other way round, the idle session is served, with its key, because the expiry scan stops at the
  fresher entry in front of it.
\<close>

theorem race_serves_idle_session:
  assumes room: "length (ek_sessions m) + 2 \<le> ek_max m" "0 < ek_ttl m"
    and new: "a \<notin> fst ` set (ek_sessions m)" "b \<notin> fst ` set (ek_sessions m)" "a \<noteq> b"
    and ex: "ex pa = Some sa" "ex pb = Some sb"
    and clock: "used_before 0 t0 (ek_sessions m)" "t0 < t1"
    and now: "t0 + ek_ttl m \<le> now" "now < t1 + ek_ttl m"
  shows "fst (get_session_key now b (snd (ecdh_run ex kdf [K_Derive t0 b pb, K_Derive t1 a pa] m))) = None \<and>
    fst (get_session_key now b (snd (ecdh_run ex kdf [K_Derive t1 a pa, K_Derive t0 b pb] m))) = Some (kdf sb)"
  using idle_refused_in_order[OF room new ex clock(1) now(1)] idle_served_out_of_order[OF room new ex clock(2) now(2)] by simp

theorem race_serves_idle_session_witness:
  "\<exists>m. ecdh_make 100 2 = Inr m \<and>
     fst (get_session_key 104 ''b'' (snd (ecdh_run Some id [K_Derive 4 ''b'' [2], K_Derive 5 ''a'' [1]] m))) = None \<and>
     fst (get_session_key 104 ''b'' (snd (ecdh_run Some id [K_Derive 5 ''a'' [1], K_Derive 4 ''b'' [2]] m))) = Some (id [2])"
proof -
  let ?m = "\<lparr>ek_ttl = 100, ek_max = 2, ek_sessions = []\<rparr> :: ecdh"
  have "ecdh_make 100 2 = Inr ?m" by (simp add: ecdh_make_def)
  moreover have "fst (get_session_key 104 ''b'' (snd (ecdh_run Some id [K_Derive 4 ''b'' [2], K_Derive 5 ''a'' [1]] ?m))) = None \<and>
     fst (get_session_key 104 ''b'' (snd (ecdh_run Some id [K_Derive 5 ''a'' [1], K_Derive 4 ''b'' [2]] ?m))) = Some (id [2])"
    by (rule race_serves_idle_session) (simp_all add: used_before_def)
  ultimately show ?thesis by blast
qed

end
