(* ===== verification/Artifact_Store.thy ===== *)
theory Artifact_Store
  imports Py_Text "HOL-Library.Multiset"
begin

section \<open>Bounded one-shot artifacts\<close>

text \<open>
  \<open>SmuggleArtifactStore\<close> of \<^verbatim>\<open>xferry/smuggle/store.py\<close> with the registry and the coordinator of
  \<^verbatim>\<open>xferry/handlers/context.py\<close>. The directory maps names to regular files (size and modification time) or to
  other entries; registered paths are named by their file name, since every one is a direct child of the directory.
  The tokens drawn, the clock and the names whose \<open>unlink\<close> fails are arguments. Every operation of the store runs
  inside one coordinator transaction, so a history is a sequence of operations; the directory is shared with the uploads, whose
  publishing runs in a transaction too, and with DELETE, which unlinks a file outside of any and only then forgets its path.
\<close>

datatype dir_entry = Regular nat time | Other_Entry

record artifact =
  ar_name :: string
  ar_size :: nat
  ar_mtime :: time

record temp_policy =
  tp_max_age :: "time option"
  tp_max_files :: "nat option"
  tp_max_bytes :: "nat option"

definition temp_policy_make :: "time option \<Rightarrow> int option \<Rightarrow> int option \<Rightarrow> py_error + temp_policy" where
  "temp_policy_make age files bytes_limit =
     (if (\<exists>a \<in> set_option age. a < 0) \<or> (\<exists>n \<in> set_option files. n < 0) \<or> (\<exists>n \<in> set_option bytes_limit. n < 0) then Inl ValueError
      else Inr \<lparr>tp_max_age = age, tp_max_files = map_option nat files, tp_max_bytes = map_option nat bytes_limit\<rparr>)"

record artifact_store =
  as_dir :: "(string, dir_entry) dict"
  as_paths :: "string set"
  as_claimed :: "string set"

datatype temp_error = Temp_Files_Quota | Temp_Bytes_Quota | Temp_Exists | Temp_IO | Temp_Value

subsection \<open>The registry and the coordinator\<close>

definition registry_add :: "string \<Rightarrow> artifact_store \<Rightarrow> artifact_store" where
  "registry_add p s = s\<lparr>as_paths := insert p (as_paths s)\<rparr>"

definition registry_discard :: "string \<Rightarrow> artifact_store \<Rightarrow> artifact_store" where
  "registry_discard p s = s\<lparr>as_paths := as_paths s - {p}, as_claimed := as_claimed s - {p}\<rparr>"

definition claim_path :: "string \<Rightarrow> artifact_store \<Rightarrow> bool \<times> artifact_store" where
  "claim_path p s =
     (if p \<notin> as_paths s \<or> p \<in> as_claimed s then (False, s)
      else (True, s\<lparr>as_claimed := insert p (as_claimed s)\<rparr>))"

definition release_path :: "string \<Rightarrow> artifact_store \<Rightarrow> artifact_store" where
  "release_path p s = registry_discard p (s\<lparr>as_claimed := as_claimed s - {p}\<rparr>)"

definition unlink :: "string \<Rightarrow> artifact_store \<Rightarrow> artifact_store" where
  "unlink p s = s\<lparr>as_dir := dict_del p (as_dir s)\<rparr>"

text \<open>\<open>remove_all_registered\<close>, at shutdown: regular files go, everything is forgotten.\<close>

fun remove_registered :: "string set \<Rightarrow> string list \<Rightarrow> artifact_store \<Rightarrow> nat \<times> artifact_store" where
  "remove_registered fails [] s = (0, s\<lparr>as_paths := {}, as_claimed := {}\<rparr>)"
| "remove_registered fails (p # ps) s =
     (case dict_get (as_dir s) p of
        Some (Regular _ _) \<Rightarrow>
          if p \<in> fails then remove_registered fails ps s
          else (let (n, s') = remove_registered fails ps (unlink p s) in (Suc n, s'))
      | _ \<Rightarrow> remove_registered fails ps s)"

subsection \<open>Names\<close>

definition output_formats :: "string list" where
  "output_formats = [''html'', ''htm'', ''shtml'', ''shtm'', ''xhtml'', ''xht'', ''xhtm'', ''xml'', ''svg'']"

definition temp_extensions :: "string set" where "temp_extensions = set (map (\<lambda>v. CHR ''.'' # v) output_formats)"

definition normalize_extension :: "string \<Rightarrow> temp_error + string" where
  "normalize_extension ext =
     (let value = py_lower (py_strip ext); value = (if take 1 value = ''.'' then value else CHR ''.'' # value)
      in if value \<notin> temp_extensions then Inl Temp_Value else Inr value)"

definition token_ok :: "string \<Rightarrow> bool" where "token_ok t \<longleftrightarrow> length t = 16 \<and> list_all is_lower_hex t"

text \<open>\<open>is_artifact_path\<close>: \<open>smuggle_<token>.<alphanumerics>\<close> with an allowed suffix.\<close>

definition is_artifact_name :: "string \<Rightarrow> bool" where
  "is_artifact_name n \<longleftrightarrow>
     take 8 n = ''smuggle_'' \<and> token_ok (take 16 (drop 8 n)) \<and> take 1 (drop 24 n) = ''.'' \<and>
     drop 25 n \<noteq> [] \<and> list_all is_alnum (drop 25 n) \<and> py_lower (drop 24 n) \<in> temp_extensions"

definition artifact_name :: "string \<Rightarrow> string \<Rightarrow> string" where
  "artifact_name token ext = ''smuggle_'' @ token @ ext"

subsection \<open>Cleaning up\<close>

definition artifacts_of :: "artifact_store \<Rightarrow> artifact list" where
  "artifacts_of s = concat (map (\<lambda>(n, e). case e of
       Regular bytes mtime \<Rightarrow> if is_artifact_name n then [\<lparr>ar_name = n, ar_size = bytes, ar_mtime = mtime\<rparr>] else []
     | Other_Entry \<Rightarrow> []) (as_dir s))"

definition remove_artifact :: "string set \<Rightarrow> string \<Rightarrow> artifact_store \<Rightarrow> bool \<times> artifact_store" where
  "remove_artifact fails n s =
     (if n \<in> as_claimed s then (False, s)
      else if \<not> is_artifact_name n then (False, registry_discard n s)
      else case dict_get (as_dir s) n of
        Some (Regular _ _) \<Rightarrow> if n \<in> fails then (False, s) else (True, registry_discard n (unlink n s))
      | _ \<Rightarrow> (False, registry_discard n s))"

definition total_size :: "artifact list \<Rightarrow> nat" where "total_size as = sum_list (map ar_size as)"

definition projection_exceeds :: "temp_policy \<Rightarrow> nat \<Rightarrow> nat \<Rightarrow> artifact list \<Rightarrow> bool" where
  "projection_exceeds pol pending_bytes pending_files as \<longleftrightarrow>
     (\<exists>m \<in> set_option (tp_max_files pol). m < length as + pending_files) \<or>
     (\<exists>m \<in> set_option (tp_max_bytes pol). m < total_size as + pending_bytes)"

fun remove_each :: "string set \<Rightarrow> artifact list \<Rightarrow> artifact_store \<Rightarrow> nat \<times> artifact_store" where
  "remove_each fails [] s = (0, s)"
| "remove_each fails (a # as) s =
     (if ar_name a \<in> as_claimed s then remove_each fails as s
      else (let (ok, s1) = remove_artifact fails (ar_name a) s; (n, s2) = remove_each fails as s1
            in ((if ok then Suc n else n), s2)))"

text \<open>The age pass keeps the artifacts that are young or claimed.\<close>

fun drop_stale :: "string set \<Rightarrow> time \<Rightarrow> time \<Rightarrow> artifact list \<Rightarrow> artifact_store \<Rightarrow> nat \<times> artifact list \<times> artifact_store" where
  "drop_stale fails now age [] s = (0, [], s)"
| "drop_stale fails now age (a # as) s =
     (if age < now - ar_mtime a \<and> ar_name a \<notin> as_claimed s then
        (let (ok, s1) = remove_artifact fails (ar_name a) s; (n, fresh, s2) = drop_stale fails now age as s1
         in ((if ok then Suc n else n), fresh, s2))
      else (let (n, fresh, s2) = drop_stale fails now age as s in (n, a # fresh, s2)))"

text \<open>The first unclaimed artifact and the list without it.\<close>

fun take_evictable :: "string set \<Rightarrow> artifact list \<Rightarrow> (artifact \<times> artifact list) option" where
  "take_evictable claimed [] = None"
| "take_evictable claimed (a # as) =
     (if ar_name a \<notin> claimed then Some (a, as)
      else map_option (\<lambda>(b, bs). (b, a # bs)) (take_evictable claimed as))"

lemma take_evictable_length: "take_evictable claimed as = Some (a, rest) \<Longrightarrow> length rest < length as"
  by (induction as arbitrary: a rest) (auto split: if_splits)

function evict :: "temp_policy \<Rightarrow> nat \<Rightarrow> nat \<Rightarrow> string set \<Rightarrow> artifact list \<Rightarrow> artifact_store \<Rightarrow> nat \<times> artifact list \<times> artifact_store" where
  "evict pol pb pf fails as s =
     (if as = [] \<or> \<not> projection_exceeds pol pb pf as then (0, as, s)
      else case take_evictable (as_claimed s) as of
        None \<Rightarrow> (0, as, s)
      | Some (oldest, rest) \<Rightarrow>
          (let (ok, s1) = remove_artifact fails (ar_name oldest) s; (n, kept, s2) = evict pol pb pf fails rest s1
           in ((if ok then Suc n else n), kept, s2)))"
  by pat_completeness auto
termination by (relation "measure (\<lambda>(pol, pb, pf, fails, as, s). length as)") (auto dest: take_evictable_length)

declare evict.simps [simp del]

definition cleanup_locked ::
  "temp_policy \<Rightarrow> time \<Rightarrow> string set \<Rightarrow> nat \<Rightarrow> nat \<Rightarrow> bool \<Rightarrow> artifact_store \<Rightarrow> nat \<times> artifact_store" where
  "cleanup_locked pol now fails pb pf remove_all s =
     (if remove_all then remove_each fails (artifacts_of s) s
      else
        (let (n, fresh, s1) = (case tp_max_age pol of
                None \<Rightarrow> (0, artifacts_of s, s)
              | Some age \<Rightarrow> drop_stale fails now age (artifacts_of s) s);
             (k, _, s2) = evict pol pb pf fails (sort_key ar_mtime fresh) s1
         in (n + k, s2)))"

subsection \<open>Writing\<close>

definition ensure_capacity :: "temp_policy \<Rightarrow> time \<Rightarrow> string set \<Rightarrow> nat \<Rightarrow> artifact_store \<Rightarrow> (temp_error option) \<times> artifact_store" where
  "ensure_capacity pol now fails pending s =
     (let s1 = snd (cleanup_locked pol now fails pending 1 False s); as = artifacts_of s1
      in if (\<exists>m \<in> set_option (tp_max_files pol). m < length as + 1) then (Some Temp_Files_Quota, s1)
         else if (\<exists>m \<in> set_option (tp_max_bytes pol). m < total_size as + pending) then (Some Temp_Bytes_Quota, s1)
         else (None, s1))"

text \<open>\<open>tokens k\<close>: what the token factory gives at attempt \<open>k\<close>, and the \<open>secrets\<close> token that replaces it when it
  breaks the grammar. \<open>io_ok\<close>: writing succeeds; a partial file is unlinked otherwise.\<close>

fun reserve_name :: "(nat \<Rightarrow> string \<times> string) \<Rightarrow> string \<Rightarrow> nat \<Rightarrow> nat \<Rightarrow> (string, dir_entry) dict \<Rightarrow> string option" where
  "reserve_name tokens ext 0 k dir = None"
| "reserve_name tokens ext (Suc n) k dir =
     (let token = (if token_ok (fst (tokens k)) then fst (tokens k) else snd (tokens k)); name = artifact_name token ext
      in if dict_get dir name = None then Some name else reserve_name tokens ext n (Suc k) dir)"

definition write_artifact ::
  "temp_policy \<Rightarrow> time \<Rightarrow> time \<Rightarrow> string set \<Rightarrow> (nat \<Rightarrow> string \<times> string) \<Rightarrow> bool \<Rightarrow> nat \<Rightarrow> string \<Rightarrow> artifact_store
     \<Rightarrow> (temp_error + string) \<times> artifact_store" where
  "write_artifact pol now mtime fails tokens io_ok len ext s =
     (case normalize_extension ext of
        Inl e \<Rightarrow> (Inl e, s)
      | Inr safe \<Rightarrow>
          (case ensure_capacity pol now fails len s of
             (Some e, s1) \<Rightarrow> (Inl e, s1)
           | (None, s1) \<Rightarrow>
               (case reserve_name tokens safe 64 0 (as_dir s1) of
                  None \<Rightarrow> (Inl Temp_Exists, s1)
                | Some name \<Rightarrow>
                    if io_ok then (Inr name, registry_add name (s1\<lparr>as_dir := dict_set name (Regular len mtime) (as_dir s1)\<rparr>))
                    else (Inl Temp_IO, s1))))"

definition artifact_usage :: "artifact_store \<Rightarrow> nat \<times> nat" where
  "artifact_usage s = (total_size (artifacts_of s), length (artifacts_of s))"

subsection \<open>What cleaning may do\<close>

text \<open>\<open>shrinks s s'\<close>: only unclaimed regular artifacts disappear, and are forgotten; claims and registered claims stay, and
  no path of a remaining artifact is forgotten.\<close>

definition disposable :: "artifact_store \<Rightarrow> string \<times> dir_entry \<Rightarrow> bool" where
  "disposable s x \<longleftrightarrow> fst x \<notin> as_claimed s \<and> is_artifact_name (fst x) \<and> (\<exists>b t. snd x = Regular b t)"

definition shrinks :: "artifact_store \<Rightarrow> artifact_store \<Rightarrow> bool" where
  "shrinks s s' \<longleftrightarrow> as_claimed s' = as_claimed s \<and> as_paths s' \<subseteq> as_paths s \<and> as_paths s \<inter> as_claimed s \<subseteq> as_paths s' \<and>
     (\<forall>n \<in> as_paths s - as_paths s'. is_artifact_name n \<longrightarrow> (\<forall>b t. (n, Regular b t) \<notin> set (as_dir s'))) \<and>
     (\<exists>P. as_dir s' = filter P (as_dir s) \<and> (\<forall>x \<in> set (as_dir s). \<not> P x \<longrightarrow> disposable s x \<and> fst x \<notin> as_paths s'))"

lemma shrinks_refl [simp]: "shrinks s s"
  by (auto simp: shrinks_def intro!: exI[of _ "\<lambda>_. True"])

lemma shrinks_trans [trans]:
  assumes "shrinks s s1" "shrinks s1 s2"
  shows "shrinks s s2"
proof -
  obtain P where P: "as_dir s1 = filter P (as_dir s)" "\<forall>x \<in> set (as_dir s). \<not> P x \<longrightarrow> disposable s x \<and> fst x \<notin> as_paths s1"
    using assms(1) by (auto simp: shrinks_def)
  obtain Q where Q: "as_dir s2 = filter Q (as_dir s1)" "\<forall>x \<in> set (as_dir s1). \<not> Q x \<longrightarrow> disposable s1 x \<and> fst x \<notin> as_paths s2"
    using assms(2) by (auto simp: shrinks_def)
  have sub: "as_paths s2 \<subseteq> as_paths s1" using assms(2) by (simp add: shrinks_def)
  have same: "disposable s1 x = disposable s x" for x using assms(1) by (simp add: disposable_def shrinks_def)
  have "as_dir s2 = filter (\<lambda>x. P x \<and> Q x) (as_dir s)" using P(1) Q(1) by (simp add: conj_commute)
  moreover have "\<forall>x \<in> set (as_dir s). \<not> (P x \<and> Q x) \<longrightarrow> disposable s x \<and> fst x \<notin> as_paths s2" using P Q same sub by auto
  moreover have "\<forall>n \<in> as_paths s - as_paths s2. is_artifact_name n \<longrightarrow> (\<forall>b t. (n, Regular b t) \<notin> set (as_dir s2))"
  proof (intro ballI impI allI)
    fix n b t assume n: "n \<in> as_paths s - as_paths s2" "is_artifact_name n"
    have "(n, Regular b t) \<notin> set (as_dir s1) \<or> (n, Regular b t) \<notin> set (as_dir s2)"
      using n assms unfolding shrinks_def by (cases "n \<in> as_paths s1") blast+
    then show "(n, Regular b t) \<notin> set (as_dir s2)" using Q(1) by auto
  qed
  moreover have "as_claimed s2 = as_claimed s \<and> as_paths s2 \<subseteq> as_paths s \<and> as_paths s \<inter> as_claimed s \<subseteq> as_paths s2"
    using assms by (auto simp: shrinks_def)
  ultimately show ?thesis unfolding shrinks_def by blast
qed

lemma remove_artifact_facts:
  assumes "dict_ok (as_dir s)" "remove_artifact fails n s = (ok, s')"
  shows "shrinks s s' \<and> as_dir s' = (if ok then filter (\<lambda>x. fst x \<noteq> n) (as_dir s) else as_dir s) \<and>
    (ok \<longrightarrow> n \<notin> as_claimed s \<and> is_artifact_name n \<and> (\<exists>b t. dict_get (as_dir s) n = Some (Regular b t)))"
proof (cases "n \<in> as_claimed s \<or> \<not> is_artifact_name n")
  case True
  then show ?thesis using assms(2)
    by (auto simp: remove_artifact_def registry_discard_def shrinks_def intro!: exI[of _ "\<lambda>_. True"] split: if_splits)
next
  case False
  have same: "as_claimed s - {n} = as_claimed s" using False by auto
  show ?thesis
  proof (cases "(\<exists>b t. dict_get (as_dir s) n = Some (Regular b t)) \<and> n \<notin> fails")
    case True
    then obtain b t where e: "dict_get (as_dir s) n = Some (Regular b t)" "n \<notin> fails" by blast
    have "disposable s x" if "x \<in> set (as_dir s)" "fst x = n" for x
      using dict_mem_get[OF assms(1), of n "snd x"] that e(1) False by (cases x) (auto simp: disposable_def)
    then show ?thesis using assms(2) e False same
      by (auto simp: remove_artifact_def registry_discard_def unlink_def shrinks_def dict_del_filter
          intro!: exI[of _ "\<lambda>x. fst x \<noteq> n"])
  next
    case no: False
    then have "\<not> ok \<and> as_dir s' = as_dir s \<and> as_claimed s' = as_claimed s \<and>
        (as_paths s' = as_paths s \<or> as_paths s' = as_paths s - {n} \<and> (\<forall>b t. dict_get (as_dir s) n \<noteq> Some (Regular b t)))"
      using assms(2) False same
      by (auto simp: remove_artifact_def registry_discard_def split: option.splits dir_entry.splits if_splits)
    then show ?thesis using False dict_mem_get[OF assms(1), of n] by (auto simp: shrinks_def intro!: exI[of _ "\<lambda>_. True"])
  qed
qed

lemma shrinks_dict_ok: "shrinks s s' \<Longrightarrow> dict_ok (as_dir s) \<Longrightarrow> dict_ok (as_dir s')"
  by (auto simp: shrinks_def)

lemma remove_each_shrinks: "dict_ok (as_dir s) \<Longrightarrow> shrinks s (snd (remove_each fails as s))"
proof (induction as arbitrary: s)
  case (Cons a as)
  obtain ok s1 where r: "remove_artifact fails (ar_name a) s = (ok, s1)" by fastforce
  have "shrinks s s1" using remove_artifact_facts[OF Cons.prems r] by simp
  then show ?case using Cons r shrinks_trans shrinks_dict_ok by (auto simp: Let_def split_beta)
qed simp

lemma drop_stale_shrinks: "dict_ok (as_dir s) \<Longrightarrow> shrinks s (snd (snd (drop_stale fails now age as s)))"
proof (induction as arbitrary: s)
  case (Cons a as)
  obtain ok s1 where r: "remove_artifact fails (ar_name a) s = (ok, s1)" by fastforce
  have "shrinks s s1" using remove_artifact_facts[OF Cons.prems r] by simp
  then show ?case using Cons r shrinks_trans shrinks_dict_ok by (auto simp: Let_def split_beta)
qed simp

lemma evict_shrinks: "dict_ok (as_dir s) \<Longrightarrow> shrinks s (snd (snd (evict pol pb pf fails as s)))"
proof (induction pol pb pf fails as s rule: evict.induct)
  case (1 pol pb pf fails as s)
  show ?case
  proof (cases "as = [] \<or> \<not> projection_exceeds pol pb pf as \<or> take_evictable (as_claimed s) as = None")
    case True
    then show ?thesis by (subst evict.simps) auto
  next
    case False
    then obtain a rest where t: "take_evictable (as_claimed s) as = Some (a, rest)" by auto
    obtain ok s1 where r: "remove_artifact fails (ar_name a) s = (ok, s1)" by fastforce
    have s1: "shrinks s s1" using remove_artifact_facts[OF "1.prems" r] by simp
    have "shrinks s1 (snd (snd (evict pol pb pf fails rest s1)))"
      by (rule "1.IH"[OF _ t refl r[symmetric] refl]) (use False shrinks_dict_ok[OF s1 "1.prems"] in auto)
    then show ?thesis using shrinks_trans[OF s1] False t r by (subst evict.simps) (auto simp: Let_def split_beta)
  qed
qed

lemma cleanup_shrinks: "dict_ok (as_dir s) \<Longrightarrow> shrinks s (snd (cleanup_locked pol now fails pb pf remove_all s))"
proof -
  assume d: "dict_ok (as_dir s)"
  show ?thesis
  proof (cases remove_all)
    case True
    then show ?thesis using remove_each_shrinks[OF d] by (simp add: cleanup_locked_def)
  next
    case False
    define x where "x = (case tp_max_age pol of None \<Rightarrow> (0, artifacts_of s, s)
        | Some age \<Rightarrow> drop_stale fails now age (artifacts_of s) s)"
    have 1: "shrinks s (snd (snd x))" using drop_stale_shrinks[OF d] by (auto simp: x_def split: option.split)
    have "shrinks (snd (snd x)) (snd (snd (evict pol pb pf fails (sort_key ar_mtime (fst (snd x))) (snd (snd x)))))"
      by (rule evict_shrinks[OF shrinks_dict_ok[OF 1 d]])
    then show ?thesis using False shrinks_trans[OF 1] by (simp add: cleanup_locked_def x_def[symmetric] Let_def split_beta)
  qed
qed

subsection \<open>Writing stays within the quota\<close>

lemma generated_name: "token_ok t \<Longrightarrow> e \<in> temp_extensions \<Longrightarrow> is_artifact_name (artifact_name t e)"
  by (auto simp: is_artifact_name_def artifact_name_def token_ok_def temp_extensions_def output_formats_def is_alnum_def
      is_digit_def ascii_upper_def py_lower_def lower_char_def)

lemma reserve_name_spec:
  "reserve_name tokens ext n k dir = Some name \<Longrightarrow>
     dict_get dir name = None \<and> (\<exists>j t. (token_ok t \<or> t = snd (tokens j)) \<and> name = artifact_name t ext)"
proof (induction tokens ext n k dir rule: reserve_name.induct)
  case (2 tokens ext n k dir)
  let ?t = "if token_ok (fst (tokens k)) then fst (tokens k) else snd (tokens k)"
  show ?case
  proof (cases "dict_get dir (artifact_name ?t ext) = None")
    case True
    then have "name = artifact_name ?t ext" using "2.prems" by (simp add: Let_def)
    moreover have "token_ok ?t \<or> ?t = snd (tokens k)" by simp
    ultimately show ?thesis using True by blast
  next
    case False
    then have "reserve_name tokens ext n (Suc k) dir = Some name" using "2.prems" by (simp add: Let_def split: if_splits)
    from "2.IH"[OF refl refl False this] show ?thesis .
  qed
qed simp

lemma normalize_extension_ok: "normalize_extension ext = Inr e \<Longrightarrow> e \<in> temp_extensions"
  by (auto simp: normalize_extension_def Let_def split: if_splits)

lemma artifacts_of_new:
  "dict_get (as_dir s) n = None \<Longrightarrow> is_artifact_name n \<Longrightarrow>
     artifacts_of (s\<lparr>as_dir := dict_set n (Regular b t) (as_dir s)\<rparr>) = artifacts_of s @ [\<lparr>ar_name = n, ar_size = b, ar_mtime = t\<rparr>]"
  by (simp add: artifacts_of_def dict_set_new)

text \<open>The parts of a successful write.\<close>

lemma write_artifact_parts:
  assumes d: "dict_ok (as_dir s)" and tok: "\<forall>k. token_ok (snd (tokens k))"
    and w: "write_artifact pol now mtime fails tokens io_ok len ext s = (Inr name, s')"
  obtains s1 where "shrinks s s1" "dict_get (as_dir s1) name = None" "is_artifact_name name"
    "s' = registry_add name (s1\<lparr>as_dir := dict_set name (Regular len mtime) (as_dir s1)\<rparr>)"
    "\<not> projection_exceeds pol len 1 (artifacts_of s1)"
proof -
  obtain safe where safe: "normalize_extension ext = Inr safe" using w by (auto simp: write_artifact_def split: sum.splits)
  obtain r s1 where cap: "ensure_capacity pol now fails len s = (r, s1)" by fastforce
  have r: "r = None" "reserve_name tokens safe 64 0 (as_dir s1) = Some name"
    "s' = registry_add name (s1\<lparr>as_dir := dict_set name (Regular len mtime) (as_dir s1)\<rparr>)"
    using w safe cap by (auto simp: write_artifact_def split: option.splits if_splits)
  have s1: "s1 = snd (cleanup_locked pol now fails len 1 False s)" "\<not> projection_exceeds pol len 1 (artifacts_of s1)"
    using cap r(1) by (auto simp: ensure_capacity_def Let_def projection_exceeds_def split: if_splits)
  obtain j t where t: "token_ok t" "name = artifact_name t safe" "dict_get (as_dir s1) name = None"
    using reserve_name_spec[OF r(2)] tok by auto
  show thesis
    by (rule that[of s1]) (use s1 r(3) t generated_name[OF t(1) normalize_extension_ok[OF safe]] cleanup_shrinks[OF d] in auto)
qed

lemma projection_new:
  "\<not> projection_exceeds pol b 1 as \<Longrightarrow> \<not> projection_exceeds pol 0 0 (as @ [\<lparr>ar_name = n, ar_size = b, ar_mtime = t\<rparr>])"
  by (auto simp: projection_exceeds_def total_size_def)

text \<open>
  C30. A write respects the quota and adds exactly one file. When \<open>write\<close> succeeds, the directory is what was there, less some
  regular generated artifacts that no stream had claimed, with one new entry behind it: a file of the content's size under a valid
  generated name that none of the remaining entries has. The artifacts, the new one included, are within both limits, even if
  unlinking some failed. The claims are as before; the registered paths gain the new name and nothing else, and lose
  every removed file and only paths under which no generated file is left.
\<close>

theorem artifact_write_within_quota:
  assumes "dict_ok (as_dir s)" and "\<forall>k. token_ok (snd (tokens k))"
    and "write_artifact pol now mtime fails tokens io_ok len ext s = (Inr name, s')"
  shows "\<not> projection_exceeds pol 0 0 (artifacts_of s') \<and> is_artifact_name name \<and> as_claimed s' = as_claimed s \<and>
    (\<exists>kept. as_dir s' = filter (\<lambda>x. x \<in> kept) (as_dir s) @ [(name, Regular len mtime)] \<and>
       kept \<subseteq> set (as_dir s) \<and> name \<notin> fst ` kept \<and> (\<forall>x \<in> set (as_dir s) - kept. disposable s x) \<and>
       name \<in> as_paths s' \<and> as_paths s' \<subseteq> insert name (as_paths s) \<and> (\<forall>x \<in> set (as_dir s) - kept. fst x \<in> as_paths s' \<longrightarrow> fst x = name) \<and>
       (\<forall>n \<in> as_paths s - as_paths s'. is_artifact_name n \<longrightarrow> (\<forall>b t. (n, Regular b t) \<notin> kept)))"
proof -
  obtain s1 where s1: "shrinks s s1" "dict_get (as_dir s1) name = None" "is_artifact_name name"
    "s' = registry_add name (s1\<lparr>as_dir := dict_set name (Regular len mtime) (as_dir s1)\<rparr>)"
    "\<not> projection_exceeds pol len 1 (artifacts_of s1)" by (rule write_artifact_parts[OF assms])
  let ?kept = "set (as_dir s1)"
  obtain P where P: "as_dir s1 = filter P (as_dir s)" "\<forall>x \<in> set (as_dir s). \<not> P x \<longrightarrow> disposable s x \<and> fst x \<notin> as_paths s1"
    using s1(1) by (auto simp: shrinks_def)
  have "artifacts_of s' = artifacts_of s1 @ [\<lparr>ar_name = name, ar_size = len, ar_mtime = mtime\<rparr>]"
    using artifacts_of_new[OF s1(2,3)] s1(4) by (simp add: registry_add_def artifacts_of_def)
  then have "\<not> projection_exceeds pol 0 0 (artifacts_of s')" using projection_new[OF s1(5)] by simp
  moreover have "as_dir s' = filter (\<lambda>x. x \<in> ?kept) (as_dir s) @ [(name, Regular len mtime)]"
    using P(1) s1(2,4) dict_set_new[OF s1(2)] by (auto simp: registry_add_def intro: filter_cong)
  moreover have "name \<notin> fst ` ?kept" using s1(2) by (simp add: map_of_eq_None_iff)
  moreover have "as_paths s' = insert name (as_paths s1)" "as_claimed s' = as_claimed s" "as_paths s1 \<subseteq> as_paths s"
    "\<forall>n \<in> as_paths s - as_paths s1. is_artifact_name n \<longrightarrow> (\<forall>b t. (n, Regular b t) \<notin> ?kept)"
    using s1(1,4) by (auto simp: registry_add_def shrinks_def)
  ultimately show ?thesis using s1(3) P by (intro conjI exI[of _ ?kept]) auto
qed

subsection \<open>Histories\<close>

datatype temp_op =
    T_Write temp_policy time time "string set" "nat \<Rightarrow> string \<times> string" bool nat string
  | T_Cleanup temp_policy time "string set" bool
  | T_Claim string
  | T_Release string
  | T_Discard string
  | T_Unlink string
  | T_Publish string nat time
  | T_Shutdown "string set" "string list"

datatype temp_result = T_Wrote "temp_error + string" | T_Count nat | T_Claimed bool | T_Done

text \<open>\<open>T_Unlink\<close>: DELETE, or the clearing of the directory, unlinks a file without asking for claims; a \<open>T_Discard\<close> follows, with anything in
  between. \<open>T_Publish\<close>: an ordinary upload takes a free name, and an old registration of it ends. The order of the registered paths at
  shutdown is the set iteration order \<open>ps\<close>.\<close>

fun temp_step :: "temp_op \<Rightarrow> artifact_store \<Rightarrow> temp_result \<times> artifact_store" where
  "temp_step (T_Write pol now mtime fails tokens io_ok len ext) s =
     (let (r, s') = write_artifact pol now mtime fails tokens io_ok len ext s in (T_Wrote r, s'))"
| "temp_step (T_Cleanup pol now fails remove_all) s =
     (let (n, s') = cleanup_locked pol now fails 0 0 remove_all s in (T_Count n, s'))"
| "temp_step (T_Claim p) s = (let (ok, s') = claim_path p s in (T_Claimed ok, s'))"
| "temp_step (T_Release p) s = (T_Done, release_path p s)"
| "temp_step (T_Discard p) s = (T_Done, registry_discard p s)"
| "temp_step (T_Unlink p) s = (T_Done, unlink p s)"
| "temp_step (T_Publish p len mtime) s =
     (T_Done, if dict_get (as_dir s) p = None then registry_discard p (s\<lparr>as_dir := dict_set p (Regular len mtime) (as_dir s)\<rparr>) else s)"
| "temp_step (T_Shutdown fails ps) s =
     (if set ps = as_paths s \<and> distinct ps then (let (n, s') = remove_registered fails ps s in (T_Count n, s')) else (T_Done, s))"

text \<open>How often \<open>p\<close> was written and claimed in a history from \<open>s\<close>, and the state it leaves.\<close>

fun temp_run :: "temp_op list \<Rightarrow> artifact_store \<Rightarrow> (temp_op \<times> temp_result) list \<times> artifact_store" where
  "temp_run [] s = ([], s)"
| "temp_run (op # ops) s =
     (let (r, s1) = temp_step op s; (rs, s2) = temp_run ops s1 in ((op, r) # rs, s2))"

definition writes_of :: "string \<Rightarrow> (temp_op \<times> temp_result) list \<Rightarrow> nat" where
  "writes_of p hist = length (filter (\<lambda>(op, r). r = T_Wrote (Inr p)) hist)"

definition claims_of :: "string \<Rightarrow> (temp_op \<times> temp_result) list \<Rightarrow> nat" where
  "claims_of p hist = length (filter (\<lambda>(op, r). op = T_Claim p \<and> r = T_Claimed True) hist)"

definition claimable :: "string \<Rightarrow> artifact_store \<Rightarrow> nat" where
  "claimable p s = (if p \<in> as_paths s \<and> p \<notin> as_claimed s then 1 else 0)"

definition temp_ok :: "artifact_store \<Rightarrow> bool" where
  "temp_ok s \<longleftrightarrow> dict_ok (as_dir s) \<and> as_claimed s \<subseteq> as_paths s"

fun draws_ok :: "temp_op \<Rightarrow> bool" where
  "draws_ok (T_Write pol now mtime fails tokens io_ok len ext) = (\<forall>k. token_ok (snd (tokens k)))"
| "draws_ok _ = True"

lemma shrinks_claimable: "shrinks s s' \<Longrightarrow> claimable p s' \<le> claimable p s"
  by (auto simp: shrinks_def claimable_def)

lemma shrinks_temp_ok: "shrinks s s' \<Longrightarrow> temp_ok s \<Longrightarrow> temp_ok s'"
  using shrinks_dict_ok by (auto simp: temp_ok_def shrinks_def)

lemma ensure_capacity_shrinks: "dict_ok (as_dir s) \<Longrightarrow> shrinks s (snd (ensure_capacity pol now fails len s))"
  using cleanup_shrinks[of s pol now fails len 1 False] by (auto simp: ensure_capacity_def Let_def)

lemma write_failed_shrinks:
  assumes "dict_ok (as_dir s)" "write_artifact pol now mtime fails tokens io_ok len ext s = (Inl e, s')"
  shows "shrinks s s'"
proof -
  obtain r s1 where cap: "ensure_capacity pol now fails len s = (r, s1)" by fastforce
  then have "shrinks s s1" using ensure_capacity_shrinks[OF assms(1), of pol now fails len] by simp
  moreover have "s' = s \<or> s' = s1" using assms(2) cap by (auto simp: write_artifact_def split: sum.splits option.splits if_splits)
  ultimately show ?thesis by auto
qed

lemma remove_registered_facts:
  "dict_ok (as_dir s) \<Longrightarrow> as_paths (snd (remove_registered fails ps s)) = {} \<and> as_claimed (snd (remove_registered fails ps s)) = {} \<and>
     dict_ok (as_dir (snd (remove_registered fails ps s)))"
  by (induction fails ps s rule: remove_registered.induct)
    (auto simp: unlink_def Let_def split_beta split: option.splits dir_entry.splits)

lemma step_claimable:
  assumes ok: "temp_ok s" and draws: "draws_ok op" and step: "temp_step op s = (r, s')"
  shows "temp_ok s' \<and> claims_of p [(op, r)] + claimable p s' \<le> writes_of p [(op, r)] + claimable p s"
proof -
  have d: "dict_ok (as_dir s)" using ok by (simp add: temp_ok_def)
  show ?thesis
  proof (cases op)
    case (T_Write pol now mtime fails tokens io_ok len ext)
    obtain res where w: "write_artifact pol now mtime fails tokens io_ok len ext s = (res, s')" "r = T_Wrote res"
      using step T_Write by (auto split: prod.splits)
    show ?thesis
    proof (cases res)
      case (Inl e)
      have "shrinks s s'" using write_failed_shrinks[OF d] w(1) Inl by blast
      then show ?thesis using shrinks_temp_ok[OF _ ok] shrinks_claimable[of s s' p] w Inl T_Write
        by (simp add: claims_of_def writes_of_def)
    next
      case (Inr name)
      have tok: "\<forall>k. token_ok (snd (tokens k))" using draws T_Write by simp
      obtain s1 where s1: "shrinks s s1" "dict_get (as_dir s1) name = None" "is_artifact_name name"
        "s' = registry_add name (s1\<lparr>as_dir := dict_set name (Regular len mtime) (as_dir s1)\<rparr>)"
        "\<not> projection_exceeds pol len 1 (artifacts_of s1)"
        by (rule write_artifact_parts[OF d tok]) (use w Inr in blast)
      then show ?thesis using shrinks_temp_ok[OF s1(1) ok] shrinks_claimable[OF s1(1), of p] w Inr T_Write
        by (auto simp: claims_of_def writes_of_def temp_ok_def registry_add_def claimable_def split: if_splits)
    qed
  next
    case (T_Cleanup pol now fails remove_all)
    then have "shrinks s s'" "\<exists>n. r = T_Count n"
      using step cleanup_shrinks[OF d, of pol now fails 0 0 remove_all] by (auto simp: Let_def split_beta)
    then show ?thesis using shrinks_temp_ok[OF _ ok] shrinks_claimable[of s s' p] T_Cleanup
      by (auto simp: claims_of_def writes_of_def)
  next
    case (T_Shutdown fails ps)
    then show ?thesis using step remove_registered_facts[OF d, of fails ps] ok
      by (auto simp: Let_def split_beta temp_ok_def claims_of_def writes_of_def claimable_def split: if_splits)
  qed (use step ok in \<open>auto simp: claim_path_def release_path_def registry_discard_def unlink_def temp_ok_def claims_of_def writes_of_def
        claimable_def split: if_splits\<close>)
qed

lemma run_claimable:
  "temp_ok s \<Longrightarrow> \<forall>op \<in> set ops. draws_ok op \<Longrightarrow> temp_run ops s = (hist, s') \<Longrightarrow>
     temp_ok s' \<and> claims_of p hist + claimable p s' \<le> writes_of p hist + claimable p s"
proof (induction ops arbitrary: s hist)
  case (Cons op ops)
  obtain r s1 where step: "temp_step op s = (r, s1)" by fastforce
  obtain rs where rs: "temp_run ops s1 = (rs, s')" "hist = (op, r) # rs" using Cons.prems(3) step by (auto split: prod.splits)
  note 1 = step_claimable[OF Cons.prems(1) _ step, of p]
  have "temp_ok s1" using 1 Cons.prems(2) by simp
  from Cons.IH[OF this _ rs(1)] Cons.prems(2)
  have "temp_ok s' \<and> claims_of p rs + claimable p s' \<le> writes_of p rs + claimable p s1" by simp
  moreover have "claims_of p hist = claims_of p [(op, r)] + claims_of p rs" "writes_of p hist = writes_of p [(op, r)] + writes_of p rs"
    by (simp_all add: rs(2) claims_of_def writes_of_def)
  ultimately show ?case using 1 Cons.prems(2) by simp
qed (simp add: claims_of_def writes_of_def)

text \<open>What may end the time that a claimed file is on disk.\<close>

fun ends_claim :: "string \<Rightarrow> temp_op \<Rightarrow> bool" where
  "ends_claim p (T_Release q) = (q = p)" | "ends_claim p (T_Discard q) = (q = p)"
| "ends_claim p (T_Unlink q) = (q = p)" | "ends_claim p (T_Shutdown _ _) = True"
| "ends_claim p _ = False"

definition served :: "string \<Rightarrow> dir_entry \<Rightarrow> artifact_store \<Rightarrow> bool" where
  "served p e s \<longleftrightarrow> temp_ok s \<and> p \<in> as_claimed s \<and> dict_get (as_dir s) p = Some e"

lemma shrinks_served: "shrinks s s' \<Longrightarrow> served p e s \<Longrightarrow> served p e s'"
proof -
  assume sh: "shrinks s s'" and sv: "served p e s"
  then have d: "dict_ok (as_dir s)" by (simp add: served_def temp_ok_def)
  obtain P where P: "as_dir s' = filter P (as_dir s)" "\<forall>x \<in> set (as_dir s). \<not> P x \<longrightarrow> disposable s x \<and> fst x \<notin> as_paths s'"
    using sh by (auto simp: shrinks_def)
  have "P (p, e)" using P(2) sv dict_get_SomeD[of "as_dir s" p e] by (auto simp: served_def disposable_def)
  then show ?thesis using sv sh P(1) shrinks_temp_ok[OF sh] dict_get_filter[OF d, of P p] by (auto simp: served_def shrinks_def)
qed

lemma served_step:
  assumes sv: "served p e s" and draws: "draws_ok op" and op: "\<not> ends_claim p op" and step: "temp_step op s = (r, s')"
  shows "served p e s'"
proof -
  have ok: "temp_ok s" and d: "dict_ok (as_dir s)" using sv by (auto simp: served_def temp_ok_def)
  show ?thesis
  proof (cases op)
    case (T_Write pol now mtime fails tokens io_ok len ext)
    obtain res where w: "write_artifact pol now mtime fails tokens io_ok len ext s = (res, s')"
      using step T_Write by (auto split: prod.splits)
    show ?thesis
    proof (cases res)
      case (Inl e)
      then show ?thesis using write_failed_shrinks[OF d] w shrinks_served[OF _ sv] by blast
    next
      case (Inr name)
      have tok: "\<forall>k. token_ok (snd (tokens k))" using draws T_Write by simp
      obtain s1 where s1: "shrinks s s1" "dict_get (as_dir s1) name = None" "is_artifact_name name"
        "s' = registry_add name (s1\<lparr>as_dir := dict_set name (Regular len mtime) (as_dir s1)\<rparr>)"
        "\<not> projection_exceeds pol len 1 (artifacts_of s1)"
        by (rule write_artifact_parts[OF d tok]) (use w Inr in blast)
      have "served p e s1" by (rule shrinks_served[OF s1(1) sv])
      then show ?thesis using s1(2,4) by (auto simp: served_def temp_ok_def registry_add_def)
    qed
  next
    case (T_Cleanup pol now fails remove_all)
    then have "shrinks s s'" using step cleanup_shrinks[OF d, of pol now fails 0 0 remove_all] by (auto simp: Let_def split_beta)
    then show ?thesis by (rule shrinks_served[OF _ sv])
  qed (use step sv op in \<open>auto simp: served_def temp_ok_def claim_path_def release_path_def registry_discard_def unlink_def split: if_splits\<close>)
qed

lemma served_run:
  "served p e s \<Longrightarrow> \<forall>op \<in> set ops. draws_ok op \<and> \<not> ends_claim p op \<Longrightarrow> temp_run ops s = (hist, s') \<Longrightarrow> served p e s'"
proof (induction ops arbitrary: s hist)
  case (Cons op ops)
  obtain r s1 where step: "temp_step op s = (r, s1)" by fastforce
  obtain rs where rs: "temp_run ops s1 = (rs, s')" using Cons.prems(3) step by (auto split: prod.splits)
  show ?case by (rule Cons.IH[OF served_step[OF Cons.prems(1) _ _ step] _ rs]) (use Cons.prems(2) in auto)
qed simp

text \<open>
  C31. An artifact is served at most once, and the store never takes it away from its stream. Over any history from a well-formed
  store, a path is claimed successfully at most as often as it was written, plus once if it was registered and unclaimed at the
  start, so one artifact never feeds two streams. A claimed file is still on disk, unchanged and claimed, after any further writes,
  cleanups (of everything too), claims, uploads, and releases, removals and deletions of other paths. What this leaves out is real: DELETE and the
  clearing of the directory do not look at claims and may unlink it (\<open>T_Unlink\<close>), and so may a shutdown; its own release or
  discarding ends the claim.
\<close>

theorem artifact_served_once:
  assumes "temp_ok s" and "\<forall>op \<in> set ops. draws_ok op" and "temp_run ops s = (hist, s')"
  shows "claims_of p hist \<le> writes_of p hist + claimable p s \<and>
    (p \<in> as_claimed s \<and> dict_get (as_dir s) p = Some e \<and> (\<forall>op \<in> set ops. \<not> ends_claim p op) \<longrightarrow>
       dict_get (as_dir s') p = Some e \<and> p \<in> as_claimed s')"
proof -
  have "claims_of p hist \<le> writes_of p hist + claimable p s" using run_claimable[OF assms, of p] by simp
  moreover have "served p e s'" if "p \<in> as_claimed s" "dict_get (as_dir s) p = Some e" "\<forall>op \<in> set ops. \<not> ends_claim p op"
    by (rule served_run[OF _ _ assms(3)]) (use that assms(1,2) in \<open>auto simp: served_def\<close>)
  ultimately show ?thesis by (simp add: served_def)
qed

subsection \<open>The eviction policy\<close>

lemma in_artifacts:
  "dict_ok (as_dir s) \<Longrightarrow> a \<in> set (artifacts_of s) \<longleftrightarrow>
     dict_get (as_dir s) (ar_name a) = Some (Regular (ar_size a) (ar_mtime a)) \<and> is_artifact_name (ar_name a)"
proof
  assume d: "dict_ok (as_dir s)" and "a \<in> set (artifacts_of s)"
  then show "dict_get (as_dir s) (ar_name a) = Some (Regular (ar_size a) (ar_mtime a)) \<and> is_artifact_name (ar_name a)"
    by (auto simp: artifacts_of_def dict_mem_get split: dir_entry.splits if_splits)
next
  assume "dict_get (as_dir s) (ar_name a) = Some (Regular (ar_size a) (ar_mtime a)) \<and> is_artifact_name (ar_name a)"
  then show "a \<in> set (artifacts_of s)"
    by (auto simp: artifacts_of_def intro!: bexI[of _ "(ar_name a, Regular (ar_size a) (ar_mtime a))"] dest: dict_get_SomeD)
qed

lemma artifacts_same_name:
  "dict_ok (as_dir s) \<Longrightarrow> a \<in> set (artifacts_of s) \<Longrightarrow> b \<in> set (artifacts_of s) \<Longrightarrow> ar_name a = ar_name b \<Longrightarrow> a = b"
  unfolding in_artifacts by (rule artifact.equality) simp_all

lemma distinct_artifacts:
  assumes "dict_ok (as_dir s)"
  shows "distinct (artifacts_of s)"
proof -
  have "map ar_name (concat (map (\<lambda>(n, e). case e of
       Regular bytes mtime \<Rightarrow> if is_artifact_name n then [\<lparr>ar_name = n, ar_size = bytes, ar_mtime = mtime\<rparr>] else []
     | Other_Entry \<Rightarrow> []) d)) = map fst (filter (\<lambda>x. is_artifact_name (fst x) \<and> snd x \<noteq> Other_Entry) d)" for d
    by (induction d) (auto split: dir_entry.split)
  then have "map ar_name (artifacts_of s) = map fst (filter (\<lambda>x. is_artifact_name (fst x) \<and> snd x \<noteq> Other_Entry) (as_dir s))"
    by (simp add: artifacts_of_def)
  then have "distinct (map ar_name (artifacts_of s))" using assms by (simp only: distinct_map_filter)
  then show ?thesis by (simp add: distinct_map)
qed

lemma artifacts_filter:
  "as_dir s' = filter (\<lambda>x. fst x \<noteq> n) (as_dir s) \<Longrightarrow> artifacts_of s' = filter (\<lambda>a. ar_name a \<noteq> n) (artifacts_of s)"
proof -
  have "concat (map (\<lambda>(n, e). case e of Regular bytes mtime \<Rightarrow> if is_artifact_name n then [\<lparr>ar_name = n, ar_size = bytes, ar_mtime = mtime\<rparr>] else []
       | Other_Entry \<Rightarrow> []) (filter (\<lambda>x. fst x \<noteq> n) d)) =
     filter (\<lambda>a. ar_name a \<noteq> n) (concat (map (\<lambda>(n, e). case e of
       Regular bytes mtime \<Rightarrow> if is_artifact_name n then [\<lparr>ar_name = n, ar_size = bytes, ar_mtime = mtime\<rparr>] else []
     | Other_Entry \<Rightarrow> []) d))" for d
    by (induction d) (auto split: dir_entry.split)
  then show "as_dir s' = filter (\<lambda>x. fst x \<noteq> n) (as_dir s) \<Longrightarrow> artifacts_of s' = filter (\<lambda>a. ar_name a \<noteq> n) (artifacts_of s)"
    by (simp add: artifacts_of_def)
qed

lemma remove_present:
  assumes d: "dict_ok (as_dir s)" and a: "a \<in> set (artifacts_of s)" and c: "ar_name a \<notin> as_claimed s"
    and r: "remove_artifact {} (ar_name a) s = (ok, s1)"
  shows "dict_ok (as_dir s1) \<and> as_claimed s1 = as_claimed s \<and> artifacts_of s1 = filter (\<lambda>b. b \<noteq> a) (artifacts_of s)"
proof -
  have "ok" using r a c d by (auto simp: remove_artifact_def in_artifacts)
  then have f: "shrinks s s1" "as_dir s1 = filter (\<lambda>x. fst x \<noteq> ar_name a) (as_dir s)" using remove_artifact_facts[OF d r] by auto
  have "filter (\<lambda>b. ar_name b \<noteq> ar_name a) (artifacts_of s) = filter (\<lambda>b. b \<noteq> a) (artifacts_of s)"
    by (intro filter_cong) (auto dest: artifacts_same_name[OF d a])
  then show ?thesis using artifacts_filter[OF f(2)] shrinks_dict_ok[OF f(1) d] f(1) by (simp add: shrinks_def)
qed

definition stale :: "temp_policy \<Rightarrow> time \<Rightarrow> artifact \<Rightarrow> bool" where
  "stale pol now a \<longleftrightarrow> (\<exists>age \<in> set_option (tp_max_age pol). age < now - ar_mtime a)"

lemma drop_stale_spec:
  assumes "dict_ok (as_dir s)" "set as \<subseteq> set (artifacts_of s)" "distinct as" "drop_stale {} now age as s = (n, fresh, s2)"
  shows "dict_ok (as_dir s2) \<and> as_claimed s2 = as_claimed s \<and>
    fresh = filter (\<lambda>a. \<not> (age < now - ar_mtime a \<and> ar_name a \<notin> as_claimed s)) as \<and>
    artifacts_of s2 = filter (\<lambda>a. a \<notin> set as \<or> a \<in> set fresh) (artifacts_of s)"
  using assms
proof (induction as arbitrary: s n fresh)
  case (Cons a as)
  show ?case
  proof (cases "age < now - ar_mtime a \<and> ar_name a \<notin> as_claimed s")
    case True
    obtain ok s1 where r: "remove_artifact {} (ar_name a) s = (ok, s1)" by fastforce
    have 1: "dict_ok (as_dir s1) \<and> as_claimed s1 = as_claimed s \<and> artifacts_of s1 = filter (\<lambda>b. b \<noteq> a) (artifacts_of s)"
      by (rule remove_present[OF Cons.prems(1) _ _ r]) (use True Cons.prems(2) in auto)
    obtain k where k: "drop_stale {} now age as s1 = (k, fresh, s2)" using Cons.prems(4) True r by (auto split: prod.splits)
    have "set as \<subseteq> set (artifacts_of s1)" using 1 Cons.prems(2,3) by auto
    from Cons.IH[OF _ this _ k] 1 Cons.prems(3) True show ?thesis by (auto intro!: filter_cong)
  next
    case False
    obtain k fr where k: "drop_stale {} now age as s = (k, fr, s2)" "fresh = a # fr" using Cons.prems(4) False by (auto split: prod.splits)
    from Cons.IH[OF Cons.prems(1) _ _ k(1)] Cons.prems(2,3) False show ?thesis by (auto simp: k(2) intro!: filter_cong)
  qed
qed simp

lemma take_evictable_spec:
  "take_evictable claimed as = Some (a, rest) \<Longrightarrow> ar_name a \<notin> claimed \<and>
     (\<exists>pre post. as = pre @ a # post \<and> rest = pre @ post \<and> (\<forall>b \<in> set pre. ar_name b \<in> claimed))"
proof (induction as arbitrary: a rest)
  case (Cons x as)
  show ?case
  proof (cases "ar_name x \<notin> claimed")
    case True
    then have "ar_name a \<notin> claimed \<and> x # as = [] @ a # as \<and> rest = [] @ as" using Cons.prems by simp
    then show ?thesis by (metis empty_iff list.set(1))
  next
    case False
    then obtain r where r: "take_evictable claimed as = Some (a, r)" "rest = x # r" using Cons.prems by auto
    obtain pre post where "as = pre @ a # post" "r = pre @ post" "\<forall>b \<in> set pre. ar_name b \<in> claimed" "ar_name a \<notin> claimed"
      using Cons.IH[OF r(1)] by blast
    then show ?thesis using False r(2) by (intro conjI exI[of _ "x # pre"] exI[of _ post]) auto
  qed
qed simp

lemma take_evictable_none: "take_evictable claimed as = None \<Longrightarrow> a \<in> set as \<Longrightarrow> ar_name a \<in> claimed"
  by (induction as) (auto split: if_splits)

lemma projection_perm: "mset as = mset bs \<Longrightarrow> projection_exceeds pol pb pf as = projection_exceeds pol pb pf bs"
proof -
  assume m: "mset as = mset bs"
  have "total_size as = sum_mset (image_mset ar_size (mset as))" "total_size bs = sum_mset (image_mset ar_size (mset bs))"
    by (simp_all add: total_size_def sum_mset_sum_list flip: mset_map)
  then show ?thesis using m size_mset[of as] size_mset[of bs] by (simp add: projection_exceeds_def)
qed

text \<open>What one run of the eviction loop does to a sorted list of present artifacts.\<close>

definition evicted_ok :: "temp_policy \<Rightarrow> nat \<Rightarrow> nat \<Rightarrow> string set \<Rightarrow> artifact list \<Rightarrow> artifact list \<Rightarrow> bool" where
  "evicted_ok pol pb pf claimed as kept \<longleftrightarrow> set kept \<subseteq> set as \<and> distinct kept \<and>
     (\<forall>a \<in> set as - set kept. ar_name a \<notin> claimed \<and> (\<forall>b \<in> set kept. ar_name b \<notin> claimed \<longrightarrow> ar_mtime a \<le> ar_mtime b)) \<and>
     (projection_exceeds pol pb pf kept \<longrightarrow> (\<forall>a \<in> set kept. ar_name a \<in> claimed)) \<and>
     (set kept \<noteq> set as \<longrightarrow> (\<exists>a \<in> set as - set kept. projection_exceeds pol pb pf (a # kept)))"

lemma evict_spec:
  assumes "dict_ok (as_dir s)" "set as \<subseteq> set (artifacts_of s)" "distinct as" "sorted (map ar_mtime as)" "fails = {}"
    "evict pol pb pf fails as s = (n, kept, s2)"
  shows "artifacts_of s2 = filter (\<lambda>a. a \<notin> set as \<or> a \<in> set kept) (artifacts_of s) \<and> as_claimed s2 = as_claimed s \<and>
    dict_ok (as_dir s2) \<and> evicted_ok pol pb pf (as_claimed s) as kept"
  using assms
proof (induction pol pb pf fails as s arbitrary: n kept s2 rule: evict.induct)
  case (1 pol pb pf fails as s)
  note IH = "1.IH" and prems = "1.prems"
  show ?case
  proof (cases "as = [] \<or> \<not> projection_exceeds pol pb pf as \<or> take_evictable (as_claimed s) as = None")
    case True
    then have "kept = as" "s2 = s" using prems(6) by (auto simp: evict.simps[of pol pb pf fails as s] split: if_splits)
    moreover have "projection_exceeds pol pb pf as \<Longrightarrow> \<forall>a \<in> set as. ar_name a \<in> as_claimed s"
      using True take_evictable_none by auto
    ultimately show ?thesis using prems(1,3) by (auto simp: evicted_ok_def intro!: filter_True[symmetric])
  next
    case False
    then obtain a rest where t: "take_evictable (as_claimed s) as = Some (a, rest)" by auto
    obtain pre post where p: "as = pre @ a # post" "rest = pre @ post" "\<forall>b \<in> set pre. ar_name b \<in> as_claimed s"
      "ar_name a \<notin> as_claimed s" using take_evictable_spec[OF t] by blast
    obtain ok s1 where r: "remove_artifact fails (ar_name a) s = (ok, s1)" by fastforce
    have 1: "dict_ok (as_dir s1) \<and> as_claimed s1 = as_claimed s \<and> artifacts_of s1 = filter (\<lambda>b. b \<noteq> a) (artifacts_of s)"
      by (rule remove_present[OF prems(1) _ p(4)]) (use r prems(2,5) p(1) in auto)
    obtain k where k: "evict pol pb pf fails rest s1 = (k, kept, s2)"
      using prems(6) False t r by (auto simp: evict.simps[of pol pb pf fails as s] split: prod.splits if_splits)
    have "artifacts_of s2 = filter (\<lambda>a. a \<notin> set rest \<or> a \<in> set kept) (artifacts_of s1) \<and> as_claimed s2 = as_claimed s1 \<and>
        dict_ok (as_dir s2) \<and> evicted_ok pol pb pf (as_claimed s1) rest kept"
    proof (rule IH[OF _ t refl r[symmetric] refl _ _ _ _ prems(5) k])
      show "\<not> (as = [] \<or> \<not> projection_exceeds pol pb pf as)" using False by simp
      show "set rest \<subseteq> set (artifacts_of s1)" using 1 prems(2,3) p by auto
    qed (use 1 prems(3,4) p in \<open>auto simp: sorted_append\<close>)
    note ih = this
    have kept: "set kept \<subseteq> set rest" "a \<notin> set rest" using ih prems(3) p by (auto simp: evicted_ok_def)
    have old: "ar_mtime a \<le> ar_mtime b" if "b \<in> set kept" "ar_name b \<notin> as_claimed s" for b
    proof -
      have "b \<in> set post" using that kept(1) p(2,3) by auto
      then show ?thesis using prems(4) p(1) by (simp add: sorted_append)
    qed
    have "\<exists>x \<in> set as - set kept. projection_exceeds pol pb pf (x # kept)"
    proof (cases "set kept = set rest")
      case True
      have "distinct kept" "distinct rest" using ih prems(3) p by (auto simp: evicted_ok_def)
      then have "mset kept = mset rest" using True set_eq_iff_mset_eq_distinct by blast
      then have "mset (a # kept) = mset as" using p by simp
      then have "projection_exceeds pol pb pf (a # kept)" using projection_perm False by blast
      then show ?thesis using kept p(1) by auto
    next
      case False
      then show ?thesis using ih p(1,2) by (auto simp: evicted_ok_def)
    qed
    then have "evicted_ok pol pb pf (as_claimed s) as kept"
      using ih 1 p old by (auto simp: evicted_ok_def)
    moreover have "artifacts_of s2 = filter (\<lambda>x. x \<notin> set as \<or> x \<in> set kept) (artifacts_of s)"
      using ih 1 p kept by (auto intro!: filter_cong)
    ultimately show ?thesis using ih 1 by simp
  qed
qed

text \<open>
  Cleaning follows the retention policy exactly. When every unlink works, a cleanup for pending bytes and files keeps every claimed
  artifact, removes every unclaimed stale one, and evicts further ones only oldest first and only as far as needed: an
  evicted fresh artifact is at least as old as every unclaimed one that stays, the directory is over the limits afterwards only
  if everything left is claimed, and if a fresh artifact was evicted at all then some evicted one could not have stayed.
\<close>

theorem cleanup_follows_policy:
  assumes "dict_ok (as_dir s)" and "s' = snd (cleanup_locked pol now {} pb pf False s)"
  shows "set (artifacts_of s') \<subseteq> set (artifacts_of s) \<and>
    (\<forall>a \<in> set (artifacts_of s') . stale pol now a \<longrightarrow> ar_name a \<in> as_claimed s) \<and>
    (\<forall>a \<in> set (artifacts_of s) - set (artifacts_of s'). ar_name a \<notin> as_claimed s \<and>
       (stale pol now a \<or> (\<forall>b \<in> set (artifacts_of s'). ar_name b \<notin> as_claimed s \<longrightarrow> ar_mtime a \<le> ar_mtime b))) \<and>
    (projection_exceeds pol pb pf (artifacts_of s') \<longrightarrow> (\<forall>a \<in> set (artifacts_of s'). ar_name a \<in> as_claimed s)) \<and>
    ((\<exists>a \<in> set (artifacts_of s) - set (artifacts_of s'). \<not> stale pol now a) \<longrightarrow>
       (\<exists>a \<in> set (artifacts_of s) - set (artifacts_of s'). \<not> stale pol now a \<and> projection_exceeds pol pb pf (a # artifacts_of s')))"
proof -
  define A where "A = artifacts_of s"
  obtain n fresh s1 where age: "(case tp_max_age pol of None \<Rightarrow> (0, A, s) | Some age \<Rightarrow> drop_stale {} now age A s) = (n, fresh, s1)"
    by (metis prod_cases3)
  have dist: "distinct A" using distinct_artifacts[OF assms(1)] by (simp add: A_def)
  have 1: "dict_ok (as_dir s1) \<and> as_claimed s1 = as_claimed s \<and>
      fresh = filter (\<lambda>a. \<not> (stale pol now a \<and> ar_name a \<notin> as_claimed s)) A \<and> artifacts_of s1 = fresh"
  proof (cases "tp_max_age pol")
    case None
    then show ?thesis using age assms(1) by (auto simp: stale_def A_def)
  next
    case (Some age')
    then have "drop_stale {} now age' A s = (n, fresh, s1)" using age by simp
    from drop_stale_spec[OF assms(1) _ dist this] Some show ?thesis
      by (auto simp: stale_def A_def intro!: filter_cong)
  qed
  obtain k kept s2 where ev: "evict pol pb pf {} (sort_key ar_mtime fresh) s1 = (k, kept, s2)" by (metis prod_cases3)
  have s': "s' = s2" using assms(2) ev unfolding cleanup_locked_def A_def[symmetric] age by simp
  have 2: "artifacts_of s2 = filter (\<lambda>a. a \<notin> set (sort_key ar_mtime fresh) \<or> a \<in> set kept) (artifacts_of s1) \<and>
      as_claimed s2 = as_claimed s1 \<and> dict_ok (as_dir s2) \<and> evicted_ok pol pb pf (as_claimed s1) (sort_key ar_mtime fresh) kept"
    by (rule evict_spec[OF _ _ _ _ refl ev]) (use 1 dist in auto)
  have k: "set kept \<subseteq> set fresh" "distinct kept" using 2 by (simp_all add: evicted_ok_def)
  have "artifacts_of s' = filter (\<lambda>a. a \<notin> set fresh \<or> a \<in> set kept) fresh" using 2 1 s' by simp
  also have "\<dots> = filter (\<lambda>a. a \<in> set kept) fresh" by (rule filter_cong) simp_all
  finally have A': "artifacts_of s' = filter (\<lambda>a. a \<in> set kept) fresh" .
  have sets: "set (artifacts_of s') = set kept" unfolding A' using k(1) by auto
  have "distinct fresh" using 1 dist by simp
  then have "distinct (artifacts_of s')" unfolding A' by simp
  then have perm: "mset (artifacts_of s') = mset kept" using sets k(2) set_eq_iff_mset_eq_distinct by blast
  have proj: "projection_exceeds pol pb pf (artifacts_of s') = projection_exceeds pol pb pf kept"
    "projection_exceeds pol pb pf (a # artifacts_of s') = projection_exceeds pol pb pf (a # kept)" for a
    by (rule projection_perm, simp add: perm)+
  have f: "a \<in> set fresh \<longleftrightarrow> a \<in> set A \<and> \<not> (stale pol now a \<and> ar_name a \<notin> as_claimed s)" for a using 1 by simp
  have "as_claimed s1 = as_claimed s" using 1 by blast
  then have K: "evicted_ok pol pb pf (as_claimed s) fresh kept" using 2 by (simp add: evicted_ok_def)
  have e: "set kept \<subseteq> set fresh"
    "\<And>a. a \<in> set fresh \<Longrightarrow> a \<notin> set kept \<Longrightarrow> ar_name a \<notin> as_claimed s \<and>
       (\<forall>b \<in> set kept. ar_name b \<notin> as_claimed s \<longrightarrow> ar_mtime a \<le> ar_mtime b)"
    "projection_exceeds pol pb pf kept \<Longrightarrow> \<forall>a \<in> set kept. ar_name a \<in> as_claimed s"
    "set kept \<noteq> set fresh \<Longrightarrow> \<exists>a \<in> set fresh - set kept. projection_exceeds pol pb pf (a # kept)"
    using K unfolding evicted_ok_def by blast+
  show ?thesis unfolding sets proj A_def[symmetric]
  proof (intro conjI ballI impI)
    show "set kept \<subseteq> set A" using e(1) f by auto
    show "ar_name a \<in> as_claimed s" if "a \<in> set kept" "stale pol now a" for a using that e(1) f[of a] by auto
    show "ar_name a \<notin> as_claimed s" if "a \<in> set A - set kept" for a using that e(2)[of a] f[of a] by auto
    show "stale pol now a \<or> (\<forall>b \<in> set kept. ar_name b \<notin> as_claimed s \<longrightarrow> ar_mtime a \<le> ar_mtime b)"
      if "a \<in> set A - set kept" for a using that e(2)[of a] f[of a] by auto
    show "ar_name a \<in> as_claimed s" if "projection_exceeds pol pb pf kept" "a \<in> set kept" for a using that e(3) by blast
    assume "\<exists>a \<in> set A - set kept. \<not> stale pol now a"
    then have "set kept \<noteq> set fresh" using f by blast
    then obtain a where a: "a \<in> set fresh" "a \<notin> set kept" "projection_exceeds pol pb pf (a # kept)" using e(4) by blast
    then have "\<not> stale pol now a" using e(2) f by blast
    then show "\<exists>a \<in> set A - set kept. \<not> stale pol now a \<and> projection_exceeds pol pb pf (a # kept)" using a f by blast
  qed
qed

subsection \<open>Witnesses\<close>

definition demo_tokens :: "nat \<Rightarrow> string \<times> string" where
  "demo_tokens k = (''bad'', replicate 15 CHR ''0'' @ (if k = 0 then ''a'' else ''b''))"

definition demo_policy :: temp_policy where
  "demo_policy = \<lparr>tp_max_age = Some 60, tp_max_files = Some 1, tp_max_bytes = Some 10\<rparr>"

definition demo_artifact :: string where "demo_artifact = artifact_name (replicate 15 CHR ''0'' @ ''a'') ''.html''"

definition demo_store :: artifact_store where
  "demo_store = \<lparr>as_dir = [(''notes.txt'', Regular 5 0), (demo_artifact, Regular 7 100)], as_paths = {demo_artifact}, as_claimed = {}\<rparr>"

lemma demo_token_ok: "token_ok (replicate 15 CHR ''0'' @ ''a'')" "token_ok (replicate 15 CHR ''0'' @ ''b'')" "\<forall>k. token_ok (snd (demo_tokens k))"
  by (simp_all add: token_ok_def demo_tokens_def is_lower_hex_def is_digit_def list_all_iff)

lemma demo_artifact_name: "is_artifact_name demo_artifact" "\<not> is_artifact_name ''notes.txt''"
  unfolding demo_artifact_def by (rule generated_name[OF demo_token_ok(1)]) (simp_all add: temp_extensions_def output_formats_def is_artifact_name_def)

lemma demo_artifacts: "artifacts_of demo_store = [\<lparr>ar_name = demo_artifact, ar_size = 7, ar_mtime = 100\<rparr>]"
  by (simp add: artifacts_of_def demo_store_def demo_artifact_name)

theorem cleanup_follows_policy_witness:
  "set (artifacts_of (snd (cleanup_locked demo_policy 110 {} 4 1 False demo_store))) \<subseteq> {\<lparr>ar_name = demo_artifact, ar_size = 7, ar_mtime = 100\<rparr>}"
proof -
  have "dict_ok (as_dir demo_store)" by (simp add: demo_store_def demo_artifact_def artifact_name_def)
  from cleanup_follows_policy[OF this refl, of demo_policy 110 4 1] demo_artifacts show ?thesis by auto
qed

definition empty_store :: artifact_store where "empty_store = \<lparr>as_dir = [], as_paths = {}, as_claimed = {}\<rparr>"

lemma demo_extension: "normalize_extension ''html'' = Inr ''.html''"
  by (simp add: normalize_extension_def py_lower_def lower_char_def ascii_upper_def py_strip_def strip_by_def is_space_def
      temp_extensions_def output_formats_def)

lemma demo_empty_write:
  "\<exists>s'. write_artifact demo_policy 110 111 {} demo_tokens True 9 ''html'' empty_store = (Inr demo_artifact, s')"
proof -
  have no: "artifacts_of empty_store = []" by (simp add: artifacts_of_def empty_store_def)
  have clean: "cleanup_locked demo_policy 110 {} 9 1 False empty_store = (0, empty_store)"
    by (simp add: cleanup_locked_def no demo_policy_def evict.simps)
  have pol: "tp_max_files demo_policy = Some 1" "tp_max_bytes demo_policy = Some 10" by (simp_all add: demo_policy_def)
  have cap: "ensure_capacity demo_policy 110 {} 9 empty_store = (None, empty_store)"
    using clean no by (simp add: ensure_capacity_def pol total_size_def)
  have token: "(if token_ok (fst (demo_tokens 0)) then fst (demo_tokens 0) else snd (demo_tokens 0)) = replicate 15 CHR ''0'' @ ''a''"
    by (simp add: demo_tokens_def token_ok_def)
  have "reserve_name demo_tokens ''.html'' (Suc 63) 0 (as_dir empty_store) = Some demo_artifact"
    unfolding reserve_name.simps Let_def token by (simp add: empty_store_def demo_artifact_def)
  then have "reserve_name demo_tokens ''.html'' 64 0 (as_dir empty_store) = Some demo_artifact" by simp
  then show ?thesis by (simp add: write_artifact_def demo_extension cap)
qed

theorem artifact_write_within_quota_witness:
  "\<exists>s'. write_artifact demo_policy 110 111 {} demo_tokens True 9 ''html'' empty_store = (Inr demo_artifact, s') \<and>
     \<not> projection_exceeds demo_policy 0 0 (artifacts_of s') \<and> as_dir s' = [(demo_artifact, Regular 9 111)] \<and> as_paths s' = {demo_artifact}"
proof -
  obtain s' where w: "write_artifact demo_policy 110 111 {} demo_tokens True 9 ''html'' empty_store = (Inr demo_artifact, s')"
    using demo_empty_write by blast
  have "dict_ok (as_dir empty_store)" by (simp add: empty_store_def)
  from artifact_write_within_quota[OF this demo_token_ok(3) w] w show ?thesis by (auto simp: empty_store_def)
qed

theorem artifact_served_once_witness:
  "dict_get (as_dir (snd (temp_run [T_Cleanup demo_policy 500 {} True, T_Claim demo_artifact, T_Unlink ''notes.txt'']
     (demo_store\<lparr>as_claimed := {demo_artifact}\<rparr>)))) demo_artifact = Some (Regular 7 100)"
proof -
  let ?ops = "[T_Cleanup demo_policy 500 {} True, T_Claim demo_artifact, T_Unlink ''notes.txt'']" and ?s = "demo_store\<lparr>as_claimed := {demo_artifact}\<rparr>"
  have ok: "temp_ok ?s" by (simp add: temp_ok_def demo_store_def demo_artifact_def artifact_name_def)
  have get: "dict_get (as_dir ?s) demo_artifact = Some (Regular 7 100)"
    by (simp add: demo_store_def demo_artifact_def artifact_name_def)
  have "temp_run ?ops ?s = (fst (temp_run ?ops ?s), snd (temp_run ?ops ?s))" by simp
  moreover have "\<forall>op \<in> set ?ops. draws_ok op" "\<forall>op \<in> set ?ops. \<not> ends_claim demo_artifact op" "demo_artifact \<in> as_claimed ?s"
    by (simp_all add: demo_artifact_def artifact_name_def)
  ultimately show ?thesis using artifact_served_once[OF ok, of ?ops _ _ demo_artifact "Regular 7 100"] get by blast
qed

end
