(* ===== verification/Note_Store.thy ===== *)
theory Note_Store
  imports Py_Json
begin

section \<open>Encrypted notes\<close>

text \<open>
  \<open>NotepadService\<close> of \<^verbatim>\<open>xferry/notepad_service.py\<close>. The notes directory has ciphertext files (\<open><id>.enc\<close>, with the
  ISO text of their modification time), sidecars (\<open><id>.meta.json\<close>) and the service's own temporary files; the entries
  named \<open>*.enc\<close> are regular files. \<open>json.dumps(\<dots>, indent=2)\<close> and \<open>json.loads\<close> on decoded text are the parameters
  \<open>dumps\<close> and \<open>loads\<close>; clock texts, drawn tokens and the I/O steps that fail are arguments.
\<close>

definition NOTE_ID_LENGTH :: nat where "NOTE_ID_LENGTH = 32"
definition MIN_NOTE_BLOB :: nat where "MIN_NOTE_BLOB = 12 + 16"
definition MAX_NOTE_BLOB :: nat where "MAX_NOTE_BLOB = 1024 * 1024"
definition MAX_NOTE_TITLE_CHARS :: nat where "MAX_NOTE_TITLE_CHARS = 200"
definition MAX_CLEAR_FAILURES :: nat where "MAX_CLEAR_FAILURES = 25"

definition is_valid_note_id :: "string \<Rightarrow> bool" where
  "is_valid_note_id i \<longleftrightarrow> length i = 32 \<and> list_all is_lower_hex i"

definition max_note_data_b64_chars :: nat where
  "max_note_data_b64_chars = (MAX_NOTE_BLOB + 2) div 3 * 4"

record note_policy =
  np_max_bytes :: "nat option"
  np_max_notes :: "nat option"
  np_max_listed :: nat

definition note_policy_make :: "int option \<Rightarrow> int option \<Rightarrow> int \<Rightarrow> py_error + note_policy" where
  "note_policy_make bytes_limit notes listed =
     (if (\<exists>n \<in> set_option bytes_limit. n < 0) \<or> (\<exists>n \<in> set_option notes. n < 0) \<or> listed \<le> 0 then Inl ValueError
      else Inr \<lparr>np_max_bytes = map_option nat bytes_limit, np_max_notes = map_option nat notes, np_max_listed = nat listed\<rparr>)"

record note_usage = nu_bytes :: nat nu_count :: nat

record save_request =
  sq_title :: string
  sq_data :: string
  sq_id :: string
  sq_session :: "string option"
  sq_create_if_missing :: bool

record note_summary =
  ns_id :: string
  ns_title :: string
  ns_created :: string
  ns_updated :: string
  ns_size :: nat

text \<open>\<open>NotepadServiceError\<close> with its status, code and field; \<open>Note_Undecodable\<close> is a \<open>UnicodeDecodeError\<close>, which no
  handler of the service catches; \<open>Note_Drawing\<close> is a call still looking for a free identifier after the drawn tokens.\<close>

datatype note_error = Note_Error nat string "string option" | Note_Undecodable | Note_Drawing

text \<open>A temporary file \<open>.<id>.<label>.<token>.tmp\<close>; the other entries of the directory, with whether each is a directory.\<close>

datatype temp_label = Enc_Temp | Meta_Temp | Enc_Backup | Meta_Backup

type_synonym temp_name = "string \<times> temp_label \<times> string"

record note_dir =
  nd_enc :: "(string, bytes \<times> string) dict"
  nd_meta :: "(string, bytes) dict"
  nd_temps :: "(temp_name, bytes) dict"
  nd_others :: "(string, bool) dict"

subsection \<open>Paths, usage and quota\<close>

definition resolve_note :: "string \<Rightarrow> note_error + unit" where
  "resolve_note i = (if is_valid_note_id i then Inr () else Inl (Note_Error 400 ''invalid_field'' (Some ''id'')))"

definition scan_usage :: "string option \<Rightarrow> note_dir \<Rightarrow> note_usage" where
  "scan_usage exclude d =
     (let counted = filter (\<lambda>(i, _). is_valid_note_id i \<and> Some i \<noteq> exclude) (nd_enc d)
      in \<lparr>nu_bytes = sum_list (map (\<lambda>(_, bs, _). length bs) counted), nu_count = length counted\<rparr>)"

definition check_note_storage :: "note_policy \<Rightarrow> string \<Rightarrow> nat \<Rightarrow> bool \<Rightarrow> note_dir \<Rightarrow> note_error + unit" where
  "check_note_storage pol i new_size replacing d =
     (let u = scan_usage (if replacing then Some i else None) d
      in if \<exists>m \<in> set_option (np_max_notes pol). m < nu_count u + 1
         then Inl (Note_Error 507 ''storage_quota_exceeded'' (Some ''data''))
         else if \<exists>m \<in> set_option (np_max_bytes pol). m < nu_bytes u + new_size
         then Inl (Note_Error 507 ''storage_quota_exceeded'' (Some ''data''))
         else Inr ())"

subsection \<open>Sidecars\<close>

text \<open>\<open>read_text("utf-8")\<close> raises on bytes that are not UTF-8; a text that is not a JSON object is \<open>Inr None\<close>.\<close>

definition read_note_meta :: "(bytes \<Rightarrow> json option) \<Rightarrow> bytes \<Rightarrow> note_error + (string \<times> json) list option" where
  "read_note_meta loads raw =
     (if \<not> utf8_valid raw then Inl Note_Undecodable
      else case loads raw of Some (J_Obj m) \<Rightarrow> Inr (Some m) | _ \<Rightarrow> Inr None)"

definition text_field :: "(string \<times> json) list \<Rightarrow> string \<Rightarrow> string option" where
  "text_field m k = (case dict_get m k of Some (J_Str s) \<Rightarrow> Some s | _ \<Rightarrow> None)"

definition nonempty_or :: "string \<Rightarrow> string option \<Rightarrow> string" where
  "nonempty_or fallback v = (case v of Some s \<Rightarrow> if s = [] then fallback else s | None \<Rightarrow> fallback)"

definition note_record :: "(bytes \<Rightarrow> json option) \<Rightarrow> string \<Rightarrow> note_dir \<Rightarrow> note_error + note_summary" where
  "note_record loads i d =
     (let (len, stamp) = (case dict_get (nd_enc d) i of Some (bs, t) \<Rightarrow> (length bs, t) | None \<Rightarrow> (0, []));
          bare = \<lparr>ns_id = i, ns_title = [], ns_created = stamp, ns_updated = stamp, ns_size = len\<rparr>
      in case dict_get (nd_meta d) i of
           None \<Rightarrow> Inr bare
         | Some raw \<Rightarrow>
             (case read_note_meta loads raw of
                Inl e \<Rightarrow> Inl e
              | Inr None \<Rightarrow> Inr bare
              | Inr (Some m) \<Rightarrow> Inr \<lparr>ns_id = i, ns_title = (case text_field m ''title'' of Some s \<Rightarrow> s | None \<Rightarrow> []),
                  ns_created = nonempty_or stamp (text_field m ''created_at''),
                  ns_updated = nonempty_or stamp (text_field m ''updated_at''), ns_size = len\<rparr>))"

subsection \<open>Replacing a pair of files\<close>

text \<open>
  What goes wrong in one replacement: the temporary files and backups that cannot be written, the ones that cannot be
  moved (a backup: the restoration that fails), the ones that cannot be removed, and the tokens drawn for each name.
\<close>

record note_faults =
  nf_write :: "temp_label set"
  nf_move :: "temp_label set"
  nf_keep :: "temp_label set"
  nf_tokens :: "temp_label \<Rightarrow> string list"

definition TEMP_ATTEMPTS :: nat where "TEMP_ATTEMPTS = 64"

fun free_token :: "nat \<Rightarrow> string \<Rightarrow> temp_label \<Rightarrow> string list \<Rightarrow> (temp_name, bytes) dict \<Rightarrow> temp_name option" where
  "free_token 0 i l ts temps = None"
| "free_token (Suc n) i l [] temps = None"
| "free_token (Suc n) i l (t # ts) temps =
     (if dict_get temps (i, l, t) = None then Some (i, l, t) else free_token n i l ts temps)"

text \<open>\<open>_write_note_temp_bytes\<close>; \<open>None\<close> is an exception, after which no file of this call is left.\<close>

definition write_temp :: "note_faults \<Rightarrow> string \<Rightarrow> temp_label \<Rightarrow> bytes \<Rightarrow> note_dir \<Rightarrow> (temp_name \<times> note_dir) option" where
  "write_temp f i l bs d =
     (if l \<in> nf_write f then None
      else map_option (\<lambda>n. (n, d\<lparr>nd_temps := dict_set n bs (nd_temps d)\<rparr>))
             (free_token TEMP_ATTEMPTS i l (nf_tokens f l) (nd_temps d)))"

definition copy_backup ::
  "note_faults \<Rightarrow> string \<Rightarrow> temp_label \<Rightarrow> bytes option \<Rightarrow> note_dir \<Rightarrow> (temp_name option \<times> note_dir) option" where
  "copy_backup f i l old d =
     (case old of None \<Rightarrow> Some (None, d) | Some bs \<Rightarrow> map_option (\<lambda>(n, d). (Some n, d)) (write_temp f i l bs d))"

fun cleanup_temps :: "note_faults \<Rightarrow> temp_name option list \<Rightarrow> note_dir \<Rightarrow> note_dir" where
  "cleanup_temps f [] d = d"
| "cleanup_temps f (None # ns) d = cleanup_temps f ns d"
| "cleanup_temps f (Some n # ns) d =
     cleanup_temps f ns (if fst (snd n) \<in> nf_keep f then d else d\<lparr>nd_temps := dict_del n (nd_temps d)\<rparr>)"

text \<open>\<open>Path.replace\<close>: the temporary file takes the final name.\<close>

definition replace_enc :: "string \<Rightarrow> string \<Rightarrow> temp_name \<Rightarrow> note_dir \<Rightarrow> note_dir" where
  "replace_enc i stamp n d =
     (case dict_get (nd_temps d) n of
        None \<Rightarrow> d
      | Some bs \<Rightarrow> d\<lparr>nd_enc := dict_set i (bs, stamp) (nd_enc d), nd_temps := dict_del n (nd_temps d)\<rparr>)"

definition replace_meta :: "string \<Rightarrow> temp_name \<Rightarrow> note_dir \<Rightarrow> note_dir" where
  "replace_meta i n d =
     (case dict_get (nd_temps d) n of
        None \<Rightarrow> d
      | Some bs \<Rightarrow> d\<lparr>nd_meta := dict_set i bs (nd_meta d), nd_temps := dict_del n (nd_temps d)\<rparr>)"

text \<open>\<open>_restore_note_pair\<close>: both restorations are tried; the result says whether both worked. \<open>stamp\<close> is the modification
  time of the backup copy.\<close>

definition restore_enc :: "note_faults \<Rightarrow> string \<Rightarrow> string \<Rightarrow> temp_name option \<Rightarrow> note_dir \<Rightarrow> bool \<times> note_dir" where
  "restore_enc f i stamp backup d =
     (case backup of
        Some n \<Rightarrow> if Enc_Backup \<in> nf_move f then (False, d) else (True, replace_enc i stamp n d)
      | None \<Rightarrow> if dict_get (nd_enc d) i = None then (True, d)
          else if Enc_Backup \<in> nf_move f then (False, d) else (True, d\<lparr>nd_enc := dict_del i (nd_enc d)\<rparr>))"

definition restore_meta :: "note_faults \<Rightarrow> string \<Rightarrow> temp_name option \<Rightarrow> note_dir \<Rightarrow> bool \<times> note_dir" where
  "restore_meta f i backup d =
     (case backup of
        Some n \<Rightarrow> if Meta_Backup \<in> nf_move f then (False, d) else (True, replace_meta i n d)
      | None \<Rightarrow> if dict_get (nd_meta d) i = None then (True, d)
          else if Meta_Backup \<in> nf_move f then (False, d) else (True, d\<lparr>nd_meta := dict_del i (nd_meta d)\<rparr>))"

definition restore_pair ::
  "note_faults \<Rightarrow> string \<Rightarrow> string \<Rightarrow> temp_name option \<Rightarrow> temp_name option \<Rightarrow> note_dir \<Rightarrow> bool \<times> note_dir" where
  "restore_pair f i stamp eb mb d =
     (let (ok1, d1) = restore_enc f i stamp eb d; (ok2, d2) = restore_meta f i mb d1 in (ok1 \<and> ok2, d2))"

definition roll_back ::
  "note_faults \<Rightarrow> string \<Rightarrow> string \<Rightarrow> temp_name option list \<Rightarrow> temp_name option \<Rightarrow> temp_name option \<Rightarrow> note_dir \<Rightarrow> note_dir" where
  "roll_back f i stamp unused eb mb d =
     (let (complete, d1) = restore_pair f i stamp eb mb d; d2 = cleanup_temps f unused d1
      in if complete then cleanup_temps f [eb, mb] d2 else d2)"

definition replace_pair ::
  "note_faults \<Rightarrow> string \<Rightarrow> string \<Rightarrow> temp_name \<Rightarrow> temp_name \<Rightarrow> temp_name option \<Rightarrow> temp_name option \<Rightarrow> note_dir \<Rightarrow> bool \<times> note_dir"
where
  "replace_pair f i stamp et mt eb mb d =
     (if Enc_Temp \<in> nf_move f then (False, roll_back f i stamp [Some et, Some mt] eb mb d)
      else let d1 = replace_enc i stamp et d in
        if Meta_Temp \<in> nf_move f then (False, roll_back f i stamp [None, Some mt] eb mb d1)
        else (True, cleanup_temps f [eb, mb] (replace_meta i mt d1)))"

text \<open>\<open>_write_note_pair_atomic\<close>: whether it returned or raised, and the directory it leaves.\<close>

definition write_pair :: "note_faults \<Rightarrow> string \<Rightarrow> string \<Rightarrow> bytes \<Rightarrow> bytes \<Rightarrow> note_dir \<Rightarrow> bool \<times> note_dir" where
  "write_pair f i stamp raw sidecar d =
     (case write_temp f i Enc_Temp raw d of
        None \<Rightarrow> (False, d)
      | Some (et, d1) \<Rightarrow>
     (case write_temp f i Meta_Temp sidecar d1 of
        None \<Rightarrow> (False, cleanup_temps f [Some et, None] d1)
      | Some (mt, d2) \<Rightarrow>
     (case copy_backup f i Enc_Backup (map_option fst (dict_get (nd_enc d2) i)) d2 of
        None \<Rightarrow> (False, cleanup_temps f [Some et, Some mt] d2)
      | Some (eb, d3) \<Rightarrow>
     (case copy_backup f i Meta_Backup (dict_get (nd_meta d3) i) d3 of
        None \<Rightarrow> (False, cleanup_temps f [Some et, Some mt, eb, None] d3)
      | Some (mb, d4) \<Rightarrow> replace_pair f i stamp et mt eb mb d4))))"

subsection \<open>Saving a note\<close>

text \<open>The service, and what one call reads from outside: the clock, the drawn identifiers, the time stamp of new files.\<close>

record note_env =
  ne_policy :: note_policy
  ne_loads :: "bytes \<Rightarrow> json option"
  ne_dumps :: "json \<Rightarrow> bytes"
  ne_session_exists :: "(string \<Rightarrow> bool) option"

record note_call =
  nc_now :: string
  nc_stamp :: string
  nc_draws :: "string list"
  nc_faults :: note_faults

definition check_title :: "string \<Rightarrow> note_error + string" where
  "check_title raw =
     (let t = py_strip raw
      in if t = [] \<or> MAX_NOTE_TITLE_CHARS < length t then Inl (Note_Error 400 ''invalid_field'' (Some ''title'')) else Inr t)"

definition check_note_data :: "string \<Rightarrow> note_error + bytes" where
  "check_note_data data =
     (case b64decode_strict data of
        None \<Rightarrow> Inl (Note_Error 400 ''invalid_field'' (Some ''data''))
      | Some raw \<Rightarrow>
          if length raw = 0 then Inl (Note_Error 400 ''empty_payload'' (Some ''data''))
          else if length raw < MIN_NOTE_BLOB then Inl (Note_Error 400 ''invalid_field'' (Some ''data''))
          else if MAX_NOTE_BLOB < length raw then Inl (Note_Error 413 ''payload_too_large'' (Some ''data''))
          else Inr raw)"

definition check_save_request :: "save_request \<Rightarrow> note_error + string \<times> bytes" where
  "check_save_request r =
     (case check_title (sq_title r) of
        Inl e \<Rightarrow> Inl e
      | Inr t \<Rightarrow>
          if sq_id r \<noteq> [] \<and> \<not> is_valid_note_id (sq_id r) then Inl (Note_Error 400 ''invalid_field'' (Some ''id''))
          else if (case sq_session r of None \<Rightarrow> False | Some s \<Rightarrow> \<not> is_valid_note_id s)
            then Inl (Note_Error 400 ''invalid_field'' (Some ''session_id''))
          else (case check_note_data (sq_data r) of Inl e \<Rightarrow> Inl e | Inr raw \<Rightarrow> Inr (t, raw)))"

text \<open>\<open>while enc_path.exists()\<close>: identifiers are drawn until one has no ciphertext.\<close>

fun draw_id :: "string list \<Rightarrow> note_dir \<Rightarrow> note_error + string" where
  "draw_id [] d = Inl Note_Drawing"
| "draw_id (t # ts) d =
     (case resolve_note t of
        Inl e \<Rightarrow> Inl e
      | Inr _ \<Rightarrow> if dict_get (nd_enc d) t = None then Inr t else draw_id ts d)"

definition target_note :: "save_request \<Rightarrow> string list \<Rightarrow> note_dir \<Rightarrow> note_error + string \<times> bool" where
  "target_note r draws d =
     (if sq_id r = [] then (case draw_id draws d of Inl e \<Rightarrow> Inl e | Inr i \<Rightarrow> Inr (i, True))
      else case resolve_note (sq_id r) of
          Inl e \<Rightarrow> Inl e
        | Inr _ \<Rightarrow>
            if dict_get (nd_enc d) (sq_id r) \<noteq> None then Inr (sq_id r, False)
            else if sq_create_if_missing r then Inr (sq_id r, True)
            else Inl (Note_Error 404 ''resource_not_found'' (Some ''id'')))"

definition kept_created :: "note_env \<Rightarrow> string \<Rightarrow> string \<Rightarrow> bool \<Rightarrow> note_dir \<Rightarrow> note_error + string" where
  "kept_created env now i is_new d =
     (if \<not> is_new \<and> dict_get (nd_meta d) i \<noteq> None
      then (case note_record (ne_loads env) i d of
              Inl e \<Rightarrow> Inl e
            | Inr s \<Rightarrow> Inr (if ns_created s = [] then now else ns_created s))
      else Inr now)"

definition session_mark :: "note_env \<Rightarrow> save_request \<Rightarrow> (string \<times> json) list" where
  "session_mark env r =
     (case (sq_session r, ne_session_exists env) of
        (Some s, Some known) \<Rightarrow> if s \<noteq> [] \<and> known s then [(''session'', J_Bool True)] else []
      | _ \<Rightarrow> [])"

definition sidecar_json :: "note_summary \<Rightarrow> (string \<times> json) list \<Rightarrow> json" where
  "sidecar_json s mark =
     J_Obj ([(''id'', J_Str (ns_id s)), (''title'', J_Str (ns_title s)), (''created_at'', J_Str (ns_created s)),
             (''updated_at'', J_Str (ns_updated s)), (''size'', J_Int (int (ns_size s)))] @ mark)"

definition save_note ::
  "note_env \<Rightarrow> note_call \<Rightarrow> save_request \<Rightarrow> note_dir \<Rightarrow> (note_error + note_summary \<times> bool) \<times> note_dir" where
  "save_note env c r d =
     (case check_save_request r of
        Inl e \<Rightarrow> (Inl e, d)
      | Inr (t, raw) \<Rightarrow>
     (case target_note r (nc_draws c) d of
        Inl e \<Rightarrow> (Inl e, d)
      | Inr (i, is_new) \<Rightarrow>
     (case kept_created env (nc_now c) i is_new d of
        Inl e \<Rightarrow> (Inl e, d)
      | Inr created \<Rightarrow>
     (case check_note_storage (ne_policy env) i (length raw) (\<not> is_new) d of
        Inl e \<Rightarrow> (Inl e, d)
      | Inr _ \<Rightarrow>
          let s = \<lparr>ns_id = i, ns_title = t, ns_created = created, ns_updated = nc_now c, ns_size = length raw\<rparr>;
              (ok, d1) = write_pair (nc_faults c) i (nc_stamp c) raw (ne_dumps env (sidecar_json s (session_mark env r))) d
          in (if ok then Inr (s, is_new) else Inl (Note_Error 500 ''internal_error'' None), d1)))))"

subsection \<open>Listing, loading, deleting and clearing\<close>

text \<open>The entries in the order the directory yields them; the third component says that the listing was cut.\<close>

fun list_loop :: "(bytes \<Rightarrow> json option) \<Rightarrow> note_dir \<Rightarrow> nat \<Rightarrow> string list \<Rightarrow> note_error + note_summary list \<times> bool" where
  "list_loop loads d room [] = Inr ([], False)"
| "list_loop loads d room (i # entries) =
     (if room = 0 then Inr ([], True)
      else if \<not> is_valid_note_id i then list_loop loads d (room - 1) entries
      else case note_record loads i d of
          Inl e \<Rightarrow> Inl e
        | Inr s \<Rightarrow> map_sum id (\<lambda>(notes, cut). (s # notes, cut)) (list_loop loads d (room - 1) entries))"

text \<open>\<open>notes.sort(key=\<dots>, reverse=True)\<close> keeps the order of equal keys.\<close>

definition newest_first :: "note_summary list \<Rightarrow> note_summary list" where
  "newest_first notes = rev (sort_key ns_updated (rev notes))"

definition list_notes :: "note_env \<Rightarrow> note_dir \<Rightarrow> note_error + note_summary list \<times> nat \<times> bool" where
  "list_notes env d =
     map_sum id (\<lambda>(notes, cut). (newest_first notes, np_max_listed (ne_policy env), cut))
       (list_loop (ne_loads env) d (np_max_listed (ne_policy env)) (map fst (nd_enc d)))"

definition load_note :: "note_env \<Rightarrow> bool \<Rightarrow> string \<Rightarrow> note_dir \<Rightarrow> note_error + note_summary \<times> string" where
  "load_note env read_fails i d =
     (case resolve_note i of
        Inl e \<Rightarrow> Inl e
      | Inr _ \<Rightarrow>
     (case dict_get (nd_enc d) i of
        None \<Rightarrow> Inl (Note_Error 404 ''resource_not_found'' (Some ''id''))
      | Some (raw, _) \<Rightarrow>
          if read_fails then Inl (Note_Error 500 ''internal_error'' None)
          else map_sum id (\<lambda>s. (s, b64encode raw)) (note_record (ne_loads env) i d)))"

definition delete_note :: "bool \<Rightarrow> bool \<Rightarrow> string \<Rightarrow> note_dir \<Rightarrow> (note_error + string) \<times> note_dir" where
  "delete_note enc_fails meta_fails i d =
     (case resolve_note i of
        Inl e \<Rightarrow> (Inl e, d)
      | Inr _ \<Rightarrow>
          if dict_get (nd_enc d) i = None then (Inl (Note_Error 404 ''resource_not_found'' (Some ''id'')), d)
          else if enc_fails then (Inl (Note_Error 500 ''internal_error'' None), d)
          else let d1 = d\<lparr>nd_enc := dict_del i (nd_enc d)\<rparr> in
            if meta_fails then (Inl (Note_Error 500 ''internal_error'' None), d1)
            else (Inr i, d1\<lparr>nd_meta := dict_del i (nd_meta d1)\<rparr>))"

definition current_note_usage :: "note_dir \<Rightarrow> note_usage" where "current_note_usage d = scan_usage None d"

datatype note_entry = Enc_Entry string | Meta_Entry string | Temp_Entry temp_name | Other_Entry string bool

definition label_text :: "temp_label \<Rightarrow> string" where
  "label_text l = (case l of Enc_Temp \<Rightarrow> ''enc'' | Meta_Temp \<Rightarrow> ''meta'' | Enc_Backup \<Rightarrow> ''enc.backup'' | Meta_Backup \<Rightarrow> ''meta.backup'')"

fun entry_name :: "note_entry \<Rightarrow> string" where
  "entry_name (Enc_Entry i) = i @ ''.enc''"
| "entry_name (Meta_Entry i) = i @ ''.meta.json''"
| "entry_name (Temp_Entry (i, l, t)) = ''.'' @ i @ ''.'' @ label_text l @ ''.'' @ t @ ''.tmp''"
| "entry_name (Other_Entry n _) = n"

definition dir_entries :: "note_dir \<Rightarrow> note_entry list" where
  "dir_entries d = map (\<lambda>x. Enc_Entry (fst x)) (nd_enc d) @ map (\<lambda>x. Meta_Entry (fst x)) (nd_meta d) @
     map (\<lambda>x. Temp_Entry (fst x)) (nd_temps d) @ map (\<lambda>x. Other_Entry (fst x) (snd x)) (nd_others d)"

fun remove_entry :: "note_entry \<Rightarrow> note_dir \<Rightarrow> note_dir" where
  "remove_entry (Enc_Entry i) d = d\<lparr>nd_enc := dict_del i (nd_enc d)\<rparr>"
| "remove_entry (Meta_Entry i) d = d\<lparr>nd_meta := dict_del i (nd_meta d)\<rparr>"
| "remove_entry (Temp_Entry n) d = d\<lparr>nd_temps := dict_del n (nd_temps d)\<rparr>"
| "remove_entry (Other_Entry n _) d = d\<lparr>nd_others := dict_del n (nd_others d)\<rparr>"

datatype os_failure = Permission_Failure | Not_Found_Failure | Is_Directory_Failure | Other_Failure

definition clear_failure_reason :: "os_failure \<Rightarrow> string" where
  "clear_failure_reason e = (case e of Permission_Failure \<Rightarrow> ''permission_denied'' | Not_Found_Failure \<Rightarrow> ''not_found''
     | Is_Directory_Failure \<Rightarrow> ''invalid_entry_type'' | Other_Failure \<Rightarrow> ''io_error'')"

record clear_report =
  cr_files :: nat
  cr_dirs :: nat
  cr_preserved :: "string list"
  cr_failures :: "(string \<times> string) list"

text \<open>One turn of the loop; \<open>fault\<close> gives the error that the removal of an entry raises.\<close>

definition clear_entry :: "(note_entry \<Rightarrow> os_failure option) \<Rightarrow> note_entry \<Rightarrow> clear_report \<times> note_dir \<Rightarrow> clear_report \<times> note_dir" where
  "clear_entry fault e = (\<lambda>(r, d).
     if take 1 (entry_name e) = ''.'' then (r\<lparr>cr_preserved := cr_preserved r @ [entry_name e]\<rparr>, d)
     else case fault e of
       Some x \<Rightarrow> (if length (cr_failures r) < MAX_CLEAR_FAILURES
                  then r\<lparr>cr_failures := cr_failures r @ [(take 255 (entry_name e), clear_failure_reason x)]\<rparr> else r, d)
     | None \<Rightarrow> (case e of Other_Entry _ True \<Rightarrow> r\<lparr>cr_dirs := cr_dirs r + 1\<rparr> | _ \<Rightarrow> r\<lparr>cr_files := cr_files r + 1\<rparr>, remove_entry e d))"

definition clear_notes :: "(note_entry \<Rightarrow> os_failure option) \<Rightarrow> note_dir \<Rightarrow> (clear_report + clear_report) \<times> note_dir" where
  "clear_notes fault d =
     (let (r, d1) = fold (clear_entry fault) (sort_key entry_name (dir_entries d))
            (\<lparr>cr_files = 0, cr_dirs = 0, cr_preserved = [], cr_failures = []\<rparr>, d)
      in (if cr_failures r \<noteq> [] then Inl r else Inr r, d1))"

subsection \<open>What a replacement leaves\<close>

lemma free_token_Some: "free_token k i l ts temps = Some n \<Longrightarrow> \<exists>t. n = (i, l, t) \<and> dict_get temps n = None"
  by (induction k i l ts temps rule: free_token.induct) (auto split: if_splits)

lemma write_temp_Some:
  assumes "write_temp f i l bs d = Some (n, d')"
  shows "\<exists>t. n = (i, l, t)" "dict_get (nd_temps d) n = None" "d' = d\<lparr>nd_temps := dict_set n bs (nd_temps d)\<rparr>"
  using assms free_token_Some[of TEMP_ATTEMPTS i l "nf_tokens f l" "nd_temps d"]
  by (auto simp: write_temp_def split: if_splits)

text \<open>The files of one note, and what a step leaves alone: everything but the files of \<open>i\<close> and its temporary names.\<close>

definition note_files :: "string \<Rightarrow> note_dir \<Rightarrow> bytes option \<times> bytes option" where
  "note_files i d = (map_option fst (dict_get (nd_enc d) i), dict_get (nd_meta d) i)"

definition temps_ext :: "note_dir \<Rightarrow> note_dir \<Rightarrow> bool" where
  "temps_ext d d' \<longleftrightarrow> (\<forall>n bs. dict_get (nd_temps d) n = Some bs \<longrightarrow> dict_get (nd_temps d') n = Some bs)"

lemma cleanup_temps_frame [simp]:
  "nd_enc (cleanup_temps f ns d) = nd_enc d" "nd_meta (cleanup_temps f ns d) = nd_meta d"
  "nd_others (cleanup_temps f ns d) = nd_others d"
  by (induction f ns d rule: cleanup_temps.induct) auto

lemma cleanup_temps_get:
  "dict_get (nd_temps (cleanup_temps f ns d)) n =
     (if Some n \<in> set ns \<and> fst (snd n) \<notin> nf_keep f then None else dict_get (nd_temps d) n)"
  by (induction f ns d rule: cleanup_temps.induct) auto

lemma copy_backup_Some:
  assumes "copy_backup f i l old d = Some (b, d')"
  shows "b = None \<longleftrightarrow> old = None" "nd_enc d' = nd_enc d" "nd_meta d' = nd_meta d" "nd_others d' = nd_others d"
    "\<And>n. b = Some n \<Longrightarrow> \<exists>t. n = (i, l, t)" "\<And>n. b = Some n \<Longrightarrow> dict_get (nd_temps d) n = None"
    "dict_get (nd_temps d') n = (if Some n = b then old else dict_get (nd_temps d) n)"
proof -
  have "(b = None \<longleftrightarrow> old = None) \<and> nd_enc d' = nd_enc d \<and> nd_meta d' = nd_meta d \<and> nd_others d' = nd_others d \<and>
    (\<forall>n. b = Some n \<longrightarrow> (\<exists>t. n = (i, l, t)) \<and> dict_get (nd_temps d) n = None) \<and>
    (\<forall>n. dict_get (nd_temps d') n = (if Some n = b then old else dict_get (nd_temps d) n))"
  proof (cases old)
    case None
    then show ?thesis using assms by (simp add: copy_backup_def)
  next
    case (Some bs)
    then obtain n where n: "b = Some n" "write_temp f i l bs d = Some (n, d')"
      using assms by (auto simp: copy_backup_def)
    show ?thesis using write_temp_Some[OF n(2)] n(1) Some by auto
  qed
  then show "b = None \<longleftrightarrow> old = None" "nd_enc d' = nd_enc d" "nd_meta d' = nd_meta d" "nd_others d' = nd_others d"
    "\<And>n. b = Some n \<Longrightarrow> \<exists>t. n = (i, l, t)" "\<And>n. b = Some n \<Longrightarrow> dict_get (nd_temps d) n = None"
    "dict_get (nd_temps d') n = (if Some n = b then old else dict_get (nd_temps d) n)"
    by (simp_all del: split_paired_All split_paired_Ex)
qed

text \<open>The stages of a replacement: the directory with the temporary files written, before any replacement.\<close>

definition staged ::
  "string \<Rightarrow> bytes \<Rightarrow> bytes \<Rightarrow> note_dir \<Rightarrow> temp_name \<Rightarrow> temp_name \<Rightarrow> temp_name option \<Rightarrow> temp_name option \<Rightarrow> note_dir \<Rightarrow> bool"
where
  "staged i raw sidecar d et mt eb mb d' \<longleftrightarrow>
     nd_enc d' = nd_enc d \<and> nd_meta d' = nd_meta d \<and> nd_others d' = nd_others d \<and>
     (\<exists>t. et = (i, Enc_Temp, t)) \<and> (\<exists>t. mt = (i, Meta_Temp, t)) \<and>
     (\<forall>n \<in> set_option eb. \<exists>t. n = (i, Enc_Backup, t)) \<and> (\<forall>n \<in> set_option mb. \<exists>t. n = (i, Meta_Backup, t)) \<and>
     (eb = None \<longleftrightarrow> dict_get (nd_enc d) i = None) \<and> (mb = None \<longleftrightarrow> dict_get (nd_meta d) i = None) \<and>
     (\<forall>n \<in> {et, mt} \<union> set_option eb \<union> set_option mb. dict_get (nd_temps d) n = None) \<and>
     (\<forall>n. dict_get (nd_temps d') n =
        (if n = et then Some raw else if n = mt then Some sidecar
         else if Some n = eb then map_option fst (dict_get (nd_enc d) i)
         else if Some n = mb then dict_get (nd_meta d) i else dict_get (nd_temps d) n))"

lemma stage_pair:
  assumes w: "write_temp f i Enc_Temp raw d = Some (et, d1)" "write_temp f i Meta_Temp sidecar d1 = Some (mt, d2)"
    "copy_backup f i Enc_Backup (map_option fst (dict_get (nd_enc d2) i)) d2 = Some (eb, d3)"
    "copy_backup f i Meta_Backup (dict_get (nd_meta d3) i) d3 = Some (mb, d4)"
  shows "staged i raw sidecar d et mt eb mb d4"
proof -
  note 1 = write_temp_Some[OF w(1)] and 2 = write_temp_Some[OF w(2)]
  note 3 = copy_backup_Some[OF w(3)] and 4 = copy_backup_Some[OF w(4)]
  show ?thesis unfolding staged_def
  proof (intro conjI)
    have lab: "eb \<noteq> Some et" "eb \<noteq> Some mt" "mb \<noteq> Some et" "mb \<noteq> Some mt" "et \<noteq> mt"
      using 1(1) 2(1) 3(5) 4(5) by fastforce+
    have lab': "Some n \<noteq> eb" if "Some n = mb" for n
      using 3(5)[of n] 4(5)[of n] that by auto
    have old: "dict_get (nd_meta d3) i = dict_get (nd_meta d) i" "dict_get (nd_enc d2) i = dict_get (nd_enc d) i"
      using 1(3) 2(3) 3(3) by simp_all
    have t: "dict_get (nd_temps d4) n =
        (if Some n = mb then dict_get (nd_meta d) i else if Some n = eb then map_option fst (dict_get (nd_enc d) i)
         else if n = mt then Some sidecar else if n = et then Some raw else dict_get (nd_temps d) n)" for n
      unfolding 4(7) 3(7) old using 1(3) 2(3) by simp
    show "\<forall>n. dict_get (nd_temps d4) n =
        (if n = et then Some raw else if n = mt then Some sidecar else if Some n = eb then map_option fst (dict_get (nd_enc d) i)
         else if Some n = mb then dict_get (nd_meta d) i else dict_get (nd_temps d) n)"
    proof
      fix n
      consider "n = et" | "n = mt" | "Some n = eb" | "Some n = mb" | "n \<noteq> et" "n \<noteq> mt" "Some n \<noteq> eb" "Some n \<noteq> mb" by blast
      then show "dict_get (nd_temps d4) n =
        (if n = et then Some raw else if n = mt then Some sidecar else if Some n = eb then map_option fst (dict_get (nd_enc d) i)
         else if Some n = mb then dict_get (nd_meta d) i else dict_get (nd_temps d) n)"
        unfolding t using lab lab'[of n] by cases (auto simp del: split_paired_All split_paired_Ex)
    qed
    have "dict_get (nd_temps d) n = None" if "eb = Some n" for n
      using 3(6)[OF that] 1(3) 2(3) by (simp split: if_splits)
    moreover have "dict_get (nd_temps d) n = None" if "mb = Some n" for n
      using 4(6)[OF that] 3(7)[of n] lab lab'[of n] that 1(3) 2(3) by (auto split: if_splits)
    moreover have "dict_get (nd_temps d) mt = None" using 2(2) 1(3) by (simp split: if_splits)
    ultimately show "\<forall>n \<in> {et, mt} \<union> set_option eb \<union> set_option mb. dict_get (nd_temps d) n = None"
      using 1(2) by (auto simp del: split_paired_All)
  qed (use 1 2 3(1-5) 4(1-5) in auto)
qed

lemma write_pair_cases:
  assumes w: "write_pair f i stamp raw sidecar d = (ok, d')"
  obtains (early) ns d0 where "\<not> ok" "d' = cleanup_temps f ns d0" "nd_enc d0 = nd_enc d" "nd_meta d0 = nd_meta d"
      "nd_others d0 = nd_others d" "temps_ext d d0" "\<forall>n \<in> Some -` set ns. dict_get (nd_temps d) n = None"
      "\<forall>n. dict_get (nd_temps d0) n \<noteq> dict_get (nd_temps d) n \<longrightarrow> Some n \<in> set ns" "\<forall>n \<in> Some -` set ns. fst n = i"
  | (late) et mt eb mb d0 where "staged i raw sidecar d et mt eb mb d0" "replace_pair f i stamp et mt eb mb d0 = (ok, d')"
proof -
  note defs = temps_ext_def
  show ?thesis
  proof (cases "write_temp f i Enc_Temp raw d")
    case None
    then show ?thesis using w by (intro early[of "[]" d]) (auto simp: write_pair_def defs)
  next
    case (Some p)
    obtain et d1 where p: "p = (et, d1)" by (cases p)
    note 1 = write_temp_Some[OF Some[unfolded p]]
    show ?thesis
    proof (cases "write_temp f i Meta_Temp sidecar d1")
      case None
      then show ?thesis using w Some p 1
        by (intro early[of "[Some et, None]" d1]) (auto simp: write_pair_def defs split: if_splits)
    next
      case (Some q)
      note w1 = \<open>write_temp f i Enc_Temp raw d = Some p\<close>
      obtain mt d2 where q: "q = (mt, d2)" by (cases q)
      note 2 = write_temp_Some[OF Some[unfolded q]]
      show ?thesis
      proof (cases "copy_backup f i Enc_Backup (map_option fst (dict_get (nd_enc d2) i)) d2")
        case None
        then show ?thesis using w w1 Some p q 1 2
          by (intro early[of "[Some et, Some mt]" d2]) (auto simp: write_pair_def defs split: if_splits)
      next
        case (Some r)
        note w2 = \<open>write_temp f i Meta_Temp sidecar d1 = Some q\<close>
        obtain eb d3 where r: "r = (eb, d3)" by (cases r)
        note 3 = copy_backup_Some[OF Some[unfolded r]]
        note w3 = Some
        show ?thesis
        proof (cases "copy_backup f i Meta_Backup (dict_get (nd_meta d3) i) d3")
          case None
          have t: "dict_get (nd_temps d3) n = (if Some n = eb then map_option fst (dict_get (nd_enc d) i)
              else if n = mt then Some sidecar else if n = et then Some raw else dict_get (nd_temps d) n)" for n
            using 1(3) 2(3) by (simp add: 3(7))
          have fresh: "dict_get (nd_temps d) n = None \<and> fst n = i" if "n = et \<or> n = mt \<or> eb = Some n" for n
            using that 1 2 3(5,6)[of n] by (auto split: if_splits)
          then have "temps_ext d d3" unfolding defs by (auto simp: t split: if_splits)
          moreover have "(ok, d') = (False, cleanup_temps f [Some et, Some mt, eb, None] d3)"
            using w w1 w2 w3 p q r None by (simp add: write_pair_def)
          ultimately show ?thesis using fresh 1(3) 2(3) 3(2-4)
            by (intro early[of "[Some et, Some mt, eb, None]" d3]) (simp_all, auto simp: t split: if_splits)
        next
          case (Some u)
          obtain mb d4 where u: "u = (mb, d4)" by (cases u)
          have "staged i raw sidecar d et mt eb mb d4" using w1 w2 w3 Some unfolding p q r u by (rule stage_pair)
          then show ?thesis using w w1 w2 w3 Some p q r u by (intro late) (auto simp: write_pair_def)
        qed
      qed
    qed
  qed
qed

definition replaced :: "note_faults \<Rightarrow> string \<Rightarrow> string \<Rightarrow> bytes \<Rightarrow> bytes \<Rightarrow> note_dir \<Rightarrow> bool \<Rightarrow> note_dir \<Rightarrow> bool" where
  "replaced f i stamp raw sidecar d ok d' \<longleftrightarrow>
     (\<forall>j. j \<noteq> i \<longrightarrow> dict_get (nd_enc d') j = dict_get (nd_enc d) j \<and> dict_get (nd_meta d') j = dict_get (nd_meta d) j) \<and>
     (if ok then dict_get (nd_enc d') i = Some (raw, stamp) \<and> dict_get (nd_meta d') i = Some sidecar
      else dict_get (nd_meta d') i = dict_get (nd_meta d) i \<and>
        (map_option fst (dict_get (nd_enc d') i) = map_option fst (dict_get (nd_enc d) i) \<or>
         {Enc_Backup, Meta_Temp} \<subseteq> nf_move f \<and> dict_get (nd_enc d') i = Some (raw, stamp) \<and>
         (\<forall>bs s. dict_get (nd_enc d) i = Some (bs, s) \<longrightarrow> (\<exists>t. dict_get (nd_temps d') (i, Enc_Backup, t) = Some bs)))) \<and>
     temps_ext d d' \<and> nd_others d' = nd_others d \<and>
     (nf_keep f = {} \<and> nf_move f \<inter> {Enc_Backup, Meta_Backup} = {} \<longrightarrow>
        (\<forall>n. dict_get (nd_temps d') n = dict_get (nd_temps d) n))"

lemma staged_get:
  assumes "staged i raw sidecar d et mt eb mb d0"
  shows "nd_enc d0 = nd_enc d" "nd_meta d0 = nd_meta d" "nd_others d0 = nd_others d"
    "dict_get (nd_temps d0) et = Some raw" "dict_get (nd_temps d0) mt = Some sidecar" "et \<noteq> mt"
    "eb = None \<longleftrightarrow> dict_get (nd_enc d) i = None" "mb = None \<longleftrightarrow> dict_get (nd_meta d) i = None"
    "eb = Some n \<Longrightarrow> dict_get (nd_temps d0) n = map_option fst (dict_get (nd_enc d) i) \<and> n \<noteq> et \<and> n \<noteq> mt \<and> (\<exists>t. n = (i, Enc_Backup, t))"
    "mb = Some m \<Longrightarrow> dict_get (nd_temps d0) m = dict_get (nd_meta d) i \<and> m \<noteq> et \<and> m \<noteq> mt \<and> eb \<noteq> Some m \<and> (\<exists>t. m = (i, Meta_Backup, t))"
    "k \<noteq> et \<Longrightarrow> k \<noteq> mt \<Longrightarrow> Some k \<noteq> eb \<Longrightarrow> Some k \<noteq> mb \<Longrightarrow> dict_get (nd_temps d0) k = dict_get (nd_temps d) k"
    "dict_get (nd_temps d) k = Some v \<Longrightarrow> k \<noteq> et \<and> k \<noteq> mt \<and> Some k \<noteq> eb \<and> Some k \<noteq> mb"
  using assms unfolding staged_def by (force simp del: split_paired_All split_paired_Ex)+

lemma replace_success:
  assumes s: "staged i raw sidecar d et mt eb mb d0" and r: "replace_pair f i stamp et mt eb mb d0 = (True, d')"
  shows "replaced f i stamp raw sidecar d True d'"
proof -
  note g = staged_get[OF s]
  have d': "d' = cleanup_temps f [eb, mb] (replace_meta i mt (replace_enc i stamp et d0))"
    and "Enc_Temp \<notin> nf_move f" "Meta_Temp \<notin> nf_move f" using r by (auto simp: replace_pair_def Let_def split: if_splits)
  have e: "nd_enc d' = dict_set i (raw, stamp) (nd_enc d)" "nd_meta d' = dict_set i sidecar (nd_meta d)" "nd_others d' = nd_others d"
    using g(1-6) by (simp_all add: d' replace_meta_def replace_enc_def)
  have t: "dict_get (nd_temps d') n = (if Some n \<in> {eb, mb} \<and> fst (snd n) \<notin> nf_keep f \<or> n = et \<or> n = mt then None
      else dict_get (nd_temps d0) n)" for n
    using g(4,5,6) by (auto simp: d' replace_meta_def replace_enc_def cleanup_temps_get)
  have "temps_ext d d'" unfolding temps_ext_def using g(11,12) by (simp add: t del: split_paired_All)
  moreover have "dict_get (nd_temps d') n = dict_get (nd_temps d) n" if "nf_keep f = {}" for n
    using that g(11,12)[of n] by (cases "dict_get (nd_temps d) n") (auto simp: t)
  ultimately show ?thesis using e by (simp add: replaced_def)
qed

lemma roll_back_leaves:
  fixes d d1 :: note_dir and f :: note_faults and stamp :: string
  assumes m: "nd_meta d1 = nd_meta d" and e: "\<And>j. j \<noteq> i \<Longrightarrow> dict_get (nd_enc d1) j = dict_get (nd_enc d) j"
    and eb: "eb = None \<longleftrightarrow> dict_get (nd_enc d) i = None" and mb: "mb = None \<longleftrightarrow> dict_get (nd_meta d) i = None"
    and te: "\<And>n. eb = Some n \<Longrightarrow> dict_get (nd_temps d1) n = map_option fst (dict_get (nd_enc d) i)"
    and tm: "\<And>n. mb = Some n \<Longrightarrow> dict_get (nd_temps d1) n = dict_get (nd_meta d) i"
    and ne: "\<And>n. mb = Some n \<Longrightarrow> eb \<noteq> Some n" and nu: "\<And>n. eb = Some n \<or> mb = Some n \<Longrightarrow> Some n \<notin> set unused"
  defines "d' \<equiv> roll_back f i stamp unused eb mb d1"
  shows "j \<noteq> i \<Longrightarrow> dict_get (nd_enc d') j = dict_get (nd_enc d) j" "dict_get (nd_meta d') k = dict_get (nd_meta d) k"
    "nd_others d' = nd_others d1"
    "if Enc_Backup \<in> nf_move f then dict_get (nd_enc d') i = dict_get (nd_enc d1) i
     else map_option fst (dict_get (nd_enc d') i) = map_option fst (dict_get (nd_enc d) i)"
    "Enc_Backup \<in> nf_move f \<Longrightarrow> eb = Some n \<Longrightarrow> dict_get (nd_temps d') n = map_option fst (dict_get (nd_enc d) i)"
    "Some n \<notin> set unused \<Longrightarrow> Some n \<noteq> eb \<Longrightarrow> Some n \<noteq> mb \<Longrightarrow> dict_get (nd_temps d') n = dict_get (nd_temps d1) n"
    "nf_keep f = {} \<Longrightarrow> nf_move f \<inter> {Enc_Backup, Meta_Backup} = {} \<Longrightarrow> Some n \<in> set (eb # mb # unused) \<Longrightarrow>
       dict_get (nd_temps d') n = None"
proof -
  obtain ok1 d2 where 2: "restore_enc f i stamp eb d1 = (ok1, d2)" by fastforce
  obtain ok2 d3 where 3: "restore_meta f i mb d2 = (ok2, d3)" by fastforce
  have d': "d' = (if ok1 \<and> ok2 then cleanup_temps f [eb, mb] (cleanup_temps f unused d3) else cleanup_temps f unused d3)"
    by (simp add: d'_def roll_back_def restore_pair_def 2 3 Let_def)
  have e2: "j \<noteq> i \<Longrightarrow> dict_get (nd_enc d2) j = dict_get (nd_enc d) j" "nd_meta d2 = nd_meta d" "nd_others d2 = nd_others d1"
    "if Enc_Backup \<in> nf_move f then dict_get (nd_enc d2) i = dict_get (nd_enc d1) i
     else ok1 \<and> map_option fst (dict_get (nd_enc d2) i) = map_option fst (dict_get (nd_enc d) i)"
    "dict_get (nd_temps d2) n = (if Some n = eb \<and> Enc_Backup \<notin> nf_move f then None else dict_get (nd_temps d1) n)"
    "eb \<noteq> None \<Longrightarrow> Enc_Backup \<in> nf_move f \<Longrightarrow> \<not> ok1" for j n
    using 2 m e[of j] eb te by (auto simp: restore_enc_def replace_enc_def split: option.splits if_splits)
  have tm2: "dict_get (nd_temps d2) n = dict_get (nd_meta d) i" if "mb = Some n" for n
    using that tm[of n] ne[of n] by (auto simp: e2(5))
  have e3: "nd_enc d3 = nd_enc d2" "dict_get (nd_meta d3) k = dict_get (nd_meta d) k" "nd_others d3 = nd_others d1"
    "Meta_Backup \<notin> nf_move f \<Longrightarrow> ok2"
    "dict_get (nd_temps d3) n = (if Some n = mb \<and> Meta_Backup \<notin> nf_move f then None else dict_get (nd_temps d2) n)" for k n
    using 3 mb tm2 e2(2,3) by (auto simp: restore_meta_def replace_meta_def split: option.splits if_splits)
  show "j \<noteq> i \<Longrightarrow> dict_get (nd_enc d') j = dict_get (nd_enc d) j" "dict_get (nd_meta d') k = dict_get (nd_meta d) k"
    "nd_others d' = nd_others d1"
    "if Enc_Backup \<in> nf_move f then dict_get (nd_enc d') i = dict_get (nd_enc d1) i
     else map_option fst (dict_get (nd_enc d') i) = map_option fst (dict_get (nd_enc d) i)"
    using e2 e3 by (auto simp: d')
  show "Enc_Backup \<in> nf_move f \<Longrightarrow> eb = Some n \<Longrightarrow> dict_get (nd_temps d') n = map_option fst (dict_get (nd_enc d) i)"
    using te[of n] nu[of n] ne[of n] e2(6) by (auto simp: d' cleanup_temps_get e3(5) e2(5))
  show "Some n \<notin> set unused \<Longrightarrow> Some n \<noteq> eb \<Longrightarrow> Some n \<noteq> mb \<Longrightarrow> dict_get (nd_temps d') n = dict_get (nd_temps d1) n"
    by (auto simp: d' cleanup_temps_get e3(5) e2(5))
  show "nf_keep f = {} \<Longrightarrow> nf_move f \<inter> {Enc_Backup, Meta_Backup} = {} \<Longrightarrow> Some n \<in> set (eb # mb # unused) \<Longrightarrow>
       dict_get (nd_temps d') n = None"
    using e2(4) e3(4) by (auto simp: d' cleanup_temps_get)
qed

lemma replace_failure:
  assumes s: "staged i raw sidecar d et mt eb mb d0" and r: "replace_pair f i stamp et mt eb mb d0 = (False, d')"
  shows "replaced f i stamp raw sidecar d False d'"
proof -
  note g = staged_get[OF s]
  obtain unused d1 where rb: "d' = roll_back f i stamp unused eb mb d1" and u: "set unused \<subseteq> {Some et, Some mt, None}"
    and d1: "unused = [Some et, Some mt] \<and> d1 = d0 \<or> Meta_Temp \<in> nf_move f \<and> unused = [None, Some mt] \<and> d1 = replace_enc i stamp et d0"
    using r by (auto simp: replace_pair_def Let_def split: if_splits)
  have e1: "nd_meta d1 = nd_meta d" "nd_others d1 = nd_others d"
    "j \<noteq> i \<Longrightarrow> dict_get (nd_enc d1) j = dict_get (nd_enc d) j"
    "dict_get (nd_enc d1) i = dict_get (nd_enc d) i \<or> Meta_Temp \<in> nf_move f \<and> dict_get (nd_enc d1) i = Some (raw, stamp)"
    "n \<noteq> et \<Longrightarrow> dict_get (nd_temps d1) n = dict_get (nd_temps d0) n"
    "Some et \<notin> set unused \<Longrightarrow> dict_get (nd_temps d1) et = None" "Some mt \<in> set unused" for j n
    using d1 g(1-4) by (auto simp: replace_enc_def)
  note l = roll_back_leaves[where ?d1.0 = d1 and d = d and i = i and eb = eb and mb = mb and f = f and stamp = stamp and unused = unused,
    folded rb]
  have l: "j \<noteq> i \<Longrightarrow> dict_get (nd_enc d') j = dict_get (nd_enc d) j" "dict_get (nd_meta d') k = dict_get (nd_meta d) k"
    "nd_others d' = nd_others d1"
    "if Enc_Backup \<in> nf_move f then dict_get (nd_enc d') i = dict_get (nd_enc d1) i
     else map_option fst (dict_get (nd_enc d') i) = map_option fst (dict_get (nd_enc d) i)"
    "Enc_Backup \<in> nf_move f \<Longrightarrow> eb = Some n \<Longrightarrow> dict_get (nd_temps d') n = map_option fst (dict_get (nd_enc d) i)"
    "Some n \<notin> set unused \<Longrightarrow> Some n \<noteq> eb \<Longrightarrow> Some n \<noteq> mb \<Longrightarrow> dict_get (nd_temps d') n = dict_get (nd_temps d1) n"
    "nf_keep f = {} \<Longrightarrow> nf_move f \<inter> {Enc_Backup, Meta_Backup} = {} \<Longrightarrow> Some n \<in> set (eb # mb # unused) \<Longrightarrow>
       dict_get (nd_temps d') n = None" for j k n
    using g(7-10) e1 u by (intro l; auto simp del: split_paired_All split_paired_Ex)+
  have keep: "dict_get (nd_temps d') n = dict_get (nd_temps d) n" if "n \<noteq> et" "n \<noteq> mt" "Some n \<noteq> eb" "Some n \<noteq> mb" for n
    using that l(6)[of n] e1(5)[of n] g(11)[of n] u by auto
  have "temps_ext d d'" unfolding temps_ext_def using keep g(12) by (metis (no_types))
  moreover have "dict_get (nd_temps d') n = dict_get (nd_temps d) n"
    if "nf_keep f = {}" "nf_move f \<inter> {Enc_Backup, Meta_Backup} = {}" for n
  proof (cases "n \<noteq> et \<and> n \<noteq> mt \<and> Some n \<noteq> eb \<and> Some n \<noteq> mb")
    case True
    then show ?thesis using keep by blast
  next
    case False
    moreover have "Some et \<noteq> eb" "Some et \<noteq> mb" using g(9)[of et] g(10)[of et] by auto
    ultimately have "dict_get (nd_temps d') n = None"
      using l(7)[OF that, of n] e1(6,7) l(6)[of n] by (cases "Some et \<in> set unused") auto
    then show ?thesis using g(12)[of n] \<open>\<not> (n \<noteq> et \<and> _)\<close> by (cases "dict_get (nd_temps d) n") auto
  qed
  moreover have "\<exists>t. dict_get (nd_temps d') (i, Enc_Backup, t) = Some bs" if mv: "Enc_Backup \<in> nf_move f" and old: "dict_get (nd_enc d) i = Some (bs, st)" for bs st
  proof -
    obtain n where n: "eb = Some n" using g(7) old by auto
    then show ?thesis using l(5)[OF mv n] g(9)[OF n] old by auto
  qed
  ultimately show ?thesis using l(1-4) e1(1,2,4) unfolding replaced_def by (auto split: if_splits)
qed

lemma write_pair_replaced:
  assumes w: "write_pair f i stamp raw sidecar d = (ok, d')"
  shows "replaced f i stamp raw sidecar d ok d'"
  using w
proof (cases rule: write_pair_cases)
  case (early ns d0)
  have t: "dict_get (nd_temps d') n = dict_get (nd_temps d) n" if "nf_keep f = {}" for n
    using that early(7,8)[rule_format, of n] by (cases "Some n \<in> set ns") (auto simp: early(2) cleanup_temps_get simp del: split_paired_All)
  moreover have "temps_ext d d'"
    using early(6,7) by (auto simp: temps_ext_def early(2) cleanup_temps_get simp del: split_paired_All)
  ultimately show ?thesis using early(1-5) by (simp add: replaced_def)
next
  case (late et mt eb mb d0)
  then show ?thesis by (cases ok) (auto intro: replace_success replace_failure)
qed

lemma note_record_error: "note_record loads i d = Inl e \<Longrightarrow> e = Note_Undecodable"
proof -
  have "read_note_meta loads raw = Inl e \<Longrightarrow> e = Note_Undecodable" for raw
    by (cases "loads raw"; cases "the (loads raw)") (auto simp: read_note_meta_def split: if_splits)
  then show "note_record loads i d = Inl e \<Longrightarrow> e = Note_Undecodable"
    by (auto simp: note_record_def Let_def split: option.splits sum.splits)
qed

lemma save_note_cases:
  assumes "save_note env c r d = (res, d')"
  obtains (refused) e where "res = Inl e" "d' = d" "e \<noteq> Note_Error 500 ''internal_error'' None"
      "e = Note_Drawing \<Longrightarrow> draw_id (nc_draws c) d = Inl Note_Drawing"
  | (written) t raw i is_new created ok where
      "check_save_request r = Inr (t, raw)" "target_note r (nc_draws c) d = Inr (i, is_new)"
      "kept_created env (nc_now c) i is_new d = Inr created"
      "check_note_storage (ne_policy env) i (length raw) (\<not> is_new) d = Inr ()"
      "write_pair (nc_faults c) i (nc_stamp c) raw (ne_dumps env (sidecar_json
         \<lparr>ns_id = i, ns_title = t, ns_created = created, ns_updated = nc_now c, ns_size = length raw\<rparr> (session_mark env r))) d = (ok, d')"
      "res = (if ok then Inr (\<lparr>ns_id = i, ns_title = t, ns_created = created, ns_updated = nc_now c, ns_size = length raw\<rparr>, is_new)
              else Inl (Note_Error 500 ''internal_error'' None))"
proof -
  have draw: "draw_id ts d = Inl e \<Longrightarrow> e \<noteq> Note_Error 500 ''internal_error'' None" for ts e
    by (induction ts d rule: draw_id.induct) (auto simp: resolve_note_def split: if_splits sum.splits)
  have e1: "check_save_request r = Inl e \<Longrightarrow> e \<notin> {Note_Error 500 ''internal_error'' None, Note_Drawing}" for e
    by (auto simp: check_save_request_def check_title_def check_note_data_def Let_def split: if_splits sum.splits option.splits)
  have e2: "target_note r ts d = Inl e \<Longrightarrow> e \<noteq> Note_Error 500 ''internal_error'' None \<and> (e = Note_Drawing \<longrightarrow> draw_id ts d = Inl Note_Drawing)" for ts e
    by (auto simp: target_note_def resolve_note_def draw split: if_splits sum.splits)
  have e3: "kept_created env now i n d = Inl e \<Longrightarrow> e \<notin> {Note_Error 500 ''internal_error'' None, Note_Drawing}" for now i n e
    using note_record_error[of "ne_loads env" i d] by (auto simp: kept_created_def split: if_splits sum.splits)
  have e4: "check_note_storage p i n b d = Inl e \<Longrightarrow> e \<notin> {Note_Error 500 ''internal_error'' None, Note_Drawing}" for p i n b e
    by (auto simp: check_note_storage_def Let_def split: if_splits)
  show ?thesis
  proof (cases "check_save_request r")
    case (Inl e)
    then show ?thesis using assms e1[OF Inl] by (intro refused[of e]) (auto simp: save_note_def)
  next
    case (Inr p)
    obtain t raw where 1: "check_save_request r = Inr (t, raw)" using Inr by (cases p) auto
    show ?thesis
    proof (cases "target_note r (nc_draws c) d")
      case (Inl e)
      then show ?thesis using assms e2 1 by (intro refused[of e]) (auto simp: save_note_def)
    next
      case (Inr p)
      obtain i is_new where 2: "target_note r (nc_draws c) d = Inr (i, is_new)" using Inr by (cases p) auto
      show ?thesis
      proof (cases "kept_created env (nc_now c) i is_new d")
        case (Inl e)
        then show ?thesis using assms e3[OF Inl] 1 2 by (intro refused[of e]) (auto simp: save_note_def)
      next
        case 3: (Inr created)
        show ?thesis
        proof (cases "check_note_storage (ne_policy env) i (length raw) (\<not> is_new) d")
          case (Inl e)
          then show ?thesis using assms e4[OF Inl] 1 2 3 by (intro refused[of e]) (auto simp: save_note_def)
        next
          case (Inr u)
          let ?s = "\<lparr>ns_id = i, ns_title = t, ns_created = created, ns_updated = nc_now c, ns_size = length raw\<rparr>"
          obtain ok d1 where w: "write_pair (nc_faults c) i (nc_stamp c) raw (ne_dumps env (sidecar_json ?s (session_mark env r))) d = (ok, d1)"
            by fastforce
          with assms 1 2 3 Inr have "d1 = d'" "res = (if ok then Inr (?s, is_new) else Inl (Note_Error 500 ''internal_error'' None))"
            by (simp_all add: save_note_def)
          then show ?thesis using 1 2 3 Inr w by (intro written[of t raw i is_new created ok]) simp_all
        qed
      qed
    qed
  qed
qed

lemma target_note_facts:
  assumes "check_save_request r = Inr (t, raw)" "target_note r ts d = Inr (i, is_new)"
  shows "is_valid_note_id i" "is_new \<longleftrightarrow> dict_get (nd_enc d) i = None"
    "b64decode_strict (sq_data r) = Some raw" "MIN_NOTE_BLOB \<le> length raw" "length raw \<le> MAX_NOTE_BLOB"
    "sq_id r \<noteq> [] \<Longrightarrow> i = sq_id r" "t = py_strip (sq_title r)"
proof -
  have draw: "draw_id ts d = Inr i \<Longrightarrow> is_valid_note_id i \<and> dict_get (nd_enc d) i = None"
    by (induction ts d rule: draw_id.induct) (auto simp: resolve_note_def split: if_splits)
  show "is_valid_note_id i" "is_new \<longleftrightarrow> dict_get (nd_enc d) i = None" "sq_id r \<noteq> [] \<Longrightarrow> i = sq_id r"
    using assms(2) draw by (cases "dict_get (nd_enc d) (sq_id r)"; auto simp: target_note_def resolve_note_def split: if_splits sum.splits)+
  show "b64decode_strict (sq_data r) = Some raw" "MIN_NOTE_BLOB \<le> length raw" "length raw \<le> MAX_NOTE_BLOB" "t = py_strip (sq_title r)"
    using assms(1) by (auto simp: check_save_request_def check_note_data_def check_title_def Let_def split: if_splits sum.splits option.splits)
qed

subsection \<open>A demonstration service\<close>

definition demo_env :: note_env where
  "demo_env = \<lparr>ne_policy = \<lparr>np_max_bytes = Some 60, np_max_notes = Some 2, np_max_listed = 10\<rparr>, ne_loads = (\<lambda>_. None),
     ne_dumps = (\<lambda>_. [0]), ne_session_exists = None\<rparr>"

definition demo_a :: string where "demo_a = replicate 32 (CHR ''a'')"
definition demo_b :: string where "demo_b = replicate 32 (CHR ''b'')"

lemma demo_ids [simp]:
  "is_valid_note_id demo_a" "is_valid_note_id demo_b" "demo_a \<noteq> []" "demo_b \<noteq> []" "demo_a \<noteq> demo_b" "demo_b \<noteq> demo_a"
  by (simp_all add: demo_a_def demo_b_def is_valid_note_id_def is_lower_hex_def is_digit_def numeral_eq_Suc list_all_iff)

definition demo_faults :: "temp_label set \<Rightarrow> note_faults" where
  "demo_faults ls = \<lparr>nf_write = {}, nf_move = ls, nf_keep = {}, nf_tokens = (\<lambda>_. [''t''])\<rparr>"

definition demo_call :: "temp_label set \<Rightarrow> note_call" where
  "demo_call ls = \<lparr>nc_now = ''2'', nc_stamp = ''2'', nc_draws = [demo_a, demo_b], nc_faults = demo_faults ls\<rparr>"

definition demo_request :: "string \<Rightarrow> save_request" where
  "demo_request i = \<lparr>sq_title = '' n '', sq_data = b64encode (replicate 28 1), sq_id = i, sq_session = None, sq_create_if_missing = False\<rparr>"

definition demo_dir :: note_dir where
  "demo_dir = \<lparr>nd_enc = [(demo_a, (replicate 30 7, ''1''))], nd_meta = [], nd_temps = [], nd_others = []\<rparr>"

lemma demo_request_ok [simp]: "check_save_request (demo_request i) = (if i \<noteq> [] \<and> \<not> is_valid_note_id i
    then Inl (Note_Error 400 ''invalid_field'' (Some ''id'')) else Inr (''n'', replicate 28 1))"
  by (simp add: check_save_request_def demo_request_def check_title_def check_note_data_def py_strip_def strip_by_def is_space_def
      MAX_NOTE_TITLE_CHARS_def MIN_NOTE_BLOB_def MAX_NOTE_BLOB_def)

lemma demo_request_fields [simp]:
  "sq_id (demo_request i) = i" "sq_session (demo_request i) = None" "\<not> sq_create_if_missing (demo_request i)"
  by (simp_all add: demo_request_def)

lemma first_token [simp]: "dict_get temps (i, l, t) = None \<Longrightarrow> free_token TEMP_ATTEMPTS i l (t # ts) temps = Some (i, l, t)"
  by (simp add: TEMP_ATTEMPTS_def numeral_eq_Suc)

lemmas demo_steps = save_note_def target_note_def resolve_note_def kept_created_def check_note_storage_def scan_usage_def
  write_pair_def write_temp_def copy_backup_def replace_pair_def replace_enc_def replace_meta_def roll_back_def restore_pair_def
  restore_enc_def restore_meta_def demo_call_def demo_faults_def demo_dir_def demo_env_def Let_def

lemma demo_failed_update:
  "save_note demo_env (demo_call {Enc_Backup, Meta_Temp}) (demo_request demo_a) demo_dir =
     (Inl (Note_Error 500 ''internal_error'' None),
      demo_dir\<lparr>nd_enc := [(demo_a, (replicate 28 1, ''2''))],
        nd_temps := [((demo_a, Enc_Backup, ''t''), replicate 30 7)]\<rparr>)"
  by (simp add: demo_steps)

lemma demo_create:
  "save_note demo_env (demo_call {}) (demo_request []) demo_dir =
     (Inr (\<lparr>ns_id = demo_b, ns_title = ''n'', ns_created = ''2'', ns_updated = ''2'', ns_size = 28\<rparr>, True),
      demo_dir\<lparr>nd_enc := nd_enc demo_dir @ [(demo_b, (replicate 28 1, ''2''))],
        nd_meta := [(demo_b, [0])]\<rparr>)"
  by (simp add: demo_steps)

subsection \<open>Properties\<close>

definition backed_up :: "note_faults \<Rightarrow> string \<Rightarrow> note_dir \<Rightarrow> note_dir \<Rightarrow> bool" where
  "backed_up f i d d' \<longleftrightarrow>
     {Enc_Backup, Meta_Temp} \<subseteq> nf_move f \<and> snd (note_files i d') = snd (note_files i d) \<and>
     (\<forall>bs. fst (note_files i d) = Some bs \<longrightarrow> (\<exists>t. dict_get (nd_temps d') (i, Enc_Backup, t) = Some bs))"

text \<open>
  C33. Saving is all or nothing for a reader. A success replaces exactly the ciphertext and the sidecar of the note it
  returns. A refusal changes nothing. A failed save changes no sidecar, and no ciphertext unless replacing the sidecar and
  restoring the ciphertext both fail: then the old ciphertext is kept in a backup file. Temporary files of others are never
  touched, and none is left when removals and restorations work.
\<close>

theorem save_note_atomic:
  assumes "save_note env c r d = (res, d')"
  defines "f \<equiv> nc_faults c"
  shows "(case res of
      Inr (s, created) \<Rightarrow>
        created = (dict_get (nd_enc d) (ns_id s) = None) \<and>
        (\<exists>raw. b64decode_strict (sq_data r) = Some raw \<and> dict_get (nd_enc d') (ns_id s) = Some (raw, nc_stamp c)) \<and>
        dict_get (nd_meta d') (ns_id s) = Some (ne_dumps env (sidecar_json s (session_mark env r))) \<and>
        (\<forall>j. j \<noteq> ns_id s \<longrightarrow> note_files j d' = note_files j d)
    | Inl e \<Rightarrow>
        (e \<noteq> Note_Error 500 ''internal_error'' None \<longrightarrow> d' = d) \<and>
        (\<forall>j. note_files j d' = note_files j d \<or> backed_up f j d d')) \<and>
    temps_ext d d' \<and> nd_others d' = nd_others d \<and>
    (nf_keep f = {} \<and> nf_move f \<inter> {Enc_Backup, Meta_Backup} = {} \<longrightarrow>
       (\<forall>n. dict_get (nd_temps d') n = dict_get (nd_temps d) n))"
  using assms(1)
proof (cases rule: save_note_cases)
  case (refused e)
  then show ?thesis by (simp add: temps_ext_def)
next
  case (written t raw i is_new created ok)
  note a = target_note_facts[OF written(1,2)] and b = write_pair_replaced[OF written(5), folded f_def, unfolded replaced_def]
  show ?thesis
  proof (cases ok)
    case True
    then show ?thesis using a b written(6) by (simp add: note_files_def)
  next
    case False
    have "note_files j d' = note_files j d \<or> backed_up f j d d'" for j
      using b False by (cases "j = i") (auto simp: note_files_def backed_up_def)
    then show ?thesis using b False written(6) by simp
  qed
qed

theorem save_note_atomic_witness:
  "(let d' = snd (save_note demo_env (demo_call {Enc_Backup, Meta_Temp}) (demo_request demo_a) demo_dir)
    in backed_up (demo_faults {Enc_Backup, Meta_Temp}) demo_a demo_dir d')"
proof -
  have "note_files demo_a (snd (save_note demo_env (demo_call {Enc_Backup, Meta_Temp}) (demo_request demo_a) demo_dir))
      \<noteq> note_files demo_a demo_dir"
    unfolding demo_failed_update by code_simp
  then show ?thesis using save_note_atomic[OF demo_failed_update] unfolding demo_failed_update
    by (auto simp: demo_call_def)
qed

subsection \<open>The aggregate quota\<close>

definition within_quota :: "note_policy \<Rightarrow> note_dir \<Rightarrow> bool" where
  "within_quota pol d \<longleftrightarrow> dict_ok (nd_enc d) \<and>
     (\<forall>m \<in> set_option (np_max_notes pol). nu_count (current_note_usage d) \<le> m) \<and>
     (\<forall>m \<in> set_option (np_max_bytes pol). nu_bytes (current_note_usage d) \<le> m)"

lemma scan_usage_but: "scan_usage (Some i) d = scan_usage None (d\<lparr>nd_enc := filter (\<lambda>x. fst x \<noteq> i) (nd_enc d)\<rparr>)"
  by (auto simp: scan_usage_def Let_def intro!: arg_cong[of _ _ sum_list] arg_cong[of _ _ "map _"] arg_cong[of _ _ length] filter_cong)

lemma scan_usage_split:
  assumes "dict_ok (nd_enc d)" "is_valid_note_id i"
  shows "nu_count (scan_usage None d) = nu_count (scan_usage (Some i) d) + (if dict_get (nd_enc d) i = None then 0 else 1)"
    "nu_bytes (scan_usage None d) = nu_bytes (scan_usage (Some i) d) +
       (case dict_get (nd_enc d) i of None \<Rightarrow> 0 | Some (bs, _) \<Rightarrow> length bs)"
proof -
  let ?n = "\<lambda>e. filter (\<lambda>(j, _). is_valid_note_id j) e" and ?s = "\<lambda>e. filter (\<lambda>(j, _). is_valid_note_id j \<and> Some j \<noteq> Some i) e"
  have "dict_ok e \<Longrightarrow> length (?n e) = length (?s e) + (if dict_get e i = None then 0 else 1) \<and>
      sum_list (map (\<lambda>(_, bs, _). length bs) (?n e)) = sum_list (map (\<lambda>(_, bs, _). length bs) (?s e)) +
        (case dict_get e i of None \<Rightarrow> 0 | Some (bs, _) \<Rightarrow> length bs)" for e :: "(string, bytes \<times> string) dict"
  proof (induction e)
    case (Cons x e)
    obtain j bs st where x: "x = (j, bs, st)" by (cases x)
    have "j = i \<Longrightarrow> dict_get e i = None" using Cons.prems x by (auto simp: map_of_eq_None_iff)
    then show ?case using Cons assms(2) x by (cases "j = i") auto
  qed simp
  from this[OF assms(1)] show "nu_count (scan_usage None d) = nu_count (scan_usage (Some i) d) + (if dict_get (nd_enc d) i = None then 0 else 1)"
    "nu_bytes (scan_usage None d) = nu_bytes (scan_usage (Some i) d) +
       (case dict_get (nd_enc d) i of None \<Rightarrow> 0 | Some (bs, _) \<Rightarrow> length bs)"
    by (simp_all add: scan_usage_def Let_def)
qed

lemma usage_filter:
  "nu_count (scan_usage x (d\<lparr>nd_enc := filter Q (nd_enc d)\<rparr>)) \<le> nu_count (scan_usage x d)"
  "nu_bytes (scan_usage x (d\<lparr>nd_enc := filter Q (nd_enc d)\<rparr>)) \<le> nu_bytes (scan_usage x d)"
proof -
  have "length (filter P (filter Q e)) \<le> length (filter P e)" "sum_list (map g (filter P (filter Q e))) \<le> sum_list (map g (filter P e))"
    for P :: "string \<times> bytes \<times> string \<Rightarrow> bool" and e and g :: "_ \<Rightarrow> nat"
    by (induction e) auto
  then show "nu_count (scan_usage x (d\<lparr>nd_enc := filter Q (nd_enc d)\<rparr>)) \<le> nu_count (scan_usage x d)"
    "nu_bytes (scan_usage x (d\<lparr>nd_enc := filter Q (nd_enc d)\<rparr>)) \<le> nu_bytes (scan_usage x d)"
    by (auto simp: scan_usage_def Let_def simp del: filter_filter)
qed

lemma within_quota_filter: "within_quota pol d \<Longrightarrow> nd_enc d' = filter Q (nd_enc d) \<Longrightarrow> within_quota pol d'"
proof -
  assume w: "within_quota pol d" and e: "nd_enc d' = filter Q (nd_enc d)"
  have "scan_usage None d' = scan_usage None (d\<lparr>nd_enc := filter Q (nd_enc d)\<rparr>)" using e by (simp add: scan_usage_def)
  then show ?thesis using w e usage_filter[where x = None and d = d and Q = Q] by (force simp: within_quota_def current_note_usage_def)
qed

lemma write_pair_enc:
  assumes "write_pair f i stamp raw sidecar d = (ok, d')"
  shows "filter (\<lambda>x. fst x \<noteq> i) (nd_enc d') = filter (\<lambda>x. fst x \<noteq> i) (nd_enc d)" "dict_ok (nd_enc d) \<Longrightarrow> dict_ok (nd_enc d')"
proof -
  have r: "filter (\<lambda>x. fst x \<noteq> i) (nd_enc (replace_enc i stamp n d)) = filter (\<lambda>x. fst x \<noteq> i) (nd_enc d) \<and>
      (dict_ok (nd_enc d) \<longrightarrow> dict_ok (nd_enc (replace_enc i stamp n d)))" for n d
    by (auto simp: replace_enc_def filter_dict_set split: option.splits)
  have e: "restore_enc f i stamp b d = (k, d') \<Longrightarrow> filter (\<lambda>x. fst x \<noteq> i) (nd_enc d') = filter (\<lambda>x. fst x \<noteq> i) (nd_enc d) \<and>
      (dict_ok (nd_enc d) \<longrightarrow> dict_ok (nd_enc d'))" for b d k d'
    using r by (auto simp: restore_enc_def dict_del_filter split: option.splits if_splits)
  have m: "restore_meta f i b d = (k, d') \<Longrightarrow> nd_enc d' = nd_enc d" for b d k d'
    by (auto simp: restore_meta_def replace_meta_def split: option.splits if_splits)
  have b: "filter (\<lambda>x. fst x \<noteq> i) (nd_enc (roll_back f i stamp us eb mb d)) = filter (\<lambda>x. fst x \<noteq> i) (nd_enc d) \<and>
      (dict_ok (nd_enc d) \<longrightarrow> dict_ok (nd_enc (roll_back f i stamp us eb mb d)))" for us eb mb d
    using e m by (auto simp: roll_back_def restore_pair_def Let_def split: prod.splits)
  have "filter (\<lambda>x. fst x \<noteq> i) (nd_enc d') = filter (\<lambda>x. fst x \<noteq> i) (nd_enc d) \<and> (dict_ok (nd_enc d) \<longrightarrow> dict_ok (nd_enc d'))"
    using assms
  proof (cases rule: write_pair_cases)
    case (early ns d0)
    then show ?thesis by simp
  next
    case (late et mt eb mb d0)
    have "nd_enc (replace_meta i mt x) = nd_enc x" for x by (auto simp: replace_meta_def split: option.splits)
    then show ?thesis using late(2) b r[of et d0] r[of et d0] b[of _ _ _ "replace_enc i stamp et d0"] staged_get(1)[OF late(1)]
      by (auto simp: replace_pair_def Let_def simp del: split_paired_All split: if_splits)
  qed
  then show "filter (\<lambda>x. fst x \<noteq> i) (nd_enc d') = filter (\<lambda>x. fst x \<noteq> i) (nd_enc d)" "dict_ok (nd_enc d) \<Longrightarrow> dict_ok (nd_enc d')" by auto
qed

datatype note_op = Save_Op note_call save_request | Delete_Op bool bool string | Clear_Op "note_entry \<Rightarrow> os_failure option"

fun note_step :: "note_env \<Rightarrow> note_op \<Rightarrow> note_dir \<Rightarrow> note_dir" where
  "note_step env (Save_Op c r) d = snd (save_note env c r d)"
| "note_step env (Delete_Op x y i) d = snd (delete_note x y i d)"
| "note_step env (Clear_Op fault) d = snd (clear_notes fault d)"

lemma remove_entry_enc: "\<exists>Q. nd_enc (remove_entry e d) = filter Q (nd_enc d)"
proof (cases e)
  case (Enc_Entry i)
  then show ?thesis by (intro exI[of _ "\<lambda>x. fst x \<noteq> i"]) (simp add: dict_del_filter)
qed (auto intro: exI[of _ "\<lambda>_. True"])

lemma clear_entry_enc: "\<exists>Q. nd_enc (snd (clear_entry fault e (r, d))) = filter Q (nd_enc d)"
  using remove_entry_enc[of e d] by (auto simp: clear_entry_def split: option.splits intro: exI[of _ "\<lambda>_. True"])

lemma clear_notes_enc: "within_quota pol d \<Longrightarrow> within_quota pol (snd (clear_notes fault d))"
proof -
  assume w: "within_quota pol d"
  have "within_quota pol (snd s) \<Longrightarrow> within_quota pol (snd (fold (clear_entry fault) es s))" for es s
  proof (induction es arbitrary: s)
    case (Cons e es)
    obtain r d where s: "s = (r, d)" by (cases s)
    obtain Q where "nd_enc (snd (clear_entry fault e s)) = filter Q (nd_enc d)" using clear_entry_enc s by blast
    then show ?case using Cons s within_quota_filter by auto
  qed simp
  from this[of "(\<lparr>cr_files = 0, cr_dirs = 0, cr_preserved = [], cr_failures = []\<rparr>, d)" "sort_key entry_name (dir_entries d)"] show ?thesis
    using w by (simp add: clear_notes_def split_beta)
qed

lemma save_note_quota:
  assumes "within_quota (ne_policy env) d" and s: "save_note env c r d = (res, d')"
  shows "within_quota (ne_policy env) d'"
  using s
proof (cases rule: save_note_cases)
  case (refused e)
  then show ?thesis using assms by simp
next
  case (written t raw i is_new created ok)
  note a = target_note_facts[OF written(1,2)] and b = write_pair_replaced[OF written(5), unfolded replaced_def]
  note e = write_pair_enc[OF written(5)]
  have ok: "dict_ok (nd_enc d)" "dict_ok (nd_enc d')" using assms(1) e(2) by (auto simp: within_quota_def)
  have same: "scan_usage (Some i) d' = scan_usage (Some i) d"
    using e(1) by (simp add: scan_usage_but) (simp add: scan_usage_def)
  note u = scan_usage_split[OF ok(1) a(1)] and u' = scan_usage_split[OF ok(2) a(1), unfolded same]
  have new: "scan_usage (if \<not> is_new then Some i else None) d = scan_usage (Some i) d"
    using a(2) u by (cases "scan_usage None d"; cases "scan_usage (Some i) d") (auto split: if_splits)
  have content: "map_option fst (dict_get (nd_enc d') i) \<in> {map_option fst (dict_get (nd_enc d) i), Some raw}"
    using b by (auto split: if_splits)
  have lim: "\<forall>m \<in> set_option (np_max_notes (ne_policy env)). Suc (nu_count (scan_usage (Some i) d)) \<le> m"
    "\<forall>m \<in> set_option (np_max_bytes (ne_policy env)). nu_bytes (scan_usage (Some i) d) + length raw \<le> m"
    using written(4) unfolding check_note_storage_def new by (auto simp: Let_def split: if_splits)
  have "nu_count (scan_usage None d') \<le> Suc (nu_count (scan_usage (Some i) d))"
    "nu_bytes (scan_usage None d') \<in> {nu_bytes (scan_usage None d), nu_bytes (scan_usage (Some i) d) + length raw}"
    using u u' content by (auto split: option.splits)
  then show ?thesis using assms(1) lim ok unfolding within_quota_def current_note_usage_def by fastforce
qed

text \<open>
  C34. However saves, deletions and clears succeed or fail, the encrypted notes on disk stay within the note count and the
  byte total of the policy.
\<close>

theorem note_quota_holds:
  assumes "within_quota (ne_policy env) d"
  shows "within_quota (ne_policy env) (fold (note_step env) ops d)"
  using assms
proof (induction ops arbitrary: d)
  case (Cons op ops)
  have "within_quota (ne_policy env) (note_step env op d)"
  proof (cases op)
    case (Save_Op c r)
    then show ?thesis using Cons.prems save_note_quota by (metis note_step.simps(1) prod.collapse)
  next
    case (Delete_Op x y i)
    have "\<exists>Q. nd_enc (snd (delete_note x y i d)) = filter Q (nd_enc d)"
      by (auto simp: delete_note_def resolve_note_def dict_del_filter Let_def intro: exI[of _ "\<lambda>_. True"])
    then show ?thesis using Delete_Op Cons.prems within_quota_filter by auto
  next
    case (Clear_Op fault)
    then show ?thesis using Cons.prems clear_notes_enc by simp
  qed
  then show ?case using Cons.IH by simp
qed simp

theorem note_quota_holds_witness:
  "within_quota (ne_policy demo_env) (fold (note_step demo_env)
     [Save_Op (demo_call {}) (demo_request []), Save_Op (demo_call {Enc_Backup, Meta_Temp}) (demo_request demo_a),
      Delete_Op False True demo_b, Clear_Op (\<lambda>_. None)] demo_dir)"
  by (rule note_quota_holds)
    (simp add: within_quota_def current_note_usage_def scan_usage_def demo_dir_def demo_env_def)

subsection \<open>Saving and loading\<close>

text \<open>
  C35. A note that was saved loads back: the same summary (stripped title, the call's time, the size) and the base64 of the
  decoded data, with the creation time of an existing readable note kept, when the codec reads back the sidecar it wrote.
\<close>

theorem saved_note_loads_back:
  assumes s: "save_note env c r d = (Inr (s, created), d')"
    and codec: "ne_loads env (ne_dumps env (sidecar_json s (session_mark env r))) = Some (sidecar_json s (session_mark env r))"
      "utf8_valid (ne_dumps env (sidecar_json s (session_mark env r)))"
    and now: "nc_now c \<noteq> []"
  shows "(\<exists>raw. b64decode_strict (sq_data r) = Some raw \<and> load_note env False (ns_id s) d' = Inr (s, b64encode raw) \<and>
      MIN_NOTE_BLOB \<le> length raw \<and> length raw \<le> MAX_NOTE_BLOB) \<and>
    ns_title s = py_strip (sq_title r) \<and> ns_updated s = nc_now c \<and> (sq_id r \<noteq> [] \<longrightarrow> ns_id s = sq_id r) \<and>
    ns_created s = (case note_record (ne_loads env) (ns_id s) d of
           Inr old \<Rightarrow> if created \<or> dict_get (nd_meta d) (ns_id s) = None \<or> ns_created old = [] then nc_now c else ns_created old
         | Inl _ \<Rightarrow> nc_now c)"
proof -
  obtain t raw i is_new cr where w: "check_save_request r = Inr (t, raw)" "target_note r (nc_draws c) d = Inr (i, is_new)"
      "kept_created env (nc_now c) i is_new d = Inr cr"
      "write_pair (nc_faults c) i (nc_stamp c) raw (ne_dumps env (sidecar_json
         \<lparr>ns_id = i, ns_title = t, ns_created = cr, ns_updated = nc_now c, ns_size = length raw\<rparr> (session_mark env r))) d = (True, d')"
      "s = \<lparr>ns_id = i, ns_title = t, ns_created = cr, ns_updated = nc_now c, ns_size = length raw\<rparr>" "created = is_new"
    using s by (cases rule: save_note_cases) (auto split: if_splits)
  note a = target_note_facts[OF w(1,2)] and b = write_pair_replaced[OF w(4), folded w(5), unfolded replaced_def]
  have cr: "cr = (case note_record (ne_loads env) i d of
           Inr old \<Rightarrow> if created \<or> dict_get (nd_meta d) i = None \<or> ns_created old = [] then nc_now c else ns_created old
         | Inl _ \<Rightarrow> nc_now c)"
    using w(3,6) by (auto simp: kept_created_def split: if_splits sum.splits)
  then have "cr \<noteq> []" using now by (auto split: sum.splits if_splits)
  then have "note_record (ne_loads env) i d' = Inr s"
    using b codec now by (simp add: note_record_def read_note_meta_def w(5) sidecar_json_def text_field_def nonempty_or_def Let_def)
  then have 1: "\<exists>raw. b64decode_strict (sq_data r) = Some raw \<and> load_note env False (ns_id s) d' = Inr (s, b64encode raw) \<and>
      MIN_NOTE_BLOB \<le> length raw \<and> length raw \<le> MAX_NOTE_BLOB"
    using a b by (simp add: load_note_def resolve_note_def w(5))
  have 2: "ns_title s = py_strip (sq_title r) \<and> ns_updated s = nc_now c \<and> (sq_id r \<noteq> [] \<longrightarrow> ns_id s = sq_id r)"
    using a w(5) by simp
  have "ns_created s = (case note_record (ne_loads env) (ns_id s) d of
           Inr old \<Rightarrow> if created \<or> dict_get (nd_meta d) (ns_id s) = None \<or> ns_created old = [] then nc_now c else ns_created old
         | Inl _ \<Rightarrow> nc_now c)"
  proof -
    have "ns_id s = i" "ns_created s = cr" using w(5) by simp_all
    show ?thesis unfolding \<open>ns_id s = i\<close> \<open>ns_created s = cr\<close> by (rule cr)
  qed
  with 1 2 show ?thesis by blast
qed

definition demo_summary :: note_summary where
  "demo_summary = \<lparr>ns_id = demo_b, ns_title = ''n'', ns_created = ''2'', ns_updated = ''2'', ns_size = 28\<rparr>"

definition demo_codec :: note_env where
  "demo_codec = demo_env\<lparr>ne_loads := \<lambda>bs. if bs = [0] then Some (sidecar_json demo_summary []) else None\<rparr>"

lemma demo_codec_create:
  "save_note demo_codec (demo_call {}) (demo_request []) demo_dir =
     (Inr (demo_summary, True),
      demo_dir\<lparr>nd_enc := nd_enc demo_dir @ [(demo_b, (replicate 28 1, ''2''))], nd_meta := [(demo_b, [0])]\<rparr>)"
  by (simp add: demo_steps demo_codec_def demo_summary_def)

theorem saved_note_loads_back_witness:
  "\<exists>raw. load_note demo_codec False demo_b (snd (save_note demo_codec (demo_call {}) (demo_request []) demo_dir)) =
     Inr (demo_summary, b64encode raw)"
proof -
  have m: "session_mark demo_codec (demo_request []) = []" by (simp add: session_mark_def)
  have id: "ns_id demo_summary = demo_b" by (simp add: demo_summary_def)
  have "ne_loads demo_codec (ne_dumps demo_codec (sidecar_json demo_summary [])) = Some (sidecar_json demo_summary [])"
    "utf8_valid (ne_dumps demo_codec (sidecar_json demo_summary []))" "nc_now (demo_call {}) \<noteq> []"
    by (simp_all add: demo_codec_def demo_env_def demo_call_def)
  from saved_note_loads_back[OF demo_codec_create, unfolded m, OF this] show ?thesis
    unfolding demo_codec_create id by auto
qed

subsection \<open>Finding a free identifier\<close>

lemma draw_id_free:
  "list_all is_valid_note_id ts \<Longrightarrow> \<exists>t \<in> set ts. dict_get (nd_enc d) t = None \<Longrightarrow>
     \<exists>i. draw_id ts d = Inr i \<and> i \<in> set ts \<and> dict_get (nd_enc d) i = None"
  by (induction ts d rule: draw_id.induct) (auto simp: resolve_note_def)

lemma draw_id_append: "draw_id ts d = Inr i \<Longrightarrow> draw_id (ts @ us) d = Inr i"
  by (induction ts d rule: draw_id.induct) (auto split: sum.splits if_splits)

text \<open>
  C36. The search for a free identifier ends: among distinct tokens the first \<open>n + 1\<close> draws decide it, \<open>n\<close> the number of
  ciphertext files, and no save is left drawing.
\<close>

theorem note_id_draw_terminates:
  assumes "distinct (nc_draws c)" "list_all is_valid_note_id (nc_draws c)" "length (nd_enc d) < length (nc_draws c)"
  shows "(\<exists>i. draw_id (nc_draws c) d = Inr i \<and> draw_id (take (Suc (length (nd_enc d))) (nc_draws c)) d = Inr i \<and>
      dict_get (nd_enc d) i = None) \<and>
    fst (save_note env c r d) \<noteq> Inl Note_Drawing"
proof -
  let ?ts = "take (Suc (length (nd_enc d))) (nc_draws c)"
  have "card (set ?ts) = Suc (length (nd_enc d))" using assms by (simp add: distinct_card distinct_take)
  moreover have "card (fst ` set (nd_enc d)) \<le> length (nd_enc d)"
    by (metis card_length length_map list.set_map)
  ultimately have "\<not> set ?ts \<subseteq> fst ` set (nd_enc d)"
    using card_mono[of "fst ` set (nd_enc d)" "set ?ts", OF finite_imageI[OF finite_set]] by linarith
  then have "\<exists>t \<in> set ?ts. dict_get (nd_enc d) t = None" by (auto simp: map_of_eq_None_iff)
  moreover have "list_all is_valid_note_id ?ts" using assms(2) by (auto simp: list_all_iff dest: in_set_takeD)
  ultimately obtain i where i: "draw_id ?ts d = Inr i" "dict_get (nd_enc d) i = None" using draw_id_free by blast
  then have all: "draw_id (nc_draws c) d = Inr i"
    using draw_id_append[of ?ts d i "drop (Suc (length (nd_enc d))) (nc_draws c)"] by simp
  obtain res d' where s: "save_note env c r d = (res, d')" by fastforce
  then have "fst (save_note env c r d) \<noteq> Inl Note_Drawing"
  proof (cases rule: save_note_cases)
    case (refused e)
    then show ?thesis using all s by auto
  next
    case (written t raw i is_new created ok)
    then show ?thesis using s by (cases ok) simp_all
  qed
  then show ?thesis using i all by blast
qed

theorem note_id_draw_terminates_witness:
  "\<exists>i. draw_id [demo_a, demo_b] demo_dir = Inr i \<and> dict_get (nd_enc demo_dir) i = None"
  using note_id_draw_terminates[of "demo_call {}" demo_dir]
  by (auto simp: demo_call_def demo_a_def[symmetric] demo_b_def[symmetric] demo_dir_def)

subsection \<open>Listing\<close>

text \<open>The sidecar of \<open>i\<close> cannot be decoded; otherwise the record the listing shows.\<close>

definition undecodable :: "note_dir \<Rightarrow> string \<Rightarrow> bool" where
  "undecodable d i \<longleftrightarrow> (case dict_get (nd_meta d) i of None \<Rightarrow> False | Some raw \<Rightarrow> \<not> utf8_valid raw)"

lemma note_record_decides: "(\<exists>s. note_record loads i d = Inr s) \<longleftrightarrow> \<not> undecodable d i"
proof -
  have r: "(\<exists>m. read_note_meta loads raw = Inr m) \<longleftrightarrow> utf8_valid raw" for raw
    by (cases "loads raw"; cases "the (loads raw)") (auto simp: read_note_meta_def)
  show ?thesis
  proof (cases "dict_get (nd_meta d) i")
    case None
    then show ?thesis by (simp add: note_record_def undecodable_def split: prod.split)
  next
    case (Some raw)
    show ?thesis
    proof (cases "read_note_meta loads raw")
      case (Inl e)
      then show ?thesis using Some r[of raw] by (auto simp: note_record_def undecodable_def split: prod.split)
    next
      case (Inr m)
      then show ?thesis using Some r[of raw] by (cases m) (auto simp: note_record_def undecodable_def split: prod.split)
    qed
  qed
qed

definition record_of :: "(bytes \<Rightarrow> json option) \<Rightarrow> note_dir \<Rightarrow> string \<Rightarrow> note_summary" where
  "record_of loads d i = projr (note_record loads i d)"

lemma list_loop_result:
  "list_loop loads d room es =
     (if list_ex (\<lambda>i. is_valid_note_id i \<and> undecodable d i) (take room es) then Inl Note_Undecodable
      else Inr (map (record_of loads d) (filter is_valid_note_id (take room es)), room < length es))"
proof (induction loads d room es rule: list_loop.induct)
  case (2 loads d room i es)
  show ?case
  proof (cases room)
    case (Suc k)
    have "note_record loads i d = (if undecodable d i then Inl Note_Undecodable else Inr (record_of loads d i))"
      using note_record_decides[of loads i d] note_record_error[of loads i d]
      by (cases "note_record loads i d") (auto simp: record_of_def)
    then show ?thesis using 2 Suc by (auto split: sum.splits)
  qed simp
qed simp

lemma newest_first_order:
  "sorted (rev (map ns_updated (newest_first ns)))" "mset (newest_first ns) = mset ns"
  "filter (\<lambda>s. ns_updated s = t) (newest_first ns) = filter (\<lambda>s. ns_updated s = t) ns"
proof -
  show "sorted (rev (map ns_updated (newest_first ns)))" by (simp add: newest_first_def rev_map)
  show "mset (newest_first ns) = mset ns" by (simp add: newest_first_def)
  have "filter (\<lambda>s. ns_updated s = t) (sort_key ns_updated (rev ns)) = filter (\<lambda>s. ns_updated s = t) (rev ns)"
    using sort_key_stable[of ns_updated t "rev ns"] by simp
  then show "filter (\<lambda>s. ns_updated s = t) (newest_first ns) = filter (\<lambda>s. ns_updated s = t) ns"
    by (simp add: newest_first_def rev_filter[symmetric])
qed

text \<open>
  A listing shows exactly the notes among the first \<open>limit\<close> ciphertext entries, the latest first and equal times in
  directory order, and says whether entries were left out; but one sidecar among them that is not UTF-8 makes the whole
  listing fail with a decoding error.
\<close>

theorem list_notes_exact:
  "(let room = np_max_listed (ne_policy env); seen = filter is_valid_note_id (take room (map fst (nd_enc d)))
    in list_notes env d =
      (if list_ex (undecodable d) seen then Inl Note_Undecodable
       else Inr (newest_first (map (record_of (ne_loads env) d) seen), room, room < length (nd_enc d)))) \<and>
   sorted (rev (map ns_updated (newest_first ns))) \<and> mset (newest_first ns) = mset ns \<and>
   filter (\<lambda>s. ns_updated s = t) (newest_first ns) = filter (\<lambda>s. ns_updated s = t) ns"
proof -
  have "list_ex (\<lambda>i. is_valid_note_id i \<and> undecodable d i) es = list_ex (undecodable d) (filter is_valid_note_id es)" for es
    by (induction es) auto
  then show ?thesis using newest_first_order by (auto simp: list_notes_def list_loop_result Let_def)
qed

subsection \<open>Clearing\<close>

definition hidden_entry :: "note_entry \<Rightarrow> bool" where "hidden_entry e \<longleftrightarrow> take 1 (entry_name e) = ''.''"

lemma dir_entries_remove:
  assumes "dict_ok (nd_others d)" "e \<in> set (dir_entries d)"
  shows "dir_entries (remove_entry e d) = filter (\<lambda>x. x \<noteq> e) (dir_entries d)"
proof -
  have del: "map g (dict_del k xs) = filter (\<lambda>x. x \<noteq> g (k, v)) (map g xs)" if "\<And>x. x \<in> set xs \<Longrightarrow> g x = g (k, v) \<longleftrightarrow> fst x = k"
    for g :: "'a \<times> 'b \<Rightarrow> note_entry" and k v xs
    using that by (induction xs) auto
  have keep: "filter (\<lambda>x. x \<noteq> e) (map g xs) = map g xs" if "\<And>x. g x \<noteq> e" for g :: "'a \<Rightarrow> note_entry" and xs e
    using that by (induction xs) auto
  show ?thesis
  proof (cases e)
    case (Enc_Entry i)
    then show ?thesis using del[of "nd_enc d" "\<lambda>x. Enc_Entry (fst x)" i] by (simp add: dir_entries_def keep)
  next
    case (Meta_Entry i)
    then show ?thesis using del[of "nd_meta d" "\<lambda>x. Meta_Entry (fst x)" i] by (simp add: dir_entries_def keep)
  next
    case (Temp_Entry n)
    then show ?thesis using del[of "nd_temps d" "\<lambda>x. Temp_Entry (fst x)" n] by (simp add: dir_entries_def keep)
  next
    case (Other_Entry n b)
    then have "(n, b) \<in> set (nd_others d)" using assms(2) by (auto simp: dir_entries_def)
    then have "dict_get (nd_others d) n = Some b" using assms(1) by (rule dict_mem_get[rotated])
    then have "x \<in> set (nd_others d) \<Longrightarrow> Other_Entry (fst x) (snd x) = Other_Entry (fst (n, b)) (snd (n, b)) \<longleftrightarrow> fst x = n" for x
      using dict_mem_get[OF assms(1), of "fst x" "snd x"] \<open>dict_get (nd_others d) n = Some b\<close> by auto
    from del[OF this] show ?thesis using Other_Entry by (simp add: dir_entries_def keep)
  qed
qed

definition entries_ok :: "note_dir \<Rightarrow> bool" where
  "entries_ok d \<longleftrightarrow> dict_ok (nd_enc d) \<and> dict_ok (nd_meta d) \<and> dict_ok (nd_temps d) \<and> dict_ok (nd_others d)"

definition folder_entry :: "note_entry \<Rightarrow> bool" where "folder_entry e \<longleftrightarrow> (case e of Other_Entry _ b \<Rightarrow> b | _ \<Rightarrow> False)"

definition failure_line :: "(note_entry \<Rightarrow> os_failure option) \<Rightarrow> note_entry \<Rightarrow> string \<times> string" where
  "failure_line fault e = (take 255 (entry_name e), clear_failure_reason (the (fault e)))"

lemma entries_ok_distinct: "entries_ok d \<Longrightarrow> distinct (dir_entries d)"
proof -
  have dst: "distinct (map g xs)" if ok: "dict_ok xs" and g: "\<And>x y. g x = g y \<Longrightarrow> fst x = fst y"
    for g :: "'a \<times> 'b \<Rightarrow> note_entry" and xs
  proof -
    have "distinct xs" "inj_on fst (set xs)" using ok by (simp_all add: distinct_map)
    moreover have "inj_on g (set xs)"
    proof (rule inj_onI)
      fix x y
      assume "x \<in> set xs" "y \<in> set xs" "g x = g y"
      then show "x = y" using g[of x y] inj_onD[OF \<open>inj_on fst (set xs)\<close>] by blast
    qed
    ultimately show ?thesis by (simp add: distinct_map)
  qed
  show "entries_ok d \<Longrightarrow> distinct (dir_entries d)"
    by (auto simp: entries_ok_def dir_entries_def simp del: split_paired_All intro!: dst)
qed

lemma entries_ok_remove: "entries_ok d \<Longrightarrow> entries_ok (remove_entry e d)"
  by (cases e) (auto simp: entries_ok_def)

lemma clear_fold:
  assumes "entries_ok d" "distinct es" "set es \<subseteq> set (dir_entries d)" "length (cr_failures r) \<le> MAX_CLEAR_FAILURES"
    "fold (clear_entry fault) es (r, d) = (r', d')"
  shows "dir_entries d' = filter (\<lambda>e. e \<in> set es \<longrightarrow> hidden_entry e \<or> fault e \<noteq> None) (dir_entries d) \<and>
    cr_preserved r' = cr_preserved r @ map entry_name (filter hidden_entry es) \<and>
    cr_failures r' = take MAX_CLEAR_FAILURES
      (cr_failures r @ map (failure_line fault) (filter (\<lambda>e. \<not> hidden_entry e \<and> fault e \<noteq> None) es)) \<and>
    cr_files r' = cr_files r + length (filter (\<lambda>e. \<not> hidden_entry e \<and> fault e = None \<and> \<not> folder_entry e) es) \<and>
    cr_dirs r' = cr_dirs r + length (filter (\<lambda>e. \<not> hidden_entry e \<and> fault e = None \<and> folder_entry e) es)"
  using assms
proof (induction es arbitrary: r d)
  case (Cons e es)
  have all: "filter (\<lambda>x. x \<in> insert e (set es) \<longrightarrow> P x) xs = filter (\<lambda>x. x \<in> set es \<longrightarrow> P x) xs" if "P e" for P and xs :: "note_entry list"
    using that by (intro filter_cong) auto
  consider (hidden) "hidden_entry e" | (fault) x where "\<not> hidden_entry e" "fault e = Some x" | (gone) "\<not> hidden_entry e" "fault e = None"
    by (cases "fault e") auto
  then show ?case
  proof cases
    case hidden
    then have "clear_entry fault e (r, d) = (r\<lparr>cr_preserved := cr_preserved r @ [entry_name e]\<rparr>, d)"
      by (simp add: clear_entry_def hidden_entry_def)
    then show ?thesis using Cons.IH[of d "r\<lparr>cr_preserved := cr_preserved r @ [entry_name e]\<rparr>"] Cons.prems hidden
      by (simp add: all)
  next
    case (fault x)
    let ?r = "if length (cr_failures r) < MAX_CLEAR_FAILURES then r\<lparr>cr_failures := cr_failures r @ [failure_line fault e]\<rparr> else r"
    have "clear_entry fault e (r, d) = (?r, d)" using fault by (simp add: clear_entry_def hidden_entry_def failure_line_def)
    then show ?thesis using Cons.IH[of d ?r] Cons.prems fault by (auto simp: all take_Cons')
  next
    case gone
    let ?r = "if folder_entry e then r\<lparr>cr_dirs := cr_dirs r + 1\<rparr> else r\<lparr>cr_files := cr_files r + 1\<rparr>"
    have "clear_entry fault e (r, d) = (?r, remove_entry e d)"
      using gone by (auto simp: clear_entry_def hidden_entry_def folder_entry_def split: note_entry.splits bool.splits)
    with Cons.prems(5) have f: "fold (clear_entry fault) es (?r, remove_entry e d) = (r', d')" by simp
    have rem: "dir_entries (remove_entry e d) = filter (\<lambda>x. x \<noteq> e) (dir_entries d)"
      using Cons.prems(1,3) by (intro dir_entries_remove) (auto simp: entries_ok_def)
    have cut: "filter (\<lambda>x. (x \<in> set es \<longrightarrow> P x) \<and> x \<noteq> e) xs = filter (\<lambda>x. x \<in> insert e (set es) \<longrightarrow> P x) xs"
      if "\<not> P e" for P and xs :: "note_entry list"
      using that Cons.prems(2) by (intro filter_cong) auto
    have "set es \<subseteq> set (dir_entries (remove_entry e d))" using Cons.prems(2,3) by (auto simp: rem)
    note ih = Cons.IH[OF entries_ok_remove[OF Cons.prems(1)] _ this _ f, unfolded rem]
    show ?thesis using ih Cons.prems(2,4) gone cut[of "\<lambda>e. hidden_entry e \<or> fault e \<noteq> None"] by auto
  qed
qed auto

text \<open>
  Clearing removes exactly the entries whose name has no leading dot and whose removal works, so temporary files and
  backups stay; the report counts the files and directories removed, names the entries kept in name order, and the call
  fails exactly when a removal failed, with at most 25 reasons.
\<close>

theorem clear_notes_exact:
  assumes "entries_ok d" "clear_notes fault d = (res, d')"
  shows "dir_entries d' = filter (\<lambda>e. hidden_entry e \<or> fault e \<noteq> None) (dir_entries d) \<and>
    (let failed = filter (\<lambda>e. \<not> hidden_entry e \<and> fault e \<noteq> None) (sort_key entry_name (dir_entries d));
         r = (case res of Inl r \<Rightarrow> r | Inr r \<Rightarrow> r)
     in isl res = (failed \<noteq> []) \<and> cr_failures r = map (failure_line fault) (take MAX_CLEAR_FAILURES failed) \<and>
        cr_preserved r = sort (map entry_name (filter hidden_entry (dir_entries d))) \<and>
        cr_files r + cr_dirs r + length (cr_preserved r) + length failed = length (dir_entries d))"
proof -
  let ?es = "sort_key entry_name (dir_entries d)"
  obtain r d1 where f: "fold (clear_entry fault) ?es (\<lparr>cr_files = 0, cr_dirs = 0, cr_preserved = [], cr_failures = []\<rparr>, d) = (r, d1)"
    by fastforce
  have res: "d1 = d'" "res = (if cr_failures r \<noteq> [] then Inl r else Inr r)" using assms(2) by (auto simp: clear_notes_def f)
  note c = clear_fold[OF assms(1) _ _ _ f, simplified, unfolded res(1), OF entries_ok_distinct[OF assms(1)]]
  have names: "map entry_name (filter hidden_entry ?es) = sort (map entry_name (filter hidden_entry (dir_entries d)))"
    unfolding filter_sort by (rule properties_for_sort[symmetric]) simp_all
  have parts: "length (filter (\<lambda>e. \<not> hidden_entry e \<and> fault e = None \<and> \<not> folder_entry e) es) +
      length (filter (\<lambda>e. \<not> hidden_entry e \<and> fault e = None \<and> folder_entry e) es) + length (filter hidden_entry es) +
      length (filter (\<lambda>e. \<not> hidden_entry e \<and> fault e \<noteq> None) es) = length es" for es
    by (induction es) auto
  have keep: "filter (\<lambda>e. e \<in> set xs \<longrightarrow> P e) xs = filter P xs" for P and xs :: "note_entry list"
    by (rule filter_cong) auto
  show ?thesis using c parts[of ?es] res(2) unfolding keep by (auto simp: Let_def names[symmetric] take_map MAX_CLEAR_FAILURES_def)
qed

definition demo_backup :: note_dir where
  "demo_backup = demo_dir\<lparr>nd_temps := [((demo_a, Enc_Backup, ''t''), replicate 30 7)], nd_others := [(''old'', True)]\<rparr>"

theorem clear_notes_exact_witness:
  "dir_entries (snd (clear_notes (\<lambda>_. None) demo_backup)) = [Temp_Entry (demo_a, Enc_Backup, ''t'')]"
proof -
  have ok: "entries_ok demo_backup" by (simp add: demo_backup_def demo_dir_def entries_ok_def)
  have "dir_entries demo_backup = [Enc_Entry demo_a, Temp_Entry (demo_a, Enc_Backup, ''t''), Other_Entry ''old'' True]"
    by (simp add: demo_backup_def demo_dir_def dir_entries_def)
  moreover have "\<not> hidden_entry (Enc_Entry demo_a)" "hidden_entry (Temp_Entry (demo_a, Enc_Backup, ''t''))" "\<not> hidden_entry (Other_Entry ''old'' True)"
    by (simp_all add: hidden_entry_def demo_a_def numeral_eq_Suc)
  ultimately show ?thesis
    using clear_notes_exact[OF ok, of "\<lambda>_. None" "fst (clear_notes (\<lambda>_. None) demo_backup)" "snd (clear_notes (\<lambda>_. None) demo_backup)"]
    by simp
qed

end
