(* ===== verification/Http_Request.thy ===== *)
theory Http_Request
  imports Http_Io
begin

section \<open>Parsing an HTTP request\<close>

text \<open>
  \<open>HTTPRequest\<close> of \<^verbatim>\<open>xferry/http/request.py\<close> over the bytes that \<open>Http_Io\<close> hands over. \<open>decode\<close> is
  \<open>bytes.decode("utf-8")\<close>, as in \<open>Http_Io\<close>, and \<open>netloc_ok\<close> decides the host part of an absolute target that has
  brackets or non-ASCII characters, where \<open>urlsplit\<close> may raise \<open>ValueError\<close>. Percent-decoding of the path and of the query
  (\<open>unquote\<close>, \<open>parse_qs\<close>, \<open>parse_qsl\<close>) is not modelled: the request keeps \<open>raw_path\<close> and \<open>query_string\<close>.
\<close>

subsection \<open>The request target\<close>

definition split_scheme :: "string \<Rightarrow> string \<times> string" where
  "split_scheme url =
     (case cut_at (CHR '':'') url of
        (s, Some rest) \<Rightarrow>
          if s \<noteq> [] \<and> is_alpha (hd s) \<and> list_all (\<lambda>c. is_alnum c \<or> c \<in> set ''+-.'') s then (py_lower s, rest) else ([], url)
      | (_, None) \<Rightarrow> ([], url))"

definition params_schemes :: "string list" where
  "params_schemes = [[], ''ftp'', ''hdl'', ''prospero'', ''http'', ''https'', ''shttp'', ''rtsp'', ''rtsps'', ''sip'', ''sips'', ''mms'', ''sftp'', ''tel'']"

text \<open>\<open>_splitparams\<close>: the parameters of the last segment are cut off.\<close>

definition strip_params :: "string \<Rightarrow> string" where
  "strip_params path =
     (let seg = rev (takeWhile (\<lambda>c. c \<noteq> CHR ''/'') (rev path))
      in take (length path - length seg) path @ takeWhile (\<lambda>c. c \<noteq> CHR '';'') seg)"

definition split_netloc :: "string \<Rightarrow> string \<times> string" where
  "split_netloc rest =
     (if take 2 rest = ''//''
      then (let n = takeWhile (\<lambda>c. c \<notin> set ''/?#'') (drop 2 rest) in (n, drop (2 + length n) rest))
      else ([], rest))"

text \<open>\<open>urlparse\<close>: the path and the query of a target without control characters and blanks; \<open>None\<close> is a \<open>ValueError\<close>.\<close>

definition parse_target :: "(string \<Rightarrow> bool) \<Rightarrow> string \<Rightarrow> (string \<times> string) option" where
  "parse_target netloc_ok url =
     (let (scheme, rest) = split_scheme url;
          (netloc, rest) = split_netloc rest;
          (rest, _) = cut_at (CHR ''#'') rest;
          (path, query) = cut_at (CHR ''?'') rest
      in if (CHR ''['' \<in> set netloc) \<noteq> (CHR '']'' \<in> set netloc) then None
         else if (CHR ''['' \<in> set netloc \<or> list_ex (\<lambda>c. 128 \<le> ord c) netloc) \<and> \<not> netloc_ok netloc then None
         else Some (if scheme \<in> set params_schemes then strip_params path else path, case query of None \<Rightarrow> [] | Some q \<Rightarrow> q))"

subsection \<open>The request line\<close>

definition method_char :: "char \<Rightarrow> bool" where
  "method_char c \<longleftrightarrow> is_alnum c \<or> c \<in> set ''!#$%&*+-.^_`|~'' \<or> ord c = 39"

definition target_char :: "char \<Rightarrow> bool" where "target_char c \<longleftrightarrow> 32 < ord c \<and> ord c \<noteq> 127"

definition version_ok :: "string \<Rightarrow> bool" where
  "version_ok v \<longleftrightarrow> take 5 v = ''HTTP/'' \<and>
     (case cut_at (CHR ''.'') (drop 5 v) of
        (a, Some b) \<Rightarrow> a \<noteq> [] \<and> b \<noteq> [] \<and> list_all is_digit a \<and> list_all is_digit b | (_, None) \<Rightarrow> False)"

record http_request =
  rq_method :: string
  rq_raw_target :: string
  rq_raw_path :: string
  rq_query_string :: string
  rq_version :: string
  rq_headers :: "(string, string) dict"
  rq_occurrences :: "(string \<times> string) list"
  rq_values :: "(string, string list) dict"
  rq_raw_values :: "(string, string list) dict"
  rq_body :: bytes
  rq_error :: "string option"

definition empty_request :: http_request where
  "empty_request = \<lparr>rq_method = [], rq_raw_target = [], rq_raw_path = [], rq_query_string = [], rq_version = [], rq_headers = [],
     rq_occurrences = [], rq_values = [], rq_raw_values = [], rq_body = [], rq_error = None\<rparr>"

text \<open>\<open>None\<close> is the exception of \<open>urlparse\<close>; a refused line leaves its message and no other field.\<close>

definition parse_request_line :: "(string \<Rightarrow> bool) \<Rightarrow> string \<Rightarrow> http_request \<Rightarrow> http_request option" where
  "parse_request_line netloc_ok line r =
     (case py_split (CHR '' '') line of
        [m, target, version] \<Rightarrow>
          if m = [] \<or> \<not> list_all method_char m then Some (r\<lparr>rq_error := Some ''Invalid HTTP method''\<rparr>)
          else if target = [] \<or> \<not> list_all target_char target then Some (r\<lparr>rq_error := Some ''Invalid request target''\<rparr>)
          else if \<not> version_ok version then Some (r\<lparr>rq_error := Some ''Invalid HTTP version''\<rparr>)
          else map_option (\<lambda>(path, query). r\<lparr>rq_method := m, rq_raw_target := target, rq_raw_path := path, rq_query_string := query,
                 rq_version := version\<rparr>) (parse_target netloc_ok target)
      | _ \<Rightarrow> Some (r\<lparr>rq_error := Some ''Malformed request line''\<rparr>))"

subsection \<open>The header lines\<close>

record header_state =
  hs_headers :: "(string, string) dict"
  hs_occ :: "(string \<times> string) list"
  hs_values :: "(string, string list) dict"
  hs_raw :: "(string, string list) dict"
  hs_current :: "string option"

definition header_init :: header_state where
  "header_init = \<lparr>hs_headers = [], hs_occ = [], hs_values = [], hs_raw = [], hs_current = None\<rparr>"

definition values_of :: "(string, string list) dict \<Rightarrow> string \<Rightarrow> string list" where
  "values_of d k = (case dict_get d k of None \<Rightarrow> [] | Some vs \<Rightarrow> vs)"

definition crlf_text :: string where "crlf_text = [CHR 0x0D, CHR 0x0A]"

text \<open>A folded line extends the last value, which is the last occurrence.\<close>

definition fold_line :: "string \<Rightarrow> string \<Rightarrow> header_state \<Rightarrow> header_state" where
  "fold_line k line h =
     (let cont = py_strip line; vs = values_of (hs_values h) k; v = last vs;
          v' = (if cont \<noteq> [] then py_strip (v @ '' '' @ cont) else v); raws = values_of (hs_raw h) k
      in h\<lparr>hs_values := dict_set k (butlast vs @ [v']) (hs_values h),
           hs_raw := dict_set k (butlast raws @ [last raws @ crlf_text @ line]) (hs_raw h),
           hs_headers := dict_set k v' (hs_headers h),
           hs_occ := butlast (hs_occ h) @ [(fst (last (hs_occ h)), v')]\<rparr>)"

definition add_line :: "string \<Rightarrow> string \<Rightarrow> header_state \<Rightarrow> header_state" where
  "add_line key field_value h =
     (let k = py_lower key; v = py_strip field_value
      in h\<lparr>hs_current := Some k, hs_occ := hs_occ h @ [(key, v)],
           hs_values := dict_set k (values_of (hs_values h) k @ [v]) (hs_values h),
           hs_raw := dict_set k (values_of (hs_raw h) k @ [field_value]) (hs_raw h),
           hs_headers := dict_set k v (hs_headers h)\<rparr>)"

definition header_line :: "string \<Rightarrow> header_state \<Rightarrow> header_state" where
  "header_line line h =
     (case (hs_current h, take 1 line = '' '' \<or> take 1 line = [CHR 0x09]) of
        (Some k, True) \<Rightarrow> fold_line k line h
      | _ \<Rightarrow> (case cut_at (CHR '':'') line of (key, Some v) \<Rightarrow> add_line key v h | (_, None) \<Rightarrow> h))"

definition split_message :: "bytes \<Rightarrow> bytes \<times> bytes" where
  "split_message raw = (case find_from HEADER_TERMINATOR raw of None \<Rightarrow> (raw, []) | Some n \<Rightarrow> (take n raw, drop (n + 4) raw))"

definition failed_parse :: "http_request \<Rightarrow> http_request" where
  "failed_parse r = r\<lparr>rq_error := Some (case rq_error r of None \<Rightarrow> ''Request parse error'' | Some e \<Rightarrow> e)\<rparr>"

definition parse_request :: "(bytes \<Rightarrow> string option) \<Rightarrow> (string \<Rightarrow> bool) \<Rightarrow> bytes \<Rightarrow> http_request" where
  "parse_request decode netloc_ok raw =
     (let (head, body) = split_message raw; r = empty_request\<lparr>rq_body := body\<rparr>
      in case decode head of
           None \<Rightarrow> failed_parse r
         | Some text \<Rightarrow>
             (let lines = split_crlf text
              in case parse_request_line netloc_ok (hd lines) r of
                   None \<Rightarrow> failed_parse r
                 | Some r \<Rightarrow>
                     (let h = fold header_line (tl lines) header_init
                      in r\<lparr>rq_headers := hs_headers h, rq_occurrences := hs_occ h, rq_values := hs_values h, rq_raw_values := hs_raw h\<rparr>)))"

subsection \<open>Reading headers\<close>

definition get_header :: "string \<Rightarrow> string \<Rightarrow> http_request \<Rightarrow> string" where
  "get_header k fallback r = (case dict_get (rq_headers r) (py_lower k) of None \<Rightarrow> fallback | Some v \<Rightarrow> v)"

definition get_header_values :: "string \<Rightarrow> http_request \<Rightarrow> string list" where
  "get_header_values k r = values_of (rq_values r) (py_lower k)"

definition get_raw_header_values :: "string \<Rightarrow> http_request \<Rightarrow> string list" where
  "get_raw_header_values k r = values_of (rq_raw_values r) (py_lower k)"

definition request_content_length :: "http_request \<Rightarrow> int" where
  "request_content_length r =
     (case dict_get (rq_headers r) ''content-length'' of None \<Rightarrow> 0 | Some v \<Rightarrow> (case py_int v of None \<Rightarrow> 0 | Some n \<Rightarrow> n))"

definition request_content_type :: "http_request \<Rightarrow> string" where
  "request_content_type r =
     (case dict_get (rq_headers r) ''content-type'' of None \<Rightarrow> ''application/octet-stream'' | Some v \<Rightarrow> v)"

subsection \<open>Well-formed requests\<close>

text \<open>The header tables agree with the occurrences in wire order.\<close>

definition values_in :: "(string \<times> string) list \<Rightarrow> string \<Rightarrow> string list" where
  "values_in occ k = map snd (filter (\<lambda>x. py_lower (fst x) = k) occ)"

definition tables_match :: "header_state \<Rightarrow> bool" where
  "tables_match h \<longleftrightarrow>
     (\<forall>k. values_of (hs_values h) k = values_in (hs_occ h) k) \<and>
     (\<forall>k. dict_get (hs_values h) k \<noteq> Some []) \<and>
     (\<forall>k. dict_get (hs_headers h) k = map_option last (dict_get (hs_values h) k)) \<and>
     (\<forall>k. map_option length (dict_get (hs_raw h) k) = map_option length (dict_get (hs_values h) k)) \<and>
     list_all (\<lambda>(n, v). CHR '':'' \<notin> set n \<and> py_strip v = v) (hs_occ h) \<and>
     hs_current h = (if hs_occ h = [] then None else Some (py_lower (fst (last (hs_occ h)))))"

lemma values_of_set [simp]: "values_of (dict_set k vs d) x = (if x = k then vs else values_of d x)"
  by (simp add: values_of_def)

lemma values_in_snoc [simp]: "values_in (occ @ [(n, v)]) k = values_in occ k @ (if py_lower n = k then [v] else [])"
  by (simp add: values_in_def)

lemma tables_add:
  assumes "tables_match h" "CHR '':'' \<notin> set key"
  shows "tables_match (add_line key v h)"
proof -
  have "length (values_of (hs_raw h) k) = length (values_in (hs_occ h) k)" for k
    using assms(1) by (auto simp: tables_match_def dest!: spec[of _ k]) (auto simp: values_of_def split: option.splits)
  then show ?thesis using assms unfolding tables_match_def add_line_def Let_def by auto
qed

lemma tables_fold:
  assumes t: "tables_match h" and k: "hs_current h = Some k"
  shows "tables_match (fold_line k line h)"
proof -
  obtain occ n v where o: "hs_occ h = occ @ [(n, v)]" "py_lower n = k"
    using t k by (cases "hs_occ h" rule: rev_cases) (auto simp: tables_match_def)
  then have vs: "values_of (hs_values h) k = values_in occ k @ [v]" using t by (simp add: tables_match_def)
  then have "dict_get (hs_values h) k = Some (values_in occ k @ [v])" by (auto simp: values_of_def split: option.splits)
  moreover from this have "map_option length (dict_get (hs_raw h) k) = Some (Suc (length (values_in occ k)))"
    using t by (simp add: tables_match_def)
  moreover from this have "length (values_of (hs_raw h) k) = Suc (length (values_in occ k))" by (auto simp: values_of_def)
  ultimately show ?thesis using t o vs unfolding tables_match_def fold_line_def Let_def by auto
qed

lemma tables_header_line: "tables_match h \<Longrightarrow> tables_match (header_line line h)"
  using tables_fold tables_add cut_at_Some
  by (fastforce simp: header_line_def split: option.splits bool.splits prod.splits)

lemma tables_lines: "tables_match h \<Longrightarrow> tables_match (fold header_line ls h)"
  by (induction ls arbitrary: h) (auto simp: tables_header_line)

lemma set_strip_params: "set (strip_params p) \<subseteq> set p"
  by (auto simp: strip_params_def Let_def dest!: set_takeWhileD in_set_takeD)

lemma parse_target_parts:
  assumes "parse_target ok url = Some (path, query)"
  shows "CHR ''?'' \<notin> set path \<and> CHR ''#'' \<notin> set path \<and> CHR ''#'' \<notin> set query"
proof -
  obtain s r1 n r2 r3 f p q where x: "split_scheme url = (s, r1)" "split_netloc r1 = (n, r2)"
    "cut_at (CHR ''#'') r2 = (r3, f)" "cut_at (CHR ''?'') r3 = (p, q)"
    by (metis surj_pair)
  have r: "path = (if s \<in> set params_schemes then strip_params p else p)" "query = (case q of None \<Rightarrow> [] | Some q \<Rightarrow> q)"
    using assms by (simp_all add: parse_target_def x split: if_splits)
  have "CHR ''#'' \<notin> set r3" using cut_at_fst[OF x(3)] by blast
  moreover have "set path \<subseteq> set p" using r(1) set_strip_params by auto
  moreover have "set p \<subseteq> set r3" "CHR ''?'' \<notin> set p" using cut_at_fst[OF x(4)] by auto
  moreover have "set query \<subseteq> set r3"
  proof (cases q)
    case (Some z)
    then have "r3 = p @ CHR ''?'' # z" using cut_at_Some[of _ r3 p z] x(4) by simp
    then show ?thesis using r(2) Some by auto
  qed (use r(2) in simp)
  ultimately show ?thesis by blast
qed

definition request_typed :: "http_request \<Rightarrow> bool" where
  "request_typed r \<longleftrightarrow>
     (\<forall>k. values_of (rq_values r) k = values_in (rq_occurrences r) k) \<and>
     (\<forall>k. dict_get (rq_headers r) k = (let vs = values_in (rq_occurrences r) k in if vs = [] then None else Some (last vs))) \<and>
     (\<forall>k. length (values_of (rq_raw_values r) k) = length (values_in (rq_occurrences r) k)) \<and>
     list_all (\<lambda>(n, v). CHR '':'' \<notin> set n \<and> py_strip v = v) (rq_occurrences r) \<and>
     (if rq_error r = None
      then rq_method r \<noteq> [] \<and> list_all method_char (rq_method r) \<and> rq_raw_target r \<noteq> [] \<and> list_all target_char (rq_raw_target r) \<and>
        version_ok (rq_version r) \<and> set ''?#'' \<inter> set (rq_raw_path r) = {} \<and> CHR ''#'' \<notin> set (rq_query_string r)
      else rq_method r = [] \<and> rq_raw_target r = [] \<and> rq_raw_path r = [] \<and> rq_query_string r = [] \<and> rq_version r = [])"

lemma tables_typed:
  assumes "tables_match h"
  shows "values_of (hs_values h) k = values_in (hs_occ h) k"
    "dict_get (hs_headers h) k = (let vs = values_in (hs_occ h) k in if vs = [] then None else Some (last vs))"
    "length (values_of (hs_raw h) k) = length (values_in (hs_occ h) k)"
    "list_all (\<lambda>(n, v). CHR '':'' \<notin> set n \<and> py_strip v = v) (hs_occ h)"
proof -
  have m: "values_of (hs_values h) k = values_in (hs_occ h) k" "dict_get (hs_values h) k \<noteq> Some []"
    "dict_get (hs_headers h) k = map_option last (dict_get (hs_values h) k)"
    "map_option length (dict_get (hs_raw h) k) = map_option length (dict_get (hs_values h) k)"
    using assms by (simp_all add: tables_match_def)
  show "values_of (hs_values h) k = values_in (hs_occ h) k" by (rule m(1))
  show "dict_get (hs_headers h) k = (let vs = values_in (hs_occ h) k in if vs = [] then None else Some (last vs))"
    using m by (cases "dict_get (hs_values h) k") (auto simp: values_of_def)
  show "length (values_of (hs_raw h) k) = length (values_in (hs_occ h) k)"
    using m by (cases "dict_get (hs_values h) k") (auto simp: values_of_def)
  show "list_all (\<lambda>(n, v). CHR '':'' \<notin> set n \<and> py_strip v = v) (hs_occ h)" using assms by (simp add: tables_match_def)
qed

lemma parse_request_line_typed:
  assumes "parse_request_line ok line (empty_request\<lparr>rq_body := b\<rparr>) = Some r"
  shows "if rq_error r = None
      then rq_method r \<noteq> [] \<and> list_all method_char (rq_method r) \<and> rq_raw_target r \<noteq> [] \<and> list_all target_char (rq_raw_target r) \<and>
        version_ok (rq_version r) \<and> set ''?#'' \<inter> set (rq_raw_path r) = {} \<and> CHR ''#'' \<notin> set (rq_query_string r)
      else rq_method r = [] \<and> rq_raw_target r = [] \<and> rq_raw_path r = [] \<and> rq_query_string r = [] \<and> rq_version r = []"
    "rq_body r = b" "rq_values r = []" "rq_raw_values r = []" "rq_headers r = []" "rq_occurrences r = []"
  using assms
  by (auto simp: parse_request_line_def empty_request_def dest: parse_target_parts split: list.splits if_splits)

lemma split_message_body:
  "(case find_from HEADER_TERMINATOR raw of None \<Rightarrow> split_message raw = (raw, [])
    | Some n \<Rightarrow> raw = fst (split_message raw) @ HEADER_TERMINATOR @ snd (split_message raw))"
proof (cases "find_from HEADER_TERMINATOR raw")
  case (Some n)
  then have "prefix HEADER_TERMINATOR (drop n raw)" "length HEADER_TERMINATOR = 4"
    by (auto dest: find_from_Some simp: HEADER_TERMINATOR_def)
  then obtain t where t: "drop n raw = HEADER_TERMINATOR @ t" "length HEADER_TERMINATOR = 4" by (auto elim: prefixE)
  have "drop (n + 4) raw = drop 4 (drop n raw)" by (simp add: add.commute)
  then have "drop (n + 4) raw = t" using t by simp
  then show ?thesis using t(1) Some append_take_drop_id[of n raw] by (simp add: split_message_def)
qed (simp add: split_message_def)

lemma parse_request_cases:
  obtains (failed) "parse_request decode ok raw = failed_parse (empty_request\<lparr>rq_body := snd (split_message raw)\<rparr>)"
  | (parsed) t r h where "decode (fst (split_message raw)) = Some t"
      "parse_request_line ok (hd (split_crlf t)) (empty_request\<lparr>rq_body := snd (split_message raw)\<rparr>) = Some r" "tables_match h"
      "parse_request decode ok raw =
         r\<lparr>rq_headers := hs_headers h, rq_occurrences := hs_occ h, rq_values := hs_values h, rq_raw_values := hs_raw h\<rparr>"
proof -
  obtain hd_bytes body where s: "split_message raw = (hd_bytes, body)" by fastforce
  show ?thesis
  proof (cases "decode hd_bytes")
    case None
    then show ?thesis using s by (intro failed) (simp add: parse_request_def)
  next
    case (Some t)
    show ?thesis
    proof (cases "parse_request_line ok (hd (split_crlf t)) (empty_request\<lparr>rq_body := body\<rparr>)")
      case None
      then show ?thesis using s Some by (intro failed) (simp add: parse_request_def Let_def)
    next
      case (Some r)
      have "tables_match (fold header_line (tl (split_crlf t)) header_init)"
        by (rule tables_lines) (simp add: tables_match_def header_init_def values_of_def values_in_def)
      then show ?thesis using s Some \<open>decode hd_bytes = Some t\<close> by (intro parsed) (auto simp: parse_request_def Let_def)
    qed
  qed
qed

lemma request_typed_intro: "request_typed (parse_request decode netloc_ok raw)"
proof (cases rule: parse_request_cases[of decode netloc_ok raw])
  case failed
  then show ?thesis by (simp add: request_typed_def failed_parse_def empty_request_def values_of_def values_in_def)
next
  case (parsed t r h)
  show ?thesis using parse_request_line_typed[OF parsed(2)] tables_typed[OF parsed(3)]
    by (simp add: request_typed_def parsed(4) split: if_splits)
qed

text \<open>
  C39. Whatever bytes arrive, the parsed request is well formed: its three header tables are views of one list of
  occurrences in wire order, names have no colon and values no outer white space; a request without an error has a method, a
  target and a version of their grammars, a path without query and fragment marks; one with an error has none of them. The
  body is exactly what follows the first blank line.
\<close>

theorem parsed_request_typed:
  "request_typed (parse_request decode netloc_ok raw) \<and>
   (case find_from HEADER_TERMINATOR raw of
      None \<Rightarrow> rq_body (parse_request decode netloc_ok raw) = []
    | Some n \<Rightarrow> raw = take n raw @ HEADER_TERMINATOR @ rq_body (parse_request decode netloc_ok raw))"
proof -
  have "rq_body (parse_request decode netloc_ok raw) = snd (split_message raw)"
    by (cases rule: parse_request_cases[of decode netloc_ok raw])
      (simp_all add: failed_parse_def empty_request_def parse_request_line_typed(2))
  then show ?thesis using request_typed_intro split_message_body[of raw] by (auto simp: split_message_def split: option.splits)
qed

end
