(* ===== verification/Py_Ip.thy ===== *)
theory Py_Ip
  imports Py_Text
begin

section \<open>Python's ipaddress module\<close>

text \<open>
  \<open>ipaddress.ip_address\<close>: reading IPv4 and IPv6 text, the canonical text \<open>compressed\<close>, \<open>is_loopback\<close> and
  \<open>is_unspecified\<close>. An IPv6 value is its eight 16-bit groups with an optional scope. The interpreters the program supports
  differ on IPv4-mapped IPv6 addresses: \<open>ip_rules\<close> says whether flags and text look at the mapped address.
\<close>

datatype ip_address = IPv4 nat | IPv6 "nat list" "string option"

record ip_rules =
  ir_mapped_flags :: bool
  ir_mapped_text :: bool

subsection \<open>Reading\<close>

definition parse_octet :: "string \<Rightarrow> nat option" where
  "parse_octet s =
     (if s = [] \<or> \<not> list_all is_digit s \<or> 3 < length s \<or> (s \<noteq> ''0'' \<and> hd s = CHR ''0'') then None
      else case digits_value 0 False s of Some n \<Rightarrow> if n \<le> 255 then Some n else None | None \<Rightarrow> None)"

definition parse_ipv4 :: "string \<Rightarrow> nat option" where
  "parse_ipv4 s =
     (case map parse_octet (py_split (CHR ''.'') s) of
        [Some a, Some b, Some c, Some d] \<Rightarrow> Some (((a * 256 + b) * 256 + c) * 256 + d) | _ \<Rightarrow> None)"

definition hex_char_value :: "char \<Rightarrow> nat" where
  "hex_char_value c = (if is_digit c then ord c - 48 else if ord c < 97 then ord c - 55 else ord c - 87)"

definition parse_hextet :: "string \<Rightarrow> nat option" where
  "parse_hextet s =
     (if s = [] \<or> 4 < length s \<or> \<not> list_all is_hex s then None else Some (foldl (\<lambda>n c. n * 16 + hex_char_value c) 0 s))"

fun hextets :: "string list \<Rightarrow> nat list option" where
  "hextets [] = Some []"
| "hextets (p # ps) = (case (parse_hextet p, hextets ps) of (Some n, Some ns) \<Rightarrow> Some (n # ns) | _ \<Rightarrow> None)"

fun hex_digits :: "nat \<Rightarrow> string" where
  "hex_digits n = (if n < 16 then [if n < 10 then chr (48 + n) else chr (87 + n)] else hex_digits (n div 16) @ hex_digits (n mod 16))"

declare hex_digits.simps [simp del]

text \<open>The parts between colons, an IPv4 tail rewritten as two groups.\<close>

definition address_parts :: "string \<Rightarrow> string list option" where
  "address_parts s =
     (let parts = py_split (CHR '':'') s
      in if s = [] \<or> length parts < 3 then None
         else if CHR ''.'' \<notin> set (last parts) then Some parts
         else case parse_ipv4 (last parts) of
             None \<Rightarrow> None | Some n \<Rightarrow> Some (butlast parts @ [hex_digits (n div 65536), hex_digits (n mod 65536)]))"

text \<open>The positions of the inner empty parts, where \<open>::\<close> stands.\<close>

definition inner_gaps :: "string list \<Rightarrow> nat list" where
  "inner_gaps parts = filter (\<lambda>i. parts ! i = []) [1..<length parts - 1]"

definition expand_parts :: "string list \<Rightarrow> nat list option" where
  "expand_parts parts =
     (if 9 < length parts then None
      else case inner_gaps parts of
        [] \<Rightarrow> if length parts \<noteq> 8 \<or> hd parts = [] \<or> last parts = [] then None else hextets parts
      | [k] \<Rightarrow>
          (let high = (if hd parts = [] then k - 1 else k);
               low = (if last parts = [] then length parts - k - 2 else length parts - k - 1)
           in if (hd parts = [] \<and> high \<noteq> 0) \<or> (last parts = [] \<and> low \<noteq> 0) \<or> 8 - 1 < high + low then None
              else case (hextets (take high parts), hextets (drop (length parts - low) parts)) of
                (Some hs, Some ls) \<Rightarrow> Some (hs @ replicate (8 - (high + low)) 0 @ ls) | _ \<Rightarrow> None)
      | _ \<Rightarrow> None)"

definition parse_ipv6 :: "string \<Rightarrow> ip_address option" where
  "parse_ipv6 s =
     (let (addr, scope) = cut_at (CHR ''%'') s
      in if CHR ''/'' \<in> set s \<or> (case scope of None \<Rightarrow> False | Some z \<Rightarrow> z = [] \<or> CHR ''%'' \<in> set z) then None
         else case address_parts addr of
             None \<Rightarrow> None
           | Some parts \<Rightarrow> map_option (\<lambda>gs. IPv6 gs scope) (expand_parts parts))"

definition ip_parse :: "string \<Rightarrow> ip_address option" where
  "ip_parse s = (case parse_ipv4 s of Some n \<Rightarrow> Some (IPv4 n) | None \<Rightarrow> parse_ipv6 s)"

subsection \<open>Canonical text\<close>

definition ipv4_text :: "nat \<Rightarrow> string" where
  "ipv4_text n = decimal_digits (n div 16777216) @ ''.'' @ decimal_digits (n div 65536 mod 256) @ ''.'' @
     decimal_digits (n div 256 mod 256) @ ''.'' @ decimal_digits (n mod 256)"

text \<open>The first longest run of zero groups: its start and length.\<close>

fun zero_run :: "nat \<Rightarrow> nat list \<Rightarrow> nat \<Rightarrow> nat \<times> nat \<Rightarrow> nat \<times> nat" where
  "zero_run i [] run best = best"
| "zero_run i (g # gs) run best =
     (if g = 0 then zero_run (Suc i) gs (Suc run) (if snd best < Suc run then (i - run, Suc run) else best)
      else zero_run (Suc i) gs 0 best)"

definition groups_text :: "nat list \<Rightarrow> string" where
  "groups_text gs =
     (let hs = map hex_digits gs; (start, len) = zero_run 0 gs 0 (0, 0)
      in py_join (CHR '':'')
           (if len \<le> 1 then hs
            else (if start = 0 then [[]] else []) @ take start hs @ [[]] @ drop (start + len) hs @
              (if start + len = length hs then [[]] else [])))"

definition mapped_ipv4 :: "nat list \<Rightarrow> nat option" where
  "mapped_ipv4 gs = (if take 6 gs = [0, 0, 0, 0, 0, 65535] then Some (gs ! 6 * 65536 + gs ! 7) else None)"

fun ip_text :: "ip_rules \<Rightarrow> ip_address \<Rightarrow> string" where
  "ip_text rules (IPv4 n) = ipv4_text n"
| "ip_text rules (IPv6 gs scope) =
     (case (if ir_mapped_text rules then mapped_ipv4 gs else None) of
        Some n \<Rightarrow> ''::ffff:'' @ ipv4_text n | None \<Rightarrow> groups_text gs) @
     (case scope of None \<Rightarrow> [] | Some z \<Rightarrow> ''%'' @ z)"

fun ip_is_loopback :: "ip_rules \<Rightarrow> ip_address \<Rightarrow> bool" where
  "ip_is_loopback rules (IPv4 n) = (n div 16777216 = 127)"
| "ip_is_loopback rules (IPv6 gs scope) =
     (case (if ir_mapped_flags rules then mapped_ipv4 gs else None) of
        Some n \<Rightarrow> n div 16777216 = 127 | None \<Rightarrow> gs = replicate 7 0 @ [1])"

fun ip_is_unspecified :: "ip_rules \<Rightarrow> ip_address \<Rightarrow> bool" where
  "ip_is_unspecified rules (IPv4 n) = (n = 0)"
| "ip_is_unspecified rules (IPv6 gs scope) =
     (case (if ir_mapped_flags rules then mapped_ipv4 gs else None) of
        Some n \<Rightarrow> n = 0 | None \<Rightarrow> gs = replicate 8 0)"

end
