(* ===== verification/Request_Admission.thy ===== *)
theory Request_Admission
  imports Http_Request Py_Ip
begin

section \<open>Request admission\<close>

text \<open>
  \<open>RequestAdmissionPolicy\<close> of \<^verbatim>\<open>xferry/request_admission.py\<close>: which hosts a listener answers for, and the check that every
  security-relevant header occurs at most once. Outside the model are the tables of Unicode: \<open>he_idna\<close> is the normalised
  ASCII form of a lower-case host name with non-ASCII characters (NFC, IDNA and its round trip), \<open>None\<close> when it has none;
  \<open>he_netloc_ok\<close> is the check of \<open>urlsplit\<close> as in \<open>Http_Request\<close>.
\<close>

record host_env =
  he_rules :: ip_rules
  he_idna :: "string \<Rightarrow> string option"
  he_netloc_ok :: "string \<Rightarrow> bool"

record authority =
  au_host :: string
  au_port :: "nat option"

record admission_context =
  ac_authority :: "authority option"
  ac_authorization :: "string option"
  ac_origin :: "string option"
  ac_sec_fetch_site :: "string option"
  ac_connection :: "string option"
  ac_upgrade :: "string option"
  ac_websocket_key :: "string option"
  ac_websocket_version :: "string option"
  ac_preflight_method :: "string option"
  ac_preflight_headers :: "string option"

datatype admission_failure = Admission_Failure nat string string

record admission_config =
  cf_bind_host :: string
  cf_server_port :: int
  cf_tls :: bool
  cf_allowed_hosts :: "string list"
  cf_certificate_domain :: "string option"

record admission_policy =
  ap_scheme :: string
  ap_server_port :: nat
  ap_allowed_hosts :: "string set"
  ap_allow_loopback :: bool

definition protected_fields :: "(string \<times> string) list" where
  "protected_fields =
     [(''Host'', ''host''), (''Authorization'', ''authorization''), (''Origin'', ''origin''), (''Sec-Fetch-Site'', ''sec-fetch-site''),
      (''Connection'', ''connection''), (''Upgrade'', ''upgrade''), (''Sec-WebSocket-Key'', ''sec-websocket-key''),
      (''Sec-WebSocket-Version'', ''sec-websocket-version''),
      (''Access-Control-Request-Method'', ''access-control-request-method''),
      (''Access-Control-Request-Headers'', ''access-control-request-headers'')]"

subsection \<open>Host names\<close>

definition effective_port :: "string \<Rightarrow> authority \<Rightarrow> nat" where
  "effective_port scheme a = (case au_port a of Some p \<Rightarrow> p | None \<Rightarrow> if scheme = ''https'' then 443 else 80)"

definition invalid_authority_char :: "char \<Rightarrow> bool" where
  "invalid_authority_char c \<longleftrightarrow> ord c \<le> 32 \<or> ord c = 127 \<or> c \<in> set '',@/?#*'' \<or> ord c = 92"

definition dns_char :: "char \<Rightarrow> bool" where
  "dns_char c \<longleftrightarrow> (is_alnum c \<and> \<not> ascii_upper c) \<or> c = CHR ''.'' \<or> c = CHR ''-''"

definition label_ok :: "string \<Rightarrow> bool" where
  "label_ok l \<longleftrightarrow> l \<noteq> [] \<and> length l \<le> 63 \<and> hd l \<noteq> CHR ''-'' \<and> last l \<noteq> CHR ''-''"

definition ends_with_dot :: "string \<Rightarrow> bool" where "ends_with_dot s \<longleftrightarrow> s \<noteq> [] \<and> last s = CHR ''.''"

text \<open>\<open>str.isdigit\<close> on the code points below 256: the digits and three superscripts.\<close>

definition py_isdigit :: "string \<Rightarrow> bool" where
  "py_isdigit s \<longleftrightarrow> s \<noteq> [] \<and> list_all (\<lambda>c. is_digit c \<or> ord c \<in> {178, 179, 185}) s"

definition normalize_dns_host :: "host_env \<Rightarrow> string \<Rightarrow> string option" where
  "normalize_dns_host env s =
     (let cand = (if ends_with_dot s then butlast s else s)
      in if cand = [] \<or> ends_with_dot cand then None
         else let low = py_lower cand
           in case (if list_all (\<lambda>c. ord c < 128) cand then Some low else he_idna env low) of
                None \<Rightarrow> None
              | Some n \<Rightarrow>
                  if n = [] \<or> 253 < length n \<or> \<not> list_all dns_char n \<or> \<not> list_all label_ok (py_split (CHR ''.'') n) then None
                  else Some n)"

text \<open>The name that is neither an address nor made of digits: the two callers share this test.\<close>

definition host_name :: "host_env \<Rightarrow> string \<Rightarrow> string option" where
  "host_name env s =
     (if py_isdigit (filter (\<lambda>c. c \<noteq> CHR ''.'') s) \<or> (2 \<le> length s \<and> drop (length s - 2) s = ''..'') then None
      else normalize_dns_host env s)"

definition canonical_config_host :: "host_env \<Rightarrow> bool \<Rightarrow> string \<Rightarrow> string option" where
  "canonical_config_host env allow_wildcard s =
     (let cand = py_strip s
      in if cand = [] \<or> list_ex invalid_authority_char cand then None
         else let opened = (hd cand = CHR ''['') in
           if opened \<and> (last cand \<noteq> CHR '']'' \<or> count_list cand (CHR ''['') \<noteq> 1 \<or> count_list cand (CHR '']'') \<noteq> 1) then None
           else let cand = (if opened then butlast (tl cand) else cand)
             in case ip_parse cand of
                  None \<Rightarrow> if CHR '':'' \<in> set cand then None else host_name env cand
                | Some a \<Rightarrow> if \<not> allow_wildcard \<and> ip_is_unspecified (he_rules env) a then None else Some (ip_text (he_rules env) a))"

definition is_unspecified_host :: "host_env \<Rightarrow> string \<Rightarrow> bool" where
  "is_unspecified_host env s =
     (let cand = py_strip s;
          cand = (if cand \<noteq> [] \<and> hd cand = CHR ''['' \<and> last cand = CHR '']'' then butlast (tl cand) else cand)
      in case ip_parse cand of None \<Rightarrow> False | Some a \<Rightarrow> ip_is_unspecified (he_rules env) a)"

definition is_loopback_ip :: "host_env \<Rightarrow> string \<Rightarrow> bool" where
  "is_loopback_ip env s = (case ip_parse s of None \<Rightarrow> False | Some a \<Rightarrow> ip_is_loopback (he_rules env) a)"

subsection \<open>Authorities and origins\<close>

definition parse_port :: "string option \<Rightarrow> nat option option" where
  "parse_port t =
     (case t of
        None \<Rightarrow> Some None
      | Some s \<Rightarrow>
          if s = [] \<or> \<not> list_all is_digit s then None
          else case py_int s of Some n \<Rightarrow> if 1 \<le> n \<and> n \<le> 65535 then Some (Some (nat n)) else None | None \<Rightarrow> None)"

definition bracketed_host :: "host_env \<Rightarrow> string \<Rightarrow> (string \<times> string option) option" where
  "bracketed_host env s =
     (case cut_at (CHR '']'') (tl s) of
        (literal, Some rest) \<Rightarrow>
          if count_list s (CHR ''['') \<noteq> 1 \<or> count_list s (CHR '']'') \<noteq> 1 \<or> (rest \<noteq> [] \<and> hd rest \<noteq> CHR '':'') then None
          else (case ip_parse literal of
              Some (IPv6 gs z) \<Rightarrow> Some (ip_text (he_rules env) (IPv6 gs z), if rest = [] then None else Some (tl rest))
            | _ \<Rightarrow> None)
      | (_, None) \<Rightarrow> None)"

definition plain_host :: "host_env \<Rightarrow> string \<Rightarrow> (string \<times> string option) option" where
  "plain_host env s =
     (if CHR ''['' \<in> set s \<or> CHR '']'' \<in> set s \<or> 1 < count_list s (CHR '':'') then None
      else let (h, port) = cut_at (CHR '':'') s
        in if h = [] then None
           else case ip_parse h of
               Some (IPv4 n) \<Rightarrow> Some (ip_text (he_rules env) (IPv4 n), port)
             | Some _ \<Rightarrow> None
             | None \<Rightarrow> map_option (\<lambda>n. (n, port)) (host_name env h))"

definition parse_authority :: "host_env \<Rightarrow> string \<Rightarrow> authority option" where
  "parse_authority env s =
     (if s = [] \<or> s \<noteq> py_strip s \<or> list_ex invalid_authority_char s then None
      else case (if hd s = CHR ''['' then bracketed_host env s else plain_host env s) of
          None \<Rightarrow> None
        | Some (h, port) \<Rightarrow> map_option (\<lambda>p. \<lparr>au_host = h, au_port = p\<rparr>) (parse_port port))"

definition parse_http_origin :: "host_env \<Rightarrow> string \<Rightarrow> (string \<times> authority) option" where
  "parse_http_origin env s =
     (if s = [] \<or> CHR ''?'' \<in> set s \<or> CHR ''#'' \<in> set s \<or> list_ex (\<lambda>c. is_control c \<or> is_space c) s then None
      else let (scheme, rest) = split_scheme s; (netloc, path) = split_netloc rest
        in if (CHR ''['' \<in> set netloc) \<noteq> (CHR '']'' \<in> set netloc) then None
           else if (CHR ''['' \<in> set netloc \<or> list_ex (\<lambda>c. 128 \<le> ord c) netloc) \<and> \<not> he_netloc_ok env netloc then None
           else if scheme \<notin> {''http'', ''https''} \<or> netloc = [] \<or> CHR ''@'' \<in> set netloc \<or> path \<notin> {[], ''/''} then None
           else map_option (\<lambda>a. (scheme, a)) (parse_authority env netloc))"

subsection \<open>The policy\<close>

fun normalize_hosts :: "host_env \<Rightarrow> string list \<Rightarrow> string list \<Rightarrow> string list option" where
  "normalize_hosts env seen [] = Some (rev seen)"
| "normalize_hosts env seen (v # vs) =
     (if py_strip v = [] then normalize_hosts env seen vs
      else case canonical_config_host env False v of
          None \<Rightarrow> None
        | Some h \<Rightarrow> normalize_hosts env (if h \<in> set seen then seen else h # seen) vs)"

definition normalize_allowed_hosts :: "host_env \<Rightarrow> string list \<Rightarrow> string list option" where
  "normalize_allowed_hosts env vs = normalize_hosts env [] vs"

definition policy_from_config :: "host_env \<Rightarrow> admission_config \<Rightarrow> admission_policy option" where
  "policy_from_config env cf =
     (if cf_server_port cf < 1 \<or> 65535 < cf_server_port cf then None
      else case normalize_allowed_hosts env (cf_allowed_hosts cf) of
        None \<Rightarrow> None
      | Some configured \<Rightarrow>
     (case canonical_config_host env True (cf_bind_host cf) of
        None \<Rightarrow> None
      | Some bind \<Rightarrow>
          let explicit = (configured \<noteq> []);
              loopback = (\<not> explicit \<and> (is_unspecified_host env bind \<or> bind = ''localhost'' \<or> is_loopback_ip env bind));
              allowed = set configured \<union> (if explicit \<or> loopback then {} else {bind});
              done_with = (\<lambda>hosts. \<lparr>ap_scheme = if cf_tls cf then ''https'' else ''http'', ap_server_port = nat (cf_server_port cf),
                 ap_allowed_hosts = hosts, ap_allow_loopback = loopback\<rparr>)
          in case cf_certificate_domain cf of
               None \<Rightarrow> Some (done_with allowed)
             | Some [] \<Rightarrow> Some (done_with allowed)
             | Some d \<Rightarrow>
                 (case canonical_config_host env False d of
                    None \<Rightarrow> None
                  | Some c \<Rightarrow> if explicit \<and> c \<notin> allowed then None else Some (done_with (if explicit then allowed else insert c allowed)))))"

definition host_is_allowed :: "host_env \<Rightarrow> admission_policy \<Rightarrow> string \<Rightarrow> bool" where
  "host_is_allowed env p h \<longleftrightarrow> h \<in> ap_allowed_hosts p \<or> (ap_allow_loopback p \<and> (h = ''localhost'' \<or> is_loopback_ip env h))"

subsection \<open>Admission\<close>

definition invalid_header :: "string \<Rightarrow> admission_failure" where
  "invalid_header name = Admission_Failure 400 ''invalid_header'' name"

text \<open>A protected name written with outer white space.\<close>

definition padded_field :: "string \<times> string \<Rightarrow> string option" where
  "padded_field occ =
     (let norm = py_lower (py_strip (fst occ))
      in if py_lower (fst occ) = norm then None
         else map_option fst (find (\<lambda>(_, n). n = norm) protected_fields))"

fun first_padded :: "(string \<times> string) list \<Rightarrow> string option" where
  "first_padded [] = None"
| "first_padded (x # xs) = (case padded_field x of Some d \<Rightarrow> Some d | None \<Rightarrow> first_padded xs)"

definition repeated_or_folded :: "http_request \<Rightarrow> string \<Rightarrow> bool" where
  "repeated_or_folded r name \<longleftrightarrow>
     1 < length (get_header_values name r) \<or>
     list_ex (\<lambda>v. CHR 0x0D \<in> set v \<or> CHR 0x0A \<in> set v) (get_raw_header_values name r)"

definition single_value :: "http_request \<Rightarrow> string \<Rightarrow> string option" where
  "single_value r name = (case get_header_values name r of [] \<Rightarrow> None | v # _ \<Rightarrow> Some v)"

definition context_for :: "http_request \<Rightarrow> authority option \<Rightarrow> admission_context" where
  "context_for r a = \<lparr>ac_authority = a, ac_authorization = single_value r ''authorization'', ac_origin = single_value r ''origin'',
     ac_sec_fetch_site = single_value r ''sec-fetch-site'', ac_connection = single_value r ''connection'',
     ac_upgrade = single_value r ''upgrade'', ac_websocket_key = single_value r ''sec-websocket-key'',
     ac_websocket_version = single_value r ''sec-websocket-version'',
     ac_preflight_method = single_value r ''access-control-request-method'',
     ac_preflight_headers = single_value r ''access-control-request-headers''\<rparr>"

definition admit :: "host_env \<Rightarrow> admission_policy \<Rightarrow> http_request \<Rightarrow> admission_failure + admission_context" where
  "admit env p r =
     (case first_padded (rq_occurrences r) of
        Some d \<Rightarrow> Inl (invalid_header d)
      | None \<Rightarrow>
     (case find (\<lambda>(_, n). repeated_or_folded r n) protected_fields of
        Some (d, _) \<Rightarrow> Inl (invalid_header d)
      | None \<Rightarrow>
     (case get_header_values ''host'' r of
        [] \<Rightarrow> if rq_version r \<noteq> ''HTTP/1.0'' then Inl (invalid_header ''Host'') else Inr (context_for r None)
      | h # _ \<Rightarrow>
          (case parse_authority env h of
             None \<Rightarrow> Inl (invalid_header ''Host'')
           | Some a \<Rightarrow>
               if \<not> host_is_allowed env p (au_host a) then Inl (Admission_Failure 421 ''misdirected_request'' ''Host'')
               else Inr (context_for r (Some a))))))"

definition is_same_origin :: "host_env \<Rightarrow> admission_policy \<Rightarrow> admission_context \<Rightarrow> string \<Rightarrow> bool" where
  "is_same_origin env p c origin =
     (case ac_authority c of
        None \<Rightarrow> False
      | Some a \<Rightarrow>
          (case parse_http_origin env origin of
             None \<Rightarrow> False
           | Some (s, oa) \<Rightarrow> s = ap_scheme p \<and> au_host oa = au_host a \<and> effective_port s oa = effective_port (ap_scheme p) a))"

subsection \<open>What admission guarantees\<close>

text \<open>Every value of a header, whatever the case and the outer white space of its name.\<close>

definition header_named :: "http_request \<Rightarrow> string \<Rightarrow> string list" where
  "header_named r name = map snd (filter (\<lambda>x. py_lower (py_strip (fst x)) = name) (rq_occurrences r))"

definition trusted_values :: "admission_context \<Rightarrow> (string \<times> string option) list" where
  "trusted_values c =
     [(''authorization'', ac_authorization c), (''origin'', ac_origin c), (''sec-fetch-site'', ac_sec_fetch_site c),
      (''connection'', ac_connection c), (''upgrade'', ac_upgrade c), (''sec-websocket-key'', ac_websocket_key c),
      (''sec-websocket-version'', ac_websocket_version c), (''access-control-request-method'', ac_preflight_method c),
      (''access-control-request-headers'', ac_preflight_headers c)]"

lemma protected_trimmed: "(d, k) \<in> set protected_fields \<Longrightarrow> py_strip k = k \<and> py_lower k = k"
  by (auto simp: protected_fields_def py_strip_def strip_by_def is_space_def py_lower_def lower_char_def ascii_upper_def)

lemma first_padded_None: "first_padded xs = None \<Longrightarrow> x \<in> set xs \<Longrightarrow> padded_field x = None"
  by (induction xs) (auto split: option.splits)

lemma admitted_names:
  assumes t: "request_typed r" and p: "first_padded (rq_occurrences r) = None" and k: "(d, k) \<in> set protected_fields"
  shows "header_named r k = get_header_values k r"
proof -
  have "py_lower (py_strip (fst x)) = k \<longleftrightarrow> py_lower (fst x) = k" if x: "x \<in> set (rq_occurrences r)" for x
  proof
    assume n: "py_lower (py_strip (fst x)) = k"
    have "find (\<lambda>(_, m). m = k) protected_fields \<noteq> None" using k by (auto simp: find_None_iff)
    then show "py_lower (fst x) = k" using first_padded_None[OF p x] n by (auto simp: padded_field_def Let_def split: if_splits)
  next
    assume "py_lower (fst x) = k"
    then show "py_lower (py_strip (fst x)) = k" using protected_trimmed[OF k] by (simp add: strip_lower[symmetric])
  qed
  then have "header_named r k = values_in (rq_occurrences r) k"
    unfolding header_named_def values_in_def by (intro arg_cong[of _ _ "map snd"] filter_cong) auto
  then show ?thesis using t protected_trimmed[OF k] by (simp add: get_header_values_def request_typed_def)
qed

lemma admitted_single:
  assumes t: "request_typed r" and p: "first_padded (rq_occurrences r) = None" and k: "(d, k) \<in> set protected_fields"
    and "find (\<lambda>(_, n). repeated_or_folded r n) protected_fields = None"
  shows "header_named r k = (case single_value r k of None \<Rightarrow> [] | Some v \<Rightarrow> [v])"
proof -
  have "\<not> repeated_or_folded r k" using assms(4) k by (auto simp: find_None_iff)
  then show ?thesis using admitted_names[OF t p k]
    by (cases "get_header_values k r"; cases "tl (get_header_values k r)") (auto simp: single_value_def repeated_or_folded_def)
qed

text \<open>The hosts a configuration answers for: its list, or else its certificate's host and its bind address, for which
  a local or unspecified address stands for the loopback hosts.\<close>

definition answers_for :: "host_env \<Rightarrow> admission_config \<Rightarrow> string \<Rightarrow> bool" where
  "answers_for env cf h \<longleftrightarrow>
     (case (normalize_allowed_hosts env (cf_allowed_hosts cf), canonical_config_host env True (cf_bind_host cf)) of
        (Some hosts, Some bind) \<Rightarrow>
          if hosts \<noteq> [] then h \<in> set hosts
          else Some h = Option.bind (cf_certificate_domain cf) (canonical_config_host env False) \<or>
            (if is_unspecified_host env bind \<or> bind = ''localhost'' \<or> is_loopback_ip env bind
             then h = ''localhost'' \<or> is_loopback_ip env h else h = bind)
      | _ \<Rightarrow> False)"

lemma policy_answers:
  assumes "policy_from_config env cf = Some p" "host_is_allowed env p h"
  shows "answers_for env cf h"
proof -
  obtain hosts bind where h: "normalize_allowed_hosts env (cf_allowed_hosts cf) = Some hosts"
    "canonical_config_host env True (cf_bind_host cf) = Some bind"
    using assms(1) by (auto simp: policy_from_config_def split: if_splits option.splits)
  show ?thesis
  proof (cases "cf_certificate_domain cf")
    case None
    then show ?thesis using assms h
      by (auto simp: policy_from_config_def answers_for_def host_is_allowed_def Let_def split: if_splits)
  next
    case (Some d)
    show ?thesis
    proof (cases "d = []")
      case True
      then show ?thesis using assms h Some
        by (auto simp: policy_from_config_def answers_for_def host_is_allowed_def Let_def split: if_splits)
    next
      case False
      then obtain x xs where "d = x # xs" by (cases d) auto
      then show ?thesis using assms h Some
        by (auto simp: policy_from_config_def answers_for_def host_is_allowed_def Let_def split: if_splits option.splits)
    qed
  qed
qed

lemma admit_cases:
  assumes "admit env p r = Inr c"
  obtains a where "first_padded (rq_occurrences r) = None" "find (\<lambda>(_, n). repeated_or_folded r n) protected_fields = None"
    "c = context_for r a"
    "case get_header_values ''host'' r of [] \<Rightarrow> rq_version r = ''HTTP/1.0'' \<and> a = None
     | h # _ \<Rightarrow> (\<exists>x. parse_authority env h = Some x \<and> a = Some x \<and> host_is_allowed env p (au_host x))"
  using assms by (auto simp: admit_def split: option.splits list.splits if_splits)

subsection \<open>A demonstration listener\<close>

definition demo_host_env :: host_env where
  "demo_host_env = \<lparr>he_rules = \<lparr>ir_mapped_flags = False, ir_mapped_text = False\<rparr>, he_idna = (\<lambda>_. None), he_netloc_ok = (\<lambda>_. False)\<rparr>"

definition demo_config :: admission_config where
  "demo_config = \<lparr>cf_bind_host = ''127.0.0.1'', cf_server_port = 8080, cf_tls = False, cf_allowed_hosts = [],
     cf_certificate_domain = None\<rparr>"

definition demo_policy :: admission_policy where
  "demo_policy = \<lparr>ap_scheme = ''http'', ap_server_port = 8080, ap_allowed_hosts = {}, ap_allow_loopback = True\<rparr>"

definition demo_head :: string where "demo_head = ''GET / HTTP/1.1'' @ crlf_text @ ''Host: localhost:8080''"

definition demo_decode :: "bytes \<Rightarrow> string option" where "demo_decode bs = Some (map (\<lambda>b. chr (unat b)) bs)"

lemma demo_authority: "parse_authority demo_host_env ''localhost:8080'' = Some \<lparr>au_host = ''localhost'', au_port = Some 8080\<rparr>"
  by (simp add: parse_authority_def plain_host_def cut_at_def host_name_def ip_parse_def parse_ipv4_def parse_octet_def parse_ipv6_def
    address_parts_def normalize_dns_host_def py_lower_def lower_char_def ends_with_dot_def label_ok_def dns_char_def py_isdigit_def parse_port_def
    py_int_def is_digit_def is_alnum_def ascii_upper_def invalid_authority_char_def py_strip_def strip_by_def is_space_def)

lemma demo_bind: "canonical_config_host demo_host_env True ''127.0.0.1'' = Some ''127.0.0.1''"
  by (simp add: canonical_config_host_def ip_parse_def parse_ipv4_def parse_octet_def is_digit_def ipv4_text_def decimal_digits.simps char_of_def bit_Suc_0_iff
    py_strip_def strip_by_def is_space_def invalid_authority_char_def)

lemma demo_loopback: "is_loopback_ip demo_host_env ''127.0.0.1''"
  by (simp add: is_loopback_ip_def ip_parse_def parse_ipv4_def parse_octet_def is_digit_def)

lemma demo_policy_built: "policy_from_config demo_host_env demo_config = Some demo_policy"
  by (simp add: policy_from_config_def demo_config_def demo_policy_def normalize_allowed_hosts_def demo_bind demo_loopback Let_def)

lemma demo_split: "split_message (ascii_bytes demo_head) = (ascii_bytes demo_head, [])"
  by (simp add: split_message_def demo_head_def ascii_bytes_def crlf_text_def HEADER_TERMINATOR_def)

lemma demo_decoded: "demo_decode (ascii_bytes demo_head) = Some demo_head"
  by (simp add: demo_decode_def ascii_bytes_def unat_of_nat_byte comp_def)

lemma demo_lines: "split_crlf demo_head = [''GET / HTTP/1.1'', ''Host: localhost:8080'']"
  by (simp add: demo_head_def crlf_text_def)

lemma demo_parsed: "parse_request demo_decode (\<lambda>_. False) (ascii_bytes demo_head) =
   \<lparr>rq_method = ''GET'', rq_raw_target = ''/'', rq_raw_path = ''/'', rq_query_string = [], rq_version = ''HTTP/1.1'',
    rq_headers = [(''host'', ''localhost:8080'')], rq_occurrences = [(''Host'', ''localhost:8080'')],
    rq_values = [(''host'', [''localhost:8080''])], rq_raw_values = [(''host'', ['' localhost:8080''])], rq_body = [], rq_error = None\<rparr>"
  by (simp add: parse_request_def demo_split demo_decoded demo_lines parse_request_line_def empty_request_def method_char_def target_char_def version_ok_def
    cut_at_def is_alnum_def is_digit_def ascii_upper_def parse_target_def split_scheme_def split_netloc_def strip_params_def params_schemes_def
    header_line_def header_init_def add_line_def py_lower_def lower_char_def py_strip_def strip_by_def is_space_def values_of_def char_of_def bit_Suc_0_iff Let_def)

definition demo_admitted :: admission_context where
  "demo_admitted = \<lparr>ac_authority = Some \<lparr>au_host = ''localhost'', au_port = Some 8080\<rparr>, ac_authorization = None, ac_origin = None,
     ac_sec_fetch_site = None, ac_connection = None, ac_upgrade = None, ac_websocket_key = None, ac_websocket_version = None,
     ac_preflight_method = None, ac_preflight_headers = None\<rparr>"

lemma demo_admission: "admit demo_host_env demo_policy (parse_request demo_decode (\<lambda>_. False) (ascii_bytes demo_head)) = Inr demo_admitted"
  by (simp add: admit_def demo_parsed padded_field_def protected_fields_def repeated_or_folded_def get_header_values_def get_raw_header_values_def
    values_of_def py_lower_def lower_char_def py_strip_def strip_by_def is_space_def ascii_upper_def char_of_def demo_authority host_is_allowed_def
    demo_policy_def context_for_def single_value_def demo_admitted_def)

subsection \<open>Property\<close>

text \<open>
  C40. An admitted request is unambiguous to every later check. Each security-relevant header occurs at most once, under any
  spelling of its name, not folded over lines, and the context holds exactly that value. Without an authority the request is
  HTTP/1.0 and has no Host at all; otherwise its one Host names a host of the configured list, or, without a list, the
  certificate's host or the bind address, where a listener on a local or unspecified address answers for loopback hosts only.
\<close>

theorem admitted_request_guarded:
  assumes pol: "policy_from_config env cf = Some p"
    and r: "r = parse_request decode (he_netloc_ok env) raw" and adm: "admit env p r = Inr c"
  shows "list_all (\<lambda>(name, v). header_named r name = (case v of None \<Rightarrow> [] | Some x \<Rightarrow> [x])) (trusted_values c) \<and>
    list_all (\<lambda>(_, name). list_all (\<lambda>v. CHR 0x0D \<notin> set v \<and> CHR 0x0A \<notin> set v) (get_raw_header_values name r)) protected_fields \<and>
    (case ac_authority c of
       None \<Rightarrow> header_named r ''host'' = [] \<and> rq_version r = ''HTTP/1.0''
     | Some a \<Rightarrow> (\<exists>h. header_named r ''host'' = [h] \<and> parse_authority env h = Some a) \<and> answers_for env cf (au_host a))"
proof -
  have t: "request_typed r" using request_typed_intro r by simp
  obtain a where a: "first_padded (rq_occurrences r) = None" "find (\<lambda>(_, n). repeated_or_folded r n) protected_fields = None"
    "c = context_for r a"
    "case get_header_values ''host'' r of [] \<Rightarrow> rq_version r = ''HTTP/1.0'' \<and> a = None
     | h # _ \<Rightarrow> (\<exists>x. parse_authority env h = Some x \<and> a = Some x \<and> host_is_allowed env p (au_host x))"
    using adm by (rule admit_cases)
  note one = admitted_single[OF t a(1) _ a(2)]
  have "list_all (\<lambda>(name, v). header_named r name = (case v of None \<Rightarrow> [] | Some x \<Rightarrow> [x])) (trusted_values c)"
    by (simp add: trusted_values_def a(3) context_for_def) (intro conjI one; simp add: protected_fields_def)
  moreover have "list_all (\<lambda>(_, name). list_all (\<lambda>v. CHR 0x0D \<notin> set v \<and> CHR 0x0A \<notin> set v) (get_raw_header_values name r)) protected_fields"
    using a(2) by (fastforce simp: find_None_iff list_all_iff list_ex_iff repeated_or_folded_def)
  moreover have "header_named r ''host'' = (case single_value r ''host'' of None \<Rightarrow> [] | Some v \<Rightarrow> [v])"
    by (rule one[of "''Host''"]) (simp add: protected_fields_def)
  moreover have "ac_authority c = a" by (simp add: a(3) context_for_def)
  ultimately show ?thesis using a(4) policy_answers[OF pol]
    by (cases "get_header_values ''host'' r") (auto simp: single_value_def)
qed

theorem admitted_request_guarded_witness:
  "header_named (parse_request demo_decode (\<lambda>_. False) (ascii_bytes demo_head)) ''authorization'' = [] \<and>
   answers_for demo_host_env demo_config ''localhost''"
proof -
  have ok: "he_netloc_ok demo_host_env = (\<lambda>_. False)" by (simp add: demo_host_env_def)
  have "ac_authority demo_admitted = Some \<lparr>au_host = ''localhost'', au_port = Some 8080\<rparr>" "ac_authorization demo_admitted = None"
    by (simp_all add: demo_admitted_def)
  with admitted_request_guarded[OF demo_policy_built refl, unfolded ok, OF demo_admission] show ?thesis
    by (simp add: trusted_values_def)
qed

end
