(* ===== verification/Method_Registry.thy ===== *)
theory Method_Registry
  imports Py_Text
begin

section \<open>Methods, plugins and CORS\<close>

text \<open>
  The always-on method table (\<^verbatim>\<open>xferry/features.py\<close>), the case-insensitive \<open>HandlerRegistry\<close>
  (\<^verbatim>\<open>xferry/handlers/registry.py\<close>), the registration of plugin methods (\<^verbatim>\<open>xferry/extensions.py\<close>,
  \<open>_register_plugins\<close> of \<^verbatim>\<open>xferry/server.py\<close>) and the CORS policy that is computed from them
  (\<^verbatim>\<open>xferry/http/cors.py\<close>). A handler is named, not run: \<open>Core_Handler\<close> is the bound method of that name,
  \<open>Plugin_Handler\<close> the wrapped function of a plugin.
\<close>

subsection \<open>Upper case\<close>

text \<open>\<open>str.upper\<close> on one character; only the two characters whose capital lies above code point 255 are left as they are.\<close>

definition upper_char :: "char \<Rightarrow> string" where
  "upper_char c =
     (if 97 \<le> ord c \<and> ord c \<le> 122 then [chr (ord c - 32)]
      else if ord c = 223 then ''SS''
      else if 224 \<le> ord c \<and> ord c \<le> 254 \<and> ord c \<noteq> 247 then [chr (ord c - 32)]
      else [c])"

definition py_upper :: "string \<Rightarrow> string" where "py_upper s = concat (map upper_char s)"

lemma py_upper_append [simp]: "py_upper (s @ t) = py_upper s @ py_upper t"
  by (simp add: py_upper_def)

lemma upper_upper_char: "x \<in> set (upper_char c) \<Longrightarrow> upper_char x = [x]"
  by (auto simp: upper_char_def split: if_splits)

lemma concat_singles: "(\<And>x. x \<in> set s \<Longrightarrow> f x = [x]) \<Longrightarrow> concat (map f s) = s"
  by (induction s) auto

lemma py_upper_idem [simp]: "py_upper (py_upper s) = py_upper s"
  unfolding py_upper_def by (rule concat_singles) (auto dest: upper_upper_char)

subsection \<open>The core methods\<close>

datatype ui_group = Ui_Request | Ui_Upload | Ui_Files | Ui_Notepad

record core_method =
  cm_method :: string
  cm_handler :: string
  cm_mutating :: bool
  cm_cors_exact :: bool
  cm_cors_wildcard :: bool
  cm_ui_group :: ui_group

definition core_methods :: "core_method list" where
  "core_methods =
     [\<lparr>cm_method = ''GET'', cm_handler = ''handle_get'', cm_mutating = False, cm_cors_exact = True, cm_cors_wildcard = True,
        cm_ui_group = Ui_Request\<rparr>,
      \<lparr>cm_method = ''HEAD'', cm_handler = ''handle_head'', cm_mutating = False, cm_cors_exact = True, cm_cors_wildcard = True,
        cm_ui_group = Ui_Request\<rparr>,
      \<lparr>cm_method = ''POST'', cm_handler = ''handle_post'', cm_mutating = True, cm_cors_exact = True, cm_cors_wildcard = False,
        cm_ui_group = Ui_Upload\<rparr>,
      \<lparr>cm_method = ''PUT'', cm_handler = ''handle_none'', cm_mutating = True, cm_cors_exact = True, cm_cors_wildcard = False,
        cm_ui_group = Ui_Upload\<rparr>,
      \<lparr>cm_method = ''PATCH'', cm_handler = ''handle_patch'', cm_mutating = True, cm_cors_exact = True, cm_cors_wildcard = False,
        cm_ui_group = Ui_Upload\<rparr>,
      \<lparr>cm_method = ''DELETE'', cm_handler = ''handle_delete'', cm_mutating = True, cm_cors_exact = True, cm_cors_wildcard = False,
        cm_ui_group = Ui_Files\<rparr>,
      \<lparr>cm_method = ''OPTIONS'', cm_handler = ''handle_options'', cm_mutating = False, cm_cors_exact = True, cm_cors_wildcard = True,
        cm_ui_group = Ui_Request\<rparr>,
      \<lparr>cm_method = ''FETCH'', cm_handler = ''handle_fetch'', cm_mutating = False, cm_cors_exact = True, cm_cors_wildcard = True,
        cm_ui_group = Ui_Files\<rparr>,
      \<lparr>cm_method = ''INFO'', cm_handler = ''handle_info'', cm_mutating = False, cm_cors_exact = True, cm_cors_wildcard = True,
        cm_ui_group = Ui_Request\<rparr>,
      \<lparr>cm_method = ''PING'', cm_handler = ''handle_ping'', cm_mutating = False, cm_cors_exact = True, cm_cors_wildcard = True,
        cm_ui_group = Ui_Request\<rparr>,
      \<lparr>cm_method = ''NONE'', cm_handler = ''handle_none'', cm_mutating = True, cm_cors_exact = True, cm_cors_wildcard = False,
        cm_ui_group = Ui_Upload\<rparr>,
      \<lparr>cm_method = ''NOTE'', cm_handler = ''handle_note'', cm_mutating = True, cm_cors_exact = True, cm_cors_wildcard = False,
        cm_ui_group = Ui_Notepad\<rparr>,
      \<lparr>cm_method = ''SMUGGLE'', cm_handler = ''handle_smuggle'', cm_mutating = True, cm_cors_exact = True, cm_cors_wildcard = False,
        cm_ui_group = Ui_Files\<rparr>]"

definition core_method_spec :: "string \<Rightarrow> core_method option" where
  "core_method_spec m = find (\<lambda>s. cm_method s = py_upper (py_strip m)) core_methods"

definition registry_methods :: "string list" where "registry_methods = map cm_method core_methods"

definition cors_methods :: "bool \<Rightarrow> string list" where
  "cors_methods read_only = map cm_method (filter (\<lambda>s. if read_only then cm_cors_wildcard s else cm_cors_exact s) core_methods)"

definition allows_unknown_cors_method :: "bool \<Rightarrow> string \<Rightarrow> bool" where
  "allows_unknown_cors_method read_only m \<longleftrightarrow> \<not> read_only \<and> py_strip m \<noteq> []"

definition websocket_route_enabled :: "string \<Rightarrow> bool" where "websocket_route_enabled path \<longleftrightarrow> path = ''/notes/ws''"

text \<open>\<open>ui_method_groups\<close>: the groups in the order of their first method.\<close>

definition ui_method_groups :: "string list option \<Rightarrow> (ui_group, string list) dict" where
  "ui_method_groups available =
     fold (\<lambda>s d. if (case available of None \<Rightarrow> False | Some ms \<Rightarrow> cm_method s \<notin> set (map (\<lambda>m. py_upper (py_strip m)) ms)) then d
               else dict_set (cm_ui_group s)
                 ((case dict_get d (cm_ui_group s) of None \<Rightarrow> [] | Some l \<Rightarrow> l) @ [cm_method s]) d)
       core_methods []"

subsection \<open>The handler registry\<close>

datatype handler = Core_Handler string | Plugin_Handler string string

type_synonym registry = "(string, handler) dict"

definition register :: "string \<Rightarrow> handler \<Rightarrow> registry \<Rightarrow> registry" where "register m h reg = dict_set (py_upper m) h reg"

definition register_many :: "(string \<times> handler) list \<Rightarrow> registry \<Rightarrow> registry" where
  "register_many hs reg = fold (\<lambda>(m, h). register m h) hs reg"

definition unregister :: "string \<Rightarrow> registry \<Rightarrow> registry" where "unregister m reg = dict_del (py_upper m) reg"

definition get_handler :: "registry \<Rightarrow> string \<Rightarrow> handler option" where "get_handler reg m = dict_get reg (py_upper m)"

definition has_method :: "registry \<Rightarrow> string \<Rightarrow> bool" where "has_method reg m \<longleftrightarrow> get_handler reg m \<noteq> None"

definition build_method_handlers :: registry where
  "build_method_handlers = register_many (map (\<lambda>s. (cm_method s, Core_Handler (cm_handler s))) core_methods) []"

subsection \<open>Plugins\<close>

record plugin_method =
  pm_method :: string
  pm_handler :: string
  pm_mutating :: bool
  pm_cors_allowed :: bool

record plugin_spec =
  pl_name :: string
  pl_methods :: "plugin_method list"

definition plugin_method_name_ok :: "string \<Rightarrow> bool" where
  "plugin_method_name_ok m \<longleftrightarrow> m \<noteq> [] \<and> ascii_upper (hd m) \<and>
     list_all (\<lambda>c. ascii_upper c \<or> is_digit c \<or> c = CHR ''_'' \<or> c = CHR ''-'') (tl m)"

definition normalized_method :: "plugin_method \<Rightarrow> py_error + plugin_method" where
  "normalized_method p =
     (let m = py_upper (py_strip (pm_method p)) in if plugin_method_name_ok m then Inr (p\<lparr>pm_method := m\<rparr>) else Inl ValueError)"

fun normalized_methods :: "plugin_method list \<Rightarrow> py_error + plugin_method list" where
  "normalized_methods [] = Inr []"
| "normalized_methods (p # ps) =
     (case normalized_method p of
        Inl e \<Rightarrow> Inl e
      | Inr q \<Rightarrow> (case normalized_methods ps of Inl e \<Rightarrow> Inl e | Inr qs \<Rightarrow> Inr (q # qs)))"

definition normalized_plugin :: "plugin_spec \<Rightarrow> py_error + plugin_spec" where
  "normalized_plugin s =
     (if py_strip (pl_name s) = [] then Inl ValueError
      else case normalized_methods (pl_methods s) of
          Inl e \<Rightarrow> Inl e
        | Inr ms \<Rightarrow> Inr \<lparr>pl_name = py_strip (pl_name s), pl_methods = ms\<rparr>)"

text \<open>\<open>coerce_plugin_specs\<close>, with the specifications that the imports of the allowed modules give already loaded.\<close>

fun coerce_plugin_specs :: "plugin_spec list \<Rightarrow> py_error + plugin_spec list" where
  "coerce_plugin_specs [] = Inr []"
| "coerce_plugin_specs (s # ss) =
     (case normalized_plugin s of
        Inl e \<Rightarrow> Inl e
      | Inr p \<Rightarrow> (case coerce_plugin_specs ss of Inl e \<Rightarrow> Inl e | Inr ps \<Rightarrow> Inr (p # ps)))"

fun validate_methods :: "bool \<Rightarrow> string list \<Rightarrow> plugin_method list \<Rightarrow> py_error + string list" where
  "validate_methods override seen [] = Inr seen"
| "validate_methods override seen (p # ps) =
     (if pm_method p \<in> set seen then Inl ValueError
      else if pm_method p \<in> set registry_methods \<and> \<not> override then Inl ValueError
      else validate_methods override (pm_method p # seen) ps)"

fun validate_plugins :: "bool \<Rightarrow> string list \<Rightarrow> string list \<Rightarrow> plugin_spec list \<Rightarrow> py_error + unit" where
  "validate_plugins override names methods [] = Inr ()"
| "validate_plugins override names methods (p # ps) =
     (if pl_name p \<in> set names then Inl ValueError
      else case validate_methods override methods (pl_methods p) of
          Inl e \<Rightarrow> Inl e
        | Inr ms \<Rightarrow> validate_plugins override (pl_name p # names) ms ps)"

type_synonym method_tables = "registry \<times> (string, plugin_method) dict"

fun register_methods :: "bool \<Rightarrow> string \<Rightarrow> plugin_method list \<Rightarrow> method_tables \<Rightarrow> py_error + method_tables" where
  "register_methods override name [] t = Inr t"
| "register_methods override name (p # ps) (reg, pols) =
     (if pm_method p \<in> set registry_methods \<and> \<not> override then Inl ValueError
      else register_methods override name ps
        (register (pm_method p) (Plugin_Handler name (pm_handler p)) reg, dict_set (pm_method p) p pols))"

fun register_all :: "bool \<Rightarrow> plugin_spec list \<Rightarrow> method_tables \<Rightarrow> py_error + method_tables" where
  "register_all override [] t = Inr t"
| "register_all override (p # ps) t =
     (case register_methods override (pl_name p) (pl_methods p) t of Inl e \<Rightarrow> Inl e | Inr t \<Rightarrow> register_all override ps t)"

text \<open>The tables of a new server: the plugins are checked as a whole, and checked again while they are registered.\<close>

definition register_plugins ::
  "bool \<Rightarrow> bool \<Rightarrow> bool \<Rightarrow> plugin_spec list \<Rightarrow> method_tables \<Rightarrow> py_error + method_tables"
where
  "register_plugins public_direct allow_public_direct override plugins t =
     (if public_direct \<and> plugins \<noteq> [] \<and> \<not> allow_public_direct then Inl ValueError
      else case coerce_plugin_specs plugins of Inl e \<Rightarrow> Inl e | Inr ps \<Rightarrow> register_all override ps t)"

definition method_tables_init :: "bool \<Rightarrow> bool \<Rightarrow> bool \<Rightarrow> plugin_spec list \<Rightarrow> py_error + method_tables" where
  "method_tables_init public_direct allow_public_direct override plugins =
     (case coerce_plugin_specs plugins of
        Inl e \<Rightarrow> Inl e
      | Inr ps \<Rightarrow>
          (case validate_plugins override [] [] ps of
             Inl e \<Rightarrow> Inl e
           | Inr _ \<Rightarrow> register_plugins public_direct allow_public_direct override ps (build_method_handlers, [])))"

subsection \<open>CORS\<close>

fun text_join :: "string \<Rightarrow> string list \<Rightarrow> string" where
  "text_join sep [] = []"
| "text_join sep [s] = s"
| "text_join sep (s # t # r) = s @ sep @ text_join sep (t # r)"

text \<open>The loop of \<open>parse_cors_origins\<close>: trimmed, nonempty and new values, in order.\<close>

definition trimmed_values :: "string list \<Rightarrow> string list" where
  "trimmed_values raw = fold (\<lambda>v acc. let o' = py_strip v in if o' = [] \<or> o' \<in> set acc then acc else acc @ [o']) raw []"

definition parse_cors_origins :: "string option \<Rightarrow> py_error + string list" where
  "parse_cors_origins configured =
     (case configured of
        None \<Rightarrow> Inr []
      | Some s \<Rightarrow>
          if s = [] then Inr []
          else (let os = trimmed_values (py_split (CHR '','') s)
            in if ''*'' \<in> set os \<and> 1 < length os then Inl ValueError
               else if ''*'' \<in> set os then Inr [''*''] else Inr os))"

definition resolve_origin :: "string list \<Rightarrow> string option \<Rightarrow> string option" where
  "resolve_origin origins request_origin =
     (if origins = [] then None
      else if origins = [''*''] then Some ''*''
      else case request_origin of Some x \<Rightarrow> if x \<noteq> [] \<and> x \<in> set origins then Some x else None | None \<Rightarrow> None)"

definition resolve_cors_origin :: "string option \<Rightarrow> string option \<Rightarrow> py_error + string option" where
  "resolve_cors_origin configured request_origin =
     (case parse_cors_origins configured of Inl e \<Rightarrow> Inl e | Inr origins \<Rightarrow> Inr (resolve_origin origins request_origin))"

definition normalize_cors_header_origin :: "string option \<Rightarrow> py_error + string option" where
  "normalize_cors_header_origin o' =
     (case parse_cors_origins o' of Inl e \<Rightarrow> Inl e | Inr origins \<Rightarrow> Inr (case origins of [x] \<Rightarrow> Some x | _ \<Rightarrow> None))"

definition http_token_char :: "char \<Rightarrow> bool" where
  "http_token_char c \<longleftrightarrow> is_alnum c \<or> c \<in> set ''!#$%&*+-.^_`|~'' \<or> ord c = 39"

definition is_http_token :: "string \<Rightarrow> bool" where "is_http_token s \<longleftrightarrow> s \<noteq> [] \<and> list_all http_token_char s"

definition preflight_methods :: "bool \<Rightarrow> string \<Rightarrow> string list" where
  "preflight_methods read_only requested =
     (let ms = cors_methods read_only; m = py_upper (py_strip requested)
      in if allows_unknown_cors_method read_only m \<and> m \<noteq> [] \<and> m \<notin> set ms \<and> is_http_token m then ms @ [m] else ms)"

definition resolve_preflight_allow_methods :: "bool \<Rightarrow> string \<Rightarrow> string" where
  "resolve_preflight_allow_methods read_only requested = text_join '', '' (preflight_methods read_only requested)"

definition CORS_BASIC_ALLOW_HEADERS :: "string list" where
  "CORS_BASIC_ALLOW_HEADERS =
     [''Authorization'', ''Content-Type'', ''If-None-Match'', ''X-File-Name'', ''X-Request-Id'', ''X-XFerry-No-Gzip'', ''X-Exphttp-No-Gzip'']"

definition CORS_ADVANCED_ALLOW_HEADERS :: "string list" where
  "CORS_ADVANCED_ALLOW_HEADERS =
     [''X-XFerry-Advanced-Session'', ''X-XFerry-Data''] @ map (\<lambda>i. ''X-XFerry-Data-'' @ py_str_int (int i)) [0..<256] @
     [''X-XFerry-Encryption'', ''X-XFerry-Key'', ''X-XFerry-Key-Is-Base64'', ''X-XFerry-Name'', ''X-XFerry-HMAC'', ''X-XFerry-Encoding'',
      ''X-XFerry-Method-Override'']"

text \<open>The canonical spelling by lower-case name; the later table wins, and gives the same spelling.\<close>

definition canonical_header :: "bool \<Rightarrow> string \<Rightarrow> string option" where
  "canonical_header allow_advanced name =
     (case (if allow_advanced then find (\<lambda>h. py_lower h = name) (rev CORS_ADVANCED_ALLOW_HEADERS) else None) of
        Some h \<Rightarrow> Some h
      | None \<Rightarrow> find (\<lambda>h. py_lower h = name) (rev CORS_BASIC_ALLOW_HEADERS))"

definition preflight_headers :: "bool \<Rightarrow> string \<Rightarrow> string list" where
  "preflight_headers allow_advanced requested =
     fold (\<lambda>raw acc. let h = py_strip raw
         in if h = [] \<or> \<not> is_http_token h then acc
            else case canonical_header allow_advanced (py_lower h) of
                None \<Rightarrow> acc
              | Some c \<Rightarrow> if py_lower c \<in> py_lower ` set acc then acc else acc @ [c])
       (py_split (CHR '','') requested) []"

definition resolve_preflight_allow_headers :: "bool \<Rightarrow> string \<Rightarrow> string option" where
  "resolve_preflight_allow_headers allow_advanced requested =
     (let hs = preflight_headers allow_advanced requested in if hs = [] then None else Some (text_join '', '' hs))"

text \<open>\<open>_cors_allow_methods_header\<close> of the server.\<close>

definition allowed_cors_methods :: "string list \<Rightarrow> (string, plugin_method) dict \<Rightarrow> string list" where
  "allowed_cors_methods origins pols =
     (let read_only = (origins = [''*''])
      in cors_methods read_only @
         map fst (filter (\<lambda>(_, p). pm_cors_allowed p \<and> \<not> (read_only \<and> pm_mutating p)) pols))"

definition cors_allow_methods_header :: "string list \<Rightarrow> (string, plugin_method) dict \<Rightarrow> string" where
  "cors_allow_methods_header origins pols = text_join '', '' (allowed_cors_methods origins pols)"

subsection \<open>The tables after registration\<close>

text \<open>Every policy goes with the handler of its plugin under the same upper-case name, and every other handler is the one of
  the core table.\<close>

definition tables_ok :: "method_tables \<Rightarrow> bool" where
  "tables_ok t \<longleftrightarrow>
     (\<forall>m p. dict_get (snd t) m = Some p \<longrightarrow> py_upper m = m \<and> (\<exists>name. dict_get (fst t) m = Some (Plugin_Handler name (pm_handler p)))) \<and>
     (\<forall>m h. dict_get (fst t) m = Some h \<longrightarrow> dict_get (snd t) m = None \<longrightarrow>
        (\<exists>s \<in> set core_methods. cm_method s = m \<and> h = Core_Handler (cm_handler s))) \<and>
     (\<forall>s \<in> set core_methods. dict_get (fst t) (cm_method s) \<noteq> None)"

lemma plugin_name_upper:
  assumes "plugin_method_name_ok m" shows "py_upper m = m"
proof -
  have "upper_char x = [x]" if "x \<in> set m" for x
  proof -
    have "x = hd m \<or> x \<in> set (tl m)" using that by (cases m) auto
    then have "ascii_upper x \<or> is_digit x \<or> x = CHR ''_'' \<or> x = CHR ''-''"
      using assms by (auto simp: plugin_method_name_ok_def list_all_iff)
    then show ?thesis by (auto simp: upper_char_def ascii_upper_def is_digit_def)
  qed
  then show ?thesis unfolding py_upper_def by (rule concat_singles)
qed

lemma normalized_methods_upper: "normalized_methods ps = Inr qs \<Longrightarrow> \<forall>q \<in> set qs. py_upper (pm_method q) = pm_method q"
  by (induction ps arbitrary: qs) (auto simp: normalized_method_def Let_def split: sum.splits if_splits)

lemma coerced_upper: "coerce_plugin_specs ss = Inr ps \<Longrightarrow> \<forall>p \<in> set ps. \<forall>q \<in> set (pl_methods p). py_upper (pm_method q) = pm_method q"
  by (induction ss arbitrary: ps) (auto simp: normalized_plugin_def dest!: normalized_methods_upper split: sum.splits if_splits)

lemma core_upper: "s \<in> set core_methods \<Longrightarrow> py_upper (cm_method s) = cm_method s"
  by (auto simp: core_methods_def py_upper_def upper_char_def)

lemma core_method_unique: "s \<in> set core_methods \<Longrightarrow> s' \<in> set core_methods \<Longrightarrow> cm_method s = cm_method s' \<Longrightarrow> s = s'"
proof -
  have "distinct (map cm_method core_methods)" by (simp add: core_methods_def)
  then show "s \<in> set core_methods \<Longrightarrow> s' \<in> set core_methods \<Longrightarrow> cm_method s = cm_method s' \<Longrightarrow> s = s'"
    unfolding distinct_map inj_on_def by blast
qed

lemma register_many_get:
  "dict_get (register_many (map (\<lambda>s. (cm_method s, Core_Handler (cm_handler s))) ss) reg) m =
     (case find (\<lambda>s. py_upper (cm_method s) = m) (rev ss) of Some s \<Rightarrow> Some (Core_Handler (cm_handler s)) | None \<Rightarrow> dict_get reg m)"
  by (induction ss rule: rev_induct) (auto simp: register_many_def register_def split: option.splits)

lemma tables_ok_core: "tables_ok (build_method_handlers, [])"
proof -
  have "\<exists>s \<in> set core_methods. cm_method s = m \<and> h = Core_Handler (cm_handler s)" if "dict_get build_method_handlers m = Some h" for m h
    using that core_upper unfolding build_method_handlers_def register_many_get
    by (auto split: option.splits dest!: find_SomeD)
  moreover have "dict_get build_method_handlers (cm_method s) \<noteq> None" if "s \<in> set core_methods" for s
    using that core_upper[OF that] unfolding build_method_handlers_def register_many_get
    by (auto split: option.splits simp: find_None_iff)
  ultimately show ?thesis by (auto simp: tables_ok_def)
qed

lemma tables_ok_methods:
  assumes "register_methods override name ps t = Inr t'" "\<forall>q \<in> set ps. py_upper (pm_method q) = pm_method q" "tables_ok t"
  shows "tables_ok t'"
  using assms
proof (induction override name ps t rule: register_methods.induct)
  case (2 override name p ps reg pols)
  have "tables_ok (register (pm_method p) (Plugin_Handler name (pm_handler p)) reg, dict_set (pm_method p) p pols)"
    using 2(3,4) unfolding tables_ok_def register_def by auto
  then show ?case using 2 by (auto split: if_splits)
qed auto

lemma tables_ok_all:
  assumes "register_all override ps t = Inr t'" "\<forall>p \<in> set ps. \<forall>q \<in> set (pl_methods p). py_upper (pm_method q) = pm_method q" "tables_ok t"
  shows "tables_ok t'"
  using assms by (induction ps arbitrary: t) (auto split: sum.splits dest: tables_ok_methods)

lemma tables_ok_init:
  assumes "method_tables_init public allow override ss = Inr t" shows "tables_ok t"
proof -
  obtain ps where ps: "register_plugins public allow override ps (build_method_handlers, []) = Inr t"
    using assms by (auto simp: method_tables_init_def split: sum.splits)
  then obtain qs where "coerce_plugin_specs ps = Inr qs" "register_all override qs (build_method_handlers, []) = Inr t"
    by (auto simp: register_plugins_def split: sum.splits if_splits)
  then show ?thesis using tables_ok_all coerced_upper tables_ok_core by metis
qed

end
