(* ===== verification/Request_Gates.thy ===== *)
theory Request_Gates
  imports Request_Admission Advanced_Sessions Method_Registry Ws_Frames Auth_Admission
begin

section \<open>The gates of the server\<close>

text \<open>
  The checks of \<^verbatim>\<open>xferry/server.py\<close> between a parsed request and its handler: authentication, the peer and browser
  policy of the encrypted-transfer, session-control and session-bearing routes, the guard against cross-origin browser
  mutations, the WebSocket origin and the payload limit, with \<open>_prepare_advanced_session_dispatch\<close> of
  \<^verbatim>\<open>xferry/handlers/__init__.py\<close>. Parameters are \<open>sv_unquote\<close> (\<open>urllib.parse.unquote\<close>), \<open>sv_verify\<close>
  (\<open>BasicAuthenticator.verify\<close>) and \<open>sv_digest\<close> as in \<open>Advanced_Sessions\<close>. A gate that is passed gives \<open>None\<close>, as in the code.
  Of an error response the model keeps status, code, field, \<open>no_store\<close> and further headers.
\<close>

record reply =
  re_status :: nat
  re_code :: string
  re_field :: "string option"
  re_no_store :: bool
  re_headers :: "(string \<times> string) list"

definition default_error_codes :: "(nat, string) dict" where
  "default_error_codes =
     [(400, ''bad_request''), (401, ''authentication_required''), (403, ''forbidden''), (404, ''resource_not_found''),
      (405, ''method_not_allowed''), (409, ''conflict''), (413, ''payload_too_large''), (415, ''unsupported_media_type''),
      (421, ''misdirected_request''), (429, ''rate_limited''), (500, ''internal_error''), (501, ''feature_unavailable''),
      (503, ''server_busy''), (507, ''storage_quota_exceeded'')]"

definition error_reply :: "nat \<Rightarrow> string option \<Rightarrow> string option \<Rightarrow> bool \<Rightarrow> reply" where
  "error_reply status code fld no_store =
     \<lparr>re_status = status,
      re_code = (case code of Some c \<Rightarrow> c
        | None \<Rightarrow> (case dict_get default_error_codes status of Some c \<Rightarrow> c | None \<Rightarrow> ''http_error'')),
      re_field = fld, re_no_store = no_store, re_headers = []\<rparr>"

definition control_error :: "nat \<Rightarrow> string \<Rightarrow> string option \<Rightarrow> reply" where
  "control_error status code fld = error_reply status (Some code) fld True"

definition with_header :: "string \<Rightarrow> string \<Rightarrow> reply \<Rightarrow> reply" where
  "with_header k v r = r\<lparr>re_headers := re_headers r @ [(k, v)]\<rparr>"

subsection \<open>The request on its way through the server\<close>

datatype sec_mode = Mode_Unchecked | Mode_Disabled | Mode_Basic

record security_context =
  sc_peer :: "string option"
  sc_principal :: "string option"
  sc_mode :: sec_mode
  sc_admission :: "admission_context option"

record session_dispatch =
  sd_session :: adv_session
  sd_principal :: principal
  sd_peer :: "string option"
  sd_touch :: touch_handle

record live_request =
  lr_request :: http_request
  lr_path :: string
  lr_security :: security_context
  lr_dispatch :: "session_dispatch option"
  lr_prepared :: bool

datatype verify_result = Verified string | Not_Verified | Verify_Raised

record server =
  sv_hosts :: host_env
  sv_policy :: admission_policy
  sv_decode :: "bytes \<Rightarrow> string option"
  sv_unquote :: "string \<Rightarrow> string"
  sv_registry :: registry
  sv_plugins :: "(string, plugin_method) dict"
  sv_cors_origins :: "string list"
  sv_encrypted_uploads :: bool
  sv_max_upload_size :: int
  sv_has_ecdh :: bool
  sv_authenticates :: bool
  sv_verify :: "string option \<Rightarrow> verify_result"
  sv_challenge :: string
  sv_digest :: "string \<Rightarrow> bytes"

definition attach_direct_peer :: "string \<Rightarrow> security_context \<Rightarrow> security_context" where
  "attach_direct_peer peer sc = sc\<lparr>sc_peer := Some peer\<rparr>"

definition set_admission_context :: "admission_context \<Rightarrow> security_context \<Rightarrow> security_context" where
  "set_admission_context c sc = sc\<lparr>sc_admission := Some c\<rparr>"

definition set_authentication_disabled :: "security_context \<Rightarrow> security_context" where
  "set_authentication_disabled sc = sc\<lparr>sc_principal := None, sc_mode := Mode_Disabled\<rparr>"

definition set_verified_principal :: "string \<Rightarrow> security_context \<Rightarrow> security_context" where
  "set_verified_principal p sc = sc\<lparr>sc_principal := Some p, sc_mode := Mode_Basic\<rparr>"

definition new_request :: "server \<Rightarrow> bytes \<Rightarrow> live_request" where
  "new_request srv raw =
     (let r = parse_request (sv_decode srv) (he_netloc_ok (sv_hosts srv)) raw
      in \<lparr>lr_request = r, lr_path = sv_unquote srv (rq_raw_path r),
          lr_security = \<lparr>sc_peer = None, sc_principal = None, sc_mode = Mode_Unchecked, sc_admission = None\<rparr>,
          lr_dispatch = None, lr_prepared = False\<rparr>)"

text \<open>The property \<open>admission_context\<close>: reading it before the request is admitted raises.\<close>

definition admission_of :: "live_request \<Rightarrow> py_error + admission_context" where
  "admission_of l = (case sc_admission (lr_security l) of None \<Rightarrow> Inl RuntimeError | Some c \<Rightarrow> Inr c)"

subsection \<open>Routes\<close>

definition ENCRYPTED_UPLOADS_PATH :: string where "ENCRYPTED_UPLOADS_PATH = ''/_xferry/encrypted-uploads''"
definition ENCRYPTED_FILES_PATH :: string where "ENCRYPTED_FILES_PATH = ''/_xferry/encrypted-files''"
definition SESSION_COLLECTION_PATH :: string where "SESSION_COLLECTION_PATH = ''/_xferry/advanced-sessions''"
definition SESSION_CURRENT_PATH :: string where "SESSION_CURRENT_PATH = ''/_xferry/advanced-sessions/current''"
definition SESSION_HEADER :: string where "SESSION_HEADER = ''X-XFerry-Advanced-Session''"

definition is_encrypted_route :: "live_request \<Rightarrow> bool" where
  "is_encrypted_route l \<longleftrightarrow> prefix ''/_xferry/encrypted-'' (lr_path l)"

definition is_session_control_route :: "live_request \<Rightarrow> bool" where
  "is_session_control_route l \<longleftrightarrow> rq_raw_target (lr_request l) \<in> {SESSION_COLLECTION_PATH, SESSION_CURRENT_PATH}"

text \<open>The patterns of the encrypted data routes, on the segments of the path.\<close>

definition file_id_ok :: "string \<Rightarrow> bool" where "file_id_ok s \<longleftrightarrow> length s = 32 \<and> list_all is_lower_hex s"

definition chunk_index_ok :: "string \<Rightarrow> bool" where
  "chunk_index_ok s \<longleftrightarrow> s = ''0'' \<or> (s \<noteq> [] \<and> hd s \<noteq> CHR ''0'' \<and> list_all is_digit s)"

definition below_path :: "string \<Rightarrow> string \<Rightarrow> string list option" where
  "below_path base path = (if prefix (base @ ''/'') path then Some (py_split (CHR ''/'') (drop (length base + 1) path)) else None)"

definition upload_chunk_path :: "string \<Rightarrow> bool" where
  "upload_chunk_path path =
     (case below_path ENCRYPTED_UPLOADS_PATH path of Some [i, c, n] \<Rightarrow> file_id_ok i \<and> c = ''chunks'' \<and> chunk_index_ok n | _ \<Rightarrow> False)"

definition file_chunk_path :: "string \<Rightarrow> bool" where
  "file_chunk_path path =
     (case below_path ENCRYPTED_FILES_PATH path of Some [i, c, n] \<Rightarrow> file_id_ok i \<and> c = ''chunks'' \<and> chunk_index_ok n | _ \<Rightarrow> False)"

definition file_item_path :: "string \<Rightarrow> string \<Rightarrow> bool" where
  "file_item_path what path =
     (case below_path ENCRYPTED_FILES_PATH path of Some [i, c] \<Rightarrow> file_id_ok i \<and> c = what | _ \<Rightarrow> False)"

definition is_encrypted_bulk_target :: "live_request \<Rightarrow> bool" where
  "is_encrypted_bulk_target l =
     (let r = lr_request l; path = rq_raw_path r
      in if rq_raw_target r \<noteq> path \<or> path \<noteq> lr_path l then False
         else (rq_method r = ''PUT'' \<and> upload_chunk_path path) \<or>
           (rq_method r = ''GET'' \<and> (file_item_path ''data'' path \<or> file_chunk_path path)) \<or>
           (rq_method r = ''POST'' \<and> file_item_path ''decrypt'' path))"

definition has_session_header :: "live_request \<Rightarrow> bool" where
  "has_session_header l \<longleftrightarrow>
     get_header_values SESSION_HEADER (lr_request l) \<noteq> [] \<or> get_raw_header_values SESSION_HEADER (lr_request l) \<noteq> []"

text \<open>\<open>_is_bulk_request\<close>; \<open>in_uploads\<close> tells whether the file that a GET or FETCH names is below the uploads folder.\<close>

definition is_bulk_request :: "(live_request \<Rightarrow> bool) \<Rightarrow> live_request \<Rightarrow> bool" where
  "is_bulk_request in_uploads l =
     (if is_encrypted_route l then is_encrypted_bulk_target l
      else if is_session_control_route l then False
      else if lr_dispatch l \<noteq> None then True
      else if (case core_method_spec (rq_method (lr_request l)) of None \<Rightarrow> False | Some s \<Rightarrow> cm_ui_group s = Ui_Upload) then True
      else if rq_method (lr_request l) \<in> {''GET'', ''FETCH''} then in_uploads l
      else False)"
subsection \<open>Authentication\<close>

text \<open>
  \<open>_authenticate_request\<close>, given how the admission controller answers \<open>acquire\<close> (\<open>Auth_Admission\<close>): the request with its
  new security context, the error response, and what the lease was finished with, \<open>None\<close> when there was no lease.
  \<open>Verify_Raised\<close> is any \<open>Exception\<close>; interrupts of the interpreter are not modelled.
\<close>

definition challenge_reply :: "server \<Rightarrow> reply" where
  "challenge_reply srv =
     with_header ''WWW-Authenticate'' (sv_challenge srv) (error_reply 401 (Some ''authentication_required'') (Some ''Authorization'') True)"

definition rate_limited_reply :: "auth_denied \<Rightarrow> reply" where
  "rate_limited_reply d =
     with_header ''Retry-After'' (py_str_int (ad_retry_after d)) (error_reply 429 (Some ''rate_limited'') (Some ''Authorization'') True)"

definition authenticate ::
  "server \<Rightarrow> acquire_result \<Rightarrow> live_request \<Rightarrow> py_error + (live_request \<times> reply option \<times> auth_outcome option)"
where
  "authenticate srv acquired l =
     (if \<not> sv_authenticates srv
      then Inr (l\<lparr>lr_security := set_authentication_disabled (lr_security l)\<rparr>, None, None)
      else case admission_of l of
          Inl e \<Rightarrow> Inl e
        | Inr c \<Rightarrow>
            (case acquired of
               Denied d \<Rightarrow> Inr (l, Some (rate_limited_reply d), None)
             | _ \<Rightarrow>
                 (case sv_verify srv (ac_authorization c) of
                    Verify_Raised \<Rightarrow> Inr (l, Some (challenge_reply srv), Some Errored)
                  | Not_Verified \<Rightarrow> Inr (l, Some (challenge_reply srv), Some Failed)
                  | Verified p \<Rightarrow> Inr (l\<lparr>lr_security := set_verified_principal p (lr_security l)\<rparr>, None, Some Succeeded))))"

subsection \<open>Browser and peer policy\<close>

definition same_site_values :: "string list" where "same_site_values = [''same-origin'', ''none'']"

definition fetch_site_of :: "admission_context \<Rightarrow> string" where
  "fetch_site_of c = (case ac_sec_fetch_site c of None \<Rightarrow> [] | Some s \<Rightarrow> py_lower (py_strip s))"

definition is_explicit_cors_origin :: "server \<Rightarrow> string \<Rightarrow> bool" where
  "is_explicit_cors_origin srv origin \<longleftrightarrow> origin \<noteq> ''*'' \<and> origin \<in> set (sv_cors_origins srv)"

definition same_origin :: "server \<Rightarrow> admission_context \<Rightarrow> string \<Rightarrow> bool" where
  "same_origin srv c origin = is_same_origin (sv_hosts srv) (sv_policy srv) c origin"

text \<open>The strict rule of the encrypted-transfer and session-control routes: nothing cross-origin, not even configured.\<close>

definition strict_origin_error :: "server \<Rightarrow> admission_context \<Rightarrow> reply option" where
  "strict_origin_error srv c =
     (if (case ac_origin c of None \<Rightarrow> False | Some origin \<Rightarrow> \<not> same_origin srv c origin)
      then Some (control_error 403 ''forbidden_origin'' (Some ''Origin''))
      else if ac_sec_fetch_site c \<noteq> None \<and> fetch_site_of c \<notin> set same_site_values
      then Some (control_error 403 ''forbidden_origin'' (Some ''Sec-Fetch-Site''))
      else None)"

text \<open>Without authentication only a loopback peer may use the session routes.\<close>

definition peer_error :: "server \<Rightarrow> security_context \<Rightarrow> py_error + reply option" where
  "peer_error srv sc =
     (case sc_mode sc of
        Mode_Unchecked \<Rightarrow> Inl RuntimeError
      | Mode_Disabled \<Rightarrow>
          Inr (if (case sc_peer sc of None \<Rightarrow> True | Some host \<Rightarrow> \<not> is_loopback_ip (sv_hosts srv) host)
               then Some (control_error 403 ''forbidden_peer'' None) else None)
      | Mode_Basic \<Rightarrow> if sc_principal sc = None then Inl RuntimeError else Inr None)"

definition authorize_encrypted_transfer :: "server \<Rightarrow> live_request \<Rightarrow> py_error + reply option" where
  "authorize_encrypted_transfer srv l =
     (if \<not> sv_encrypted_uploads srv \<or> \<not> is_encrypted_route l then Inr None
      else case admission_of l of Inl e \<Rightarrow> Inl e | Inr c \<Rightarrow> Inr (strict_origin_error srv c))"

definition authorize_session_control :: "server \<Rightarrow> live_request \<Rightarrow> py_error + reply option" where
  "authorize_session_control srv l =
     (if \<not> is_session_control_route l then Inr None
      else case peer_error srv (lr_security l) of
          Inl e \<Rightarrow> Inl e
        | Inr (Some r) \<Rightarrow> Inr (Some r)
        | Inr None \<Rightarrow> (case admission_of l of Inl e \<Rightarrow> Inl e | Inr c \<Rightarrow> Inr (strict_origin_error srv c)))"

text \<open>The data routes accept configured origins too.\<close>

definition data_origin_error :: "server \<Rightarrow> admission_context \<Rightarrow> reply option" where
  "data_origin_error srv c =
     (let site = fetch_site_of c; foreign = (site \<noteq> [] \<and> site \<notin> set same_site_values)
      in case ac_origin c of
           Some origin \<Rightarrow>
             if foreign
             then (if is_explicit_cors_origin srv origin then None
                   else Some (control_error 403 ''forbidden_origin'' (Some ''Sec-Fetch-Site'')))
             else if same_origin srv c origin \<or> is_explicit_cors_origin srv origin then None
             else Some (control_error 403 ''forbidden_origin'' (Some ''Origin''))
         | None \<Rightarrow> if foreign then Some (control_error 403 ''forbidden_origin'' (Some ''Sec-Fetch-Site'')) else None)"

definition authorize_session_data :: "server \<Rightarrow> live_request \<Rightarrow> py_error + reply option" where
  "authorize_session_data srv l =
     (if \<not> has_session_header l then Inr None
      else case peer_error srv (lr_security l) of
          Inl e \<Rightarrow> Inl e
        | Inr (Some r) \<Rightarrow> Inr (Some r)
        | Inr None \<Rightarrow> (case admission_of l of Inl e \<Rightarrow> Inl e | Inr c \<Rightarrow> Inr (data_origin_error srv c)))"

subsection \<open>Browser mutations\<close>

definition is_protected_mutation :: "server \<Rightarrow> live_request \<Rightarrow> bool" where
  "is_protected_mutation srv l =
     (if lr_dispatch l \<noteq> None then True
      else let m = rq_method (lr_request l)
        in case dict_get (sv_plugins srv) m of
             Some p \<Rightarrow> pm_mutating p
           | None \<Rightarrow> (case core_method_spec m of None \<Rightarrow> False | Some s \<Rightarrow> has_method (sv_registry srv) m \<and> cm_mutating s))"

definition mutation_origin_ok :: "server \<Rightarrow> admission_context \<Rightarrow> bool" where
  "mutation_origin_ok srv c =
     (let site = fetch_site_of c
      in case ac_origin c of
           Some (x # xs) \<Rightarrow>
             if site \<noteq> [] \<and> site \<notin> set same_site_values then is_explicit_cors_origin srv (x # xs)
             else is_explicit_cors_origin srv (x # xs) \<or> same_origin srv c (x # xs)
         | _ \<Rightarrow> site = [] \<or> site \<in> set same_site_values)"

definition is_browser_mutation_allowed :: "server \<Rightarrow> live_request \<Rightarrow> py_error + bool" where
  "is_browser_mutation_allowed srv l =
     (if \<not> is_protected_mutation srv l then Inr True
      else case admission_of l of Inl e \<Rightarrow> Inl e | Inr c \<Rightarrow> Inr (mutation_origin_ok srv c))"

subsection \<open>WebSocket upgrades, CORS and sizes\<close>

definition is_websocket_origin_allowed :: "server \<Rightarrow> admission_context \<Rightarrow> bool" where
  "is_websocket_origin_allowed srv c =
     (case ac_origin c of
        Some (x # xs) \<Rightarrow> is_explicit_cors_origin srv (x # xs) \<or> same_origin srv c (x # xs)
      | _ \<Rightarrow> True)"

definition is_note_socket_target :: "http_request \<Rightarrow> bool" where
  "is_note_socket_target r \<longleftrightarrow>
     rq_method r = ''GET'' \<and> rq_raw_target r = ''/notes/ws'' \<and> websocket_route_enabled (rq_raw_path r)"

definition nonempty_text :: "string option \<Rightarrow> bool" where "nonempty_text v \<longleftrightarrow> v \<noteq> None \<and> v \<noteq> Some []"

definition is_websocket_upgrade_attempt :: "live_request \<Rightarrow> py_error + bool" where
  "is_websocket_upgrade_attempt l =
     (if \<not> is_note_socket_target (lr_request l) then Inr False
      else case admission_of l of
          Inl e \<Rightarrow> Inl e
        | Inr c \<Rightarrow> Inr (list_ex nonempty_text [ac_upgrade c, ac_connection c, ac_websocket_key c, ac_websocket_version c, ac_origin c]))"

definition upgrade_view :: "http_request \<Rightarrow> admission_context \<Rightarrow> upgrade_context" where
  "upgrade_view r c = \<lparr>uc_method = rq_method r, uc_upgrade = ac_upgrade c, uc_connection = ac_connection c,
     uc_authority = map_option au_host (ac_authority c), uc_ws_key = ac_websocket_key c, uc_ws_version = ac_websocket_version c\<rparr>"

definition server_cors_origin :: "server \<Rightarrow> admission_context \<Rightarrow> string option" where
  "server_cors_origin srv c = resolve_origin (if ac_origin c \<in> {None, Some []} then [] else sv_cors_origins srv) (ac_origin c)"

definition check_payload_size :: "server \<Rightarrow> live_request \<Rightarrow> reply option" where
  "check_payload_size srv l =
     (if sv_encrypted_uploads srv \<and> is_encrypted_route l then None
      else case (case dict_get (rq_headers (lr_request l)) ''content-length'' of None \<Rightarrow> Some 0 | Some v \<Rightarrow> py_int v) of
          None \<Rightarrow> None
        | Some n \<Rightarrow> if n \<le> sv_max_upload_size srv then None else Some (error_reply 413 (Some ''payload_too_large'') None False))"

definition KEEP_ALIVE_MAX :: int where "KEEP_ALIVE_MAX = 100"

definition should_keep_alive :: "string \<Rightarrow> admission_context \<Rightarrow> bool" where
  "should_keep_alive version c =
     (let conn = (case ac_connection c of None \<Rightarrow> [] | Some v \<Rightarrow> py_lower v)
      in if conn = ''close'' then False
         else if version = ''HTTP/1.1'' then conn \<noteq> ''close''
         else conn = ''keep-alive'')"

definition resolve_keep_alive :: "string \<Rightarrow> admission_context \<Rightarrow> int \<Rightarrow> bool \<times> int" where
  "resolve_keep_alive version c request_num =
     (let remaining = KEEP_ALIVE_MAX - request_num in (should_keep_alive version c \<and> 0 < remaining, remaining))"

subsection \<open>Session-bearing requests\<close>

definition ADVANCED_UPLOAD_METHODS :: "string list" where
  "ADVANCED_UPLOAD_METHODS = [''POST'', ''PUT'', ''PATCH'', ''NONE'']"

definition session_token_char :: "char \<Rightarrow> bool" where
  "session_token_char c \<longleftrightarrow> is_alnum c \<or> c = CHR ''_'' \<or> c = CHR ''-''"

definition session_token_ok :: "string \<Rightarrow> bool" where
  "session_token_ok s \<longleftrightarrow> length s = 43 \<and> list_all session_token_char s"

text \<open>At most one blank in front of the value, as it stands on the wire.\<close>

definition is_exact_session_value :: "string \<Rightarrow> string \<Rightarrow> bool" where
  "is_exact_session_value raw v \<longleftrightarrow>
     CHR 0x0D \<notin> set raw \<and> CHR 0x0A \<notin> set raw \<and> (if prefix '' '' raw then tl raw else raw) = v"

definition session_header_token :: "bool \<Rightarrow> http_request \<Rightarrow> reply + string option" where
  "session_header_token required r =
     (let values = get_header_values SESSION_HEADER r; raws = get_raw_header_values SESSION_HEADER r
      in if values = []
         then (if required then Inl (control_error 400 ''missing_field'' (Some SESSION_HEADER)) else Inr None)
         else if length values \<noteq> 1 \<or> length raws \<noteq> 1 \<or> \<not> is_exact_session_value (hd raws) (hd values) \<or> \<not> session_token_ok (hd values)
         then Inl (control_error 400 ''invalid_field'' (Some SESSION_HEADER))
         else Inr (Some (hd values)))"

definition session_principal :: "security_context \<Rightarrow> py_error + principal" where
  "session_principal sc =
     (case sc_mode sc of
        Mode_Disabled \<Rightarrow> Inr \<lparr>pr_mode = No_Auth, pr_owner = None\<rparr>
      | Mode_Unchecked \<Rightarrow> Inl RuntimeError
      | Mode_Basic \<Rightarrow>
          (case sc_principal sc of None \<Rightarrow> Inl RuntimeError | Some p \<Rightarrow> Inr \<lparr>pr_mode = Basic_Auth, pr_owner = Some p\<rparr>))"

definition session_method_conflict :: "server \<Rightarrow> string \<Rightarrow> bool" where
  "session_method_conflict srv m \<longleftrightarrow>
     dict_get (sv_plugins srv) m \<noteq> None \<or> (has_method (sv_registry srv) m \<and> m \<notin> set ADVANCED_UPLOAD_METHODS)"

text \<open>The part of \<open>_prepare_advanced_session_dispatch\<close> behind the data-plane policy.\<close>

definition bind_session ::
  "server \<Rightarrow> int \<Rightarrow> live_request \<Rightarrow> session_store \<Rightarrow> py_error + (live_request \<times> reply option \<times> session_store)"
where
  "bind_session srv now l store =
     (case session_header_token True (lr_request l) of
        Inl err \<Rightarrow> Inr (l\<lparr>lr_prepared := True\<rparr>, Some err, store)
      | Inr None \<Rightarrow> Inl TypeError
      | Inr (Some token) \<Rightarrow>
          (case session_principal (lr_security l) of
             Inl e \<Rightarrow> Inl e
           | Inr p \<Rightarrow>
               (case resolve_session (sv_digest srv) now token p False store of
                  (live, None) \<Rightarrow>
                    Inr (l\<lparr>lr_prepared := True\<rparr>, Some (control_error 404 ''advanced_session_not_found'' (Some SESSION_HEADER)), live)
                | (live, Some s) \<Rightarrow>
                    if \<not> prefix_matches (as_prefix s) (rq_raw_path (lr_request l)) (lr_path l)
                    then Inr (l\<lparr>lr_prepared := True\<rparr>, Some (control_error 409 ''advanced_route_mismatch'' (Some ''prefix'')), live)
                    else if session_method_conflict srv (py_upper (rq_method (lr_request l)))
                    then Inr (l\<lparr>lr_prepared := True\<rparr>, Some (control_error 409 ''advanced_method_conflict'' None), live)
                    else Inr (l\<lparr>lr_dispatch := Some \<lparr>sd_session = s, sd_principal = p, sd_peer = sc_peer (lr_security l),
                           sd_touch = touch_handle_for (sv_digest srv) token s\<rparr>, lr_prepared := True\<rparr>, None, live))))"

definition prepare_session_dispatch ::
  "server \<Rightarrow> int \<Rightarrow> live_request \<Rightarrow> session_store \<Rightarrow> py_error + (live_request \<times> reply option \<times> session_store)"
where
  "prepare_session_dispatch srv now l store =
     (if is_session_control_route l then Inr (l\<lparr>lr_prepared := True\<rparr>, None, store)
      else if \<not> has_session_header l then Inr (l\<lparr>lr_dispatch := None, lr_prepared := True\<rparr>, None, store)
      else case authorize_session_data srv l of
          Inl e \<Rightarrow> Inl e
        | Inr (Some err) \<Rightarrow> Inr (l\<lparr>lr_prepared := True\<rparr>, Some err, store)
        | Inr None \<Rightarrow> bind_session srv now l store)"

subsection \<open>What the gates let through\<close>

text \<open>A browser request from another site: its origin is neither the server's own nor configured, or the browser says so.\<close>

definition cross_site :: "server \<Rightarrow> admission_context \<Rightarrow> bool" where
  "cross_site srv c \<longleftrightarrow>
     (case ac_origin c of
        Some (x # xs) \<Rightarrow> \<not> is_explicit_cors_origin srv (x # xs) \<and>
          (\<not> same_origin srv c (x # xs) \<or> (fetch_site_of c \<noteq> [] \<and> fetch_site_of c \<notin> set same_site_values))
      | _ \<Rightarrow> fetch_site_of c \<noteq> [] \<and> fetch_site_of c \<notin> set same_site_values)"

lemma cross_site_mutation: "mutation_origin_ok srv c \<longleftrightarrow> \<not> cross_site srv c"
  by (auto simp: mutation_origin_ok_def cross_site_def Let_def split: option.splits list.splits)

lemma cross_site_strict: "strict_origin_error srv c = None \<Longrightarrow> \<not> cross_site srv c"
  by (auto simp: strict_origin_error_def cross_site_def fetch_site_of_def split: option.splits list.splits if_splits)

text \<open>The session that a dispatch carries is live for the request's own principal and owns its path.\<close>

definition session_bound :: "server \<Rightarrow> int \<Rightarrow> session_store \<Rightarrow> live_request \<Rightarrow> session_dispatch \<Rightarrow> bool" where
  "session_bound srv now store l d \<longleftrightarrow>
     (\<exists>token. get_header_values SESSION_HEADER (lr_request l) = [token] \<and> session_token_ok token \<and>
        session_principal (lr_security l) = Inr (sd_principal d) \<and>
        snd (resolve_session (sv_digest srv) now token (sd_principal d) False store) = Some (sd_session d)) \<and>
     prefix_matches (as_prefix (sd_session d)) (rq_raw_path (lr_request l)) (lr_path l) \<and>
     \<not> session_method_conflict srv (py_upper (rq_method (lr_request l)))"

lemma session_header_token_Some:
  "session_header_token q r = Inr (Some t) \<Longrightarrow> get_header_values SESSION_HEADER r = [t] \<and> session_token_ok t"
  by (cases "get_header_values SESSION_HEADER r"; cases "tl (get_header_values SESSION_HEADER r)")
    (auto simp: session_header_token_def Let_def split: if_splits)

lemma bind_session_dispatch:
  assumes "bind_session srv now l store = Inr (l', None, store')"
  shows "\<exists>d. l' = l\<lparr>lr_dispatch := Some d, lr_prepared := True\<rparr> \<and> session_bound srv now store l d"
  using assms session_header_token_Some[of True "lr_request l"]
  by (auto simp: bind_session_def session_bound_def split: sum.splits option.splits prod.splits if_splits)

lemma bind_session_frame:
  assumes "bind_session srv now l store = Inr (l', e, store')"
  shows "lr_request l' = lr_request l \<and> lr_path l' = lr_path l \<and> lr_security l' = lr_security l \<and> lr_prepared l'"
  using assms by (auto simp: bind_session_def split: sum.splits option.splits prod.splits if_splits)

lemma prepare_session_frame:
  assumes "prepare_session_dispatch srv now l store = Inr (l', e, store')"
  shows "lr_request l' = lr_request l \<and> lr_path l' = lr_path l \<and> lr_security l' = lr_security l \<and> lr_prepared l'"
  using assms bind_session_frame
  by (fastforce simp: prepare_session_dispatch_def split: sum.splits option.splits if_splits)

lemma prepare_session_bound:
  assumes "prepare_session_dispatch srv now l store = Inr (l', None, store')" "lr_dispatch l = None" "lr_dispatch l' = Some d"
  shows "session_bound srv now store l d \<and> has_session_header l \<and> authorize_session_data srv l = Inr None"
  using assms bind_session_dispatch[of srv now l store l' store']
  by (auto simp: prepare_session_dispatch_def split: sum.splits option.splits if_splits)

text \<open>A method that is not guarded as a mutation is a reading method of its table, or is a plugin method in another case.\<close>

definition harmless :: "server \<Rightarrow> string \<Rightarrow> handler \<Rightarrow> bool" where
  "harmless srv m h \<longleftrightarrow>
     (\<exists>s \<in> set core_methods. cm_method s = py_upper m \<and> h = Core_Handler (cm_handler s) \<and> \<not> cm_mutating s) \<or>
     (\<exists>p name. dict_get (sv_plugins srv) m = Some p \<and> h = Plugin_Handler name (pm_handler p) \<and> \<not> pm_mutating p)"

definition plugin_in_other_case :: "server \<Rightarrow> string \<Rightarrow> bool" where
  "plugin_in_other_case srv m \<longleftrightarrow> py_upper m \<noteq> m \<and> dict_get (sv_plugins srv) (py_upper m) \<noteq> None"

lemma unprotected_harmless:
  assumes t: "tables_ok (sv_registry srv, sv_plugins srv)" and u: "\<not> is_protected_mutation srv l"
    and m: "rq_method (lr_request l) = m" "py_strip m = m" and h: "get_handler (sv_registry srv) m = Some h"
  shows "harmless srv m h \<or> plugin_in_other_case srv m"
proof (cases "dict_get (sv_plugins srv) m")
  case (Some p)
  then have "py_upper m = m" "\<exists>name. dict_get (sv_registry srv) m = Some (Plugin_Handler name (pm_handler p))"
    using t by (simp_all add: tables_ok_def)
  then show ?thesis using u m h Some by (auto simp: harmless_def is_protected_mutation_def get_handler_def Let_def split: if_splits)
next
  case None
  show ?thesis
  proof (cases "dict_get (sv_plugins srv) (py_upper m)")
    case (Some p)
    then show ?thesis using None by (auto simp: plugin_in_other_case_def)
  next
    case no: None
    then obtain s where s: "s \<in> set core_methods" "cm_method s = py_upper m" "h = Core_Handler (cm_handler s)"
      using t h[unfolded get_handler_def] unfolding tables_ok_def fst_conv snd_conv by blast
    moreover have "\<not> cm_mutating s" if "\<not> cm_mutating s'" "core_method_spec m = Some s'" for s'
    proof -
      have "s' \<in> set core_methods \<and> cm_method s' = py_upper m"
        using find_SomeD that(2) m(2) unfolding core_method_spec_def by force
      then have "s' = s" using s(1,2) core_method_unique by metis
      then show ?thesis using that(1) by simp
    qed
    moreover have "core_method_spec m \<noteq> None" using s(1,2) m(2) by (auto simp: core_method_spec_def find_None_iff)
    ultimately show ?thesis using u None m h
      by (auto simp: is_protected_mutation_def harmless_def has_method_def Let_def split: if_splits)
  qed
qed

subsection \<open>A demonstration server\<close>

text \<open>A loopback listener without passwords, with one plugin method that changes state.\<close>

definition demo_plugin :: plugin_method where
  "demo_plugin = \<lparr>pm_method = ''PURGE'', pm_handler = ''purge'', pm_mutating = True, pm_cors_allowed = False\<rparr>"

definition demo_tables :: method_tables where
  "demo_tables = (register ''PURGE'' (Plugin_Handler ''cache'' ''purge'') build_method_handlers, [(''PURGE'', demo_plugin)])"

definition demo_server :: server where
  "demo_server = \<lparr>sv_hosts = demo_host_env, sv_policy = demo_policy, sv_decode = demo_decode, sv_unquote = (\<lambda>s. s),
     sv_registry = fst demo_tables, sv_plugins = snd demo_tables, sv_cors_origins = [], sv_encrypted_uploads = False,
     sv_max_upload_size = 1000, sv_has_ecdh = False, sv_authenticates = False, sv_verify = (\<lambda>_. Not_Verified), sv_challenge = [],
     sv_digest = (\<lambda>_. [])\<rparr>"

lemma demo_tables_built: "method_tables_init False False False [\<lparr>pl_name = ''cache'', pl_methods = [demo_plugin]\<rparr>] = Inr demo_tables"
  by (simp add: method_tables_init_def register_plugins_def normalized_plugin_def normalized_method_def demo_plugin_def demo_tables_def
    plugin_method_name_ok_def py_strip_def strip_by_def is_space_def py_upper_def upper_char_def ascii_upper_def registry_methods_def core_methods_def)

lemma demo_server_parts:
  "sv_hosts demo_server = demo_host_env" "sv_policy demo_server = demo_policy" "sv_decode demo_server = demo_decode"
  "sv_unquote demo_server = (\<lambda>s. s)" "sv_registry demo_server = fst demo_tables" "sv_plugins demo_server = [(''PURGE'', demo_plugin)]"
  "sv_cors_origins demo_server = []" "sv_encrypted_uploads demo_server = False" "sv_max_upload_size demo_server = 1000"
  "sv_authenticates demo_server = False"
  by (simp_all add: demo_server_def demo_tables_def)

end
