(* ===== verification/Session_Control.thy ===== *)
theory Session_Control
  imports Request_Gates Py_Json
begin

section \<open>The session-control endpoint\<close>

text \<open>
  \<open>_handle_advanced_session_control\<close> of \<^verbatim>\<open>xferry/handlers/__init__.py\<close> over the store of \<open>Advanced_Sessions\<close>. The
  parameter \<open>load\<close> is \<open>bytes.decode\<close> followed by \<open>json.loads\<close> with the hook that refuses a repeated member, and \<open>rnd\<close> is the
  random source of the store. The metadata response is the session itself; the texts of its times are not modelled.
\<close>

datatype json_load = Json_Value json | Json_Duplicate string | Json_Malformed | Json_Raised

datatype session_answer = Answer_Error reply | Answer_Metadata nat adv_session "string option" | Answer_Revoked

definition answer_status :: "session_answer \<Rightarrow> nat" where
  "answer_status a = (case a of Answer_Error r \<Rightarrow> re_status r | Answer_Metadata n _ _ \<Rightarrow> n | Answer_Revoked \<Rightarrow> 200)"

definition ADVANCED_SESSION_DECODERS :: "string list" where
  "ADVANCED_SESSION_DECODERS = [''auto'', ''raw'', ''json'', ''text'', ''form'', ''xml'', ''multipart'']"

definition CREATE_FIELDS :: "string list" where "CREATE_FIELDS = [''prefix'', ''decoder'', ''diagnostic_headers'']"

record create_payload =
  cp_prefix :: string
  cp_decoder :: string
  cp_diagnostic_headers :: bool

definition invalid_field :: "string \<Rightarrow> reply" where "invalid_field name = control_error 400 ''invalid_field'' (Some name)"

definition session_not_found :: reply where
  "session_not_found = control_error 404 ''advanced_session_not_found'' (Some SESSION_HEADER)"

definition method_not_allowed :: "string \<Rightarrow> reply" where
  "method_not_allowed allow = with_header ''Allow'' allow (control_error 405 ''method_not_allowed'' None)"

text \<open>The three values of a payload that has exactly the three members.\<close>

definition check_create_values :: "(string \<times> json) list \<Rightarrow> reply + create_payload" where
  "check_create_values d =
     (case dict_get d ''prefix'' of
        Some (J_Str pfx) \<Rightarrow>
          (case validate_prefix pfx of
             Inl _ \<Rightarrow> Inl (invalid_field ''prefix'')
           | Inr _ \<Rightarrow>
               (case dict_get d ''decoder'' of
                  Some (J_Str dec) \<Rightarrow>
                    if dec \<notin> set ADVANCED_SESSION_DECODERS then Inl (invalid_field ''decoder'')
                    else (case dict_get d ''diagnostic_headers'' of
                        Some (J_Bool b) \<Rightarrow> Inr \<lparr>cp_prefix = pfx, cp_decoder = dec, cp_diagnostic_headers = b\<rparr>
                      | _ \<Rightarrow> Inl (invalid_field ''diagnostic_headers''))
                | _ \<Rightarrow> Inl (invalid_field ''decoder'')))
      | _ \<Rightarrow> Inl (invalid_field ''prefix''))"

definition check_create_payload :: "json \<Rightarrow> reply + create_payload" where
  "check_create_payload j =
     (case j of
        J_Obj d \<Rightarrow>
          (case find (\<lambda>f. dict_get d f = None) CREATE_FIELDS of
             Some f \<Rightarrow> Inl (control_error 400 ''missing_field'' (Some f))
           | None \<Rightarrow>
               (case find (\<lambda>f. f \<notin> set CREATE_FIELDS) (map fst d) of
                  Some f \<Rightarrow> Inl (invalid_field f)
                | None \<Rightarrow> check_create_values d))
      | _ \<Rightarrow> Inl (control_error 400 ''invalid_json_type'' None))"

definition load_create_payload :: "(bytes \<Rightarrow> json_load) \<Rightarrow> bytes \<Rightarrow> py_error + (reply + create_payload)" where
  "load_create_payload load body =
     (case load body of
        Json_Duplicate f \<Rightarrow> Inr (Inl (invalid_field f))
      | Json_Malformed \<Rightarrow> Inr (Inl (control_error 400 ''malformed_json'' None))
      | Json_Raised \<Rightarrow> Inl RuntimeError
      | Json_Value j \<Rightarrow> Inr (check_create_payload j))"

definition content_type_error :: "http_request \<Rightarrow> reply option" where
  "content_type_error r =
     (case get_header_values ''Content-Type'' r of
        [] \<Rightarrow> Some (control_error 415 ''unsupported_media_type'' (Some ''Content-Type''))
      | [v] \<Rightarrow> if v \<noteq> ''application/json'' then Some (control_error 415 ''unsupported_media_type'' (Some ''Content-Type'')) else None
      | _ \<Rightarrow> Some (invalid_field ''Content-Type''))"

definition create_advanced_session ::
  "server \<Rightarrow> (bytes \<Rightarrow> json_load) \<Rightarrow> (nat \<Rightarrow> bytes) \<Rightarrow> int \<Rightarrow> live_request \<Rightarrow> session_store \<Rightarrow> (py_error + session_answer) \<times> session_store"
where
  "create_advanced_session srv load rnd now l store =
     (case content_type_error (lr_request l) of
        Some err \<Rightarrow> (Inr (Answer_Error err), store)
      | None \<Rightarrow>
     (case load_create_payload load (rq_body (lr_request l)) of
        Inl e \<Rightarrow> (Inl e, store)
      | Inr (Inl err) \<Rightarrow> (Inr (Answer_Error err), store)
      | Inr (Inr cp) \<Rightarrow>
          if list_ex (\<lambda>m. dict_get (sv_plugins srv) m \<noteq> None) ADVANCED_UPLOAD_METHODS
          then (Inr (Answer_Error (control_error 409 ''advanced_method_conflict'' None)), store)
          else (case session_principal (lr_security l) of
              Inl e \<Rightarrow> (Inl e, store)
            | Inr p \<Rightarrow>
                (case create_session (sv_digest srv) now (cp_prefix cp) (cp_decoder cp) (cp_diagnostic_headers cp) p rnd store of
                   (store', Created token s) \<Rightarrow> (Inr (Answer_Metadata 201 s (Some token)), store')
                 | (store', Exhausted) \<Rightarrow> (Inr (Answer_Error (control_error 503 ''advanced_session_capacity_exhausted'' None)), store')
                 | (store', Token_Collision) \<Rightarrow> (Inl RuntimeError, store')
                 | (store', Bad_Random) \<Rightarrow> (Inl RuntimeError, store')))))"

definition current_session ::
  "server \<Rightarrow> int \<Rightarrow> live_request \<Rightarrow> string \<Rightarrow> string option \<Rightarrow> session_store \<Rightarrow> (py_error + session_answer) \<times> session_store"
where
  "current_session srv now l m token store =
     (case token of
        None \<Rightarrow> (Inr (Answer_Error (method_not_allowed ''GET, DELETE'')), store)
      | Some t \<Rightarrow>
          (case session_principal (lr_security l) of
             Inl e \<Rightarrow> (Inl e, store)
           | Inr p \<Rightarrow>
               if m = ''GET''
               then (case resolve_session (sv_digest srv) now t p True store of
                       (store', None) \<Rightarrow> (Inr (Answer_Error session_not_found), store')
                     | (store', Some s) \<Rightarrow> (Inr (Answer_Metadata 200 s None), store'))
               else if m = ''DELETE''
               then (case revoke_session (sv_digest srv) now t p store of
                       (store', False) \<Rightarrow> (Inr (Answer_Error session_not_found), store')
                     | (store', True) \<Rightarrow> (Inr Answer_Revoked, store'))
               else (case resolve_session (sv_digest srv) now t p False store of
                       (store', None) \<Rightarrow> (Inr (Answer_Error session_not_found), store')
                     | (store', Some _) \<Rightarrow> (Inr (Answer_Error (method_not_allowed ''GET, DELETE'')), store'))))"

text \<open>The two targets. The code asserts that the second is the only other one; any other target fails the assertion.\<close>

definition handle_session_control ::
  "server \<Rightarrow> (bytes \<Rightarrow> json_load) \<Rightarrow> (nat \<Rightarrow> bytes) \<Rightarrow> int \<Rightarrow> live_request \<Rightarrow> session_store \<Rightarrow> (py_error + session_answer) \<times> session_store"
where
  "handle_session_control srv load rnd now l store =
     (let r = lr_request l; m = rq_method r
      in if rq_raw_target r = SESSION_COLLECTION_PATH
         then (case session_header_token False r of
                 Inl err \<Rightarrow> (Inr (Answer_Error err), store)
               | Inr _ \<Rightarrow> if m \<noteq> ''POST'' then (Inr (Answer_Error (method_not_allowed ''POST'')), store)
                          else create_advanced_session srv load rnd now l store)
         else if rq_raw_target r = SESSION_CURRENT_PATH
         then (case session_header_token (m \<in> {''GET'', ''DELETE''}) r of
                 Inl err \<Rightarrow> (Inr (Answer_Error err), store)
               | Inr token \<Rightarrow> current_session srv now l m token store)
         else (Inl RuntimeError, store))"

subsection \<open>Each principal has its own sessions\<close>

lemma principal_matches_eq [simp]: "principal_matches p q \<longleftrightarrow> p = q"
  by (cases p; cases q) (simp add: principal_matches_def)

lemma purge_twice [simp]: "purge_expired now (purge_expired now store) = purge_expired now store"
  by (simp add: purge_expired_def)

lemma purge_keeps: "store_ok store \<Longrightarrow> dict_get (purge_expired now store) d = Some st \<Longrightarrow> dict_get store d = Some st"
  by (auto simp: purge_get split: option.splits if_splits)

lemma resolve_live:
  assumes "store_ok store" "resolve_session digest now t p touch store = (store', out)"
  shows "(out = None \<and> store' = purge_expired now store) \<or>
    (\<exists>st. dict_get (purge_expired now store) (digest t) = Some st \<and> ss_principal st = p \<and>
       (if touch then out = Some (ss_session (touched now st)) \<and> store' = dict_set (digest t) (touched now st) (purge_expired now store)
        else out = Some (ss_session st) \<and> store' = purge_expired now store))"
  using assms store_ok_digest[OF store_ok_purge[OF assms(1)]]
  by (auto simp: resolve_session_def Let_def split: option.splits if_splits)

lemma revoke_live:
  assumes "store_ok store" "revoke_session digest now t p store = (store', out)"
  shows "(\<not> out \<and> store' = purge_expired now store) \<or>
    (out \<and> store' = dict_del (digest t) (purge_expired now store) \<and>
     (\<exists>st. dict_get (purge_expired now store) (digest t) = Some st \<and> ss_principal st = p))"
  using assms store_ok_digest[OF store_ok_purge[OF assms(1)]]
  by (auto simp: revoke_session_def Let_def split: option.splits if_splits)

lemma create_live:
  assumes "store_ok store" "create_session digest now pfx dec diag p rnd store = (store', out)"
  shows "(store' = purge_expired now store \<and> (\<forall>token s. out \<noteq> Created token s)) \<or>
    (\<exists>token s. out = Created token s \<and> dict_get (purge_expired now store) (digest token) = None \<and>
       store' = dict_set (digest token) \<lparr>ss_digest = digest token, ss_session = s, ss_principal = p\<rparr> (purge_expired now store))"
  using assms mint_cases[OF store_ok_purge[OF assms(1)]]
  by (fastforce simp: create_session_def Let_def split: if_splits)

text \<open>The outcome of a control request: an error that changes nothing live, or one operation on the caller's own session.\<close>

definition control_outcome ::
  "server \<Rightarrow> int \<Rightarrow> live_request \<Rightarrow> session_store \<Rightarrow> (py_error + session_answer) \<times> session_store \<Rightarrow> bool"
where
  "control_outcome srv now l store out \<longleftrightarrow>
     (let live = purge_expired now store; who = session_principal (lr_security l); tokens = get_header_values SESSION_HEADER (lr_request l);
          dig = sv_digest srv; store' = snd out
      in case fst out of
           Inr (Answer_Metadata n s (Some token)) \<Rightarrow> n = 201 \<and> dict_get live (dig token) = None \<and>
             (\<exists>p. who = Inr p \<and> store' = dict_set (dig token) \<lparr>ss_digest = dig token, ss_session = s, ss_principal = p\<rparr> live)
         | Inr (Answer_Metadata n s None) \<Rightarrow> n = 200 \<and>
             (\<exists>token st. tokens = [token] \<and> dict_get live (dig token) = Some st \<and> who = Inr (ss_principal st) \<and>
                s = ss_session (touched now st) \<and> store' = dict_set (dig token) (touched now st) live)
         | Inr Answer_Revoked \<Rightarrow>
             (\<exists>token st. tokens = [token] \<and> dict_get live (dig token) = Some st \<and> who = Inr (ss_principal st) \<and> store' = dict_del (dig token) live)
         | _ \<Rightarrow> store' = store \<or> store' = live)"

lemma current_session_outcome:
  assumes ok: "store_ok store" and t: "case token of None \<Rightarrow> True | Some t \<Rightarrow> get_header_values SESSION_HEADER (lr_request l) = [t]"
  shows "control_outcome srv now l store (current_session srv now l m token store)"
proof (cases token)
  case None
  then show ?thesis by (simp add: current_session_def control_outcome_def)
next
  case (Some t)
  show ?thesis
  proof (cases "session_principal (lr_security l)")
    case (Inl e)
    then show ?thesis using Some by (simp add: current_session_def control_outcome_def)
  next
    case (Inr p)
    obtain s1 o1 s2 o2 s3 o3 where
      r: "resolve_session (sv_digest srv) now t p True store = (s1, o1)" "resolve_session (sv_digest srv) now t p False store = (s2, o2)"
        "revoke_session (sv_digest srv) now t p store = (s3, o3)" by (meson surj_pair)
    show ?thesis
      using resolve_live[OF ok r(1)] resolve_live[OF ok r(2)] revoke_live[OF ok r(3)] Some Inr t r
      by (auto simp: current_session_def control_outcome_def Let_def split: option.splits bool.splits)
  qed
qed

lemma outcome_stay: "control_outcome srv now l store (Inl e, store)" "control_outcome srv now l store (Inr (Answer_Error r), store)"
  by (simp_all add: control_outcome_def)

lemma create_control_outcome:
  assumes ok: "store_ok store"
  shows "control_outcome srv now l store (create_advanced_session srv load rnd now l store)"
proof -
  have c: "control_outcome srv now l store
      (case create_session (sv_digest srv) now pfx dec diag p rnd store of
         (store', Created token s) \<Rightarrow> (Inr (Answer_Metadata 201 s (Some token)), store')
       | (store', Exhausted) \<Rightarrow> (Inr (Answer_Error (control_error 503 ''advanced_session_capacity_exhausted'' None)), store')
       | (store', Token_Collision) \<Rightarrow> (Inl RuntimeError, store')
       | (store', Bad_Random) \<Rightarrow> (Inl RuntimeError, store'))"
    if "session_principal (lr_security l) = Inr p" for p pfx dec diag
  proof -
    obtain s' o' where r: "create_session (sv_digest srv) now pfx dec diag p rnd store = (s', o')" by fastforce
    show ?thesis using create_live[OF ok r] that unfolding r by (cases o') (auto simp: control_outcome_def Let_def)
  qed
  show ?thesis
    using c outcome_stay unfolding create_advanced_session_def
    by (cases "content_type_error (lr_request l)"; cases "load_create_payload load (rq_body (lr_request l))";
        cases "session_principal (lr_security l)") (auto split: sum.splits)
qed

lemma session_control_outcome:
  assumes "store_ok store"
  shows "control_outcome srv now l store (handle_session_control srv load rnd now l store)"
proof -
  have current: "control_outcome srv now l store (current_session srv now l m tok store)"
    if "session_header_token q (lr_request l) = Inr tok" for q m tok
    using current_session_outcome[OF assms, where token = tok] session_header_token_Some that by (cases tok) auto
  show ?thesis
    using outcome_stay create_control_outcome[OF assms]
    by (auto simp: handle_session_control_def Let_def split: sum.splits intro: current)
qed

subsection \<open>Property\<close>

text \<open>
  C38. The control endpoint keeps principals apart. In any reachable store, a control request leaves every live session of
  another principal exactly as it is. It answers 201 only after adding one session of the caller under a fresh token; 200 with
  metadata only for the caller's own live session under the presented token, whose idle deadline it moves; revocation only
  after removing that session; and any error response or exception leaves the live sessions as they are.
\<close>

theorem session_control_keeps_to_own:
  assumes run: "session_run (sv_digest srv) ops ([], []) = (store, hist)"
    and h: "handle_session_control srv load rnd now l store = (res, store')"
    and other: "dict_get (purge_expired now store) d = Some st" "session_principal (lr_security l) \<noteq> Inr (ss_principal st)"
  shows "dict_get store' d = Some st \<and> control_outcome srv now l store (res, store')"
proof -
  have ok: "store_ok store" using session_reachable[OF run] by simp
  have o': "control_outcome srv now l store (res, store')" using session_control_outcome[OF ok, of srv now l load rnd] h by simp
  then show ?thesis using purge_keeps[OF ok other(1)] other
    by (auto simp: control_outcome_def Let_def split: sum.splits session_answer.splits option.splits)
qed

definition stolen_token_request :: live_request where
  "stolen_token_request = \<lparr>lr_request = empty_request\<lparr>rq_method := ''DELETE'', rq_raw_target := SESSION_CURRENT_PATH,
       rq_values := [(py_lower SESSION_HEADER, [demo_token])], rq_raw_values := [(py_lower SESSION_HEADER, ['' '' @ demo_token])]\<rparr>,
     lr_path = SESSION_CURRENT_PATH,
     lr_security = \<lparr>sc_peer = Some ''127.0.0.1'', sc_principal = None, sc_mode = Mode_Disabled, sc_admission = None\<rparr>,
     lr_dispatch = None, lr_prepared = False\<rparr>"

theorem session_control_keeps_to_own_witness:
  "dict_get (snd (handle_session_control (demo_server\<lparr>sv_digest := ascii_digest\<rparr>) (\<lambda>_. Json_Malformed) token_source 5 stolen_token_request
      (fst (session_run ascii_digest demo_sessions ([], []))))) (ascii_digest demo_token) =
   Some \<lparr>ss_digest = ascii_digest demo_token, ss_session = session_at ''/drop'' ''json'' False 0, ss_principal = basic_user ''ann''\<rparr>"
proof -
  let ?run = "session_run ascii_digest demo_sessions ([], [])"
  let ?st = "\<lparr>ss_digest = ascii_digest demo_token, ss_session = session_at ''/drop'' ''json'' False 0, ss_principal = basic_user ''ann''\<rparr>"
  have run: "session_run (sv_digest (demo_server\<lparr>sv_digest := ascii_digest\<rparr>)) demo_sessions ([], []) = (fst ?run, snd ?run)" by simp
  have live: "dict_get (purge_expired 5 (fst ?run)) (ascii_digest demo_token) = Some ?st"
    by (simp add: demo_sessions_run purge_expired_def expired_at_def session_at_def ABSOLUTE_LIFETIME_def IDLE_TIMEOUT_def)
  have other: "session_principal (lr_security stolen_token_request) \<noteq> Inr (ss_principal ?st)"
    by (simp add: session_principal_def stolen_token_request_def basic_user_def)
  show ?thesis using session_control_keeps_to_own[OF run surjective_pairing live other] by blast
qed

end
