(* ===== verification/Encrypted_Files.thy ===== *)
theory Encrypted_Files
  imports Session_Control Encrypted_Recovery
begin

section \<open>The encrypted-transfer endpoints\<close>

text \<open>
  \<open>handle_encrypted_transfer\<close> of \<^verbatim>\<open>xferry/handlers/encrypted_files.py\<close>: the routes of the reserved namespace over the storage
  of \<open>Encrypted_Storage\<close>, down to the durable actions. A response is the data that is sent, with the
  bytes of a streamed one as they are in the file when the response is made. Parameters are the JSON
  loading with its hooks (\<open>load\<close>, as in \<open>Session_Control\<close>), and the cipher and the metadata codec of \<open>Encrypted_Transfer\<close>.
  Not modelled are the percent-encoding of the file name in the response of a decryption, the storage block of the
  listing and of the quota error, and a failing \<open>unlink\<close> of a deletion.
\<close>

datatype enc_answer =
    Enc_Error reply
  | Enc_Record nat stored_file
  | Enc_Chunk_Stored nat string nat bool bytes
  | Enc_Completed stored_file bool
  | Enc_Uploads "stored_file list"
  | Enc_Files "stored_file list"
  | Enc_Deleted string
  | Enc_Data string bytes
  | Enc_Range bytes
  | Enc_Plain euf_metadata "bytes list" bool

datatype enc_raise = Storage_Raise enc_error | Value_Raise | Other_Raise

type_synonym enc_reply = "disk_action list \<times> (enc_raise + enc_answer)"

definition enc_status_of :: "enc_answer \<Rightarrow> nat" where
  "enc_status_of a = (case a of Enc_Error r \<Rightarrow> re_status r | Enc_Record n _ \<Rightarrow> n | Enc_Chunk_Stored n _ _ _ _ \<Rightarrow> n | _ \<Rightarrow> 200)"

text \<open>The service behind the endpoints, and the circumstances of one request: three clock readings, and whether the quota
  and the disk admit a new file.\<close>

record enc_service =
  es_enabled :: bool
  es_config :: enc_config
  es_sha :: "bytes \<Rightarrow> bytes"
  es_tls :: bool
  es_load :: "bytes \<Rightarrow> json_load"
  es_decrypt :: aead_decrypt
  es_meta_decode :: "bytes \<Rightarrow> euf_metadata option"

record enc_moment =
  mo_time1 :: time
  mo_time2 :: time
  mo_time3 :: time
  mo_space :: bool
  mo_io_ok :: bool

definition ENCRYPTED_CREATE_BODY_LIMIT :: nat where "ENCRYPTED_CREATE_BODY_LIMIT = 16 * 1024"
definition ENCRYPTED_DECRYPT_BODY_LIMIT :: nat where "ENCRYPTED_DECRYPT_BODY_LIMIT = 512"
definition ENCRYPTED_CHUNK_BODY_LIMIT :: nat where "ENCRYPTED_CHUNK_BODY_LIMIT = EUF_CHUNK_SIZE + EUF_GCM_TAG_SIZE"

definition CREATE_UPLOAD_FIELDS :: "string list" where
  "CREATE_UPLOAD_FIELDS =
     [''version'', ''plaintext_size'', ''chunk_size'', ''chunk_count'', ''salt'', ''nonce_prefix'', ''encrypted_metadata'']"

definition enc_not_found :: reply where "enc_not_found = control_error 404 ''resource_not_found'' (Some ''id'')"

definition enc_method_not_allowed :: "string list \<Rightarrow> reply" where
  "enc_method_not_allowed allowed =
     with_header ''Allow'' (text_join '', '' allowed) (control_error 405 ''method_not_allowed'' None)"

definition enc_decryption_failed :: reply where "enc_decryption_failed = control_error 422 ''decryption_failed'' None"

definition say :: "reply \<Rightarrow> enc_reply" where "say r = ([], Inr (Enc_Error r))"

subsection \<open>Request bodies\<close>

definition require_content_type :: "string \<Rightarrow> http_request \<Rightarrow> reply option" where
  "require_content_type expected r =
     (case get_header_values ''Content-Type'' r of
        [] \<Rightarrow> Some (control_error 415 ''unsupported_media_type'' (Some ''Content-Type''))
      | [v] \<Rightarrow> if v \<noteq> expected then Some (control_error 415 ''unsupported_media_type'' (Some ''Content-Type'')) else None
      | _ \<Rightarrow> Some (invalid_field ''Content-Type''))"

text \<open>The exact object: unknown members first, in the order of the text, then missing ones.\<close>

definition exact_object :: "string list \<Rightarrow> json \<Rightarrow> reply + (string \<times> json) list" where
  "exact_object expected_fields j =
     (case j of
        J_Obj d \<Rightarrow>
          (case find (\<lambda>f. f \<notin> set expected_fields) (map fst d) of
             Some f \<Rightarrow> Inl (invalid_field f)
           | None \<Rightarrow>
               (case find (\<lambda>f. dict_get d f = None) expected_fields of
                  Some f \<Rightarrow> Inl (control_error 400 ''missing_field'' (Some f))
                | None \<Rightarrow> Inr d))
      | _ \<Rightarrow> Inl (invalid_field ''body''))"

definition load_encrypted_json ::
  "(bytes \<Rightarrow> json_load) \<Rightarrow> string list \<Rightarrow> nat \<Rightarrow> http_request \<Rightarrow> enc_raise + (reply + (string \<times> json) list)"
where
  "load_encrypted_json load expected_fields max_bytes r =
     (case require_content_type ''application/json'' r of
        Some err \<Rightarrow> Inr (Inl err)
      | None \<Rightarrow>
          if max_bytes < length (rq_body r) then Inr (Inl (control_error 413 ''payload_too_large'' (Some ''body'')))
          else (case load (rq_body r) of
              Json_Duplicate f \<Rightarrow> Inr (Inl (invalid_field f))
            | Json_Malformed \<Rightarrow> Inr (Inl (control_error 400 ''malformed_json'' (Some ''body'')))
            | Json_Raised \<Rightarrow> Inl Other_Raise
            | Json_Value j \<Rightarrow> Inr (exact_object expected_fields j)))"

definition exact_int :: "(string \<times> json) list \<Rightarrow> string \<Rightarrow> (int \<Rightarrow> bool) \<Rightarrow> int option" where
  "exact_int d f ok = (case dict_get d f of Some (J_Int n) \<Rightarrow> if ok n then Some n else None | _ \<Rightarrow> None)"

definition b64_field :: "(string \<times> json) list \<Rightarrow> string \<Rightarrow> bytes option" where
  "b64_field d f =
     (case dict_get d f of Some (J_Str s) \<Rightarrow> (case b64url_decode s of Inl _ \<Rightarrow> None | Inr bs \<Rightarrow> Some bs) | _ \<Rightarrow> None)"

definition manifest_from_payload :: "string \<Rightarrow> (string \<times> json) list \<Rightarrow> reply + euf_manifest" where
  "manifest_from_payload i d =
     (case exact_int d ''version'' (\<lambda>n. n = int EUF_VERSION) of None \<Rightarrow> Inl (invalid_field ''version'') | Some v \<Rightarrow>
     (case exact_int d ''plaintext_size'' (\<lambda>n. 0 \<le> n \<and> n \<le> int EUF_MAX_FILE_SIZE) of None \<Rightarrow> Inl (invalid_field ''plaintext_size'') | Some psize \<Rightarrow>
     (case exact_int d ''chunk_size'' (\<lambda>n. n = int EUF_CHUNK_SIZE) of None \<Rightarrow> Inl (invalid_field ''chunk_size'') | Some c \<Rightarrow>
     (case exact_int d ''chunk_count'' (\<lambda>n. n = (psize + int EUF_CHUNK_SIZE - 1) div int EUF_CHUNK_SIZE) of
        None \<Rightarrow> Inl (invalid_field ''chunk_count'') | Some cnt \<Rightarrow>
     (case b64_field d ''salt'' of None \<Rightarrow> Inl (invalid_field ''salt'') | Some salt \<Rightarrow>
     (case b64_field d ''nonce_prefix'' of None \<Rightarrow> Inl (invalid_field ''nonce_prefix'') | Some pfx \<Rightarrow>
     (case b64_field d ''encrypted_metadata'' of None \<Rightarrow> Inl (invalid_field ''encrypted_metadata'') | Some meta \<Rightarrow>
        if length salt \<noteq> 16 then Inl (invalid_field ''salt'')
        else if length pfx \<noteq> 8 then Inl (invalid_field ''nonce_prefix'')
        else if \<not> (EUF_GCM_TAG_SIZE \<le> length meta \<and> length meta \<le> EUF_MAX_METADATA_SIZE + EUF_GCM_TAG_SIZE)
        then Inl (invalid_field ''encrypted_metadata'')
        else Inr \<lparr>em_file_id = i, em_plaintext_size = nat psize, em_chunk_size = nat c, em_chunk_count = nat cnt, em_salt = salt,
          em_nonce_prefix = pfx, em_encrypted_metadata = meta, em_version = nat v\<rparr>)))))))"

subsection \<open>Uploading\<close>

text \<open>The quota error reports \<open>capacity\<close>, which expires again.\<close>

definition expire_after :: "enc_service \<Rightarrow> time \<Rightarrow> disk_action list \<Rightarrow> enc_disk \<Rightarrow> (enc_disk \<Rightarrow> enc_raise + enc_answer) \<Rightarrow> enc_reply" where
  "expire_after s t acts d k =
     (case expire_actions (es_config s) t (apply_actions acts d) of
        Inl e \<Rightarrow> (acts, Inl (Storage_Raise e))
      | Inr extra \<Rightarrow> (acts @ extra, k (apply_actions (acts @ extra) d)))"

definition create_encrypted_upload :: "enc_service \<Rightarrow> enc_moment \<Rightarrow> http_request \<Rightarrow> string \<Rightarrow> enc_disk \<Rightarrow> enc_reply" where
  "create_encrypted_upload s mo r i d =
     (case load_encrypted_json (es_load s) CREATE_UPLOAD_FIELDS ENCRYPTED_CREATE_BODY_LIMIT r of
        Inl e \<Rightarrow> ([], Inl e)
      | Inr (Inl err) \<Rightarrow> say err
      | Inr (Inr payload) \<Rightarrow>
     (case manifest_from_payload i payload of
        Inl err \<Rightarrow> say err
      | Inr m0 \<Rightarrow>
     (case manifest_check m0 of
        Inl _ \<Rightarrow> ([], Inl Value_Raise)
      | Inr m \<Rightarrow>
     (case create_file (es_config s) (mo_time1 mo) (mo_time2 mo) (mo_time3 mo) (mo_space mo) (mo_io_ok mo) m d of
        (acts, Inr (rec, created)) \<Rightarrow> (acts, Inr (Enc_Record (if created then 201 else 200) rec))
      | (acts, Inl e) \<Rightarrow>
          if e = Enc_Quota
          then expire_after s (mo_time3 mo) acts d
            (\<lambda>_. Inr (Enc_Error (control_error 507 ''storage_quota_exceeded'' (Some ''plaintext_size''))))
          else (acts, if e = Enc_Conflict then Inr (Enc_Error (control_error 409 ''encrypted_file_conflict'' (Some ''id'')))
                      else if e = Enc_Invalid then Inr (Enc_Error (invalid_field ''plaintext_size''))
                      else Inl (Storage_Raise e))))))"

definition resume_mac_of :: "http_request \<Rightarrow> reply + bytes" where
  "resume_mac_of r =
     (case get_header_values ''X-XFerry-Chunk-MAC'' r of
        [] \<Rightarrow> Inl (control_error 400 ''missing_field'' (Some ''X-XFerry-Chunk-MAC''))
      | [v] \<Rightarrow> (case b64url_decode v of
            Inl _ \<Rightarrow> Inl (invalid_field ''X-XFerry-Chunk-MAC'')
          | Inr mac \<Rightarrow> if length mac \<noteq> 32 then Inl (invalid_field ''X-XFerry-Chunk-MAC'') else Inr mac)
      | _ \<Rightarrow> Inl (invalid_field ''X-XFerry-Chunk-MAC''))"

definition put_encrypted_chunk :: "enc_service \<Rightarrow> enc_moment \<Rightarrow> http_request \<Rightarrow> string \<Rightarrow> nat \<Rightarrow> enc_disk \<Rightarrow> enc_reply" where
  "put_encrypted_chunk s mo r i index d =
     (case require_content_type ''application/octet-stream'' r of
        Some err \<Rightarrow> say err
      | None \<Rightarrow>
          if ENCRYPTED_CHUNK_BODY_LIMIT < length (rq_body r) then say (control_error 413 ''payload_too_large'' (Some ''body''))
          else (case resume_mac_of r of
              Inl err \<Rightarrow> say err
            | Inr mac \<Rightarrow>
                (case write_chunk (es_sha s) (es_config s) (mo_time1 mo) (mo_time2 mo) i index (rq_body r) mac d of
                   (acts, Inr (rec, stored)) \<Rightarrow> (acts, Inr (Enc_Chunk_Stored (if stored then 201 else 200) i index stored mac))
                 | (acts, Inl e) \<Rightarrow>
                     (acts, if e = Not_Found then Inr (Enc_Error enc_not_found)
                            else if e = Enc_Conflict then Inr (Enc_Error (control_error 409 ''encrypted_chunk_conflict'' (Some ''body'')))
                            else if e = Enc_Invalid then Inr (Enc_Error (invalid_field ''body''))
                            else Inl (Storage_Raise e)))))"

definition complete_encrypted_upload :: "enc_service \<Rightarrow> enc_moment \<Rightarrow> string \<Rightarrow> enc_disk \<Rightarrow> enc_reply" where
  "complete_encrypted_upload s mo i d =
     (case complete_file (es_config s) (mo_time1 mo) (mo_time2 mo) (mo_time3 mo) i d of
        (acts, Inr (rec, completed)) \<Rightarrow> (acts, Inr (Enc_Completed rec completed))
      | (acts, Inl e) \<Rightarrow>
          (acts, if e = Not_Found then Inr (Enc_Error enc_not_found)
                 else if e = Enc_Incomplete then Inr (Enc_Error (control_error 409 ''encrypted_file_incomplete'' (Some ''id'')))
                 else Inl (Storage_Raise e)))"

subsection \<open>Listing and reading\<close>

definition list_encrypted_uploads :: "enc_service \<Rightarrow> enc_moment \<Rightarrow> enc_disk \<Rightarrow> enc_reply" where
  "list_encrypted_uploads s mo d =
     (case expire_actions (es_config s) (mo_time1 mo) d of
        Inl e \<Rightarrow> ([], Inl (Storage_Raise e))
      | Inr acts \<Rightarrow>
          (case list_files_locked (Some Partial_File) (apply_actions acts d) of
             Inl e \<Rightarrow> (acts, Inl (Storage_Raise e))
           | Inr rs \<Rightarrow> expire_after s (mo_time2 mo) acts d (\<lambda>_. Inr (Enc_Uploads rs))))"

definition list_encrypted_files :: "enc_service \<Rightarrow> enc_moment \<Rightarrow> enc_disk \<Rightarrow> enc_reply" where
  "list_encrypted_files s mo d =
     (case expire_actions (es_config s) (mo_time1 mo) d of
        Inl e \<Rightarrow> ([], Inl (Storage_Raise e))
      | Inr acts \<Rightarrow>
          (case list_files_locked (Some Complete_File) (apply_actions acts d) of
             Inl e \<Rightarrow> (acts, Inl (Storage_Raise e))
           | Inr rs \<Rightarrow> (acts, Inr (Enc_Files rs))))"

text \<open>\<open>storage.get\<close> and the test of the status, which most routes begin with.\<close>

definition with_record ::
  "enc_service \<Rightarrow> enc_moment \<Rightarrow> enc_status \<Rightarrow> string \<Rightarrow> enc_disk \<Rightarrow> (stored_file \<Rightarrow> enc_disk \<Rightarrow> enc_reply) \<Rightarrow> enc_reply"
where
  "with_record s mo status i d k =
     (case get_file (es_config s) (mo_time1 mo) i d of
        (acts, Inl e) \<Rightarrow> (acts, Inl (Storage_Raise e))
      | (acts, Inr None) \<Rightarrow> (acts, Inr (Enc_Error enc_not_found))
      | (acts, Inr (Some rec)) \<Rightarrow>
          if sf_status rec \<noteq> status then (acts, Inr (Enc_Error enc_not_found))
          else (case k rec (apply_actions acts d) of (acts', a) \<Rightarrow> (acts @ acts', a)))"

definition show_record :: "stored_file \<Rightarrow> enc_disk \<Rightarrow> enc_reply" where
  "show_record rec d = ([], Inr (Enc_Record 200 rec))"

definition delete_record :: "string \<Rightarrow> stored_file \<Rightarrow> enc_disk \<Rightarrow> enc_reply" where
  "delete_record i rec d = (delete_actions i, Inr (Enc_Deleted i))"

definition download_encrypted_file :: "enc_service \<Rightarrow> enc_moment \<Rightarrow> string \<Rightarrow> enc_disk \<Rightarrow> enc_reply" where
  "download_encrypted_file s mo i d =
     with_record s mo Complete_File i d (\<lambda>rec d'.
       case dict_get (ed_complete d') i of None \<Rightarrow> say enc_not_found | Some c \<Rightarrow> ([], Inr (Enc_Data i c)))"

text \<open>\<open>_open_complete_ciphertext\<close>: the file of the right size, or nothing.\<close>

definition open_complete_ciphertext :: "stored_file \<Rightarrow> enc_disk \<Rightarrow> bytes option" where
  "open_complete_ciphertext rec d =
     (case dict_get (ed_complete d) (sf_file_id rec) of
        None \<Rightarrow> None
      | Some c \<Rightarrow> if length c \<noteq> ciphertext_size (sf_manifest rec) then None else Some c)"

text \<open>A chunk index in the path is converted only when it is not longer than the number of chunks.\<close>

definition download_encrypted_chunk :: "enc_service \<Rightarrow> enc_moment \<Rightarrow> string \<Rightarrow> string \<Rightarrow> enc_disk \<Rightarrow> enc_reply" where
  "download_encrypted_chunk s mo i raw_index d =
     with_record s mo Complete_File i d (\<lambda>rec d'.
       let m = sf_manifest rec
       in if length (py_str_int (int (em_chunk_count m))) < length raw_index then say enc_not_found
          else case py_int raw_index of
              None \<Rightarrow> ([], Inl Value_Raise)
            | Some index \<Rightarrow>
                if int (em_chunk_count m) \<le> index then say enc_not_found
                else (case open_complete_ciphertext rec d' of
                    None \<Rightarrow> say enc_not_found
                  | Some c \<Rightarrow>
                      ([], Inr (Enc_Range (take (min (em_chunk_size m) (em_plaintext_size m - nat index * em_chunk_size m) + EUF_GCM_TAG_SIZE)
                         (drop (nat index * (em_chunk_size m + EUF_GCM_TAG_SIZE)) c))))))"

subsection \<open>Decryption on the server\<close>

text \<open>\<open>_iter_decrypted_chunks\<close>: the plaintexts that are sent, and whether the iterator ends without an exception.\<close>

fun decrypt_stream :: "aead_decrypt \<Rightarrow> bytes \<Rightarrow> euf_manifest \<Rightarrow> nat list \<Rightarrow> bytes \<Rightarrow> bytes list \<times> bool" where
  "decrypt_stream dec key m [] rest = ([], rest = [])"
| "decrypt_stream dec key m (k # ks) rest =
     (let n = min (em_chunk_size m) (em_plaintext_size m - k * em_chunk_size m) + EUF_GCM_TAG_SIZE
      in if length (take n rest) \<noteq> n then ([], False)
         else case decrypt_chunk dec (take n rest) key m (int k) of
             Inr (Some p) \<Rightarrow> (let (ps, ok) = decrypt_stream dec key m ks (drop n rest) in (p # ps, ok))
           | _ \<Rightarrow> ([], False))"

definition server_decryption_allowed :: "server \<Rightarrow> enc_service \<Rightarrow> live_request \<Rightarrow> bool" where
  "server_decryption_allowed srv s l \<longleftrightarrow>
     es_tls s \<or> (case sc_peer (lr_security l) of None \<Rightarrow> False | Some host \<Rightarrow> is_loopback_ip (sv_hosts srv) host)"

definition send_decrypted :: "enc_service \<Rightarrow> bytes \<Rightarrow> stored_file \<Rightarrow> enc_disk \<Rightarrow> enc_reply" where
  "send_decrypted s key rec d =
     (case decrypt_metadata (es_decrypt s) (es_meta_decode s) key (sf_manifest rec) of
        Inl _ \<Rightarrow> ([], Inl Value_Raise)
      | Inr None \<Rightarrow> say enc_decryption_failed
      | Inr (Some meta) \<Rightarrow>
          (case open_complete_ciphertext rec d of
             None \<Rightarrow> say enc_not_found
           | Some c \<Rightarrow>
               (let (ps, ok) = decrypt_stream (es_decrypt s) key (sf_manifest rec) [0..<em_chunk_count (sf_manifest rec)] c
                in ([], Inr (Enc_Plain meta ps ok)))))"

definition decrypt_encrypted_file :: "server \<Rightarrow> enc_service \<Rightarrow> enc_moment \<Rightarrow> live_request \<Rightarrow> string \<Rightarrow> enc_disk \<Rightarrow> enc_reply" where
  "decrypt_encrypted_file srv s mo l i d =
     (if \<not> server_decryption_allowed srv s l then say (control_error 403 ''server_decryption_forbidden'' None)
      else case load_encrypted_json (es_load s) [''content_key''] ENCRYPTED_DECRYPT_BODY_LIMIT (lr_request l) of
          Inl e \<Rightarrow> ([], Inl e)
        | Inr (Inl err) \<Rightarrow> say err
        | Inr (Inr payload) \<Rightarrow>
            (case b64_field payload ''content_key'' of
               None \<Rightarrow> say (invalid_field ''content_key'')
             | Some key \<Rightarrow>
                 if length key \<noteq> 32 then say (invalid_field ''content_key'')
                 else with_record s mo Complete_File i d (send_decrypted s key)))"

subsection \<open>Routes\<close>

datatype enc_route = Route_Uploads | Route_Chunk string string | Route_Complete string | Route_Upload string
  | Route_Files | Route_Data string | Route_File_Chunk string string | Route_Decrypt string | Route_File string | Route_None

text \<open>The patterns in the order they are tried; their languages are disjoint.\<close>

definition enc_route_of :: "string \<Rightarrow> enc_route" where
  "enc_route_of path =
     (if path = ENCRYPTED_UPLOADS_PATH then Route_Uploads
      else if path = ENCRYPTED_FILES_PATH then Route_Files
      else case (below_path ENCRYPTED_UPLOADS_PATH path, below_path ENCRYPTED_FILES_PATH path) of
          (Some [i, c, n], _) \<Rightarrow> if file_id_ok i \<and> c = ''chunks'' \<and> chunk_index_ok n then Route_Chunk i n else Route_None
        | (Some [i, c], _) \<Rightarrow> if file_id_ok i \<and> c = ''complete'' then Route_Complete i else Route_None
        | (Some [i], _) \<Rightarrow> if file_id_ok i then Route_Upload i else Route_None
        | (None, Some [i, c, n]) \<Rightarrow> if file_id_ok i \<and> c = ''chunks'' \<and> chunk_index_ok n then Route_File_Chunk i n else Route_None
        | (None, Some [i, c]) \<Rightarrow>
            if file_id_ok i \<and> c = ''data'' then Route_Data i
            else if file_id_ok i \<and> c = ''decrypt'' then Route_Decrypt i else Route_None
        | (None, Some [i]) \<Rightarrow> if file_id_ok i then Route_File i else Route_None
        | _ \<Rightarrow> Route_None)"

definition bodiless :: "string \<Rightarrow> string \<Rightarrow> http_request \<Rightarrow> enc_reply \<Rightarrow> enc_reply" where
  "bodiless m allowed r reply =
     (if m \<noteq> allowed then say (enc_method_not_allowed [allowed])
      else if rq_body r \<noteq> [] then say (invalid_field ''body'') else reply)"

definition encrypted_upload_item :: "enc_service \<Rightarrow> enc_moment \<Rightarrow> http_request \<Rightarrow> string \<Rightarrow> enc_disk \<Rightarrow> enc_reply" where
  "encrypted_upload_item s mo r i d =
     (if rq_method r = ''PUT'' then create_encrypted_upload s mo r i d
      else if rq_method r = ''GET''
      then (if rq_body r \<noteq> [] then say (invalid_field ''body'') else with_record s mo Partial_File i d show_record)
      else if rq_method r = ''DELETE''
      then (if rq_body r \<noteq> [] then say (invalid_field ''body'') else with_record s mo Partial_File i d (delete_record i))
      else say (enc_method_not_allowed [''GET'', ''PUT'', ''DELETE'']))"

definition encrypted_file_item :: "enc_service \<Rightarrow> enc_moment \<Rightarrow> http_request \<Rightarrow> string \<Rightarrow> enc_disk \<Rightarrow> enc_reply" where
  "encrypted_file_item s mo r i d =
     (if rq_method r \<notin> {''GET'', ''DELETE''} then say (enc_method_not_allowed [''GET'', ''DELETE''])
      else if rq_body r \<noteq> [] then say (invalid_field ''body'')
      else with_record s mo Complete_File i d (if rq_method r = ''GET'' then show_record else delete_record i))"

text \<open>The index of a chunk upload is converted before anything else is looked at.\<close>

definition handle_encrypted_route :: "server \<Rightarrow> enc_service \<Rightarrow> enc_moment \<Rightarrow> live_request \<Rightarrow> enc_disk \<Rightarrow> enc_reply" where
  "handle_encrypted_route srv s mo l d =
     (let r = lr_request l; m = rq_method r
      in case enc_route_of (rq_raw_path r) of
           Route_Uploads \<Rightarrow> bodiless m ''GET'' r (list_encrypted_uploads s mo d)
         | Route_Chunk i n \<Rightarrow>
             if m \<noteq> ''PUT'' then say (enc_method_not_allowed [''PUT''])
             else (case py_int n of
                 None \<Rightarrow> ([], Inl Value_Raise)
               | Some index \<Rightarrow> put_encrypted_chunk s mo r i (nat index) d)
         | Route_Complete i \<Rightarrow> bodiless m ''POST'' r (complete_encrypted_upload s mo i d)
         | Route_Upload i \<Rightarrow> encrypted_upload_item s mo r i d
         | Route_Files \<Rightarrow> bodiless m ''GET'' r (list_encrypted_files s mo d)
         | Route_Data i \<Rightarrow> bodiless m ''GET'' r (download_encrypted_file s mo i d)
         | Route_File_Chunk i n \<Rightarrow> bodiless m ''GET'' r (download_encrypted_chunk s mo i n d)
         | Route_Decrypt i \<Rightarrow>
             if m \<noteq> ''POST'' then say (enc_method_not_allowed [''POST'']) else decrypt_encrypted_file srv s mo l i d
         | Route_File i \<Rightarrow> encrypted_file_item s mo r i d
         | Route_None \<Rightarrow> say enc_not_found)"

definition handle_encrypted_transfer :: "server \<Rightarrow> enc_service \<Rightarrow> enc_moment \<Rightarrow> live_request \<Rightarrow> enc_disk \<Rightarrow> enc_reply" where
  "handle_encrypted_transfer srv s mo l d =
     (let r = lr_request l
      in if \<not> es_enabled s then say (error_reply 404 (Some ''resource_not_found'') (Some ''path'') False)
         else if rq_raw_target r \<noteq> rq_raw_path r \<or> rq_raw_path r \<noteq> lr_path l then say enc_not_found
         else handle_encrypted_route srv s mo l d)"

subsection \<open>A refused request only clears what has expired\<close>

text \<open>A deletion of a partial upload that has expired at one of the given times.\<close>

definition expired_drop :: "enc_config \<Rightarrow> time set \<Rightarrow> enc_disk \<Rightarrow> disk_action \<Rightarrow> bool" where
  "expired_drop cfg ts d a \<longleftrightarrow> (\<exists>j rec. a \<in> set (delete_actions j) \<and> dict_get (ed_state d) j = Some (Valid_Sidecar rec) \<and>
     sf_status rec = Partial_File \<and> (\<exists>t \<in> ts. expired_file cfg t rec))"

definition housekeeping :: "enc_config \<Rightarrow> time set \<Rightarrow> enc_disk \<Rightarrow> disk_action list \<Rightarrow> bool" where
  "housekeeping cfg ts d acts \<longleftrightarrow> (\<forall>a \<in> set acts. expired_drop cfg ts d a)"

lemma housekeeping_Nil [simp]: "housekeeping cfg ts d []"
  by (simp add: housekeeping_def)

lemma housekeeping_more: "housekeeping cfg ts d acts \<Longrightarrow> ts \<subseteq> ts' \<Longrightarrow> housekeeping cfg ts' d acts"
  unfolding housekeeping_def expired_drop_def by blast

lemma drop_keeps_state:
  "\<forall>a \<in> set acts. \<exists>j. a \<in> set (delete_actions j) \<Longrightarrow> dict_get (ed_state (apply_actions acts d)) i = Some x \<Longrightarrow>
     dict_get (ed_state d) i = Some x"
proof (induction acts arbitrary: d)
  case (Cons a acts)
  have "dict_get (ed_state (apply_action a d)) i = Some x" using Cons by simp
  moreover obtain j where "a \<in> set (delete_actions j)" using Cons.prems(1) by auto
  ultimately show ?case by (auto simp: delete_actions_def split: if_splits)
qed simp

lemma housekeeping_append:
  assumes "housekeeping cfg ts d acts" "housekeeping cfg ts (apply_actions acts d) acts'"
  shows "housekeeping cfg ts d (acts @ acts')"
proof -
  have drops: "\<forall>a \<in> set acts. \<exists>j. a \<in> set (delete_actions j)" using assms(1) unfolding housekeeping_def expired_drop_def by blast
  have "expired_drop cfg ts d a" if "a \<in> set acts'" for a
    using assms(2) that drop_keeps_state[OF drops] unfolding housekeeping_def expired_drop_def by blast
  then show ?thesis using assms(1) unfolding housekeeping_def by auto
qed

lemma housekeeping_get: "get_file cfg t i d = (acts, res) \<Longrightarrow> t \<in> ts \<Longrightarrow> housekeeping cfg ts d acts"
  using get_file_cases[of cfg t i d acts res] read_state_Inr[of i d]
  unfolding housekeeping_def expired_drop_def by force

lemma housekeeping_require: "require_file cfg t i d = (acts, res) \<Longrightarrow> t \<in> ts \<Longrightarrow> housekeeping cfg ts d acts"
  using require_file_cases[of cfg t i d acts res] read_state_Inr[of i d]
  unfolding housekeeping_def expired_drop_def by force

lemma housekeeping_expire:
  assumes "expire_actions cfg t d = Inr acts" "t \<in> ts"
  shows "housekeeping cfg ts d acts"
proof -
  obtain all where all: "read_all d (state_ids d) = Inr all"
    and acts: "acts = concat (map (\<lambda>r. delete_actions (sf_file_id r))
      (filter (expired_file cfg t) (filter (\<lambda>r. Some Partial_File = Some (sf_status r)) all)))"
    using assms(1) by (auto simp: expire_actions_def list_files_locked_def split: sum.splits)
  have "\<exists>r. r \<in> set all \<and> sf_status r = Partial_File \<and> expired_file cfg t r \<and> a \<in> set (delete_actions (sf_file_id r))"
    if "a \<in> set acts" for a using that by (auto simp: acts)
  then show ?thesis
    unfolding housekeeping_def expired_drop_def using read_all_sound[OF all] read_state_Inr assms(2) by metis
qed

lemma housekeeping_create:
  assumes "create_file cfg t1 t2 t3 space io_ok m d = (acts, Inl e)" "e \<noteq> Enc_IO" "t1 \<in> ts" "t2 \<in> ts"
  shows "housekeeping cfg ts d acts"
proof (cases "expire_actions cfg t1 d")
  case (Inr a1)
  obtain a2 res where g: "get_file cfg t2 (em_file_id m) (apply_actions a1 d) = (a2, res)" by fastforce
  have "housekeeping cfg ts d (a1 @ a2)"
    by (rule housekeeping_append[OF housekeeping_expire[OF Inr assms(3)] housekeeping_get[OF g assms(4)]])
  moreover have "acts = a1 @ a2"
    using assms(1,2) Inr g unfolding create_file_def by (auto simp: Let_def split: sum.splits option.splits if_splits)
  ultimately show ?thesis by simp
qed (use assms in \<open>simp add: create_file_def\<close>)

lemma housekeeping_write:
  assumes "write_chunk sha cfg t1 t2 i index ct mac d = (acts, Inl e)" "t1 \<in> ts"
  shows "housekeeping cfg ts d acts"
proof -
  obtain a res where g: "require_file cfg t1 i d = (a, res)" by fastforce
  have "acts = [] \<or> acts = a"
    using assms(1) g unfolding write_chunk_def by (auto simp: Let_def split: sum.splits option.splits if_splits)
  then show ?thesis using housekeeping_require[OF g assms(2)] by auto
qed

lemma housekeeping_complete:
  assumes "complete_file cfg t1 t2 t3 i d = (acts, Inl e)" "e \<noteq> Enc_Corrupt" "t1 \<in> ts"
  shows "housekeeping cfg ts d acts"
proof -
  obtain a res where g: "require_file cfg t1 i d = (a, res)" by fastforce
  have p: "publish_committing t3 r d' = (a2, Inl e') \<Longrightarrow> e' = Enc_Corrupt" for r d' a2 e'
    by (auto simp: publish_committing_def Let_def split: option.splits if_splits)
  have "acts = a"
    using assms(1,2) g unfolding complete_file_def
    by (auto simp: Let_def dest: p split: sum.splits option.splits if_splits prod.splits)
  then show ?thesis using housekeeping_require[OF g assms(3)] by simp
qed

text \<open>Said of one reply: a refusal only keeps house.\<close>

definition refuses_quietly :: "enc_config \<Rightarrow> time set \<Rightarrow> enc_disk \<Rightarrow> enc_reply \<Rightarrow> bool" where
  "refuses_quietly cfg ts d reply \<longleftrightarrow> (\<forall>r. snd reply = Inr (Enc_Error r) \<longrightarrow> housekeeping cfg ts d (fst reply))"

lemma quiet_simps [simp]:
  "refuses_quietly cfg ts d (say r)" "refuses_quietly cfg ts d ([], a)" "refuses_quietly cfg ts d (acts, Inl e)"
  by (simp_all add: refuses_quietly_def say_def)

lemma quiet_bodiless [simp]: "refuses_quietly cfg ts d reply \<Longrightarrow> refuses_quietly cfg ts d (bodiless m allowed r reply)"
  by (simp add: bodiless_def)

lemma quiet_with_record [intro]:
  assumes "\<And>rec d'. refuses_quietly (es_config s) ts d' (k rec d')" "mo_time1 mo \<in> ts"
  shows "refuses_quietly (es_config s) ts d (with_record s mo status i d k)"
proof -
  obtain acts res where g: "get_file (es_config s) (mo_time1 mo) i d = (acts, res)" by fastforce
  note h = housekeeping_get[OF g assms(2)]
  have k: "refuses_quietly (es_config s) ts d (case k rec (apply_actions acts d) of (acts', a) \<Rightarrow> (acts @ acts', a))" for rec
    using assms(1)[of "apply_actions acts d" rec] h
    by (auto simp: refuses_quietly_def split: prod.splits intro: housekeeping_append)
  show ?thesis using h k by (auto simp: with_record_def g refuses_quietly_def split: sum.splits option.splits)
qed

definition moment_times :: "enc_moment \<Rightarrow> time set" where "moment_times mo = {mo_time1 mo, mo_time2 mo, mo_time3 mo}"

lemma moment_times_mem [simp]: "mo_time1 mo \<in> moment_times mo" "mo_time2 mo \<in> moment_times mo" "mo_time3 mo \<in> moment_times mo"
  by (simp_all add: moment_times_def)

lemma quiet_expire_after:
  assumes "housekeeping (es_config s) ts d acts" "t \<in> ts"
  shows "refuses_quietly (es_config s) ts d (expire_after s t acts d k)"
  using housekeeping_append[OF assms(1) housekeeping_expire[OF _ assms(2)]]
  by (auto simp: expire_after_def refuses_quietly_def split: sum.splits)

lemma quiet_create: "refuses_quietly (es_config s) (moment_times mo) d (create_encrypted_upload s mo r i d)"
proof -
  have c: "refuses_quietly (es_config s) (moment_times mo) d
      (case create_file (es_config s) (mo_time1 mo) (mo_time2 mo) (mo_time3 mo) (mo_space mo) (mo_io_ok mo) m d of
        (acts, Inr (rec, created)) \<Rightarrow> (acts, Inr (Enc_Record (if created then 201 else 200) rec))
      | (acts, Inl e) \<Rightarrow>
          if e = Enc_Quota
          then expire_after s (mo_time3 mo) acts d
            (\<lambda>_. Inr (Enc_Error (control_error 507 ''storage_quota_exceeded'' (Some ''plaintext_size''))))
          else (acts, if e = Enc_Conflict then Inr (Enc_Error (control_error 409 ''encrypted_file_conflict'' (Some ''id'')))
                      else if e = Enc_Invalid then Inr (Enc_Error (invalid_field ''plaintext_size''))
                      else Inl (Storage_Raise e)))" for m
  proof -
    obtain acts res where g: "create_file (es_config s) (mo_time1 mo) (mo_time2 mo) (mo_time3 mo) (mo_space mo) (mo_io_ok mo) m d = (acts, res)"
      by fastforce
    show ?thesis
    proof (cases res)
      case (Inl e)
      show ?thesis
      proof (cases e)
        case Enc_Quota
        then show ?thesis using quiet_expire_after[OF housekeeping_create[OF g[unfolded Inl], of "moment_times mo"]] g Inl by simp
      qed (use housekeeping_create[OF g[unfolded Inl], of "moment_times mo"] g Inl in \<open>simp_all add: refuses_quietly_def\<close>)
    qed (use g in \<open>auto simp: refuses_quietly_def\<close>)
  qed
  show ?thesis unfolding create_encrypted_upload_def
    by (simp only: c quiet_simps simp_thms split: sum.split)
qed

lemma quiet_put: "refuses_quietly (es_config s) (moment_times mo) d (put_encrypted_chunk s mo r i index d)"
  using housekeeping_write[where ts = "moment_times mo" and cfg = "es_config s" and ?t1.0 = "mo_time1 mo"]
  unfolding put_encrypted_chunk_def by (force simp: refuses_quietly_def say_def split: option.split sum.split prod.split)

lemma quiet_complete: "refuses_quietly (es_config s) (moment_times mo) d (complete_encrypted_upload s mo i d)"
  using housekeeping_complete[where ts = "moment_times mo" and cfg = "es_config s" and ?t1.0 = "mo_time1 mo"]
  unfolding complete_encrypted_upload_def by (force simp: refuses_quietly_def split: sum.split prod.split)

lemma quiet_lists:
  "refuses_quietly (es_config s) ts d (list_encrypted_uploads s mo d)" "refuses_quietly (es_config s) ts d (list_encrypted_files s mo d)"
  by (auto simp: list_encrypted_uploads_def list_encrypted_files_def expire_after_def refuses_quietly_def split: sum.split)

lemma quiet_reads:
  "refuses_quietly cfg ts d (show_record rec d')" "refuses_quietly cfg ts d (send_decrypted s key rec d')"
  by (auto simp: show_record_def send_decrypted_def Let_def refuses_quietly_def say_def split: sum.split option.split prod.split)

lemma quiet_delete: "refuses_quietly cfg ts d (delete_record i rec d')"
  by (simp add: delete_record_def refuses_quietly_def)

lemma quiet_downloads:
  "refuses_quietly (es_config s) (moment_times mo) d (download_encrypted_file s mo i d)"
  "refuses_quietly (es_config s) (moment_times mo) d (download_encrypted_chunk s mo i n d)"
  unfolding download_encrypted_file_def download_encrypted_chunk_def
  by (rule quiet_with_record; auto simp: Let_def refuses_quietly_def say_def split: option.split)+

lemma quiet_decrypt: "refuses_quietly (es_config s) (moment_times mo) d (decrypt_encrypted_file srv s mo l i d)"
  unfolding decrypt_encrypted_file_def
  by (auto split: sum.split option.split intro!: quiet_with_record simp: quiet_reads)

lemma quiet_items:
  "refuses_quietly (es_config s) (moment_times mo) d (encrypted_upload_item s mo r i d)"
  "refuses_quietly (es_config s) (moment_times mo) d (encrypted_file_item s mo r i d)"
  unfolding encrypted_upload_item_def encrypted_file_item_def
  by (auto intro!: quiet_with_record simp: quiet_create quiet_reads quiet_delete)

lemma quiet_route: "refuses_quietly (es_config s) (moment_times mo) d (handle_encrypted_route srv s mo l d)"
  unfolding handle_encrypted_route_def Let_def
  by (auto split: enc_route.split option.split simp: quiet_lists quiet_put quiet_complete quiet_items quiet_downloads quiet_decrypt)

text \<open>
  C32. A request that the encrypted-transfer endpoints refuse changes nothing of what is stored, except that it may remove partial
  uploads that had expired when it was handled: every durable action of the request is part of the deletion of such an upload.
\<close>

theorem refused_request_stores_nothing:
  assumes "handle_encrypted_transfer srv s mo l d = (acts, Inr (Enc_Error r))" and "a \<in> set acts"
  shows "\<exists>j rec. a \<in> {Drop_Part j, Drop_Complete j, Drop_State j} \<and> dict_get (ed_state d) j = Some (Valid_Sidecar rec) \<and>
    sf_status rec = Partial_File \<and> (\<exists>t \<in> {mo_time1 mo, mo_time2 mo, mo_time3 mo}. ec_incomplete_ttl (es_config s) < t - sf_updated_at rec)"
proof -
  have "refuses_quietly (es_config s) (moment_times mo) d (handle_encrypted_transfer srv s mo l d)"
    by (simp add: handle_encrypted_transfer_def Let_def quiet_route)
  then have "expired_drop (es_config s) (moment_times mo) d a"
    using assms by (simp add: refuses_quietly_def housekeeping_def)
  then show ?thesis by (simp add: expired_drop_def expired_file_def delete_actions_def moment_times_def)
qed

subsection \<open>Routing of canonical paths\<close>

lemma file_id_no_slash: "file_id_ok i \<Longrightarrow> CHR ''/'' \<notin> set i"
  by (auto simp: file_id_ok_def list_all_iff is_lower_hex_def is_digit_def)

lemma manifest_file_id: "manifest_check m = Inr m' \<Longrightarrow> file_id_ok (em_file_id m)"
  using manifest_facts(7,8) by (simp add: file_id_ok_def)

definition item_path :: "string \<Rightarrow> string list \<Rightarrow> string" where
  "item_path base segs = base @ concat (map (\<lambda>s. CHR ''/'' # s) segs)"

lemma below_item_path:
  "segs \<noteq> [] \<Longrightarrow> list_all (\<lambda>s. CHR ''/'' \<notin> set s) segs \<Longrightarrow> below_path base (item_path base segs) = Some segs"
proof -
  assume n: "segs \<noteq> []" "list_all (\<lambda>s. CHR ''/'' \<notin> set s) segs"
  have j: "concat (map (\<lambda>s. CHR ''/'' # s) segs) = CHR ''/'' # py_join (CHR ''/'') segs"
    using n(1) by (induction "CHR ''/''" segs rule: py_join.induct) auto
  show ?thesis using py_split_join[OF n(1), of "CHR ''/''"] n(2) by (simp add: list_all_iff below_path_def item_path_def j)
qed

lemma other_base:
  "below_path ENCRYPTED_UPLOADS_PATH (item_path ENCRYPTED_FILES_PATH segs) = None"
  "item_path ENCRYPTED_FILES_PATH (s # ss) \<noteq> ENCRYPTED_FILES_PATH" "item_path ENCRYPTED_FILES_PATH segs \<noteq> ENCRYPTED_UPLOADS_PATH"
  "item_path ENCRYPTED_UPLOADS_PATH (s # ss) \<noteq> ENCRYPTED_UPLOADS_PATH" "item_path ENCRYPTED_UPLOADS_PATH segs \<noteq> ENCRYPTED_FILES_PATH"
  by (simp_all add: below_path_def item_path_def ENCRYPTED_UPLOADS_PATH_def ENCRYPTED_FILES_PATH_def)

lemma routes:
  assumes "file_id_ok i"
  shows "enc_route_of (item_path ENCRYPTED_FILES_PATH [i, ''decrypt'']) = Route_Decrypt i"
    "enc_route_of (item_path ENCRYPTED_FILES_PATH [i, ''data'']) = Route_Data i"
    "enc_route_of (item_path ENCRYPTED_FILES_PATH [i]) = Route_File i"
    "enc_route_of (item_path ENCRYPTED_UPLOADS_PATH [i]) = Route_Upload i"
    "enc_route_of (item_path ENCRYPTED_UPLOADS_PATH [i, ''complete'']) = Route_Complete i"
    "chunk_index_ok n \<Longrightarrow> enc_route_of (item_path ENCRYPTED_UPLOADS_PATH [i, ''chunks'', n]) = Route_Chunk i n"
proof -
  have n: "CHR ''/'' \<notin> set n" if "chunk_index_ok n"
    using that by (auto simp: chunk_index_ok_def list_all_iff is_digit_def)
  show "enc_route_of (item_path ENCRYPTED_FILES_PATH [i, ''decrypt'']) = Route_Decrypt i"
    "enc_route_of (item_path ENCRYPTED_FILES_PATH [i, ''data'']) = Route_Data i"
    "enc_route_of (item_path ENCRYPTED_FILES_PATH [i]) = Route_File i"
    "enc_route_of (item_path ENCRYPTED_UPLOADS_PATH [i]) = Route_Upload i"
    "enc_route_of (item_path ENCRYPTED_UPLOADS_PATH [i, ''complete'']) = Route_Complete i"
    "chunk_index_ok n \<Longrightarrow> enc_route_of (item_path ENCRYPTED_UPLOADS_PATH [i, ''chunks'', n]) = Route_Chunk i n"
    using assms file_id_no_slash[OF assms] n by (simp_all add: enc_route_of_def below_item_path other_base)
qed

subsection \<open>What was uploaded comes back decrypted\<close>

lemma decrypt_encrypted_chunk:
  assumes m: "manifest_check m = Inr m0" and k: "k < em_chunk_count m" and e: "encrypt_chunk enc p key m (int k) = Inr ct"
    and contract: "\<And>key n p a. length (enc key n p a) = length p + EUF_GCM_TAG_SIZE \<and> dec key n (enc key n p a) a = Some p"
  shows "length ct = enc_len m k" "decrypt_chunk dec ct key m (int k) = Inr (Some p)"
proof -
  obtain aad where aad: "length key = 32" "chunk_aad m (int k) (int (length p)) = Inr aad" "ct = enc key (nonce m k) p aad"
    using e by (auto simp: encrypt_chunk_def split: if_splits sum.splits)
  then have len: "int (length p) = chunk_length m k" by (auto simp: chunk_aad_def split: if_splits)
  have nat: "length p = min (em_chunk_size m) (em_plaintext_size m - k * em_chunk_size m)"
    using len chunk_length_nat[OF chunk_start[OF m k]] by simp
  show "length ct = enc_len m k" using contract aad(3) nat by (simp add: enc_len_def)
  have "min (int (em_chunk_size m)) (int (em_plaintext_size m) - int k * int (em_chunk_size m)) = int (length p)"
    using len by (simp add: chunk_length_def)
  then show "decrypt_chunk dec ct key m (int k) = Inr (Some p)"
    using aad contract by (simp add: decrypt_chunk_def)
qed

lemma decrypt_stream_all:
  "(\<And>k. k \<in> set ks \<Longrightarrow> length (cts k) = enc_len m k \<and> decrypt_chunk dec (cts k) key m (int k) = Inr (Some (pts k))) \<Longrightarrow>
     decrypt_stream dec key m ks (concat (map cts ks)) = (map pts ks, True)"
  by (induction ks) (simp_all add: Let_def enc_len_def[symmetric])

lemma decrypt_encrypted_metadata:
  assumes "encrypt_metadata enc encode md key m = Inr (em_encrypted_metadata m)" "metadata_check md = Inr md"
    "decode (encode md) = Some md"
    and contract: "\<And>key n p a. length (enc key n p a) = length p + EUF_GCM_TAG_SIZE \<and> dec key n (enc key n p a) a = Some p"
  shows "decrypt_metadata dec decode key m = Inr (Some md)"
proof -
  obtain aad where aad: "length key = 32" "length (encode md) \<le> EUF_MAX_METADATA_SIZE" "metadata_aad m = Inr aad"
    "em_encrypted_metadata m = enc key (nonce m EUF_METADATA_INDEX) (encode md) aad"
    using assms(1) by (auto simp: encrypt_metadata_def split: if_splits sum.splits)
  then show ?thesis using contract assms(2,3) by (simp add: decrypt_metadata_def)
qed

lemma completed_record:
  assumes c: "complete_file cfg t1 t2 t3 i d = (acts, Inr (r, True))"
  shows "read_state i (apply_actions acts d) = Inr r" "sf_status r = Complete_File" "sf_file_id r = i"
proof -
  have "read_state i (apply_actions acts d) = Inr r \<and> sf_status r = Complete_File \<and> sf_file_id r = i"
    using complete_cases[OF c]
  proof (elim disjE exE conjE)
    fix r0 a2 res2
    assume rs: "read_state i d = Inr r0" and a: "acts = a2"
      and p: "publish_committing t3 r0 d = (a2, res2)" and res: "Inr (r, True) = (case res2 of Inl e \<Rightarrow> Inl e | Inr r2 \<Rightarrow> Inr (r2, True))"
    show ?thesis using publish_cases[OF p] rs a res read_state_Inr[OF rs] by (auto simp: read_state_def)
  next
    fix r0 a2 res2
    assume rs: "read_state i d = Inr r0" and a: "acts = Put_State i (record_committing r0 t2) # a2"
      and p: "publish_committing t3 (record_committing r0 t2) d = (a2, res2)"
      and res: "Inr (r, True) = (case res2 of Inl e \<Rightarrow> Inl e | Inr r2 \<Rightarrow> Inr (r2, True))"
    show ?thesis using publish_cases[OF p] rs a res read_state_Inr[OF rs] by (auto simp: read_state_def)
  qed auto
  then show "read_state i (apply_actions acts d) = Inr r" "sf_status r = Complete_File" "sf_file_id r = i" by simp_all
qed

text \<open>A request line that asks for a canonical path.\<close>

definition enc_call :: "string \<Rightarrow> string \<Rightarrow> live_request \<Rightarrow> bool" where
  "enc_call m path l \<longleftrightarrow> rq_method (lr_request l) = m \<and> rq_raw_target (lr_request l) = path \<and> rq_raw_path (lr_request l) = path \<and>
     lr_path l = path"

lemma call_complete:
  "es_enabled s \<Longrightarrow> file_id_ok i \<Longrightarrow> enc_call ''POST'' (item_path ENCRYPTED_UPLOADS_PATH [i, ''complete'']) l \<Longrightarrow> rq_body (lr_request l) = [] \<Longrightarrow>
     handle_encrypted_transfer srv s mo l d = complete_encrypted_upload s mo i d"
  by (simp add: handle_encrypted_transfer_def Let_def enc_call_def handle_encrypted_route_def routes bodiless_def)

lemma call_decrypt:
  "es_enabled s \<Longrightarrow> file_id_ok i \<Longrightarrow> enc_call ''POST'' (item_path ENCRYPTED_FILES_PATH [i, ''decrypt'']) l \<Longrightarrow>
     handle_encrypted_transfer srv s mo l d = decrypt_encrypted_file srv s mo l i d"
  by (simp add: handle_encrypted_transfer_def Let_def enc_call_def handle_encrypted_route_def routes)

text \<open>A decryption request that passes every check before the storage is looked at.\<close>

definition asks_decryption :: "server \<Rightarrow> enc_service \<Rightarrow> live_request \<Rightarrow> string \<Rightarrow> bytes \<Rightarrow> bool" where
  "asks_decryption srv s l i key \<longleftrightarrow> enc_call ''POST'' (item_path ENCRYPTED_FILES_PATH [i, ''decrypt'']) l \<and>
     server_decryption_allowed srv s l \<and> require_content_type ''application/json'' (lr_request l) = None \<and>
     length (rq_body (lr_request l)) \<le> ENCRYPTED_DECRYPT_BODY_LIMIT \<and>
     es_load s (rq_body (lr_request l)) = Json_Value (J_Obj [(''content_key'', J_Str (b64url_encode key))])"

lemma decryption_answer:
  assumes "asks_decryption srv s l i key" "es_enabled s" "file_id_ok i" "length key = 32"
    and "read_state i d = Inr r" "sf_status r = Complete_File" "file_id_bytes i = Inr fid"
  shows "handle_encrypted_transfer srv s mo l d = send_decrypted s key r d"
proof -
  have "get_file (es_config s) (mo_time1 mo) i d = ([], Inr (Some r))"
    using assms(5-7) read_state_Inr[OF assms(5)] by (simp add: get_file_def)
  moreover have "b64url_decode (b64url_encode key) = Inr key" by (simp add: b64url_decode_iff)
  ultimately show ?thesis
    using assms(1-4,6) by (simp add: call_decrypt asks_decryption_def decrypt_encrypted_file_def load_encrypted_json_def
        exact_object_def b64_field_def with_record_def)
qed

text \<open>
  C24. What was uploaded comes back. After any history of the storage, crashes included, let every chunk of a file be acknowledged with the
  encryption of the chunk of \<open>plaintext\<close> at its place, and let the completion request be answered with success. Then a
  decryption request with the content key is answered with the file's metadata and with chunks of plaintext, the last of
  them reached without an error, that joined are \<open>plaintext\<close>; it writes nothing. Of the cipher and the metadata codec this needs
  only that decryption inverts encryption and that the tag has 16 bytes.
\<close>

theorem uploaded_file_decrypts:
  assumes "d = enc_run (es_sha s) (es_config s) empty_disk evs" and "es_enabled s" and "file_id_ok i"
    and "enc_call ''POST'' (item_path ENCRYPTED_UPLOADS_PATH [i, ''complete'']) l" and "rq_body (lr_request l) = []"
    and "handle_encrypted_transfer srv s mo l d = (acts, Inr (Enc_Completed r True))"
    and "\<forall>k < em_chunk_count (sf_manifest r). has_chunk (sf_manifest r) i k (cts k) (us k) d"
    and "\<forall>k < em_chunk_count (sf_manifest r).
      encrypt_chunk enc (nth_chunk (em_chunk_size (sf_manifest r)) plaintext k) key (sf_manifest r) (int k) = Inr (cts k)"
    and "length plaintext = em_plaintext_size (sf_manifest r)"
    and "encrypt_metadata enc encode md key (sf_manifest r) = Inr (em_encrypted_metadata (sf_manifest r))"
    and "metadata_check md = Inr md" and "es_meta_decode s (encode md) = Some md"
    and "\<And>key n p a. length (enc key n p a) = length p + EUF_GCM_TAG_SIZE \<and> es_decrypt s key n (enc key n p a) a = Some p"
    and "asks_decryption srv s l2 i key"
  shows "\<exists>ps. handle_encrypted_transfer srv s mo2 l2 (apply_actions acts d) = ([], Inr (Enc_Plain md ps True)) \<and> concat ps = plaintext"
proof -
  let ?m = "sf_manifest r" and ?d = "apply_actions acts d" and ?pt = "nth_chunk (em_chunk_size (sf_manifest r)) plaintext"
  let ?c = "concat (map cts [0..<em_chunk_count (sf_manifest r)])"
  have c: "complete_file (es_config s) (mo_time1 mo) (mo_time2 mo) (mo_time3 mo) i d = (acts, Inr (r, True))"
    using assms(6) unfolding call_complete[OF assms(2-5)] complete_encrypted_upload_def by (auto split: prod.splits sum.splits if_splits)
  have inv: "disk_inv (es_sha s) d" using inv_history assms(1) by simp
  note content = completed_content[OF inv c assms(7)] and rec = completed_record[OF c]
  have key: "length key = 32" using assms(10) by (auto simp: encrypt_metadata_def split: if_splits)
  have fid: "file_id_bytes i = Inr (hex_pairs i)" using manifest_facts(9)[OF content(1)] rec(3) by (simp add: sf_file_id_def)
  have "length (cts k) = enc_len ?m k \<and> decrypt_chunk (es_decrypt s) (cts k) key ?m (int k) = Inr (Some (?pt k))"
    if "k < em_chunk_count ?m" for k
    using decrypt_encrypted_chunk[OF content(1) that, of enc "?pt k" key "cts k" "es_decrypt s"] assms(8,13) that by blast
  then have stream: "decrypt_stream (es_decrypt s) key ?m [0..<em_chunk_count ?m] ?c = (map ?pt [0..<em_chunk_count ?m], True)"
    by (intro decrypt_stream_all) simp
  have "em_plaintext_size ?m \<le> em_chunk_count ?m * em_chunk_size ?m"
    using manifest_facts(3,5)[OF content(1)] dividend_less_times_div[of "em_chunk_size ?m" "em_plaintext_size ?m + 8388607"]
    by (simp add: algebra_simps)
  then have joined: "concat (map ?pt [0..<em_chunk_count ?m]) = plaintext"
    using concat_chunks[of "em_chunk_size ?m" plaintext "em_chunk_count ?m"] assms(9) by simp
  have "handle_encrypted_transfer srv s mo2 l2 ?d = send_decrypted s key r ?d"
    by (rule decryption_answer[OF assms(14,2,3) key rec(1,2) fid])
  also have "\<dots> = ([], Inr (Enc_Plain md (map ?pt [0..<em_chunk_count ?m]) True))"
    using decrypt_encrypted_metadata[where decode = "es_meta_decode s" and md = md and encode = encode, OF assms(10-12), of "es_decrypt s"] assms(13) content(2,3) rec(3) stream
    by (simp add: send_decrypted_def open_complete_ciphertext_def)
  finally show ?thesis using joined by blast
qed

definition mark_encrypt :: aead_encrypt where "mark_encrypt key n p a = p @ replicate 16 (if p = [] then 0 else 7)"

definition demo_metadata :: euf_metadata where
  "demo_metadata = \<lparr>mt_name = ''a.txt'', mt_content_type = [], mt_last_modified_ms = 0\<rparr>"

definition demo_service :: enc_service where
  "demo_service = \<lparr>es_enabled = True, es_config = demo_enc_config, es_sha = id, es_tls = True,
     es_load = (\<lambda>_. Json_Value (J_Obj [(''content_key'', J_Str (b64url_encode (replicate 32 1)))])),
     es_decrypt = toy_decrypt, es_meta_decode = (\<lambda>_. Some demo_metadata)\<rparr>"

definition demo_moment :: "time \<Rightarrow> enc_moment" where
  "demo_moment t = \<lparr>mo_time1 = t, mo_time2 = t, mo_time3 = t, mo_space = True, mo_io_ok = True\<rparr>"

definition demo_call :: "string \<Rightarrow> string \<Rightarrow> live_request" where
  "demo_call m path = \<lparr>lr_request = empty_request\<lparr>rq_method := m, rq_raw_target := path, rq_raw_path := path,
       rq_values := [(py_lower ''Content-Type'', [''application/json''])]\<rparr>, lr_path = path,
     lr_security = \<lparr>sc_peer = None, sc_principal = None, sc_mode = Mode_Disabled, sc_admission = None\<rparr>,
     lr_dispatch = None, lr_prepared = False\<rparr>"

lemma demo_service_parts [simp]:
  "es_enabled demo_service" "es_config demo_service = demo_enc_config" "es_sha demo_service = id" "es_tls demo_service"
  "es_load demo_service = (\<lambda>_. Json_Value (J_Obj [(''content_key'', J_Str (b64url_encode (replicate 32 1)))]))"
  "es_decrypt demo_service = toy_decrypt" "es_meta_decode demo_service = (\<lambda>_. Some demo_metadata)"
  "mo_time1 (demo_moment t) = t" "mo_time2 (demo_moment t) = t" "mo_time3 (demo_moment t) = t"
  by (simp_all add: demo_service_def demo_moment_def)

lemma demo_call_is [simp]: "enc_call m path (demo_call m path)" "rq_body (lr_request (demo_call m path)) = []"
  by (simp_all add: enc_call_def demo_call_def empty_request_def)

lemma demo_call_json: "require_content_type ''application/json'' (lr_request (demo_call m path)) = None"
  by (simp add: require_content_type_def get_header_values_def values_of_def demo_call_def)

lemma demo_encrypted:
  "encrypt_chunk mark_encrypt (nth_chunk (em_chunk_size demo_manifest) [7, 7, 7] 0) (replicate 32 1) demo_manifest 0 = Inr (replicate 19 7)"
  "encrypt_metadata mark_encrypt (\<lambda>_. []) demo_metadata (replicate 32 1) demo_manifest = Inr (em_encrypted_metadata demo_manifest)"
proof -
  obtain aad where aad: "chunk_aad demo_manifest 0 3 = Inr aad" using demo_chunk_aad by blast
  have r: "replicate 19 7 = [7, 7, 7] @ replicate 16 (7 :: byte)" by (simp add: numeral_eq_Suc)
  show "encrypt_chunk mark_encrypt (nth_chunk (em_chunk_size demo_manifest) [7, 7, 7] 0) (replicate 32 1) demo_manifest 0 = Inr (replicate 19 7)"
    unfolding r by (simp add: encrypt_chunk_def nth_chunk_def demo_manifest_def[THEN arg_cong, of em_chunk_size] aad mark_encrypt_def)
  have "metadata_aad demo_manifest = Inr (METADATA_AAD_PREFIX @ hex_pairs (em_file_id demo_manifest) @ be_pack 8 (em_plaintext_size demo_manifest) @
      be_pack 4 (em_chunk_size demo_manifest) @ be_pack 4 (em_chunk_count demo_manifest))"
    using manifest_facts(9)[OF demo_manifest_ok] by (simp add: metadata_aad_def)
  then show "encrypt_metadata mark_encrypt (\<lambda>_. []) demo_metadata (replicate 32 1) demo_manifest = Inr (em_encrypted_metadata demo_manifest)"
    by (simp add: encrypt_metadata_def mark_encrypt_def) (simp add: demo_manifest_def)
qed

theorem uploaded_file_decrypts_witness:
  "\<exists>acts ps. handle_encrypted_transfer demo_server demo_service (demo_moment 3)
      (demo_call ''POST'' (item_path ENCRYPTED_FILES_PATH [em_file_id demo_manifest, ''decrypt'']))
      (apply_actions acts (enc_run id demo_enc_config empty_disk [demo_create, demo_chunk_write])) =
    ([], Inr (Enc_Plain demo_metadata ps True)) \<and> concat ps = [7, 7, 7]"
proof -
  let ?i = "em_file_id demo_manifest" and ?d = "enc_run id demo_enc_config empty_disk [demo_create, demo_chunk_write]"
  obtain acts r where r: "complete_file demo_enc_config 2 2 2 ?i ?d = (acts, Inr (r, True))" "sf_manifest r = demo_manifest"
    using demo_complete by blast
  have ok: "file_id_ok ?i" by (rule manifest_file_id[OF demo_manifest_ok])
  let ?l = "demo_call ''POST'' (item_path ENCRYPTED_UPLOADS_PATH [?i, ''complete''])"
    and ?l2 = "demo_call ''POST'' (item_path ENCRYPTED_FILES_PATH [?i, ''decrypt''])"
  have done_: "handle_encrypted_transfer demo_server demo_service (demo_moment 2) ?l ?d = (acts, Inr (Enc_Completed r True))"
    using r(1) by (simp add: call_complete[OF _ ok] complete_encrypted_upload_def)
  have m: "em_chunk_count demo_manifest = 1" "em_plaintext_size demo_manifest = 3" by (simp_all add: demo_manifest_def)
  have acked: "\<forall>k < em_chunk_count (sf_manifest r). has_chunk (sf_manifest r) ?i k (replicate 19 7) 1 ?d"
    using demo_has_chunk r(2) m by simp
  have enc: "\<forall>k < em_chunk_count (sf_manifest r). encrypt_chunk mark_encrypt (nth_chunk (em_chunk_size (sf_manifest r)) [7, 7, 7] k) (replicate 32 1)
      (sf_manifest r) (int k) = Inr (replicate 19 7)" using demo_encrypted(1) r(2) m by simp
  have contract: "length (mark_encrypt key n p a) = length p + EUF_GCM_TAG_SIZE \<and>
      es_decrypt demo_service key n (mark_encrypt key n p a) a = Some p" for key n p a
    by (simp add: mark_encrypt_def toy_decrypt_def EUF_GCM_TAG_SIZE_def)
  have asks: "asks_decryption demo_server demo_service ?l2 ?i (replicate 32 1)"
    by (simp add: asks_decryption_def server_decryption_allowed_def demo_call_json)
  show ?thesis
    using uploaded_file_decrypts[where s = demo_service and evs = "[demo_create, demo_chunk_write]" and enc = mark_encrypt and
        plaintext = "[7, 7, 7]" and md = demo_metadata and encode = "\<lambda>_. []",
        OF _ _ ok _ _ done_ acked enc _ _ _ _ contract asks, of "demo_moment 3"] r(2) m demo_encrypted(2)
    by (auto simp: metadata_check_def demo_metadata_def)
qed

theorem refused_request_stores_nothing_witness:
  "\<exists>acts. handle_encrypted_transfer demo_server demo_service (demo_moment 200)
      (demo_call ''GET'' (item_path ENCRYPTED_UPLOADS_PATH [em_file_id demo_manifest]))
      (enc_run id demo_enc_config empty_disk [demo_create, demo_chunk_write]) = (acts, Inr (Enc_Error enc_not_found)) \<and>
    Drop_Part (em_file_id demo_manifest) \<in> set acts \<and> (\<forall>a \<in> set acts. \<exists>j. a \<in> {Drop_Part j, Drop_Complete j, Drop_State j})"
proof -
  let ?i = "em_file_id demo_manifest" and ?d = "enc_run id demo_enc_config empty_disk [demo_create, demo_chunk_write]"
  let ?l = "demo_call ''GET'' (item_path ENCRYPTED_UPLOADS_PATH [?i])"
  have fid: "file_id_bytes ?i = Inr (hex_pairs ?i)" by (rule manifest_facts(9)[OF demo_manifest_ok])
  have ttl: "ec_incomplete_ttl demo_enc_config = 100" by (simp add: demo_enc_config_def)
  have "get_file demo_enc_config 200 ?i ?d = (delete_actions ?i, Inr None)"
    by (simp add: demo_write_run get_file_def fid read_state_def sf_file_id_def expired_file_def ttl)
  then have h: "handle_encrypted_transfer demo_server demo_service (demo_moment 200) ?l ?d = (delete_actions ?i, Inr (Enc_Error enc_not_found))"
    using routes(4)[OF manifest_file_id[OF demo_manifest_ok]] demo_call_is[of "''GET''" "item_path ENCRYPTED_UPLOADS_PATH [?i]"]
    by (simp add: enc_call_def handle_encrypted_transfer_def Let_def handle_encrypted_route_def encrypted_upload_item_def with_record_def)
  have "\<exists>j. a \<in> {Drop_Part j, Drop_Complete j, Drop_State j}" if "a \<in> set (delete_actions ?i)" for a
    using refused_request_stores_nothing[OF h that] by blast
  moreover have "Drop_Part ?i \<in> set (delete_actions ?i)" by (simp add: delete_actions_def)
  ultimately show ?thesis using h by blast
qed

subsection \<open>The index of a chunk upload\<close>

lemma long_index_int:
  assumes "chunk_index_ok n" "4300 < length n"
  shows "py_int n = None"
  using assms by (intro py_int_too_long) (auto simp: chunk_index_ok_def)

text \<open>
  A chunk upload whose index is canonical and longer than the 4300 digits Python converts raises instead of being refused, whatever is
  stored. The download of such a chunk is refused: it compares the length of the index first.
\<close>

theorem long_chunk_index_raises:
  assumes "es_enabled s" "file_id_ok i" "chunk_index_ok n" "4300 < length n"
    and "enc_call ''PUT'' (item_path ENCRYPTED_UPLOADS_PATH [i, ''chunks'', n]) l"
  shows "handle_encrypted_transfer srv s mo l d = ([], Inl Value_Raise)"
  using assms long_index_int[OF assms(3,4)]
  by (simp add: handle_encrypted_transfer_def Let_def enc_call_def handle_encrypted_route_def routes)

lemma long_chunk_index_not_found:
  assumes "get_file (es_config s) (mo_time1 mo) i d = (acts, Inr (Some r))" "record_ok i r" "4 < length n"
  shows "download_encrypted_chunk s mo i n d = (acts, Inr (Enc_Error enc_not_found))"
proof -
  have "em_chunk_count (sf_manifest r) \<le> 4096" using assms(2) manifest_facts(4) by (auto simp: record_ok_def)
  then have "length (py_str_int (int (em_chunk_count (sf_manifest r)))) \<le> 4"
    using length_decimal[of 4 "em_chunk_count (sf_manifest r)"] by (simp add: py_str_int_def)
  then show ?thesis using assms(1,3) by (auto simp: download_encrypted_chunk_def with_record_def Let_def say_def)
qed

end
