(* ===== verification/Http_Response.thy ===== *)
theory Http_Response
  imports Method_Registry Http_Request
begin

section \<open>Responses\<close>

text \<open>
  \<^verbatim>\<open>xferry/http/response.py\<close> and \<open>_send_response\<close> of \<^verbatim>\<open>xferry/server.py\<close>: the response object, its header block, and how
  it is written to the socket, buffered or as a stream. Parameters are the formatted date and the formatted
  keep-alive timeout. A sending takes what the stream yields and how each \<open>sendall\<close> ends as its circumstances; a \<open>sendall\<close> that fails may
  have written a part. The serialization of JSON bodies is not modelled here: \<open>set_body\<close> takes the bytes.
\<close>

datatype body_source = Buffered | From_File | From_Iterator

record http_response =
  rs_status :: nat
  rs_headers :: "(string, string) dict"
  rs_body :: bytes
  rs_source :: body_source
  rs_cleanup :: bool
  rs_expose :: "string list"

definition new_response :: "nat \<Rightarrow> http_response" where
  "new_response status = \<lparr>rs_status = status, rs_headers = [], rs_body = [], rs_source = Buffered, rs_cleanup = False, rs_expose = []\<rparr>"

definition set_header :: "string \<Rightarrow> string \<Rightarrow> http_response \<Rightarrow> http_response" where
  "set_header k v r = r\<lparr>rs_headers := dict_set k v (rs_headers r)\<rparr>"

definition add_cors_expose_headers :: "string list \<Rightarrow> http_response \<Rightarrow> http_response" where
  "add_cors_expose_headers names r = r\<lparr>rs_expose :=
     fold (\<lambda>n acc. if py_lower n \<in> py_lower ` set acc then acc else acc @ [n]) names (rs_expose r)\<rparr>"

definition set_body :: "bytes \<Rightarrow> string \<Rightarrow> http_response \<Rightarrow> http_response" where
  "set_body b content_type r =
     set_header ''Content-Length'' (py_str_int (int (length b)))
       (set_header ''Content-Type'' content_type (r\<lparr>rs_body := b, rs_source := Buffered, rs_cleanup := False\<rparr>))"

text \<open>\<open>file_path.stat()\<close> may fail, after the source has been set.\<close>

definition set_file :: "nat option \<Rightarrow> string \<Rightarrow> bool \<Rightarrow> http_response \<Rightarrow> (py_error + unit) \<times> http_response" where
  "set_file stat_size content_type cleanup r =
     (let r1 = r\<lparr>rs_source := From_File, rs_cleanup := cleanup, rs_body := []\<rparr>
      in case stat_size of
           None \<Rightarrow> (Inl OSError, r1)
         | Some n \<Rightarrow> (Inr (), set_header ''Content-Length'' (py_str_int (int n)) (set_header ''Content-Type'' content_type r1)))"

definition set_iterator :: "int \<Rightarrow> string \<Rightarrow> bool \<Rightarrow> http_response \<Rightarrow> py_error + http_response" where
  "set_iterator content_length content_type cleanup r =
     (if content_length < 0 then Inl ValueError
      else Inr (set_header ''Content-Length'' (py_str_int content_length)
        (set_header ''Content-Type'' content_type (r\<lparr>rs_source := From_Iterator, rs_cleanup := cleanup, rs_body := []\<rparr>))))"

definition response_streams :: "http_response \<Rightarrow> bool" where "response_streams r \<longleftrightarrow> rs_source r \<noteq> Buffered"

subsection \<open>The header block\<close>

definition HTTP_STATUS_MESSAGES :: "(nat, string) dict" where
  "HTTP_STATUS_MESSAGES =
     [(101, ''Switching Protocols''), (200, ''OK''), (201, ''Created''), (204, ''No Content''), (304, ''Not Modified''),
      (400, ''Bad Request''), (401, ''Unauthorized''), (403, ''Forbidden''), (404, ''Not Found''), (405, ''Method Not Allowed''),
      (421, ''Misdirected Request''), (413, ''Payload Too Large''), (429, ''Too Many Requests''), (500, ''Internal Server Error''),
      (501, ''Not Implemented'')]"

definition CORS_EXPOSE_HEADERS :: "string list" where "CORS_EXPOSE_HEADERS = [''Content-Disposition'', ''ETag'', ''X-Request-Id'']"

record build_args =
  ba_cors_origin :: "string option"
  ba_cors_methods :: "string option"
  ba_keep_alive :: bool
  ba_keep_alive_timeout :: string
  ba_keep_alive_max :: int

definition truthy :: "string option \<Rightarrow> bool" where "truthy x \<longleftrightarrow> (case x of None \<Rightarrow> False | Some s \<Rightarrow> s \<noteq> [])"

definition set_missing :: "string \<Rightarrow> string \<Rightarrow> http_response \<Rightarrow> http_response" where
  "set_missing k v r = (if dict_get (rs_headers r) k = None then set_header k v r else r)"

definition add_vary_header :: "string \<Rightarrow> http_response \<Rightarrow> http_response" where
  "add_vary_header value r =
     (if \<not> truthy (dict_get (rs_headers r) ''Vary'') then set_header ''Vary'' value r
      else (let tokens = filter (\<lambda>t. t \<noteq> []) (map py_strip (py_split (CHR '','') (the (dict_get (rs_headers r) ''Vary''))));
                tokens' = (if py_lower value \<in> py_lower ` set tokens then tokens else tokens @ [value])
            in set_header ''Vary'' (text_join '', '' tokens') r))"

definition set_cors_headers :: "build_args \<Rightarrow> http_response \<Rightarrow> py_error + http_response" where
  "set_cors_headers b r =
     (case normalize_cors_header_origin (ba_cors_origin b) of
        Inl e \<Rightarrow> Inl e
      | Inr None \<Rightarrow> Inr r
      | Inr (Some origin) \<Rightarrow>
          if origin = [] then Inr r
          else (let r1 = set_missing ''Access-Control-Allow-Origin'' origin r;
                    r2 = (if origin \<noteq> ''*'' then add_vary_header ''Origin'' r1 else r1);
                    methods = (if truthy (ba_cors_methods b) then the (ba_cors_methods b) else text_join '', '' (cors_methods False));
                    r3 = set_missing ''Access-Control-Allow-Methods'' methods r2
                in Inr (set_missing ''Access-Control-Expose-Headers'' (text_join '', '' (CORS_EXPOSE_HEADERS @ rs_expose r3)) r3)))"

definition finalize_headers :: "string \<Rightarrow> string \<Rightarrow> build_args \<Rightarrow> http_response \<Rightarrow> py_error + http_response" where
  "finalize_headers version date b r =
     (let r1 = set_missing ''X-Content-Type-Options'' ''nosniff'' (set_header ''Server'' (''XFerry/'' @ version) r);
          r2 = set_header ''Date'' date r1;
          r3 = (if ba_keep_alive b
                then set_header ''Keep-Alive'' (''timeout='' @ ba_keep_alive_timeout b @ '', max='' @ py_str_int (ba_keep_alive_max b))
                  (set_header ''Connection'' ''keep-alive'' r2)
                else set_header ''Connection'' ''close'' r2)
      in set_cors_headers b r3)"

definition status_line :: "http_response \<Rightarrow> string" where
  "status_line r = ''HTTP/1.1 '' @ py_str_int (int (rs_status r)) @ '' '' @
     (case dict_get HTTP_STATUS_MESSAGES (rs_status r) of None \<Rightarrow> ''Unknown'' | Some m \<Rightarrow> m)"

definition field_line :: "string \<times> string \<Rightarrow> string" where "field_line h = fst h @ '': '' @ snd h"

definition header_text :: "http_response \<Rightarrow> string" where
  "header_text r = status_line r @ crlf_text @ concat (map (\<lambda>h. field_line h @ crlf_text) (rs_headers r)) @ crlf_text"

definition build_headers :: "string \<Rightarrow> string \<Rightarrow> build_args \<Rightarrow> http_response \<Rightarrow> py_error + bytes \<times> http_response" where
  "build_headers version date b r =
     map_sum id (\<lambda>r'. (utf8_encode (header_text r'), r')) (finalize_headers version date b r)"

definition build_response :: "string \<Rightarrow> string \<Rightarrow> build_args \<Rightarrow> http_response \<Rightarrow> py_error + bytes \<times> http_response" where
  "build_response version date b r = map_sum id (\<lambda>(h, r'). (h @ rs_body r', r')) (build_headers version date b r)"

subsection \<open>What a client reads\<close>

text \<open>A reader of responses: the head up to the empty line, its lines, and each field at its first colon and space.\<close>

fun byte_lines :: "bytes \<Rightarrow> bytes list" where
  "byte_lines [] = [[]]"
| "byte_lines [c] = [[c]]"
| "byte_lines (c # d # cs) =
     (if c = 13 \<and> d = 10 then [] # byte_lines cs
      else (case byte_lines (d # cs) of [] \<Rightarrow> [[c]] | p # ps \<Rightarrow> (c # p) # ps))"

definition field_of :: "bytes \<Rightarrow> bytes \<times> bytes" where
  "field_of line = (case find_from [58, 32] line of None \<Rightarrow> (line, []) | Some n \<Rightarrow> (take n line, drop (n + 2) line))"

definition client_reads :: "bytes \<Rightarrow> bytes \<times> (bytes \<times> bytes) list \<times> bytes" where
  "client_reads wire =
     (let (head, body) = split_message wire; ls = byte_lines head in (hd ls, map field_of (tl ls), body))"

definition clean_text :: "string \<Rightarrow> bool" where "clean_text s \<longleftrightarrow> CHR 0x0D \<notin> set s \<and> CHR 0x0A \<notin> set s"

definition clean_header :: "string \<times> string \<Rightarrow> bool" where
  "clean_header h \<longleftrightarrow> fst h \<noteq> [] \<and> CHR '':'' \<notin> set (fst h) \<and> clean_text (fst h) \<and> clean_text (snd h)"

definition clean_bytes :: "bytes \<Rightarrow> bool" where "clean_bytes l \<longleftrightarrow> l \<noteq> [] \<and> 13 \<notin> set l \<and> 10 \<notin> set l"

fun crlf_join :: "bytes list \<Rightarrow> bytes" where
  "crlf_join [] = []"
| "crlf_join [l] = l"
| "crlf_join (l # m # ls) = l @ [13, 10] @ crlf_join (m # ls)"

lemma find_from_skip: "s \<notin> set l \<Longrightarrow> find_from (s # sep) (l @ rest) = map_option ((+) (length l)) (find_from (s # sep) rest)"
  by (induction l; cases "find_from (s # sep) rest") auto

lemma find_from_here: "find_from sep (sep @ rest) = Some 0"
  by (cases "sep @ rest") (auto intro: prefixI[OF sym])

lemma crlf_join_start: "clean_bytes l \<Longrightarrow> \<exists>c t. crlf_join (l # ls) = c # t \<and> c \<noteq> 13"
  by (cases ls; cases l) (auto simp: clean_bytes_def)

lemma find_terminator:
  "ls \<noteq> [] \<Longrightarrow> list_all clean_bytes ls \<Longrightarrow>
     find_from HEADER_TERMINATOR (crlf_join ls @ HEADER_TERMINATOR @ body) = Some (length (crlf_join ls))"
proof (induction ls rule: crlf_join.induct)
  case (2 l)
  then show ?case
    using find_from_skip[of 13 l "[10, 13, 10]"] find_from_here[of "[13, 10, 13, 10]" body]
    by (simp add: clean_bytes_def HEADER_TERMINATOR_def)
next
  case (3 l m ls)
  obtain c t where c: "crlf_join (m # ls) = c # t" "c \<noteq> 13" using crlf_join_start[of m ls] 3(3) by auto
  have ih: "find_from HEADER_TERMINATOR (crlf_join (m # ls) @ HEADER_TERMINATOR @ body) = Some (length (crlf_join (m # ls)))"
    using 3 by simp
  have "find_from HEADER_TERMINATOR ([13, 10] @ crlf_join (m # ls) @ HEADER_TERMINATOR @ body) = Some (2 + length (crlf_join (m # ls)))"
    using ih c by (simp add: HEADER_TERMINATOR_def)
  then show ?case using 3(3) find_from_skip[of 13 l "[10, 13, 10]"] by (simp add: clean_bytes_def HEADER_TERMINATOR_def)
qed simp

lemma byte_lines_clean: "13 \<notin> set l \<Longrightarrow> byte_lines l = [l]"
  by (induction l rule: byte_lines.induct) auto

lemma byte_lines_append: "13 \<notin> set l \<Longrightarrow> byte_lines (l @ 13 # 10 # rest) = l # byte_lines rest"
proof (induction l)
  case (Cons c l)
  then show ?case by (cases "l @ 13 # 10 # rest") auto
qed simp

lemma byte_lines_join: "ls \<noteq> [] \<Longrightarrow> list_all clean_bytes ls \<Longrightarrow> byte_lines (crlf_join ls) = ls"
  by (induction ls rule: crlf_join.induct) (simp_all add: byte_lines_clean byte_lines_append clean_bytes_def)

lemma utf8_append [simp]: "utf8_encode (s @ t) = utf8_encode s @ utf8_encode t"
  by (simp add: utf8_encode_def)

lemma utf8_ascii: "list_all (\<lambda>c. ord c < 128) s \<Longrightarrow> utf8_encode s = map (\<lambda>c. word_of_nat (ord c)) s"
  by (induction s) (simp_all add: utf8_encode_def utf8_char_def)

lemma utf8_inside: "b \<in> set (utf8_char c) \<Longrightarrow> b < 128 \<Longrightarrow> b = word_of_nat (ord c) \<and> ord c < 128"
proof -
  assume b: "b \<in> set (utf8_char c)" "b < 128"
  have "ord c < 256" by simp
  then have "ord c div 64 < 4" by linarith
  then have "unat (word_of_nat (192 + ord c div 64) :: byte) = 192 + ord c div 64"
    "unat (word_of_nat (128 + ord c mod 64) :: byte) = 128 + ord c mod 64"
    using unat_of_nat_byte[of "192 + ord c div 64"] unat_of_nat_byte[of "128 + ord c mod 64"] by (simp_all del: of_nat_add)
  then have "\<not> word_of_nat (192 + ord c div 64) < (128 :: byte)" "\<not> word_of_nat (128 + ord c mod 64) < (128 :: byte)"
    by (simp_all add: word_less_nat_alt del: of_nat_add)
  then show ?thesis using b by (auto simp: utf8_char_def split: if_splits)
qed

lemma utf8_keeps_ascii:
  assumes "ord c < 128" "c \<notin> set s"
  shows "word_of_nat (ord c) \<notin> set (utf8_encode s)"
proof
  assume "word_of_nat (ord c) \<in> set (utf8_encode s)"
  then obtain c' where c': "c' \<in> set s" "word_of_nat (ord c) \<in> set (utf8_char c')" by (auto simp: utf8_encode_def)
  have "unat (word_of_nat (ord c) :: byte) = ord c" "unat (word_of_nat (ord c') :: byte) = ord c'"
    by (rule unat_of_nat_byte, simp)+
  moreover from this have "(word_of_nat (ord c) :: byte) < 128" using assms(1) by (simp only: word_less_nat_alt) simp
  then have "word_of_nat (ord c) = (word_of_nat (ord c') :: byte)" using utf8_inside[OF c'(2)] by blast
  ultimately have "ord c = ord c'" by metis
  then show False using c'(1) assms(2) by simp
qed

lemma utf8_nonempty: "s \<noteq> [] \<Longrightarrow> utf8_encode s \<noteq> []"
  by (cases s) (auto simp: utf8_encode_def utf8_char_def)

lemma utf8_clean: "clean_text s \<Longrightarrow> s \<noteq> [] \<Longrightarrow> clean_bytes (utf8_encode s)"
  using utf8_keeps_ascii[of "CHR 0x0D" s] utf8_keeps_ascii[of "CHR 0x0A" s] by (simp add: clean_text_def clean_bytes_def utf8_nonempty)

lemma field_of_encoded: "clean_header h \<Longrightarrow> field_of (utf8_encode (field_line h)) = (utf8_encode (fst h), utf8_encode (snd h))"
proof -
  assume h: "clean_header h"
  have "58 \<notin> set (utf8_encode (fst h))" using utf8_keeps_ascii[of "CHR '':''" "fst h"] h by (simp add: clean_header_def)
  moreover have "utf8_encode (field_line h) = utf8_encode (fst h) @ [58, 32] @ utf8_encode (snd h)"
    unfolding field_line_def utf8_append by (simp add: utf8_encode_def utf8_char_def)
  ultimately show ?thesis using find_from_skip[of 58 "utf8_encode (fst h)" "[32]"] find_from_here[of "[58, 32]"]
    by (simp add: field_of_def)
qed

lemma clean_field_line: "clean_header h \<Longrightarrow> clean_bytes (utf8_encode (field_line h))"
  by (rule utf8_clean) (auto simp: clean_header_def clean_text_def field_line_def)

lemma header_text_lines:
  "utf8_encode (header_text r) =
     crlf_join (utf8_encode (status_line r) # map (\<lambda>h. utf8_encode (field_line h)) (rs_headers r)) @ HEADER_TERMINATOR"
proof -
  have crlf: "utf8_encode crlf_text = [13, 10]" by (simp add: crlf_text_def utf8_encode_def utf8_char_def)
  have "utf8_encode (l @ crlf_text @ concat (map (\<lambda>h. field_line h @ crlf_text) hs)) =
      crlf_join (utf8_encode l # map (\<lambda>h. utf8_encode (field_line h)) hs) @ [13, 10]" for l hs
    by (induction hs arbitrary: l) (simp_all add: crlf)
  then show ?thesis by (simp add: header_text_def crlf HEADER_TERMINATOR_def)
qed

lemma decimal_clean [simp]: "clean_text (py_str_int n)"
proof -
  have "c \<in> set (py_str_int n) \<Longrightarrow> c = CHR ''-'' \<or> is_digit c" for c
    by (auto simp: py_str_int_def dest: decimal_digits_all split: if_splits)
  from this[of "CHR 0x0D"] this[of "CHR 0x0A"] show ?thesis by (auto simp: clean_text_def is_digit_def)
qed

subsection \<open>Headers stay clean\<close>

definition clean_response :: "http_response \<Rightarrow> bool" where
  "clean_response r \<longleftrightarrow> list_all clean_header (rs_headers r) \<and> list_all clean_text (rs_expose r)"

definition clean_option :: "string option \<Rightarrow> bool" where
  "clean_option x \<longleftrightarrow> (case x of None \<Rightarrow> True | Some s \<Rightarrow> clean_text s)"

definition clean_args :: "build_args \<Rightarrow> bool" where
  "clean_args b \<longleftrightarrow> clean_option (ba_cors_origin b) \<and> clean_option (ba_cors_methods b) \<and> clean_text (ba_keep_alive_timeout b)"

lemma clean_text_simps [simp]:
  "clean_text []" "clean_text (s @ t) = (clean_text s \<and> clean_text t)"
  "clean_text (c # s) = (c \<noteq> CHR 0x0D \<and> c \<noteq> CHR 0x0A \<and> clean_text s)"
  by (auto simp: clean_text_def)

lemma clean_subset: "clean_text s \<Longrightarrow> set t \<subseteq> set s \<Longrightarrow> clean_text t"
  by (auto simp: clean_text_def)

lemma clean_set_header:
  "clean_response r \<Longrightarrow> clean_header (k, v) \<Longrightarrow> clean_response (set_header k v r)"
  using set_dict_set_subset[of k v "rs_headers r"] by (auto simp: clean_response_def set_header_def list_all_iff)

lemma clean_set_missing:
  "clean_response r \<Longrightarrow> clean_header (k, v) \<Longrightarrow> clean_response (set_missing k v r)"
  by (simp add: set_missing_def clean_set_header)

lemma clean_join: "list_all clean_text ss \<Longrightarrow> clean_text sep \<Longrightarrow> clean_text (text_join sep ss)"
  by (induction sep ss rule: text_join.induct) simp_all

lemma strip_subset: "set (py_strip s) \<subseteq> set s"
  by (auto simp: py_strip_def strip_by_def dest!: set_dropWhileD)

lemma split_subset: "p \<in> set (py_split c s) \<Longrightarrow> set p \<subseteq> set s"
  by (induction s arbitrary: p) (fastforce split: if_splits list.splits)+

lemma clean_vary: "clean_response r \<Longrightarrow> clean_text v \<Longrightarrow> clean_response (add_vary_header v r)"
proof -
  assume r: "clean_response r" and v: "clean_text v"
  let ?tokens = "\<lambda>s. filter (\<lambda>t. t \<noteq> []) (map py_strip (py_split (CHR '','') s))"
  have "list_all clean_text (?tokens s)" if "dict_get (rs_headers r) ''Vary'' = Some s" for s
  proof -
    have "(''Vary'', s) \<in> set (rs_headers r)" using that by (rule map_of_SomeD)
    then have "clean_text s" using r by (auto simp: clean_response_def list_all_iff clean_header_def)
    moreover have "set (py_strip p) \<subseteq> set s" if "p \<in> set (py_split (CHR '','') s)" for p
      using strip_subset[of p] split_subset[OF that] by blast
    ultimately show ?thesis by (auto simp: list_all_iff intro: clean_subset)
  qed
  then show ?thesis using r v
    by (auto simp: add_vary_header_def truthy_def Let_def clean_header_def intro!: clean_set_header clean_join split: option.splits)
qed

lemma trimmed_subset: "x \<in> set (trimmed_values raw) \<Longrightarrow> \<exists>p \<in> set raw. x = py_strip p"
proof -
  let ?step = "\<lambda>v acc. let o' = py_strip v in if o' = [] \<or> o' \<in> set acc then acc else acc @ [o']"
  have "set (fold ?step raw acc) \<subseteq> set acc \<union> py_strip ` set raw" for acc
  proof (induction raw arbitrary: acc)
    case (Cons v raw)
    have "set (?step v acc) \<subseteq> insert (py_strip v) (set acc)" by (auto simp: Let_def)
    then show ?case using Cons[of "?step v acc"] by auto
  qed simp
  from this[of "[]"] show "x \<in> set (trimmed_values raw) \<Longrightarrow> \<exists>p \<in> set raw. x = py_strip p"
    unfolding trimmed_values_def by auto
qed

lemma clean_origin:
  assumes "clean_option cfg" "normalize_cors_header_origin cfg = Inr (Some x)"
  shows "clean_text x"
proof -
  obtain os where os: "parse_cors_origins cfg = Inr os" "os = [x]"
    using assms(2) by (auto simp: normalize_cors_header_origin_def split: sum.splits list.splits)
  then obtain s where s: "cfg = Some s" "s \<noteq> []" by (cases cfg) (auto simp: parse_cors_origins_def split: if_splits)
  let ?vs = "trimmed_values (py_split (CHR '','') s)"
  have "?vs = [x] \<or> x = ''*''" using os s by (simp add: parse_cors_origins_def Let_def split: if_splits)
  then show ?thesis
  proof
    assume "?vs = [x]"
    then have "x \<in> set ?vs" by simp
    then obtain p where p: "p \<in> set (py_split (CHR '','') s)" "x = py_strip p" using trimmed_subset by blast
    have "set x \<subseteq> set s" using strip_subset[of p] split_subset[OF p(1)] p(2) by simp
    then show ?thesis using clean_subset[of s x] s(1) assms(1) by (simp add: clean_option_def)
  qed simp
qed

lemma clean_cors_methods: "list_all clean_text (cors_methods b)"
proof -
  have "list_all clean_text (map cm_method core_methods)" by (simp add: core_methods_def)
  then show ?thesis by (auto simp: cors_methods_def list_all_iff)
qed

text \<open>What the CORS headers leave alone.\<close>

lemma set_missing_other [simp]:
  "dict_get (rs_headers (set_missing k v r)) x =
     (if x = k \<and> dict_get (rs_headers r) k = None then Some v else dict_get (rs_headers r) x)"
  "rs_body (set_missing k v r) = rs_body r" "rs_status (set_missing k v r) = rs_status r"
  "rs_source (set_missing k v r) = rs_source r" "rs_expose (set_missing k v r) = rs_expose r"
  "rs_cleanup (set_missing k v r) = rs_cleanup r"
  by (simp_all add: set_missing_def set_header_def)

lemma set_header_other [simp]:
  "dict_get (rs_headers (set_header k v r)) x = (if x = k then Some v else dict_get (rs_headers r) x)"
  "rs_body (set_header k v r) = rs_body r" "rs_status (set_header k v r) = rs_status r" "rs_source (set_header k v r) = rs_source r"
  "rs_expose (set_header k v r) = rs_expose r" "rs_cleanup (set_header k v r) = rs_cleanup r"
  by (simp_all add: set_header_def)

lemma vary_other [simp]:
  "x \<noteq> ''Vary'' \<Longrightarrow> dict_get (rs_headers (add_vary_header v r)) x = dict_get (rs_headers r) x"
  "rs_body (add_vary_header v r) = rs_body r" "rs_status (add_vary_header v r) = rs_status r"
  "rs_source (add_vary_header v r) = rs_source r" "rs_expose (add_vary_header v r) = rs_expose r"
  "rs_cleanup (add_vary_header v r) = rs_cleanup r"
  by (simp_all add: add_vary_header_def Let_def)

lemma cors_kept:
  assumes "set_cors_headers b r = Inr r'"
  shows "rs_body r' = rs_body r \<and> rs_status r' = rs_status r \<and> rs_source r' = rs_source r \<and> rs_cleanup r' = rs_cleanup r \<and>
    dict_get (rs_headers r') ''Connection'' = dict_get (rs_headers r) ''Connection'' \<and>
    dict_get (rs_headers r') ''Content-Length'' = dict_get (rs_headers r) ''Content-Length''"
  using assms by (auto simp: set_cors_headers_def Let_def split: sum.splits option.splits if_splits)

lemma finalize_kept:
  assumes "finalize_headers version date b r = Inr r'"
  shows "rs_body r' = rs_body r" "rs_status r' = rs_status r" "rs_source r' = rs_source r" "rs_cleanup r' = rs_cleanup r"
    "dict_get (rs_headers r') ''Connection'' = Some (if ba_keep_alive b then ''keep-alive'' else ''close'')"
    "dict_get (rs_headers r') ''Content-Length'' = dict_get (rs_headers r) ''Content-Length''"
  using cors_kept[OF assms[unfolded finalize_headers_def Let_def]] by simp_all

lemma clean_cors:
  assumes r: "clean_response r" and b: "clean_args b" and c: "set_cors_headers b r = Inr r'"
  shows "clean_response r'"
proof (cases "normalize_cors_header_origin (ba_cors_origin b)")
  case (Inr o')
  show ?thesis
  proof (cases "o' = None \<or> o' = Some []")
    case False
    then obtain x where x: "o' = Some x" "x \<noteq> []" by auto
    have cx: "clean_text x" using clean_origin[of "ba_cors_origin b" x] b Inr x by (simp add: clean_args_def)
    let ?methods = "if truthy (ba_cors_methods b) then the (ba_cors_methods b) else text_join '', '' (cors_methods False)"
    have cm: "clean_text ?methods" using b clean_cors_methods
      by (auto simp: clean_args_def clean_option_def truthy_def intro!: clean_join split: option.splits)
    have ce: "clean_text (text_join '', '' (CORS_EXPOSE_HEADERS @ rs_expose r))"
      using r by (intro clean_join) (simp_all add: CORS_EXPOSE_HEADERS_def clean_response_def)
    have m: "clean_response (set_missing k v q)" if "clean_response q" "clean_text v" "k \<noteq> []" "CHR '':'' \<notin> set k" "clean_text k" for k v q
      using that by (intro clean_set_missing) (simp_all add: clean_header_def)
    let ?q = "if x \<noteq> ''*'' then add_vary_header ''Origin'' (set_missing ''Access-Control-Allow-Origin'' x r)
      else set_missing ''Access-Control-Allow-Origin'' x r"
    have q: "clean_response ?q" using m[OF r cx, of "''Access-Control-Allow-Origin''"] clean_vary[of _ "''Origin''"] by auto
    have "r' = set_missing ''Access-Control-Expose-Headers'' (text_join '', '' (CORS_EXPOSE_HEADERS @ rs_expose r))
        (set_missing ''Access-Control-Allow-Methods'' ?methods ?q)"
      using c Inr x by (simp add: set_cors_headers_def Let_def split: if_splits)
    then show ?thesis using m[OF m[OF q cm] ce] by simp
  qed (use r c Inr in \<open>auto simp: set_cors_headers_def\<close>)
qed (use c in \<open>simp add: set_cors_headers_def\<close>)

lemma clean_finalized:
  assumes r: "clean_response r" and b: "clean_args b" and t: "clean_text version" "clean_text date"
    and f: "finalize_headers version date b r = Inr r'"
  shows "clean_response r'"
proof (rule clean_cors[OF _ b f[unfolded finalize_headers_def Let_def]])
  have h: "clean_response (set_header k v q)" if "clean_response q" "clean_text v" "k \<noteq> []" "CHR '':'' \<notin> set k" "clean_text k" for k v q
    using that by (intro clean_set_header) (simp_all add: clean_header_def)
  have m: "clean_response (set_missing k v q)" if "clean_response q" "clean_text v" "k \<noteq> []" "CHR '':'' \<notin> set k" "clean_text k" for k v q
    using that by (intro clean_set_missing) (simp_all add: clean_header_def)
  have kat: "clean_text (ba_keep_alive_timeout b)" using b by (simp add: clean_args_def)
  show "clean_response (if ba_keep_alive b
      then set_header ''Keep-Alive'' (''timeout='' @ ba_keep_alive_timeout b @ '', max='' @ py_str_int (ba_keep_alive_max b))
        (set_header ''Connection'' ''keep-alive'' (set_header ''Date'' date (set_missing ''X-Content-Type-Options'' ''nosniff''
          (set_header ''Server'' (''XFerry/'' @ version) r))))
      else set_header ''Connection'' ''close'' (set_header ''Date'' date (set_missing ''X-Content-Type-Options'' ''nosniff''
          (set_header ''Server'' (''XFerry/'' @ version) r))))"
    using r t kat by (auto intro!: h m)
qed

subsection \<open>A buffered response is read back as it was built\<close>

lemma client_reads_head:
  assumes "clean_response r"
  shows "client_reads (utf8_encode (header_text r) @ body) =
    (utf8_encode (status_line r), map (\<lambda>(k, v). (utf8_encode k, utf8_encode v)) (rs_headers r), body)"
proof -
  let ?ls = "utf8_encode (status_line r) # map (\<lambda>h. utf8_encode (field_line h)) (rs_headers r)"
  have st: "clean_text (status_line r)"
    by (auto simp: status_line_def HTTP_STATUS_MESSAGES_def split: option.splits if_splits)
  have "status_line r \<noteq> []" by (simp add: status_line_def)
  then have clean: "list_all clean_bytes ?ls"
    using assms st by (auto simp: clean_response_def list_all_iff utf8_clean clean_field_line)
  have lt: "length HEADER_TERMINATOR = 4" by (simp add: HEADER_TERMINATOR_def)
  have "split_message (utf8_encode (header_text r) @ body) = (crlf_join ?ls, body)"
    using find_terminator[OF _ clean, of body] lt by (simp only: header_text_lines append_assoc split_message_def) simp
  moreover have "map field_of (map (\<lambda>h. utf8_encode (field_line h)) (rs_headers r)) =
      map (\<lambda>(k, v). (utf8_encode k, utf8_encode v)) (rs_headers r)"
    using assms by (auto simp: clean_response_def list_all_iff field_of_encoded)
  ultimately show ?thesis using byte_lines_join[OF _ clean] by (simp add: client_reads_def)
qed

text \<open>
  C19. No response can be split. When no header of a response, none of the server's own values and no configured CORS value contains a line break, and no name
  a colon, a client that reads the built response finds the status line, exactly the headers of the response in their order, and the body:
  nothing in a value can end the head early, add a header or shift the body. The connection header says what the
  server was told to do.
\<close>

theorem built_response_reads_back:
  assumes "build_response version date b r = Inr (wire, r')" and "clean_response r" and "clean_args b" and "clean_text version"
    and "clean_text date"
  shows "client_reads wire =
      (utf8_encode (status_line r), map (\<lambda>(k, v). (utf8_encode k, utf8_encode v)) (rs_headers r'), rs_body r) \<and>
    dict_get (rs_headers r') ''Connection'' = Some (if ba_keep_alive b then ''keep-alive'' else ''close'') \<and>
    dict_get (rs_headers r') ''Content-Length'' = dict_get (rs_headers r) ''Content-Length''"
proof -
  have f: "finalize_headers version date b r = Inr r'" "wire = utf8_encode (header_text r') @ rs_body r'"
    using assms(1) by (cases "finalize_headers version date b r"; auto simp: build_response_def build_headers_def)+
  note k = finalize_kept[OF f(1)]
  show ?thesis using client_reads_head[OF clean_finalized[OF assms(2-5) f(1)]] k f(2) by (simp add: status_line_def)
qed

lemma build_succeeds:
  assumes "normalize_cors_header_origin (ba_cors_origin b) = Inr o'"
  shows "\<exists>h r'. build_headers version date b r = Inr (h, r')"
proof -
  have "\<exists>q'. set_cors_headers b q = Inr q'" for q
    using assms by (cases o') (auto simp: set_cors_headers_def Let_def)
  then have "\<exists>r'. finalize_headers version date b r = Inr r'" unfolding finalize_headers_def Let_def .
  then show ?thesis by (auto simp: build_headers_def)
qed

definition demo_args :: build_args where
  "demo_args = \<lparr>ba_cors_origin = Some '' http://a '', ba_cors_methods = None, ba_keep_alive = True, ba_keep_alive_timeout = ''5'', ba_keep_alive_max = 100\<rparr>"

definition demo_response :: http_response where
  "demo_response = set_body [104, 105] ''text/plain'' (new_response 200)"

theorem built_response_reads_back_witness:
  "\<exists>wire r'. build_response ''0.5.0'' ''today'' demo_args demo_response = Inr (wire, r') \<and>
     snd (snd (client_reads wire)) = [104, 105] \<and> dict_get (rs_headers r') ''Connection'' = Some ''keep-alive''"
proof -
  have d: "dict_get (rs_headers demo_response) ''Vary'' = None" "clean_response demo_response" "clean_args demo_args" "rs_body demo_response = [104, 105]"
    by (simp_all add: demo_response_def set_body_def new_response_def set_header_def clean_response_def clean_header_def clean_args_def demo_args_def clean_option_def
        decimal_digits.simps py_str_int_def char_of_def)
  have "\<exists>o'. normalize_cors_header_origin (ba_cors_origin demo_args) = Inr o'"
    by (simp add: normalize_cors_header_origin_def demo_args_def parse_cors_origins_def trimmed_values_def py_strip_def strip_by_def is_space_def Let_def)
  then obtain h r1 where "build_headers ''0.5.0'' ''today'' demo_args demo_response = Inr (h, r1)" using build_succeeds by blast
  then obtain wire r' where b: "build_response ''0.5.0'' ''today'' demo_args demo_response = Inr (wire, r')"
    by (simp add: build_response_def)
  show ?thesis using built_response_reads_back[OF b d(2,3)] b d(4) by (simp add: demo_args_def)
qed

subsection \<open>Sending\<close>

text \<open>How one \<open>sendall\<close> ends, after some of its bytes went out, and how the stream ends after its chunks. A deadline that has
  passed is a time-out with nothing sent.\<close>

datatype send_result = Send_Ok | Send_Timeout nat | Send_Failed nat

datatype stream_end = Stream_Ends | Stream_Raises

datatype abort = Abort_Timeout | Abort_Length | Abort_Error

record send_env =
  se_opens :: bool
  se_chunks :: "bytes list"
  se_end :: stream_end
  se_sends :: "send_result list"

record sending =
  sg_wire :: bytes
  sg_result :: "py_error + nat \<times> abort option"
  sg_closed :: bool
  sg_cleaned :: bool

fun stream_loop :: "int \<Rightarrow> nat \<Rightarrow> bytes list \<Rightarrow> stream_end \<Rightarrow> send_result list \<Rightarrow> bytes \<times> nat \<times> abort option" where
  "stream_loop expected sent [] e sends =
     ([], sent, if e = Stream_Raises then Some Abort_Error else if int sent \<noteq> expected then Some Abort_Length else None)"
| "stream_loop expected sent (c # cs) e sends =
     (if c = [] then stream_loop expected sent cs e sends
      else if expected < int (sent + length c) then ([], sent, Some Abort_Error)
      else case sends of
          Send_Timeout n # _ \<Rightarrow> (take n c, sent, Some Abort_Timeout)
        | Send_Failed n # _ \<Rightarrow> (take n c, sent, Some Abort_Error)
        | _ \<Rightarrow> (case stream_loop expected (sent + length c) cs e (tl sends) of (w, n, a) \<Rightarrow> (c @ w, n, a)))"

text \<open>The file is read in blocks until an empty one; the blocks of an iterator are whatever it yields. The count is of the bytes
  whose sending returned.\<close>

definition send_stream :: "string \<Rightarrow> string \<Rightarrow> build_args \<Rightarrow> send_env \<Rightarrow> http_response \<Rightarrow> bytes \<times> (py_error + nat \<times> abort option) \<times> http_response"
where
  "send_stream version date b env r =
     (case build_headers version date (b\<lparr>ba_keep_alive := False\<rparr>) r of
        Inl e \<Rightarrow> ([], Inl e, r)
      | Inr (h, r1) \<Rightarrow>
          (case se_sends env of
             Send_Timeout n # _ \<Rightarrow> (take n h, Inr (0, Some Abort_Timeout), r1)
           | Send_Failed n # _ \<Rightarrow> (take n h, Inl OSError, r1)
           | _ \<Rightarrow>
               if rs_source r1 = From_File \<and> \<not> se_opens env then (h, Inl OSError, r1)
               else (case dict_get (rs_headers r1) ''Content-Length'' of
                   None \<Rightarrow> (h, Inl KeyError, r1)
                 | Some cl \<Rightarrow>
                     (case py_int cl of
                        None \<Rightarrow> (h, Inl ValueError, r1)
                      | Some expected \<Rightarrow>
                          (let chunks = (if rs_source r1 = From_File then takeWhile (\<lambda>c. c \<noteq> []) (se_chunks env) else se_chunks env)
                           in case stream_loop expected 0 chunks (se_end env) (tl (se_sends env)) of
                                (w, n, a) \<Rightarrow> (h @ w, Inr (length h + n, a), r1))))))"

definition send_buffered :: "string \<Rightarrow> string \<Rightarrow> build_args \<Rightarrow> send_env \<Rightarrow> http_response \<Rightarrow> bytes \<times> (py_error + nat \<times> abort option) \<times> http_response"
where
  "send_buffered version date b env r =
     (case build_response version date b r of
        Inl e \<Rightarrow> ([], Inl e, r)
      | Inr (w, r1) \<Rightarrow>
          (case se_sends env of
             Send_Timeout n # _ \<Rightarrow> (take n w, Inl OSError, r1)
           | Send_Failed n # _ \<Rightarrow> (take n w, Inl OSError, r1)
           | _ \<Rightarrow> (w, Inr (length w, None), r1)))"

text \<open>\<open>TimeoutError\<close> is an \<open>OSError\<close>. The outer \<open>finally\<close>: an iterator is closed and forgotten, a file path stays; the clean-up runs once.\<close>

definition send_response :: "string \<Rightarrow> string \<Rightarrow> build_args \<Rightarrow> send_env \<Rightarrow> http_response \<Rightarrow> sending \<times> http_response" where
  "send_response version date b env r =
     (let (w, res, r1) = (if response_streams r then send_stream version date b env r else send_buffered version date b env r)
      in (\<lparr>sg_wire = w, sg_result = res, sg_closed = (rs_source r1 = From_Iterator), sg_cleaned = rs_cleanup r1\<rparr>,
          r1\<lparr>rs_source := (if rs_source r1 = From_Iterator then Buffered else rs_source r1), rs_cleanup := False\<rparr>))"

text \<open>One chunk that goes out whole.\<close>

definition blocked :: "send_result list \<Rightarrow> bool" where
  "blocked sends \<longleftrightarrow> (case sends of Send_Timeout _ # _ \<Rightarrow> True | Send_Failed _ # _ \<Rightarrow> True | _ \<Rightarrow> False)"

lemma stream_loop_step:
  "c \<noteq> [] \<Longrightarrow> int (sent + length c) \<le> expected \<Longrightarrow> \<not> blocked sends \<Longrightarrow>
     stream_loop expected sent (c # cs) e sends =
       (case stream_loop expected (sent + length c) cs e (tl sends) of (w, n, a) \<Rightarrow> (c @ w, n, a))"
  by (auto simp: blocked_def split: list.splits send_result.splits)

lemma stream_loop_blocked:
  "c \<noteq> [] \<Longrightarrow> int (sent + length c) \<le> expected \<Longrightarrow> blocked sends \<Longrightarrow>
     \<exists>k a. stream_loop expected sent (c # cs) e sends = (take k c, sent, Some a)"
  by (auto simp: blocked_def split: list.splits send_result.splits)

lemma stream_loop_bounds:
  assumes "stream_loop expected sent cs e sends = (w, n, a)" and "int sent \<le> expected"
  shows "prefix w (concat cs) \<and> int (sent + length w) \<le> expected \<and> n \<le> sent + length w \<and>
    (a = None \<longrightarrow> w = concat cs \<and> int (sent + length w) = expected \<and> n = sent + length w)"
  using assms
proof (induction cs arbitrary: sent sends w n a)
  case Nil
  then show ?case by (auto split: if_splits)
next
  case (Cons c cs)
  consider (empty) "c = []" | (long) "c \<noteq> []" "expected < int (sent + length c)"
    | (blocked) "c \<noteq> []" "int (sent + length c) \<le> expected" "blocked sends"
    | (sent) "c \<noteq> []" "int (sent + length c) \<le> expected" "\<not> blocked sends" by linarith
  then show ?case
  proof cases
    case empty
    then have "stream_loop expected sent cs e sends = (w, n, a)" using Cons.prems(1) by simp
    from Cons.IH[OF this Cons.prems(2)] show ?thesis using empty by auto
  next
    case long
    then show ?thesis using Cons.prems by auto
  next
    case blocked
    obtain k b where "w = take k c" "n = sent" "a = Some b"
      using stream_loop_blocked[OF blocked, of cs e] Cons.prems(1) by auto
    then show ?thesis using blocked(2) take_is_prefix[of k c] by (auto intro: prefix_order.trans)
  next
    case sent
    obtain w' where w: "stream_loop expected (sent + length c) cs e (tl sends) = (w', n, a)" "w = c @ w'"
      using stream_loop_step[OF sent, of cs e] Cons.prems(1) by (auto split: prod.splits)
    show ?thesis using Cons.IH[OF w(1) sent(2)] w(2) by (auto simp: add.assoc)
  qed
qed

lemma build_keeps_source:
  "build_headers version date b r = Inr (h, r1) \<Longrightarrow> rs_source r1 = rs_source r"
  using finalize_kept(3)[of version date b r] by (auto simp: build_headers_def map_sum_def split: sum.splits)

text \<open>After a sending only a file response is still a streaming one.\<close>

lemma streams_after_send:
  assumes "send_response version date b env r = (sg, r2)"
  shows "response_streams r2 = (rs_source r = From_File)"
proof -
  obtain w res r1 where s: "(if response_streams r then send_stream version date b env r else send_buffered version date b env r) = (w, res, r1)"
    by (metis prod_cases3)
  have "rs_source r1 = rs_source r"
  proof (cases "response_streams r")
    case True
    then have "send_stream version date b env r = (w, res, r1)" using s by simp
    then show ?thesis using build_keeps_source[of version date "b\<lparr>ba_keep_alive := False\<rparr>" r]
      by (fastforce simp: send_stream_def Let_def split: sum.splits prod.splits list.splits send_result.splits option.splits if_splits)
  next
    case False
    then have "send_buffered version date b env r = (w, res, r1)" using s by simp
    then show ?thesis using build_keeps_source[of version date b r]
      by (fastforce simp: send_buffered_def build_response_def map_sum_def split: sum.splits prod.splits list.splits send_result.splits)
  qed
  then show ?thesis using assms s
    by (cases "rs_source r") (auto simp: send_response_def response_streams_def split: if_splits)
qed

lemma concat_takeWhile: "prefix (concat (takeWhile P xs)) (concat xs)"
  by (induction xs) auto

text \<open>What a streamed sending can be: the head cut or failed, no stream, or the head and what the loop sent.\<close>

lemma send_stream_cases:
  assumes "build_headers version date (b\<lparr>ba_keep_alive := False\<rparr>) r = Inr (h, r1)"
    and "dict_get (rs_headers r1) ''Content-Length'' = Some t" and "py_int t = Some (int cl)"
    and "send_stream version date b env r = (wire, res, r2)"
  shows "(prefix wire h \<and> ((\<exists>e. res = Inl e) \<or> res = Inr (0, Some Abort_Timeout))) \<or>
    (\<exists>w n a. stream_loop (int cl) 0 (if rs_source r1 = From_File then takeWhile (\<lambda>c. c \<noteq> []) (se_chunks env) else se_chunks env)
       (se_end env) (tl (se_sends env)) = (w, n, a) \<and> wire = h @ w \<and> res = Inr (length h + n, a))"
proof (cases "blocked (se_sends env)")
  case True
  then show ?thesis using assms take_is_prefix
    by (auto simp: send_stream_def blocked_def split: list.splits send_result.splits)
next
  case False
  obtain w n a where "stream_loop (int cl) 0 (if rs_source r1 = From_File then takeWhile (\<lambda>c. c \<noteq> []) (se_chunks env) else se_chunks env)
       (se_end env) (tl (se_sends env)) = (w, n, a)" by (metis prod_cases3)
  then show ?thesis using assms False
    by (auto simp: send_stream_def blocked_def Let_def split: list.splits send_result.splits if_splits)
qed

text \<open>
  C20. A streamed response never misleads its reader. Whatever the stream yields and however the sends end, what goes out is a part of the header block,
  which announces the length and that the connection closes, followed by a part of the stream, in order, that is never longer than
  that length. The server reports the response as complete only if the whole head went out, the content has exactly
  the announced length and, for an iterator, is all it yields; then the reported count is the number of bytes sent.
\<close>

theorem streamed_response_bounded:
  assumes "send_response version date b env r = (sg, r2)" and "response_streams r"
    and "dict_get (rs_headers r) ''Content-Length'' = Some t" and "py_int t = Some (int cl)"
    and "build_headers version date (b\<lparr>ba_keep_alive := False\<rparr>) r = Inr (h, r1)"
  shows "dict_get (rs_headers r1) ''Connection'' = Some ''close'' \<and>
    (\<exists>content. prefix (sg_wire sg) (h @ content) \<and> prefix content (concat (se_chunks env)) \<and> length content \<le> cl \<and>
       (\<forall>n. sg_result sg = Inr (n, None) \<longrightarrow> sg_wire sg = h @ content \<and> length content = cl \<and> n = length (sg_wire sg) \<and>
         (rs_source r = From_Iterator \<longrightarrow> content = concat (se_chunks env))))"
proof -
  have f: "finalize_headers version date (b\<lparr>ba_keep_alive := False\<rparr>) r = Inr r1"
    using assms(5) by (cases "finalize_headers version date (b\<lparr>ba_keep_alive := False\<rparr>) r") (auto simp: build_headers_def)
  note k = finalize_kept[OF f]
  let ?chunks = "if rs_source r1 = From_File then takeWhile (\<lambda>c. c \<noteq> []) (se_chunks env) else se_chunks env"
  have chunks: "prefix (concat ?chunks) (concat (se_chunks env))"
    by (simp add: concat_takeWhile)
  have len: "dict_get (rs_headers r1) ''Content-Length'' = Some t" using k(6) assms(3) by simp
  obtain wire res r3 where s: "send_stream version date b env r = (wire, res, r3)" by (metis prod_cases3)
  have sg: "sg_wire sg = wire" "sg_result sg = res" using assms(1,2) s by (auto simp: send_response_def)
  from send_stream_cases[OF assms(5) len assms(4) s] show ?thesis
  proof (elim disjE exE conjE)
    fix w n a
    assume loop: "stream_loop (int cl) 0 ?chunks (se_end env) (tl (se_sends env)) = (w, n, a)" and w: "wire = h @ w" "res = Inr (length h + n, a)"
    have "rs_source r = From_Iterator \<Longrightarrow> ?chunks = se_chunks env" using k(3) by simp
    moreover note bounds = stream_loop_bounds[OF loop, simplified]
    moreover have "prefix w (concat (se_chunks env))" using bounds chunks by (blast intro: prefix_order.trans)
    ultimately show ?thesis using w sg k(5) by (intro conjI exI[of _ w]) auto
  qed (use sg k(5) in \<open>auto intro!: exI[of _ "[]"]\<close>)
qed

definition demo_stream :: http_response where
  "demo_stream = \<lparr>rs_status = 200, rs_headers = [(''Content-Length'', ''3'')], rs_body = [], rs_source = From_Iterator, rs_cleanup = True, rs_expose = []\<rparr>"

definition demo_env :: send_env where
  "demo_env = \<lparr>se_opens = True, se_chunks = [[1], [], [2, 3]], se_end = Stream_Ends, se_sends = []\<rparr>"

theorem streamed_response_bounded_witness:
  "\<exists>h n. sg_wire (fst (send_response ''0.5.0'' ''today'' (demo_args\<lparr>ba_cors_origin := None\<rparr>) demo_env demo_stream)) = h @ [1, 2, 3] \<and>
     sg_result (fst (send_response ''0.5.0'' ''today'' (demo_args\<lparr>ba_cors_origin := None\<rparr>) demo_env demo_stream)) = Inr (n, None)"
proof -
  let ?b = "demo_args\<lparr>ba_cors_origin := None\<rparr>"
  obtain sg r2 where s: "send_response ''0.5.0'' ''today'' ?b demo_env demo_stream = (sg, r2)" by fastforce
  obtain h r1 where b: "build_headers ''0.5.0'' ''today'' (?b\<lparr>ba_keep_alive := False\<rparr>) demo_stream = Inr (h, r1)"
    using build_succeeds[of "?b\<lparr>ba_keep_alive := False\<rparr>" None "''0.5.0''" "''today''" demo_stream] by (auto simp: normalize_cors_header_origin_def parse_cors_origins_def)
  have st: "response_streams demo_stream" "dict_get (rs_headers demo_stream) ''Content-Length'' = Some ''3''" "py_int ''3'' = Some (int 3)"
    by (simp_all add: demo_stream_def response_streams_def py_int_def py_strip_def strip_by_def is_space_def is_digit_def)
  have f: "finalize_headers ''0.5.0'' ''today'' (?b\<lparr>ba_keep_alive := False\<rparr>) demo_stream = Inr r1"
    using b by (cases "finalize_headers ''0.5.0'' ''today'' (?b\<lparr>ba_keep_alive := False\<rparr>) demo_stream") (auto simp: build_headers_def)
  have "dict_get (rs_headers r1) ''Content-Length'' = Some ''3''" "rs_source r1 = From_Iterator"
    using finalize_kept(3,6)[OF f] st(2) by (simp_all add: demo_stream_def)
  then have "\<exists>n. sg_result sg = Inr (n, None)"
    using s b st by (auto simp: send_response_def send_stream_def demo_env_def Let_def)
  then obtain n where n: "sg_result sg = Inr (n, None)" by blast
  from streamed_response_bounded[OF s st b] n show ?thesis
    using s by (auto simp: demo_stream_def demo_env_def)
qed

end
