(* ===== verification/Multipart.thy ===== *)
theory Multipart
  imports Http_Response
begin

section \<open>Multipart bodies\<close>

text \<open>
  \<^verbatim>\<open>xferry/http/multipart.py\<close>: the framing of a multipart body by its boundary, the checks of a part's headers, and the
  single file upload. The header parser of Python's \<open>email\<close> package is a parameter: \<open>parse\<close> gives the headers of a block, or
  nothing when it raises or reports defects, and \<open>boundary_of\<close> gives the boundary parameter of a content type.
\<close>

datatype multipart_error = Multipart_Error string

datatype header_param = No_Param | Text_Param string | Other_Param

record part_headers =
  ph_dispositions :: "string list"
  ph_types :: "string list"
  ph_encodings :: "string list"
  ph_content_type :: string
  ph_disposition :: "string option"
  ph_name :: header_param
  ph_filename :: header_param

record multipart_part =
  mp_field_name :: string
  mp_filename :: "string option"
  mp_content_type :: string
  mp_payload :: bytes

record multipart_file =
  mf_field_name :: string
  mf_filename :: string
  mf_content_type :: string
  mf_payload :: bytes

definition validate_multipart_part_headers :: "part_headers \<Rightarrow> multipart_error option" where
  "validate_multipart_part_headers p =
     (if length (ph_dispositions p) \<noteq> 1
      then Some (Multipart_Error (if ph_dispositions p \<noteq> [] then ''Duplicate multipart Content-Disposition''
        else ''Multipart part is missing Content-Disposition''))
      else if 1 < length (ph_types p) then Some (Multipart_Error ''Duplicate multipart Content-Type'')
      else if 1 < length (ph_encodings p) then Some (Multipart_Error ''Duplicate multipart Content-Transfer-Encoding'')
      else if ph_encodings p \<noteq> [] \<and> py_lower (py_strip (hd (ph_encodings p))) \<notin> {''binary'', ''8bit''}
      then Some (Multipart_Error ''Unsupported Content-Transfer-Encoding'')
      else None)"

subsection \<open>One part\<close>

definition byte_space :: "byte \<Rightarrow> bool" where "byte_space b \<longleftrightarrow> b \<in> {32, 9, 10, 13, 11, 12}"

text \<open>\<open>line.split(b":", 1)[0].strip()\<close> is not empty.\<close>

definition field_name_ok :: "bytes \<Rightarrow> bool" where
  "field_name_ok line \<longleftrightarrow> 58 \<in> set line \<and> (\<exists>b \<in> set (takeWhile (\<lambda>b. b \<noteq> 58) line). \<not> byte_space b)"

definition header_line_ok :: "bytes \<Rightarrow> bool" where
  "header_line_ok line \<longleftrightarrow> line \<noteq> [] \<and> hd line \<noteq> 32 \<and> hd line \<noteq> 9 \<and> field_name_ok line"

definition part_of :: "part_headers \<Rightarrow> bytes \<Rightarrow> multipart_error + multipart_part" where
  "part_of p payload =
     (case validate_multipart_part_headers p of
        Some e \<Rightarrow> Inl e
      | None \<Rightarrow>
          if prefix ''multipart/'' (py_lower (ph_content_type p)) then Inl (Multipart_Error ''Nested multipart parts are not supported'')
          else if ph_disposition p \<noteq> Some ''form-data'' then Inl (Multipart_Error ''Invalid multipart Content-Disposition'')
          else (case ph_name p of
              Text_Param n \<Rightarrow>
                if n = [] then Inl (Multipart_Error ''Multipart part is missing a field name'')
                else (case ph_filename p of
                    Other_Param \<Rightarrow> Inl (Multipart_Error ''Invalid multipart filename'')
                  | f \<Rightarrow> Inr \<lparr>mp_field_name = n, mp_filename = (case f of Text_Param s \<Rightarrow> Some s | _ \<Rightarrow> None),
                      mp_content_type = (if ph_types p \<noteq> [] \<and> hd (ph_types p) \<noteq> [] then py_lower (ph_content_type p)
                        else ''application/octet-stream''),
                      mp_payload = payload\<rparr>)
            | _ \<Rightarrow> Inl (Multipart_Error ''Multipart part is missing a field name'')))"

definition parse_part :: "(bytes \<Rightarrow> part_headers option) \<Rightarrow> bytes \<Rightarrow> multipart_error + multipart_part" where
  "parse_part parse blob =
     (case find_from HEADER_TERMINATOR blob of
        None \<Rightarrow> Inl (Multipart_Error ''Malformed multipart part'')
      | Some n \<Rightarrow>
          if \<not> list_all header_line_ok (byte_lines (take n blob)) then Inl (Multipart_Error ''Malformed multipart headers'')
          else (case parse (take n blob @ HEADER_TERMINATOR) of
              None \<Rightarrow> Inl (Multipart_Error ''Malformed multipart headers'')
            | Some p \<Rightarrow> part_of p (drop (n + 4) blob)))"

subsection \<open>Framing\<close>

definition CRLF :: bytes where "CRLF = [13, 10]"
definition DASHES :: bytes where "DASHES = [45, 45]"

text \<open>\<open>_next_delimiter\<close>, from the start of a part: a delimiter counts only before a line break or the closing dashes, and the search goes
  on behind one that does not.\<close>

function next_delimiter :: "bytes \<Rightarrow> bytes \<Rightarrow> nat option" where
  "next_delimiter delimiter xs =
     (case find_from (CRLF @ delimiter) xs of
        None \<Rightarrow> None
      | Some n \<Rightarrow>
          (let k = n + length (CRLF @ delimiter); rest = drop k xs
           in if take 2 rest = CRLF \<or> take 2 rest = DASHES then Some n
              else map_option ((+) k) (next_delimiter delimiter rest)))"
  by pat_completeness auto

termination
  by (relation "measure (\<lambda>(d, xs). length xs)") (auto dest!: find_from_Some simp: CRLF_def)

declare next_delimiter.simps [simp del]

text \<open>The loop of \<open>parse_multipart_form_data\<close>, with \<open>rest\<close> what follows the last delimiter.\<close>

function parse_parts :: "(bytes \<Rightarrow> multipart_error + multipart_part) \<Rightarrow> bytes \<Rightarrow> bytes \<Rightarrow> multipart_error + multipart_part list" where
  "parse_parts parse delimiter rest =
     (if take 2 rest = DASHES
      then (if drop 2 rest = [] \<or> drop 2 rest = CRLF then Inr [] else Inl (Multipart_Error ''Malformed multipart closing boundary''))
      else if take 2 rest \<noteq> CRLF then Inl (Multipart_Error ''Malformed multipart boundary'')
      else (case next_delimiter delimiter (drop 2 rest) of
          None \<Rightarrow> Inl (Multipart_Error ''Multipart closing boundary is required'')
        | Some n \<Rightarrow>
            (case parse (take n (drop 2 rest)) of
               Inl e \<Rightarrow> Inl e
             | Inr p \<Rightarrow> map_sum id ((#) p) (parse_parts parse delimiter (drop (2 + n + 2 + length delimiter) rest)))))"
  by pat_completeness auto

termination
  by (relation "measure (\<lambda>(_, _, rest). length rest)") (auto simp: CRLF_def dest: arg_cong[of _ _ length])

declare parse_parts.simps [simp del]

definition boundary_char :: "char \<Rightarrow> bool" where
  "boundary_char c \<longleftrightarrow> is_alnum c \<or> c \<in> set ''()+_,./:=?- '' \<or> ord c = 39"

definition boundary_ok :: "string \<Rightarrow> bool" where
  "boundary_ok b \<longleftrightarrow> b \<noteq> [] \<and> length b \<le> 70 \<and> list_all boundary_char b \<and> last b \<noteq> CHR '' ''"

definition parse_multipart_form_data ::
  "(string \<Rightarrow> string option option) \<Rightarrow> (bytes \<Rightarrow> part_headers option) \<Rightarrow> string \<Rightarrow> bytes \<Rightarrow> multipart_error + multipart_part list"
where
  "parse_multipart_form_data boundary_of parse content_type body =
     (case boundary_of content_type of
        None \<Rightarrow> Inl (Multipart_Error ''Invalid multipart Content-Type'')
      | Some None \<Rightarrow> Inl (Multipart_Error ''Multipart boundary is required'')
      | Some (Some b) \<Rightarrow>
          if b = [] then Inl (Multipart_Error ''Multipart boundary is required'')
          else if \<not> boundary_ok b then Inl (Multipart_Error ''Invalid multipart boundary'')
          else (let delimiter = DASHES @ ascii_bytes b
            in if \<not> prefix delimiter body then Inl (Multipart_Error ''Malformed multipart body'')
               else parse_parts (parse_part parse) delimiter (drop (length delimiter) body)))"

definition parse_single_file_multipart ::
  "(string \<Rightarrow> string option option) \<Rightarrow> (bytes \<Rightarrow> part_headers option) \<Rightarrow> string \<Rightarrow> bytes \<Rightarrow> multipart_error + multipart_file"
where
  "parse_single_file_multipart boundary_of parse content_type body =
     (case parse_multipart_form_data boundary_of parse content_type body of
        Inl e \<Rightarrow> Inl e
      | Inr parts \<Rightarrow>
          (case filter (\<lambda>p. mp_filename p \<noteq> None) parts of
             [p] \<Rightarrow>
               if mp_payload p = [] then Inl (Multipart_Error ''Multipart file payload is empty'')
               else Inr \<lparr>mf_field_name = mp_field_name p, mf_filename = the (mp_filename p), mf_content_type = mp_content_type p,
                 mf_payload = mp_payload p\<rparr>
           | _ \<Rightarrow> Inl (Multipart_Error ''Exactly one file part is required'')))"

subsection \<open>Where the first delimiter is\<close>

lemma find_from_least: "find_from sep xs = Some n \<Longrightarrow> p < n \<Longrightarrow> \<not> prefix sep (drop p xs)"
proof (induction xs arbitrary: n p)
  case (Cons x xs)
  then show ?case by (cases p) (auto split: if_splits)
qed (auto split: if_splits)

lemma find_from_None: "find_from sep xs = None \<Longrightarrow> \<not> prefix sep (drop p xs)"
proof (induction xs arbitrary: p)
  case (Cons x xs)
  then show ?case by (cases p) (auto split: if_splits)
qed (auto split: if_splits)

definition delimiter_at :: "bytes \<Rightarrow> bytes \<Rightarrow> nat \<Rightarrow> bool" where
  "delimiter_at d xs p \<longleftrightarrow> prefix (CRLF @ d) (drop p xs) \<and>
     (let t = take 2 (drop (p + length (CRLF @ d)) xs) in t = CRLF \<or> t = DASHES)"

lemma marker_apart:
  assumes "13 \<notin> set d" "prefix (CRLF @ d) (drop n xs)" "prefix (CRLF @ d) (drop p xs)" "n < p"
  shows "n + length (CRLF @ d) \<le> p"
proof (rule ccontr)
  let ?m = "CRLF @ d"
  assume "\<not> n + length ?m \<le> p"
  then have k: "0 < p - n" "p - n < length ?m" using assms(4) by auto
  obtain y z where yz: "drop n xs = ?m @ y" "drop p xs = ?m @ z" using assms(2,3) by (auto elim!: prefixE)
  have "drop p xs = drop (p - n) (drop n xs)" using assms(4) by simp
  then have "?m @ z = drop (p - n) ?m @ y" using yz k by simp
  then have "hd (drop (p - n) ?m) = 13" using k by (metis CRLF_def append_Cons hd_append2 length_drop length_greater_0_conv list.sel(1) zero_less_diff)
  then have "13 \<in> set (drop (p - n) ?m)" using k by (metis drop_eq_Nil hd_in_set linorder_not_le)
  moreover have "set (drop (p - n) ?m) \<subseteq> set (10 # d)" using k(1) set_drop_subset[of "p - n - 1" "10 # d"]
    by (cases "p - n") (simp_all add: CRLF_def)
  ultimately show False using assms(1) by auto
qed

lemma next_delimiter_spec:
  assumes "13 \<notin> set d"
  shows "case next_delimiter d xs of
      None \<Rightarrow> \<forall>p. \<not> delimiter_at d xs p
    | Some n \<Rightarrow> delimiter_at d xs n \<and> (\<forall>p < n. \<not> delimiter_at d xs p)"
  using assms
proof (induction d xs rule: next_delimiter.induct)
  case (1 d xs)
  let ?m = "CRLF @ d"
  show ?case
  proof (cases "find_from ?m xs")
    case None
    then show ?thesis using find_from_None[OF None] by (simp add: next_delimiter.simps[of d xs] delimiter_at_def)
  next
    case (Some n)
    let ?k = "n + length ?m"
    have here: "prefix ?m (drop n xs)" using find_from_Some[OF Some] by simp
    show ?thesis
    proof (cases "take 2 (drop ?k xs) = CRLF \<or> take 2 (drop ?k xs) = DASHES")
      case True
      then show ?thesis using here find_from_least[OF Some]
        by (auto simp: next_delimiter.simps[of d xs] Some delimiter_at_def Let_def add.assoc)
    next
      case False
      have before: "\<not> delimiter_at d xs p" if "p < ?k" for p
      proof
        assume at: "delimiter_at d xs p"
        then have "p \<noteq> n" using False by (auto simp: delimiter_at_def Let_def add.assoc)
        moreover have "\<not> p < n" using at find_from_least[OF Some, of p] by (auto simp: delimiter_at_def)
        ultimately show False using marker_apart[OF 1(2) here, of p] at that by (auto simp: delimiter_at_def)
      qed
      have shift: "delimiter_at d (drop ?k xs) q = delimiter_at d xs (?k + q)" for q
        by (simp add: delimiter_at_def add.assoc add.commute add.left_commute)
      have eq: "next_delimiter d xs = map_option ((+) ?k) (next_delimiter d (drop ?k xs))"
        using Some False by (simp add: next_delimiter.simps[of d xs] Let_def)
      have ih: "case next_delimiter d (drop ?k xs) of
          None \<Rightarrow> \<forall>p. \<not> delimiter_at d (drop ?k xs) p
        | Some q \<Rightarrow> delimiter_at d (drop ?k xs) q \<and> (\<forall>p < q. \<not> delimiter_at d (drop ?k xs) p)"
        using 1(1)[OF Some refl refl False 1(2)] .
      have split: "(p < ?k) \<or> (\<exists>q. p = ?k + q)" for p using le_Suc_ex[of ?k p] by (cases "p < ?k") auto
      show ?thesis
      proof (cases "next_delimiter d (drop ?k xs)")
        case None
        then show ?thesis using ih eq before split shift by (simp, metis)
      next
        case (Some q)
        then have q: "delimiter_at d xs (?k + q)" "\<forall>p < q. \<not> delimiter_at d xs (?k + p)" using ih shift by auto
        have "\<not> delimiter_at d xs p" if "p < ?k + q" for p using before[of p] q(2) split[of p] that by auto
        then show ?thesis using q(1) eq Some by simp
      qed
    qed
  qed
qed

lemma next_delimiter_first:
  assumes "13 \<notin> set d"
  shows "next_delimiter d xs = Some n \<longleftrightarrow> delimiter_at d xs n \<and> (\<forall>p < n. \<not> delimiter_at d xs p)"
proof
  assume "next_delimiter d xs = Some n"
  then show "delimiter_at d xs n \<and> (\<forall>p < n. \<not> delimiter_at d xs p)" using next_delimiter_spec[OF assms, of xs] by simp
next
  assume n: "delimiter_at d xs n \<and> (\<forall>p < n. \<not> delimiter_at d xs p)"
  show "next_delimiter d xs = Some n"
  proof (cases "next_delimiter d xs")
    case (Some m)
    then have "delimiter_at d xs m \<and> (\<forall>p < m. \<not> delimiter_at d xs p)" using next_delimiter_spec[OF assms, of xs] by simp
    then show ?thesis using n Some by (metis linorder_neqE_nat)
  qed (use n next_delimiter_spec[OF assms, of xs] in auto)
qed

subsection \<open>The bodies that are accepted\<close>

text \<open>A blob without a delimiter of its own, and the body made of blobs, behind its first delimiter.\<close>

definition free_of :: "bytes \<Rightarrow> bytes \<Rightarrow> bool" where
  "free_of d blob \<longleftrightarrow> (\<forall>p < length blob. \<not> delimiter_at d (blob @ CRLF) p)"

fun assemble :: "bytes \<Rightarrow> bytes list \<Rightarrow> bytes" where
  "assemble d [] = DASHES"
| "assemble d (b # bs) = CRLF @ b @ CRLF @ d @ assemble d bs"

lemma prefix_short: "length xs \<le> length ys \<Longrightarrow> prefix xs (ys @ zs) = prefix xs ys"
  by (auto intro: prefix_length_prefix prefix_order.trans)

lemma inside_blob:
  assumes d: "13 \<notin> set d" "10 \<notin> set d" and p: "p < length blob"
  shows "delimiter_at d (blob @ CRLF @ t) p \<longleftrightarrow>
    p + length (CRLF @ d) \<le> length blob \<and> prefix (CRLF @ d) (drop p blob) \<and>
    (let s = take 2 (drop (p + length (CRLF @ d)) (blob @ CRLF)) in s = CRLF \<or> s = DASHES)"
proof -
  let ?m = "CRLF @ d" and ?k = "length (CRLF @ d)"
  have fits: "p + ?k \<le> length blob" if at: "prefix ?m (drop p (blob @ CRLF @ t))"
  proof (rule ccontr)
    assume "\<not> p + ?k \<le> length blob"
    then have j: "length blob - p < ?k" "0 < length blob - p" using p by auto
    obtain z where z: "drop p blob @ CRLF @ t = ?m @ z" using at p by (auto elim!: prefixE)
    have "(drop p blob @ CRLF @ t) ! (length blob - p) = 13" using p by (simp add: nth_append CRLF_def)
    then have "?m ! (length blob - p) = 13" using z j by (metis nth_append)
    then have "13 \<in> set (10 # d)" using j nth_mem[of "length blob - p - 1" "10 # d"]
      by (cases "length blob - p") (simp_all add: CRLF_def)
    then show False using d by auto
  qed
  have e1: "prefix ?m (drop p (blob @ CRLF @ t)) = prefix ?m (drop p blob)" if "p + ?k \<le> length blob"
    using that p prefix_short[of ?m "drop p blob"] by simp
  have e2: "take 2 (drop (p + ?k) (blob @ CRLF @ t)) = take 2 (drop (p + ?k) (blob @ CRLF))" if "p + ?k \<le> length blob"
  proof -
    have "drop (p + ?k) (blob @ CRLF @ t) = (drop (p + ?k) blob @ CRLF) @ t" "drop (p + ?k) (blob @ CRLF) = drop (p + ?k) blob @ CRLF"
      using that by simp_all
    then show ?thesis by (simp only: take_append) (simp add: CRLF_def)
  qed
  show ?thesis
  proof (cases "p + ?k \<le> length blob")
    case True
    show ?thesis unfolding delimiter_at_def Let_def e1[OF True] e2[OF True] using True by (simp only: simp_thms)
  next
    case False
    then have "\<not> prefix ?m (drop p (blob @ CRLF @ t))" using fits by blast
    then show ?thesis using False unfolding delimiter_at_def by (simp only: simp_thms)
  qed
qed

lemma free_of_body:
  assumes "13 \<notin> set d" "10 \<notin> set d"
  shows "free_of d blob \<longleftrightarrow> (\<forall>p < length blob. \<not> delimiter_at d (blob @ CRLF @ t) p)"
  using inside_blob[OF assms, of _ blob t] inside_blob[OF assms, of _ blob "[]"] by (auto simp: free_of_def)

lemma find_part_end:
  assumes d: "13 \<notin> set d" "10 \<notin> set d" and n: "n \<le> length xs"
  shows "next_delimiter d xs = Some n \<longleftrightarrow>
    (\<exists>t. xs = take n xs @ CRLF @ d @ t \<and> (take 2 t = CRLF \<or> take 2 t = DASHES) \<and> free_of d (take n xs))"
proof -
  have at: "delimiter_at d xs n \<longleftrightarrow> (\<exists>t. xs = take n xs @ CRLF @ d @ t \<and> (take 2 t = CRLF \<or> take 2 t = DASHES))"
  proof
    assume a: "delimiter_at d xs n"
    then obtain t where t: "drop n xs = (CRLF @ d) @ t" by (auto simp: delimiter_at_def elim!: prefixE)
    have "drop (n + length (CRLF @ d)) xs = drop (length (CRLF @ d)) (drop n xs)" by (simp add: add.commute)
    then have "drop (n + length (CRLF @ d)) xs = t" using t by simp
    then have "take 2 t = CRLF \<or> take 2 t = DASHES" using a by (simp add: delimiter_at_def Let_def)
    moreover have "xs = take n xs @ CRLF @ d @ t" using t append_take_drop_id[of n xs] by simp
    ultimately show "\<exists>t. xs = take n xs @ CRLF @ d @ t \<and> (take 2 t = CRLF \<or> take 2 t = DASHES)" by blast
  next
    assume "\<exists>t. xs = take n xs @ CRLF @ d @ t \<and> (take 2 t = CRLF \<or> take 2 t = DASHES)"
    then obtain t where t: "xs = take n xs @ CRLF @ d @ t" "take 2 t = CRLF \<or> take 2 t = DASHES" by blast
    have l: "length (take n xs) = n" using n by simp
    have dn: "drop n xs = CRLF @ d @ t" using t(1) l by (metis append_eq_conv_conj)
    have "drop (n + length (CRLF @ d)) xs = drop (length (CRLF @ d)) (drop n xs)" by (simp add: add.commute)
    then have "drop (n + length (CRLF @ d)) xs = t" using dn by simp
    then show "delimiter_at d xs n" using t(2) dn by (simp add: delimiter_at_def Let_def)
  qed
  have free: "(\<forall>p < n. \<not> delimiter_at d xs p) \<longleftrightarrow> free_of d (take n xs)" if "xs = take n xs @ CRLF @ d @ t" for t
    using free_of_body[OF d, of "take n xs" "d @ t"] that n by (simp add: min_absorb2)
  show ?thesis unfolding next_delimiter_first[OF d(1)] at using free by blast
qed

lemma assemble_start: "take 2 (assemble d blobs @ trailer) = (if blobs = [] then DASHES else CRLF)"
  by (cases blobs) (simp_all add: CRLF_def DASHES_def)

lemma two_bytes: "CRLF \<noteq> DASHES" "DASHES \<noteq> CRLF" "length CRLF = 2" "length DASHES = 2"
  by (simp_all add: CRLF_def DASHES_def)

definition framed_parts :: "(bytes \<Rightarrow> multipart_error + multipart_part) \<Rightarrow> bytes \<Rightarrow> bytes \<Rightarrow> multipart_part list \<Rightarrow> bool" where
  "framed_parts parse d rest parts \<longleftrightarrow> (\<exists>blobs trailer. rest = assemble d blobs @ trailer \<and> (trailer = [] \<or> trailer = CRLF) \<and>
     list_all (free_of d) blobs \<and> map parse blobs = map Inr parts)"

lemma framed_closing: "take 2 rest = DASHES \<Longrightarrow> framed_parts parse d rest parts \<longleftrightarrow> (drop 2 rest = [] \<or> drop 2 rest = CRLF) \<and> parts = []"
proof -
  assume t: "take 2 rest = DASHES"
  have "rest = assemble d blobs @ trailer \<longleftrightarrow> blobs = [] \<and> drop 2 rest = trailer" for blobs trailer
  proof
    assume r: "rest = assemble d blobs @ trailer"
    then have "blobs = []" using t assemble_start[of d blobs trailer] two_bytes by (auto split: if_splits)
    then show "blobs = [] \<and> drop 2 rest = trailer" using r by (simp add: DASHES_def)
  next
    assume "blobs = [] \<and> drop 2 rest = trailer"
    then show "rest = assemble d blobs @ trailer" using append_take_drop_id[of 2 rest] t by simp
  qed
  then show ?thesis unfolding framed_parts_def by auto
qed

lemma framed_part:
  assumes d: "13 \<notin> set d" "10 \<notin> set d" and t: "take 2 rest = CRLF"
  shows "framed_parts parse d rest parts \<longleftrightarrow>
    (\<exists>n p ps. next_delimiter d (drop 2 rest) = Some n \<and> parse (take n (drop 2 rest)) = Inr p \<and> parts = p # ps \<and>
       framed_parts parse d (drop (2 + n + 2 + length d) rest) ps)"
proof -
  have r: "rest = CRLF @ drop 2 rest" using append_take_drop_id[of 2 rest] t by simp
  have behind: "drop (2 + n + 2 + length d) rest = u" if "drop 2 rest = b @ CRLF @ d @ u" "n = length b" for b u n
  proof -
    have "rest = (CRLF @ b @ CRLF @ d) @ u" using r that(1) by simp
    moreover have "length (CRLF @ b @ CRLF @ d) = 2 + n + 2 + length d" using that(2) two_bytes by simp
    ultimately show ?thesis by (metis append_eq_conv_conj)
  qed
  show ?thesis
  proof
    assume "framed_parts parse d rest parts"
    then obtain blobs trailer where f: "rest = assemble d blobs @ trailer" "trailer = [] \<or> trailer = CRLF" "list_all (free_of d) blobs"
      "map parse blobs = map Inr parts" by (auto simp: framed_parts_def)
    have "blobs \<noteq> []" using f(1) t assemble_start[of d blobs trailer] two_bytes by (auto split: if_splits)
    then obtain b bs p ps where bs: "blobs = b # bs" "parts = p # ps" "parse b = Inr p" "map parse bs = map Inr ps"
      using f(4) by (cases blobs; cases parts) auto
    let ?u = "assemble d bs @ trailer"
    have dr: "drop 2 rest = b @ CRLF @ d @ ?u" using f(1) bs(1) by (simp add: CRLF_def)
    have take: "take (length b) (drop 2 rest) = b" using dr by simp
    have "next_delimiter d (drop 2 rest) = Some (length b)"
      using find_part_end[OF d, of "length b" "drop 2 rest"] take dr assemble_start[of d bs trailer] f(3) bs(1) by (auto split: if_splits)
    moreover have "framed_parts parse d ?u ps" using f bs by (auto simp: framed_parts_def)
    ultimately show "\<exists>n p ps. next_delimiter d (drop 2 rest) = Some n \<and> parse (take n (drop 2 rest)) = Inr p \<and> parts = p # ps \<and>
        framed_parts parse d (drop (2 + n + 2 + length d) rest) ps"
      using take bs(2,3) behind[OF dr refl] by metis
  next
    assume "\<exists>n p ps. next_delimiter d (drop 2 rest) = Some n \<and> parse (take n (drop 2 rest)) = Inr p \<and> parts = p # ps \<and>
        framed_parts parse d (drop (2 + n + 2 + length d) rest) ps"
    then obtain n p ps where h: "next_delimiter d (drop 2 rest) = Some n" "parse (take n (drop 2 rest)) = Inr p" "parts = p # ps"
      "framed_parts parse d (drop (2 + n + 2 + length d) rest) ps" by blast
    have "prefix (CRLF @ d) (drop n (drop 2 rest))" using h(1) next_delimiter_first[OF d(1)] by (simp add: delimiter_at_def)
    then have n: "n \<le> length (drop 2 rest)" using prefix_length_le two_bytes by fastforce
    let ?b = "take n (drop 2 rest)"
    obtain u where u: "drop 2 rest = ?b @ CRLF @ d @ u" "free_of d ?b" using h(1) find_part_end[OF d n] by blast
    have "drop (2 + n + 2 + length d) rest = u" by (rule behind[OF u(1)]) (use n in simp)
    then obtain bs trailer where bs: "u = assemble d bs @ trailer" "trailer = [] \<or> trailer = CRLF" "list_all (free_of d) bs" "map parse bs = map Inr ps"
      using h(4) by (auto simp: framed_parts_def)
    have "rest = assemble d (?b # bs) @ trailer" using r u(1) bs(1) by simp
    then show "framed_parts parse d rest parts"
      using bs u(2) h(2,3) unfolding framed_parts_def by (intro exI[of _ "?b # bs"] exI[of _ trailer]) simp
  qed
qed

lemma parse_parts_iff:
  assumes d: "13 \<notin> set d" "10 \<notin> set d"
  shows "parse_parts parse d rest = Inr parts \<longleftrightarrow> framed_parts parse d rest parts"
  using d
proof (induction parse d rest arbitrary: parts rule: parse_parts.induct)
  case (1 parse d rest)
  consider (closing) "take 2 rest = DASHES" | (bad) "take 2 rest \<noteq> DASHES" "take 2 rest \<noteq> CRLF" | (part) "take 2 rest = CRLF"
    by blast
  then show ?case
  proof cases
    case closing
    then show ?thesis using framed_closing[OF closing, of parse d parts] by (auto simp: parse_parts.simps[of parse d rest])
  next
    case bad
    have "take 2 rest = DASHES \<or> take 2 rest = CRLF" if "rest = assemble d blobs @ trailer" for blobs trailer
      unfolding that assemble_start by simp
    then have "\<not> framed_parts parse d rest parts" using bad unfolding framed_parts_def by blast
    then show ?thesis using bad by (simp add: parse_parts.simps[of parse d rest])
  next
    case part
    have ih: "parse_parts parse d (drop (2 + n + 2 + length d) rest) = Inr ps \<longleftrightarrow> framed_parts parse d (drop (2 + n + 2 + length d) rest) ps"
      if "next_delimiter d (drop 2 rest) = Some n" "parse (take n (drop 2 rest)) = Inr p" for n p ps
      by (rule 1(1)[OF _ _ that 1(2,3)]) (use part two_bytes in auto)
    have "parse_parts parse d rest = Inr parts \<longleftrightarrow> (\<exists>n p ps. next_delimiter d (drop 2 rest) = Some n \<and> parse (take n (drop 2 rest)) = Inr p \<and>
        parts = p # ps \<and> parse_parts parse d (drop (2 + n + 2 + length d) rest) = Inr ps)"
      using part two_bytes by (subst parse_parts.simps) (auto simp: map_sum_Inr split: option.splits sum.splits)
    then show ?thesis unfolding framed_part[OF 1(2,3) part] using ih by blast
  qed
qed

lemma boundary_bytes:
  assumes "boundary_ok b"
  shows "13 \<notin> set (DASHES @ ascii_bytes b)" "10 \<notin> set (DASHES @ ascii_bytes b)"
proof -
  have c: "boundary_char c" if "c \<in> set b" for c using assms that by (auto simp: boundary_ok_def list_all_iff)
  have n: "unat (word_of_nat (ord c) :: byte) = ord c" for c :: char by (rule unat_of_nat_byte) simp
  have "ord c \<noteq> 13 \<and> ord c \<noteq> 10" if "c \<in> set b" for c
    using c[OF that] by (auto simp: boundary_char_def is_alnum_def is_digit_def ascii_upper_def)
  then have "(13 :: byte) \<noteq> word_of_nat (ord c) \<and> (10 :: byte) \<noteq> word_of_nat (ord c)" if "c \<in> set b" for c
  proof -
    have u: "unat (13 :: byte) = 13" "unat (10 :: byte) = 10" by simp_all
    have "(13 :: byte) = word_of_nat (ord c) \<Longrightarrow> ord c = 13" using n[of c] u(1) by metis
    moreover have "(10 :: byte) = word_of_nat (ord c) \<Longrightarrow> ord c = 10" using n[of c] u(2) by metis
    ultimately show ?thesis using that \<open>\<And>c. c \<in> set b \<Longrightarrow> ord c \<noteq> 13 \<and> ord c \<noteq> 10\<close> by blast
  qed
  then show "13 \<notin> set (DASHES @ ascii_bytes b)" "10 \<notin> set (DASHES @ ascii_bytes b)"
    by (auto simp: DASHES_def ascii_bytes_def)
qed

text \<open>
  C14. Exactly the well-framed bodies are accepted, and with every byte accounted for. A body yields the parts \<open>parts\<close> if and only if its boundary
  is well formed and the body is the delimiter, then blobs that contain no delimiter of their own, each between line breaks and
  followed by the delimiter, then the closing dashes and at most one line break; and \<open>parts\<close> are these blobs, parsed one by one, in order.
\<close>

theorem multipart_accepts_framed_bodies:
  "parse_multipart_form_data boundary_of parse content_type body = Inr parts \<longleftrightarrow>
    (\<exists>b blobs trailer. boundary_of content_type = Some (Some b) \<and> boundary_ok b \<and>
       body = DASHES @ ascii_bytes b @ assemble (DASHES @ ascii_bytes b) blobs @ trailer \<and> (trailer = [] \<or> trailer = CRLF) \<and>
       list_all (free_of (DASHES @ ascii_bytes b)) blobs \<and> map (parse_part parse) blobs = map Inr parts)"
proof (cases "\<exists>b. boundary_of content_type = Some (Some b) \<and> boundary_ok b")
  case True
  then obtain b where b: "boundary_of content_type = Some (Some b)" "boundary_ok b" by blast
  then have ne: "b \<noteq> []" by (auto simp: boundary_ok_def)
  let ?d = "DASHES @ ascii_bytes b"
  have "parse_multipart_form_data boundary_of parse content_type body = Inr parts \<longleftrightarrow>
      prefix ?d body \<and> framed_parts (parse_part parse) ?d (drop (length ?d) body) parts"
    using b ne parse_parts_iff[OF boundary_bytes[OF b(2)]] by (simp add: parse_multipart_form_data_def Let_def)
  also have "\<dots> \<longleftrightarrow> (\<exists>rest. body = ?d @ rest \<and> framed_parts (parse_part parse) ?d rest parts)"
    by (auto elim!: prefixE)
  finally show ?thesis using b by (auto simp: framed_parts_def)
next
  case False
  then show ?thesis by (auto simp: parse_multipart_form_data_def split: option.splits)
qed

text \<open>A part keeps its payload: what follows the first empty line of its blob.\<close>

lemma part_payload:
  assumes "parse_part parse blob = Inr p"
  shows "\<exists>h. blob = h @ HEADER_TERMINATOR @ mp_payload p"
proof -
  obtain n q where n: "find_from HEADER_TERMINATOR blob = Some n" "part_of q (drop (n + 4) blob) = Inr p"
    using assms by (auto simp: parse_part_def split: option.splits if_splits)
  have "mp_payload p = drop (n + 4) blob"
    using n(2) by (auto simp: part_of_def split: option.splits if_splits header_param.splits)
  moreover have "blob = fst (split_message blob) @ HEADER_TERMINATOR @ snd (split_message blob)" using split_message_body[of blob] n(1) by simp
  ultimately show ?thesis using n(1) by (auto simp: split_message_def)
qed

end
