(* ===== verification/File_Paths.thy ===== *)
theory File_Paths
  imports Py_Text
begin

section \<open>Paths, symbolic links and containment\<close>

text \<open>
  The path helpers of \<^verbatim>\<open>xferry/handlers/base.py\<close> and \<^verbatim>\<open>xferry/http/utils.py\<close> over an explicit file system. A path
  is the list of its segments from the root; the file system maps paths to nodes, and the directories on the way to a
  node are nodes of their own (\<open>fs_ok\<close>). Permissions and name lengths are not modelled. A chain of symbolic links that
  never ends makes \<open>Path.resolve\<close> raise \<open>RuntimeError\<close> (Python up to 3.12; later versions leave the path as it is).
\<close>

type_synonym path = "string list"

datatype fs_node = File_Node bytes nat | Dir_Node | Link_Node string

type_synonym file_system = "(path, fs_node) dict"

definition node_at :: "file_system \<Rightarrow> path \<Rightarrow> fs_node option" where
  "node_at fs p = (if p = [] then Some Dir_Node else dict_get fs p)"

definition fs_ok :: "file_system \<Rightarrow> bool" where
  "fs_ok fs \<longleftrightarrow> (\<forall>p s. dict_get fs (p @ [s]) \<noteq> None \<longrightarrow> node_at fs p = Some Dir_Node)"

fun link_target :: "fs_node option \<Rightarrow> string option" where
  "link_target (Some (Link_Node t)) = Some t"
| "link_target _ = None"

subsection \<open>\<open>pathlib\<close>\<close>

definition path_segments :: "string \<Rightarrow> path" where
  "path_segments s = filter (\<lambda>p. p \<noteq> [] \<and> p \<noteq> ''.'') (py_split CHR ''/'' s)"

definition is_absolute :: "string \<Rightarrow> bool" where "is_absolute s \<longleftrightarrow> prefix ''/'' s"

text \<open>\<open>base / s\<close>\<close>

definition join_path :: "path \<Rightarrow> string \<Rightarrow> path" where
  "join_path base s = (if is_absolute s then path_segments s else base @ path_segments s)"

definition path_name :: "path \<Rightarrow> string" where "path_name p = (if p = [] then [] else last p)"

definition path_text :: "path \<Rightarrow> string" where "path_text p = (if p = [] then ''/'' else concat (map (\<lambda>s. CHR ''/'' # s) p))"

text \<open>The walk of \<open>os.path.realpath\<close>: symbolic links are replaced by their targets, \<open>..\<close> goes up, and what does not exist
  is kept. With \<open>strict\<close> it is the look-up of the operating system, which enters only directories.\<close>

partial_function (option) walk :: "file_system \<Rightarrow> path \<Rightarrow> path \<Rightarrow> bool \<Rightarrow> path option" where
  "walk fs here rest strict =
     (case rest of
        [] \<Rightarrow> Some here
      | s # more \<Rightarrow>
          if strict \<and> node_at fs here \<noteq> Some Dir_Node then None
          else if s = ''..'' then walk fs (butlast here) more strict
          else (case link_target (dict_get fs (here @ [s])) of
              Some t \<Rightarrow> walk fs (if is_absolute t then [] else here) (path_segments t @ more) strict
            | None \<Rightarrow> walk fs (here @ [s]) more strict))"

definition resolve :: "file_system \<Rightarrow> path \<Rightarrow> path option" where "resolve fs p = walk fs [] p False"

text \<open>The file that an operation on \<open>p\<close> reaches.\<close>

definition reached :: "file_system \<Rightarrow> path \<Rightarrow> path option" where
  "reached fs p = (case walk fs [] p True of None \<Rightarrow> None | Some q \<Rightarrow> if node_at fs q = None then None else Some q)"

definition stat_of :: "file_system \<Rightarrow> path \<Rightarrow> fs_node option" where
  "stat_of fs p = Option.bind (reached fs p) (node_at fs)"

definition path_exists :: "file_system \<Rightarrow> path \<Rightarrow> bool" where "path_exists fs p \<longleftrightarrow> stat_of fs p \<noteq> None"

definition is_dir :: "file_system \<Rightarrow> path \<Rightarrow> bool" where "is_dir fs p \<longleftrightarrow> stat_of fs p = Some Dir_Node"

definition is_symlink :: "file_system \<Rightarrow> path \<Rightarrow> bool" where
  "is_symlink fs p \<longleftrightarrow> p \<noteq> [] \<and> (case walk fs [] (butlast p) True of
     None \<Rightarrow> False | Some q \<Rightarrow> last p \<noteq> ''..'' \<and> link_target (dict_get fs (q @ [last p])) \<noteq> None)"

subsection \<open>\<open>resolve_descendant_path\<close>\<close>

definition nul_char :: char where "nul_char = CHR 0x00"

definition resolve_descendant_path :: "bool \<Rightarrow> file_system \<Rightarrow> path \<Rightarrow> string \<Rightarrow> py_error + path option" where
  "resolve_descendant_path block_symlinks fs base clean =
     (case resolve fs base of
        None \<Rightarrow> Inl RuntimeError
      | Some rt \<Rightarrow>
          if nul_char \<in> set clean then Inl ValueError
          else (case (if clean = [] then Some rt else resolve fs (join_path base clean)) of
              None \<Rightarrow> Inl RuntimeError
            | Some p \<Rightarrow>
                if \<not> prefix rt p then Inr None
                else if block_symlinks \<and> clean \<noteq> [] \<and> is_symlink fs (join_path base clean) then Inr None
                else Inr (Some p)))"

text \<open>\<open>path.lstrip("/")\<close>\<close>

definition strip_slashes :: "string \<Rightarrow> string" where "strip_slashes = dropWhile (\<lambda>c. c = CHR ''/'')"

definition upload_clean_path :: "string \<Rightarrow> string" where
  "upload_clean_path url =
     (let c = strip_slashes url
      in if prefix ''uploads/'' c then drop 8 c else if c = ''uploads'' then [] else c)"

text \<open>\<open>_get_file_path\<close> with \<open>for_sandbox\<close>.\<close>

definition get_file_path :: "file_system \<Rightarrow> path \<Rightarrow> string \<Rightarrow> py_error + path option" where
  "get_file_path fs upload_dir url =
     resolve_descendant_path False fs upload_dir (upload_clean_path (if url = ''/'' then ''/index.html'' else url))"

definition HIDDEN_FILES :: "string list" where
  "HIDDEN_FILES = [''.opsec_config.json'', ''.env'', ''.gitignore'', ''.git'', ''__pycache__'']"

definition hidden_part :: "string \<Rightarrow> bool" where
  "hidden_part s \<longleftrightarrow> (s \<notin> {''.'', ''..''} \<and> prefix ''.'' s) \<or> s \<in> set HIDDEN_FILES"

definition is_hidden_file :: "string \<Rightarrow> bool" where
  "is_hidden_file path \<longleftrightarrow>
     (\<exists>s \<in> set (py_split CHR ''/'' (map (\<lambda>c. if c = CHR 0x5C then CHR ''/'' else c) path)). s \<noteq> [] \<and> hidden_part s)"

subsection \<open>Package resources\<close>

text \<open>\<open>windows_absolute\<close> and \<open>windows_anchored\<close> stand for \<open>PureWindowsPath\<close>: an absolute path, and a part with a drive or root.\<close>

definition safe_package_resource_parts ::
  "(string \<Rightarrow> string) \<Rightarrow> (string \<Rightarrow> bool) \<Rightarrow> (string \<Rightarrow> bool) \<Rightarrow> string \<Rightarrow> path option" where
  "safe_package_resource_parts unquote windows_absolute windows_anchored res =
     (let d = unquote res; parts = py_split CHR ''/'' d
      in if d = [] \<or> CHR 0x5C \<in> set d \<or> is_absolute d \<or> windows_absolute d then None
         else if \<exists>s \<in> set parts. s \<in> {'''', ''.'', ''..''} \<or> windows_anchored s then None
         else Some parts)"

text \<open>\<open>_contained_resource_path\<close>; its \<open>ValueError\<close> for a null character is caught as well.\<close>

definition contained_resource_path :: "file_system \<Rightarrow> path \<Rightarrow> path \<Rightarrow> path option" where
  "contained_resource_path fs p rt =
     (if \<exists>s \<in> set p. nul_char \<in> set s then None
      else case (resolve fs p, resolve fs rt) of
        (Some q, Some r) \<Rightarrow> if prefix r q then Some q else None
      | _ \<Rightarrow> None)"

text \<open>The roots are the directory of the package, when it is one on disk, and \<open>data\<close> beside the sources.\<close>

definition get_package_resource ::
  "(string \<Rightarrow> path option) \<Rightarrow> path list \<Rightarrow> file_system \<Rightarrow> string \<Rightarrow> path option" where
  "get_package_resource safe_parts roots fs res =
     (case safe_parts res of
        None \<Rightarrow> None
      | Some parts \<Rightarrow>
          map_option (\<lambda>r. the (contained_resource_path fs (r @ parts) r))
            (find (\<lambda>r. case contained_resource_path fs (r @ parts) r of None \<Rightarrow> False | Some q \<Rightarrow> path_exists fs q) roots))"

subsection \<open>Resolved paths\<close>

text \<open>A physical path: no symbolic link on the way, and no dots in it.\<close>

definition physical :: "file_system \<Rightarrow> path \<Rightarrow> bool" where
  "physical fs p \<longleftrightarrow> ''..'' \<notin> set p \<and> (\<forall>q s. prefix (q @ [s]) p \<longrightarrow> link_target (dict_get fs (q @ [s])) = None)"

lemma physical_Nil [simp]: "physical fs []" by (simp add: physical_def)

lemma physical_snoc: "physical fs (p @ [s]) \<longleftrightarrow> physical fs p \<and> s \<noteq> ''..'' \<and> link_target (dict_get fs (p @ [s])) = None"
  by (auto simp: physical_def prefix_snoc)

lemma physical_prefix: "physical fs p \<Longrightarrow> prefix q p \<Longrightarrow> physical fs q"
  unfolding physical_def by (meson prefix_order.trans set_mono_prefix subsetD)

lemma physical_butlast: "physical fs p \<Longrightarrow> physical fs (butlast p)"
  by (metis append_butlast_last_id butlast.simps(1) physical_snoc)

lemma walk_physical:
  assumes "walk fs p rest strict = Some q" "physical fs p"
  shows "physical fs q"
proof -
  have "physical fs p \<longrightarrow> physical fs q"
  proof (rule walk.raw_induct[where P = "\<lambda>fs p rest strict q. physical fs p \<longrightarrow> physical fs q", OF _ assms(1)])
    fix w fs p rest strict q
    assume ih: "\<And>fs p rest strict q. w fs p rest strict = Some q \<Longrightarrow> physical fs p \<longrightarrow> physical fs q"
      and step: "(case rest of [] \<Rightarrow> Some p | s # more \<Rightarrow>
          if strict \<and> node_at fs p \<noteq> Some Dir_Node then None
          else if s = ''..'' then w fs (butlast p) more strict
          else (case link_target (dict_get fs (p @ [s])) of
              None \<Rightarrow> w fs (p @ [s]) more strict
            | Some t \<Rightarrow> w fs (if is_absolute t then [] else p) (path_segments t @ more) strict)) = Some q"
    show "physical fs p \<longrightarrow> physical fs q"
      using step by (auto split: list.splits if_splits option.splits dest!: ih simp: physical_snoc physical_butlast)
  qed
  then show ?thesis using assms(2) by simp
qed

lemma walk_id:
  assumes "physical fs (p @ rest)" "strict \<Longrightarrow> \<forall>q. strict_prefix q (p @ rest) \<longrightarrow> node_at fs q = Some Dir_Node"
  shows "walk fs p rest strict = Some (p @ rest)"
  using assms
proof (induction rest arbitrary: p)
  case (Cons s rest)
  have p: "physical fs (p @ [s])" using Cons.prems(1) by (rule physical_prefix) simp
  have "walk fs (p @ [s]) rest strict = Some ((p @ [s]) @ rest)" using Cons.prems by (intro Cons.IH) simp_all
  moreover have "strict \<Longrightarrow> node_at fs p = Some Dir_Node" using Cons.prems(2) by (simp add: strict_prefix_def)
  ultimately show ?case using p by (subst walk.simps) (auto simp: physical_snoc)
qed (simp add: walk.simps)

lemma resolve_physical: "resolve fs p = Some q \<Longrightarrow> physical fs q"
  unfolding resolve_def by (erule walk_physical) (simp add: physical_def)

lemma resolve_id: "physical fs p \<Longrightarrow> resolve fs p = Some p"
  unfolding resolve_def using walk_id[of fs "[]" p False] by simp

lemma reached_physical: "reached fs p = Some q \<Longrightarrow> physical fs q"
  by (auto simp: reached_def physical_def[of fs "[]"] split: option.splits if_splits elim!: walk_physical)

lemma fs_ok_dirs:
  assumes "fs_ok fs" "node_at fs p \<noteq> None" "strict_prefix q p"
  shows "node_at fs q = Some Dir_Node"
  using assms(2,3)
proof (induction p rule: rev_induct)
  case (snoc s p)
  have d: "node_at fs p = Some Dir_Node" using snoc.prems(1) assms(1) by (auto simp: fs_ok_def node_at_def split: if_splits)
  show ?case
  proof (cases "q = p")
    case False
    then show ?thesis using snoc.prems(2) d by (intro snoc.IH) (auto simp: strict_prefix_def prefix_snoc)
  qed (use d in simp)
qed simp

lemma reached_id:
  assumes "fs_ok fs" "physical fs p" "node_at fs p \<noteq> None"
  shows "reached fs p = Some p"
  using assms(3) walk_id[of fs "[]" p True] assms(2) fs_ok_dirs[OF assms(1,3)] by (simp add: reached_def)

text \<open>What an operation on a resolved path reaches is that path itself.\<close>

lemma reached_resolved:
  assumes "physical fs p" "reached fs p = Some q"
  shows "q = p"
proof -
  have "\<exists>r. walk fs here rest True = Some r \<Longrightarrow> physical fs (here @ rest) \<Longrightarrow> walk fs here rest True = Some (here @ rest)" for here rest
  proof (induction rest arbitrary: here)
    case (Cons s rest)
    have s: "s \<noteq> ''..''" "link_target (dict_get fs (here @ [s])) = None"
      using physical_prefix[OF Cons.prems(2), of "here @ [s]"] by (simp_all add: physical_snoc)
    then have "walk fs here (s # rest) True = (if node_at fs here \<noteq> Some Dir_Node then None else walk fs (here @ [s]) rest True)"
      by (subst walk.simps) simp
    then show ?case using Cons.IH[of "here @ [s]"] Cons.prems by (auto split: if_splits)
  qed (simp add: walk.simps)
  from this[of "[]" p] show ?thesis using assms by (auto simp: reached_def split: option.splits if_splits)
qed

lemma descendant_contained:
  assumes "resolve_descendant_path b fs base clean = Inr (Some p)"
  shows "\<exists>rt. resolve fs base = Some rt \<and> prefix rt p \<and> physical fs p"
proof -
  obtain rt where r: "resolve fs base = Some rt" using assms by (auto simp: resolve_descendant_path_def split: option.splits)
  have "prefix rt p" "p = rt \<or> resolve fs (join_path base clean) = Some p"
    using assms r by (auto simp: resolve_descendant_path_def split: option.splits if_splits)
  then show ?thesis using r resolve_physical by blast
qed

end
