(* ===== verification/File_Handlers.thy ===== *)
theory File_Handlers
  imports File_Paths Multipart Upload_Storage Artifact_Store Py_Ip "HOL-Library.List_Lexorder"
begin

section \<open>File handlers\<close>

text \<open>
  \<^verbatim>\<open>xferry/handlers/files.py\<close> over the file system of \<open>File_Paths\<close>: GET, HEAD, FETCH, DELETE with the clearing of the upload
  directory, and the basic upload over \<open>Upload_Storage\<close>. Parameters, in \<open>file_env\<close> and as arguments: \<open>unquote\<close>, the guess of a
  media type, the text of a time, what \<open>stat\<close> says of a directory, the generated time stamp, the environment of the
  storage calls and which removals fail. The rendering of the bundled page, the metrics page and the text of the JSON answers are
  not modelled; of an error the status and the code are.
\<close>

record file_env =
  fe_fs :: file_system
  fe_upload_dir :: path
  fe_safe_parts :: "string \<Rightarrow> path option"
  fe_roots :: "path list"
  fe_mime :: "string \<Rightarrow> string option"
  fe_date :: "nat \<Rightarrow> string"
  fe_dir_stat :: "nat \<times> nat"

record file_request =
  fr_path :: string
  fr_query :: string
  fr_versioned :: bool
  fr_headers :: "(string, string) dict"
  fr_body :: bytes

record stored_upload =
  su_name :: string
  su_size :: nat
  su_profile :: string
  su_source :: string
  su_content_type :: string
  su_renamed :: bool

datatype file_answer =
    Refused nat string
  | Metrics_Page
  | App_Shell path
  | Sent "path option" http_response
  | Bodyless file_answer
  | Deleted_File path string string
  | Cleared nat nat "string list"
  | Clear_Failed nat nat "string list" "(string \<times> string) list"
  | Stored stored_upload
  | Raised py_error

definition fr_header :: "string \<Rightarrow> string \<Rightarrow> file_request \<Rightarrow> string" where
  "fr_header name default_value rq = (case dict_get (fr_headers rq) name of None \<Rightarrow> default_value | Some v \<Rightarrow> v)"

definition not_found :: file_answer where "not_found = Refused 404 ''resource_not_found''"

subsection \<open>Names and types\<close>

definition file_stat :: "file_env \<Rightarrow> path \<Rightarrow> (nat \<times> nat) option" where
  "file_stat env p =
     (case stat_of (fe_fs env) p of
        None \<Rightarrow> None
      | Some (File_Node content mtime) \<Rightarrow> Some (length content, mtime)
      | Some _ \<Rightarrow> Some (fe_dir_stat env))"

definition compute_etag :: "nat \<times> nat \<Rightarrow> string" where
  "compute_etag st = ''\"'' @ hex_digits (fst st) @ ''-'' @ hex_digits (snd st) @ ''\"''"

text \<open>\<open>Path(name).suffix\<close>\<close>

definition path_suffix :: "string \<Rightarrow> string" where
  "path_suffix name =
     (case rsplit_dot name of
        Some (stem, ext) \<Rightarrow> if stem \<noteq> [] \<and> ext \<noteq> [] then CHR ''.'' # ext else []
      | None \<Rightarrow> [])"

definition should_force_download :: "string \<Rightarrow> bool" where
  "should_force_download content_type =
     (let media = py_lower (py_strip (fst (cut_at CHR '';'' content_type)))
      in prefix ''text/html'' media \<or> media = ''image/svg+xml'' \<or> media = ''application/xhtml+xml'')"

definition SMUGGLE_OUTPUT_CONTENT_TYPES :: "(string, string) dict" where
  "SMUGGLE_OUTPUT_CONTENT_TYPES =
     [(''html'', ''text/html; charset=utf-8''), (''htm'', ''text/html; charset=utf-8''), (''shtml'', ''text/html; charset=utf-8''),
      (''shtm'', ''text/html; charset=utf-8''), (''xhtml'', ''application/xhtml+xml; charset=utf-8''),
      (''xht'', ''application/xhtml+xml; charset=utf-8''), (''xhtm'', ''application/xhtml+xml; charset=utf-8''),
      (''xml'', ''application/xml; charset=utf-8''), (''svg'', ''image/svg+xml; charset=utf-8'')]"

definition smuggle_artifact_content_type :: "path \<Rightarrow> string \<Rightarrow> string" where
  "smuggle_artifact_content_type p fallback =
     (case dict_get SMUGGLE_OUTPUT_CONTENT_TYPES (dropWhile (\<lambda>c. c = CHR ''.'') (py_lower (path_suffix (path_name p)))) of
        None \<Rightarrow> fallback | Some t \<Rightarrow> t)"

definition policy_text :: "(string \<times> string list) list \<Rightarrow> string" where
  "policy_text ds = text_join ''; '' (map (\<lambda>(d, vs). text_join '' '' (d # vs)) ds)"

definition quoted :: "string \<Rightarrow> string" where "quoted s = [CHR 0x27] @ s @ [CHR 0x27]"

definition HTML_CONTENT_SECURITY_POLICY :: string where
  "HTML_CONTENT_SECURITY_POLICY = policy_text
     [(''default-src'', [quoted ''self'']), (''script-src'', [quoted ''self'']), (''style-src'', [quoted ''self'', quoted ''unsafe-inline'']),
      (''img-src'', [quoted ''self'', ''data:'']), (''connect-src'', [quoted ''self'', ''ws:'', ''wss:'']), (''base-uri'', [quoted ''self'']),
      (''object-src'', [quoted ''none'']), (''frame-ancestors'', [quoted ''none'']), (''form-action'', [quoted ''self''])]"

definition SMUGGLE_ARTIFACT_CONTENT_SECURITY_POLICY :: string where
  "SMUGGLE_ARTIFACT_CONTENT_SECURITY_POLICY = policy_text
     [(''default-src'', [quoted ''none'']), (''script-src'', [quoted ''self'', quoted ''unsafe-inline'']),
      (''style-src'', [quoted ''unsafe-inline'', ''data:'']), (''img-src'', [''data:'']), (''connect-src'', [''blob:'']),
      (''base-uri'', [quoted ''none'']), (''object-src'', [quoted ''none'']), (''frame-ancestors'', [quoted ''none'']),
      (''form-action'', [quoted ''none''])]"

definition cache_control_header :: "string \<Rightarrow> bool \<Rightarrow> bool \<Rightarrow> string" where
  "cache_control_header url versioned is_user_upload =
     (if is_user_upload \<or> prefix ''uploads/'' url \<or> url = ''uploads'' then ''no-cache''
      else if prefix ''static/'' url \<and> versioned then ''public, max-age=31536000, immutable''
      else ''public, max-age=0, must-revalidate'')"

subsection \<open>GET and HEAD\<close>

definition package_resource :: "file_env \<Rightarrow> string \<Rightarrow> path option" where
  "package_resource env = get_package_resource (fe_safe_parts env) (fe_roots env) (fe_fs env)"

definition with_index :: "file_system \<Rightarrow> path \<Rightarrow> path option" where
  "with_index fs p =
     (if \<not> path_exists fs p then None
      else if is_dir fs p then (if path_exists fs (p @ [''index.html'']) then Some (p @ [''index.html'']) else None)
      else Some p)"

definition get_source :: "file_env \<Rightarrow> string \<Rightarrow> py_error + path option" where
  "get_source env url =
     (let u = strip_slashes url
      in if u = [] \<or> u = ''index.html'' then Inr (package_resource env ''index.html'')
         else if prefix ''static/'' u then Inr (package_resource env u)
         else get_file_path (fe_fs env) (fe_upload_dir env) url)"

definition resolve_get_path :: "file_env \<Rightarrow> string \<Rightarrow> py_error + path option" where
  "resolve_get_path env url =
     (if is_hidden_file url then Inr None
      else map_sum id (\<lambda>found. Option.bind found (with_index (fe_fs env))) (get_source env url))"

text \<open>\<open>_is_upload_descendant\<close>\<close>

definition is_upload_descendant :: "file_env \<Rightarrow> path \<Rightarrow> bool option" where
  "is_upload_descendant env p =
     (case (resolve (fe_fs env) p, resolve (fe_fs env) (fe_upload_dir env)) of
        (Some q, Some rt) \<Rightarrow> Some (prefix rt q)
      | _ \<Rightarrow> None)"

definition validators :: "file_env \<Rightarrow> nat \<times> nat \<Rightarrow> string \<Rightarrow> http_response \<Rightarrow> http_response" where
  "validators env st cache r =
     set_header ''Cache-Control'' cache (set_header ''Last-Modified'' (fe_date env (snd st)) (set_header ''ETag'' (compute_etag st) r))"

text \<open>The 200 answer of \<open>_serve_file\<close>.\<close>

definition file_response :: "file_env \<Rightarrow> nat \<times> nat \<Rightarrow> string \<Rightarrow> bool \<Rightarrow> bool \<Rightarrow> path \<Rightarrow> http_response" where
  "file_response env st cache is_user_upload is_smuggle p =
     (let guessed = (case fe_mime env (path_text p) of None \<Rightarrow> ''application/octet-stream''
            | Some t \<Rightarrow> if t = [] then ''application/octet-stream'' else t);
          t1 = (if is_smuggle then smuggle_artifact_content_type p guessed else guessed);
          force = (is_user_upload \<and> \<not> is_smuggle \<and> should_force_download t1);
          t2 = (if force then ''application/octet-stream'' else t1);
          r1 = snd (set_file (Some (fst st)) t2 is_smuggle (validators env st cache (new_response 200)));
          r2 = (if force then set_header ''Content-Disposition''
              (''attachment; filename=\"'' @ filter (\<lambda>c. c \<noteq> CHR 0x22) (path_name p) @ ''\"'') r1 else r1)
      in if is_smuggle then set_header ''Content-Security-Policy'' SMUGGLE_ARTIFACT_CONTENT_SECURITY_POLICY r2
         else if prefix ''text/html'' t2 then set_header ''Content-Security-Policy'' HTML_CONTENT_SECURITY_POLICY r2
         else r2)"

text \<open>\<open>_serve_file\<close>. The registry of one-shot artifacts knows a file by the text of its path.\<close>

definition serve_file :: "file_env \<Rightarrow> artifact_store \<Rightarrow> file_request \<Rightarrow> path \<Rightarrow> file_answer \<times> artifact_store" where
  "serve_file env store rq p =
     (case (file_stat env p, is_upload_descendant env p) of
        (Some st, Some is_user_upload) \<Rightarrow>
          (let url = strip_slashes (fr_path rq); key = path_text p; is_smuggle = (key \<in> as_paths store);
               (claimed, store1) = (if is_smuggle then claim_path key store else (True, store));
               cache = cache_control_header url (fr_versioned rq) is_user_upload;
               if_none_match = fr_header ''if-none-match'' [] rq
           in if \<not> claimed then (not_found, store1)
              else if (url = [] \<or> url = ''index.html'') \<and> \<not> is_user_upload \<and> \<not> is_smuggle then (App_Shell p, store1)
              else if if_none_match \<noteq> [] \<and> if_none_match = compute_etag st
              then (Sent None ((validators env st cache (new_response 304))\<lparr>rs_cleanup := is_smuggle\<rparr>), store1)
              else (Sent (Some p) (file_response env st cache is_user_upload is_smuggle p), store1))
      | (None, _) \<Rightarrow> (Raised OSError, store)
      | (Some _, None) \<Rightarrow> (Raised RuntimeError, store))"

definition handle_get :: "file_env \<Rightarrow> artifact_store \<Rightarrow> file_request \<Rightarrow> file_answer \<times> artifact_store" where
  "handle_get env store rq =
     (if fr_path rq = ''/metrics'' then (Metrics_Page, store)
      else (case resolve_get_path env (fr_path rq) of
          Inl e \<Rightarrow> (Raised e, store)
        | Inr None \<Rightarrow> (not_found, store)
        | Inr (Some p) \<Rightarrow> serve_file env store rq p))"

definition handle_head :: "file_env \<Rightarrow> artifact_store \<Rightarrow> file_request \<Rightarrow> file_answer \<times> artifact_store" where
  "handle_head env store rq =
     (case handle_get env store rq of
        (Sent _ r, store1) \<Rightarrow> (Sent None (r\<lparr>rs_body := [], rs_source := Buffered\<rparr>), store1)
      | (Raised e, store1) \<Rightarrow> (Raised e, store1)
      | (a, store1) \<Rightarrow> (Bodyless a, store1))"

text \<open>The callback of a one-shot artifact when its stream is over; \<open>unlink_ok\<close>: the file could be removed.\<close>

definition cleanup_smuggle_stream :: "bool \<Rightarrow> path \<Rightarrow> file_env \<times> artifact_store \<Rightarrow> file_env \<times> artifact_store" where
  "cleanup_smuggle_stream unlink_ok p s =
     ((if unlink_ok then (fst s)\<lparr>fe_fs := dict_del p (fe_fs (fst s))\<rparr> else fst s), release_path (path_text p) (snd s))"

subsection \<open>FETCH\<close>

text \<open>\<open>re.sub("[...]+", "-", s)\<close> for the characters that satisfy \<open>P\<close>; \<open>joined\<close>: the last one belongs to a run.\<close>

fun replace_runs :: "(char \<Rightarrow> bool) \<Rightarrow> bool \<Rightarrow> string \<Rightarrow> string" where
  "replace_runs P joined [] = []"
| "replace_runs P joined (c # cs) =
     (if P c then (if joined then [] else ''-'') @ replace_runs P True cs else c # replace_runs P False cs)"

definition one_of :: "string \<Rightarrow> char \<Rightarrow> bool" where "one_of cs c \<longleftrightarrow> c \<in> set cs"

definition safe_download_filename :: "string \<Rightarrow> string" where
  "safe_download_filename filename =
     (let name = path_name (path_segments (map (\<lambda>c. if c = CHR 0x5C then CHR ''/'' else c) filename));
          safe = strip_by (one_of '' .-'') (replace_runs (\<lambda>c. ord c < 32 \<or> ord c = 127 \<or> c = CHR 0x22) False name)
      in if safe = [] then ''download'' else safe)"

text \<open>\<open>urllib.parse.quote(s, safe="")\<close>\<close>

definition percent_byte :: "byte \<Rightarrow> string" where
  "percent_byte b = (let n = unat b; c = chr n; h = (\<lambda>k. chr (if k < 10 then 48 + k else 55 + k))
     in if is_alnum c \<or> one_of ''_.-~'' c then [c] else [CHR ''%'', h (n div 16), h (n mod 16)])"

definition py_quote :: "string \<Rightarrow> string" where "py_quote s = concat (map percent_byte (utf8_encode s))"

definition build_download_content_disposition :: "string \<Rightarrow> string" where
  "build_download_content_disposition filename =
     (let safe = safe_download_filename filename; sfx = path_suffix safe;
          stem = take (length safe - length sfx) safe;
          safe_suffix = (if sfx \<noteq> [] \<and> length (tl sfx) \<le> 32 \<and> list_all is_alnum (tl sfx) then sfx else []);
          ascii_stem = strip_by (one_of ''._-'') (replace_runs (\<lambda>c. \<not> (is_alnum c \<or> one_of ''_-'' c)) False (filter (\<lambda>c. ord c < 128) stem));
          fallback = (if list_ex is_alpha ascii_stem then ascii_stem else ''download'')
      in ''attachment; filename=\"'' @ fallback @ safe_suffix @ ''\"; filename*=UTF-8'' @ [CHR 0x27, CHR 0x27] @ py_quote safe)"

definition handle_fetch :: "file_env \<Rightarrow> file_request \<Rightarrow> file_answer" where
  "handle_fetch env rq =
     (if is_hidden_file (fr_path rq) then not_found
      else (case get_file_path (fe_fs env) (fe_upload_dir env) (fr_path rq) of
          Inl e \<Rightarrow> Raised e
        | Inr None \<Rightarrow> Refused 400 ''invalid_path''
        | Inr (Some p) \<Rightarrow>
            if \<not> path_exists (fe_fs env) p \<or> is_dir (fe_fs env) p then not_found
            else (case file_stat env p of
                None \<Rightarrow> Raised OSError
              | Some st \<Rightarrow>
                  (let guessed = (case fe_mime env (path_text p) of None \<Rightarrow> ''application/octet-stream''
                         | Some t \<Rightarrow> if t = [] then ''application/octet-stream'' else t)
                   in Sent (Some p) (set_header ''Content-Disposition'' (build_download_content_disposition (path_name p))
                        (snd (set_file (Some (fst st)) guessed False (new_response 200))))))))"

subsection \<open>DELETE\<close>

text \<open>\<open>parse_qsl\<close> with \<open>keep_blank_values\<close>, for a query without empty fields.\<close>

definition query_pair :: "(string \<Rightarrow> string) \<Rightarrow> string \<Rightarrow> string \<times> string" where
  "query_pair unquote field =
     (let plus = map (\<lambda>c. if c = CHR ''+'' then CHR '' '' else c); (k, v) = cut_at CHR ''='' field
      in (unquote (plus k), unquote (plus (case v of None \<Rightarrow> [] | Some w \<Rightarrow> w))))"

definition parse_qsl :: "(string \<Rightarrow> string) \<Rightarrow> string \<Rightarrow> (string \<times> string) list" where
  "parse_qsl unquote q = map (query_pair unquote) (filter (\<lambda>f. f \<noteq> []) (py_split CHR ''&'' q))"

text \<open>The loop of \<open>_parse_delete_clear_query\<close>; an error is the name of the offending field.\<close>

fun clear_fields :: "string option \<Rightarrow> string list \<Rightarrow> (string \<times> string) list \<Rightarrow> string + string option" where
  "clear_fields value seen [] = Inr value"
| "clear_fields value seen ((k, v) # kvs) =
     (if k \<noteq> ''clear'' then Inl (if k = [] then ''query'' else k)
      else if k \<in> set seen then Inl ''clear''
      else if v \<noteq> ''true'' \<and> v \<noteq> ''false'' then Inl ''clear''
      else clear_fields (Some v) (k # seen) kvs)"

definition parse_delete_clear_query :: "(string \<Rightarrow> string) \<Rightarrow> string \<Rightarrow> string + string option" where
  "parse_delete_clear_query unquote q =
     (if q \<noteq> [] \<and> [] \<in> set (py_split CHR ''&'' q) then Inl ''query'' else clear_fields None [] (parse_qsl unquote q))"

definition is_upload_root :: "file_env \<Rightarrow> path \<Rightarrow> bool" where
  "is_upload_root env p =
     (case (resolve (fe_fs env) p, resolve (fe_fs env) (fe_upload_dir env)) of
        (Some q, Some rt) \<Rightarrow> q = rt
      | _ \<Rightarrow> False)"

definition upload_response_path :: "file_env \<Rightarrow> path \<Rightarrow> string" where
  "upload_response_path env p =
     (case (resolve (fe_fs env) p, resolve (fe_fs env) (fe_upload_dir env)) of
        (Some q, Some rt) \<Rightarrow> if prefix rt q \<and> q \<noteq> rt then ''/uploads'' @ path_text (drop (length rt) q) else ''/uploads''
      | _ \<Rightarrow> ''/uploads'')"

text \<open>The entries of a directory, by name.\<close>

definition dir_children :: "file_system \<Rightarrow> path \<Rightarrow> (string \<times> fs_node) list" where
  "dir_children fs d =
     sort_key (\<lambda>(n, _). map ord n) (map (\<lambda>(p, node). (last p, node)) (filter (\<lambda>(p, _). p \<noteq> [] \<and> butlast p = d) fs))"

record clear_state =
  cs_files :: nat
  cs_dirs :: nat
  cs_preserved :: "string list"
  cs_failures :: "(string \<times> string) list"
  cs_removed :: "(string \<times> bool) list"
  cs_partial :: "(string \<times> (path \<Rightarrow> bool)) list"

text \<open>The loop of \<open>_clear_uploads_directory\<close>. \<open>fails\<close> gives the reason when an entry cannot be removed, and, for
  \<open>rmtree\<close>, which paths below it were gone before it failed; \<open>cs_removed\<close> lists what is removed, with \<open>True\<close> for \<open>rmtree\<close>,
  and \<open>cs_partial\<close> the directories on which it failed.\<close>

type_synonym clear_failures = "string \<Rightarrow> (string \<times> (path \<Rightarrow> bool)) option"

definition clear_upload_entry :: "clear_failures \<Rightarrow> string \<times> fs_node \<Rightarrow> clear_state \<Rightarrow> clear_state" where
  "clear_upload_entry fails entry c =
     (let (n, node) = entry
      in if prefix ''.'' n \<or> n \<in> set HIDDEN_FILES then c\<lparr>cs_preserved := cs_preserved c @ [n]\<rparr>
         else (case fails n of
             Some (reason, gone) \<Rightarrow>
               c\<lparr>cs_failures := cs_failures c @ [(n, reason)],
                 cs_partial := cs_partial c @ (if node = Dir_Node then [(n, gone)] else [])\<rparr>
           | None \<Rightarrow>
               (let c1 = c\<lparr>cs_removed := cs_removed c @ [(n, node = Dir_Node)]\<rparr>
                in if node = Dir_Node then c1\<lparr>cs_dirs := cs_dirs c1 + 1\<rparr> else c1\<lparr>cs_files := cs_files c1 + 1\<rparr>)))"

definition clear_all :: "clear_failures \<Rightarrow> (string \<times> fs_node) list \<Rightarrow> clear_state" where
  "clear_all fails entries =
     fold (clear_upload_entry fails) entries \<lparr>cs_files = 0, cs_dirs = 0, cs_preserved = [], cs_failures = [], cs_removed = [], cs_partial = []\<rparr>"

definition without_below :: "path list \<Rightarrow> file_system \<Rightarrow> file_system" where
  "without_below ps fs = filter (\<lambda>(p, _). \<not> list_ex (\<lambda>q. prefix q p) ps) fs"

text \<open>A directory goes only after everything in it.\<close>

definition without_partly :: "(path \<times> (path \<Rightarrow> bool)) list \<Rightarrow> file_system \<Rightarrow> file_system" where
  "without_partly ps fs =
     filter (\<lambda>(p, _). \<not> list_ex (\<lambda>(q, gone). strict_prefix q p \<and> list_all (\<lambda>(r, _). prefix p r \<longrightarrow> gone r) fs) ps) fs"

definition clear_uploads_directory :: "clear_failures \<Rightarrow> file_env \<Rightarrow> artifact_store \<Rightarrow> file_answer \<times> file_env \<times> artifact_store" where
  "clear_uploads_directory fails env store =
     (case reached (fe_fs env) (fe_upload_dir env) of
        None \<Rightarrow> (Raised OSError, env, store)
      | Some d \<Rightarrow>
          (let c = clear_all fails (dir_children (fe_fs env) d);
               fs = without_partly (map (\<lambda>(n, gone). (d @ [n], gone)) (cs_partial c))
                 (without_below (map (\<lambda>(n, _). d @ [n]) (cs_removed c)) (fe_fs env));
               gone = Set.filter (\<lambda>k. \<not> path_exists fs (path_segments k)) (as_paths store);
               store1 = store\<lparr>as_paths := as_paths store - gone, as_claimed := as_claimed store - gone\<rparr>
           in (if cs_failures c \<noteq> [] then Clear_Failed (cs_files c) (cs_dirs c) (cs_preserved c) (cs_failures c)
               else Cleared (cs_files c) (cs_dirs c) (cs_preserved c), env\<lparr>fe_fs := fs\<rparr>, store1)))"

definition handle_delete ::
  "(string \<Rightarrow> string) \<Rightarrow> clear_failures \<Rightarrow> bool \<Rightarrow> file_env \<Rightarrow> artifact_store \<Rightarrow> file_request
     \<Rightarrow> file_answer \<times> file_env \<times> artifact_store"
where
  "handle_delete unquote fails unlink_ok env store rq =
     (case parse_delete_clear_query unquote (fr_query rq) of
        Inl _ \<Rightarrow> (Refused 400 ''invalid_field'', env, store)
      | Inr clear \<Rightarrow>
          if is_hidden_file (fr_path rq) then (not_found, env, store)
          else (case get_file_path (fe_fs env) (fe_upload_dir env) (fr_path rq) of
              Inl _ \<Rightarrow> (Refused 400 ''invalid_path'', env, store)
            | Inr None \<Rightarrow> (Refused 400 ''invalid_path'', env, store)
            | Inr (Some p) \<Rightarrow>
                if \<not> path_exists (fe_fs env) p then (not_found, env, store)
                else if is_upload_root env p \<and> clear = Some ''true'' then clear_uploads_directory fails env store
                else if is_dir (fe_fs env) p then (Refused 400 ''invalid_field'', env, store)
                else if is_upload_descendant env p \<noteq> Some True then (Refused 403 ''forbidden'', env, store)
                else if \<not> unlink_ok then (Refused 500 ''internal_error'', env, store)
                else (let env1 = env\<lparr>fe_fs := dict_del p (fe_fs env)\<rparr>
                  in (Deleted_File p (path_name p) (upload_response_path env1 p), env1, registry_discard (path_text p) store))))"

subsection \<open>Basic upload\<close>

text \<open>\<open>str.isalnum\<close> on these code points: letters, digits, and the superscripts and fractions that count as numeric.\<close>

definition py_isalnum :: "char \<Rightarrow> bool" where
  "py_isalnum c \<longleftrightarrow> is_alnum c \<or> ord c \<in> {170, 178, 179, 181, 185, 186, 188, 189, 190} \<or> (192 \<le> ord c \<and> ord c \<noteq> 215 \<and> ord c \<noteq> 247)"

definition safe_char :: "char \<Rightarrow> bool" where "safe_char c \<longleftrightarrow> py_isalnum c \<or> one_of ''._- '' c"

text \<open>\<open>stamp\<close> is the text of the time in a generated name.\<close>

definition generated_upload_name :: "string \<Rightarrow> string" where "generated_upload_name stamp = ''upload_'' @ stamp"

definition sanitize_filename :: "string \<Rightarrow> string \<Rightarrow> string" where
  "sanitize_filename stamp filename =
     (let s = py_strip (collapse_double CHR ''.'' (filter safe_char filename)) in if s = [] then generated_upload_name stamp else s)"

definition BASIC_UPLOAD_COLLECTION_PATHS :: "string list" where
  "BASIC_UPLOAD_COLLECTION_PATHS = [''/'', ''/upload'', ''/api'', ''/file'']"

definition basic_url_filename :: "string \<Rightarrow> bool \<Rightarrow> string option" where
  "basic_url_filename url multipart =
     (if url \<in> set BASIC_UPLOAD_COLLECTION_PATHS then None
      else let t = rev (strip_slashes (rev url)); normalized = (if t = [] then ''/'' else t)
           in if multipart \<and> normalized = ''/uploads'' then None
              else let n = strip_by (\<lambda>c. c = CHR ''/'') url in if n = [] then None else Some (path_name (path_segments n)))"

record upload_plan =
  up_filename :: string
  up_payload :: bytes
  up_profile :: string
  up_source :: string
  up_content_type :: string

text \<open>The first part of \<open>_handle_basic_upload\<close>: what is stored, and under which name before it is made safe.\<close>

definition plan_upload ::
  "(string \<Rightarrow> string) \<Rightarrow> (string \<Rightarrow> bytes \<Rightarrow> multipart_error + multipart_file) \<Rightarrow> string \<Rightarrow> file_request \<Rightarrow> multipart_error + upload_plan"
where
  "plan_upload unquote parse_multipart stamp rq =
     (let content_type = fr_header ''content-type'' [] rq;
          is_multipart = (py_lower (py_strip (fst (cut_at CHR '';'' content_type))) = ''multipart/form-data'');
          header_name = fr_header ''x-file-name'' [] rq;
          from_header = (if header_name = [] then None else Some (unquote header_name, ''header''));
          from_url = map_option (\<lambda>n. (n, ''url'')) (basic_url_filename (fr_path rq) is_multipart);
          or_else = (\<lambda>a b. case a of None \<Rightarrow> b | Some x \<Rightarrow> Some x);
          pick = (\<lambda>c. case c of None \<Rightarrow> (generated_upload_name stamp, ''generated'') | Some x \<Rightarrow> x)
      in if is_multipart
         then (case parse_multipart content_type (fr_body rq) of
             Inl e \<Rightarrow> Inl e
           | Inr part \<Rightarrow>
               (let from_part = (if mf_filename part = [] then None else Some (mf_filename part, ''part''));
                    (n, src) = pick (or_else from_header (or_else from_part from_url))
                in Inr \<lparr>up_filename = n, up_payload = mf_payload part, up_profile = ''multipart'', up_source = src,
                     up_content_type = mf_content_type part\<rparr>))
         else (let (n, src) = pick (or_else from_header from_url)
           in Inr \<lparr>up_filename = n, up_payload = fr_body rq, up_profile = (if header_name = [] then ''raw_url'' else ''raw_header''),
                up_source = src, up_content_type = fr_header ''content-type'' ''application/octet-stream'' rq\<rparr>))"

text \<open>The circumstances of \<open>publish_bytes\<close>: the call's identity, the two readings of the disk, what other requests do to the service between the
  reservation and the commit, a failure to write the temporary file, the random suffixes, and the errors of the links.\<close>

record publish_env =
  pe_call :: nat
  pe_reserve :: disk_reading
  pe_commit :: disk_reading
  pe_between :: "upload_service \<Rightarrow> upload_service"
  pe_temp_error :: "storage_error option"
  pe_suffix :: "nat \<Rightarrow> string"
  pe_link_error :: "nat \<Rightarrow> storage_error option"

definition publish_bytes :: "publish_env \<Rightarrow> bool \<Rightarrow> string \<Rightarrow> bytes \<Rightarrow> upload_service \<Rightarrow> (storage_error + string) \<times> upload_service" where
  "publish_bytes pe in_upload_dir name content s =
     (case publish_begin (pe_reserve pe) (pe_call pe) in_upload_dir name content s of
        Inl e \<Rightarrow> (Inl e, s)
      | Inr s1 \<Rightarrow>
          (case pe_temp_error pe of
             Some e \<Rightarrow> (Inl e, publish_abort (pe_call pe) (pe_between pe s1))
           | None \<Rightarrow>
               (case publish_commit (pe_commit pe) (pe_call pe) 64 (pe_suffix pe) (pe_link_error pe) (pe_between pe s1) of
                  (s3, Some r) \<Rightarrow> (r, s3)
                | (s3, None) \<Rightarrow> (Inl Other_OSError, s3))))"

definition quota_error :: "storage_error \<Rightarrow> bool" where
  "quota_error e \<longleftrightarrow> e \<in> {Quota_Bytes, Quota_Files, Quota_Free_Space, Disk_Full}"

text \<open>\<open>_publish_ordinary_upload\<close>: a published file is an ordinary one, whatever was registered under its path.\<close>

definition handle_basic_upload ::
  "(string \<Rightarrow> string) \<Rightarrow> (string \<Rightarrow> bytes \<Rightarrow> multipart_error + multipart_file) \<Rightarrow> string \<Rightarrow> publish_env \<Rightarrow> path \<Rightarrow> file_request
     \<Rightarrow> upload_service \<times> artifact_store \<Rightarrow> file_answer \<times> upload_service \<times> artifact_store"
where
  "handle_basic_upload unquote parse_multipart stamp pe upload_dir rq st =
     (case plan_upload unquote parse_multipart stamp rq of
        Inl _ \<Rightarrow> (Refused 400 ''invalid_field'', st)
      | Inr plan \<Rightarrow>
          (let safe = sanitize_filename stamp (up_filename plan)
           in if up_payload plan = [] then (Refused 400 ''empty_payload'', st)
              else (case publish_bytes pe (butlast (join_path upload_dir safe) = upload_dir) safe (up_payload plan) (fst st) of
                  (Inl e, s1) \<Rightarrow>
                    ((if quota_error e then Refused 507 ''storage_quota_exceeded'' else Refused 500 ''internal_error''), s1, snd st)
                | (Inr published, s1) \<Rightarrow>
                    (Stored \<lparr>su_name = published, su_size = length (up_payload plan), su_profile = up_profile plan, su_source = up_source plan,
                       su_content_type = up_content_type plan, su_renamed = (published \<noteq> safe)\<rparr>,
                     s1, registry_discard (path_text (upload_dir @ [published])) (snd st)))))"

end
