(* ===== verification/File_Safety.thy ===== *)
theory File_Safety
  imports File_Handlers
begin

section \<open>Containment and round trip of the file handlers\<close>

text \<open>
  What the handlers of \<open>File_Handlers\<close> guarantee over any file system: what GET and FETCH serve, what DELETE removes, and when an
  acknowledged upload can be read back. \<open>server_fs\<close> is the file system of a server whose upload directory holds
  exactly what the upload service has published.
\<close>

subsection \<open>What is served lies inside\<close>

definition served_path :: "file_answer \<Rightarrow> path option" where
  "served_path a = (case a of App_Shell p \<Rightarrow> Some p | Sent p _ \<Rightarrow> p | _ \<Rightarrow> None)"

definition inside :: "file_env \<Rightarrow> path \<Rightarrow> path \<Rightarrow> bool" where
  "inside env base p \<longleftrightarrow> (\<exists>rt. resolve (fe_fs env) base = Some rt \<and> prefix rt p)"

lemma package_contained:
  assumes "package_resource env res = Some p"
  shows "physical (fe_fs env) p \<and> (\<exists>r \<in> set (fe_roots env). inside env r p)"
proof -
  obtain parts r where r: "r \<in> set (fe_roots env)" "contained_resource_path (fe_fs env) (r @ parts) r = Some p"
    using assms by (auto simp: package_resource_def get_package_resource_def find_Some_iff split: option.splits) (metis nth_mem)
  then have "\<exists>q rt. resolve (fe_fs env) (r @ parts) = Some p \<and> resolve (fe_fs env) r = Some rt \<and> prefix rt p"
    by (auto simp: contained_resource_path_def split: option.splits if_splits)
  then show ?thesis using r(1) resolve_physical by (auto simp: inside_def)
qed

lemma upload_contained:
  assumes "get_file_path (fe_fs env) (fe_upload_dir env) url = Inr (Some p)"
  shows "physical (fe_fs env) p \<and> inside env (fe_upload_dir env) p"
  using descendant_contained[OF assms[unfolded get_file_path_def]] by (auto simp: inside_def)

lemma with_index_cases:
  assumes "with_index fs p = Some q"
  shows "q = p \<or> (q = p @ [''index.html''] \<and> is_dir fs p)"
  using assms by (auto simp: with_index_def split: if_splits)

lemma served_by_serve:
  assumes "served_path (fst (serve_file env store rq p')) = Some p"
  shows "p = p'"
proof (cases "file_stat env p' = None \<or> is_upload_descendant env p' = None")
  case True
  then show ?thesis using assms by (auto simp: serve_file_def served_path_def split: option.splits)
next
  case False
  then obtain st up where "file_stat env p' = Some st" "is_upload_descendant env p' = Some up"
    by (cases "file_stat env p'"; cases "is_upload_descendant env p'") auto
  then show ?thesis using assms by (simp add: serve_file_def served_path_def not_found_def Let_def split: prod.splits if_splits)
qed

lemma get_source_contained:
  assumes "get_source env url = Inr (Some d)"
  shows "physical (fe_fs env) d \<and> (\<exists>base \<in> insert (fe_upload_dir env) (set (fe_roots env)). inside env base d)"
proof (cases "get_file_path (fe_fs env) (fe_upload_dir env) url = Inr (Some d)")
  case False
  then obtain res where "package_resource env res = Some d" using assms by (auto simp: get_source_def Let_def split: if_splits)
  then show ?thesis using package_contained by blast
qed (use upload_contained in blast)

lemma resolve_get_cases:
  assumes "resolve_get_path env url = Inr (Some p)"
  shows "\<exists>d. get_source env url = Inr (Some d) \<and> with_index (fe_fs env) d = Some p"
  using assms by (cases "get_source env url") (auto simp: resolve_get_path_def split: if_splits bind_splits)

lemma served_by_get:
  assumes "served_path (fst (handle_get env store rq)) = Some p"
  shows "\<exists>d. (p = d \<or> (p = d @ [''index.html''] \<and> is_dir (fe_fs env) d)) \<and> physical (fe_fs env) d \<and>
    (\<exists>base \<in> insert (fe_upload_dir env) (set (fe_roots env)). inside env base d)"
proof -
  obtain p' where p': "resolve_get_path env (fr_path rq) = Inr (Some p')" "served_path (fst (serve_file env store rq p')) = Some p"
    using assms by (auto simp: handle_get_def served_path_def not_found_def split: if_splits sum.splits option.splits)
  have "p = p'" using p'(2) by (rule served_by_serve)
  moreover obtain d where "get_source env (fr_path rq) = Inr (Some d)" "with_index (fe_fs env) d = Some p'"
    using resolve_get_cases[OF p'(1)] by blast
  ultimately show ?thesis using with_index_cases[of "fe_fs env" d p'] get_source_contained[of env "fr_path rq" d] by blast
qed

lemma served_by_fetch:
  assumes "served_path (handle_fetch env rq) = Some p"
  shows "physical (fe_fs env) p \<and> inside env (fe_upload_dir env) p"
proof (rule upload_contained)
  show "get_file_path (fe_fs env) (fe_upload_dir env) (fr_path rq) = Inr (Some p)"
    using assms by (auto simp: handle_fetch_def served_path_def not_found_def Let_def split: if_splits sum.splits option.splits)
qed

lemma plain_index_reached:
  assumes d: "physical fs d" "is_dir fs d" and i: "\<not> is_symlink fs (d @ [i])" "i \<noteq> ''..''" and q: "reached fs (d @ [i]) = Some q"
  shows "q = d @ [i]"
proof -
  obtain q' where "reached fs d = Some q'" using d(2) by (auto simp: is_dir_def stat_of_def split: bind_splits)
  then have "walk fs [] d True = Some d" using reached_resolved[OF d(1)] by (auto simp: reached_def split: option.splits if_splits)
  then have "link_target (dict_get fs (d @ [i])) = None" using i by (simp add: is_symlink_def)
  then have "physical fs (d @ [i])" using d(1) i(2) by (simp add: physical_snoc)
  then show ?thesis using reached_resolved q by blast
qed

text \<open>C8. What is served lies inside. Whatever the file system with its symbolic links looks like, the file that the answer to a GET or FETCH
  is read from is, after all links, a file below the upload directory or (for GET) below a root of the bundled
  resources; with one exception: a GET of a directory whose \<open>index.html\<close> is a symbolic link reads what the link points to.\<close>

theorem served_files_contained:
  assumes "a = fst (handle_get env store rq) \<or> a = handle_fetch env rq"
    and "served_path a = Some p" and "reached (fe_fs env) p = Some q"
  shows "physical (fe_fs env) q \<and>
    ((\<exists>base \<in> insert (fe_upload_dir env) (set (fe_roots env)). inside env base q) \<or>
     (a \<noteq> handle_fetch env rq \<and> (\<exists>d. p = d @ [''index.html''] \<and> is_dir (fe_fs env) d \<and> is_symlink (fe_fs env) p)))"
proof (cases "a = handle_fetch env rq")
  case True
  then have "physical (fe_fs env) p" "inside env (fe_upload_dir env) p" using served_by_fetch assms(2) by auto
  then show ?thesis using reached_resolved assms(3) by auto
next
  case False
  then obtain d where d: "p = d \<or> (p = d @ [''index.html''] \<and> is_dir (fe_fs env) d)" "physical (fe_fs env) d"
    "\<exists>base \<in> insert (fe_upload_dir env) (set (fe_roots env)). inside env base d"
    using served_by_get assms(1,2) by metis
  have "physical (fe_fs env) q" using reached_physical assms(3) by blast
  moreover have "q = p" if "p = d \<or> \<not> is_symlink (fe_fs env) p"
    using that d(1) reached_resolved[OF d(2)] plain_index_reached[OF d(2), of "''index.html''"] assms(3) by auto
  moreover have "inside env base (d @ x)" if "inside env base d" for base x using that by (auto simp: inside_def)
  ultimately show ?thesis using False d(1,3) by blast
qed

lemma walk_strict:
  assumes "walk fs p rest strict = Some q"
  shows "walk fs p rest False = Some q"
proof (rule walk.raw_induct[where P = "\<lambda>fs p rest strict q. walk fs p rest False = Some q", OF _ assms])
  fix w fs p rest strict q
  assume ih: "\<And>fs p rest strict q. w fs p rest strict = Some q \<Longrightarrow> walk fs p rest False = Some q"
    and step: "(case rest of [] \<Rightarrow> Some p | s # r \<Rightarrow>
        if strict \<and> node_at fs p \<noteq> Some Dir_Node then None
        else if s = ''..'' then w fs (butlast p) r strict
        else (case link_target (dict_get fs (p @ [s])) of
            None \<Rightarrow> w fs (p @ [s]) r strict
          | Some t \<Rightarrow> w fs (if is_absolute t then [] else p) (path_segments t @ r) strict)) = Some q"
  show "walk fs p rest False = Some q"
    using step by (subst walk.simps) (auto split: list.splits if_splits option.splits dest: ih)
qed

lemma reached_resolves: "reached fs p = Some q \<Longrightarrow> resolve fs p = Some q"
  by (auto simp: reached_def resolve_def split: option.splits if_splits dest: walk_strict)

lemma reached_node: "reached fs p = Some q \<Longrightarrow> node_at fs q \<noteq> None"
  by (auto simp: reached_def split: option.splits if_splits)

text \<open>C9. A linked \<open>index.html\<close> escapes. When a request names a directory, its \<open>index.html\<close> is opened without being resolved: if it is a
  symbolic link, GET serves the file behind the link, wherever that is, although the same link is refused when
  it is requested by its own path.\<close>

theorem index_link_is_followed:
  assumes "get_source env (fr_path rq) = Inr (Some d)" "\<not> is_hidden_file (fr_path rq)" "fr_path rq \<noteq> ''/metrics''"
    and "is_dir (fe_fs env) d" "reached (fe_fs env) (d @ [''index.html'']) = Some q"
    and "path_text (d @ [''index.html'']) \<notin> as_paths store" "fr_header ''if-none-match'' [] rq = []"
    and "resolve (fe_fs env) (fe_upload_dir env) = Some rt"
  shows "\<exists>p. served_path (fst (handle_get env store rq)) = Some p \<and> reached (fe_fs env) p = Some q"
proof -
  let ?fs = "fe_fs env" and ?i = "d @ [''index.html'']"
  obtain n where n: "node_at ?fs q = Some n" using reached_node[OF assms(5)] by blast
  have "path_exists ?fs d" "path_exists ?fs ?i" using assms(4,5) n by (auto simp: path_exists_def stat_of_def is_dir_def)
  then have p: "resolve_get_path env (fr_path rq) = Inr (Some ?i)"
    using assms(1,2,4) by (simp add: resolve_get_path_def with_index_def)
  have "file_stat env ?i \<noteq> None" using assms(5) n by (cases n) (auto simp: file_stat_def stat_of_def)
  moreover have "is_upload_descendant env ?i = Some (prefix rt q)"
    using assms(8) reached_resolves[OF assms(5)] by (simp add: is_upload_descendant_def)
  ultimately have "served_path (fst (serve_file env store rq ?i)) = Some ?i"
    using assms(6,7) by (auto simp: serve_file_def served_path_def Let_def)
  then show ?thesis using assms(3,5) p by (auto simp: handle_get_def)
qed

definition demo_file_env :: file_env where
  "demo_file_env = \<lparr>fe_fs = [([''srv''], Dir_Node), ([''srv'', ''up''], Dir_Node), ([''srv'', ''up'', ''d''], Dir_Node),
       ([''srv'', ''up'', ''d'', ''index.html''], Link_Node ''/etc/key''), ([''srv'', ''up'', ''a.txt''], File_Node [7] 0),
       ([''etc''], Dir_Node), ([''etc'', ''key''], File_Node [1, 2, 3] 0)],
     fe_upload_dir = [''srv'', ''up''], fe_safe_parts = (\<lambda>_. None), fe_roots = [], fe_mime = (\<lambda>_. None), fe_date = (\<lambda>_. []),
     fe_dir_stat = (0, 0)\<rparr>"

definition demo_file_request :: "string \<Rightarrow> file_request" where
  "demo_file_request url = \<lparr>fr_path = url, fr_query = [], fr_versioned = False, fr_headers = [], fr_body = []\<rparr>"

definition no_artifacts :: artifact_store where "no_artifacts = \<lparr>as_dir = [], as_paths = {}, as_claimed = {}\<rparr>"

lemmas path_evaluation = get_source_def get_file_path_def resolve_descendant_path_def resolve_def reached_def stat_of_def path_exists_def
  is_dir_def is_symlink_def join_path_def path_segments_def is_absolute_def upload_clean_path_def strip_slashes_def node_at_def
  nul_char_def walk.simps

lemma index_link_is_followed_witness:
  "(\<exists>p. served_path (fst (handle_get demo_file_env no_artifacts (demo_file_request ''/uploads/d''))) = Some p \<and>
      reached (fe_fs demo_file_env) p = Some [''etc'', ''key'']) \<and>
   fst (handle_get demo_file_env no_artifacts (demo_file_request ''/uploads/d/index.html'')) = not_found"
proof (rule conjI)
  show "\<exists>p. served_path (fst (handle_get demo_file_env no_artifacts (demo_file_request ''/uploads/d''))) = Some p \<and>
      reached (fe_fs demo_file_env) p = Some [''etc'', ''key'']"
    by (rule index_link_is_followed[where d = "[''srv'', ''up'', ''d'']" and rt = "[''srv'', ''up'']"])
      (simp_all add: path_evaluation demo_file_env_def demo_file_request_def no_artifacts_def is_hidden_file_def hidden_part_def HIDDEN_FILES_def
        fr_header_def)
  show "fst (handle_get demo_file_env no_artifacts (demo_file_request ''/uploads/d/index.html'')) = not_found"
    by (simp add: handle_get_def resolve_get_path_def path_evaluation demo_file_env_def demo_file_request_def is_hidden_file_def hidden_part_def
        HIDDEN_FILES_def)
qed

subsection \<open>What DELETE touches\<close>

lemma clear_fields_Some:
  "clear_fields None [] kvs = Inr (Some v) \<longleftrightarrow> kvs = [(''clear'', v)] \<and> v \<in> {''true'', ''false''}"
proof (cases kvs)
  case (Cons kv rest)
  have rest: "clear_fields (Some w) [''clear''] rest = Inr x \<longleftrightarrow> rest = [] \<and> x = Some w" for w x
    by (cases rest) (auto split: if_splits)
  show ?thesis unfolding Cons by (cases kv) (auto simp: rest)
qed simp

lemma clear_query_iff:
  "parse_delete_clear_query unquote q = Inr (Some ''true'') \<longleftrightarrow>
     [] \<notin> set (py_split CHR ''&'' q) \<and> map (query_pair unquote) (py_split CHR ''&'' q) = [(''clear'', ''true'')]"
proof (cases "[] \<in> set (py_split CHR ''&'' q)")
  case False
  then have "filter (\<lambda>f. f \<noteq> []) (py_split CHR ''&'' q) = py_split CHR ''&'' q" by (simp add: filter_id_conv) (metis)
  then show ?thesis using False by (auto simp: parse_delete_clear_query_def parse_qsl_def clear_fields_Some)
qed (auto simp: parse_delete_clear_query_def parse_qsl_def)

lemma clear_all_removed:
  assumes "n \<in> fst ` set (cs_removed (clear_all fails entries)) \<union> fst ` set (cs_partial (clear_all fails entries))"
  shows "\<not> prefix ''.'' n \<and> n \<notin> set HIDDEN_FILES"
proof -
  let ?gone = "\<lambda>c. fst ` set (cs_removed c) \<union> fst ` set (cs_partial c)"
  have "n \<in> ?gone (fold (clear_upload_entry fails) es c) \<longrightarrow> n \<in> ?gone c \<or> (\<not> prefix ''.'' n \<and> n \<notin> set HIDDEN_FILES)" for es c
  proof (induction es arbitrary: c)
    case (Cons e es)
    have "n \<in> ?gone (clear_upload_entry fails e c) \<longrightarrow> n \<in> ?gone c \<or> (\<not> prefix ''.'' n \<and> n \<notin> set HIDDEN_FILES)"
      by (cases e) (auto simp: clear_upload_entry_def Let_def split: if_splits option.splits)
    then show ?case using Cons.IH[of "clear_upload_entry fails e c"] by auto
  qed simp
  from this[of entries "\<lparr>cs_files = 0, cs_dirs = 0, cs_preserved = [], cs_failures = [], cs_removed = [], cs_partial = []\<rparr>"] assms
  show ?thesis unfolding clear_all_def by simp blast
qed

lemma dict_get_without_below:
  "dict_get (without_below ps fs) p = (if list_ex (\<lambda>q. prefix q p) ps then None else dict_get fs p)"
  by (induction fs) (auto simp: without_below_def)

lemma dict_get_without_partly:
  assumes "dict_get (without_partly ps fs) p \<noteq> dict_get fs p"
  shows "\<exists>(q, gone) \<in> set ps. strict_prefix q p"
proof (rule ccontr)
  assume no: "\<not> (\<exists>(q, gone) \<in> set ps. strict_prefix q p)"
  have "dict_get (filter P fs') p = dict_get fs' p" if "\<And>x. P (p, x)" for P and fs' :: file_system
    using that by (induction fs') auto
  from this[of "\<lambda>(p, _). \<not> list_ex (\<lambda>(q, gone). strict_prefix q p \<and> list_all (\<lambda>(r, _). prefix p r \<longrightarrow> gone r) fs) ps" fs] no
  have "dict_get (without_partly ps fs) p = dict_get fs p" unfolding without_partly_def by (fastforce simp: list_ex_iff)
  then show False using assms by simp
qed

lemma clear_touches:
  assumes "clear_uploads_directory fails env store = (a, env1, store1)" "resolve (fe_fs env) (fe_upload_dir env) = Some rt"
    and "dict_get (fe_fs env1) p \<noteq> dict_get (fe_fs env) p"
  shows "strict_prefix rt p \<and> \<not> prefix ''.'' (p ! length rt) \<and> p ! length rt \<notin> set HIDDEN_FILES"
proof -
  obtain d where d: "reached (fe_fs env) (fe_upload_dir env) = Some d" "d = rt"
  proof (cases "reached (fe_fs env) (fe_upload_dir env)")
    case None
    then show ?thesis using assms(1,3) by (auto simp: clear_uploads_directory_def)
  next
    case (Some d)
    then show ?thesis using reached_resolves[OF Some] assms(2) that by simp
  qed
  let ?c = "clear_all fails (dir_children (fe_fs env) d)"
  let ?fs = "without_below (map (\<lambda>(n, _). d @ [n]) (cs_removed ?c)) (fe_fs env)"
  have fs: "fe_fs env1 = without_partly (map (\<lambda>(n, gone). (d @ [n], gone)) (cs_partial ?c)) ?fs"
    using assms(1) unfolding clear_uploads_directory_def d(1) option.case Let_def prod.inject by (elim conjE) (erule subst, simp)
  obtain n where n: "n \<in> fst ` set (cs_removed ?c) \<union> fst ` set (cs_partial ?c)" "prefix (d @ [n]) p"
  proof (cases "dict_get (fe_fs env1) p = dict_get ?fs p")
    case True
    then show ?thesis using assms(3) that by (fastforce simp: dict_get_without_below list_ex_iff split: if_splits)
  next
    case False
    obtain q where "q \<in> set (map (\<lambda>(n, gone). (d @ [n], gone)) (cs_partial ?c))" "strict_prefix (fst q) p"
      using dict_get_without_partly[OF False[unfolded fs]] by fastforce
    then show ?thesis using that by (force simp: strict_prefix_def)
  qed
  obtain r where "p = d @ n # r" using n(2) by (auto elim!: prefixE)
  then show ?thesis using clear_all_removed[OF n(1)] d(2) by (auto simp: strict_prefix_def)
qed

text \<open>C27. What DELETE touches. Whatever the request and the symbolic links, a DELETE changes the file system only strictly below the
  upload directory: either at the one file that the request names, or, when the query is the single field \<open>clear=true\<close>
  and the path is the upload directory itself, in entries that are not hidden.\<close>

theorem delete_touches_only_the_named:
  assumes "handle_delete unquote fails unlink_ok env store rq = (a, env1, store1)"
    and "resolve (fe_fs env) (fe_upload_dir env) = Some rt" "node_at (fe_fs env) rt = Some Dir_Node"
    and "dict_get (fe_fs env1) p \<noteq> dict_get (fe_fs env) p"
  shows "strict_prefix rt p \<and> \<not> is_hidden_file (fr_path rq) \<and>
    ((get_file_path (fe_fs env) (fe_upload_dir env) (fr_path rq) = Inr (Some p) \<and> a = Deleted_File p (path_name p) (upload_response_path env1 p)) \<or>
     (get_file_path (fe_fs env) (fe_upload_dir env) (fr_path rq) = Inr (Some rt) \<and>
      map (query_pair unquote) (py_split CHR ''&'' (fr_query rq)) = [(''clear'', ''true'')] \<and>
      \<not> prefix ''.'' (p ! length rt) \<and> p ! length rt \<notin> set HIDDEN_FILES))"
proof -
  have changed: "env1 \<noteq> env" using assms(4) by auto
  then obtain clear f where f: "parse_delete_clear_query unquote (fr_query rq) = Inr clear" "\<not> is_hidden_file (fr_path rq)"
    "get_file_path (fe_fs env) (fe_upload_dir env) (fr_path rq) = Inr (Some f)" "path_exists (fe_fs env) f"
    using assms(1) unfolding handle_delete_def by (auto split: sum.splits option.splits if_splits)
  have phys: "physical (fe_fs env) f" "prefix rt f" using upload_contained[OF f(3)] assms(2) by (auto simp: inside_def)
  have self: "resolve (fe_fs env) f = Some f" by (rule resolve_id[OF phys(1)])
  show ?thesis
  proof (cases "is_upload_root env f \<and> clear = Some ''true''")
    case True
    then have "f = rt" using self assms(2) by (simp add: is_upload_root_def)
    moreover have "clear_uploads_directory fails env store = (a, env1, store1)" using assms(1) f True by (simp add: handle_delete_def)
    ultimately show ?thesis using clear_touches[OF _ assms(2,4)] f True clear_query_iff[of unquote "fr_query rq"] by auto
  next
    case False
    then have nd: "\<not> is_dir (fe_fs env) f" "a = Deleted_File f (path_name f) (upload_response_path env1 f)" "fe_fs env1 = dict_del f (fe_fs env)"
      using assms(1) f changed by (auto simp: handle_delete_def Let_def split: if_splits)
    obtain q where "reached (fe_fs env) f = Some q" using f(4) by (auto simp: path_exists_def stat_of_def split: bind_splits)
    then have "reached (fe_fs env) f = Some f" using reached_resolved[OF phys(1)] by auto
    then have "f \<noteq> rt" using nd(1) assms(3) by (auto simp: is_dir_def stat_of_def)
    moreover have "p = f" using assms(4) nd(3) by (auto split: if_splits)
    ultimately show ?thesis using phys(2) f nd(2) by (simp add: strict_prefix_def)
  qed
qed

lemmas handler_evaluation = path_evaluation demo_file_env_def demo_file_request_def no_artifacts_def is_hidden_file_def hidden_part_def HIDDEN_FILES_def
  fr_header_def

lemma served_files_contained_witness:
  "physical (fe_fs demo_file_env) [''srv'', ''up'', ''a.txt''] \<and>
    ((\<exists>base \<in> insert (fe_upload_dir demo_file_env) (set (fe_roots demo_file_env)). inside demo_file_env base [''srv'', ''up'', ''a.txt'']) \<or>
     (handle_fetch demo_file_env (demo_file_request ''/uploads/a.txt'') \<noteq> handle_fetch demo_file_env (demo_file_request ''/uploads/a.txt'') \<and>
      (\<exists>d. [''srv'', ''up'', ''a.txt''] = d @ [''index.html''] \<and> is_dir (fe_fs demo_file_env) d \<and> is_symlink (fe_fs demo_file_env) [''srv'', ''up'', ''a.txt''])))"
proof (rule served_files_contained)
  show "handle_fetch demo_file_env (demo_file_request ''/uploads/a.txt'') = fst (handle_get demo_file_env no_artifacts (demo_file_request ''/uploads/a.txt'')) \<or>
      handle_fetch demo_file_env (demo_file_request ''/uploads/a.txt'') = handle_fetch demo_file_env (demo_file_request ''/uploads/a.txt'')" by simp
  show "served_path (handle_fetch demo_file_env (demo_file_request ''/uploads/a.txt'')) = Some [''srv'', ''up'', ''a.txt'']"
    by (simp add: handler_evaluation handle_fetch_def served_path_def file_stat_def Let_def)
  show "reached (fe_fs demo_file_env) [''srv'', ''up'', ''a.txt''] = Some [''srv'', ''up'', ''a.txt'']"
    by (simp add: handler_evaluation)
qed

lemma delete_touches_only_the_named_witness:
  "case handle_delete id (\<lambda>_. None) True demo_file_env no_artifacts (demo_file_request ''/uploads/a.txt'') of
     (a, env1, store1) \<Rightarrow> strict_prefix [''srv'', ''up''] [''srv'', ''up'', ''a.txt''] \<and> \<not> is_hidden_file (fr_path (demo_file_request ''/uploads/a.txt'')) \<and>
       (get_file_path (fe_fs demo_file_env) (fe_upload_dir demo_file_env) ''/uploads/a.txt'' = Inr (Some [''srv'', ''up'', ''a.txt'']) \<and>
         a = Deleted_File [''srv'', ''up'', ''a.txt''] ''a.txt'' (upload_response_path env1 [''srv'', ''up'', ''a.txt'']))"
proof -
  let ?rq = "demo_file_request ''/uploads/a.txt''" and ?f = "[''srv'', ''up'', ''a.txt'']"
  obtain a env1 store1 where h: "handle_delete id (\<lambda>_. None) True demo_file_env no_artifacts ?rq = (a, env1, store1)"
    by (rule prod_cases3)
  have up: "resolve (fe_fs demo_file_env) (fe_upload_dir demo_file_env) = Some [''srv'', ''up'']"
    "node_at (fe_fs demo_file_env) [''srv'', ''up''] = Some Dir_Node" by (simp_all add: handler_evaluation)
  have g: "get_file_path (fe_fs demo_file_env) (fe_upload_dir demo_file_env) (fr_path ?rq) = Inr (Some ?f)" by (simp add: handler_evaluation)
  have "env1 = demo_file_env\<lparr>fe_fs := dict_del ?f (fe_fs demo_file_env)\<rparr>"
    using h by (simp add: handle_delete_def parse_delete_clear_query_def parse_qsl_def is_upload_root_def is_upload_descendant_def
        handler_evaluation Let_def)
  then have "dict_get (fe_fs env1) ?f \<noteq> dict_get (fe_fs demo_file_env) ?f" by (simp add: demo_file_env_def)
  from delete_touches_only_the_named[OF h up this] g show ?thesis unfolding h by (simp add: path_name_def demo_file_request_def)
qed

subsection \<open>Names of uploads\<close>

definition safe_name :: "string \<Rightarrow> bool" where
  "safe_name s \<longleftrightarrow> s \<noteq> [] \<and> list_all safe_char s \<and> \<not> has_double CHR ''.'' s"

lemma sanitized_safe:
  assumes "safe_name (generated_upload_name stamp)"
  shows "safe_name (sanitize_filename stamp s)"
proof -
  let ?c = "collapse_double CHR ''.'' (filter safe_char s)"
  obtain a b where ab: "?c = a @ py_strip ?c @ b" using strip_split[of ?c is_space] by (auto simp: py_strip_def)
  have "set (py_strip ?c) \<subseteq> set ?c" by (subst (2) ab) auto
  then have "list_all safe_char (py_strip ?c)" using collapse_double_safe[of "CHR ''.''" "filter safe_char s"] by (auto simp: list_all_iff)
  moreover have "\<not> has_double CHR ''.'' (py_strip ?c)"
    using collapse_double_safe[of "CHR ''.''" "filter safe_char s"] ab has_double_append by metis
  ultimately show ?thesis using assms by (simp add: sanitize_filename_def Let_def safe_name_def)
qed

text \<open>A name that is one segment of a path.\<close>

definition plain_name :: "string \<Rightarrow> bool" where
  "plain_name n \<longleftrightarrow> n \<notin> {[], ''.'', ''..''} \<and> CHR ''/'' \<notin> set n \<and> CHR 0x5C \<notin> set n \<and> nul_char \<notin> set n"

lemma safe_chars_plain: "list_all safe_char n \<Longrightarrow> CHR ''/'' \<notin> set n \<and> CHR 0x5C \<notin> set n \<and> nul_char \<notin> set n"
  by (auto simp: list_all_iff safe_char_def py_isalnum_def is_alnum_def is_digit_def ascii_upper_def one_of_def nul_char_def)

lemma safe_name_plain: "safe_name n \<Longrightarrow> n \<noteq> ''.'' \<Longrightarrow> plain_name n"
  using safe_chars_plain[of n] by (auto simp: plain_name_def safe_name_def)

lemma rsplit_dot_parts:
  assumes "rsplit_dot s = Some (a, b)"
  shows "s = a @ ''.'' @ b"
proof -
  have d: "CHR ''.'' \<in> set s" "a = rev (tl (dropWhile (\<lambda>c. c \<noteq> CHR ''.'') (rev s)))" "b = rev (takeWhile (\<lambda>c. c \<noteq> CHR ''.'') (rev s))"
    using assms by (auto simp: rsplit_dot_def split: if_splits)
  let ?d = "dropWhile (\<lambda>c. c \<noteq> CHR ''.'') (rev s)"
  have "?d \<noteq> []" using d(1) by (auto simp: dropWhile_eq_Nil_conv)
  then have "hd ?d = CHR ''.''" using hd_dropWhile by blast
  then have "?d = CHR ''.'' # tl ?d" using \<open>?d \<noteq> []\<close> by (metis list.collapse)
  then have "rev s = takeWhile (\<lambda>c. c \<noteq> CHR ''.'') (rev s) @ CHR ''.'' # tl ?d" by (metis takeWhile_dropWhile_id)
  then have "s = rev (takeWhile (\<lambda>c. c \<noteq> CHR ''.'') (rev s) @ CHR ''.'' # tl ?d)" by (metis rev_rev_ident)
  then show ?thesis using d(2,3) by simp
qed

lemma unique_suffix_plain:
  assumes "list_all safe_char name" "list_all safe_char sfx"
  shows "plain_name (filename_with_unique_suffix sfx name)"
proof -
  have us: "CHR ''_'' \<in> set (filename_with_unique_suffix sfx name)"
    by (auto simp: filename_with_unique_suffix_def split: option.splits)
  have "list_all safe_char (filename_with_unique_suffix sfx name)"
  proof (cases "rsplit_dot name")
    case (Some ab)
    obtain a b where ab: "ab = (a, b)" by (cases ab)
    have "list_all safe_char (a @ ''.'' @ b)" using assms(1) rsplit_dot_parts[of name a b] Some ab by simp
    then show ?thesis using assms(2) Some ab by (auto simp: filename_with_unique_suffix_def safe_char_def one_of_def)
  qed (use assms in \<open>auto simp: filename_with_unique_suffix_def safe_char_def one_of_def\<close>)
  moreover have "n \<notin> {[], ''.'', ''..''}" if "CHR ''_'' \<in> set n" for n using that by auto
  ultimately show ?thesis using us safe_chars_plain by (auto simp: plain_name_def)
qed

lemma hex_safe: "list_all is_lower_hex s \<Longrightarrow> list_all safe_char s"
  by (auto simp: list_all_iff safe_char_def py_isalnum_def is_alnum_def is_lower_hex_def)

subsection \<open>An acknowledged upload\<close>

lemma link_loop_name:
  "link_loop n i sfx err name cand content entries files = Inr (p, files') \<Longrightarrow>
     p \<noteq> ''..'' \<and> (p = cand \<or> (\<exists>j. p = filename_with_unique_suffix (sfx j) name))"
  by (induction n arbitrary: i cand) (auto split: option.splits if_splits)

lemma published_facts:
  assumes "publish_bytes pe ok name content s = (Inr n, s')"
    and "\<And>s1. dict_get (us_inflight (pe_between pe s1)) (pe_call pe) = dict_get (us_inflight s1) (pe_call pe)"
  shows "ok \<and> dict_get (us_files s') n = Some content \<and> n \<noteq> ''..'' \<and> (n = name \<or> (\<exists>j. n = filename_with_unique_suffix (pe_suffix pe j) name))"
proof -
  obtain s1 where s1: "publish_begin (pe_reserve pe) (pe_call pe) ok name content s = Inr s1" "pe_temp_error pe = None"
    "publish_commit (pe_commit pe) (pe_call pe) 64 (pe_suffix pe) (pe_link_error pe) (pe_between pe s1) = (s', Some (Inr n))"
    using assms(1) by (auto simp: publish_bytes_def split: sum.splits option.splits prod.splits)
  have b: "ok" "dict_get (us_inflight s1) (pe_call pe) = Some (name, content)"
    using s1(1) by (auto simp: publish_begin_def split: if_splits sum.splits)
  then have "dict_get (us_inflight (pe_between pe s1)) (pe_call pe) = Some (name, content)" using assms(2) by simp
  then obtain k entries files0 files where l: "link_loop k 0 (pe_suffix pe) (pe_link_error pe) name name content entries files0 = Inr (n, files)" "us_files s' = files"
    using s1(3) by (auto simp: publish_commit_def Let_def split: sum.splits prod.splits)
  then show ?thesis using b(1) link_loop_result[OF l(1)] link_loop_name[OF l(1)] by auto
qed

text \<open>The file system of a server whose upload directory holds what the service has published.\<close>

definition server_fs :: "file_system \<Rightarrow> path \<Rightarrow> (string \<Rightarrow> nat) \<Rightarrow> upload_service \<Rightarrow> file_system" where
  "server_fs base upload_dir mtime s = base @ map (\<lambda>(n, c). (upload_dir @ [n], File_Node c (mtime n))) (us_files s)"

definition clean_base :: "file_system \<Rightarrow> path \<Rightarrow> bool" where
  "clean_base base d \<longleftrightarrow> d \<noteq> [] \<and> fs_ok base \<and> physical base d \<and> dict_get base d = Some Dir_Node \<and>
     (\<forall>p. strict_prefix d p \<longrightarrow> dict_get base p = None)"

lemma server_fs_get:
  assumes "clean_base base d"
  shows "dict_get (server_fs base d mtime s) p =
    (if p \<noteq> [] \<and> butlast p = d then map_option (\<lambda>c. File_Node c (mtime (last p))) (dict_get (us_files s) (last p)) else dict_get base p)"
proof -
  let ?f = "map (\<lambda>(n, c). (d @ [n], File_Node c (mtime n))) (us_files s)"
  have "dict_get (map (\<lambda>(n, c). (d @ [n], File_Node c (mtime n))) fs) (d @ [n]) = map_option (\<lambda>c. File_Node c (mtime n)) (dict_get fs n)" for n fs
    by (induction fs) auto
  note one = this[of "us_files s"]
  have other: "dict_get ?f p = None" if "p = [] \<or> butlast p \<noteq> d" using that by (auto simp: map_of_eq_None_iff)
  show ?thesis
  proof (cases "p \<noteq> [] \<and> butlast p = d")
    case True
    then have p: "p = d @ [last p]" by (metis append_butlast_last_id)
    then have "strict_prefix d p" by (metis strict_prefixI' append_Cons append_Nil)
    then have "dict_get base p = None" using assms by (simp add: clean_base_def)
    then show ?thesis using True one[of "last p"] p by (simp add: server_fs_def map_add_def)
  next
    case False
    then have "dict_get ?f p = None" by (intro other) blast
    then show ?thesis using False by (auto simp: server_fs_def map_add_def split: option.splits)
  qed
qed

lemma butlast_irrefl: "d \<noteq> [] \<Longrightarrow> butlast d \<noteq> d"
  by (metis append_butlast_last_id append_self_conv not_Cons_self)

lemma server_fs_ok:
  assumes "clean_base base d"
  shows "fs_ok (server_fs base d mtime s)"
  unfolding fs_ok_def
proof (intro allI impI)
  fix p t
  let ?fs = "server_fs base d mtime s"
  assume t: "dict_get ?fs (p @ [t]) \<noteq> None"
  have sp: "strict_prefix d p" if "p \<noteq> []" "butlast p = d" using that by (metis append_butlast_last_id strict_prefixI' append_Cons append_Nil)
  show "node_at ?fs p = Some Dir_Node"
  proof (cases "p = d")
    case True
    then have "\<not> (p \<noteq> [] \<and> butlast p = d)" using assms butlast_irrefl by (auto simp: clean_base_def)
    then show ?thesis using True assms by (auto simp: node_at_def server_fs_get clean_base_def)
  next
    case False
    then have b: "dict_get base (p @ [t]) \<noteq> None" using t assms by (simp add: server_fs_get)
    have np: "\<not> prefix d p"
    proof
      assume "prefix d p"
      then have "strict_prefix d (p @ [t])" by (simp add: strict_prefix_def) (metis prefix_length_le length_append_singleton not_less_eq_eq le_refl)
      then show False using b assms by (simp add: clean_base_def)
    qed
    have "node_at base p = Some Dir_Node" using b assms by (auto simp: clean_base_def fs_ok_def)
    then show ?thesis using np sp assms by (auto simp: node_at_def server_fs_get strict_prefix_def)
  qed
qed

lemma server_fs_path:
  assumes "clean_base base d" "plain_name n" "dict_get (us_files s) n = Some c"
  shows "node_at (server_fs base d mtime s) (d @ [n]) = Some (File_Node c (mtime n))"
    "physical (server_fs base d mtime s) (d @ [n])" "resolve (server_fs base d mtime s) d = Some d"
proof -
  let ?fs = "server_fs base d mtime s"
  show n: "node_at ?fs (d @ [n]) = Some (File_Node c (mtime n))" using assms by (simp add: node_at_def server_fs_get)
  have d: "physical ?fs d"
    unfolding physical_def
  proof (intro conjI allI impI)
    show "''..'' \<notin> set d" using assms(1) by (simp add: clean_base_def physical_def)
    fix q t assume q: "prefix (q @ [t]) d"
    then have "q \<noteq> d" by (metis append_self_conv not_Cons_self prefix_length_le length_append_singleton not_less_eq_eq le_refl)
    then show "link_target (dict_get ?fs (q @ [t])) = None" using q assms(1) by (auto simp: server_fs_get clean_base_def physical_def)
  qed
  then show "physical ?fs (d @ [n])" using assms n by (auto simp: physical_snoc plain_name_def node_at_def)
  show "resolve ?fs d = Some d" using d by (rule resolve_id)
qed

lemma plain_segments: "plain_name n \<Longrightarrow> path_segments n = [n]"
  by (auto simp: path_segments_def plain_name_def py_split_no_sep)

lemma plain_not_absolute: "plain_name n \<Longrightarrow> \<not> is_absolute n"
  by (cases n) (auto simp: is_absolute_def plain_name_def)

lemma upload_url_clean: "upload_clean_path (''/uploads/'' @ n) = n"
  by (simp add: upload_clean_path_def strip_slashes_def Let_def)

lemma upload_url_hidden: "plain_name n \<Longrightarrow> is_hidden_file (''/uploads/'' @ n) = hidden_part n"
proof -
  assume n: "plain_name n"
  let ?f = "\<lambda>c. if c = CHR 0x5C then CHR ''/'' else c"
  have id: "map ?f n = n" using n by (intro map_idI) (auto simp: plain_name_def)
  have u: "map ?f (''/uploads/'' @ n) = [] @ CHR ''/'' # ''uploads'' @ CHR ''/'' # n" using id by simp
  have "py_split CHR ''/'' (map ?f (''/uploads/'' @ n)) = [[], ''uploads'', n]"
    using n unfolding u py_split_append_sep by (simp add: py_split_no_sep plain_name_def)
  then show ?thesis using n by (auto simp: is_hidden_file_def hidden_part_def HIDDEN_FILES_def plain_name_def)
qed

lemma upload_url_path:
  assumes "clean_base base d" "plain_name n" "dict_get (us_files s) n = Some c"
  shows "get_file_path (server_fs base d mtime s) d (''/uploads/'' @ n) = Inr (Some (d @ [n]))"
proof -
  have "join_path d n = d @ [n]" using assms(2) by (simp add: join_path_def plain_segments plain_not_absolute)
  moreover have "n \<noteq> []" "nul_char \<notin> set n" using assms(2) by (auto simp: plain_name_def)
  moreover have "upload_clean_path (if ''/uploads/'' @ n = ''/'' then ''/index.html'' else ''/uploads/'' @ n) = n"
    using upload_url_clean[of n] by simp
  ultimately show ?thesis using server_fs_path[OF assms, of mtime] resolve_id[of "server_fs base d mtime s" "d @ [n]"]
    unfolding get_file_path_def resolve_descendant_path_def by simp
qed

text \<open>A published file is what a FETCH of its public path reads, unless its name is hidden.\<close>

lemma published_fetched:
  assumes "publish_bytes pe (butlast (join_path d name) = d) name content s = (Inr n, s')"
    and "list_all safe_char name" "name \<noteq> []" "\<And>i. list_all is_lower_hex (pe_suffix pe i)"
    and "\<And>s1. dict_get (us_inflight (pe_between pe s1)) (pe_call pe) = dict_get (us_inflight s1) (pe_call pe)"
    and "clean_base base d" "fe_upload_dir env = d" "fe_fs env = server_fs base d mtime s'"
    and "fr_path rq = ''/uploads/'' @ n"
  shows "if hidden_part n then handle_fetch env rq = not_found
     else \<exists>r. handle_fetch env rq = Sent (Some (d @ [n])) r \<and> rs_status r = 200 \<and>
       stat_of (fe_fs env) (d @ [n]) = Some (File_Node content (mtime n))"
proof -
  have f: "butlast (join_path d name) = d" "dict_get (us_files s') n = Some content" "n \<noteq> ''..''"
    "n = name \<or> (\<exists>j. n = filename_with_unique_suffix (pe_suffix pe j) name)"
    using published_facts[OF assms(1,5)] by auto
  have "name \<noteq> ''.''"
  proof
    assume "name = ''.''"
    then have "butlast d = d" using f(1) by (simp add: join_path_def path_segments_def is_absolute_def)
    then show False using assms(6) butlast_irrefl by (auto simp: clean_base_def)
  qed
  then have n: "plain_name n"
    using f(3,4) assms(2,3) safe_chars_plain[OF assms(2)] unique_suffix_plain[OF assms(2) hex_safe[OF assms(4)]]
    by (auto simp: plain_name_def)
  have g: "get_file_path (fe_fs env) (fe_upload_dir env) (fr_path rq) = Inr (Some (d @ [n]))"
    using upload_url_path[OF assms(6) n f(2)] assms(7-9) by simp
  note sp = server_fs_path[OF assms(6) n f(2), of mtime, folded assms(8)]
  have st: "stat_of (fe_fs env) (d @ [n]) = Some (File_Node content (mtime n))"
    using reached_id[of "fe_fs env" "d @ [n]"] server_fs_ok[OF assms(6)] sp assms(8) by (simp add: stat_of_def)
  show ?thesis
  proof (cases "hidden_part n")
    case True
    then show ?thesis using upload_url_hidden[OF n] assms(9) by (simp add: handle_fetch_def)
  next
    case False
    then have "handle_fetch env rq = Sent (Some (d @ [n])) (set_header ''Content-Disposition''
        (build_download_content_disposition n) (snd (set_file (Some (length content))
          (case fe_mime env (path_text (d @ [n])) of None \<Rightarrow> ''application/octet-stream''
             | Some t \<Rightarrow> if t = [] then ''application/octet-stream'' else t) False (new_response 200))))"
      using upload_url_hidden[OF n] assms(9) g st
      by (simp add: handle_fetch_def path_exists_def is_dir_def file_stat_def Let_def path_name_def)
    then show ?thesis using False st by (simp add: set_header_def set_file_def new_response_def Let_def)
  qed
qed

text \<open>C37. An acknowledged upload is there under the name that is answered, unless the name is hidden. After a basic upload is answered with
  success, and whatever other requests did to the service meanwhile, a FETCH of \<open>/uploads/<name>\<close> sends the file with exactly the
  uploaded bytes if the name is not a hidden one, and is refused with 404 if it is: a name with a leading dot
  is accepted, stored and counted, but can never be read or deleted again.\<close>

theorem acknowledged_upload_fetched_iff_visible:
  assumes "handle_basic_upload unquote parse_multipart stamp pe d rq (s, store) = (Stored u, s', store')"
    and "safe_name (generated_upload_name stamp)" "\<And>i. list_all is_lower_hex (pe_suffix pe i)"
    and "\<And>s1. dict_get (us_inflight (pe_between pe s1)) (pe_call pe) = dict_get (us_inflight s1) (pe_call pe)"
    and "clean_base base d" "fe_upload_dir env = d" "fe_fs env = server_fs base d mtime s'"
    and "fr_path rq' = ''/uploads/'' @ su_name u"
  shows "\<exists>plan. plan_upload unquote parse_multipart stamp rq = Inr plan \<and>
    (if hidden_part (su_name u) then handle_fetch env rq' = not_found
     else \<exists>r. handle_fetch env rq' = Sent (Some (d @ [su_name u])) r \<and> rs_status r = 200 \<and>
       stat_of (fe_fs env) (d @ [su_name u]) = Some (File_Node (up_payload plan) (mtime (su_name u))))"
proof -
  obtain plan where plan: "plan_upload unquote parse_multipart stamp rq = Inr plan"
    using assms(1) by (auto simp: handle_basic_upload_def split: sum.splits)
  define safe where "safe = sanitize_filename stamp (up_filename plan)"
  have p: "publish_bytes pe (butlast (join_path d safe) = d) safe (up_payload plan) s = (Inr (su_name u), s')"
    using assms(1) plan by (auto simp: handle_basic_upload_def Let_def safe_def split: if_splits sum.splits prod.splits)
  have "safe_name safe" unfolding safe_def using assms(2) by (rule sanitized_safe)
  then have "list_all safe_char safe" "safe \<noteq> []" by (simp_all add: safe_name_def)
  from published_fetched[OF p this assms(3-8)] plan show ?thesis by blast
qed

definition demo_publish :: publish_env where
  "demo_publish = \<lparr>pe_call = 0, pe_reserve = roomy, pe_commit = roomy, pe_between = id, pe_temp_error = None, pe_suffix = (\<lambda>_. ''0f''),
     pe_link_error = (\<lambda>_. None)\<rparr>"

definition demo_base :: file_system where "demo_base = [([''srv''], Dir_Node), ([''srv'', ''up''], Dir_Node)]"

definition demo_upload :: "string \<Rightarrow> file_answer \<times> upload_service \<times> artifact_store" where
  "demo_upload url = handle_basic_upload id (\<lambda>_ _. Inl (Multipart_Error [])) ''0'' demo_publish [''srv'', ''up''] ((demo_file_request url)\<lparr>fr_body := [7, 8]\<rparr>)
     (upload_service_init \<lparr>sp_max_total_bytes = None, sp_max_file_count = None, sp_reserved_free_bytes = 0\<rparr> [] [] [], no_artifacts)"

lemmas upload_evaluation = demo_upload_def handle_basic_upload_def plan_upload_def basic_url_filename_def BASIC_UPLOAD_COLLECTION_PATHS_def
  demo_file_request_def demo_publish_def fr_header_def sanitize_filename_def strip_by_def strip_slashes_def path_segments_def path_name_def
  join_path_def is_absolute_def publish_bytes_def publish_begin_def publish_commit_def reserve_upload_def check_accepts_def current_usage_def
  counted_files_def counted_nested_def release_upload_def upload_service_init_def roomy_def size_of_def no_artifacts_def registry_discard_def Let_def py_strip_def py_lower_def
  lower_char_def is_space_def safe_char_def py_isalnum_def is_alnum_def is_digit_def ascii_upper_def one_of_def cut_at_def collapse_double.simps
  numeral_eq_Suc

lemma demo_clean: "clean_base demo_base [''srv'', ''up'']"
  unfolding clean_base_def
proof (intro conjI allI impI)
  show "fs_ok demo_base" by (auto simp: fs_ok_def demo_base_def node_at_def append_eq_Cons_conv split: if_splits)
  show "physical demo_base [''srv'', ''up'']"
    by (auto simp: physical_def demo_base_def prefix_Cons append_eq_Cons_conv Cons_eq_append_conv split: if_splits)
  fix p assume "strict_prefix [''srv'', ''up''] p"
  then show "dict_get demo_base p = None" by (auto simp: demo_base_def strict_prefix_def)
qed (simp_all add: demo_base_def)

lemma acknowledged_upload_fetched_iff_visible_witness:
  "\<exists>u s' store'. demo_upload ''/a.txt'' = (Stored u, s', store') \<and>
    (let env = demo_file_env\<lparr>fe_fs := server_fs demo_base [''srv'', ''up''] (\<lambda>_. 0) s'\<rparr>
     in \<exists>r. handle_fetch env (demo_file_request (''/uploads/'' @ su_name u)) = Sent (Some [''srv'', ''up'', ''a.txt'']) r \<and>
       stat_of (fe_fs env) [''srv'', ''up'', ''a.txt''] = Some (File_Node [7, 8] 0))"
proof -
  obtain u s' store' where u: "demo_upload ''/a.txt'' = (Stored u, s', store')" "su_name u = ''a.txt''"
    by (simp add: upload_evaluation)
  have pl: "plan_upload id (\<lambda>_ _. Inl (Multipart_Error [])) ''0'' ((demo_file_request ''/a.txt'')\<lparr>fr_body := [7, 8]\<rparr>) =
      Inr \<lparr>up_filename = ''a.txt'', up_payload = [7, 8], up_profile = ''raw_url'', up_source = ''url'', up_content_type = ''application/octet-stream''\<rparr>"
    by (simp add: upload_evaluation)
  let ?env = "demo_file_env\<lparr>fe_fs := server_fs demo_base [''srv'', ''up''] (\<lambda>_. 0) s'\<rparr>"
  have g: "safe_name (generated_upload_name ''0'')"
    by (simp add: safe_name_def generated_upload_name_def safe_char_def py_isalnum_def is_alnum_def is_digit_def ascii_upper_def one_of_def)
  have h: "\<not> hidden_part (su_name u)" using u(2) by (simp add: hidden_part_def HIDDEN_FILES_def)
  have "\<exists>r. handle_fetch ?env (demo_file_request (''/uploads/'' @ su_name u)) = Sent (Some ([''srv'', ''up''] @ [su_name u])) r \<and> rs_status r = 200 \<and>
       stat_of (fe_fs ?env) ([''srv'', ''up''] @ [su_name u]) = Some (File_Node [7, 8] 0)"
    using acknowledged_upload_fetched_iff_visible[OF u(1)[unfolded demo_upload_def] g _ _ demo_clean, of ?env "\<lambda>_. 0"
        "demo_file_request (''/uploads/'' @ su_name u)"] h pl
    by (simp add: demo_publish_def is_lower_hex_def is_digit_def demo_file_env_def demo_file_request_def)
  then show ?thesis using u by (auto simp: Let_def)
qed

text \<open>A name with a leading dot is stored under it.\<close>

lemma dot_name_is_stored: "\<exists>u s' store'. demo_upload ''/.env'' = (Stored u, s', store') \<and> su_name u = ''.env'' \<and> hidden_part (su_name u)"
  by (simp add: upload_evaluation hidden_part_def HIDDEN_FILES_def)

text \<open>A name of dots only is made safe to a single dot, which no file can have, and the upload is answered with an internal error.\<close>

lemma dots_only_fails: "fst (demo_upload ''/...'') = Refused 500 ''internal_error''"
  by (simp add: upload_evaluation quota_error_def)

text \<open>So may a client choose a name that the quota does not count (\<open>service_names_escape_quota\<close>).\<close>

lemma service_name_is_stored:
  "\<exists>u s' store'. demo_upload ''/.upload-tmp-a'' = (Stored u, s', store') \<and> is_service_temp_path (su_name u) \<and> current_usage s' = (0, 0)"
  by (simp add: upload_evaluation is_service_temp_path_def)

subsection \<open>Download headers\<close>

lemma replace_runs_set: "set (replace_runs P j s) \<subseteq> insert CHR ''-'' {c \<in> set s. \<not> P c}"
  by (induction P j s rule: replace_runs.induct) auto

lemma py_quote_chars: "c \<in> set (py_quote s) \<Longrightarrow> is_alnum c \<or> one_of ''_.-~%'' c"
proof -
  assume "c \<in> set (py_quote s)"
  then obtain b where b: "c \<in> set (percent_byte b)" by (auto simp: py_quote_def)
  have n: "unat b < 256" using unsigned_less[of b] by simp
  have hex: "is_alnum (chr (if k < 10 then 48 + k else 55 + k))" if "k < 16" for k :: nat
    using that by (auto simp: is_alnum_def is_digit_def ascii_upper_def)
  have "unat b div 16 < 16" "unat b mod 16 < 16" using n by auto
  then show ?thesis using b hex[of "unat b div 16"] hex[of "unat b mod 16"]
    by (auto simp: percent_byte_def Let_def one_of_def split: if_splits)
qed

text \<open>Whatever the name of a file, its disposition header is an attachment with one quoted name of safe characters and one encoded name:
  no quote, control character or parameter of the name gets through.\<close>

theorem disposition_injection_safe:
  "\<exists>fallback encoded. build_download_content_disposition f =
       ''attachment; filename=\"'' @ fallback @ ''\"; filename*=UTF-8'' @ [CHR 0x27, CHR 0x27] @ encoded \<and>
     fallback \<noteq> [] \<and> list_all (\<lambda>c. is_alnum c \<or> one_of ''._-'' c) fallback \<and> list_all (\<lambda>c. is_alnum c \<or> one_of ''_.-~%'' c) encoded"
proof -
  define safe where "safe = safe_download_filename f"
  define sfx where "sfx = path_suffix safe"
  define stem where "stem = strip_by (one_of ''._-'') (replace_runs (\<lambda>c. \<not> (is_alnum c \<or> one_of ''_-'' c)) False
      (filter (\<lambda>c. ord c < 128) (take (length safe - length sfx) safe)))"
  have stem: "list_all (\<lambda>c. is_alnum c \<or> one_of ''._-'' c) stem"
    using strip_by_subset replace_runs_set unfolding stem_def list_all_iff one_of_def by fastforce
  define tail where "tail = (if sfx \<noteq> [] \<and> length (tl sfx) \<le> 32 \<and> list_all is_alnum (tl sfx) then sfx else [])"
  define name where "name = (if list_ex is_alpha stem then stem else ''download'')"
  have tail: "list_all (\<lambda>c. is_alnum c \<or> one_of ''._-'' c) tail"
    by (auto simp: tail_def sfx_def path_suffix_def list_all_iff one_of_def split: option.splits prod.splits if_splits)
  have name: "list_all (\<lambda>c. is_alnum c \<or> one_of ''._-'' c) name" "name \<noteq> []"
    using stem by (auto simp: name_def is_alnum_def is_digit_def ascii_upper_def)
  have enc: "list_all (\<lambda>c. is_alnum c \<or> one_of ''_.-~%'' c) (py_quote safe)" using py_quote_chars by (auto simp: list_all_iff)
  have "build_download_content_disposition f =
      ''attachment; filename=\"'' @ (name @ tail) @ ''\"; filename*=UTF-8'' @ [CHR 0x27, CHR 0x27] @ py_quote safe"
    unfolding build_download_content_disposition_def Let_def safe_def[symmetric] sfx_def[symmetric] stem_def[symmetric]
      name_def[symmetric] tail_def[symmetric] append_assoc by (rule refl)
  moreover have "name @ tail \<noteq> []" "list_all (\<lambda>c. is_alnum c \<or> one_of ''._-'' c) (name @ tail)" using name tail by simp_all
  ultimately show ?thesis using enc by blast
qed

end
