(* ===== verification/Advanced_Payload.thy ===== *)
theory Advanced_Payload
  imports Multipart Encrypted_Transfer
begin

section \<open>Advanced payloads\<close>

text \<open>
  \<^verbatim>\<open>xferry/handlers/advanced_payload.py\<close>: an advanced upload arrives by exactly one carrier (body, headers, query, cookies or path), as
  named fields or numbered chunks, under one of seven encodings. Parameters, in \<open>adv_env\<close>: \<open>bytes.decode("utf-8")\<close>, the JSON and XML
  parsers, the header parser of \<open>email\<close>, and \<open>zlib\<close>, of which \<open>ae_member\<close> gives the output of one gzip member and what follows it.
  An error is its status, code and field; \<open>Uncaught\<close> is an exception that the upload handler does not catch.
\<close>

datatype adv_fail = Adv_Error nat string "string option" | Decoded_Too_Large | Uncaught py_error

datatype adv_value = Text_Value string | Bool_Value bool | Other_Value

record field_occurrence =
  fo_name :: string
  fo_value :: adv_value
  fo_order :: nat
  fo_display :: string

datatype adv_carrier = In_Body | In_Headers | In_Query | In_Cookies | In_Path

datatype filename_source = From_Body | From_Part | From_Header | From_Query | From_Cookie | From_Path | Generated_Source

record adv_payload =
  ap_carrier :: adv_carrier
  ap_profile :: string
  ap_encoded :: "string option"
  ap_raw :: "bytes option"
  ap_encryption :: string
  ap_key :: "string option"
  ap_key_is_base64 :: bool
  ap_name :: "string option"
  ap_hmac :: "string option"
  ap_encoding :: "string option"
  ap_method_override :: "string option"
  ap_content_type :: string
  ap_source :: filename_source

text \<open>What \<open>json.loads\<close> gives with the hook that refuses a repeated member (\<open>Json_Duplicate\<close>): an object has distinct members. \<open>Json_Raises\<close> is an
  exception other than \<open>JSONDecodeError\<close>, for integers of too many digits or too deep a nesting.\<close>

datatype json_body = Json_Object "(string \<times> adv_value) list" | Json_Duplicate string | Json_Not_Object | Json_Malformed | Json_Raises py_error

record xml_child =
  xc_tag :: string
  xc_plain :: bool
  xc_text :: string

record xml_root =
  xr_tag :: string
  xr_attributes :: bool
  xr_text :: string
  xr_children :: "xml_child list"

datatype gzip_end = Gzip_Eof bytes | Gzip_Broken

record adv_env =
  ae_decode :: "bytes \<Rightarrow> string option"
  ae_json :: "bytes \<Rightarrow> json_body"
  ae_xml :: "bytes \<Rightarrow> py_error + xml_root option"
  ae_boundary :: "string \<Rightarrow> string option option"
  ae_part :: "bytes \<Rightarrow> part_headers option"
  ae_member :: "bytes \<Rightarrow> bytes \<times> gzip_end"

definition invalid_field :: "string \<Rightarrow> adv_fail" where "invalid_field f = Adv_Error 400 ''invalid_field'' (Some f)"

definition missing_field :: "string \<Rightarrow> adv_fail" where "missing_field f = Adv_Error 400 ''missing_field'' (Some f)"

definition unsupported_media :: adv_fail where "unsupported_media = Adv_Error 415 ''unsupported_media_type'' (Some ''Content-Type'')"

definition invalid_encoding :: adv_fail where "invalid_encoding = Adv_Error 400 ''invalid_encoding'' (Some ''data'')"

definition empty_payload :: "string \<Rightarrow> adv_fail" where
  "empty_payload profile = Adv_Error 400 ''empty_payload'' (Some (if profile = ''multipart-binary'' then ''file'' else ''data''))"

definition ENCODINGS :: "string list" where
  "ENCODINGS = [''raw'', ''base64'', ''base64url'', ''hex'', ''percent'', ''gzip-base64'', ''gzip-base64url'']"

definition ENCRYPTIONS :: "string list" where "ENCRYPTIONS = [''none'', ''xor'', ''aes'']"

definition FIELD_NAMES :: "string list" where
  "FIELD_NAMES = [''data'', ''encryption'', ''key'', ''key_is_base64'', ''name'', ''hmac'', ''encoding'', ''method_override'']"

subsection \<open>Text\<close>

definition content_type_base :: "string \<Rightarrow> string" where
  "content_type_base v = py_lower (py_strip (fst (cut_at CHR '';'' v)))"

fun content_type_params :: "string list \<Rightarrow> (string, string) dict \<Rightarrow> adv_fail + (string, string) dict" where
  "content_type_params [] params = Inr params"
| "content_type_params (item # items) params =
     (case cut_at CHR ''='' item of
        (k, Some v) \<Rightarrow>
          (let key = py_lower (py_strip k); raw = py_strip v;
               unquoted = (if 2 \<le> length raw \<and> hd raw = CHR 0x22 \<and> last raw = CHR 0x22 then butlast (tl raw) else raw)
           in if key = [] \<or> raw = [] then Inl unsupported_media else content_type_params items (dict_set key unquoted params))
      | (_, None) \<Rightarrow> Inl unsupported_media)"

definition is_xml_media :: "string \<Rightarrow> bool" where
  "is_xml_media base \<longleftrightarrow> base \<in> {''application/xml'', ''text/xml'', ''application/soap+xml''} \<or> suffix ''+xml'' base"

definition hex_digit_value :: "char \<Rightarrow> nat" where
  "hex_digit_value c = (if is_digit c then ord c - 48 else if ascii_upper c then ord c - 55 else ord c - 87)"

fun strict_percent_decode_bytes :: "bool \<Rightarrow> string \<Rightarrow> adv_fail + bytes" where
  "strict_percent_decode_bytes spaces [] = Inr []"
| "strict_percent_decode_bytes spaces (c # cs) =
     (if c = CHR ''%''
      then (case cs of
          a # b # r \<Rightarrow>
            if is_hex a \<and> is_hex b
            then map_sum id ((#) (word_of_nat (hex_digit_value a * 16 + hex_digit_value b))) (strict_percent_decode_bytes spaces r)
            else Inl (invalid_field ''data'')
        | _ \<Rightarrow> Inl (invalid_field ''data''))
      else map_sum id ((@) (if c = CHR ''+'' \<and> spaces then [0x20] else utf8_char c)) (strict_percent_decode_bytes spaces cs))"

definition strict_percent_decode_text :: "adv_env \<Rightarrow> bool \<Rightarrow> string \<Rightarrow> adv_fail + string" where
  "strict_percent_decode_text env spaces raw =
     and_then (strict_percent_decode_bytes spaces raw)
       (\<lambda>bs. case ae_decode env bs of None \<Rightarrow> Inl (invalid_field ''data'') | Some s \<Rightarrow> Inr s)"

fun parse_pairs :: "adv_env \<Rightarrow> string list \<Rightarrow> adv_fail + (string \<times> string) list" where
  "parse_pairs env [] = Inr []"
| "parse_pairs env (part # parts) =
     (let (k, v) = cut_at CHR ''='' part
      in and_then (strict_percent_decode_text env True k) (\<lambda>key.
         and_then (strict_percent_decode_text env True (case v of None \<Rightarrow> [] | Some w \<Rightarrow> w)) (\<lambda>value.
         map_sum id ((#) (key, value)) (parse_pairs env parts))))"

definition parse_query_pairs :: "adv_env \<Rightarrow> string \<Rightarrow> adv_fail + (string \<times> string) list" where
  "parse_query_pairs env q = (if q = [] then Inr [] else parse_pairs env (py_split CHR ''&'' q))"

text \<open>The numbered names: \<open>data_<digits>\<close>, in headers \<open>x-xferry-data-<digits>\<close>.\<close>

definition digits_after :: "string \<Rightarrow> string \<Rightarrow> string option" where
  "digits_after pre s = (if prefix pre s \<and> drop (length pre) s \<noteq> [] \<and> list_all is_digit (drop (length pre) s) then Some (drop (length pre) s) else None)"

definition is_chunk_name :: "string \<Rightarrow> bool" where "is_chunk_name s \<longleftrightarrow> digits_after ''data_'' s \<noteq> None"

definition LEGACY_HEADERS :: "string list" where
  "LEGACY_HEADERS = [''X-D'', ''X-D-0'', ''X-E'', ''X-K'', ''X-Kb64'', ''X-N'', ''X-H'', ''X-Encoding'', ''X-HTTP-Method-Override'', ''X-Payload-In-Path'']"

definition LEGACY_FIELDS :: "(string, string) dict" where
  "LEGACY_FIELDS = [(''d'', ''data''), (''d0'', ''data''), (''d-0'', ''data''), (''d_0'', ''data''), (''data0'', ''data''), (''data-0'', ''data''),
     (''e'', ''encryption''), (''k'', ''key''), (''kb64'', ''key_is_base64''), (''n'', ''name''), (''h'', ''hmac''), (''enc'', ''encoding''),
     (''_method'', ''method_override''), (''path_payload'', ''path_payload''), (''path_filename'', ''path_filename'')]"

definition legacy_header_field :: "string \<Rightarrow> string option" where
  "legacy_header_field name =
     (if digits_after ''x-d-'' (py_lower name) \<noteq> None then Some name else find (\<lambda>h. py_lower h = py_lower name) LEGACY_HEADERS)"

definition legacy_field_rejection :: "string \<Rightarrow> string option" where
  "legacy_field_rejection name =
     (case dict_get LEGACY_FIELDS name of
        Some f \<Rightarrow> Some f
      | None \<Rightarrow>
          if list_ex (\<lambda>pre. digits_after pre name \<noteq> None) [''d'', ''d-'', ''d_'', ''data'', ''data-''] then Some ''data'' else None)"

definition json_field_for_invalid :: "string \<Rightarrow> string" where
  "json_field_for_invalid name = (case legacy_field_rejection name of None \<Rightarrow> name | Some f \<Rightarrow> f)"

subsection \<open>The fields of a carrier\<close>

definition HEADER_FIELDS :: "(string, string) dict" where
  "HEADER_FIELDS = [(''x-xferry-data'', ''data''), (''x-xferry-encryption'', ''encryption''), (''x-xferry-key'', ''key''),
     (''x-xferry-key-is-base64'', ''key_is_base64''), (''x-xferry-name'', ''name''), (''x-xferry-hmac'', ''hmac''),
     (''x-xferry-encoding'', ''encoding''), (''x-xferry-method-override'', ''method_override'')]"

definition COOKIE_FIELDS :: "(string, string) dict" where
  "COOKIE_FIELDS = [(''xferry_data'', ''data''), (''xferry_encryption'', ''encryption''), (''xferry_key'', ''key''),
     (''xferry_key_is_base64'', ''key_is_base64''), (''xferry_name'', ''name''), (''xferry_hmac'', ''hmac''),
     (''xferry_encoding'', ''encoding''), (''xferry_method_override'', ''method_override'')]"

definition strip_blanks :: "string \<Rightarrow> string" where "strip_blanks = strip_by (\<lambda>c. c = CHR '' '' \<or> c = CHR 0x09)"

definition header_value_after_separator :: "string \<Rightarrow> string \<Rightarrow> adv_fail + string" where
  "header_value_after_separator field raw =
     (if prefix [CHR 0x09] raw then Inl (invalid_field field) else Inr (if prefix '' '' raw then tl raw else raw))"

definition canonical_header_value :: "string \<Rightarrow> string \<Rightarrow> string \<Rightarrow> adv_fail + string" where
  "canonical_header_value display raw normalized =
     and_then (header_value_after_separator display raw)
       (\<lambda>v. if v \<noteq> normalized \<or> v \<noteq> strip_blanks v then Inl (invalid_field display) else Inr v)"

text \<open>The loop of \<open>_header_scan\<close>; \<open>seen\<close> counts the headers of each name so far.\<close>

fun header_scan_from ::
  "http_request \<Rightarrow> (string, nat) dict \<Rightarrow> nat \<Rightarrow> (string \<times> string) list \<Rightarrow> adv_fail + field_occurrence list" where
  "header_scan_from rq seen order [] = Inr []"
| "header_scan_from rq seen order ((name, v) # hs) =
     (let lower = py_lower name; raws = get_raw_header_values name rq;
          k = (case dict_get seen lower of None \<Rightarrow> 0 | Some n \<Rightarrow> n);
          raw = (if k < length raws then raws ! k else v);
          next_ones = header_scan_from rq (dict_set lower (Suc k) seen) (Suc order) hs;
          field = dict_get HEADER_FIELDS lower; chunk = digits_after ''x-xferry-data-'' lower
      in if find_from crlf_text raw \<noteq> None then Inl (invalid_field name)
         else (case legacy_header_field name of
             Some f \<Rightarrow> Inl (invalid_field f)
           | None \<Rightarrow>
               if field = None \<and> chunk = None
               then (if lower \<in> {''x-xferry-advanced-session'', ''x-xferry-no-gzip''} then next_ones
                 else if prefix ''x-xferry-'' lower then Inl (invalid_field name) else next_ones)
               else and_then (canonical_header_value name raw v) (\<lambda>value.
                 if CHR '','' \<in> set value then Inl (invalid_field name)
                 else map_sum id ((#) \<lparr>fo_name = (case chunk of Some ds \<Rightarrow> ''data_'' @ ds | None \<Rightarrow> the field),
                     fo_value = Text_Value value, fo_order = order, fo_display = name\<rparr>) next_ones)))"

definition header_scan :: "http_request \<Rightarrow> adv_fail + field_occurrence list" where
  "header_scan rq = header_scan_from rq [] 0 (rq_occurrences rq)"

fun query_scan_from :: "nat \<Rightarrow> (string \<times> string) list \<Rightarrow> adv_fail + field_occurrence list" where
  "query_scan_from order [] = Inr []"
| "query_scan_from order ((k, v) # kvs) =
     (case legacy_field_rejection k of
        Some f \<Rightarrow> Inl (invalid_field f)
      | None \<Rightarrow> map_sum id ((#) \<lparr>fo_name = k, fo_value = Text_Value v, fo_order = order, fo_display = k\<rparr>) (query_scan_from (Suc order) kvs))"

definition query_scan :: "adv_env \<Rightarrow> http_request \<Rightarrow> adv_fail + field_occurrence list" where
  "query_scan env rq = and_then (parse_query_pairs env (rq_query_string rq)) (query_scan_from 0)"

fun cookie_items :: "adv_env \<Rightarrow> string list \<Rightarrow> adv_fail + (string \<times> string) list" where
  "cookie_items env [] = Inr []"
| "cookie_items env (item # items) =
     (case cut_at CHR ''='' item of
        (_, None) \<Rightarrow> cookie_items env items
      | (k, Some v) \<Rightarrow>
          (let key = py_strip k
           in case strict_percent_decode_text env False v of
                Inl _ \<Rightarrow> Inl (invalid_field (if key = [] then ''cookie'' else key))
              | Inr value \<Rightarrow>
                  if (prefix ''xferry_'' key \<or> prefix ''xf_'' key) \<and> value \<noteq> strip_blanks value then Inl (invalid_field key)
                  else map_sum id ((#) (key, value)) (cookie_items env items)))"

fun cookie_headers :: "adv_env \<Rightarrow> string list \<Rightarrow> adv_fail + (string \<times> string) list" where
  "cookie_headers env [] = Inr []"
| "cookie_headers env (h # hs) =
     and_then (header_value_after_separator ''Cookie'' h) (\<lambda>v.
     and_then (cookie_items env (py_split CHR '';'' v)) (\<lambda>xs. map_sum id ((@) xs) (cookie_headers env hs)))"

definition cookie_pairs :: "adv_env \<Rightarrow> http_request \<Rightarrow> adv_fail + (string \<times> string) list" where
  "cookie_pairs env rq =
     (let raws = get_raw_header_values ''cookie'' rq in cookie_headers env (if raws = [] then get_header_values ''cookie'' rq else raws))"

fun cookie_scan_from :: "nat \<Rightarrow> (string \<times> string) list \<Rightarrow> adv_fail + field_occurrence list" where
  "cookie_scan_from order [] = Inr []"
| "cookie_scan_from order ((k, v) # kvs) =
     (if prefix ''xf_'' k then Inl (invalid_field k)
      else (case dict_get COOKIE_FIELDS k of
          None \<Rightarrow> if prefix ''xferry_'' k then Inl (invalid_field k) else cookie_scan_from (Suc order) kvs
        | Some f \<Rightarrow> map_sum id ((#) \<lparr>fo_name = f, fo_value = Text_Value v, fo_order = order, fo_display = k\<rparr>) (cookie_scan_from (Suc order) kvs)))"

definition cookie_scan :: "adv_env \<Rightarrow> http_request \<Rightarrow> adv_fail + field_occurrence list" where
  "cookie_scan env rq = and_then (cookie_pairs env rq) (cookie_scan_from 0)"

definition is_data_field :: "field_occurrence \<Rightarrow> bool" where
  "is_data_field oc \<longleftrightarrow> fo_name oc = ''data'' \<or> is_chunk_name (fo_name oc)"

definition is_metadata_field :: "field_occurrence \<Rightarrow> bool" where
  "is_metadata_field oc \<longleftrightarrow> fo_name oc \<noteq> ''data'' \<and> fo_name oc \<in> set FIELD_NAMES"

subsection \<open>Building the payload\<close>

record payload_options =
  po_content_type :: string
  po_source :: filename_source
  po_allow_chunks :: bool
  po_json :: bool
  po_raw :: "bytes option"
  po_part_filename :: "string option"
  po_encoded :: "string option"
  po_encoding :: "string option"
  po_name :: "string option"

definition field_as_string :: "field_occurrence \<Rightarrow> adv_fail + string" where
  "field_as_string oc = (case fo_value oc of Text_Value s \<Rightarrow> Inr s | _ \<Rightarrow> Inl (invalid_field (fo_name oc)))"

definition field_as_bool :: "bool \<Rightarrow> field_occurrence \<Rightarrow> adv_fail + bool" where
  "field_as_bool json oc =
     (if json then (case fo_value oc of Bool_Value b \<Rightarrow> Inr b | _ \<Rightarrow> Inl (invalid_field (fo_name oc)))
      else if fo_value oc = Text_Value ''true'' then Inr True
      else if fo_value oc = Text_Value ''false'' then Inr False
      else Inl (invalid_field (fo_name oc)))"

text \<open>\<open>int(digits)\<close> refuses more than 4300 digits with a \<open>ValueError\<close> that nobody catches.\<close>

definition validate_chunk_name :: "string \<Rightarrow> adv_fail + nat option" where
  "validate_chunk_name name =
     (case digits_after ''data_'' name of
        None \<Rightarrow> Inr None
      | Some ds \<Rightarrow>
          if 1 < length ds \<and> hd ds = CHR ''0'' then Inl (invalid_field ''data'')
          else (case py_int ds of
              None \<Rightarrow> Inl (Uncaught ValueError)
            | Some n \<Rightarrow> if 255 < n then Inl (invalid_field ''data'') else Inr (Some (nat n))))"

fun collect_fields ::
  "bool \<Rightarrow> field_occurrence list \<Rightarrow> (string, field_occurrence) dict \<Rightarrow> (nat \<times> field_occurrence) list
     \<Rightarrow> adv_fail + (string, field_occurrence) dict \<times> (nat \<times> field_occurrence) list" where
  "collect_fields allow [] values chunks = Inr (values, chunks)"
| "collect_fields allow (oc # ocs) values chunks =
     (if fo_name oc \<notin> set FIELD_NAMES
      then and_then (validate_chunk_name (fo_name oc)) (\<lambda>k.
        case k of
          None \<Rightarrow> Inl (invalid_field (json_field_for_invalid (fo_display oc)))
        | Some n \<Rightarrow>
            if \<not> allow then Inl (invalid_field ''data'') else collect_fields allow ocs values (chunks @ [(n, oc)]))
      else if dict_get values (fo_name oc) \<noteq> None then Inl (invalid_field (fo_name oc))
      else collect_fields allow ocs (dict_set (fo_name oc) oc values) chunks)"

fun join_chunks :: "nat \<Rightarrow> (nat \<times> field_occurrence) list \<Rightarrow> adv_fail + string" where
  "join_chunks expected [] = Inr []"
| "join_chunks expected ((n, oc) # cs) =
     (if n \<noteq> expected then Inl (invalid_field ''data'')
      else and_then (field_as_string oc) (\<lambda>s. map_sum id ((@) s) (join_chunks (Suc expected) cs)))"

definition field_text :: "(string, field_occurrence) dict \<Rightarrow> string \<Rightarrow> adv_fail + string option" where
  "field_text values f = (case dict_get values f of None \<Rightarrow> Inr None | Some oc \<Rightarrow> map_sum id Some (field_as_string oc))"

definition find_data :: "payload_options \<Rightarrow> (string, field_occurrence) dict \<Rightarrow> (nat \<times> field_occurrence) list \<Rightarrow> adv_fail + string option" where
  "find_data po values chunks =
     and_then (join_chunks 0 (sort_key (\<lambda>(_, oc). fo_order oc) chunks)) (\<lambda>joined.
       case po_encoded po of
         Some e \<Rightarrow> Inr (Some e)
       | None \<Rightarrow>
           if dict_get values ''data'' \<noteq> None then field_text values ''data''
           else Inr (if chunks \<noteq> [] then Some joined else None))"

definition find_encoding :: "payload_options \<Rightarrow> (string, field_occurrence) dict \<Rightarrow> adv_fail + string option" where
  "find_encoding po values =
     (if po_raw po \<noteq> None
      then (if dict_get values ''encoding'' \<noteq> None then Inl (invalid_field ''encoding'') else Inr (po_encoding po))
      else if po_encoding po \<noteq> None then Inr (po_encoding po)
      else and_then (field_text values ''encoding'') (\<lambda>t.
        case t of
          None \<Rightarrow> Inl (missing_field ''encoding'')
        | Some e \<Rightarrow> if e \<notin> set ENCODINGS then Inl (invalid_field ''encoding'') else Inr (Some e)))"

text \<open>The key, decoded when it is declared to be base64.\<close>

definition find_key :: "adv_env \<Rightarrow> bool \<Rightarrow> (string, field_occurrence) dict \<Rightarrow> adv_fail + string option \<times> bool" where
  "find_key env json values =
     and_then (field_text values ''key'') (\<lambda>key.
     if key = Some [] then Inl (invalid_field ''key'')
     else and_then (case dict_get values ''key_is_base64'' of
           None \<Rightarrow> Inr False
         | Some oc \<Rightarrow> and_then (field_as_bool json oc) (\<lambda>b. if key = None then Inl (invalid_field ''key_is_base64'') else Inr b)) (\<lambda>b64.
     case key of
       None \<Rightarrow> Inr (None, b64)
     | Some k \<Rightarrow>
         if \<not> b64 then Inr (Some k, b64)
         else (case b64decode_strict k of
             None \<Rightarrow> Inl (invalid_field ''key'')
           | Some d \<Rightarrow>
               if d = [] \<or> b64encode d \<noteq> k then Inl (invalid_field ''key'')
               else (case ae_decode env d of
                   None \<Rightarrow> Inl (invalid_field ''key'')
                 | Some t \<Rightarrow> if t = [] then Inl (invalid_field ''key'') else Inr (Some t, b64)))))"

definition find_hmac :: "(string, field_occurrence) dict \<Rightarrow> adv_fail + string option" where
  "find_hmac values = and_then (field_text values ''hmac'') (\<lambda>h.
     case h of Some t \<Rightarrow> if length t = 64 \<and> list_all is_lower_hex t then Inr h else Inl (invalid_field ''hmac'') | None \<Rightarrow> Inr None)"

definition find_override :: "(string, field_occurrence) dict \<Rightarrow> adv_fail + string option" where
  "find_override values = and_then (field_text values ''method_override'') (\<lambda>m.
     case m of
       Some t \<Rightarrow> if t = [] \<or> 64 < length t \<or> \<not> list_all (\<lambda>c. 0x21 \<le> ord c \<and> ord c \<le> 0x7E) t then Inl (invalid_field ''method_override'') else Inr m
     | None \<Rightarrow> Inr None)"

definition find_name :: "payload_options \<Rightarrow> (string, field_occurrence) dict \<Rightarrow> adv_fail + string option \<times> filename_source" where
  "find_name po values =
     and_then (case po_part_filename po of
         Some p \<Rightarrow>
           if p = [] then Inl (invalid_field ''name'')
           else and_then (field_text values ''name'') (\<lambda>n. if n \<noteq> None \<and> n \<noteq> Some p then Inl (invalid_field ''name'') else Inr (Some p))
       | None \<Rightarrow> and_then (field_text values ''name'') (\<lambda>n. Inr (if n = None then po_name po else n))) (\<lambda>name.
     case name of
       None \<Rightarrow> Inr (None, Generated_Source)
     | Some n \<Rightarrow> if n = [] \<or> 255 < length (utf8_encode n) then Inl (invalid_field ''name'') else Inr (Some n, po_source po))"

definition build_payload :: "adv_env \<Rightarrow> adv_carrier \<Rightarrow> string \<Rightarrow> field_occurrence list \<Rightarrow> payload_options \<Rightarrow> adv_fail + adv_payload" where
  "build_payload env carrier profile occurrences po =
     and_then (collect_fields (po_allow_chunks po) occurrences [] []) (\<lambda>(values, chunks).
     if dict_get values ''data'' \<noteq> None \<and> chunks \<noteq> [] then Inl (invalid_field ''data'')
     else and_then (find_data po values chunks) (\<lambda>encoded.
     if po_raw po = None \<and> encoded = None then Inl (missing_field ''data'')
     else if po_raw po \<noteq> None \<and> encoded \<noteq> None then Inl (invalid_field ''data'')
     else if encoded = Some [] then Inl (invalid_field ''data'')
     else if po_raw po = Some [] then Inl (empty_payload profile)
     else and_then (find_encoding po values) (\<lambda>encoding.
     and_then (field_text values ''encryption'') (\<lambda>encryption.
     case encryption of
       None \<Rightarrow> Inl (missing_field ''encryption'')
     | Some enc \<Rightarrow>
         if enc \<notin> set ENCRYPTIONS then Inl (invalid_field ''encryption'')
         else and_then (find_key env (po_json po) values) (\<lambda>(key, b64).
         and_then (find_hmac values) (\<lambda>hmac.
         if enc = ''none'' \<and> key \<noteq> None then Inl (invalid_field ''key'')
         else if enc = ''none'' \<and> b64 then Inl (invalid_field ''key_is_base64'')
         else if enc = ''none'' \<and> hmac \<noteq> None then Inl (invalid_field ''hmac'')
         else if enc \<noteq> ''none'' \<and> key = None then Inl (missing_field ''key'')
         else and_then (find_override values) (\<lambda>override.
         and_then (find_name po values) (\<lambda>(name, source).
         Inr \<lparr>ap_carrier = carrier, ap_profile = profile, ap_encoded = encoded, ap_raw = po_raw po, ap_encryption = enc, ap_key = key,
           ap_key_is_base64 = b64, ap_name = name, ap_hmac = hmac, ap_encoding = encoding, ap_method_override = override,
           ap_content_type = po_content_type po, ap_source = source\<rparr>))))))))"

subsection \<open>Selecting the carrier\<close>

text \<open>The session of the request: its prefix, when it has a dispatch, and its decoder.\<close>

definition payload_path_prefix :: "string option \<Rightarrow> string option" where
  "payload_path_prefix dispatch =
     map_option (\<lambda>p. if p = ''/'' then ''/_payload'' else rev (dropWhile (\<lambda>c. c = CHR ''/'') (rev p)) @ ''/_payload'') dispatch"

definition is_path_candidate :: "string option \<Rightarrow> http_request \<Rightarrow> bool" where
  "is_path_candidate dispatch rq =
     (case payload_path_prefix dispatch of
        None \<Rightarrow> False
      | Some p \<Rightarrow> rq_raw_path rq = p \<or> prefix (p @ ''/'') (rq_raw_path rq))"

definition plain_options :: "string \<Rightarrow> filename_source \<Rightarrow> bool \<Rightarrow> payload_options" where
  "plain_options content_type source allow = \<lparr>po_content_type = content_type, po_source = source, po_allow_chunks = allow, po_json = False,
     po_raw = None, po_part_filename = None, po_encoded = None, po_encoding = None, po_name = None\<rparr>"

definition octets :: string where "octets = ''application/octet-stream''"

definition decoder_media :: "(string, string) dict" where
  "decoder_media = [(''json'', ''application/json''), (''form'', ''application/x-www-form-urlencoded''), (''multipart'', ''multipart/form-data''),
     (''text'', ''text/plain''), (''raw'', ''application/octet-stream'')]"

definition body_profile :: "string \<Rightarrow> http_request \<Rightarrow> adv_fail + string \<times> string" where
  "body_profile decoder rq =
     (case get_header_values ''content-type'' rq of
        [declared] \<Rightarrow>
          and_then (content_type_params (tl (py_split CHR '';'' declared)) []) (\<lambda>params.
          let base = content_type_base declared in
          if base = ''text/plain'' \<and> py_lower (case dict_get params ''charset'' of None \<Rightarrow> ''utf-8'' | Some c \<Rightarrow> c) \<noteq> ''utf-8'' then Inl unsupported_media
          else if decoder = ''auto''
          then (if base = ''application/json'' then Inr (''json'', base)
            else if base = ''application/x-www-form-urlencoded'' then Inr (''form'', base)
            else if base = ''multipart/form-data'' then Inr (''multipart-encoded'', base)
            else if is_xml_media base then Inr (''xml'', base)
            else if base = ''text/plain'' then Inr (''text'', base)
            else if base = octets then Inr (''raw'', base)
            else Inl unsupported_media)
          else if decoder = ''xml'' then (if is_xml_media base then Inr (''xml'', base) else Inl unsupported_media)
          else if dict_get decoder_media decoder \<noteq> Some base then Inl unsupported_media
          else Inr (if decoder = ''multipart'' then ''multipart-encoded'' else decoder, base))
      | _ \<Rightarrow> Inl unsupported_media)"

definition text_occurrences :: "(string \<times> string) list \<Rightarrow> field_occurrence list" where
  "text_occurrences kvs = map (\<lambda>(i, k, v). \<lparr>fo_name = k, fo_value = Text_Value v, fo_order = i, fo_display = k\<rparr>) (enumerate 0 kvs)"

definition parse_json_body :: "adv_env \<Rightarrow> http_request \<Rightarrow> adv_fail + adv_payload" where
  "parse_json_body env rq =
     (case ae_json env (rq_body rq) of
        Json_Malformed \<Rightarrow> Inl (Adv_Error 400 ''malformed_json'' None)
      | Json_Not_Object \<Rightarrow> Inl (Adv_Error 400 ''invalid_json_type'' None)
      | Json_Raises e \<Rightarrow> Inl (Uncaught e)
      | Json_Duplicate k \<Rightarrow> Inl (invalid_field (json_field_for_invalid k))
      | Json_Object members \<Rightarrow>
          build_payload env In_Body ''json''
            (map (\<lambda>(i, k, v). \<lparr>fo_name = k, fo_value = v, fo_order = i, fo_display = k\<rparr>) (enumerate 0 members))
            ((plain_options octets From_Body True)\<lparr>po_json := True\<rparr>))"

definition parse_form_body :: "adv_env \<Rightarrow> http_request \<Rightarrow> adv_fail + adv_payload" where
  "parse_form_body env rq =
     (case ae_decode env (rq_body rq) of
        None \<Rightarrow> Inl (invalid_field ''data'')
      | Some raw \<Rightarrow> and_then (parse_query_pairs env raw)
          (\<lambda>kvs. build_payload env In_Body ''form'' (text_occurrences kvs) (plain_options octets From_Body True)))"

fun xml_children :: "nat \<Rightarrow> xml_child list \<Rightarrow> adv_fail + field_occurrence list" where
  "xml_children i [] = Inr []"
| "xml_children i (c # cs) =
     (if xc_tag c \<notin> set FIELD_NAMES then Inl (invalid_field (json_field_for_invalid (xc_tag c)))
      else if \<not> xc_plain c then Inl (invalid_field (xc_tag c))
      else map_sum id ((#) \<lparr>fo_name = xc_tag c, fo_value = Text_Value (xc_text c), fo_order = i, fo_display = xc_tag c\<rparr>) (xml_children (Suc i) cs))"

text \<open>\<open>ae_xml\<close> gives nothing for a document that is malformed or has comments or processing instructions; for an encoding declaration
  that the parser does not support it raises what nobody catches. \<open>xc_plain\<close>: no attributes, no children and no text behind.\<close>

definition parse_xml_body :: "adv_env \<Rightarrow> http_request \<Rightarrow> adv_fail + adv_payload" where
  "parse_xml_body env rq =
     (case ae_xml env (rq_body rq) of
        Inl e \<Rightarrow> Inl (Uncaught e)
      | Inr None \<Rightarrow> Inl (invalid_field ''data'')
      | Inr (Some r) \<Rightarrow>
          if xr_tag r \<noteq> ''upload'' \<or> xr_attributes r \<or> xr_text r \<noteq> [] then Inl (invalid_field ''data'')
          else and_then (xml_children 0 (xr_children r))
            (\<lambda>ocs. build_payload env In_Body ''xml'' ocs (plain_options octets From_Body False)))"

fun scalar_parts :: "adv_env \<Rightarrow> nat \<Rightarrow> multipart_part list \<Rightarrow> adv_fail + field_occurrence list" where
  "scalar_parts env i [] = Inr []"
| "scalar_parts env i (p # ps) =
     (case ae_decode env (mp_payload p) of
        None \<Rightarrow> Inl (invalid_field (mp_field_name p))
      | Some v \<Rightarrow> map_sum id ((#) \<lparr>fo_name = mp_field_name p, fo_value = Text_Value v, fo_order = i, fo_display = mp_field_name p\<rparr>)
          (scalar_parts env (Suc i) ps))"

definition parse_multipart_body :: "adv_env \<Rightarrow> http_request \<Rightarrow> adv_fail + adv_payload" where
  "parse_multipart_body env rq =
     (case parse_multipart_form_data (ae_boundary env) (ae_part env) (hd (get_header_values ''content-type'' rq)) (rq_body rq) of
        Inl _ \<Rightarrow> Inl (invalid_field ''file'')
      | Inr parts \<Rightarrow>
          and_then (scalar_parts env 0 (filter (\<lambda>p. mp_filename p = None) parts)) (\<lambda>ocs.
          case filter (\<lambda>p. mp_filename p \<noteq> None) parts of
            [] \<Rightarrow> build_payload env In_Body ''multipart-encoded'' ocs (plain_options octets From_Body True)
          | [p] \<Rightarrow>
              if list_ex is_data_field ocs then Inl (invalid_field ''data'')
              else if mp_field_name p \<noteq> ''file'' \<or> mp_filename p = Some [] then Inl (invalid_field ''file'')
              else if mp_payload p = [] then Inl (empty_payload ''multipart-binary'')
              else build_payload env In_Body ''multipart-binary'' ocs
                ((plain_options (mp_content_type p) From_Part False)\<lparr>po_raw := Some (mp_payload p), po_part_filename := mp_filename p\<rparr>)
          | _ \<Rightarrow> Inl (invalid_field ''file'')))"

text \<open>\<open>_parse_text_body\<close> and \<open>_parse_raw_body\<close>: the metadata comes from the headers.\<close>

definition parse_plain_body :: "adv_env \<Rightarrow> string \<Rightarrow> string \<Rightarrow> http_request \<Rightarrow> adv_fail + adv_payload" where
  "parse_plain_body env profile content_type rq =
     (if profile = ''text'' \<and> ae_decode env (rq_body rq) = None then Inl (invalid_field ''data'')
      else and_then (header_scan rq) (\<lambda>ocs. build_payload env In_Body profile
        (filter (\<lambda>oc. fo_name oc \<noteq> ''data'' \<and> \<not> prefix ''data_'' (fo_name oc)) ocs)
        ((plain_options content_type From_Header False)\<lparr>po_raw := Some (rq_body rq)\<rparr>)))"

definition base64url_char :: "char \<Rightarrow> bool" where "base64url_char c \<longleftrightarrow> is_alnum c \<or> c = CHR ''_'' \<or> c = CHR ''-''"

fun has_percent_triplet :: "string \<Rightarrow> bool" where
  "has_percent_triplet (p # a # b # r) \<longleftrightarrow> (p = CHR ''%'' \<and> is_hex a \<and> is_hex b) \<or> has_percent_triplet (a # b # r)"
| "has_percent_triplet _ \<longleftrightarrow> False"

fun path_metadata :: "field_occurrence list \<Rightarrow> adv_fail + field_occurrence list" where
  "path_metadata [] = Inr []"
| "path_metadata (oc # ocs) =
     (if fo_name oc \<in> {''data'', ''name'', ''encoding''} \<or> is_chunk_name (fo_name oc) then Inl (invalid_field (fo_name oc))
      else if fo_name oc \<notin> set FIELD_NAMES then Inl (invalid_field (fo_display oc))
      else map_sum id ((#) oc) (path_metadata ocs))"

definition parse_reserved_path_carrier :: "adv_env \<Rightarrow> string option \<Rightarrow> http_request \<Rightarrow> field_occurrence list \<Rightarrow> adv_fail + adv_payload" where
  "parse_reserved_path_carrier env dispatch rq query =
     (case payload_path_prefix dispatch of
        None \<Rightarrow> Inl (missing_field ''data'')
      | Some pre \<Rightarrow>
          (case py_split CHR ''/'' (drop (length pre) (rq_raw_path rq)) of
             [[], raw_name, encoded] \<Rightarrow>
               if raw_name = [] \<or> encoded = [] then Inl (invalid_field ''data'')
               else and_then (strict_percent_decode_text env False raw_name) (\<lambda>name.
                 if name = [] \<or> name = ''.'' \<or> name = ''..'' \<or> CHR ''/'' \<in> set name \<or> CHR 0x5C \<in> set name
                    \<or> list_ex (\<lambda>c. ord c < 0x20 \<or> ord c = 0x7F) name \<or> has_percent_triplet name
                 then Inl (invalid_field ''name'')
                 else if \<not> list_all base64url_char encoded then Inl (invalid_field ''data'')
                 else and_then (path_metadata query) (\<lambda>ocs.
                   build_payload env In_Path ''path'' ocs
                     ((plain_options octets From_Path False)\<lparr>po_encoded := Some encoded, po_encoding := Some ''base64url'', po_name := Some name\<rparr>)))
           | _ \<Rightarrow> Inl (invalid_field ''data'')))"

record adv_limits =
  al_header :: nat
  al_url :: nat

definition encoded_limit :: "adv_limits \<Rightarrow> adv_carrier \<Rightarrow> nat option" where
  "encoded_limit lm carrier =
     (if carrier = In_Headers \<or> carrier = In_Cookies then Some (al_header lm)
      else if carrier = In_Query \<or> carrier = In_Path then Some (al_url lm)
      else None)"

definition check_encoded_limit :: "adv_limits \<Rightarrow> adv_payload \<Rightarrow> adv_fail + adv_payload" where
  "check_encoded_limit lm p =
     (case (ap_encoded p, encoded_limit lm (ap_carrier p)) of
        (Some e, Some m) \<Rightarrow> if m < length (utf8_encode e) then Inl (Adv_Error 413 ''payload_too_large'' (Some ''data'')) else Inr p
      | _ \<Rightarrow> Inr p)"

text \<open>The carriers that are present, and the parsing of a body.\<close>

definition present_carriers ::
  "string option \<Rightarrow> http_request \<Rightarrow> field_occurrence list \<Rightarrow> field_occurrence list \<Rightarrow> field_occurrence list \<Rightarrow> adv_carrier list" where
  "present_carriers dispatch rq header query cookie =
     (if rq_body rq \<noteq> [] then [In_Body] else []) @ (if list_ex is_data_field header then [In_Headers] else []) @
     (if list_ex is_data_field query then [In_Query] else []) @ (if list_ex is_data_field cookie then [In_Cookies] else []) @
     (if is_path_candidate dispatch rq then [In_Path] else [])"

definition parse_body :: "adv_env \<Rightarrow> string \<Rightarrow> http_request \<Rightarrow> field_occurrence list \<Rightarrow> adv_fail + adv_payload" where
  "parse_body env decoder rq header =
     and_then (body_profile decoder rq) (\<lambda>(profile, content_type).
     if profile = ''raw'' \<or> profile = ''text'' then parse_plain_body env profile content_type rq
     else if list_ex is_metadata_field header then Inl (invalid_field (fo_display (hd (filter is_metadata_field header))))
     else if profile = ''json'' then parse_json_body env rq
     else if profile = ''form'' then parse_form_body env rq
     else if profile = ''xml'' then parse_xml_body env rq
     else parse_multipart_body env rq)"

definition parse_advanced_payload :: "adv_env \<Rightarrow> string option \<Rightarrow> string \<Rightarrow> adv_limits \<Rightarrow> http_request \<Rightarrow> adv_fail + adv_payload" where
  "parse_advanced_payload env dispatch decoder lm rq =
     and_then (header_scan rq) (\<lambda>header.
     and_then (query_scan env rq) (\<lambda>query.
     and_then (cookie_scan env rq) (\<lambda>cookie.
     case present_carriers dispatch rq header query cookie of
       [] \<Rightarrow> Inl (missing_field ''data'')
     | [selected] \<Rightarrow>
         if selected \<notin> {In_Query, In_Path} \<and> list_ex is_metadata_field query then Inl (invalid_field ''query'')
         else if selected \<noteq> In_Cookies \<and> list_ex is_metadata_field cookie then Inl (invalid_field ''cookie'')
         else if selected \<notin> {In_Headers, In_Body} \<and> list_ex is_metadata_field header then Inl (invalid_field ''headers'')
         else and_then (case selected of
             In_Headers \<Rightarrow> build_payload env In_Headers ''header'' header (plain_options octets From_Header True)
           | In_Query \<Rightarrow> build_payload env In_Query ''query'' query (plain_options octets From_Query True)
           | In_Cookies \<Rightarrow> build_payload env In_Cookies ''cookies'' cookie (plain_options octets From_Cookie False)
           | In_Path \<Rightarrow> parse_reserved_path_carrier env dispatch rq query
           | In_Body \<Rightarrow> parse_body env decoder rq header) (check_encoded_limit lm)
     | _ \<Rightarrow> Inl (Adv_Error 400 ''ambiguous_payload'' (Some ''data'')))))"

subsection \<open>Decoding\<close>

definition strict_base64 :: "string \<Rightarrow> adv_fail + bytes" where
  "strict_base64 s =
     (case b64decode_strict s of
        None \<Rightarrow> Inl invalid_encoding
      | Some d \<Rightarrow> if b64encode d \<noteq> s then Inl invalid_encoding else Inr d)"

definition strict_base64url :: "string \<Rightarrow> adv_fail + bytes" where
  "strict_base64url s =
     (if s = [] \<or> \<not> list_all base64url_char s then Inl invalid_encoding
      else (case b64url_decode s of Inl _ \<Rightarrow> Inl invalid_encoding | Inr d \<Rightarrow> Inr d))"

text \<open>\<open>bytes.fromhex\<close>: pairs of digits of either case, with white space between them.\<close>

fun from_hex :: "string \<Rightarrow> bytes option" where
  "from_hex [] = Some []"
| "from_hex (c # cs) =
     (if c \<in> set [CHR '' '', CHR 0x09, CHR 0x0A, CHR 0x0B, CHR 0x0C, CHR 0x0D] then from_hex cs
      else (case cs of
          d # r \<Rightarrow> if is_hex c \<and> is_hex d then map_option ((#) (word_of_nat (hex_digit_value c * 16 + hex_digit_value d))) (from_hex r) else None
        | [] \<Rightarrow> None))"

text \<open>\<open>_bounded_gzip_decompress\<close>: members one after another, never more than one byte beyond the limit. Every member takes bytes
  from its input, so the length of the input bounds their number.\<close>

fun gunzip :: "(bytes \<Rightarrow> bytes \<times> gzip_end) \<Rightarrow> nat \<Rightarrow> nat \<Rightarrow> bytes \<Rightarrow> bytes \<Rightarrow> adv_fail + bytes" where
  "gunzip member fuel limit out [] = Inr out"
| "gunzip member 0 limit out pending = Inl invalid_encoding"
| "gunzip member (Suc fuel) limit out pending =
     (let (decoded, e) = member pending
      in if limit < length out + length decoded then Inl Decoded_Too_Large
         else (case e of Gzip_Broken \<Rightarrow> Inl invalid_encoding | Gzip_Eof rest \<Rightarrow> gunzip member fuel limit (out @ decoded) rest))"

definition bounded_gzip_decompress :: "adv_env \<Rightarrow> nat \<Rightarrow> bytes \<Rightarrow> adv_fail + bytes" where
  "bounded_gzip_decompress env limit compressed =
     (if compressed = [] then Inl invalid_encoding else gunzip (ae_member env) (length compressed) limit [] compressed)"

definition decode_text :: "adv_env \<Rightarrow> nat \<Rightarrow> string \<Rightarrow> string \<Rightarrow> adv_fail + bytes" where
  "decode_text env limit encoding s =
     (if encoding = ''raw'' then Inr (utf8_encode s)
      else if encoding = ''base64'' then strict_base64 s
      else if encoding = ''base64url'' then strict_base64url s
      else if encoding = ''hex'' then (case from_hex s of None \<Rightarrow> Inl invalid_encoding | Some d \<Rightarrow> Inr d)
      else if encoding = ''percent'' then strict_percent_decode_bytes False s
      else if encoding = ''gzip-base64'' then and_then (strict_base64 s) (bounded_gzip_decompress env limit)
      else and_then (strict_base64url s) (bounded_gzip_decompress env limit))"

definition decode_advanced_payload_data :: "adv_env \<Rightarrow> nat \<Rightarrow> adv_payload \<Rightarrow> adv_fail + bytes" where
  "decode_advanced_payload_data env limit p =
     and_then (case ap_raw p of Some d \<Rightarrow> Inr d | None \<Rightarrow> decode_text env limit (the (ap_encoding p)) (the (ap_encoded p)))
       (\<lambda>d. if d = [] then Inl (empty_payload (ap_profile p)) else if limit < length d then Inl Decoded_Too_Large else Inr d)"

subsection \<open>One carrier\<close>

lemma build_payload_fields:
  assumes "build_payload env carrier profile ocs po = Inr p"
  shows "ap_carrier p = carrier \<and> ap_raw p = po_raw po \<and> (ap_raw p = None) = (ap_encoded p \<noteq> None) \<and> ap_encryption p \<in> set ENCRYPTIONS \<and>
    (ap_encryption p = ''none'') = (ap_key p = None) \<and> (ap_hmac p \<noteq> None \<longrightarrow> ap_key p \<noteq> None)"
proof -
  obtain vals chunks where c: "collect_fields (po_allow_chunks po) ocs [] [] = Inr (vals, chunks)"
    using assms by (cases "collect_fields (po_allow_chunks po) ocs [] []") (auto simp: build_payload_def)
  note r = assms[unfolded build_payload_def c and_then_simps prod.case]
  obtain encoded where e: "find_data po vals chunks = Inr encoded"
    using r by (cases "find_data po vals chunks") (simp_all split: if_splits)
  note r = r[unfolded e and_then_simps]
  obtain encoding where g: "find_encoding po vals = Inr encoding"
    using r by (cases "find_encoding po vals") (simp_all split: if_splits)
  note r = r[unfolded g and_then_simps]
  obtain enc where n: "field_text vals ''encryption'' = Inr (Some enc)"
    using r by (cases "field_text vals ''encryption''") (simp_all split: if_splits option.splits)
  note r = r[unfolded n and_then_simps option.case]
  obtain key b64 where k: "find_key env (po_json po) vals = Inr (key, b64)"
    using r by (cases "find_key env (po_json po) vals") (simp_all split: if_splits, metis surj_pair)
  note r = r[unfolded k and_then_simps prod.case]
  obtain hmac where h: "find_hmac vals = Inr hmac"
    using r by (cases "find_hmac vals") (simp_all split: if_splits)
  note r = r[unfolded h and_then_simps]
  obtain m where m: "find_override vals = Inr m"
    using r by (cases "find_override vals") (simp_all split: if_splits)
  note r = r[unfolded m and_then_simps]
  obtain name source where f: "find_name po vals = Inr (name, source)"
    using r by (cases "find_name po vals") (simp_all split: if_splits, metis surj_pair)
  note r = r[unfolded f and_then_simps prod.case]
  show ?thesis using r by (auto split: if_splits)
qed

lemma build_payload_carrier: "build_payload env carrier profile ocs po = Inr p \<Longrightarrow> ap_carrier p = carrier"
  using build_payload_fields by blast

lemma body_parser_carriers:
  "parse_plain_body env profile content_type rq = Inr p \<Longrightarrow> ap_carrier p = In_Body"
  "parse_json_body env rq = Inr p \<Longrightarrow> ap_carrier p = In_Body"
  "parse_form_body env rq = Inr p \<Longrightarrow> ap_carrier p = In_Body"
  "parse_xml_body env rq = Inr p \<Longrightarrow> ap_carrier p = In_Body"
  "parse_multipart_body env rq = Inr p \<Longrightarrow> ap_carrier p = In_Body"
proof -
  show "parse_plain_body env profile content_type rq = Inr p \<Longrightarrow> ap_carrier p = In_Body"
    unfolding parse_plain_body_def by (auto simp: and_then_Inr split: if_splits intro: build_payload_carrier)
  show "parse_json_body env rq = Inr p \<Longrightarrow> ap_carrier p = In_Body"
    unfolding parse_json_body_def by (auto split: json_body.splits intro: build_payload_carrier)
  show "parse_form_body env rq = Inr p \<Longrightarrow> ap_carrier p = In_Body"
    unfolding parse_form_body_def by (auto simp: and_then_Inr split: option.splits intro: build_payload_carrier)
  show "parse_xml_body env rq = Inr p \<Longrightarrow> ap_carrier p = In_Body"
    unfolding parse_xml_body_def by (auto simp: and_then_Inr split: sum.splits option.splits if_splits intro: build_payload_carrier)
  show "parse_multipart_body env rq = Inr p \<Longrightarrow> ap_carrier p = In_Body"
  proof -
    assume r: "parse_multipart_body env rq = Inr p"
    then obtain parts where parts: "parse_multipart_form_data (ae_boundary env) (ae_part env) (hd (get_header_values ''content-type'' rq)) (rq_body rq) = Inr parts"
      by (auto simp: parse_multipart_body_def split: sum.splits)
    note r = r[unfolded parse_multipart_body_def parts sum.case]
    obtain ocs where ocs: "scalar_parts env 0 (filter (\<lambda>p. mp_filename p = None) parts) = Inr ocs"
      using r by (cases "scalar_parts env 0 (filter (\<lambda>p. mp_filename p = None) parts)") simp_all
    note r = r[unfolded ocs and_then_simps]
    consider "filter (\<lambda>p. mp_filename p \<noteq> None) parts = []" | q where "filter (\<lambda>p. mp_filename p \<noteq> None) parts = [q]"
      | q q' qs where "filter (\<lambda>p. mp_filename p \<noteq> None) parts = q # q' # qs" by (metis neq_Nil_conv)
    then show ?thesis using r by cases (simp_all split: if_splits, auto intro: build_payload_carrier)
  qed
qed

lemma parse_body_carrier:
  assumes "parse_body env decoder rq header = Inr p"
  shows "ap_carrier p = In_Body"
proof -
  obtain profile content_type where "body_profile decoder rq = Inr (profile, content_type)"
    using assms by (auto simp: parse_body_def and_then_Inr)
  then show ?thesis using assms body_parser_carriers by (auto simp: parse_body_def split: if_splits)
qed

lemma parse_path_carrier:
  assumes "parse_reserved_path_carrier env dispatch rq query = Inr p"
  shows "ap_carrier p = In_Path"
proof -
  obtain ocs po where "build_payload env In_Path ''path'' ocs po = Inr p"
    using assms unfolding parse_reserved_path_carrier_def
    by (auto simp: and_then_Inr split: option.splits list.splits if_splits)
  then show ?thesis by (rule build_payload_carrier)
qed

definition parse_selected ::
  "adv_env \<Rightarrow> string option \<Rightarrow> string \<Rightarrow> http_request \<Rightarrow> field_occurrence list \<Rightarrow> field_occurrence list \<Rightarrow> field_occurrence list \<Rightarrow> adv_carrier
     \<Rightarrow> adv_fail + adv_payload" where
  "parse_selected env dispatch decoder rq header query cookie selected =
     (case selected of
        In_Headers \<Rightarrow> build_payload env In_Headers ''header'' header (plain_options octets From_Header True)
      | In_Query \<Rightarrow> build_payload env In_Query ''query'' query (plain_options octets From_Query True)
      | In_Cookies \<Rightarrow> build_payload env In_Cookies ''cookies'' cookie (plain_options octets From_Cookie False)
      | In_Path \<Rightarrow> parse_reserved_path_carrier env dispatch rq query
      | In_Body \<Rightarrow> parse_body env decoder rq header)"

lemma parse_selected_carrier: "parse_selected env dispatch decoder rq header query cookie c = Inr p \<Longrightarrow> ap_carrier p = c"
  by (cases c) (simp_all add: parse_selected_def parse_body_carrier parse_path_carrier build_payload_carrier)

text \<open>C2. Exactly one carrier. When a payload is accepted, one carrier and no other held payload data, it is the one the payload names, the
  carriers that were not used hold no metadata either (but a body may have its metadata in headers, and a path in the
  query), and encoded data that came in headers, cookies or the target is within the limit for it.\<close>

theorem accepted_payload_has_one_carrier:
  assumes "parse_advanced_payload env dispatch decoder lm rq = Inr p"
  shows "\<exists>header query cookie. header_scan rq = Inr header \<and> query_scan env rq = Inr query \<and> cookie_scan env rq = Inr cookie \<and>
    present_carriers dispatch rq header query cookie = [ap_carrier p] \<and>
    (ap_carrier p \<in> {In_Query, In_Path} \<or> list_all (\<lambda>oc. \<not> is_metadata_field oc) query) \<and>
    (ap_carrier p = In_Cookies \<or> list_all (\<lambda>oc. \<not> is_metadata_field oc) cookie) \<and>
    (ap_carrier p \<in> {In_Headers, In_Body} \<or> list_all (\<lambda>oc. \<not> is_metadata_field oc) header) \<and>
    (case (ap_encoded p, encoded_limit lm (ap_carrier p)) of (Some e, Some m) \<Rightarrow> length (utf8_encode e) \<le> m | _ \<Rightarrow> True)"
proof -
  obtain header query cookie where scans: "header_scan rq = Inr header" "query_scan env rq = Inr query" "cookie_scan env rq = Inr cookie"
    using assms by (auto simp: parse_advanced_payload_def and_then_Inr)
  obtain c where c: "present_carriers dispatch rq header query cookie = [c]"
    "c \<in> {In_Query, In_Path} \<or> \<not> list_ex is_metadata_field query" "c = In_Cookies \<or> \<not> list_ex is_metadata_field cookie"
    "c \<in> {In_Headers, In_Body} \<or> \<not> list_ex is_metadata_field header"
    "and_then (parse_selected env dispatch decoder rq header query cookie c) (check_encoded_limit lm) = Inr p"
    using assms scans unfolding parse_advanced_payload_def parse_selected_def by (auto split: list.splits if_splits)
  obtain q where q: "parse_selected env dispatch decoder rq header query cookie c = Inr q" "check_encoded_limit lm q = Inr p"
    using c(5) by (auto simp: and_then_Inr)
  have p: "q = p" "case (ap_encoded p, encoded_limit lm (ap_carrier p)) of (Some e, Some m) \<Rightarrow> length (utf8_encode e) \<le> m | _ \<Rightarrow> True"
    using q(2) by (auto simp: check_encoded_limit_def split: option.splits if_splits)
  have "ap_carrier p = c" using parse_selected_carrier[OF q(1)] p(1) by simp
  moreover have "list_all (\<lambda>oc. \<not> is_metadata_field oc) xs \<longleftrightarrow> \<not> list_ex is_metadata_field xs" for xs
    by (simp add: list_all_iff list_ex_iff)
  ultimately show ?thesis using scans c(1-4) p(2) by auto
qed

subsection \<open>Numbered chunks\<close>

theorem join_chunks_iff:
  "join_chunks k cs = Inr s \<longleftrightarrow>
     map fst cs = [k..<k + length cs] \<and> (\<exists>ts. map (\<lambda>(_, oc). fo_value oc) cs = map Text_Value ts \<and> s = concat ts)"
proof (induction k cs arbitrary: s rule: join_chunks.induct)
  case (2 expected n oc cs)
  have up: "[expected..<expected + length ((n, oc) # cs)] = expected # [Suc expected..<Suc expected + length cs]"
    by (simp add: upt_rec)
  show ?case
  proof (cases "n = expected")
    case True
    have "join_chunks expected ((n, oc) # cs) = Inr s \<longleftrightarrow> (\<exists>t u. fo_value oc = Text_Value t \<and> join_chunks (Suc expected) cs = Inr u \<and> s = t @ u)"
      using True by (auto simp: and_then_Inr map_sum_Inr field_as_string_def split: adv_value.splits)
    also have "\<dots> \<longleftrightarrow> map fst ((n, oc) # cs) = [expected..<expected + length ((n, oc) # cs)] \<and>
        (\<exists>ts. map (\<lambda>(_, oc). fo_value oc) ((n, oc) # cs) = map Text_Value ts \<and> s = concat ts)"
    proof
      assume "\<exists>t u. fo_value oc = Text_Value t \<and> join_chunks (Suc expected) cs = Inr u \<and> s = t @ u"
      then obtain t ts where t: "fo_value oc = Text_Value t" "map fst cs = [Suc expected..<Suc expected + length cs]"
        "map (\<lambda>(_, oc). fo_value oc) cs = map Text_Value ts" "s = t @ concat ts"
        using 2 True by auto
      then show "map fst ((n, oc) # cs) = [expected..<expected + length ((n, oc) # cs)] \<and>
          (\<exists>ts. map (\<lambda>(_, oc). fo_value oc) ((n, oc) # cs) = map Text_Value ts \<and> s = concat ts)"
        unfolding up using True by (intro conjI exI[of _ "t # ts"]) simp_all
    next
      assume r: "map fst ((n, oc) # cs) = [expected..<expected + length ((n, oc) # cs)] \<and>
          (\<exists>ts. map (\<lambda>(_, oc). fo_value oc) ((n, oc) # cs) = map Text_Value ts \<and> s = concat ts)"
      then obtain t ts where "fo_value oc = Text_Value t" "map (\<lambda>(_, oc). fo_value oc) cs = map Text_Value ts" "s = t @ concat ts"
        by (auto simp: Cons_eq_map_conv)
      moreover have "map fst cs = [Suc expected..<Suc expected + length cs]" using r unfolding up by simp
      ultimately show "\<exists>t u. fo_value oc = Text_Value t \<and> join_chunks (Suc expected) cs = Inr u \<and> s = t @ u" using 2 True by auto
    qed
    finally show ?thesis .
  next
    case False
    then show ?thesis unfolding up by simp
  qed
qed auto

text \<open>A chunk number of more than 4300 digits makes \<open>int\<close> raise, which the handler does not catch.\<close>

theorem long_chunk_number_raises:
  assumes "4300 < length ds" "list_all is_digit ds" "hd ds \<noteq> CHR ''0''" "fo_name oc = ''data_'' @ ds"
  shows "build_payload env carrier profile (oc # ocs) po = Inl (Uncaught ValueError)"
proof -
  have d: "digits_after ''data_'' (fo_name oc) = Some ds" using assms by (auto simp: digits_after_def)
  have "py_int ds = None" using py_int_too_long[OF assms(1,2)] .
  then have v: "validate_chunk_name (fo_name oc) = Inl (Uncaught ValueError)" using assms(3) d by (simp add: validate_chunk_name_def)
  have "CHR ''0'' \<notin> set f \<and> (\<forall>c \<in> set f. \<not> is_digit c) \<or> f = ''key_is_base64''" if "f \<in> set FIELD_NAMES" for f
    using that by (auto simp: FIELD_NAMES_def is_digit_def)
  moreover have "hd ds \<in> set (fo_name oc)" "is_digit (hd ds)" "fo_name oc \<noteq> ''key_is_base64''"
    using assms by (cases ds; auto)+
  ultimately have "fo_name oc \<notin> set FIELD_NAMES" by blast
  then show ?thesis using v by (simp add: build_payload_def)
qed

subsection \<open>Decoded data\<close>

lemma strict_base64_iff: "strict_base64 s = Inr d \<longleftrightarrow> s = b64encode d"
  by (auto simp: strict_base64_def split: option.splits if_splits)

lemma strict_base64url_iff: "strict_base64url s = Inr d \<longleftrightarrow> s \<noteq> [] \<and> s = b64url_encode d"
proof -
  have "list_all base64url_char s" if "b64url_decode s = Inr d" for d
    using that by (auto simp: b64url_decode_def base64url_char_def list_all_iff split: if_splits)
  then show ?thesis using b64url_decode_iff[of s d] by (auto simp: strict_base64url_def split: sum.splits)
qed

lemma gunzip_bounded: "gunzip member fuel limit out pending = Inr d \<Longrightarrow> length out \<le> limit \<Longrightarrow> length d \<le> limit"
  by (induction member fuel limit out pending rule: gunzip.induct) (auto simp: Let_def split: prod.splits if_splits gzip_end.splits)

text \<open>Decoded data is never empty and within the limit, and for the plain encodings it has exactly one accepted text.\<close>

theorem decoded_within_limit_and_canonical:
  assumes "decode_advanced_payload_data env limit p = Inr d"
  shows "0 < length d \<and> length d \<le> limit \<and>
    (\<forall>e s. ap_raw p = None \<and> ap_encoding p = Some e \<and> ap_encoded p = Some s \<longrightarrow>
       (e = ''base64'' \<longrightarrow> s = b64encode d) \<and> (e = ''base64url'' \<longrightarrow> s = b64url_encode d) \<and> (e = ''raw'' \<longrightarrow> utf8_encode s = d))"
  using assms unfolding decode_advanced_payload_data_def
  by (auto simp: and_then_Inr decode_text_def strict_base64_iff strict_base64url_iff split: if_splits)

definition demo_adv_env :: adv_env where
  "demo_adv_env = \<lparr>ae_decode = (\<lambda>bs. Some (map (\<lambda>b. chr (unat b)) bs)), ae_json = (\<lambda>_. Json_Malformed), ae_xml = (\<lambda>_. Inr None),
     ae_boundary = (\<lambda>_. None), ae_part = (\<lambda>_. None), ae_member = (\<lambda>bs. (bs, Gzip_Eof []))\<rparr>"

definition demo_adv_request :: http_request where
  "demo_adv_request = empty_request\<lparr>rq_raw_path := ''/up'',
     rq_occurrences := [(''Content-Type'', ''application/octet-stream''), (''X-XFerry-Encryption'', ''none'')],
     rq_values := [(''content-type'', [''application/octet-stream'']), (''x-xferry-encryption'', [''none''])],
     rq_raw_values := [(''content-type'', ['' application/octet-stream'']), (''x-xferry-encryption'', ['' none''])],
     rq_body := [1, 2]\<rparr>"

definition demo_adv_limits :: adv_limits where "demo_adv_limits = \<lparr>al_header = 100, al_url = 100\<rparr>"

definition demo_adv_payload :: adv_payload where
  "demo_adv_payload = \<lparr>ap_carrier = In_Body, ap_profile = ''raw'', ap_encoded = None, ap_raw = Some [1, 2], ap_encryption = ''none'', ap_key = None,
     ap_key_is_base64 = False, ap_name = None, ap_hmac = None, ap_encoding = None, ap_method_override = None,
     ap_content_type = ''application/octet-stream'', ap_source = Generated_Source\<rparr>"

lemma demo_adv_parse: "parse_advanced_payload demo_adv_env (Some ''/up'') ''auto'' demo_adv_limits demo_adv_request = Inr demo_adv_payload"
  by code_simp

lemma accepted_payload_has_one_carrier_witness:
  "\<exists>header query cookie. header_scan demo_adv_request = Inr header \<and> query_scan demo_adv_env demo_adv_request = Inr query \<and>
     cookie_scan demo_adv_env demo_adv_request = Inr cookie \<and> present_carriers (Some ''/up'') demo_adv_request header query cookie = [In_Body]"
  using accepted_payload_has_one_carrier[OF demo_adv_parse] by (auto simp: demo_adv_payload_def)

end
