(* ===== verification/Advanced_Upload.thy ===== *)
theory Advanced_Upload
  imports Advanced_Payload File_Safety Py_Json
begin

section \<open>Advanced uploads\<close>

text \<open>
  \<^verbatim>\<open>xferry/handlers/advanced_upload.py\<close> and the ciphers of \<^verbatim>\<open>xferry/security/crypto.py\<close>: a parsed payload is decoded under its limit, its
  integrity is checked, it is decrypted and published. SHA-256, HMAC, PBKDF2 and AES-GCM are parameters, in \<open>adv_crypto\<close>, as is
  the drawn token of a generated name. The touch of the session is the caller's (\<open>Request_Pipeline\<close>).
\<close>

record adv_crypto =
  ac_sha256 :: "bytes \<Rightarrow> bytes"
  ac_hmac_hex :: "bytes \<Rightarrow> bytes \<Rightarrow> string"
  ac_pbkdf2 :: "bytes \<Rightarrow> bytes \<Rightarrow> bytes"
  ac_gcm_encrypt :: "bytes \<Rightarrow> bytes \<Rightarrow> bytes \<Rightarrow> bytes"
  ac_gcm_decrypt :: "bytes \<Rightarrow> bytes \<Rightarrow> bytes \<Rightarrow> bytes option"

subsection \<open>Ciphers\<close>

definition AES_VERSION :: byte where "AES_VERSION = 1"
definition AES_SALT_LEN :: nat where "AES_SALT_LEN = 16"
definition AES_NONCE_LEN :: nat where "AES_NONCE_LEN = 12"

definition derive_aes_key :: "adv_crypto \<Rightarrow> string \<Rightarrow> bytes \<Rightarrow> bytes" where
  "derive_aes_key cr password salt = ac_pbkdf2 cr (utf8_encode password) salt"

text \<open>\<open>salt\<close> and the nonce \<open>iv\<close> are drawn by \<open>os.urandom\<close>.\<close>

definition aes_encrypt :: "adv_crypto \<Rightarrow> bytes \<Rightarrow> bytes \<Rightarrow> bytes \<Rightarrow> string \<Rightarrow> bytes" where
  "aes_encrypt cr salt iv data password =
     [AES_VERSION] @ salt @ iv @ ac_gcm_encrypt cr (derive_aes_key cr password salt) iv data"

definition aes_decrypt :: "adv_crypto \<Rightarrow> bytes \<Rightarrow> string \<Rightarrow> bytes option" where
  "aes_decrypt cr data password =
     (let header_len = 1 + AES_SALT_LEN + AES_NONCE_LEN
      in if length data < header_len + 16 then None
         else if hd data \<noteq> AES_VERSION then None
         else (let salt = take AES_SALT_LEN (drop 1 data); iv = take AES_NONCE_LEN (drop (1 + AES_SALT_LEN) data)
           in ac_gcm_decrypt cr (derive_aes_key cr password salt) iv (drop header_len data)))"

definition xor_bytes :: "adv_crypto \<Rightarrow> bytes \<Rightarrow> string \<Rightarrow> bytes" where
  "xor_bytes cr data password =
     (let key = ac_sha256 cr (utf8_encode password) in map (\<lambda>i. Bit_Operations.xor (data ! i) (key ! (i mod length key))) [0..<length data])"

definition compute_hmac :: "adv_crypto \<Rightarrow> bytes \<Rightarrow> string \<Rightarrow> string" where
  "compute_hmac cr data key = ac_hmac_hex cr (utf8_encode key) data"

definition verify_hmac :: "adv_crypto \<Rightarrow> bytes \<Rightarrow> string \<Rightarrow> string \<Rightarrow> bool" where
  "verify_hmac cr data key expected \<longleftrightarrow> compute_hmac cr data key = expected"

definition xor_encrypt_with_hmac :: "adv_crypto \<Rightarrow> bytes \<Rightarrow> string \<Rightarrow> bytes \<times> string" where
  "xor_encrypt_with_hmac cr data password =
     (let encrypted = xor_bytes cr data password in (encrypted, compute_hmac cr encrypted password))"

definition xor_decrypt_with_hmac :: "adv_crypto \<Rightarrow> bytes \<Rightarrow> string \<Rightarrow> string \<Rightarrow> bytes option" where
  "xor_decrypt_with_hmac cr data password mac = (if \<not> verify_hmac cr data password mac then None else Some (xor_bytes cr data password))"

subsection \<open>The handler\<close>

record upload_limits =
  ul_configured :: int
  ul_upload :: int

definition non_negative :: "int \<Rightarrow> int \<Rightarrow> int" where "non_negative v default_value = (if 0 \<le> v then v else default_value)"

definition ADVANCED_UPLOAD_DECODED_SIZE_LIMIT :: int where "ADVANCED_UPLOAD_DECODED_SIZE_LIMIT = 16 * 1024 * 1024"

definition decoded_size_limit :: "upload_limits \<Rightarrow> nat" where
  "decoded_size_limit ul =
     (let c = non_negative (ul_configured ul) ADVANCED_UPLOAD_DECODED_SIZE_LIMIT in nat (min c (non_negative (ul_upload ul) c)))"

text \<open>A name is made safe by dropping characters; \<open>token\<close> stands for the random part of a generated name.\<close>

definition safe_advanced_filename :: "adv_crypto \<Rightarrow> string \<Rightarrow> adv_payload \<Rightarrow> bytes \<Rightarrow> string \<times> filename_source" where
  "safe_advanced_filename cr token p data =
     (let (name, source) = (case ap_name p of
            Some (c # cs) \<Rightarrow> (c # cs, ap_source p)
          | _ \<Rightarrow> (take 12 (concat (map (\<lambda>b. [hex_digit (unat b div 16), hex_digit (unat b mod 16)]) (ac_sha256 cr data))) @ ''.bin'', Generated_Source));
          safe = filter (\<lambda>c. py_isalnum c \<or> one_of ''._-'' c) name
      in if safe = [] then (''upload_'' @ token, Generated_Source) else (safe, source))"

definition decrypt_advanced_payload :: "adv_crypto \<Rightarrow> nat \<Rightarrow> adv_payload \<Rightarrow> bytes \<Rightarrow> file_answer + bytes" where
  "decrypt_advanced_payload cr limit p data =
     (if \<exists>h \<in> set_option (ap_hmac p). \<not> verify_hmac cr data (the (ap_key p)) h then Inl (Refused 400 ''hmac_mismatch'')
      else if ap_encryption p = ''none'' then Inr data
      else (case (if ap_encryption p = ''xor'' then Some (xor_bytes cr data (the (ap_key p))) else aes_decrypt cr data (the (ap_key p))) of
          None \<Rightarrow> Inl (Refused 400 ''decrypt_failed'')
        | Some d \<Rightarrow>
            if d = [] then Inl (Refused 400 ''empty_payload'')
            else if limit < length d then Inl (Refused 413 ''payload_too_large'')
            else Inr d))"

fun adv_refusal :: "adv_fail \<Rightarrow> file_answer" where
  "adv_refusal (Adv_Error status code field) = Refused status code"
| "adv_refusal Decoded_Too_Large = Refused 413 ''payload_too_large''"
| "adv_refusal (Uncaught e) = Raised e"

text \<open>What is to be published: the file, its name and where that came from.\<close>

definition open_advanced_upload ::
  "adv_env \<Rightarrow> adv_crypto \<Rightarrow> string \<Rightarrow> upload_limits \<Rightarrow> adv_limits \<Rightarrow> string option \<Rightarrow> string \<Rightarrow> http_request
     \<Rightarrow> file_answer + adv_payload \<times> bytes \<times> string \<times> filename_source"
where
  "open_advanced_upload env cr token ul lm dispatch decoder rq =
     (case parse_advanced_payload env dispatch decoder lm rq of
        Inl e \<Rightarrow> Inl (adv_refusal e)
      | Inr p \<Rightarrow>
          (case decode_advanced_payload_data env (decoded_size_limit ul) p of
             Inl e \<Rightarrow> Inl (adv_refusal e)
           | Inr data \<Rightarrow>
               (case decrypt_advanced_payload cr (decoded_size_limit ul) p data of
                  Inl a \<Rightarrow> Inl a
                | Inr file \<Rightarrow> Inr (p, file, safe_advanced_filename cr token p file))))"

definition handle_advanced_upload ::
  "adv_env \<Rightarrow> adv_crypto \<Rightarrow> string \<Rightarrow> upload_limits \<Rightarrow> adv_limits \<Rightarrow> string option \<Rightarrow> string \<Rightarrow> publish_env \<Rightarrow> path \<Rightarrow> http_request
     \<Rightarrow> upload_service \<times> artifact_store \<Rightarrow> file_answer \<times> upload_service \<times> artifact_store"
where
  "handle_advanced_upload env cr token ul lm dispatch decoder pe upload_dir rq st =
     (case open_advanced_upload env cr token ul lm dispatch decoder rq of
        Inl a \<Rightarrow> (a, st)
      | Inr (p, file, safe, source) \<Rightarrow>
          (case publish_bytes pe (butlast (join_path upload_dir safe) = upload_dir) safe file (fst st) of
             (Inl e, s1) \<Rightarrow>
               ((if quota_error e then Refused 507 ''storage_quota_exceeded'' else Refused 500 ''internal_error''), s1, snd st)
           | (Inr published, s1) \<Rightarrow>
               (Stored \<lparr>su_name = published, su_size = length file, su_profile = ap_profile p,
                  su_source = (case source of From_Body \<Rightarrow> ''body'' | From_Part \<Rightarrow> ''part'' | From_Header \<Rightarrow> ''header'' | From_Query \<Rightarrow> ''query''
                    | From_Cookie \<Rightarrow> ''cookie'' | From_Path \<Rightarrow> ''path'' | Generated_Source \<Rightarrow> ''generated''),
                  su_content_type = ap_content_type p, su_renamed = (published \<noteq> safe)\<rparr>,
                s1, registry_discard (path_text (upload_dir @ [published])) (snd st))))"

subsection \<open>The ciphers invert\<close>

lemma xor_bytes_involution: "xor_bytes cr (xor_bytes cr data password) password = data"
proof (rule nth_equalityI)
  have len: "length (xor_bytes cr d password) = length d" for d by (simp add: xor_bytes_def Let_def)
  then show "length (xor_bytes cr (xor_bytes cr data password) password) = length data" by simp
  fix i assume "i < length (xor_bytes cr (xor_bytes cr data password) password)"
  then have i: "i < length data" by (simp add: len)
  have at_i: "xor_bytes cr d password ! i =
      Bit_Operations.xor (d ! i) (ac_sha256 cr (utf8_encode password) ! (i mod length (ac_sha256 cr (utf8_encode password))))"
    if "length d = length data" for d
    using i that by (simp add: xor_bytes_def Let_def)
  show "xor_bytes cr (xor_bytes cr data password) password ! i = data ! i"
    unfolding at_i[OF len] at_i[OF refl] xor.assoc by simp
qed

lemma xor_with_hmac_round_trip:
  "xor_encrypt_with_hmac cr data password = (e, mac) \<Longrightarrow> xor_decrypt_with_hmac cr e password mac = Some data"
  by (auto simp: xor_encrypt_with_hmac_def xor_decrypt_with_hmac_def verify_hmac_def xor_bytes_involution Let_def)

lemma aes_round_trip:
  assumes "length salt = AES_SALT_LEN" "length iv = AES_NONCE_LEN"
    and "\<And>k n d. ac_gcm_decrypt cr k n (ac_gcm_encrypt cr k n d) = Some d"
    and "\<And>k n d. length (ac_gcm_encrypt cr k n d) = length d + 16"
  shows "aes_decrypt cr (aes_encrypt cr salt iv data password) password = Some data"
  using assms by (simp add: aes_decrypt_def aes_encrypt_def AES_SALT_LEN_def AES_NONCE_LEN_def Let_def)

subsection \<open>What is stored\<close>

lemma safe_advanced_name:
  assumes "list_all is_lower_hex token"
  shows "list_all safe_char (fst (safe_advanced_filename cr token p opened)) \<and> fst (safe_advanced_filename cr token p opened) \<noteq> []"
proof -
  have f: "list_all safe_char (filter (\<lambda>c. py_isalnum c \<or> one_of ''._-'' c) s)" for s
    by (auto simp: list_all_iff safe_char_def one_of_def)
  have "list_all safe_char (''upload_'' @ token)"
    using hex_safe[OF assms] by (simp add: safe_char_def py_isalnum_def is_alnum_def is_digit_def ascii_upper_def one_of_def)
  then show ?thesis using f by (simp add: safe_advanced_filename_def Let_def split: prod.splits)
qed

lemma decrypted_within_limit:
  assumes "decrypt_advanced_payload cr limit p data = Inr opened" "0 < length data" "length data \<le> limit"
  shows "0 < length opened \<and> length opened \<le> limit"
  using assms by (auto simp: decrypt_advanced_payload_def split: if_splits option.splits)

text \<open>C12. What an advanced upload stores. When an advanced upload is answered with success, the payload of its one carrier decodes under the limit, passes
  its integrity check if it has one, and decrypts to a file that is not empty and within the limit; and, whatever other requests did
  meanwhile, a FETCH of the answered path sends exactly that file, unless its name is a hidden one.\<close>

theorem advanced_upload_stores_opened_payload:
  assumes "handle_advanced_upload env cr token ul lm dispatch decoder pe d rq (s, store) = (Stored u, s', store')"
    and "list_all is_lower_hex token" "\<And>i. list_all is_lower_hex (pe_suffix pe i)"
    and "\<And>s1. dict_get (us_inflight (pe_between pe s1)) (pe_call pe) = dict_get (us_inflight s1) (pe_call pe)"
    and "clean_base base d" "fe_upload_dir fenv = d" "fe_fs fenv = server_fs base d mtime s'"
    and "fr_path rq' = ''/uploads/'' @ su_name u"
  shows "\<exists>p data opened. parse_advanced_payload env dispatch decoder lm rq = Inr p \<and>
    decode_advanced_payload_data env (decoded_size_limit ul) p = Inr data \<and>
    (\<forall>h. ap_hmac p = Some h \<longrightarrow> verify_hmac cr data (the (ap_key p)) h) \<and>
    Some opened = (if ap_encryption p = ''none'' then Some data else if ap_encryption p = ''xor'' then Some (xor_bytes cr data (the (ap_key p)))
      else aes_decrypt cr data (the (ap_key p))) \<and>
    0 < length opened \<and> length opened \<le> decoded_size_limit ul \<and>
    (if hidden_part (su_name u) then handle_fetch fenv rq' = not_found
     else \<exists>r. handle_fetch fenv rq' = Sent (Some (d @ [su_name u])) r \<and> rs_status r = 200 \<and>
       stat_of (fe_fs fenv) (d @ [su_name u]) = Some (File_Node opened (mtime (su_name u))))"
proof -
  let ?lim = "decoded_size_limit ul"
  obtain p opened safe source where o: "open_advanced_upload env cr token ul lm dispatch decoder rq = Inr (p, opened, safe, source)"
    using assms(1) by (cases "open_advanced_upload env cr token ul lm dispatch decoder rq")
      (auto simp: handle_advanced_upload_def open_advanced_upload_def decrypt_advanced_payload_def split: sum.splits option.splits if_splits
         elim!: adv_refusal.elims)
  have pub: "publish_bytes pe (butlast (join_path d safe) = d) safe opened s = (Inr (su_name u), s')"
    using assms(1) unfolding handle_advanced_upload_def o by (auto split: prod.splits sum.splits if_splits)
  obtain data where q: "parse_advanced_payload env dispatch decoder lm rq = Inr p" "decode_advanced_payload_data env ?lim p = Inr data"
    "decrypt_advanced_payload cr ?lim p data = Inr opened" "(safe, source) = safe_advanced_filename cr token p opened"
    using o by (auto simp: open_advanced_upload_def split: sum.splits)
  have dec: "0 < length data" "length data \<le> ?lim" using q(2) by (auto simp: decode_advanced_payload_data_def and_then_Inr split: if_splits)
  have opened: "0 < length opened \<and> length opened \<le> ?lim" using decrypted_within_limit[OF q(3) dec] .
  have safe: "list_all safe_char safe" "safe \<noteq> []" using safe_advanced_name[OF assms(2), of cr p opened] q(4) by (metis fst_conv)+
  have "(\<forall>h. ap_hmac p = Some h \<longrightarrow> verify_hmac cr data (the (ap_key p)) h) \<and>
      Some opened = (if ap_encryption p = ''none'' then Some data else if ap_encryption p = ''xor'' then Some (xor_bytes cr data (the (ap_key p)))
        else aes_decrypt cr data (the (ap_key p)))"
    using q(3) by (auto simp: decrypt_advanced_payload_def split: if_splits option.splits)
  then show ?thesis using q(1,2) opened published_fetched[OF pub safe assms(3-8)] by blast
qed

definition demo_crypto :: adv_crypto where
  "demo_crypto = \<lparr>ac_sha256 = (\<lambda>_. replicate 32 0), ac_hmac_hex = (\<lambda>_ _. []), ac_pbkdf2 = (\<lambda>_ _. []),
     ac_gcm_encrypt = (\<lambda>_ _ d. d @ replicate 16 0), ac_gcm_decrypt = (\<lambda>_ _ c. Some (take (length c - 16) c))\<rparr>"

definition demo_upload_limits :: upload_limits where "demo_upload_limits = \<lparr>ul_configured = 10, ul_upload = 10\<rparr>"

definition demo_advanced :: "file_answer \<times> upload_service \<times> artifact_store" where
  "demo_advanced = handle_advanced_upload demo_adv_env demo_crypto ''0'' demo_upload_limits demo_adv_limits (Some ''/up'') ''auto'' demo_publish
     [''srv'', ''up''] demo_adv_request
     (upload_service_init \<lparr>sp_max_total_bytes = None, sp_max_file_count = None, sp_reserved_free_bytes = 0\<rparr> [] [] [], no_artifacts)"

lemma demo_adv_decode: "decode_advanced_payload_data demo_adv_env 10 demo_adv_payload = Inr [1, 2]"
  by (simp add: decode_advanced_payload_data_def demo_adv_payload_def)

lemma demo_opened:
  "open_advanced_upload demo_adv_env demo_crypto ''0'' demo_upload_limits demo_adv_limits (Some ''/up'') ''auto'' demo_adv_request =
     Inr (demo_adv_payload, [1, 2], ''000000000000.bin'', Generated_Source)"
proof -
  have l: "decoded_size_limit demo_upload_limits = 10"
    by (simp add: decoded_size_limit_def demo_upload_limits_def non_negative_def)
  have "decrypt_advanced_payload demo_crypto 10 demo_adv_payload [1, 2] = Inr [1, 2]"
    by (simp add: decrypt_advanced_payload_def demo_adv_payload_def)
  moreover have "safe_advanced_filename demo_crypto ''0'' demo_adv_payload [1, 2] = (''000000000000.bin'', Generated_Source)"
    by code_simp
  ultimately show ?thesis by (simp add: open_advanced_upload_def demo_adv_parse demo_adv_decode l)
qed

lemma advanced_upload_stores_opened_payload_witness:
  "\<exists>u s' store'. demo_advanced = (Stored u, s', store') \<and>
    (let env = demo_file_env\<lparr>fe_fs := server_fs demo_base [''srv'', ''up''] (\<lambda>_. 0) s'\<rparr>
     in \<exists>r. handle_fetch env (demo_file_request (''/uploads/'' @ su_name u)) = Sent (Some [''srv'', ''up'', ''000000000000.bin'']) r \<and>
       stat_of (fe_fs env) [''srv'', ''up'', ''000000000000.bin''] = Some (File_Node [1, 2] 0))"
proof -
  obtain u s' store' where u: "demo_advanced = (Stored u, s', store')" "su_name u = ''000000000000.bin''"
    by (simp add: demo_advanced_def handle_advanced_upload_def demo_opened upload_evaluation)
  let ?env = "demo_file_env\<lparr>fe_fs := server_fs demo_base [''srv'', ''up''] (\<lambda>_. 0) s'\<rparr>"
  have h: "\<not> hidden_part (su_name u)" using u(2) by (simp add: hidden_part_def HIDDEN_FILES_def)
  have l: "decoded_size_limit demo_upload_limits = 10"
    by (simp add: decoded_size_limit_def demo_upload_limits_def non_negative_def)
  have "\<exists>r. handle_fetch ?env (demo_file_request (''/uploads/'' @ su_name u)) = Sent (Some ([''srv'', ''up''] @ [su_name u])) r \<and> rs_status r = 200 \<and>
       stat_of (fe_fs ?env) ([''srv'', ''up''] @ [su_name u]) = Some (File_Node [1, 2] 0)"
    using advanced_upload_stores_opened_payload[OF u(1)[unfolded demo_advanced_def] _ _ _ demo_clean, of ?env "\<lambda>_. 0"
        "demo_file_request (''/uploads/'' @ su_name u)"] h demo_adv_parse demo_adv_decode l
    by (simp add: demo_publish_def is_lower_hex_def is_digit_def demo_file_env_def demo_file_request_def demo_adv_payload_def)
  then obtain r where "handle_fetch ?env (demo_file_request (''/uploads/'' @ su_name u)) = Sent (Some [''srv'', ''up'', ''000000000000.bin'']) r"
      "stat_of (fe_fs ?env) [''srv'', ''up'', ''000000000000.bin''] = Some (File_Node [1, 2] 0)"
    by (elim exE conjE) (simp only: u(2) append_Cons append_Nil)
  then show ?thesis unfolding Let_def by (intro exI[of _ u] exI[of _ s'] exI[of _ store'] exI[of _ r] conjI u(1))
qed

end
