(* ===== verification/Smuggle_Policy.thy ===== *)
theory Smuggle_Policy
  imports Artifact_Store File_Handlers
begin

section \<open>The vocabulary of SMUGGLE requests\<close>

text \<open>
  \<^verbatim>\<open>xferry/smuggle/policy.py\<close>: the closed sets of tokens, the validators of single values, the names offered for download and the
  validation of a builder configuration. An error is its code and the field it names; \<open>Smuggle_Raises\<close> is an exception
  that the handler does not catch.
\<close>

datatype smuggle_fail = Smuggle_Error string "string option" | Smuggle_Raises py_error

subsection \<open>Tokens and limits\<close>

definition SMUGGLE_SOURCE_SIZE_LIMIT :: int where "SMUGGLE_SOURCE_SIZE_LIMIT = 10 * 1024 * 1024"

definition SMUGGLE_BUILDER_MAX_DOWNLOAD_NAME :: nat where "SMUGGLE_BUILDER_MAX_DOWNLOAD_NAME = 120"
definition SMUGGLE_BUILDER_MAX_TITLE :: nat where "SMUGGLE_BUILDER_MAX_TITLE = 120"
definition SMUGGLE_BUILDER_MAX_MESSAGE :: nat where "SMUGGLE_BUILDER_MAX_MESSAGE = 280"
definition SMUGGLE_BUILDER_MAX_CTA_LABEL :: nat where "SMUGGLE_BUILDER_MAX_CTA_LABEL = 80"
definition SMUGGLE_BUILDER_MAX_DELAY_MS :: int where "SMUGGLE_BUILDER_MAX_DELAY_MS = 10000"
definition SMUGGLE_BUILDER_MAX_DOWNLOAD_EXT :: nat where "SMUGGLE_BUILDER_MAX_DOWNLOAD_EXT = 32"
definition SMUGGLE_BUILDER_MAX_TRIGGER_EVENT :: nat where "SMUGGLE_BUILDER_MAX_TRIGGER_EVENT = 64"
definition SMUGGLE_BUILDER_MAX_MIME_TYPE :: nat where "SMUGGLE_BUILDER_MAX_MIME_TYPE = 120"

definition SMUGGLE_ENCRYPTIONS :: "string list" where "SMUGGLE_ENCRYPTIONS = [''none'', ''xor'', ''aes'']"
definition SMUGGLE_MODES :: "string list" where "SMUGGLE_MODES = [''simple'', ''constructor'']"
definition SMUGGLE_LOCALES :: "string list" where "SMUGGLE_LOCALES = [''ru'', ''en'']"
definition SMUGGLE_PRESETS :: "string list" where "SMUGGLE_PRESETS = [''direct'', ''card_manual'', ''card_auto'']"

definition SMUGGLE_PAYLOAD_ENCODINGS :: "string list" where
  "SMUGGLE_PAYLOAD_ENCODINGS = [''base64'', ''base64url'', ''base32'', ''percent'', ''reverse'', ''xor'', ''hex'', ''split'', ''attrs'', ''charcode'']"

definition SMUGGLE_OUTPUT_FORMATS :: "string list" where
  "SMUGGLE_OUTPUT_FORMATS = [''html'', ''htm'', ''shtml'', ''shtm'', ''xhtml'', ''xht'', ''xhtm'', ''xml'', ''svg'']"

definition SMUGGLE_PAGE_TEMPLATES :: "string list" where
  "SMUGGLE_PAGE_TEMPLATES = [''default'', ''minimal'', ''corporate'', ''drive'', ''npf-zip-archive-help'']"

definition SMUGGLE_DOWNLOAD_VARIANTS :: "string list" where
  "SMUGGLE_DOWNLOAD_VARIANTS = [''blob-anchor'', ''data-uri'', ''iframe-blob'', ''filereader'', ''fetch-blob'', ''window-open'', ''loc-assign'',
     ''form-post'', ''timeout-blob'', ''promise-blob'', ''raf-blob'', ''microtask-blob'', ''observer-blob'', ''response-blob'', ''readable-stream'',
     ''message-channel-blob'', ''idle-callback-blob'']"

definition SMUGGLE_TRIGGER_EVENTS :: "(string, string list) dict" where
  "SMUGGLE_TRIGGER_EVENTS =
     [(''svg'', [''onload'']), (''body'', [''onload'', ''onpageshow'']), (''img'', [''onerror'', ''onload'']), (''audio'', [''onerror'', ''onloadstart'']),
      (''video'', [''onerror'', ''onloadstart'']), (''source'', [''onerror'']), (''input'', [''onfocus'', ''oninput'', ''onchange'', ''onkeydown'']),
      (''select'', [''onfocus'', ''onchange'']), (''button'', [''onfocus'', ''onclick'', ''onpointerdown'', ''onkeydown'']),
      (''textarea'', [''onfocus'', ''oninput'', ''onchange'', ''onkeydown'']), (''details'', [''ontoggle'', ''onclick'']), (''iframe'', [''srcdoc'', ''onload'']),
      (''animate'', [''onbegin'', ''onend'', ''onrepeat'']), (''animmotion'', [''onbegin'', ''onend'', ''onrepeat'']), (''set'', [''onbegin'', ''onend'']),
      (''cssanim'', [''onanimationstart'', ''onanimationend'', ''onanimationiteration'']),
      (''csstransition'', [''ontransitionrun'', ''ontransitionstart'', ''ontransitionend'']), (''link'', [''onerror'', ''onload'']), (''script'', [''onerror'']),
      (''form'', [''onsubmit'']), (''custom'', [''onfocus'']), (''focusin'', [''onfocusin'']), (''contentvis'', [''oncontentvisibilityautostatechange''])]"

definition SMUGGLE_TRIGGER_METHODS :: "string list" where "SMUGGLE_TRIGGER_METHODS = map fst SMUGGLE_TRIGGER_EVENTS"

text \<open>The code keeps these two as frozen sets, whose iteration order is arbitrary; here they are in the order of the text.\<close>

definition SMUGGLE_CONSTRUCTOR_ONLY_FIELDS :: "string list" where
  "SMUGGLE_CONSTRUCTOR_ONLY_FIELDS = [''payload_encoding'', ''trigger_method'', ''trigger_event'', ''output_format'', ''download_variant'', ''page_template'',
     ''mime_type'', ''null_byte'']"

definition SMUGGLE_SIMPLE_ONLY_FIELDS :: "string list" where "SMUGGLE_SIMPLE_ONLY_FIELDS = [''preset'', ''cta_label'', ''delay_ms'']"

subsection \<open>Validators\<close>

definition alnum_first :: "string \<Rightarrow> bool" where
  "alnum_first s \<longleftrightarrow> s \<noteq> [] \<and> is_alnum (hd s) \<and> list_all (\<lambda>c. is_alnum c \<or> one_of ''_+-'' c) (tl s)"

text \<open>\<open>_EXTENSION_RE\<close>: parts joined by dots, each beginning with a letter or digit.\<close>

definition extension_matches :: "string \<Rightarrow> bool" where "extension_matches s \<longleftrightarrow> list_all alnum_first (py_split CHR ''.'' s)"

definition is_lower_letter :: "char \<Rightarrow> bool" where "is_lower_letter c \<longleftrightarrow> is_alpha c \<and> \<not> ascii_upper c"

definition event_matches :: "string \<Rightarrow> bool" where
  "event_matches s \<longleftrightarrow> prefix ''on'' s \<and> drop 2 s \<noteq> [] \<and> is_lower_letter (hd (drop 2 s)) \<and>
     list_all (\<lambda>c. is_lower_letter c \<or> is_digit c \<or> one_of ''_-'' c) (tl (drop 2 s))"

definition smuggle_normalize_extension :: "string option \<Rightarrow> smuggle_fail + string" where
  "smuggle_normalize_extension value =
     (let given = (case value of None \<Rightarrow> [] | Some v \<Rightarrow> v); raw = (if prefix ''.'' given then tl given else given)
      in if raw = [] \<or> SMUGGLE_BUILDER_MAX_DOWNLOAD_EXT < length raw \<or> \<not> extension_matches raw
         then Inl (Smuggle_Error ''invalid_smuggle_extension'' (Some ''download_ext''))
         else Inr (py_lower raw))"

definition normalize_enum :: "string option \<Rightarrow> string list \<Rightarrow> string \<Rightarrow> smuggle_fail + string" where
  "normalize_enum value allowed field =
     (let raw = (case value of None \<Rightarrow> hd allowed | Some v \<Rightarrow> v)
      in if raw \<notin> set allowed then Inl (Smuggle_Error (''invalid_smuggle_'' @ field) (Some field)) else Inr raw)"

definition normalize_locale :: "string option \<Rightarrow> smuggle_fail + string" where
  "normalize_locale value =
     (let raw = (case value of None \<Rightarrow> ''ru'' | Some v \<Rightarrow> v)
      in if raw \<notin> set SMUGGLE_LOCALES then Inl (Smuggle_Error ''invalid_smuggle_locale'' (Some ''locale'')) else Inr raw)"

definition parse_bool :: "string option \<Rightarrow> string \<Rightarrow> bool \<Rightarrow> smuggle_fail + bool" where
  "parse_bool value field default_value =
     (case value of
        None \<Rightarrow> Inr default_value
      | Some v \<Rightarrow> if v = ''1'' then Inr True else if v = ''0'' then Inr False else Inl (Smuggle_Error (''invalid_smuggle_'' @ field) (Some field)))"

definition normalize_trigger :: "string option \<Rightarrow> string option \<Rightarrow> smuggle_fail + string \<times> string \<times> bool" where
  "normalize_trigger meth event =
     and_then (normalize_enum meth SMUGGLE_TRIGGER_METHODS ''trigger_method'') (\<lambda>m.
     let events = the (dict_get SMUGGLE_TRIGGER_EVENTS m)
     in case event of
          None \<Rightarrow> Inr (m, hd events, False)
        | Some e \<Rightarrow>
            if e \<in> set events then Inr (m, e, False)
            else if \<not> event_matches e then Inl (Smuggle_Error ''invalid_smuggle_trigger_event'' (Some ''trigger_event''))
            else if SMUGGLE_BUILDER_MAX_TRIGGER_EVENT < length e then Inl (Smuggle_Error ''invalid_smuggle_trigger_event'' (Some ''trigger_event''))
            else Inr (m, e, True))"

definition normalize_optional_text :: "string option \<Rightarrow> string \<Rightarrow> nat \<Rightarrow> smuggle_fail + string option" where
  "normalize_optional_text value field limit =
     (case value of
        None \<Rightarrow> Inr None
      | Some v \<Rightarrow>
          if limit < length v \<or> list_ex is_control v
          then Inl (Smuggle_Error (if limit < length v then ''smuggle_field_too_long'' else ''invalid_smuggle_'' @ field) (Some field))
          else Inr (if py_strip v = [] then None else Some (py_strip v)))"

definition normalize_mime_type :: "string option \<Rightarrow> smuggle_fail + string" where
  "normalize_mime_type value =
     (case value of
        None \<Rightarrow> Inr ''application/octet-stream''
      | Some v \<Rightarrow>
          if SMUGGLE_BUILDER_MAX_MIME_TYPE < length v \<or> v = [] \<or> list_ex is_control v
          then Inl (Smuggle_Error (if SMUGGLE_BUILDER_MAX_MIME_TYPE < length v then ''smuggle_field_too_long'' else ''invalid_smuggle_mime_type'') (Some ''mime_type''))
          else Inr v)"

subsection \<open>The name of the download\<close>

fun split_spaces :: "string \<Rightarrow> string \<Rightarrow> string list" where
  "split_spaces word [] = (if word = [] then [] else [word])"
| "split_spaces word (c # cs) =
     (if is_space c then (if word = [] then [] else [word]) @ split_spaces [] cs else split_spaces (word @ [c]) cs)"

definition normalize_download_stem :: "string \<Rightarrow> string" where
  "normalize_download_stem stem =
     (let chars = map (\<lambda>c. if py_isalnum c \<or> one_of ''-_ '' c then c else CHR ''-'') stem;
          s = strip_by (one_of ''._- '') (collapse_double CHR ''-'' (py_join CHR ''-'' (split_spaces [] chars)))
      in if s = [] then ''download'' else s)"

definition download_stem :: "string \<Rightarrow> string option \<Rightarrow> string" where
  "download_stem source name =
     (let source_stem = (case rsplit_dot source of Some (c # cs, _) \<Rightarrow> c # cs | _ \<Rightarrow> source)
      in normalize_download_stem (py_strip (case name of Some (c # cs) \<Rightarrow> c # cs | _ \<Rightarrow> source_stem)))"

definition download_extension :: "string \<Rightarrow> string option \<Rightarrow> smuggle_fail + string" where
  "download_extension source ext =
     (let source_ext = (case rsplit_dot source of Some (_, e) \<Rightarrow> e | None \<Rightarrow> [])
      in if ext \<noteq> None then smuggle_normalize_extension ext
         else if source_ext = [] then Inr ''bin''
         else (case smuggle_normalize_extension (Some source_ext) of Inl _ \<Rightarrow> Inr ''bin'' | Inr e \<Rightarrow> Inr e))"

definition resolve_download_filename :: "string \<Rightarrow> string option \<Rightarrow> string option \<Rightarrow> smuggle_fail + string" where
  "resolve_download_filename source name ext =
     (let stem = download_stem source name
      in and_then (download_extension source ext) (\<lambda>e. Inr (if e = [] then stem else stem @ ''.'' @ e)))"

subsection \<open>Builder configurations\<close>

record builder =
  sb_mode :: string
  sb_preset :: string
  sb_locale :: string
  sb_encryption :: string
  sb_download_name :: "string option"
  sb_download_ext :: "string option"
  sb_title :: "string option"
  sb_message :: "string option"
  sb_cta_label :: "string option"
  sb_delay_ms :: int
  sb_show_notice :: bool
  sb_payload_encoding :: string
  sb_trigger_method :: string
  sb_trigger_event :: string
  sb_output_format :: string
  sb_download_variant :: string
  sb_page_template :: string
  sb_mime_type :: string
  sb_null_byte :: bool

definition DEFAULT_SMUGGLE_BUILDER :: builder where
  "DEFAULT_SMUGGLE_BUILDER = \<lparr>sb_mode = ''simple'', sb_preset = ''direct'', sb_locale = ''ru'', sb_encryption = ''none'', sb_download_name = None,
     sb_download_ext = None, sb_title = None, sb_message = None, sb_cta_label = None, sb_delay_ms = 0, sb_show_notice = True,
     sb_payload_encoding = ''base64'', sb_trigger_method = ''svg'', sb_trigger_event = ''onload'', sb_output_format = ''html'',
     sb_download_variant = ''blob-anchor'', sb_page_template = ''default'', sb_mime_type = ''application/octet-stream'', sb_null_byte = False\<rparr>"

datatype field_value = Text_Field "string option" | Int_Field int | Bool_Field bool

text \<open>\<open>getattr\<close> for the fields that belong to one mode.\<close>

definition mode_field :: "string \<Rightarrow> builder \<Rightarrow> field_value" where
  "mode_field f b =
     (if f = ''payload_encoding'' then Text_Field (Some (sb_payload_encoding b))
      else if f = ''trigger_method'' then Text_Field (Some (sb_trigger_method b))
      else if f = ''trigger_event'' then Text_Field (Some (sb_trigger_event b))
      else if f = ''output_format'' then Text_Field (Some (sb_output_format b))
      else if f = ''download_variant'' then Text_Field (Some (sb_download_variant b))
      else if f = ''page_template'' then Text_Field (Some (sb_page_template b))
      else if f = ''mime_type'' then Text_Field (Some (sb_mime_type b))
      else if f = ''null_byte'' then Bool_Field (sb_null_byte b)
      else if f = ''preset'' then Text_Field (Some (sb_preset b))
      else if f = ''cta_label'' then Text_Field (sb_cta_label b)
      else Int_Field (sb_delay_ms b))"

fun mode_defaults :: "string list \<Rightarrow> builder \<Rightarrow> smuggle_fail + builder" where
  "mode_defaults [] b = Inr b"
| "mode_defaults (f # fs) b =
     (if mode_field f b \<noteq> mode_field f DEFAULT_SMUGGLE_BUILDER then Inl (Smuggle_Error ''invalid_smuggle_configuration'' (Some f))
      else mode_defaults fs b)"

definition validate_texts :: "builder \<Rightarrow> smuggle_fail + builder" where
  "validate_texts b =
     and_then (case sb_download_ext b of None \<Rightarrow> Inr None | Some e \<Rightarrow> map_sum id Some (smuggle_normalize_extension (Some e))) (\<lambda>ext.
     and_then (normalize_optional_text (sb_download_name b) ''download_name'' SMUGGLE_BUILDER_MAX_DOWNLOAD_NAME) (\<lambda>name.
     and_then (normalize_optional_text (sb_title b) ''title'' SMUGGLE_BUILDER_MAX_TITLE) (\<lambda>title.
     and_then (normalize_optional_text (sb_message b) ''message'' SMUGGLE_BUILDER_MAX_MESSAGE) (\<lambda>message.
     and_then (normalize_optional_text (sb_cta_label b) ''cta_label'' SMUGGLE_BUILDER_MAX_CTA_LABEL) (\<lambda>cta.
     and_then (normalize_mime_type (Some (sb_mime_type b))) (\<lambda>mime.
     Inr (b\<lparr>sb_download_ext := ext, sb_download_name := name, sb_title := title, sb_message := message, sb_cta_label := cta, sb_mime_type := mime\<rparr>)))))))"

definition validate_builder_config :: "builder \<Rightarrow> smuggle_fail + builder" where
  "validate_builder_config b =
     and_then (normalize_enum (Some (sb_mode b)) SMUGGLE_MODES ''mode'') (\<lambda>_.
     and_then (normalize_enum (Some (sb_preset b)) SMUGGLE_PRESETS ''preset'') (\<lambda>_.
     and_then (normalize_locale (Some (sb_locale b))) (\<lambda>_.
     and_then (normalize_enum (Some (sb_encryption b)) SMUGGLE_ENCRYPTIONS ''encryption'') (\<lambda>_.
     and_then (normalize_enum (Some (sb_payload_encoding b)) SMUGGLE_PAYLOAD_ENCODINGS ''payload_encoding'') (\<lambda>_.
     and_then (normalize_trigger (Some (sb_trigger_method b)) (Some (sb_trigger_event b))) (\<lambda>_.
     and_then (normalize_enum (Some (sb_output_format b)) SMUGGLE_OUTPUT_FORMATS ''output_format'') (\<lambda>_.
     and_then (normalize_enum (Some (sb_download_variant b)) SMUGGLE_DOWNLOAD_VARIANTS ''download_variant'') (\<lambda>_.
     and_then (normalize_enum (Some (sb_page_template b)) SMUGGLE_PAGE_TEMPLATES ''page_template'') (\<lambda>_.
     and_then (validate_texts b) (\<lambda>b.
     if \<not> (0 \<le> sb_delay_ms b \<and> sb_delay_ms b \<le> SMUGGLE_BUILDER_MAX_DELAY_MS) then Inl (Smuggle_Error ''invalid_smuggle_delay'' (Some ''delay_ms''))
     else mode_defaults (if sb_mode b = ''simple'' then SMUGGLE_CONSTRUCTOR_ONLY_FIELDS else SMUGGLE_SIMPLE_ONLY_FIELDS) b))))))))))"

subsection \<open>Validated values stay as they are\<close>

lemma normalize_enum_Some: "normalize_enum (Some v) allowed f = Inr w \<longleftrightarrow> v \<in> set allowed \<and> w = v"
  by (auto simp: normalize_enum_def)

lemma normalize_enum_fixed:
  assumes "normalize_enum v allowed f = Inr w"
  shows "normalize_enum (Some w) allowed f = Inr w"
  using assms by (auto simp: normalize_enum_def Let_def split: if_splits)

lemma normalize_locale_fixed: "normalize_locale v = Inr w \<Longrightarrow> normalize_locale (Some w) = Inr w"
  by (auto simp: normalize_locale_def Let_def split: if_splits)

lemma normalize_mime_fixed: "normalize_mime_type v = Inr w \<Longrightarrow> normalize_mime_type (Some w) = Inr w"
  by (auto simp: normalize_mime_type_def SMUGGLE_BUILDER_MAX_MIME_TYPE_def is_control_def split: option.splits if_splits)

lemma length_strip: "length (strip_by P s) \<le> length s"
  using strip_split[of s P] by (metis length_append le_add1 le_add2 order_trans)

lemma normalize_text_fixed:
  assumes "normalize_optional_text v f limit = Inr t"
  shows "normalize_optional_text t f limit = Inr t"
proof (cases t)
  case (Some s)
  then obtain w where w: "\<not> limit < length w" "\<not> list_ex is_control w" "s = py_strip w" "s \<noteq> []"
    using assms by (auto simp: normalize_optional_text_def split: option.splits if_splits)
  have "length s \<le> limit" "\<not> list_ex is_control s" "py_strip s = s"
    using w length_strip[of is_space w] strip_by_subset[of is_space w] by (auto simp: py_strip_def list_ex_iff strip_by_idem)
  then show ?thesis using Some w(4) by (simp add: normalize_optional_text_def)
qed (simp add: normalize_optional_text_def)

lemma trigger_events_nonempty: "m \<in> set SMUGGLE_TRIGGER_METHODS \<Longrightarrow> the (dict_get SMUGGLE_TRIGGER_EVENTS m) \<noteq> []"
  by (auto simp: SMUGGLE_TRIGGER_METHODS_def SMUGGLE_TRIGGER_EVENTS_def)

lemma normalize_trigger_Inr:
  "normalize_trigger m e = Inr (m', e', custom) \<longleftrightarrow>
     normalize_enum m SMUGGLE_TRIGGER_METHODS ''trigger_method'' = Inr m' \<and>
     (let events = the (dict_get SMUGGLE_TRIGGER_EVENTS m')
      in (e = None \<and> e' = hd events \<and> \<not> custom) \<or> (e = Some e' \<and> e' \<in> set events \<and> \<not> custom) \<or>
         (e = Some e' \<and> e' \<notin> set events \<and> event_matches e' \<and> length e' \<le> SMUGGLE_BUILDER_MAX_TRIGGER_EVENT \<and> custom))"
proof (cases "normalize_enum m SMUGGLE_TRIGGER_METHODS ''trigger_method''")
  case (Inr n)
  show ?thesis
  proof (cases e)
    case (Some a)
    then show ?thesis unfolding normalize_trigger_def Let_def Inr
      by (cases "n = m'"; cases "a = e'"; cases custom) simp_all
  qed (auto simp: normalize_trigger_def Let_def Inr)
qed (simp add: normalize_trigger_def)

lemma normalize_trigger_fixed:
  assumes "normalize_trigger m e = Inr (m', e', custom)"
  shows "normalize_trigger (Some m') (Some e') = Inr (m', e', custom)"
proof -
  have r: "normalize_enum m SMUGGLE_TRIGGER_METHODS ''trigger_method'' = Inr m'" using assms normalize_trigger_Inr by blast
  have m: "normalize_enum (Some m') SMUGGLE_TRIGGER_METHODS ''trigger_method'' = Inr m'" using normalize_enum_fixed[OF r] .
  define E where "E = the (dict_get SMUGGLE_TRIGGER_EVENTS m')"
  have "E \<noteq> []" unfolding E_def using m trigger_events_nonempty normalize_enum_Some by blast
  then have hd: "hd E \<in> set E" by simp
  have d: "(e = None \<and> e' = hd E \<and> \<not> custom) \<or> (e = Some e' \<and> e' \<in> set E \<and> \<not> custom) \<or>
      (e = Some e' \<and> e' \<notin> set E \<and> event_matches e' \<and> length e' \<le> SMUGGLE_BUILDER_MAX_TRIGGER_EVENT \<and> custom)"
    using assms unfolding normalize_trigger_Inr Let_def E_def by (rule conjunct2)
  show ?thesis unfolding normalize_trigger_Inr Let_def E_def[symmetric] using m d hd by (elim disjE conjE) simp_all
qed

lemma ord_lower: "ord (lower_char c) = (if ascii_upper c \<or> (192 \<le> ord c \<and> ord c \<le> 222 \<and> ord c \<noteq> 215) then ord c + 32 else ord c)"
  by (auto simp: lower_char_def ascii_upper_def)

lemma alnum_lower: "is_alnum c \<Longrightarrow> is_alnum (lower_char c)"
  by (auto simp: is_alnum_def is_digit_def ord_lower ascii_upper_def)

lemma char_by_ord: "c = d \<longleftrightarrow> ord c = ord d"
  by (metis of_char_eq_iff)

lemma lower_char_dot [simp]: "lower_char c = CHR ''.'' \<longleftrightarrow> c = CHR ''.''"
  by (simp only: char_by_ord[of "lower_char c"] char_by_ord[of c] ord_lower) (auto simp: ascii_upper_def)

lemma py_split_lower: "py_split CHR ''.'' (py_lower s) = map py_lower (py_split CHR ''.'' s)"
proof (induction s)
  case (Cons c s)
  then show ?case by (cases "py_split CHR ''.'' s") (auto simp: py_lower_def)
qed (simp add: py_lower_def)

lemma hd_lower: "s \<noteq> [] \<Longrightarrow> hd (py_lower s) = lower_char (hd s)"
  by (cases s) (simp_all add: py_lower_def)

lemma alnum_first_lower: "alnum_first s \<Longrightarrow> alnum_first (py_lower s)"
proof -
  assume a: "alnum_first s"
  have "is_alnum (lower_char c) \<or> one_of ''_+-'' (lower_char c)" if "is_alnum c \<or> one_of ''_+-'' c" for c
  proof (cases "is_alnum c")
    case False
    then have "c \<in> {CHR ''_'', CHR ''+'', CHR ''-''}" using that by (auto simp: one_of_def)
    then have "lower_char c = c" by (auto simp: lower_char_def ascii_upper_def)
    then show ?thesis using that by simp
  qed (use alnum_lower in blast)
  then show ?thesis using a by (auto simp: alnum_first_def py_lower_def list_all_iff hd_map alnum_lower map_tl[symmetric])
qed

lemma extension_lower: "extension_matches s \<Longrightarrow> extension_matches (py_lower s)"
  using alnum_first_lower by (auto simp: extension_matches_def py_split_lower list_all_iff)

lemma lower_char_idem: "lower_char (lower_char c) = lower_char c"
  by (simp only: char_by_ord ord_lower) (auto simp: ascii_upper_def ord_lower)

lemma py_lower_idem: "py_lower (py_lower s) = py_lower s"
  by (simp add: py_lower_def lower_char_idem)

text \<open>What a normalised extension looks like.\<close>

definition clean_extension :: "string \<Rightarrow> bool" where
  "clean_extension e \<longleftrightarrow> extension_matches e \<and> py_lower e = e \<and> length e \<le> SMUGGLE_BUILDER_MAX_DOWNLOAD_EXT"

lemma extension_not_dot: "extension_matches s \<Longrightarrow> s \<noteq> [] \<and> \<not> prefix ''.'' s"
proof -
  assume e: "extension_matches s"
  have "is_alnum (hd s) \<and> s \<noteq> []"
  proof (cases s)
    case (Cons c cs)
    then show ?thesis using e by (auto simp: extension_matches_def alnum_first_def split: if_splits list.splits)
  qed (use e in \<open>simp add: extension_matches_def alnum_first_def\<close>)
  moreover have "\<not> is_alnum CHR ''.''" by (simp add: is_alnum_def is_digit_def ascii_upper_def)
  ultimately show ?thesis by (cases s) auto
qed

lemma normalize_extension_clean: "smuggle_normalize_extension v = Inr e \<Longrightarrow> clean_extension e"
proof -
  assume r: "smuggle_normalize_extension v = Inr e"
  define raw where "raw = (let given = (case v of None \<Rightarrow> [] | Some v \<Rightarrow> v) in if prefix ''.'' given then tl given else given)"
  have "(if raw = [] \<or> SMUGGLE_BUILDER_MAX_DOWNLOAD_EXT < length raw \<or> \<not> extension_matches raw
      then Inl (Smuggle_Error ''invalid_smuggle_extension'' (Some ''download_ext'')) else Inr (py_lower raw)) = Inr e"
    using r by (simp only: smuggle_normalize_extension_def raw_def Let_def)
  then have "length raw \<le> SMUGGLE_BUILDER_MAX_DOWNLOAD_EXT" "extension_matches raw" "e = py_lower raw" by (auto split: if_splits)
  then show "clean_extension e" using extension_lower[of raw] py_lower_idem[of raw] by (simp add: clean_extension_def py_lower_def)
qed

lemma normalize_extension_iff: "smuggle_normalize_extension (Some e) = Inr e \<longleftrightarrow> clean_extension e"
proof
  assume c: "clean_extension e"
  then show "smuggle_normalize_extension (Some e) = Inr e"
    using extension_not_dot[of e] by (simp add: smuggle_normalize_extension_def clean_extension_def Let_def)
qed (rule normalize_extension_clean)

subsection \<open>The name of a download is safe\<close>

lemma split_spaces_parts:
  "p \<in> set (split_spaces w s) \<Longrightarrow> p \<noteq> [] \<and> set p \<subseteq> set w \<union> {c \<in> set s. \<not> is_space c}"
  by (induction w s rule: split_spaces.induct) (auto split: if_splits)

lemma py_join_set: "set (py_join x ps) \<subseteq> insert x (\<Union> (set ` set ps))"
  by (induction x ps rule: py_join.induct) auto

lemma strip_by_ends: "strip_by P s \<noteq> [] \<Longrightarrow> \<not> P (hd (strip_by P s)) \<and> \<not> P (last (strip_by P s))"
proof -
  assume ne: "strip_by P s \<noteq> []"
  have "\<not> P (last (strip_by P s))"
    using ne hd_dropWhile[of P "rev (dropWhile P s)"] by (simp add: strip_by_def last_rev)
  moreover have "\<not> P (hd (strip_by P s))"
  proof -
    let ?t = "dropWhile P s"
    have "?t = strip_by P s @ rev (takeWhile P (rev ?t))"
      unfolding strip_by_def by (metis rev_append rev_rev_ident takeWhile_dropWhile_id)
    then have "hd ?t = hd (strip_by P s)" "?t \<noteq> []" using ne by (metis hd_append2, metis append_is_Nil_conv)
    then show ?thesis using hd_dropWhile[of P s] by simp
  qed
  ultimately show ?thesis by simp
qed

definition clean_stem :: "string \<Rightarrow> bool" where
  "clean_stem s \<longleftrightarrow> s \<noteq> [] \<and> py_isalnum (hd s) \<and> py_isalnum (last s) \<and> list_all (\<lambda>c. py_isalnum c \<or> one_of ''-_'' c) s \<and> \<not> has_double CHR ''-'' s"

lemma normalized_stem_clean: "clean_stem (normalize_download_stem stem)"
proof -
  define chars where "chars = map (\<lambda>c. if py_isalnum c \<or> one_of ''-_ '' c then c else CHR ''-'') stem"
  define joined where "joined = py_join CHR ''-'' (split_spaces [] chars)"
  define s where "s = strip_by (one_of ''._- '') (collapse_double CHR ''-'' joined)"
  have n: "normalize_download_stem stem = (if s = [] then ''download'' else s)"
    by (simp add: normalize_download_stem_def s_def joined_def chars_def)
  have "c \<in> set chars \<and> \<not> is_space c \<Longrightarrow> py_isalnum c \<or> one_of ''-_'' c" for c
    by (auto simp: chars_def one_of_def is_space_def split: if_splits)
  then have "set joined \<subseteq> {c. py_isalnum c \<or> one_of ''-_'' c}"
    using py_join_set[of "CHR ''-''" "split_spaces [] chars"] split_spaces_parts[of _ "[]" chars] unfolding joined_def
    by (fastforce simp: one_of_def)
  then have chars_ok: "set s \<subseteq> {c. py_isalnum c \<or> one_of ''-_'' c}"
    using collapse_double_safe[of "CHR ''-''" joined] strip_by_subset[of "one_of ''._- ''" "collapse_double CHR ''-'' joined"] unfolding s_def by blast
  obtain a b where ab: "collapse_double CHR ''-'' joined = a @ s @ b" using strip_split unfolding s_def by metis
  have nd: "\<not> has_double CHR ''-'' s" using collapse_double_safe[of "CHR ''-''" joined] unfolding ab has_double_append by blast
  show ?thesis
  proof (cases "s = []")
    case True
    then show ?thesis unfolding n by (simp add: clean_stem_def py_isalnum_def is_alnum_def is_digit_def ascii_upper_def)
  next
    case False
    have "\<not> one_of ''._- '' (hd s) \<and> \<not> one_of ''._- '' (last s)" using strip_by_ends False unfolding s_def by blast
    moreover have "hd s \<in> set s" "last s \<in> set s" using False by simp_all
    ultimately have "py_isalnum (hd s) \<and> py_isalnum (last s)" using chars_ok by (auto simp: one_of_def)
    then show ?thesis using False chars_ok nd unfolding n by (auto simp: clean_stem_def list_all_iff)
  qed
qed

lemma bin_clean: "clean_extension ''bin''"
  by (simp add: clean_extension_def extension_matches_def alnum_first_def is_alnum_def is_digit_def ascii_upper_def py_lower_def lower_char_def
      one_of_def SMUGGLE_BUILDER_MAX_DOWNLOAD_EXT_def)

text \<open>Whatever the name of the source and the requested name are, the name offered for download is a clean stem and a clean
  extension.\<close>

theorem download_name_clean:
  assumes "resolve_download_filename source name ext = Inr n"
  shows "\<exists>stem e. n = stem @ ''.'' @ e \<and> clean_stem stem \<and> clean_extension e"
proof -
  obtain e where r: "download_extension source ext = Inr e" "n = (if e = [] then download_stem source name else download_stem source name @ ''.'' @ e)"
    using assms by (auto simp: resolve_download_filename_def and_then_Inr Let_def)
  have "e = ''bin'' \<or> (\<exists>v. smuggle_normalize_extension v = Inr e)"
    using r(1) unfolding download_extension_def Let_def by (auto split: if_splits sum.splits)
  then have e: "clean_extension e" using bin_clean normalize_extension_clean by blast
  then have "e \<noteq> []" using extension_not_dot by (auto simp: clean_extension_def)
  moreover have "clean_stem (download_stem source name)" unfolding download_stem_def Let_def by (rule normalized_stem_clean)
  ultimately show ?thesis using r(2) e by auto
qed

lemma download_name_total:
  assumes "\<And>e. ext = Some e \<Longrightarrow> clean_extension e"
  shows "\<exists>n. resolve_download_filename source name ext = Inr n"
proof -
  have "\<exists>e. download_extension source ext = Inr e"
  proof (cases ext)
    case (Some e)
    then show ?thesis using assms[OF Some] normalize_extension_iff[of e] by (auto simp: download_extension_def)
  qed (simp add: download_extension_def Let_def split: sum.splits)
  then show ?thesis by (auto simp: resolve_download_filename_def Let_def)
qed

subsection \<open>Canonical configurations\<close>

lemma mode_defaults_Inr: "mode_defaults fs b = Inr c \<longleftrightarrow> c = b \<and> (\<forall>f \<in> set fs. mode_field f b = mode_field f DEFAULT_SMUGGLE_BUILDER)"
  by (induction fs b rule: mode_defaults.induct) auto

lemma texts_updated:
  "b\<lparr>sb_download_ext := ext, sb_download_name := name, sb_title := title, sb_message := message, sb_cta_label := cta, sb_mime_type := mime\<rparr> = b \<longleftrightarrow>
     ext = sb_download_ext b \<and> name = sb_download_name b \<and> title = sb_title b \<and> message = sb_message b \<and> cta = sb_cta_label b \<and> mime = sb_mime_type b"
  by (cases b) auto

definition clean_texts :: "builder \<Rightarrow> bool" where
  "clean_texts b \<longleftrightarrow> (\<forall>e. sb_download_ext b = Some e \<longrightarrow> clean_extension e) \<and>
     normalize_optional_text (sb_download_name b) ''download_name'' SMUGGLE_BUILDER_MAX_DOWNLOAD_NAME = Inr (sb_download_name b) \<and>
     normalize_optional_text (sb_title b) ''title'' SMUGGLE_BUILDER_MAX_TITLE = Inr (sb_title b) \<and>
     normalize_optional_text (sb_message b) ''message'' SMUGGLE_BUILDER_MAX_MESSAGE = Inr (sb_message b) \<and>
     normalize_optional_text (sb_cta_label b) ''cta_label'' SMUGGLE_BUILDER_MAX_CTA_LABEL = Inr (sb_cta_label b) \<and>
     normalize_mime_type (Some (sb_mime_type b)) = Inr (sb_mime_type b)"

lemma extension_fixed:
  "(case x of None \<Rightarrow> Inr None | Some e \<Rightarrow> map_sum id Some (smuggle_normalize_extension (Some e))) = Inr x \<longleftrightarrow> (\<forall>e. x = Some e \<longrightarrow> clean_extension e)"
  by (cases x) (auto simp: map_sum_Inr normalize_extension_iff[symmetric])

lemma validate_texts_fixed: "validate_texts b = Inr b \<longleftrightarrow> clean_texts b"
  unfolding validate_texts_def clean_texts_def and_then_Inr sum.inject texts_updated extension_fixed[symmetric] by blast

definition one_mode :: "builder \<Rightarrow> bool" where
  "one_mode b \<longleftrightarrow> (\<forall>f \<in> set (if sb_mode b = ''simple'' then SMUGGLE_CONSTRUCTOR_ONLY_FIELDS else SMUGGLE_SIMPLE_ONLY_FIELDS).
     mode_field f b = mode_field f DEFAULT_SMUGGLE_BUILDER)"

text \<open>A configuration that the validation keeps as it is.\<close>

definition canonical :: "builder \<Rightarrow> bool" where
  "canonical b \<longleftrightarrow> sb_mode b \<in> set SMUGGLE_MODES \<and> sb_preset b \<in> set SMUGGLE_PRESETS \<and> sb_locale b \<in> set SMUGGLE_LOCALES \<and>
     sb_encryption b \<in> set SMUGGLE_ENCRYPTIONS \<and> sb_payload_encoding b \<in> set SMUGGLE_PAYLOAD_ENCODINGS \<and>
     (\<exists>t. normalize_trigger (Some (sb_trigger_method b)) (Some (sb_trigger_event b)) = Inr t) \<and>
     sb_output_format b \<in> set SMUGGLE_OUTPUT_FORMATS \<and> sb_download_variant b \<in> set SMUGGLE_DOWNLOAD_VARIANTS \<and>
     sb_page_template b \<in> set SMUGGLE_PAGE_TEMPLATES \<and> clean_texts b \<and> 0 \<le> sb_delay_ms b \<and> sb_delay_ms b \<le> SMUGGLE_BUILDER_MAX_DELAY_MS \<and> one_mode b"

lemma normalize_locale_Some: "normalize_locale (Some v) = Inr w \<longleftrightarrow> v \<in> set SMUGGLE_LOCALES \<and> w = v"
  by (auto simp: normalize_locale_def)

lemma if_Inr: "(if c then Inl e else x) = Inr y \<longleftrightarrow> \<not> c \<and> x = Inr y"
  by simp

lemma validate_Inr:
  "validate_builder_config b = Inr d \<longleftrightarrow>
     sb_mode b \<in> set SMUGGLE_MODES \<and> sb_preset b \<in> set SMUGGLE_PRESETS \<and> sb_locale b \<in> set SMUGGLE_LOCALES \<and>
     sb_encryption b \<in> set SMUGGLE_ENCRYPTIONS \<and> sb_payload_encoding b \<in> set SMUGGLE_PAYLOAD_ENCODINGS \<and>
     (\<exists>t. normalize_trigger (Some (sb_trigger_method b)) (Some (sb_trigger_event b)) = Inr t) \<and>
     sb_output_format b \<in> set SMUGGLE_OUTPUT_FORMATS \<and> sb_download_variant b \<in> set SMUGGLE_DOWNLOAD_VARIANTS \<and>
     sb_page_template b \<in> set SMUGGLE_PAGE_TEMPLATES \<and>
     (\<exists>c. validate_texts b = Inr c \<and> 0 \<le> sb_delay_ms c \<and> sb_delay_ms c \<le> SMUGGLE_BUILDER_MAX_DELAY_MS \<and>
       mode_defaults (if sb_mode c = ''simple'' then SMUGGLE_CONSTRUCTOR_ONLY_FIELDS else SMUGGLE_SIMPLE_ONLY_FIELDS) c = Inr d)"
  by (simp only: validate_builder_config_def and_then_Inr normalize_enum_Some normalize_locale_Some if_Inr ex_simps simp_thms conj_assoc not_not)

theorem validate_fixed_iff: "validate_builder_config b = Inr b \<longleftrightarrow> canonical b"
proof
  assume "validate_builder_config b = Inr b"
  then show "canonical b"
    unfolding validate_Inr mode_defaults_Inr canonical_def one_mode_def using validate_texts_fixed[of b] by auto
next
  assume c: "canonical b"
  then have t: "validate_texts b = Inr b" using validate_texts_fixed canonical_def by blast
  show "validate_builder_config b = Inr b"
    unfolding validate_Inr mode_defaults_Inr
    using c t unfolding canonical_def one_mode_def by blast
qed

end
