(* ===== verification/Smuggle_Request.thy ===== *)
theory Smuggle_Request
  imports Smuggle_Policy
begin

section \<open>Parsing SMUGGLE requests\<close>

text \<open>
  \<^verbatim>\<open>xferry/smuggle/request.py\<close>: from a query to a validated builder configuration. \<open>unquote\<close> is \<open>urllib.parse.unquote\<close>. A query
  comes as its single values, which leave out blank ones, and as its occurrences in order.
\<close>

definition SMUGGLE_QUERY_FIELDS :: "string list" where
  "SMUGGLE_QUERY_FIELDS = [''mode'', ''preset'', ''locale'', ''encryption'', ''download_name'', ''download_ext'', ''title'', ''message'', ''cta_label'',
     ''delay_ms'', ''show_notice'', ''payload_encoding'', ''trigger_method'', ''trigger_event'', ''output_format'', ''download_variant'', ''page_template'',
     ''mime_type'', ''null_byte'']"

definition filled_field :: "string \<Rightarrow> bool" where
  "filled_field f = (case cut_at CHR ''='' f of (_, Some v) \<Rightarrow> v \<noteq> [] | _ \<Rightarrow> False)"

text \<open>\<open>query_params\<close> and \<open>query_occurrences\<close> of the request.\<close>

definition query_params :: "(string \<Rightarrow> string) \<Rightarrow> string \<Rightarrow> (string, string) dict" where
  "query_params unquote q = fold (\<lambda>(k, v). dict_set k v) (map (query_pair unquote) (filter filled_field (py_split CHR ''&'' q))) []"

definition query_values :: "(string, string) dict \<Rightarrow> (string \<times> string) list \<Rightarrow> (string, string) dict" where
  "query_values params occurrences = fold (\<lambda>(k, v) d. if dict_get d k = None then dict_set k v d else d) occurrences params"

fun reject_duplicates :: "string list \<Rightarrow> (string \<times> string) list \<Rightarrow> smuggle_fail option" where
  "reject_duplicates seen [] = None"
| "reject_duplicates seen ((k, v) # kvs) =
     (if k \<in> set seen then Some (Smuggle_Error ''duplicate_smuggle_parameter'' (Some k)) else reject_duplicates (k # seen) kvs)"

text \<open>\<open>_DECIMAL_RE\<close> bounds neither the number of digits nor the value, and \<open>int\<close> refuses more than 4300 digits.\<close>

definition decimal_matches :: "string \<Rightarrow> bool" where
  "decimal_matches s \<longleftrightarrow> s = ''0'' \<or> (s \<noteq> [] \<and> list_all is_digit s \<and> hd s \<noteq> CHR ''0'')"

definition parse_delay :: "string option \<Rightarrow> smuggle_fail + int" where
  "parse_delay value =
     (case value of
        None \<Rightarrow> Inr (sb_delay_ms DEFAULT_SMUGGLE_BUILDER)
      | Some v \<Rightarrow>
          if \<not> decimal_matches v then Inl (Smuggle_Error ''invalid_smuggle_delay'' (Some ''delay_ms''))
          else (case py_int v of
              None \<Rightarrow> Inl (Smuggle_Raises ValueError)
            | Some delay \<Rightarrow> if SMUGGLE_BUILDER_MAX_DELAY_MS < delay then Inl (Smuggle_Error ''invalid_smuggle_delay'' (Some ''delay_ms'')) else Inr delay))"

definition present_of :: "string list \<Rightarrow> (string, string) dict \<Rightarrow> string list" where
  "present_of fs vals = sort_key (map ord) (filter (\<lambda>f. dict_get vals f \<noteq> None) fs)"

definition parse_mode :: "(string, string) dict \<Rightarrow> smuggle_fail + string" where
  "parse_mode vals =
     (let constructor_present = present_of SMUGGLE_CONSTRUCTOR_ONLY_FIELDS vals; simple_present = present_of SMUGGLE_SIMPLE_ONLY_FIELDS vals
      in and_then (case dict_get vals ''mode'' of
             Some v \<Rightarrow> normalize_enum (Some v) SMUGGLE_MODES ''mode''
           | None \<Rightarrow> if constructor_present \<noteq> [] then Inl (Smuggle_Error ''invalid_smuggle_configuration'' (Some ''mode''))
               else Inr (sb_mode DEFAULT_SMUGGLE_BUILDER)) (\<lambda>mode.
         if mode = ''simple'' \<and> constructor_present \<noteq> [] then Inl (Smuggle_Error ''invalid_smuggle_configuration'' (Some (hd constructor_present)))
         else if mode = ''constructor'' \<and> simple_present \<noteq> [] then Inl (Smuggle_Error ''invalid_smuggle_configuration'' (Some (hd simple_present)))
         else Inr mode))"

text \<open>The fields, before the configuration is built and validated.\<close>

definition parse_fields :: "string \<Rightarrow> (string, string) dict \<Rightarrow> smuggle_fail + builder" where
  "parse_fields mode vals =
     (let get = dict_get vals in
     and_then (normalize_enum (get ''encryption'') SMUGGLE_ENCRYPTIONS ''encryption'') (\<lambda>encryption.
     and_then (normalize_locale (get ''locale'')) (\<lambda>locale.
     and_then (normalize_enum (get ''preset'') SMUGGLE_PRESETS ''preset'') (\<lambda>preset.
     and_then (case get ''download_ext'' of None \<Rightarrow> Inr None | Some e \<Rightarrow> map_sum id Some (smuggle_normalize_extension (Some e))) (\<lambda>ext.
     and_then (normalize_enum (get ''payload_encoding'') SMUGGLE_PAYLOAD_ENCODINGS ''payload_encoding'') (\<lambda>encoding.
     and_then (normalize_trigger (get ''trigger_method'') (get ''trigger_event'')) (\<lambda>trigger.
     and_then (normalize_enum (get ''output_format'') SMUGGLE_OUTPUT_FORMATS ''output_format'') (\<lambda>output_format.
     and_then (normalize_enum (get ''download_variant'') SMUGGLE_DOWNLOAD_VARIANTS ''download_variant'') (\<lambda>variant.
     and_then (normalize_enum (get ''page_template'') SMUGGLE_PAGE_TEMPLATES ''page_template'') (\<lambda>page_template.
     and_then (parse_delay (get ''delay_ms'')) (\<lambda>delay.
     and_then (parse_bool (get ''show_notice'') ''show_notice'' (sb_show_notice DEFAULT_SMUGGLE_BUILDER)) (\<lambda>show_notice.
     and_then (parse_bool (get ''null_byte'') ''null_byte'' (sb_null_byte DEFAULT_SMUGGLE_BUILDER)) (\<lambda>null_byte.
     and_then (normalize_mime_type (get ''mime_type'')) (\<lambda>mime.
     and_then (normalize_optional_text (get ''download_name'') ''download_name'' SMUGGLE_BUILDER_MAX_DOWNLOAD_NAME) (\<lambda>name.
     and_then (normalize_optional_text (get ''title'') ''title'' SMUGGLE_BUILDER_MAX_TITLE) (\<lambda>title.
     and_then (normalize_optional_text (get ''message'') ''message'' SMUGGLE_BUILDER_MAX_MESSAGE) (\<lambda>message.
     and_then (normalize_optional_text (get ''cta_label'') ''cta_label'' SMUGGLE_BUILDER_MAX_CTA_LABEL) (\<lambda>cta.
     Inr
       \<lparr>sb_mode = mode, sb_preset = preset, sb_locale = locale, sb_encryption = encryption, sb_download_name = name, sb_download_ext = ext,
        sb_title = title, sb_message = message, sb_cta_label = cta, sb_delay_ms = delay, sb_show_notice = show_notice,
        sb_payload_encoding = encoding, sb_trigger_method = fst trigger, sb_trigger_event = fst (snd trigger), sb_output_format = output_format,
        sb_download_variant = variant, sb_page_template = page_template, sb_mime_type = mime, sb_null_byte = null_byte\<rparr>))))))))))))))))))"

definition parse_smuggle_request :: "int \<Rightarrow> (string, string) dict \<Rightarrow> (string \<times> string) list \<Rightarrow> smuggle_fail + builder" where
  "parse_smuggle_request source_max params occurrences =
     (let vals = query_values params occurrences; unknown = sort_key (map ord) (filter (\<lambda>k. k \<notin> set SMUGGLE_QUERY_FIELDS) (map fst vals))
      in case reject_duplicates [] occurrences of
           Some e \<Rightarrow> Inl e
         | None \<Rightarrow>
             if unknown \<noteq> [] then Inl (Smuggle_Error ''unknown_smuggle_parameter'' (Some (hd unknown)))
             else and_then (parse_mode vals) (\<lambda>mode.
               if source_max < 0 then Inl (Smuggle_Error ''invalid_smuggle_policy'' (Some ''source_max_bytes''))
               else and_then (parse_fields mode vals) validate_builder_config))"

subsection \<open>What is parsed passes the validation\<close>

lemma enum_member: "normalize_enum v allowed f = Inr w \<Longrightarrow> w \<in> set allowed"
  using normalize_enum_fixed normalize_enum_Some by blast

lemma locale_member: "normalize_locale v = Inr w \<Longrightarrow> w \<in> set SMUGGLE_LOCALES"
  using normalize_locale_fixed normalize_locale_Some by blast

lemma parse_delay_bounds: "parse_delay v = Inr d \<Longrightarrow> 0 \<le> d \<and> d \<le> SMUGGLE_BUILDER_MAX_DELAY_MS"
proof -
  assume p: "parse_delay v = Inr d"
  show ?thesis
  proof (cases v)
    case None
    then show ?thesis using p by (simp add: parse_delay_def DEFAULT_SMUGGLE_BUILDER_def SMUGGLE_BUILDER_MAX_DELAY_MS_def)
  next
    case (Some s)
    then have s: "decimal_matches s" "py_int s = Some d" "d \<le> SMUGGLE_BUILDER_MAX_DELAY_MS"
      using p by (auto simp: parse_delay_def split: if_splits option.splits)
    then have "list_all is_digit s" "s \<noteq> []" by (auto simp: decimal_matches_def is_digit_def)
    then have "\<not> is_space c" if "c \<in> set s" for c using that by (auto simp: list_all_iff is_digit_def is_space_def)
    then have strip: "py_strip s = s" unfolding py_strip_def by (rule strip_none)
    have "ord (hd s) \<noteq> 45" using \<open>list_all is_digit s\<close> \<open>s \<noteq> []\<close> by (cases s) (auto simp: is_digit_def)
    then show ?thesis using s(2,3) unfolding py_int_def strip Let_def by (auto split: if_splits)
  qed
qed

lemma present_Nil: "present_of fs vals = [] \<longleftrightarrow> (\<forall>f \<in> set fs. dict_get vals f = None)"
proof -
  have "present_of fs vals = [] \<longleftrightarrow> filter (\<lambda>f. dict_get vals f \<noteq> None) fs = []"
    unfolding present_of_def by (metis set_empty set_sort)
  then show ?thesis by (simp add: filter_empty_conv)
qed

lemma parse_mode_Inr:
  assumes "parse_mode vals = Inr mode"
  shows "mode \<in> set SMUGGLE_MODES \<and> (mode = ''simple'' \<longrightarrow> (\<forall>f \<in> set SMUGGLE_CONSTRUCTOR_ONLY_FIELDS. dict_get vals f = None)) \<and>
    (mode \<noteq> ''simple'' \<longrightarrow> (\<forall>f \<in> set SMUGGLE_SIMPLE_ONLY_FIELDS. dict_get vals f = None))"
proof -
  have m: "mode \<in> set SMUGGLE_MODES" "mode = ''simple'' \<longrightarrow> present_of SMUGGLE_CONSTRUCTOR_ONLY_FIELDS vals = []"
    "mode = ''constructor'' \<longrightarrow> present_of SMUGGLE_SIMPLE_ONLY_FIELDS vals = []"
    using assms by (auto simp: parse_mode_def and_then_Inr Let_def DEFAULT_SMUGGLE_BUILDER_def SMUGGLE_MODES_def normalize_enum_Some split: option.splits if_splits)
  then have "mode \<noteq> ''simple'' \<Longrightarrow> mode = ''constructor''" by (auto simp: SMUGGLE_MODES_def)
  then show ?thesis using m unfolding present_Nil by blast
qed

text \<open>Without its value, a field that belongs to the other mode has its default.\<close>

lemma absent_defaults:
  "normalize_enum None SMUGGLE_PAYLOAD_ENCODINGS ''payload_encoding'' = Inr ''base64''"
  "normalize_trigger None None = Inr (''svg'', ''onload'', False)"
  "normalize_enum None SMUGGLE_OUTPUT_FORMATS ''output_format'' = Inr ''html''"
  "normalize_enum None SMUGGLE_DOWNLOAD_VARIANTS ''download_variant'' = Inr ''blob-anchor''"
  "normalize_enum None SMUGGLE_PAGE_TEMPLATES ''page_template'' = Inr ''default''"
  "normalize_enum None SMUGGLE_PRESETS ''preset'' = Inr ''direct''"
  "normalize_mime_type None = Inr ''application/octet-stream''"
  "parse_delay None = Inr 0"
  "parse_bool None f d = Inr d"
  "normalize_optional_text None f l = Inr None"
  by (simp_all add: normalize_enum_def normalize_trigger_def normalize_mime_type_def parse_delay_def parse_bool_def normalize_optional_text_def
      SMUGGLE_PAYLOAD_ENCODINGS_def SMUGGLE_OUTPUT_FORMATS_def SMUGGLE_DOWNLOAD_VARIANTS_def SMUGGLE_PAGE_TEMPLATES_def SMUGGLE_PRESETS_def
      SMUGGLE_TRIGGER_METHODS_def SMUGGLE_TRIGGER_EVENTS_def DEFAULT_SMUGGLE_BUILDER_def)

text \<open>The fields of a configuration as the parser reads them one by one.\<close>

definition reads :: "(string, string) dict \<Rightarrow> builder \<Rightarrow> bool" where
  "reads vals b \<longleftrightarrow> normalize_enum (dict_get vals ''encryption'') SMUGGLE_ENCRYPTIONS ''encryption'' = Inr (sb_encryption b) \<and>
     normalize_locale (dict_get vals ''locale'') = Inr (sb_locale b) \<and>
     normalize_enum (dict_get vals ''preset'') SMUGGLE_PRESETS ''preset'' = Inr (sb_preset b) \<and>
     (case dict_get vals ''download_ext'' of None \<Rightarrow> Inr None | Some e \<Rightarrow> map_sum id Some (smuggle_normalize_extension (Some e))) = Inr (sb_download_ext b) \<and>
     normalize_enum (dict_get vals ''payload_encoding'') SMUGGLE_PAYLOAD_ENCODINGS ''payload_encoding'' = Inr (sb_payload_encoding b) \<and>
     (\<exists>c. normalize_trigger (dict_get vals ''trigger_method'') (dict_get vals ''trigger_event'') = Inr (sb_trigger_method b, sb_trigger_event b, c)) \<and>
     normalize_enum (dict_get vals ''output_format'') SMUGGLE_OUTPUT_FORMATS ''output_format'' = Inr (sb_output_format b) \<and>
     normalize_enum (dict_get vals ''download_variant'') SMUGGLE_DOWNLOAD_VARIANTS ''download_variant'' = Inr (sb_download_variant b) \<and>
     normalize_enum (dict_get vals ''page_template'') SMUGGLE_PAGE_TEMPLATES ''page_template'' = Inr (sb_page_template b) \<and>
     parse_delay (dict_get vals ''delay_ms'') = Inr (sb_delay_ms b) \<and>
     parse_bool (dict_get vals ''show_notice'') ''show_notice'' (sb_show_notice DEFAULT_SMUGGLE_BUILDER) = Inr (sb_show_notice b) \<and>
     parse_bool (dict_get vals ''null_byte'') ''null_byte'' (sb_null_byte DEFAULT_SMUGGLE_BUILDER) = Inr (sb_null_byte b) \<and>
     normalize_mime_type (dict_get vals ''mime_type'') = Inr (sb_mime_type b) \<and>
     normalize_optional_text (dict_get vals ''download_name'') ''download_name'' SMUGGLE_BUILDER_MAX_DOWNLOAD_NAME = Inr (sb_download_name b) \<and>
     normalize_optional_text (dict_get vals ''title'') ''title'' SMUGGLE_BUILDER_MAX_TITLE = Inr (sb_title b) \<and>
     normalize_optional_text (dict_get vals ''message'') ''message'' SMUGGLE_BUILDER_MAX_MESSAGE = Inr (sb_message b) \<and>
     normalize_optional_text (dict_get vals ''cta_label'') ''cta_label'' SMUGGLE_BUILDER_MAX_CTA_LABEL = Inr (sb_cta_label b)"

lemma parse_fields_Inr: "parse_fields mode vals = Inr b \<longleftrightarrow> sb_mode b = mode \<and> reads vals b"
proof
  assume p: "parse_fields mode vals = Inr b"
  show "sb_mode b = mode \<and> reads vals b"
    using p[unfolded parse_fields_def Let_def and_then_Inr sum.inject]
    by (clarsimp simp: reads_def prod_eq_iff)
next
  assume "sb_mode b = mode \<and> reads vals b"
  moreover have "\<lparr>sb_mode = sb_mode b, sb_preset = sb_preset b, sb_locale = sb_locale b, sb_encryption = sb_encryption b, sb_download_name = sb_download_name b,
      sb_download_ext = sb_download_ext b, sb_title = sb_title b, sb_message = sb_message b, sb_cta_label = sb_cta_label b, sb_delay_ms = sb_delay_ms b,
      sb_show_notice = sb_show_notice b, sb_payload_encoding = sb_payload_encoding b, sb_trigger_method = sb_trigger_method b,
      sb_trigger_event = sb_trigger_event b, sb_output_format = sb_output_format b, sb_download_variant = sb_download_variant b,
      sb_page_template = sb_page_template b, sb_mime_type = sb_mime_type b, sb_null_byte = sb_null_byte b\<rparr> = b"
    by (rule builder.equality) simp_all
  ultimately show "parse_fields mode vals = Inr b" by (auto simp: parse_fields_def reads_def)
qed

lemma reads_texts:
  assumes "reads vals b"
  shows "clean_texts b"
proof -
  have "clean_extension e" if "sb_download_ext b = Some e" for e
    using assms that by (auto simp: reads_def map_sum_Inr intro: normalize_extension_clean split: option.splits)
  moreover have "normalize_mime_type (Some (sb_mime_type b)) = Inr (sb_mime_type b)" using assms normalize_mime_fixed unfolding reads_def by blast
  ultimately show ?thesis using assms unfolding clean_texts_def reads_def by (intro conjI) (blast intro: normalize_text_fixed)+
qed

text \<open>The validation in the constructor never refuses nor changes what the parser built.\<close>

theorem parsed_fields_canonical:
  assumes "parse_mode vals = Inr mode" "parse_fields mode vals = Inr b"
  shows "canonical b"
proof -
  have b: "sb_mode b = mode" "reads vals b" using assms(2) parse_fields_Inr by blast+
  have m: "mode \<in> set SMUGGLE_MODES" "mode = ''simple'' \<Longrightarrow> \<forall>f \<in> set SMUGGLE_CONSTRUCTOR_ONLY_FIELDS. dict_get vals f = None"
    "mode \<noteq> ''simple'' \<Longrightarrow> \<forall>f \<in> set SMUGGLE_SIMPLE_ONLY_FIELDS. dict_get vals f = None"
    using parse_mode_Inr[OF assms(1)] by blast+
  have "one_mode b"
  proof (cases "mode = ''simple''")
    case True
    then show ?thesis using b m(2)[OF True]
      by (simp add: one_mode_def reads_def SMUGGLE_CONSTRUCTOR_ONLY_FIELDS_def absent_defaults mode_field_def DEFAULT_SMUGGLE_BUILDER_def)
  next
    case False
    then show ?thesis using b m(3)[OF False]
      by (simp add: one_mode_def reads_def SMUGGLE_SIMPLE_ONLY_FIELDS_def absent_defaults mode_field_def DEFAULT_SMUGGLE_BUILDER_def)
  qed
  moreover have "\<exists>t. normalize_trigger (Some (sb_trigger_method b)) (Some (sb_trigger_event b)) = Inr t"
    using b(2) normalize_trigger_fixed unfolding reads_def by blast
  moreover have "0 \<le> sb_delay_ms b \<and> sb_delay_ms b \<le> SMUGGLE_BUILDER_MAX_DELAY_MS" using b(2) parse_delay_bounds unfolding reads_def by blast
  ultimately show ?thesis using b m(1) reads_texts[OF b(2)] enum_member locale_member unfolding canonical_def reads_def by blast
qed

subsection \<open>Every canonical configuration has a query\<close>

definition opt_field :: "string \<Rightarrow> string option \<Rightarrow> (string, string) dict" where
  "opt_field k v = (case v of None \<Rightarrow> [] | Some t \<Rightarrow> [(k, t)])"

definition bit_text :: "bool \<Rightarrow> string" where "bit_text b = (if b then ''1'' else ''0'')"

definition query_of :: "builder \<Rightarrow> (string, string) dict" where
  "query_of b =
     [(''mode'', sb_mode b), (''locale'', sb_locale b), (''encryption'', sb_encryption b), (''show_notice'', bit_text (sb_show_notice b))] @
     opt_field ''download_name'' (sb_download_name b) @ opt_field ''download_ext'' (sb_download_ext b) @ opt_field ''title'' (sb_title b) @
     opt_field ''message'' (sb_message b) @
     (if sb_mode b = ''simple''
      then [(''preset'', sb_preset b), (''delay_ms'', decimal_digits (nat (sb_delay_ms b)))] @ opt_field ''cta_label'' (sb_cta_label b)
      else [(''payload_encoding'', sb_payload_encoding b), (''trigger_method'', sb_trigger_method b), (''trigger_event'', sb_trigger_event b),
        (''output_format'', sb_output_format b), (''download_variant'', sb_download_variant b), (''page_template'', sb_page_template b),
        (''mime_type'', sb_mime_type b), (''null_byte'', bit_text (sb_null_byte b))])"

lemma opt_field_get: "dict_get (opt_field k v) f = (if f = k then v else None)"
  by (cases v) (auto simp: opt_field_def)

lemma option_case_id: "(case v of None \<Rightarrow> None | Some x \<Rightarrow> Some x) = v"
  by (cases v) simp_all

lemmas query_get = query_of_def map_of_append map_add_def opt_field_get option_case_id

lemma query_of_always:
  "dict_get (query_of b) ''mode'' = Some (sb_mode b)" "dict_get (query_of b) ''locale'' = Some (sb_locale b)"
  "dict_get (query_of b) ''encryption'' = Some (sb_encryption b)" "dict_get (query_of b) ''show_notice'' = Some (bit_text (sb_show_notice b))"
  by (simp_all add: query_of_def)

lemma query_of_texts:
  "dict_get (query_of b) ''download_name'' = sb_download_name b" "dict_get (query_of b) ''download_ext'' = sb_download_ext b"
  "dict_get (query_of b) ''title'' = sb_title b" "dict_get (query_of b) ''message'' = sb_message b"
proof -
  show "dict_get (query_of b) ''download_name'' = sb_download_name b" by (cases "sb_mode b = ''simple''"; cases "sb_download_name b"; simp add: query_get)
  show "dict_get (query_of b) ''download_ext'' = sb_download_ext b" by (cases "sb_mode b = ''simple''"; cases "sb_download_ext b"; simp add: query_get)
  show "dict_get (query_of b) ''title'' = sb_title b" by (cases "sb_mode b = ''simple''"; cases "sb_title b"; simp add: query_get)
  show "dict_get (query_of b) ''message'' = sb_message b" by (cases "sb_mode b = ''simple''"; cases "sb_message b"; simp add: query_get)
qed

lemma query_of_simple:
  assumes "sb_mode b = ''simple''"
  shows "dict_get (query_of b) ''preset'' = Some (sb_preset b)" "dict_get (query_of b) ''cta_label'' = sb_cta_label b"
    "dict_get (query_of b) ''delay_ms'' = Some (decimal_digits (nat (sb_delay_ms b)))"
    "f \<in> set SMUGGLE_CONSTRUCTOR_ONLY_FIELDS \<Longrightarrow> dict_get (query_of b) f = None"
proof -
  show "f \<in> set SMUGGLE_CONSTRUCTOR_ONLY_FIELDS \<Longrightarrow> dict_get (query_of b) f = None"
    using assms by (simp add: SMUGGLE_CONSTRUCTOR_ONLY_FIELDS_def) (elim disjE; simp add: query_get)
qed (use assms in \<open>simp_all add: query_get\<close>)

lemma query_of_constructor:
  assumes "sb_mode b \<noteq> ''simple''"
  shows "dict_get (query_of b) ''payload_encoding'' = Some (sb_payload_encoding b)" "dict_get (query_of b) ''trigger_method'' = Some (sb_trigger_method b)"
    "dict_get (query_of b) ''trigger_event'' = Some (sb_trigger_event b)" "dict_get (query_of b) ''output_format'' = Some (sb_output_format b)"
    "dict_get (query_of b) ''download_variant'' = Some (sb_download_variant b)" "dict_get (query_of b) ''page_template'' = Some (sb_page_template b)"
    "dict_get (query_of b) ''mime_type'' = Some (sb_mime_type b)" "dict_get (query_of b) ''null_byte'' = Some (bit_text (sb_null_byte b))"
    "f \<in> set SMUGGLE_SIMPLE_ONLY_FIELDS \<Longrightarrow> dict_get (query_of b) f = None"
proof -
  show "f \<in> set SMUGGLE_SIMPLE_ONLY_FIELDS \<Longrightarrow> dict_get (query_of b) f = None"
    using assms by (simp add: SMUGGLE_SIMPLE_ONLY_FIELDS_def) (elim disjE; simp add: query_get)
qed (use assms in \<open>simp_all add: query_get\<close>)

lemma opt_field_keys: "set (map fst (opt_field k v)) \<subseteq> {k}"
  by (cases v) (auto simp: opt_field_def)

lemma parse_bit: "parse_bool (Some (bit_text v)) f d = Inr v"
  by (simp add: parse_bool_def bit_text_def)

lemma parse_delay_decimal:
  assumes "0 \<le> d" "d \<le> SMUGGLE_BUILDER_MAX_DELAY_MS"
  shows "parse_delay (Some (decimal_digits (nat d))) = Inr d"
proof -
  let ?s = "decimal_digits (nat d)"
  have "nat d < 10 ^ 5" using assms by (simp add: SMUGGLE_BUILDER_MAX_DELAY_MS_def)
  then have "length ?s \<le> 5" by (intro length_decimal) simp_all
  then have i: "py_int ?s = Some d" using py_int_decimal[of "nat d"] assms(1) by simp
  have "?s \<noteq> []" by (subst decimal_digits.simps) simp
  moreover have "nat d = 0 \<Longrightarrow> ?s = ''0''" by (simp add: decimal_digits.simps char_of_def bit_iff_odd)
  ultimately have "decimal_matches ?s"
    using decimal_digits_all[of _ "nat d"] decimal_head[of "nat d"] by (cases "nat d = 0") (auto simp: decimal_matches_def list_all_iff)
  then show ?thesis using i assms(2) by (simp add: parse_delay_def)
qed

lemma canonical_trigger:
  "canonical b \<Longrightarrow> \<exists>c. normalize_trigger (Some (sb_trigger_method b)) (Some (sb_trigger_event b)) = Inr (sb_trigger_method b, sb_trigger_event b, c)"
proof -
  assume "canonical b"
  then obtain m e c where t: "normalize_trigger (Some (sb_trigger_method b)) (Some (sb_trigger_event b)) = Inr (m, e, c)"
    unfolding canonical_def by (metis prod_cases3)
  then have "normalize_enum (Some (sb_trigger_method b)) SMUGGLE_TRIGGER_METHODS ''trigger_method'' = Inr m" "Some (sb_trigger_event b) = Some e"
    unfolding normalize_trigger_Inr Let_def by auto
  then show ?thesis using t by (auto simp: normalize_enum_Some)
qed

lemma query_of_reads:
  assumes "canonical b"
  shows "reads (query_of b) b"
proof -
  obtain c where t: "normalize_trigger (Some (sb_trigger_method b)) (Some (sb_trigger_event b)) = Inr (sb_trigger_method b, sb_trigger_event b, c)"
    using canonical_trigger[OF assms] by blast
  have texts: "clean_texts b" "one_mode b" using assms by (simp_all add: canonical_def)
  have delay: "parse_delay (Some (decimal_digits (nat (sb_delay_ms b)))) = Inr (sb_delay_ms b)"
    using assms by (intro parse_delay_decimal) (simp_all add: canonical_def)
  have members: "sb_encryption b \<in> set SMUGGLE_ENCRYPTIONS" "sb_locale b \<in> set SMUGGLE_LOCALES" "sb_preset b \<in> set SMUGGLE_PRESETS"
    "sb_payload_encoding b \<in> set SMUGGLE_PAYLOAD_ENCODINGS" "sb_output_format b \<in> set SMUGGLE_OUTPUT_FORMATS"
    "sb_download_variant b \<in> set SMUGGLE_DOWNLOAD_VARIANTS" "sb_page_template b \<in> set SMUGGLE_PAGE_TEMPLATES"
    using assms by (simp_all add: canonical_def)
  show ?thesis
  proof (cases "sb_mode b = ''simple''")
    case True
    have d: "sb_payload_encoding b = ''base64''" "sb_trigger_method b = ''svg''" "sb_trigger_event b = ''onload''" "sb_output_format b = ''html''"
      "sb_download_variant b = ''blob-anchor''" "sb_page_template b = ''default''" "sb_mime_type b = ''application/octet-stream''" "\<not> sb_null_byte b"
      using texts(2) True by (simp_all add: one_mode_def SMUGGLE_CONSTRUCTOR_ONLY_FIELDS_def mode_field_def DEFAULT_SMUGGLE_BUILDER_def)
    have n: "dict_get (query_of b) f = None" if "f \<in> set SMUGGLE_CONSTRUCTOR_ONLY_FIELDS" for f using query_of_simple(4)[OF True that] .
    note n = n[unfolded SMUGGLE_CONSTRUCTOR_ONLY_FIELDS_def]
    show ?thesis unfolding reads_def
      using d texts(1) members delay
      by (intro conjI)
        (simp_all add: query_of_always query_of_texts ex_bool_eq query_of_simple(1-3)[OF True] n absent_defaults normalize_enum_Some normalize_locale_Some parse_bit extension_fixed clean_texts_def DEFAULT_SMUGGLE_BUILDER_def)
  next
    case False
    have d: "sb_preset b = ''direct''" "sb_cta_label b = None" "sb_delay_ms b = 0"
      using texts(2) False by (simp_all add: one_mode_def SMUGGLE_SIMPLE_ONLY_FIELDS_def mode_field_def DEFAULT_SMUGGLE_BUILDER_def)
    have n: "dict_get (query_of b) f = None" if "f \<in> set SMUGGLE_SIMPLE_ONLY_FIELDS" for f using query_of_constructor(9)[OF False that] .
    note n = n[unfolded SMUGGLE_SIMPLE_ONLY_FIELDS_def]
    show ?thesis unfolding reads_def
      using d texts(1) members t
      by (intro conjI)
        (simp_all add: query_of_always query_of_texts ex_bool_eq query_of_constructor(1-8)[OF False] n absent_defaults normalize_enum_Some normalize_locale_Some parse_bit extension_fixed clean_texts_def DEFAULT_SMUGGLE_BUILDER_def)
  qed
qed

lemma query_of_mode:
  assumes "canonical b"
  shows "parse_mode (query_of b) = Inr (sb_mode b)"
proof -
  have "sb_mode b = ''simple'' \<Longrightarrow> present_of SMUGGLE_CONSTRUCTOR_ONLY_FIELDS (query_of b) = []"
    unfolding present_Nil using query_of_simple(4) by blast
  moreover have "sb_mode b \<noteq> ''simple'' \<Longrightarrow> present_of SMUGGLE_SIMPLE_ONLY_FIELDS (query_of b) = []"
    unfolding present_Nil using query_of_constructor(9) by blast
  moreover have "normalize_enum (Some (sb_mode b)) SMUGGLE_MODES ''mode'' = Inr (sb_mode b)"
    using assms by (simp add: canonical_def normalize_enum_Some)
  ultimately show ?thesis unfolding parse_mode_def query_of_always(1) Let_def by auto
qed

lemma query_of_known: "filter (\<lambda>k. k \<notin> set SMUGGLE_QUERY_FIELDS) (map fst (query_of b)) = []"
  using opt_field_keys[of _ "sb_download_name b"] opt_field_keys[of _ "sb_download_ext b"] opt_field_keys[of _ "sb_title b"]
    opt_field_keys[of _ "sb_message b"] opt_field_keys[of _ "sb_cta_label b"]
  by (simp add: query_of_def SMUGGLE_QUERY_FIELDS_def opt_field_def filter_empty_conv split: option.splits)

lemma query_of_parses: "canonical b \<Longrightarrow> 0 \<le> m \<Longrightarrow> parse_smuggle_request m (query_of b) [] = Inr b"
  using query_of_mode[of b] query_of_reads[of b] parse_fields_Inr[of "sb_mode b" "query_of b" b] query_of_known[of b] validate_fixed_iff[of b]
  by (simp add: parse_smuggle_request_def query_values_def)

text \<open>C3. The configurations that queries express are exactly those that the validation keeps as they are: no query reaches the
  renderer with another, and none of these is out of reach.\<close>

theorem queries_express_canonical_builders:
  assumes "0 \<le> source_max"
  shows "(\<exists>params occurrences. parse_smuggle_request source_max params occurrences = Inr b) \<longleftrightarrow> validate_builder_config b = Inr b"
proof
  assume "\<exists>params occurrences. parse_smuggle_request source_max params occurrences = Inr b"
  then obtain vals mode b0 where p: "parse_mode vals = Inr mode" "parse_fields mode vals = Inr b0" "validate_builder_config b0 = Inr b"
    by (auto simp: parse_smuggle_request_def Let_def and_then_Inr split: option.splits if_splits)
  then have "validate_builder_config b0 = Inr b0" using parsed_fields_canonical validate_fixed_iff by blast
  then show "validate_builder_config b = Inr b" using p(3) by simp
next
  assume "validate_builder_config b = Inr b"
  then show "\<exists>params occurrences. parse_smuggle_request source_max params occurrences = Inr b"
    using query_of_parses[OF _ assms] validate_fixed_iff by blast
qed

lemma default_builder_valid: "validate_builder_config DEFAULT_SMUGGLE_BUILDER = Inr DEFAULT_SMUGGLE_BUILDER"
  by code_simp

lemma queries_express_canonical_builders_witness:
  "\<exists>params occurrences. parse_smuggle_request 5 params occurrences = Inr DEFAULT_SMUGGLE_BUILDER"
  using queries_express_canonical_builders[of 5] default_builder_valid by simp

text \<open>A delay of more than 4300 digits is not refused but raises.\<close>

lemma long_delay_raises:
  assumes "4300 < length ds" "list_all is_digit ds" "hd ds \<noteq> CHR ''0''"
  shows "parse_delay (Some ds) = Inl (Smuggle_Raises ValueError)"
proof -
  have ne: "ds \<noteq> []" using assms(1) by auto
  then have "decimal_matches ds" using assms by (simp add: decimal_matches_def)
  moreover have "py_int ds = None" using py_int_too_long[OF assms(1,2)] .
  ultimately show ?thesis by (simp add: parse_delay_def)
qed

end
