(* ===== verification/Smuggle_Handler.thy ===== *)
theory Smuggle_Handler
  imports Smuggle_Request Advanced_Upload
begin

section \<open>SMUGGLE requests\<close>

text \<open>
  \<^verbatim>\<open>xferry/handlers/smuggle.py\<close> over the modelled paths, query grammar and artifact store, and the settings that \<open>render_artifact\<close> of
  \<^verbatim>\<open>xferry/smuggle/renderer.py\<close> and \<open>render_constructor\<close> of \<^verbatim>\<open>xferry/smuggle/constructor.py\<close> report. The text of the pages is a parameter, \<open>se_page\<close>:
  it gets the protected data, the name of the download, the configuration and the password that the image shows. Further parameters are the random
  draws, the clock and what reading the source gives, which may have changed since its size was read.
\<close>

record smuggle_env =
  se_files :: file_env
  se_unquote :: "string \<Rightarrow> string"
  se_source_limit :: int
  se_max_upload :: int
  se_policy :: temp_policy
  se_crypto :: adv_crypto
  se_salt :: bytes
  se_iv :: bytes
  se_draws :: "nat list"
  se_page :: "bytes \<Rightarrow> string \<Rightarrow> builder \<Rightarrow> string option \<Rightarrow> bytes"
  se_read :: "path \<Rightarrow> bytes option"
  se_now :: time
  se_mtime :: time
  se_fails :: "string set"
  se_tokens :: "nat \<Rightarrow> string \<times> string"
  se_io_ok :: bool
  se_stat_ok :: bool

record smuggle_artifact =
  sa_content :: bytes
  sa_extension :: string
  sa_output_format :: string
  sa_download_name :: string
  sa_name_applied :: bool
  sa_payload_encoding :: string
  sa_trigger_method :: string
  sa_trigger_event :: string
  sa_download_variant :: string
  sa_page_template :: string
  sa_mime_type :: string
  sa_null_byte :: bool
  sa_password :: "string option"

subsection \<open>Rendering\<close>

definition protect :: "adv_crypto \<Rightarrow> bytes \<Rightarrow> bytes \<Rightarrow> bytes \<Rightarrow> string \<Rightarrow> string option \<Rightarrow> bytes option" where
  "protect cr salt iv data encryption password =
     (if encryption = ''none'' then Some data
      else if encryption = ''xor'' then Some (xor_bytes cr data (the password))
      else if encryption = ''aes'' then Some (aes_encrypt cr salt iv data (the password))
      else None)"

definition render_constructor :: "smuggle_env \<Rightarrow> bytes \<Rightarrow> string \<Rightarrow> builder \<Rightarrow> string option \<Rightarrow> smuggle_artifact" where
  "render_constructor env protected download_name b password =
     (let page = se_page env protected download_name b password
      in \<lparr>sa_content = (if sb_null_byte b then 0 # page else page), sa_extension = CHR ''.'' # sb_output_format b, sa_output_format = sb_output_format b,
        sa_download_name = download_name, sa_name_applied = (sb_download_variant b \<noteq> ''loc-assign''), sa_payload_encoding = sb_payload_encoding b,
        sa_trigger_method = sb_trigger_method b, sa_trigger_event = sb_trigger_event b, sa_download_variant = sb_download_variant b,
        sa_page_template = sb_page_template b, sa_mime_type = sb_mime_type b, sa_null_byte = sb_null_byte b, sa_password = password\<rparr>)"

definition render_simple :: "smuggle_env \<Rightarrow> bytes \<Rightarrow> string \<Rightarrow> builder \<Rightarrow> string option \<Rightarrow> smuggle_artifact" where
  "render_simple env protected download_name b password =
     \<lparr>sa_content = se_page env protected download_name b password, sa_extension = ''.html'', sa_output_format = ''html'',
      sa_download_name = download_name, sa_name_applied = True, sa_payload_encoding = ''base64'', sa_trigger_method = ''svg'',
      sa_trigger_event = ''onload'', sa_download_variant = ''blob-anchor'', sa_page_template = ''default'',
      sa_mime_type = ''application/octet-stream'', sa_null_byte = False, sa_password = password\<rparr>"

text \<open>\<open>None\<close> is a \<open>ValueError\<close>, which the handler answers with a refusal.\<close>

definition render_artifact :: "smuggle_env \<Rightarrow> bytes \<Rightarrow> string \<Rightarrow> builder \<Rightarrow> string option \<Rightarrow> smuggle_artifact option" where
  "render_artifact env data filename b password =
     (if sb_mode b \<notin> {''simple'', ''constructor''} then None
      else if sb_encryption b = ''none'' \<and> password \<noteq> None then None
      else if sb_encryption b \<noteq> ''none'' \<and> (password = None \<or> password = Some []) then None
      else (case resolve_download_filename filename (sb_download_name b) (sb_download_ext b) of
          Inl _ \<Rightarrow> None
        | Inr name \<Rightarrow>
            map_option (\<lambda>protected. (if sb_mode b = ''constructor'' then render_constructor else render_simple) env protected name b password)
              (protect (se_crypto env) (se_salt env) (se_iv env) data (sb_encryption b) password)))"

subsection \<open>The handler\<close>

record smuggle_created =
  sc_name :: string
  sc_size :: nat
  sc_content_type :: string
  sc_expires :: "time option"
  sc_source :: string
  sc_source_size :: nat
  sc_builder :: builder
  sc_artifact :: smuggle_artifact

datatype smuggle_answer = Smuggle_Refused nat string | Smuggle_Uncaught py_error | Smuggle_Created smuggle_created

definition PASSWORD_ALPHABET :: string where "PASSWORD_ALPHABET = ''ABCDEFGHIJKLMNOPQRSTUVWXYZ0123456789''"

definition PASSWORD_LENGTH :: nat where "PASSWORD_LENGTH = 7"

definition new_smuggle_password :: "nat list \<Rightarrow> string" where
  "new_smuggle_password draws = map (\<lambda>i. PASSWORD_ALPHABET ! (draws ! i mod length PASSWORD_ALPHABET)) [0..<PASSWORD_LENGTH]"

definition smuggle_source_size_limit :: "smuggle_env \<Rightarrow> int" where
  "smuggle_source_size_limit env = min (se_source_limit env) (se_max_upload env)"

definition smuggle_not_found :: smuggle_answer where "smuggle_not_found = Smuggle_Refused 404 ''smuggle_source_not_found''"

definition smuggle_too_large :: smuggle_answer where "smuggle_too_large = Smuggle_Refused 413 ''smuggle_source_too_large''"

text \<open>The source of a request: its path and its bytes.\<close>

definition read_source :: "smuggle_env \<Rightarrow> string \<Rightarrow> smuggle_answer + path \<times> bytes" where
  "read_source env url =
     (let fenv = se_files env; limit = nat (smuggle_source_size_limit env)
      in if is_hidden_file url then Inl smuggle_not_found
         else (case get_file_path (fe_fs fenv) (fe_upload_dir fenv) url of
             Inl e \<Rightarrow> Inl (Smuggle_Uncaught e)
           | Inr None \<Rightarrow> Inl smuggle_not_found
           | Inr (Some p) \<Rightarrow>
               if \<not> path_exists (fe_fs fenv) p \<or> is_dir (fe_fs fenv) p then Inl smuggle_not_found
               else (case file_stat fenv p of
                   None \<Rightarrow> Inl smuggle_not_found
                 | Some (bytes_now, _) \<Rightarrow>
                     if limit < bytes_now then Inl smuggle_too_large
                     else (case se_read env p of
                         None \<Rightarrow> Inl smuggle_not_found
                       | Some content \<Rightarrow>
                           let data = take (limit + 1) content
                           in if limit < length data then Inl smuggle_too_large else Inr (p, data)))))"

definition write_error :: "temp_error \<Rightarrow> smuggle_answer" where
  "write_error e =
     (case e of
        Temp_Files_Quota \<Rightarrow> Smuggle_Refused 507 ''smuggle_temp_quota_exceeded''
      | Temp_Bytes_Quota \<Rightarrow> Smuggle_Refused 507 ''smuggle_temp_quota_exceeded''
      | Temp_Value \<Rightarrow> Smuggle_Uncaught ValueError
      | _ \<Rightarrow> Smuggle_Refused 500 ''internal_error'')"

definition publish_artifact ::
  "smuggle_env \<Rightarrow> path \<Rightarrow> bytes \<Rightarrow> builder \<Rightarrow> smuggle_artifact \<Rightarrow> artifact_store \<Rightarrow> smuggle_answer \<times> artifact_store" where
  "publish_artifact env p data b a store =
     (case write_artifact (se_policy env) (se_now env) (se_mtime env) (se_fails env) (se_tokens env) (se_io_ok env) (length (sa_content a))
          (sa_extension a) store of
        (Inl e, s1) \<Rightarrow> (write_error e, s1)
      | (Inr name, s1) \<Rightarrow>
          ((if se_stat_ok env
            then Smuggle_Created \<lparr>sc_name = name, sc_size = length (sa_content a),
              sc_content_type = the (dict_get SMUGGLE_OUTPUT_CONTENT_TYPES (sa_output_format a)),
              sc_expires = map_option (\<lambda>age. se_mtime env + age) (tp_max_age (se_policy env)),
              sc_source = path_name p, sc_source_size = length data, sc_builder = b, sc_artifact = a\<rparr>
            else Smuggle_Refused 500 ''internal_error''), s1))"

definition handle_smuggle :: "smuggle_env \<Rightarrow> string \<Rightarrow> string \<Rightarrow> artifact_store \<Rightarrow> smuggle_answer \<times> artifact_store" where
  "handle_smuggle env url q store =
     (if smuggle_source_size_limit env < 0 then (Smuggle_Uncaught ValueError, store)
      else (case parse_smuggle_request (smuggle_source_size_limit env) (query_params (se_unquote env) q) (parse_qsl (se_unquote env) q) of
          Inl (Smuggle_Error code _) \<Rightarrow> (Smuggle_Refused 400 code, store)
        | Inl (Smuggle_Raises e) \<Rightarrow> (Smuggle_Uncaught e, store)
        | Inr b \<Rightarrow>
            (case read_source env url of
               Inl answer \<Rightarrow> (answer, store)
             | Inr (p, data) \<Rightarrow>
                 (case render_artifact env data (path_name p) b
                      (if sb_encryption b \<noteq> ''none'' then Some (new_smuggle_password (se_draws env)) else None) of
                    None \<Rightarrow> (Smuggle_Refused 400 ''invalid_smuggle_configuration'', store)
                  | Some a \<Rightarrow> publish_artifact env p data b a store))))"

subsection \<open>What a created page carries\<close>

definition open_protected :: "adv_crypto \<Rightarrow> string \<Rightarrow> string option \<Rightarrow> bytes \<Rightarrow> bytes option" where
  "open_protected cr encryption password protected =
     (if encryption = ''none'' then Some protected
      else if encryption = ''xor'' then Some (xor_bytes cr protected (the password))
      else aes_decrypt cr protected (the password))"

lemma protect_opens:
  assumes "protect cr salt iv data encryption password = Some protected"
    and "length salt = AES_SALT_LEN" "length iv = AES_NONCE_LEN"
    and "\<And>k n d. ac_gcm_decrypt cr k n (ac_gcm_encrypt cr k n d) = Some d"
    and "\<And>k n d. length (ac_gcm_encrypt cr k n d) = length d + 16"
  shows "open_protected cr encryption password protected = Some data"
  using assms(1) aes_round_trip[OF assms(2-5)]
  by (auto simp: protect_def open_protected_def xor_bytes_involution split: if_splits)

lemma password_not_empty: "new_smuggle_password draws \<noteq> []"
  by (simp add: new_smuggle_password_def PASSWORD_LENGTH_def)

text \<open>A canonical configuration is never refused by the renderer.\<close>

lemma canonical_renders:
  assumes "canonical b"
  shows "\<exists>a. render_artifact env data filename b (if sb_encryption b \<noteq> ''none'' then Some (new_smuggle_password draws) else None) = Some a"
proof -
  have b: "sb_mode b \<in> {''simple'', ''constructor''}" "sb_encryption b \<in> {''none'', ''xor'', ''aes''}" "clean_texts b"
    using assms by (auto simp: canonical_def SMUGGLE_MODES_def SMUGGLE_ENCRYPTIONS_def)
  obtain n where n: "resolve_download_filename filename (sb_download_name b) (sb_download_ext b) = Inr n"
    using download_name_total[of "sb_download_ext b"] b(3) unfolding clean_texts_def by blast
  have "\<exists>x. protect cr salt iv data (sb_encryption b) pw = Some x" for cr salt iv pw using b(2) by (auto simp: protect_def)
  then show ?thesis using b(1) n password_not_empty by (auto simp: render_artifact_def)
qed

lemma render_artifact_parts:
  assumes "render_artifact env data filename b pw = Some a" "canonical b"
  obtains protected name where "protect (se_crypto env) (se_salt env) (se_iv env) data (sb_encryption b) pw = Some protected"
    "resolve_download_filename filename (sb_download_name b) (sb_download_ext b) = Inr name"
    "sa_content a = (if sb_null_byte b then [0] else []) @ se_page env protected name b pw" "sa_password a = pw" "sa_download_name a = name"
    "sa_extension a = CHR ''.'' # sa_output_format a" "sa_output_format a \<in> set output_formats"
proof -
  obtain name where n: "resolve_download_filename filename (sb_download_name b) (sb_download_ext b) = Inr name"
    using assms(1) by (auto simp: render_artifact_def split: if_splits sum.splits)
  note r = assms(1)[unfolded render_artifact_def n sum.case]
  obtain protected where q: "protect (se_crypto env) (se_salt env) (se_iv env) data (sb_encryption b) pw = Some protected"
    "a = (if sb_mode b = ''constructor'' then render_constructor else render_simple) env protected name b pw"
    using r by (auto split: if_splits)
  have f: "sb_output_format b \<in> set output_formats" using assms(2) by (simp add: canonical_def output_formats_def SMUGGLE_OUTPUT_FORMATS_def)
  have s: "\<not> sb_null_byte b" if "sb_mode b = ''simple''"
    using assms(2) that by (simp add: canonical_def one_mode_def SMUGGLE_CONSTRUCTOR_ONLY_FIELDS_def mode_field_def DEFAULT_SMUGGLE_BUILDER_def)
  have m: "sb_mode b \<noteq> ''constructor'' \<Longrightarrow> sb_mode b = ''simple''" using assms(2) by (auto simp: canonical_def SMUGGLE_MODES_def)
  show thesis
    by (rule that[OF q(1) n]) (use q(2) f s m in \<open>auto simp: render_constructor_def render_simple_def Let_def output_formats_def\<close>)
qed

lemma read_source_inside:
  assumes "read_source env url = Inr (p, data)" "0 \<le> smuggle_source_size_limit env"
  shows "\<not> is_hidden_file url \<and> physical (fe_fs (se_files env)) p \<and> inside (se_files env) (fe_upload_dir (se_files env)) p \<and> se_read env p = Some data \<and>
    int (length data) \<le> smuggle_source_size_limit env"
proof -
  have r: "get_file_path (fe_fs (se_files env)) (fe_upload_dir (se_files env)) url = Inr (Some p)" "\<not> is_hidden_file url"
    using assms(1) by (auto simp: read_source_def Let_def split: if_splits sum.splits option.splits prod.splits)
  obtain content where c: "se_read env p = Some content" "data = take (nat (smuggle_source_size_limit env) + 1) content"
    "length data \<le> nat (smuggle_source_size_limit env)"
    using assms(1) r by (auto simp: read_source_def Let_def split: if_splits option.splits prod.splits)
  then have "data = content" by auto
  then show ?thesis using c upload_contained[OF r(1)] r(2) assms(2) by auto
qed

lemma read_source_refuses: "read_source env url = Inl answer \<Longrightarrow> answer \<noteq> Smuggle_Created c"
  by (auto simp: read_source_def Let_def smuggle_not_found_def smuggle_too_large_def split: if_splits sum.splits option.splits prod.splits)

text \<open>The steps of a request that is not refused before its artifact is written.\<close>

lemma handle_smuggle_parts:
  assumes "handle_smuggle env url q store = (answer, store')" "store' \<noteq> store \<or> (\<exists>c. answer = Smuggle_Created c)"
  obtains b p data a where "0 \<le> smuggle_source_size_limit env" "canonical b" "read_source env url = Inr (p, data)"
    "render_artifact env data (path_name p) b (if sb_encryption b \<noteq> ''none'' then Some (new_smuggle_password (se_draws env)) else None) = Some a"
    "publish_artifact env p data b a store = (answer, store')"
proof -
  have l: "0 \<le> smuggle_source_size_limit env" using assms by (auto simp: handle_smuggle_def split: if_splits)
  obtain b where b: "parse_smuggle_request (smuggle_source_size_limit env) (query_params (se_unquote env) q) (parse_qsl (se_unquote env) q) = Inr b"
    using assms l by (auto simp: handle_smuggle_def split: sum.splits smuggle_fail.splits)
  obtain p data where p: "read_source env url = Inr (p, data)"
    using assms l b read_source_refuses by (auto simp: handle_smuggle_def split: sum.splits)
  have c: "canonical b" using queries_express_canonical_builders[OF l] b validate_fixed_iff by blast
  obtain a where a: "render_artifact env data (path_name p) b (if sb_encryption b \<noteq> ''none'' then Some (new_smuggle_password (se_draws env)) else None) = Some a"
    using canonical_renders[OF c] by blast
  show thesis
    by (rule that[OF l c p a]) (use assms(1) l b p a in \<open>simp add: handle_smuggle_def\<close>)
qed

text \<open>A created page. The source is a visible file inside the upload directory and not above the limit; the page holds data that the password
  of the answer opens to exactly the bytes of the source; its name for the download is clean; and the answered artifact is a
  registered file of its length that is served once.\<close>

theorem created_page_carries_source:
  assumes "handle_smuggle env url q store = (Smuggle_Created c, store')"
    and "dict_ok (as_dir store)" "\<forall>k. token_ok (snd (se_tokens env k))"
    and "length (se_salt env) = AES_SALT_LEN" "length (se_iv env) = AES_NONCE_LEN"
    and "\<And>k n d. ac_gcm_decrypt (se_crypto env) k n (ac_gcm_encrypt (se_crypto env) k n d) = Some d"
    and "\<And>k n d. length (ac_gcm_encrypt (se_crypto env) k n d) = length d + 16"
  shows "\<exists>p content protected.
    \<not> is_hidden_file url \<and> inside (se_files env) (fe_upload_dir (se_files env)) p \<and> se_read env p = Some content \<and>
    int (length content) \<le> smuggle_source_size_limit env \<and> validate_builder_config (sc_builder c) = Inr (sc_builder c) \<and>
    sa_content (sc_artifact c) = (if sb_null_byte (sc_builder c) then [0] else []) @
      se_page env protected (sa_download_name (sc_artifact c)) (sc_builder c) (sa_password (sc_artifact c)) \<and>
    open_protected (se_crypto env) (sb_encryption (sc_builder c)) (sa_password (sc_artifact c)) protected = Some content \<and>
    is_artifact_name (sc_name c) \<and> sc_name c \<in> as_paths store' \<and>
    dict_get (as_dir store') (sc_name c) = Some (Regular (length (sa_content (sc_artifact c))) (se_mtime env))"
proof -
  obtain b p data a where h: "0 \<le> smuggle_source_size_limit env" "canonical b" "read_source env url = Inr (p, data)"
    "render_artifact env data (path_name p) b (if sb_encryption b \<noteq> ''none'' then Some (new_smuggle_password (se_draws env)) else None) = Some a"
    "publish_artifact env p data b a store = (Smuggle_Created c, store')"
    by (rule handle_smuggle_parts[OF assms(1)]) auto
  obtain name where w: "write_artifact (se_policy env) (se_now env) (se_mtime env) (se_fails env) (se_tokens env) (se_io_ok env) (length (sa_content a))
      (sa_extension a) store = (Inr name, store')" "sc_name c = name" "sc_builder c = b" "sc_artifact c = a"
    using h(5) by (auto simp: publish_artifact_def write_error_def split: prod.splits sum.splits if_splits temp_error.splits)
  obtain s1 where s1: "dict_get (as_dir s1) name = None" "is_artifact_name name"
    "store' = registry_add name (s1\<lparr>as_dir := dict_set name (Regular (length (sa_content a)) (se_mtime env)) (as_dir s1)\<rparr>)"
    by (rule write_artifact_parts[OF assms(2,3) w(1)])
  obtain protected n where r: "protect (se_crypto env) (se_salt env) (se_iv env) data (sb_encryption b) (sa_password a) = Some protected"
    "sa_content a = (if sb_null_byte b then [0] else []) @ se_page env protected (sa_download_name a) b (sa_password a)"
    by (rule render_artifact_parts[OF h(4,2)]) auto
  have "open_protected (se_crypto env) (sb_encryption b) (sa_password a) protected = Some data" using protect_opens[OF r(1) assms(4-7)] .
  moreover have "validate_builder_config b = Inr b" using h(2) validate_fixed_iff by blast
  moreover have "name \<in> as_paths store'" "dict_get (as_dir store') name = Some (Regular (length (sa_content a)) (se_mtime env))"
    unfolding s1(3) by (simp_all add: registry_add_def dict_facts)
  ultimately show ?thesis using read_source_inside[OF h(3,1)] r(2) s1(2) unfolding w by blast
qed

text \<open>A request that creates nothing leaves the registered artifacts but for those that its clean-up may remove.\<close>

lemma refused_smuggle_keeps_artifacts:
  assumes "handle_smuggle env url q store = (answer, store')" "\<And>c. answer \<noteq> Smuggle_Created c" "dict_ok (as_dir store)" "se_stat_ok env"
  shows "shrinks store store'"
proof (cases "store' = store")
  case False
  then obtain p data b a where "publish_artifact env p data b a store = (answer, store')" using handle_smuggle_parts[OF assms(1)] by metis
  then obtain e where "write_artifact (se_policy env) (se_now env) (se_mtime env) (se_fails env) (se_tokens env) (se_io_ok env) (length (sa_content a))
      (sa_extension a) store = (Inl e, store')"
    using assms(2,4) by (auto simp: publish_artifact_def split: prod.splits sum.splits)
  then show ?thesis using write_failed_shrinks[OF assms(3)] by blast
qed simp

definition demo_smuggle_env :: smuggle_env where
  "demo_smuggle_env = \<lparr>se_files = demo_file_env, se_unquote = id, se_source_limit = 100, se_max_upload = 100, se_policy = demo_policy,
     se_crypto = demo_crypto, se_salt = replicate 16 0, se_iv = replicate 12 0, se_draws = [0, 1, 2, 3, 4, 5, 6],
     se_page = (\<lambda>protected _ _ _. protected @ replicate 8 0), se_read = (\<lambda>_. Some [7]), se_now = 110, se_mtime = 111, se_fails = {},
     se_tokens = demo_tokens, se_io_ok = True, se_stat_ok = True\<rparr>"

definition demo_builder :: builder where "demo_builder = DEFAULT_SMUGGLE_BUILDER\<lparr>sb_encryption := ''xor''\<rparr>"

lemma demo_parse: "parse_smuggle_request 100 (query_params id ''encryption=xor'') (parse_qsl id ''encryption=xor'') = Inr demo_builder"
  by code_simp

lemma demo_source: "read_source demo_smuggle_env ''/uploads/a.txt'' = Inr ([''srv'', ''up'', ''a.txt''], [7])"
  by (simp add: read_source_def handler_evaluation demo_smuggle_env_def smuggle_source_size_limit_def file_stat_def Let_def)

lemma demo_smuggle:
  "\<exists>c store'. handle_smuggle demo_smuggle_env ''/uploads/a.txt'' ''encryption=xor'' empty_store = (Smuggle_Created c, store')"
proof -
  have "validate_builder_config demo_builder = Inr demo_builder" by code_simp
  then have c: "canonical demo_builder" unfolding validate_fixed_iff .
  have e: "sb_encryption demo_builder = ''xor''" "sb_mode demo_builder = ''simple''" by (simp_all add: demo_builder_def DEFAULT_SMUGGLE_BUILDER_def)
  obtain a where a: "render_artifact demo_smuggle_env [7] ''a.txt'' demo_builder (Some (new_smuggle_password (se_draws demo_smuggle_env))) = Some a"
    using canonical_renders[OF c, of demo_smuggle_env "[7]" "''a.txt''" "se_draws demo_smuggle_env"] e by auto
  then have "length (sa_content a) = 9 \<and> sa_extension a = ''.html''"
    using e by (auto simp: render_artifact_def protect_def render_simple_def demo_smuggle_env_def xor_bytes_def Let_def split: sum.splits if_splits)
  moreover have "write_artifact demo_policy 110 111 {} demo_tokens True 9 ''.html'' empty_store = write_artifact demo_policy 110 111 {} demo_tokens True 9 ''html'' empty_store"
    unfolding write_artifact_def demo_extension
    by (simp add: normalize_extension_def py_lower_def lower_char_def ascii_upper_def py_strip_def strip_by_def is_space_def
      temp_extensions_def output_formats_def)
  moreover obtain s' where "write_artifact demo_policy 110 111 {} demo_tokens True 9 ''html'' empty_store = (Inr demo_artifact, s')"
    using demo_empty_write by blast
  ultimately have "\<exists>c. publish_artifact demo_smuggle_env [''srv'', ''up'', ''a.txt''] [7] demo_builder a empty_store = (Smuggle_Created c, s')"
    by (simp add: publish_artifact_def demo_smuggle_env_def)
  then show ?thesis using a e demo_source demo_parse
    by (auto simp: handle_smuggle_def smuggle_source_size_limit_def demo_smuggle_env_def path_name_def)
qed

lemma created_page_carries_source_witness:
  "\<exists>c store' protected. handle_smuggle demo_smuggle_env ''/uploads/a.txt'' ''encryption=xor'' empty_store = (Smuggle_Created c, store') \<and>
     open_protected demo_crypto (sb_encryption (sc_builder c)) (sa_password (sc_artifact c)) protected = Some [7] \<and> sc_name c \<in> as_paths store'"
proof -
  obtain c store' where h: "handle_smuggle demo_smuggle_env ''/uploads/a.txt'' ''encryption=xor'' empty_store = (Smuggle_Created c, store')"
    using demo_smuggle by blast
  show ?thesis using created_page_carries_source[OF h] h demo_token_ok(3)
    by (fastforce simp: empty_store_def demo_smuggle_env_def demo_crypto_def AES_SALT_LEN_def AES_NONCE_LEN_def)
qed

end
