(* ===== verification/Request_Pipeline.thy ===== *)
theory Request_Pipeline
  imports Session_Control Http_Response
begin

section \<open>The request pipeline\<close>

text \<open>
  \<open>RequestPipeline.process\<close> of \<^verbatim>\<open>xferry/request_pipeline.py\<close>, \<open>_dispatch_handler\<close>, and one turn of
  \<open>_handle_client\<close> (\<^verbatim>\<open>xferry/server.py\<close>), which admits the headers before the body is received. What happens to a
  request is a list of events. The circumstances of one request are a \<open>turn\<close>: how the admission controller and the capacity
  gates answer, whether sends succeed, and the handlers, which may do anything to the session store. Logging, latency, the
  decorations of a response (request id, compression) are not modelled; how it is written is in \<open>Http_Response\<close>.
\<close>

datatype dispatch_target = To_Encrypted | To_Control | To_Upload session_dispatch | To_Method string handler

datatype answer = Error_Reply reply | Control_Reply session_answer | Handler_Reply nat body_source

definition status_of :: "answer \<Rightarrow> nat" where
  "status_of a = (case a of Error_Reply r \<Rightarrow> re_status r | Control_Reply s \<Rightarrow> answer_status s | Handler_Reply n _ \<Rightarrow> n)"

text \<open>\<open>response.is_streaming\<close> is asked after the response was sent, when \<open>_send_response\<close> has forgotten an iterator
  (\<open>streams_after_send\<close>).\<close>

definition is_streaming :: "answer \<Rightarrow> bool" where
  "is_streaming a = (case a of Handler_Reply _ b \<Rightarrow> b = From_File | _ \<Rightarrow> False)"

datatype event = Acquired | Settled auth_outcome | Transfer_Taken | Transfer_Freed | Slot_Taken | Slot_Freed
  | Dispatched dispatch_target live_request | Sent answer "string option" | Metric nat | Upgraded

record turn =
  tu_peer :: string
  tu_request_num :: int
  tu_now :: int
  tu_generated_id :: string
  tu_acquired :: acquire_result
  tu_transfer :: bool
  tu_slot :: bool
  tu_sends :: bool
  tu_upgrade :: "bool option"
  tu_in_uploads :: "live_request \<Rightarrow> bool"
  tu_handler :: "dispatch_target \<Rightarrow> live_request \<Rightarrow> session_store \<Rightarrow> (py_error + answer) \<times> session_store"
  tu_load :: "bytes \<Rightarrow> json_load"
  tu_rnd :: "nat \<Rightarrow> bytes"

subsection \<open>Dispatch\<close>

type_synonym handled = "(py_error + answer) \<times> event list \<times> session_store"

definition run_handler :: "turn \<Rightarrow> dispatch_target \<Rightarrow> live_request \<Rightarrow> session_store \<Rightarrow> handled" where
  "run_handler tu t l store = (let (a, store') = tu_handler tu t l store in (a, [Dispatched t l], store'))"

definition run_control :: "server \<Rightarrow> turn \<Rightarrow> live_request \<Rightarrow> session_store \<Rightarrow> handled" where
  "run_control srv tu l store =
     (let (a, store') = handle_session_control srv (tu_load tu) (tu_rnd tu) (tu_now tu) l store
      in (map_sum id Control_Reply a, [Dispatched To_Control l], store'))"

text \<open>\<open>_dispatch_handler\<close> behind its late session check.\<close>

definition dispatch_prepared :: "server \<Rightarrow> turn \<Rightarrow> live_request \<Rightarrow> session_store \<Rightarrow> handled" where
  "dispatch_prepared srv tu l store =
     (case lr_dispatch l of
        Some d \<Rightarrow> run_handler tu (To_Upload d) l store
      | None \<Rightarrow>
          (case get_handler (sv_registry srv) (rq_method (lr_request l)) of
             Some h \<Rightarrow> run_handler tu (To_Method (rq_method (lr_request l)) h) l store
           | None \<Rightarrow> (Inr (Error_Reply (with_header ''Allow'' (text_join '', '' (map fst (sv_registry srv)))
               (error_reply 405 None None False))), [], store)))"

definition dispatch_handler :: "server \<Rightarrow> turn \<Rightarrow> live_request \<Rightarrow> session_store \<Rightarrow> handled" where
  "dispatch_handler srv tu l store =
     (if rq_error (lr_request l) \<noteq> None then (Inr (Error_Reply (error_reply 400 None None False)), [], store)
      else if is_encrypted_route l then run_handler tu To_Encrypted l store
      else if is_session_control_route l then run_control srv tu l store
      else if has_session_header l \<and> \<not> lr_prepared l
      then (case prepare_session_dispatch srv (tu_now tu) l store of
              Inl e \<Rightarrow> (Inl e, [], store)
            | Inr (l', Some err, store') \<Rightarrow> (Inr (Error_Reply err), [], store')
            | Inr (l', None, store') \<Rightarrow> dispatch_prepared srv tu l' store')
      else dispatch_prepared srv tu l store)"

text \<open>The dispatch slot is given back before the response is written, whatever the handler does.\<close>

definition compute_response :: "server \<Rightarrow> turn \<Rightarrow> bool \<Rightarrow> live_request \<Rightarrow> session_store \<Rightarrow> handled" where
  "compute_response srv tu transfer_admitted l store =
     (if transfer_admitted then dispatch_handler srv tu l store
      else if \<not> tu_slot tu then (Inr (Error_Reply (error_reply 503 (Some ''server_busy'') None False)), [], store)
      else let (a, evs, store') = dispatch_handler srv tu l store in (a, [Slot_Taken] @ evs @ [Slot_Freed], store'))"

subsection \<open>Request identifiers of NOTE\<close>

definition is_note_transport :: "http_request \<Rightarrow> bool" where
  "is_note_transport r \<longleftrightarrow> rq_method r = ''NOTE'' \<or> is_note_socket_target r"

definition request_id_ok :: "string \<Rightarrow> bool" where
  "request_id_ok s \<longleftrightarrow> 1 \<le> length s \<and> length s \<le> 128 \<and> list_all (\<lambda>c. is_alnum c \<or> c \<in> set ''._:-'') s"

definition resolve_note_request_id :: "http_request \<Rightarrow> string \<Rightarrow> string \<times> bool" where
  "resolve_note_request_id r generated =
     (case get_header_values ''X-Request-Id'' r of
        [] \<Rightarrow> (generated, False)
      | [v] \<Rightarrow> if request_id_ok v then (v, False) else (generated, True)
      | _ \<Rightarrow> (generated, True))"

subsection \<open>The decision about one request\<close>

text \<open>What the pipeline decides to do with an authenticated request. \<open>Refuse\<close> is a direct error response.\<close>

datatype gate_verdict = Refuse reply "string option" | Control_Plane live_request | Upgrade live_request | Serve live_request

text \<open>The guards before the regular dispatch, in their order.\<close>

definition guard_mutation :: "server \<Rightarrow> live_request \<Rightarrow> string option \<Rightarrow> py_error + gate_verdict" where
  "guard_mutation srv l rid =
     (case (if is_encrypted_route l then Inr True else is_browser_mutation_allowed srv l) of
        Inl e \<Rightarrow> Inl e
      | Inr False \<Rightarrow> Inr (Refuse (error_reply 403 (Some ''forbidden'') None False) rid)
      | Inr True \<Rightarrow>
          (case check_payload_size srv l of
             Some err \<Rightarrow> Inr (Refuse err rid)
           | None \<Rightarrow> Inr (Serve l)))"

definition guard_upgrade :: "server \<Rightarrow> live_request \<Rightarrow> string option \<Rightarrow> bool \<Rightarrow> string \<Rightarrow> py_error + gate_verdict" where
  "guard_upgrade srv l rid invalid_id request_id =
     (if invalid_id then Inr (Refuse (error_reply 400 (Some ''invalid_field'') (Some ''X-Request-Id'') False) (Some request_id))
      else case (if is_encrypted_route l then Inr False else is_websocket_upgrade_attempt l) of
          Inl e \<Rightarrow> Inl e
        | Inr True \<Rightarrow> Inr (Upgrade l)
        | Inr False \<Rightarrow> guard_mutation srv l rid)"

definition gate_request :: "server \<Rightarrow> turn \<Rightarrow> live_request \<Rightarrow> session_store \<Rightarrow> (py_error + gate_verdict) \<times> session_store" where
  "gate_request srv tu l store =
     (let enc = is_encrypted_route l; ctl = is_session_control_route l;
          note = (\<not> ctl \<and> is_note_transport (lr_request l));
          (request_id, invalid_id) = (if note then resolve_note_request_id (lr_request l) (tu_generated_id tu) else (tu_generated_id tu, False));
          rid = (if note then Some request_id else None)
      in if enc
         then (case authorize_encrypted_transfer srv l of
                 Inl e \<Rightarrow> (Inl e, store)
               | Inr (Some err) \<Rightarrow> (Inr (Refuse err None), store)
               | Inr None \<Rightarrow> (guard_upgrade srv l rid invalid_id request_id, store))
         else if ctl
         then (case authorize_session_control srv l of
                 Inl e \<Rightarrow> (Inl e, store)
               | Inr (Some err) \<Rightarrow> (Inr (Refuse err None), store)
               | Inr None \<Rightarrow> (Inr (Control_Plane l), store))
         else if lr_prepared l then (guard_upgrade srv l rid invalid_id request_id, store)
         else (case prepare_session_dispatch srv (tu_now tu) l store of
                 Inl e \<Rightarrow> (Inl e, store)
               | Inr (l', Some err, store') \<Rightarrow> (Inr (Refuse err rid), store')
               | Inr (l', None, store') \<Rightarrow> (guard_upgrade srv l' rid invalid_id request_id, store')))"
subsection \<open>Processing\<close>

type_synonym attempt = "(py_error + bool) \<times> event list \<times> session_store"

definition send_direct :: "turn \<Rightarrow> answer \<Rightarrow> string option \<Rightarrow> session_store \<Rightarrow> attempt" where
  "send_direct tu a rid store =
     (if tu_sends tu then (Inr False, [Sent a rid, Metric (status_of a)], store) else (Inl OSError, [], store))"

definition refuse :: "turn \<Rightarrow> reply \<Rightarrow> string option \<Rightarrow> session_store \<Rightarrow> attempt" where
  "refuse tu r rid store = send_direct tu (Error_Reply r) rid store"

definition after :: "event list \<Rightarrow> attempt \<Rightarrow> attempt" where
  "after evs t = (case t of (res, evs', store) \<Rightarrow> (res, evs @ evs', store))"

text \<open>\<open>_process_websocket_upgrade\<close>.\<close>

definition process_upgrade :: "server \<Rightarrow> turn \<Rightarrow> live_request \<Rightarrow> string \<Rightarrow> session_store \<Rightarrow> attempt" where
  "process_upgrade srv tu l request_id store =
     (case admission_of l of
        Inl e \<Rightarrow> (Inl e, [], store)
      | Inr c \<Rightarrow>
          if \<not> check_websocket_upgrade (upgrade_view (lr_request l) c)
          then refuse tu (error_reply 400 (Some ''bad_request'') None False) (Some request_id) store
          else if \<not> is_websocket_origin_allowed srv c
          then refuse tu (error_reply 403 (Some ''forbidden'') None False) (Some request_id) store
          else if \<not> sv_has_ecdh srv
          then refuse tu (error_reply 501 (Some ''feature_unavailable'') None False) (Some request_id) store
          else (case tu_upgrade tu of
              None \<Rightarrow> (Inl RuntimeError, [], store)
            | Some False \<Rightarrow> refuse tu (error_reply 503 (Some ''server_busy'') None False) (Some request_id) store
            | Some True \<Rightarrow> (Inr False, [Upgraded], store)))"

definition serve_request :: "server \<Rightarrow> turn \<Rightarrow> bool \<Rightarrow> bool \<Rightarrow> live_request \<Rightarrow> session_store \<Rightarrow> attempt" where
  "serve_request srv tu transfer_admitted keep l store =
     (case compute_response srv tu transfer_admitted l store of
        (Inl e, evs, store') \<Rightarrow> (Inl e, evs, store')
      | (Inr a, evs, store') \<Rightarrow>
          if tu_sends tu then (Inr (keep \<and> \<not> is_streaming a), evs @ [Sent a None, Metric (status_of a)], store')
          else (Inl OSError, evs, store'))"

definition serve_control :: "server \<Rightarrow> turn \<Rightarrow> bool \<Rightarrow> live_request \<Rightarrow> session_store \<Rightarrow> attempt" where
  "serve_control srv tu transfer_admitted l store =
     (case compute_response srv tu transfer_admitted l store of
        (Inl e, evs, store') \<Rightarrow> (Inl e, evs, store')
      | (Inr a, evs, store') \<Rightarrow> after evs (send_direct tu a None store'))"

definition note_id :: "turn \<Rightarrow> live_request \<Rightarrow> string option" where
  "note_id tu l =
     (if \<not> is_session_control_route l \<and> is_note_transport (lr_request l)
      then Some (fst (resolve_note_request_id (lr_request l) (tu_generated_id tu))) else None)"

definition act_on :: "server \<Rightarrow> turn \<Rightarrow> bool \<Rightarrow> bool \<Rightarrow> (py_error + gate_verdict) \<times> session_store \<Rightarrow> attempt" where
  "act_on srv tu transfer_admitted keep v =
     (case v of
        (Inl e, store) \<Rightarrow> (Inl e, [], store)
      | (Inr (Refuse r rid), store) \<Rightarrow> refuse tu r rid store
      | (Inr (Control_Plane l), store) \<Rightarrow> serve_control srv tu transfer_admitted l store
      | (Inr (Upgrade l), store) \<Rightarrow>
          process_upgrade srv tu l (case note_id tu l of None \<Rightarrow> tu_generated_id tu | Some i \<Rightarrow> i) store
      | (Inr (Serve l), store) \<Rightarrow> serve_request srv tu transfer_admitted keep l store)"

definition auth_events :: "server \<Rightarrow> auth_outcome option \<Rightarrow> event list" where
  "auth_events srv out = (if sv_authenticates srv then Acquired # (case out of None \<Rightarrow> [] | Some oc \<Rightarrow> [Settled oc]) else [])"

text \<open>The body of the \<open>try\<close>: a prepared request brings its admission and authentication along.\<close>

definition admitted_request :: "server \<Rightarrow> turn \<Rightarrow> live_request option \<Rightarrow> bytes \<Rightarrow> live_request" where
  "admitted_request srv tu prepared data =
     (let l = (case prepared of
            None \<Rightarrow> new_request srv data
          | Some p \<Rightarrow> p\<lparr>lr_request := (lr_request p)\<lparr>rq_body := snd (split_message data)\<rparr>\<rparr>)
      in l\<lparr>lr_security := attach_direct_peer (tu_peer tu) (lr_security l)\<rparr>)"

definition admission_result :: "server \<Rightarrow> live_request option \<Rightarrow> live_request \<Rightarrow> py_error + (reply + admission_context)" where
  "admission_result srv prepared l =
     (if prepared \<noteq> None then map_sum id Inr (admission_of l)
      else Inr (case admit (sv_hosts srv) (sv_policy srv) (lr_request l) of
          Inl (Admission_Failure status code name) \<Rightarrow> Inl (error_reply status (Some code) (Some name) True)
        | Inr c \<Rightarrow> Inr c))"

definition process_body ::
  "server \<Rightarrow> turn \<Rightarrow> live_request option \<Rightarrow> bool \<Rightarrow> bytes \<Rightarrow> session_store \<Rightarrow> attempt"
where
  "process_body srv tu prepared transfer_admitted data store =
     (let l = admitted_request srv tu prepared data
      in if rq_error (lr_request l) \<noteq> None then refuse tu (error_reply 400 (Some ''malformed_request'') None False) None store
         else case admission_result srv prepared l of
             Inl e \<Rightarrow> (Inl e, [], store)
           | Inr (Inl err) \<Rightarrow> refuse tu err None store
           | Inr (Inr c) \<Rightarrow>
               (let l1 = l\<lparr>lr_security := set_admission_context c (lr_security l)\<rparr>;
                    keep = fst (resolve_keep_alive (rq_version (lr_request l1)) c (tu_request_num tu))
                in if prepared \<noteq> None then act_on srv tu transfer_admitted keep (gate_request srv tu l1 store)
                   else case authenticate srv (tu_acquired tu) l1 of
                       Inl e \<Rightarrow> (Inl e, [], store)
                     | Inr (l2, Some err, out) \<Rightarrow>
                         after (auth_events srv out)
                           (refuse tu (if is_session_control_route l2 then err\<lparr>re_no_store := True\<rparr> else err) (note_id tu l2) store)
                     | Inr (l2, None, out) \<Rightarrow>
                         after (auth_events srv out) (act_on srv tu transfer_admitted keep (gate_request srv tu l2 store))))"

text \<open>Any exception ends in one attempt to send an internal error, and the connection is closed. The error carries the
  identifier of a NOTE request once the request was admitted.\<close>

definition failure_id :: "server \<Rightarrow> turn \<Rightarrow> live_request option \<Rightarrow> bytes \<Rightarrow> string option" where
  "failure_id srv tu prepared data =
     (let l = admitted_request srv tu prepared data
      in if prepared \<noteq> None \<and> sc_admission (lr_security l) = None then None else note_id tu l)"

definition process ::
  "server \<Rightarrow> turn \<Rightarrow> live_request option \<Rightarrow> bool \<Rightarrow> bytes \<Rightarrow> session_store \<Rightarrow> bool \<times> event list \<times> session_store"
where
  "process srv tu prepared transfer_admitted data store =
     (case process_body srv tu prepared transfer_admitted data store of
        (Inr keep, evs, store') \<Rightarrow> (keep, evs, store')
      | (Inl e, evs, store') \<Rightarrow>
          (False, evs @ [Metric 500] @ (if tu_sends tu then [Sent (Error_Reply (error_reply 500 (Some ''internal_error'') None False)) (failure_id srv tu prepared data)] else []),
           store'))"

subsection \<open>One turn of a connection\<close>

definition prepare_request_headers ::
  "server \<Rightarrow> turn \<Rightarrow> bytes \<Rightarrow> session_store \<Rightarrow> (py_error + (live_request \<times> reply option)) \<times> event list \<times> session_store"
where
  "prepare_request_headers srv tu head store =
     (let l = admitted_request srv tu None head
      in if rq_error (lr_request l) \<noteq> None then (Inr (l, Some (error_reply 400 (Some ''malformed_request'') None False)), [], store)
         else case admission_result srv None l of
             Inl e \<Rightarrow> (Inl e, [], store)
           | Inr (Inl err) \<Rightarrow> (Inr (l, Some err), [], store)
           | Inr (Inr c) \<Rightarrow>
               (case authenticate srv (tu_acquired tu) (l\<lparr>lr_security := set_admission_context c (lr_security l)\<rparr>) of
                  Inl e \<Rightarrow> (Inl e, [], store)
                | Inr (l2, Some err, out) \<Rightarrow> (Inr (l2, Some err), auth_events srv out, store)
                | Inr (l2, None, out) \<Rightarrow>
                    if is_encrypted_route l2
                    then (map_sum id (\<lambda>err. (l2, err)) (authorize_encrypted_transfer srv l2), auth_events srv out, store)
                    else if is_session_control_route l2
                    then (map_sum id (\<lambda>err. (l2, err)) (authorize_session_control srv l2), auth_events srv out, store)
                    else (case prepare_session_dispatch srv (tu_now tu) l2 store of
                            Inl e \<Rightarrow> (Inl e, auth_events srv out, store)
                          | Inr (l3, err, store') \<Rightarrow> (Inr (l3, err), auth_events srv out, store'))))"

text \<open>The callback \<open>admit_headers\<close>: \<open>Some\<close> are the admitted headers, with the transfer lease if one was taken.\<close>

definition admit_headers ::
  "server \<Rightarrow> turn \<Rightarrow> bytes \<Rightarrow> session_store \<Rightarrow> (live_request \<times> bool) option \<times> event list \<times> session_store"
where
  "admit_headers srv tu head store =
     (case prepare_request_headers srv tu head store of
        (Inl e, evs, store') \<Rightarrow> (None, evs, store')
      | (Inr (l, err), evs, store') \<Rightarrow>
          (let bulk = (err = None \<and> is_bulk_request (tu_in_uploads tu) l);
               err' = (if bulk \<and> \<not> tu_transfer tu then Some (error_reply 503 (Some ''server_busy'') None False) else err);
               taken = (if bulk \<and> tu_transfer tu then [Transfer_Taken] else [])
           in case err' of
                None \<Rightarrow> (Some (l, bulk), evs @ taken, store')
              | Some r \<Rightarrow>
                  (None, evs @ (if tu_sends tu
                     then [Sent (Error_Reply r) (if is_note_transport (lr_request l)
                       then Some (fst (resolve_note_request_id (lr_request l) (tu_generated_id tu))) else None)]
                     else []), store')))"

text \<open>\<open>head\<close> is the header block when it was received completely, \<open>data\<close> the whole request, empty when receiving failed (the
  response to a rejected body is not modelled).\<close>

definition handle_turn ::
  "server \<Rightarrow> turn \<Rightarrow> bytes option \<Rightarrow> bytes \<Rightarrow> session_store \<Rightarrow> bool \<times> event list \<times> session_store"
where
  "handle_turn srv tu head data store =
     (case head of
        None \<Rightarrow> if data = [] then (False, [], store) else process srv tu None False data store
      | Some h \<Rightarrow>
          (case admit_headers srv tu h store of
             (None, evs, store') \<Rightarrow> (False, evs, store')
           | (Some (l, transfer), evs, store') \<Rightarrow>
               (let freed = (if transfer then [Transfer_Freed] else [])
                in if data = [] then (False, evs @ freed, store')
                   else case process srv tu (Some l) transfer data store' of
                       (keep, evs', store'') \<Rightarrow> (keep, evs @ evs' @ freed, store''))))"

subsection \<open>Following a dispatch back through the gates\<close>

lemma parse_lookup_body [simp]:
  "get_header_values k (r\<lparr>rq_body := b\<rparr>) = get_header_values k r"
  "get_raw_header_values k (r\<lparr>rq_body := b\<rparr>) = get_raw_header_values k r"
  by (simp_all add: get_header_values_def get_raw_header_values_def)

lemma admit_body [simp]: "admit env p (r\<lparr>rq_body := b\<rparr>) = admit env p r"
proof -
  have "repeated_or_folded (r\<lparr>rq_body := b\<rparr>) = repeated_or_folded r" "single_value (r\<lparr>rq_body := b\<rparr>) = single_value r"
    by (simp_all add: repeated_or_folded_def single_value_def fun_eq_iff)
  moreover from this have "context_for (r\<lparr>rq_body := b\<rparr>) = context_for r" by (simp add: context_for_def fun_eq_iff)
  moreover have "rq_occurrences (r\<lparr>rq_body := b\<rparr>) = rq_occurrences r" "rq_version (r\<lparr>rq_body := b\<rparr>) = rq_version r" by simp_all
  ultimately show ?thesis unfolding admit_def parse_lookup_body by presburger
qed

definition authenticated :: "server \<Rightarrow> acquire_result \<Rightarrow> security_context \<Rightarrow> admission_context \<Rightarrow> bool" where
  "authenticated srv acquired sc c \<longleftrightarrow>
     (if sv_authenticates srv
      then (\<forall>d. acquired \<noteq> Denied d) \<and> sc_mode sc = Mode_Basic \<and>
        (\<exists>p. sv_verify srv (ac_authorization c) = Verified p \<and> sc_principal sc = Some p)
      else sc_mode sc = Mode_Disabled \<and> sc_principal sc = None)"

lemma authenticate_passed:
  assumes "authenticate srv acquired l = Inr (l', None, out)" "sc_admission (lr_security l) = Some c"
  shows "\<exists>sc. l' = l\<lparr>lr_security := sc\<rparr> \<and> sc_admission sc = Some c \<and> sc_peer sc = sc_peer (lr_security l) \<and> authenticated srv acquired sc c"
  using assms
  by (auto simp: authenticate_def authenticated_def admission_of_def set_authentication_disabled_def set_verified_principal_def
    split: if_splits acquire_result.splits verify_result.splits)

text \<open>The request is the parsed \<open>raw\<close>, up to its body.\<close>

definition received :: "server \<Rightarrow> bytes \<Rightarrow> live_request \<Rightarrow> bool" where
  "received srv raw l \<longleftrightarrow> lr_path l = lr_path (new_request srv raw) \<and>
     (\<exists>b. lr_request l = (lr_request (new_request srv raw))\<lparr>rq_body := b\<rparr>)"

lemma received_cong:
  "received srv raw l \<Longrightarrow> lr_path l' = lr_path l \<Longrightarrow> lr_request l' = (lr_request l)\<lparr>rq_body := b\<rparr> \<Longrightarrow> received srv raw l'"
  by (auto simp: received_def)

lemma received_new: "lr_request l = lr_request (new_request srv raw) \<Longrightarrow> lr_path l = lr_path (new_request srv raw) \<Longrightarrow> received srv raw l"
  by (auto simp: received_def intro!: exI[of _ "rq_body (lr_request (new_request srv raw))"])

text \<open>What holds of a request behind admission and authentication, prepared or not; \<open>store\<close> is the session store before both.\<close>

definition vetted :: "server \<Rightarrow> turn \<Rightarrow> bytes \<Rightarrow> session_store \<Rightarrow> live_request \<Rightarrow> bool" where
  "vetted srv tu raw store l \<longleftrightarrow>
     received srv raw l \<and> rq_error (lr_request l) = None \<and> sc_peer (lr_security l) = Some (tu_peer tu) \<and>
     (\<exists>c. sc_admission (lr_security l) = Some c \<and> admit (sv_hosts srv) (sv_policy srv) (lr_request l) = Inr c \<and>
        authenticated srv (tu_acquired tu) (lr_security l) c) \<and>
     (\<forall>d. lr_dispatch l = Some d \<longrightarrow> session_bound srv (tu_now tu) store l d \<and> authorize_session_data srv l = Inr None \<and> has_session_header l) \<and>
     (lr_prepared l \<longrightarrow> has_session_header l \<longrightarrow> lr_dispatch l \<noteq> None)"

lemma live_frame:
  assumes "lr_request l' = (lr_request l)\<lparr>rq_body := b\<rparr>" "lr_path l' = lr_path l" "lr_security l' = lr_security l"
  shows "session_bound srv now st l' d = session_bound srv now st l d" "has_session_header l' = has_session_header l"
    "authorize_session_data srv l' = authorize_session_data srv l"
proof -
  show "session_bound srv now st l' d = session_bound srv now st l d"
    unfolding session_bound_def assms parse_lookup_body by simp
  show h: "has_session_header l' = has_session_header l" unfolding has_session_header_def assms(1) parse_lookup_body ..
  show "authorize_session_data srv l' = authorize_session_data srv l"
    unfolding authorize_session_data_def admission_of_def assms(3) h ..
qed

lemma vetted_cong:
  assumes "vetted srv tu raw store l" "lr_request l' = (lr_request l)\<lparr>rq_body := b\<rparr>" "lr_path l' = lr_path l" "lr_security l' = lr_security l"
    "lr_dispatch l' = lr_dispatch l" "lr_prepared l' = lr_prepared l"
  shows "vetted srv tu raw store l'"
  using assms(1,2,4-6) live_frame[OF assms(2-4)] received_cong[OF _ assms(3,2)] by (simp add: vetted_def)

lemma prepared_vetted:
  assumes v: "vetted srv tu raw store l" "\<not> lr_prepared l" "lr_dispatch l = None" and ctl: "\<not> is_session_control_route l"
    and p: "prepare_session_dispatch srv (tu_now tu) l store = Inr (l', None, store')"
  shows "vetted srv tu raw store l' \<and> lr_prepared l' \<and> is_encrypted_route l' = is_encrypted_route l \<and> \<not> is_session_control_route l'"
proof -
  note f = prepare_session_frame[OF p]
  then have "lr_request l' = (lr_request l)\<lparr>rq_body := rq_body (lr_request l)\<rparr>" "lr_path l' = lr_path l" "lr_security l' = lr_security l"
    by simp_all
  note same = live_frame[OF this] and rec = received_cong[OF _ this(2,1)]
  have "session_bound srv (tu_now tu) store l' d \<and> authorize_session_data srv l' = Inr None \<and> has_session_header l'"
    if "lr_dispatch l' = Some d" for d
    using prepare_session_bound[OF p v(3) that] same by simp
  moreover have "has_session_header l' \<longrightarrow> lr_dispatch l' \<noteq> None"
    using p f ctl bind_session_dispatch[of srv "tu_now tu" l store l' store']
    by (auto simp: prepare_session_dispatch_def has_session_header_def split: if_splits sum.splits option.splits)
  ultimately show ?thesis using v(1) f ctl rec by (simp add: vetted_def is_encrypted_route_def is_session_control_route_def)
qed

lemma guard_upgrade_Serve:
  "guard_upgrade srv l rid bad i = Inr (Serve l') \<Longrightarrow> l' = l \<and> (is_encrypted_route l \<or> is_browser_mutation_allowed srv l = Inr True)"
  by (auto simp: guard_upgrade_def guard_mutation_def split: if_splits sum.splits bool.splits option.splits)

lemma guard_upgrade_not_Control: "guard_upgrade srv l rid bad i \<noteq> Inr (Control_Plane l')"
  by (auto simp: guard_upgrade_def guard_mutation_def split: if_splits sum.splits bool.splits option.splits)

text \<open>How a request comes to be served, by its route.\<close>

definition clear_to_serve :: "server \<Rightarrow> turn \<Rightarrow> bytes \<Rightarrow> session_store \<Rightarrow> live_request \<Rightarrow> bool" where
  "clear_to_serve srv tu raw store l \<longleftrightarrow> vetted srv tu raw store l \<and>
     (if is_encrypted_route l then authorize_encrypted_transfer srv l = Inr None
      else \<not> is_session_control_route l \<and> lr_prepared l \<and> is_browser_mutation_allowed srv l = Inr True)"

lemma gate_Serve:
  assumes v: "vetted srv tu raw store l" "\<not> lr_prepared l \<longrightarrow> lr_dispatch l = None \<and> store' = store"
    and g: "gate_request srv tu l store' = (Inr (Serve l'), store'')"
  shows "clear_to_serve srv tu raw store l'"
proof (cases "is_encrypted_route l")
  case True
  then show ?thesis using v g
    by (auto simp: gate_request_def clear_to_serve_def Let_def dest!: guard_upgrade_Serve split: sum.splits option.splits prod.splits if_splits)
next
  case enc: False
  then have ctl: "\<not> is_session_control_route l"
    using g by (auto simp: gate_request_def Let_def split: sum.splits option.splits prod.splits if_splits)
  show ?thesis
  proof (cases "lr_prepared l")
    case True
    then show ?thesis using v g enc ctl
      by (auto simp: gate_request_def clear_to_serve_def Let_def dest!: guard_upgrade_Serve split: prod.splits if_splits)
  next
    case False
    then obtain l2 store2 rid bad i where p: "prepare_session_dispatch srv (tu_now tu) l store = Inr (l2, None, store2)"
      and u: "guard_upgrade srv l2 rid bad i = Inr (Serve l')"
      using v(2) g enc ctl by (auto simp: gate_request_def Let_def split: sum.splits option.splits prod.splits if_splits)
    have "vetted srv tu raw store l2 \<and> lr_prepared l2 \<and> is_encrypted_route l2 = is_encrypted_route l \<and> \<not> is_session_control_route l2"
      using prepared_vetted[OF v(1) _ _ ctl p] v(2) False by simp
    then show ?thesis using guard_upgrade_Serve[OF u] enc by (auto simp: clear_to_serve_def)
  qed
qed

lemma gate_Control:
  assumes "gate_request srv tu l store' = (Inr (Control_Plane l'), store'')"
  shows "l' = l \<and> \<not> is_encrypted_route l \<and> is_session_control_route l \<and> authorize_session_control srv l = Inr None"
  using assms guard_upgrade_not_Control
  by (auto simp: gate_request_def Let_def split: sum.splits option.splits prod.splits if_splits)

text \<open>What the dispatcher does with a request that is prepared, or goes to one of the two reserved routes.\<close>

definition target_of :: "server \<Rightarrow> live_request \<Rightarrow> dispatch_target \<Rightarrow> bool" where
  "target_of srv l t \<longleftrightarrow>
     (case t of
        To_Encrypted \<Rightarrow> is_encrypted_route l
      | To_Control \<Rightarrow> \<not> is_encrypted_route l \<and> is_session_control_route l
      | To_Upload d \<Rightarrow> \<not> is_encrypted_route l \<and> \<not> is_session_control_route l \<and> lr_dispatch l = Some d
      | To_Method m h \<Rightarrow> \<not> is_encrypted_route l \<and> \<not> is_session_control_route l \<and> lr_dispatch l = None \<and> m = rq_method (lr_request l) \<and>
          get_handler (sv_registry srv) m = Some h)"

fun is_dispatch :: "event \<Rightarrow> bool" where
  "is_dispatch (Dispatched _ _) = True"
| "is_dispatch _ = False"

lemma dispatch_handler_events:
  assumes "dispatch_handler srv tu l store = (a, evs, store')" "lr_prepared l \<or> is_encrypted_route l \<or> is_session_control_route l"
  shows "evs = [] \<or> (\<exists>t. evs = [Dispatched t l] \<and> target_of srv l t)"
  using assms
  by (auto simp: dispatch_handler_def dispatch_prepared_def run_handler_def run_control_def target_of_def
    split: if_splits prod.splits option.splits)

lemma compute_response_events:
  assumes "compute_response srv tu tr l store = (a, evs, store')" "lr_prepared l \<or> is_encrypted_route l \<or> is_session_control_route l"
  shows "Acquired \<notin> set evs \<and> (filter is_dispatch evs = [] \<or> (\<exists>t. filter is_dispatch evs = [Dispatched t l] \<and> target_of srv l t))"
  using assms dispatch_handler_events[of srv tu l store]
  by (fastforce simp: compute_response_def Let_def split: if_splits prod.splits)

text \<open>What a request must have to be handed to its target; \<open>store\<close> is the session store when its turn begins.\<close>

definition entitled :: "server \<Rightarrow> turn \<Rightarrow> bytes \<Rightarrow> session_store \<Rightarrow> live_request \<Rightarrow> dispatch_target \<Rightarrow> bool" where
  "entitled srv tu raw store l t \<longleftrightarrow>
     (\<exists>c. received srv raw l \<and> rq_error (lr_request l) = None \<and> admit (sv_hosts srv) (sv_policy srv) (lr_request l) = Inr c \<and>
        sc_admission (lr_security l) = Some c \<and> authenticated srv (tu_acquired tu) (lr_security l) c \<and> target_of srv l t \<and>
        (case t of
           To_Encrypted \<Rightarrow> sv_encrypted_uploads srv \<longrightarrow> strict_origin_error srv c = None
         | To_Control \<Rightarrow> peer_error srv (lr_security l) = Inr None \<and> strict_origin_error srv c = None
         | To_Upload d \<Rightarrow> session_bound srv (tu_now tu) store l d \<and> peer_error srv (lr_security l) = Inr None \<and>
             data_origin_error srv c = None \<and> \<not> cross_site srv c
         | To_Method m h \<Rightarrow> \<not> has_session_header l \<and> (is_protected_mutation srv l \<longrightarrow> \<not> cross_site srv c)))"

lemma cleared_entitled: "clear_to_serve srv tu raw store l \<Longrightarrow> target_of srv l t \<Longrightarrow> entitled srv tu raw store l t"
  by (auto simp: clear_to_serve_def vetted_def entitled_def target_of_def authorize_encrypted_transfer_def authorize_session_data_def
    is_browser_mutation_allowed_def admission_of_def is_protected_mutation_def cross_site_mutation
    split: dispatch_target.splits if_splits sum.splits option.splits)

lemma control_entitled:
  assumes "vetted srv tu raw store l" "\<not> is_encrypted_route l" "is_session_control_route l" "authorize_session_control srv l = Inr None"
    "target_of srv l t"
  shows "entitled srv tu raw store l t"
  using assms
  by (auto simp: vetted_def entitled_def target_of_def authorize_session_control_def admission_of_def
    split: dispatch_target.splits if_splits sum.splits option.splits)

definition dispatch_ok :: "server \<Rightarrow> turn \<Rightarrow> bytes \<Rightarrow> session_store \<Rightarrow> event list \<Rightarrow> bool" where
  "dispatch_ok srv tu raw store evs \<longleftrightarrow>
     filter is_dispatch evs = [] \<or> (\<exists>l t. filter is_dispatch evs = [Dispatched t l] \<and> entitled srv tu raw store l t)"

lemma dispatch_ok_dispatched:
  assumes "dispatch_ok srv tu raw store evs" "Dispatched t l \<in> set evs"
  shows "filter is_dispatch evs = [Dispatched t l] \<and> entitled srv tu raw store l t"
proof -
  have m: "Dispatched t l \<in> set (filter is_dispatch evs)" using assms(2) by simp
  then have "filter is_dispatch evs \<noteq> []" by (metis empty_iff empty_set)
  then obtain l' t' where o: "filter is_dispatch evs = [Dispatched t' l']" "entitled srv tu raw store l' t'"
    using assms(1) unfolding dispatch_ok_def by blast
  from m[unfolded o(1)] have "t' = t \<and> l' = l" by simp
  then show ?thesis using o by simp
qed

lemma refuse_events: "refuse tu r rid store = (res, evs, store') \<Longrightarrow> filter is_dispatch evs = [] \<and> Acquired \<notin> set evs"
  by (auto simp: refuse_def send_direct_def split: if_splits)

lemma process_upgrade_events:
  "process_upgrade srv tu l i store = (res, evs, store') \<Longrightarrow> filter is_dispatch evs = [] \<and> Acquired \<notin> set evs"
  using refuse_events
  by (fastforce simp: process_upgrade_def split: sum.splits if_splits option.splits bool.splits)

lemma serve_events:
  assumes "compute_response srv tu tr l store1 = (a, evs0, store2)" "lr_prepared l \<or> is_encrypted_route l \<or> is_session_control_route l"
    and "\<And>t. target_of srv l t \<Longrightarrow> entitled srv tu raw store l t"
  shows "dispatch_ok srv tu raw store evs0 \<and> Acquired \<notin> set evs0"
  using compute_response_events[OF assms(1,2)] assms(3) by (auto simp: dispatch_ok_def)

lemma dispatch_ok_append [simp]: "filter is_dispatch evs' = [] \<Longrightarrow> dispatch_ok srv tu raw store (evs @ evs') = dispatch_ok srv tu raw store evs"
  "filter is_dispatch evs' = [] \<Longrightarrow> dispatch_ok srv tu raw store (evs' @ evs) = dispatch_ok srv tu raw store evs"
  by (simp_all add: dispatch_ok_def)

lemma dispatch_ok_none: "filter is_dispatch evs = [] \<Longrightarrow> dispatch_ok srv tu raw store evs"
  by (simp add: dispatch_ok_def)

lemma act_on_events:
  assumes g: "gate_request srv tu l store1 = v" and v: "vetted srv tu raw store l" "\<not> lr_prepared l \<longrightarrow> lr_dispatch l = None \<and> store1 = store"
    and a: "act_on srv tu tr keep v = (res, evs, store')"
  shows "dispatch_ok srv tu raw store evs \<and> Acquired \<notin> set evs"
proof -
  obtain d s where d: "v = (d, s)" by fastforce
  show ?thesis
  proof (cases d)
    case (Inl e)
    then show ?thesis using a d by (auto simp: act_on_def dispatch_ok_def)
  next
    case (Inr w)
    show ?thesis
    proof (cases w)
      case (Refuse r rid)
      then show ?thesis using a d Inr refuse_events by (fastforce simp: act_on_def intro: dispatch_ok_none)
    next
      case (Upgrade l')
      then show ?thesis using a d Inr process_upgrade_events by (fastforce simp: act_on_def intro: dispatch_ok_none)
    next
      case (Control_Plane l')
      then have c: "l' = l \<and> \<not> is_encrypted_route l \<and> is_session_control_route l \<and> authorize_session_control srv l = Inr None"
        using gate_Control g d Inr by blast
      obtain x evs0 s0 where r: "compute_response srv tu tr l s = (x, evs0, s0)" by (cases "compute_response srv tu tr l s") auto
      have "dispatch_ok srv tu raw store evs0 \<and> Acquired \<notin> set evs0"
        using c control_entitled[OF v(1)] by (intro serve_events[OF r]) auto
      then show ?thesis using a d Inr Control_Plane c r
        by (auto simp: act_on_def serve_control_def send_direct_def after_def split: sum.splits if_splits)
    next
      case (Serve l')
      then have c: "clear_to_serve srv tu raw store l'" using gate_Serve[OF v] g d Inr by blast
      obtain x evs0 s0 where r: "compute_response srv tu tr l' s = (x, evs0, s0)" by (cases "compute_response srv tu tr l' s") auto
      have "dispatch_ok srv tu raw store evs0 \<and> Acquired \<notin> set evs0"
        using c cleared_entitled[OF c] by (intro serve_events[OF r]) (auto simp: clear_to_serve_def split: if_splits)
      then show ?thesis using a d Inr Serve r by (auto simp: act_on_def serve_request_def split: sum.splits if_splits)
    qed
  qed
qed

text \<open>A request admitted and authenticated in the body of \<open>process\<close>, or before.\<close>

lemma fresh_vetted:
  assumes "admission_result srv None (admitted_request srv tu None data) = Inr (Inr c)" "rq_error (lr_request (admitted_request srv tu None data)) = None"
    and l: "l = (admitted_request srv tu None data)\<lparr>lr_security := set_admission_context c (lr_security (admitted_request srv tu None data))\<rparr>"
    and a: "authenticate srv (tu_acquired tu) l = Inr (l', None, out)"
  shows "vetted srv tu data store l' \<and> \<not> lr_prepared l' \<and> lr_dispatch l' = None"
proof -
  have "sc_admission (lr_security l) = Some c" by (simp add: l set_admission_context_def)
  from authenticate_passed[OF a this] obtain sc where sc: "l' = l\<lparr>lr_security := sc\<rparr>" "sc_admission sc = Some c"
    "sc_peer sc = sc_peer (lr_security l)" "authenticated srv (tu_acquired tu) sc c" by blast
  have "admit (sv_hosts srv) (sv_policy srv) (lr_request l) = Inr c"
    using assms(1) by (auto simp: l admission_result_def split: sum.splits admission_failure.splits)
  moreover have "received srv data l'"
    using sc(1) by (intro received_new) (simp_all add: l admitted_request_def Let_def)
  moreover have "sc_peer (lr_security l) = Some (tu_peer tu)" "lr_dispatch l = None" "\<not> lr_prepared l"
    by (simp_all add: l set_admission_context_def admitted_request_def attach_direct_peer_def new_request_def Let_def)
  ultimately show ?thesis using sc assms(2) by (simp add: vetted_def l)
qed

lemma auth_events_quiet [simp]:
  "filter is_dispatch (auth_events srv out) = []" "count_list (auth_events srv out) Acquired \<le> Suc 0"
  by (auto simp: auth_events_def split: option.splits)

lemma count_zero [simp]: "Acquired \<notin> set evs \<Longrightarrow> count_list evs Acquired = 0"
  by (simp add: count_notin)

lemma fresh_body_events:
  assumes "process_body srv tu None tr data store = (res, evs, store')"
  shows "dispatch_ok srv tu data store evs \<and> count_list evs Acquired \<le> 1"
proof -
  let ?l = "admitted_request srv tu None data"
  let ?l1 = "\<lambda>c. ?l\<lparr>lr_security := set_admission_context c (lr_security ?l)\<rparr>"
  have refused: "dispatch_ok srv tu data store (xs @ evs) \<and> count_list (xs @ evs) Acquired \<le> 1"
    if "refuse tu r rid store = (res, evs, store')" "filter is_dispatch xs = []" "count_list xs Acquired \<le> Suc 0" for r rid xs res evs store'
    using refuse_events[OF that(1)] that(2,3) by (simp add: dispatch_ok_none)
  have acted: "dispatch_ok srv tu data store (xs @ evs) \<and> count_list (xs @ evs) Acquired \<le> 1"
    if "act_on srv tu tr keep (gate_request srv tu l2 store) = (res, evs, store')" "vetted srv tu data store l2 \<and> \<not> lr_prepared l2 \<and> lr_dispatch l2 = None"
      "filter is_dispatch xs = []" "count_list xs Acquired \<le> Suc 0" for keep l2 xs res evs store'
    using act_on_events[OF refl _ _ that(1), of data store] that(2-4) by simp
  show ?thesis
  proof (cases "rq_error (lr_request ?l) = None")
    case False
    then show ?thesis using assms refused[where xs = "[]"] by (auto simp: process_body_def Let_def)
  next
    case valid: True
    show ?thesis
    proof (cases "admission_result srv None ?l")
      case (Inl e)
      then show ?thesis using assms valid by (auto simp: process_body_def Let_def dispatch_ok_def)
    next
      case (Inr ad)
      show ?thesis
      proof (cases ad)
        case (Inl err)
        then show ?thesis using assms valid Inr refused[where xs = "[]"] by (auto simp: process_body_def Let_def)
      next
        case adm: (Inr c)
        show ?thesis
        proof (cases "authenticate srv (tu_acquired tu) (?l1 c)")
          case (Inl e)
          then show ?thesis using assms valid Inr adm by (auto simp: process_body_def Let_def dispatch_ok_def)
        next
          case auth: (Inr x)
          obtain l2 err out where x: "x = (l2, err, out)" by (cases x) auto
          show ?thesis
          proof (cases err)
            case None
            note v = fresh_vetted[OF Inr[unfolded adm] valid refl auth[unfolded x None], of store]
            show ?thesis using assms valid Inr adm auth x None acted[OF _ v, where xs = "auth_events srv out"]
              by (auto simp: process_body_def Let_def after_def split: prod.splits)
          next
            case (Some e)
            then show ?thesis using assms valid Inr adm auth x refused[where xs = "auth_events srv out"]
              by (auto simp: process_body_def Let_def after_def split: prod.splits)
          qed
        qed
      qed
    qed
  qed
qed

lemma same_security: "lr_security l = sc \<Longrightarrow> l\<lparr>lr_security := sc\<rparr> = l"
  by (cases l) auto

lemma prepared_body_events:
  assumes p: "process_body srv tu (Some l) tr data store1 = (res, evs, store')"
    and v: "vetted srv tu raw store l" "\<not> lr_prepared l \<longrightarrow> lr_dispatch l = None \<and> store1 = store"
  shows "dispatch_ok srv tu raw store evs \<and> Acquired \<notin> set evs"
proof -
  let ?l = "admitted_request srv tu (Some l) data"
  obtain c where c: "sc_admission (lr_security l) = Some c" "sc_peer (lr_security l) = Some (tu_peer tu)" "rq_error (lr_request l) = None"
    using v(1) by (auto simp: vetted_def)
  then have same: "lr_security ?l = lr_security l" "set_admission_context c (lr_security l) = lr_security l"
    by (simp_all add: admitted_request_def attach_direct_peer_def set_admission_context_def)
  have "vetted srv tu raw store ?l" by (rule vetted_cong[OF v(1)]) (use same in \<open>auto simp: admitted_request_def\<close>)
  moreover have "lr_prepared ?l = lr_prepared l" "lr_dispatch ?l = lr_dispatch l" "rq_error (lr_request ?l) = None"
    using c(3) by (simp_all add: admitted_request_def)
  moreover from this have "act_on srv tu tr (fst (resolve_keep_alive (rq_version (lr_request ?l)) c (tu_request_num tu)))
      (gate_request srv tu ?l store1) = (res, evs, store')"
    using p same c(1) same_security[OF same(1)] by (simp add: process_body_def Let_def admission_result_def admission_of_def)
  ultimately show ?thesis using act_on_events[OF refl, of srv tu raw store ?l store1] v(2) by simp
qed

lemma process_events:
  assumes "process srv tu prepared tr data store1 = (keep, evs, store')"
    and "\<And>res evs store'. process_body srv tu prepared tr data store1 = (res, evs, store') \<Longrightarrow>
      dispatch_ok srv tu raw store evs \<and> count_list evs Acquired \<le> n"
  shows "dispatch_ok srv tu raw store evs \<and> count_list evs Acquired \<le> n"
  using assms by (force simp: process_def split: sum.splits prod.splits)

lemma prepared_headers:
  assumes "prepare_request_headers srv tu head store = (Inr (l, None), evs, store1)"
  shows "vetted srv tu head store l \<and> (\<not> lr_prepared l \<longrightarrow> lr_dispatch l = None \<and> store1 = store)"
proof -
  let ?l = "admitted_request srv tu None head"
  obtain c l2 out where valid: "rq_error (lr_request ?l) = None" and adm: "admission_result srv None ?l = Inr (Inr c)"
    and auth: "authenticate srv (tu_acquired tu) (?l\<lparr>lr_security := set_admission_context c (lr_security ?l)\<rparr>) = Inr (l2, None, out)"
    and rest: "(if is_encrypted_route l2
        then (map_sum id (\<lambda>err. (l2, err)) (authorize_encrypted_transfer srv l2), auth_events srv out, store)
        else if is_session_control_route l2
        then (map_sum id (\<lambda>err. (l2, err)) (authorize_session_control srv l2), auth_events srv out, store)
        else (case prepare_session_dispatch srv (tu_now tu) l2 store of
                Inl e \<Rightarrow> (Inl e, auth_events srv out, store)
              | Inr (l3, err, store') \<Rightarrow> (Inr (l3, err), auth_events srv out, store'))) = (Inr (l, None), evs, store1)"
    using assms unfolding prepare_request_headers_def Let_def by (simp split: if_splits sum.splits prod.splits option.splits)
  note v = fresh_vetted[OF adm valid refl auth, of store]
  show ?thesis
  proof (cases "is_encrypted_route l2 \<or> is_session_control_route l2")
    case True
    then have "l = l2 \<and> store1 = store"
      using rest by (cases "is_encrypted_route l2"; cases "authorize_encrypted_transfer srv l2"; cases "authorize_session_control srv l2") auto
    then show ?thesis using v by simp
  next
    case False
    then have "prepare_session_dispatch srv (tu_now tu) l2 store = Inr (l, None, store1)"
      using rest by (auto split: sum.splits prod.splits)
    then show ?thesis using prepared_vetted v False by blast
  qed
qed

lemma prepare_events:
  assumes "prepare_request_headers srv tu head store = (x, evs, store1)"
  shows "filter is_dispatch evs = [] \<and> count_list evs Acquired \<le> Suc 0"
proof -
  have "evs = [] \<or> (\<exists>out. evs = auth_events srv out)"
    using assms unfolding prepare_request_headers_def Let_def by (simp split: if_splits sum.splits prod.splits option.splits) blast+
  then show ?thesis by auto
qed

lemma admit_headers_events:
  assumes "admit_headers srv tu head store = (x, evs, store1)"
  shows "filter is_dispatch evs = [] \<and> count_list evs Acquired \<le> Suc 0"
  using assms prepare_events[of srv tu head store]
  by (fastforce simp: admit_headers_def Let_def split: sum.splits prod.splits option.splits if_splits)

lemma admit_headers_vetted:
  assumes "admit_headers srv tu head store = (Some (l, tr), evs, store1)"
  shows "vetted srv tu head store l \<and> (\<not> lr_prepared l \<longrightarrow> lr_dispatch l = None \<and> store1 = store)"
  using assms prepared_headers
  by (fastforce simp: admit_headers_def Let_def split: sum.splits prod.splits option.splits if_splits)

lemma handle_turn_events:
  assumes "handle_turn srv tu head data store = (keep, evs, store')"
  shows "dispatch_ok srv tu (case head of None \<Rightarrow> data | Some h \<Rightarrow> h) store evs \<and> count_list evs Acquired \<le> 1"
proof (cases head)
  case None
  then show ?thesis using assms process_events[of srv tu None False data store] fresh_body_events
    by (fastforce simp: handle_turn_def dispatch_ok_none split: if_splits)
next
  case (Some h)
  obtain x evs0 store1 where a: "admit_headers srv tu h store = (x, evs0, store1)" by (cases "admit_headers srv tu h store") auto
  note q = admit_headers_events[OF a]
  show ?thesis
  proof (cases x)
    case None
    then show ?thesis using assms Some a q by (auto simp: handle_turn_def dispatch_ok_none)
  next
    case admitted: (Some y)
    obtain l tr where y: "y = (l, tr)" by fastforce
    note v = admit_headers_vetted[OF a[unfolded admitted y]]
    have "dispatch_ok srv tu h store evs1 \<and> count_list evs1 Acquired \<le> 0" if "process srv tu (Some l) tr data store1 = (k, evs1, s)" for k evs1 s
      using process_events[OF that, of h store 0] prepared_body_events v by fastforce
    then show ?thesis using assms Some a q admitted y
      by (fastforce simp: handle_turn_def Let_def dispatch_ok_none split: if_splits prod.splits)
  qed
qed

lemma method_char_not_space: "method_char c \<Longrightarrow> \<not> is_space c"
  by (auto simp: method_char_def is_alnum_def is_digit_def ascii_upper_def is_space_def)

lemma method_no_space: "list_all method_char m \<Longrightarrow> py_strip m = m"
proof -
  assume "list_all method_char m"
  then have "\<not> is_space c" if "c \<in> set m" for c
    using that method_char_not_space by (simp add: list_all_iff)
  then have "dropWhile is_space m = m" "dropWhile is_space (rev m) = rev m"
    by (auto simp: dropWhile_eq_self_iff hd_rev)
  then show "py_strip m = m" by (simp add: py_strip_def strip_by_def)
qed

lemma entitled_method: "entitled srv tu raw store l t \<Longrightarrow> py_strip (rq_method (lr_request l)) = rq_method (lr_request l)"
  using request_typed_intro[of "sv_decode srv" "he_netloc_ok (sv_hosts srv)" raw]
  by (auto simp: entitled_def received_def new_request_def request_typed_def Let_def intro!: method_no_space)

subsection \<open>A demonstration turn\<close>

text \<open>A request from another site reaches the demonstration server.\<close>

definition demo_turn_with :: "body_source \<Rightarrow> turn" where
  "demo_turn_with src = \<lparr>tu_peer = ''127.0.0.1'', tu_request_num = 1, tu_now = 0, tu_generated_id = ''0'', tu_acquired = Leased, tu_transfer = True,
     tu_slot = True, tu_sends = True, tu_upgrade = None, tu_in_uploads = (\<lambda>_. False),
     tu_handler = (\<lambda>t l store. (Inr (Handler_Reply 200 src), store)), tu_load = (\<lambda>_. Json_Malformed), tu_rnd = (\<lambda>_. [])\<rparr>"

abbreviation demo_turn :: turn where "demo_turn \<equiv> demo_turn_with Buffered"

definition demo_text :: "string \<Rightarrow> string" where
  "demo_text m = m @ '' / HTTP/1.1'' @ crlf_text @ ''Host: localhost:8080'' @ crlf_text @ ''Origin: http://evil'' @ crlf_text @
     ''Sec-Fetch-Site: cross-site'' @ crlf_text @ crlf_text"

definition demo_http :: "string \<Rightarrow> http_request" where
  "demo_http m = \<lparr>rq_method = m, rq_raw_target = ''/'', rq_raw_path = ''/'', rq_query_string = [], rq_version = ''HTTP/1.1'',
    rq_headers = [(''host'', ''localhost:8080''), (''origin'', ''http://evil''), (''sec-fetch-site'', ''cross-site'')],
    rq_occurrences = [(''Host'', ''localhost:8080''), (''Origin'', ''http://evil''), (''Sec-Fetch-Site'', ''cross-site'')],
    rq_values = [(''host'', [''localhost:8080'']), (''origin'', [''http://evil'']), (''sec-fetch-site'', [''cross-site''])],
    rq_raw_values = [(''host'', ['' localhost:8080'']), (''origin'', ['' http://evil'']), (''sec-fetch-site'', ['' cross-site''])],
    rq_body = [], rq_error = None\<rparr>"

definition demo_context :: admission_context where
  "demo_context = demo_admitted\<lparr>ac_origin := Some ''http://evil'', ac_sec_fetch_site := Some ''cross-site''\<rparr>"

definition demo_live :: "string \<Rightarrow> live_request" where
  "demo_live m = \<lparr>lr_request = demo_http m, lr_path = ''/'',
     lr_security = \<lparr>sc_peer = Some ''127.0.0.1'', sc_principal = None, sc_mode = Mode_Disabled, sc_admission = Some demo_context\<rparr>,
     lr_dispatch = None, lr_prepared = True\<rparr>"

lemma demo_text_split:
  assumes "m \<in> {''GET'', ''PURGE'', ''purge''}"
  shows "split_message (ascii_bytes (demo_text m)) = (ascii_bytes (take (length (demo_text m) - 4) (demo_text m)), [])"
  using assms by (auto simp: split_message_def demo_text_def ascii_bytes_def crlf_text_def HEADER_TERMINATOR_def)

lemma demo_decoded_bytes: "demo_decode (ascii_bytes s) = Some s"
  by (simp add: demo_decode_def ascii_bytes_def unat_of_nat_byte comp_def)

lemma demo_http_lines:
  assumes "m \<in> {''GET'', ''PURGE'', ''purge''}"
  shows "split_crlf (take (length (demo_text m) - 4) (demo_text m)) =
    [m @ '' / HTTP/1.1'', ''Host: localhost:8080'', ''Origin: http://evil'', ''Sec-Fetch-Site: cross-site'']"
  using assms by (auto simp: demo_text_def crlf_text_def)

lemma demo_request_line:
  assumes "m \<in> {''GET'', ''PURGE'', ''purge''}"
  shows "parse_request_line (\<lambda>_. False) (m @ '' / HTTP/1.1'') empty_request =
    Some (empty_request\<lparr>rq_method := m, rq_raw_target := ''/'', rq_raw_path := ''/'', rq_version := ''HTTP/1.1''\<rparr>)"
  using assms
  by (auto simp: parse_request_line_def empty_request_def method_char_def target_char_def version_ok_def cut_at_def is_alnum_def is_digit_def
    ascii_upper_def parse_target_def split_scheme_def split_netloc_def strip_params_def params_schemes_def Let_def)

lemma demo_header_lines:
  "fold header_line [''Host: localhost:8080'', ''Origin: http://evil'', ''Sec-Fetch-Site: cross-site''] header_init =
     \<lparr>hs_headers = [(''host'', ''localhost:8080''), (''origin'', ''http://evil''), (''sec-fetch-site'', ''cross-site'')],
      hs_occ = [(''Host'', ''localhost:8080''), (''Origin'', ''http://evil''), (''Sec-Fetch-Site'', ''cross-site'')],
      hs_values = [(''host'', [''localhost:8080'']), (''origin'', [''http://evil'']), (''sec-fetch-site'', [''cross-site''])],
      hs_raw = [(''host'', ['' localhost:8080'']), (''origin'', ['' http://evil'']), (''sec-fetch-site'', ['' cross-site''])],
      hs_current = Some ''sec-fetch-site''\<rparr>"
  by (simp add: header_line_def header_init_def add_line_def cut_at_def py_lower_def lower_char_def ascii_upper_def py_strip_def strip_by_def
    is_space_def values_of_def char_of_def bit_Suc_0_iff Let_def)

lemma demo_http_parsed:
  assumes "m \<in> {''GET'', ''PURGE'', ''purge''}"
  shows "parse_request demo_decode (\<lambda>_. False) (ascii_bytes (demo_text m)) = demo_http m"
proof -
  have e: "empty_request\<lparr>rq_body := []\<rparr> = empty_request" by (simp add: empty_request_def)
  show ?thesis
    unfolding parse_request_def demo_text_split[OF assms] Let_def prod.case demo_decoded_bytes option.case demo_http_lines[OF assms] e
      list.sel demo_request_line[OF assms] demo_header_lines
    by (simp add: demo_http_def empty_request_def)
qed

lemma demo_turn_parts: "tu_peer (demo_turn_with src) = ''127.0.0.1''" "tu_now (demo_turn_with src) = 0" "tu_sends (demo_turn_with src)" "tu_slot (demo_turn_with src)"
  "tu_handler (demo_turn_with src) = (\<lambda>t l store. (Inr (Handler_Reply 200 src), store))" "tu_in_uploads (demo_turn_with src) = (\<lambda>_. False)"
  "tu_request_num (demo_turn_with src) = 1"
  by (simp_all add: demo_turn_with_def)

lemma demo_upper: "py_upper ''PURGE'' = ''PURGE''" "py_upper ''purge'' = ''PURGE''" "py_upper ''GET'' = ''GET''"
  by (simp_all add: py_upper_def upper_char_def char_of_def bit_Suc_0_iff)

lemma demo_specs: "core_method_spec ''PURGE'' = None" "core_method_spec ''purge'' = None" "core_method_spec ''GET'' = Some (hd core_methods)"
  by (simp_all add: core_method_spec_def core_methods_def demo_upper py_strip_def strip_by_def is_space_def)

lemma demo_handlers: "get_handler (fst demo_tables) ''PURGE'' = Some (Plugin_Handler ''cache'' ''purge'')"
  "get_handler (fst demo_tables) ''purge'' = Some (Plugin_Handler ''cache'' ''purge'')"
  "get_handler (fst demo_tables) ''GET'' = Some (Core_Handler ''handle_get'')"
proof -
  have "tables_ok demo_tables" using tables_ok_init[OF demo_tables_built] .
  then have "\<exists>h. dict_get (fst demo_tables) ''GET'' = Some h" by (simp add: tables_ok_def core_methods_def)
  moreover have "dict_get (snd demo_tables) ''GET'' = None" by (simp add: demo_tables_def)
  ultimately obtain s where "s \<in> set core_methods" "cm_method s = ''GET''" "dict_get (fst demo_tables) ''GET'' = Some (Core_Handler (cm_handler s))"
    using \<open>tables_ok demo_tables\<close> unfolding tables_ok_def by blast
  moreover from this have "s = hd core_methods" by (intro core_method_unique) (simp_all add: core_methods_def)
  ultimately show "get_handler (fst demo_tables) ''GET'' = Some (Core_Handler ''handle_get'')"
    by (simp add: get_handler_def demo_upper core_methods_def)
qed (simp_all add: get_handler_def demo_upper demo_tables_def register_def)

lemma demo_admits: "admit demo_host_env demo_policy (demo_http m) = Inr demo_context"
  by (simp add: admit_def demo_http_def padded_field_def protected_fields_def repeated_or_folded_def get_header_values_def get_raw_header_values_def
    values_of_def py_lower_def lower_char_def py_strip_def strip_by_def is_space_def ascii_upper_def char_of_def demo_authority host_is_allowed_def
    demo_policy_def context_for_def single_value_def demo_context_def demo_admitted_def)

lemma demo_new_request:
  assumes "m \<in> {''GET'', ''PURGE'', ''purge''}"
  shows "admitted_request demo_server (demo_turn_with src) None (ascii_bytes (demo_text m)) =
    (demo_live m)\<lparr>lr_security := \<lparr>sc_peer = Some ''127.0.0.1'', sc_principal = None, sc_mode = Mode_Unchecked, sc_admission = None\<rparr>, lr_prepared := False\<rparr>"
  using demo_http_parsed[OF assms]
  by (simp add: admitted_request_def new_request_def attach_direct_peer_def demo_server_def demo_host_env_def demo_turn_with_def demo_live_def demo_http_def Let_def)

lemma demo_routes: "\<not> is_encrypted_route (demo_live m)" "\<not> is_session_control_route (demo_live m)" "\<not> has_session_header (demo_live m)"
  by (simp_all add: is_encrypted_route_def is_session_control_route_def has_session_header_def demo_live_def demo_http_def
    SESSION_COLLECTION_PATH_def SESSION_CURRENT_PATH_def SESSION_HEADER_def get_header_values_def get_raw_header_values_def values_of_def
    py_lower_def lower_char_def ascii_upper_def char_of_def)

lemma demo_unprepared: "is_encrypted_route (demo_live m\<lparr>lr_prepared := False\<rparr>) = is_encrypted_route (demo_live m)"
  "is_session_control_route (demo_live m\<lparr>lr_prepared := False\<rparr>) = is_session_control_route (demo_live m)"
  "has_session_header (demo_live m\<lparr>lr_prepared := False\<rparr>) = has_session_header (demo_live m)"
  by (simp_all add: is_encrypted_route_def is_session_control_route_def has_session_header_def)

lemma demo_session: "prepare_session_dispatch demo_server 0 (demo_live m\<lparr>lr_prepared := False\<rparr>) store = Inr (demo_live m, None, store)"
  unfolding prepare_session_dispatch_def demo_unprepared using demo_routes[of m] by (simp add: demo_live_def)

lemma demo_prepared:
  assumes "m \<in> {''GET'', ''PURGE'', ''purge''}"
  shows "prepare_request_headers demo_server (demo_turn_with src) (ascii_bytes (demo_text m)) store = (Inr (demo_live m, None), [], store)"
proof -
  have a: "admission_result demo_server None (admitted_request demo_server (demo_turn_with src) None (ascii_bytes (demo_text m))) = Inr (Inr demo_context)"
    using demo_admits[of m] by (simp add: demo_new_request[OF assms] admission_result_def demo_server_parts demo_live_def)
  have b: "authenticate demo_server (tu_acquired (demo_turn_with src)) ((admitted_request demo_server (demo_turn_with src) None (ascii_bytes (demo_text m)))\<lparr>lr_security :=
      set_admission_context demo_context (lr_security (admitted_request demo_server (demo_turn_with src) None (ascii_bytes (demo_text m))))\<rparr>) =
    Inr (demo_live m\<lparr>lr_prepared := False\<rparr>, None, None)"
    by (simp add: demo_new_request[OF assms] authenticate_def demo_server_parts demo_live_def set_admission_context_def set_authentication_disabled_def)
  have c: "rq_error (lr_request (admitted_request demo_server (demo_turn_with src) None (ascii_bytes (demo_text m)))) = None" "tu_now (demo_turn_with src) = 0"
    "auth_events demo_server None = []"
    by (simp_all add: demo_new_request[OF assms] demo_live_def demo_http_def demo_turn_parts auth_events_def demo_server_parts)
  show ?thesis
    unfolding prepare_request_headers_def Let_def a b c sum.case prod.case option.case demo_unprepared demo_session
    using demo_routes[of m] by simp
qed

lemma demo_not_bulk:
  assumes "m \<in> {''GET'', ''PURGE'', ''purge''}"
  shows "\<not> is_bulk_request (tu_in_uploads (demo_turn_with src)) (demo_live m)" "lr_dispatch (demo_live m) = None" "rq_method (lr_request (demo_live m)) = m"
proof -
  show m: "lr_dispatch (demo_live m) = None" "rq_method (lr_request (demo_live m)) = m" by (simp_all add: demo_live_def demo_http_def)
  show "\<not> is_bulk_request (tu_in_uploads (demo_turn_with src)) (demo_live m)"
    unfolding is_bulk_request_def m using assms demo_routes
    by (auto simp: demo_specs demo_turn_parts core_methods_def)
qed

lemma demo_guard:
  "is_protected_mutation demo_server (demo_live ''PURGE'')" "\<not> is_protected_mutation demo_server (demo_live ''purge'')"
  "\<not> is_protected_mutation demo_server (demo_live ''GET'')"
  by (simp_all add: is_protected_mutation_def demo_not_bulk demo_server_parts demo_plugin_def demo_specs core_methods_def Let_def)

lemma demo_cross_site: "cross_site demo_server demo_context"
  by (simp add: cross_site_def demo_context_def demo_server_parts is_explicit_cors_origin_def fetch_site_of_def same_site_values_def
    py_lower_def lower_char_def ascii_upper_def py_strip_def strip_by_def is_space_def)

lemma demo_admitted_headers:
  assumes "m \<in> {''GET'', ''PURGE'', ''purge''}"
  shows "admit_headers demo_server (demo_turn_with src) (ascii_bytes (demo_text m)) store = (Some (demo_live m, False), [], store)"
  unfolding admit_headers_def demo_prepared[OF assms] using demo_not_bulk[OF assms] by simp

lemma demo_kept:
  assumes "m \<in> {''GET'', ''PURGE'', ''purge''}"
  shows "admitted_request demo_server (demo_turn_with src) (Some (demo_live m)) (ascii_bytes (demo_text m)) = demo_live m"
  using demo_text_split[OF assms] by (simp add: admitted_request_def attach_direct_peer_def demo_turn_parts demo_live_def demo_http_def)

lemma demo_keep_alive: "fst (resolve_keep_alive ''HTTP/1.1'' demo_context 1)"
  by (simp add: resolve_keep_alive_def should_keep_alive_def demo_context_def demo_admitted_def KEEP_ALIVE_MAX_def Let_def)

lemma demo_gate:
  assumes "m \<in> {''GET'', ''PURGE'', ''purge''}"
  shows "gate_request demo_server (demo_turn_with src) (demo_live m) store =
    (Inr (if m = ''PURGE'' then Refuse (error_reply 403 (Some ''forbidden'') None False) None else Serve (demo_live m)), store)"
proof -
  have no_note: "\<not> is_note_transport (lr_request (demo_live m))"
    using assms by (auto simp: is_note_transport_def is_note_socket_target_def demo_live_def demo_http_def)
  have ws: "is_websocket_upgrade_attempt (demo_live m) = Inr False"
    by (simp add: is_websocket_upgrade_attempt_def is_note_socket_target_def demo_live_def demo_http_def)
  have adm: "admission_of (demo_live m) = Inr demo_context" "lr_prepared (demo_live m)" by (simp_all add: admission_of_def demo_live_def)
  have size: "check_payload_size demo_server (demo_live m) = None"
    by (simp add: check_payload_size_def demo_server_parts demo_live_def demo_http_def)
  have allowed: "is_browser_mutation_allowed demo_server (demo_live m) = Inr (m \<noteq> ''PURGE'')"
    using assms demo_guard cross_site_mutation demo_cross_site by (auto simp: is_browser_mutation_allowed_def adm)
  show ?thesis
    using no_note allowed size demo_routes[of m]
    by (auto simp: gate_request_def adm guard_upgrade_def ws guard_mutation_def Let_def)
qed

lemma demo_turn_runs:
  assumes "m \<in> {''GET'', ''PURGE'', ''purge''}"
  shows "handle_turn demo_server (demo_turn_with src) (Some (ascii_bytes (demo_text m))) (ascii_bytes (demo_text m)) store =
    (if m = ''PURGE'' then (False, [Sent (Error_Reply (error_reply 403 (Some ''forbidden'') None False)) None, Metric 403], store)
     else (src \<noteq> From_File, [Slot_Taken, Dispatched (To_Method m (the (get_handler (fst demo_tables) m))) (demo_live m), Slot_Freed,
       Sent (Handler_Reply 200 src) None, Metric 200], store))"
proof -
  have parts: "rq_error (lr_request (demo_live m)) = None" "admission_result demo_server (Some (demo_live m)) (demo_live m) = Inr (Inr demo_context)"
    "set_admission_context demo_context (lr_security (demo_live m)) = lr_security (demo_live m)" "rq_version (lr_request (demo_live m)) = ''HTTP/1.1''"
    by (simp_all add: demo_live_def demo_http_def admission_result_def admission_of_def set_admission_context_def)
  have same: "(demo_live m)\<lparr>lr_security := lr_security (demo_live m)\<rparr> = demo_live m" by (rule same_security) simp
  have data: "ascii_bytes (demo_text m) \<noteq> []" using assms by (auto simp: demo_text_def ascii_bytes_def)
  have found: "\<exists>h. get_handler (fst demo_tables) m = Some h" using assms demo_handlers by auto
  have disp: "dispatch_handler demo_server (demo_turn_with src) (demo_live m) store =
      (Inr (Handler_Reply 200 src), [Dispatched (To_Method m (the (get_handler (fst demo_tables) m))) (demo_live m)], store)"
    using found demo_routes[of m] demo_not_bulk(2,3)[OF assms]
    by (auto simp: dispatch_handler_def parts dispatch_prepared_def run_handler_def demo_server_parts demo_turn_parts)
  have body: "process_body demo_server (demo_turn_with src) (Some (demo_live m)) False (ascii_bytes (demo_text m)) store =
      act_on demo_server (demo_turn_with src) False (fst (resolve_keep_alive ''HTTP/1.1'' demo_context (tu_request_num (demo_turn_with src))))
        (gate_request demo_server (demo_turn_with src) (demo_live m) store)"
    by (simp add: process_body_def demo_kept[OF assms] parts same)
  show ?thesis
    unfolding handle_turn_def option.case demo_admitted_headers[OF assms] prod.case process_def body demo_gate[OF assms]
    using data demo_keep_alive disp
    by (auto simp: act_on_def refuse_def send_direct_def demo_turn_parts status_of_def error_reply_def serve_request_def compute_response_def
      is_streaming_def)
qed

subsection \<open>Properties\<close>

text \<open>
  C17. A handler runs for a request only behind every gate, and once. In one turn of a connection, whether the headers are
  admitted before the body or the request is processed in one go, at most one target is dispatched; its request is the one
  received, parses, passes admission, and is authenticated by at most one pass through the admission controller, with the
  verified principal. The encrypted routes and the control routes then get nothing cross-origin; the control routes and
  session uploads without passwords serve loopback peers only; an upload runs in a session that is live for this principal
  and owns the path; a registered method runs without a session header, and not cross-site when it is known to change state.
\<close>

theorem dispatched_request_entitled:
  assumes turn: "handle_turn srv tu head data store = (keep, evs, store')" and d: "Dispatched t l \<in> set evs"
  shows "filter is_dispatch evs = [Dispatched t l] \<and> count_list evs Acquired \<le> 1 \<and>
    entitled srv tu (case head of None \<Rightarrow> data | Some h \<Rightarrow> h) store l t"
  using handle_turn_events[OF turn] dispatch_ok_dispatched[OF _ d] by blast

theorem dispatched_request_entitled_witness:
  "entitled demo_server demo_turn (ascii_bytes (demo_text ''GET'')) [] (demo_live ''GET'') (To_Method ''GET'' (Core_Handler ''handle_get''))"
  using dispatched_request_entitled[OF demo_turn_runs[of "''GET''" Buffered "[]", simplified], of "To_Method ''GET'' (Core_Handler ''handle_get'')"
    "demo_live ''GET''"] demo_handlers by simp

text \<open>
  C21. Requests that a browser sends from another site never reach a handler that changes state. With the method tables of
  any accepted set of plugins, a cross-site request is dispatched to no session upload and no control route, to an encrypted
  route only when encrypted uploads are off, and otherwise only to a reading method of the core table or a plugin method
  declared as reading. The one exception is a plugin method spelled in another case than it is registered with.
\<close>

theorem cross_site_mutation_refused:
  assumes tables: "method_tables_init public allow override plugins = Inr (sv_registry srv, sv_plugins srv)"
    and turn: "handle_turn srv tu head data store = (keep, evs, store')" and d: "Dispatched t l \<in> set evs"
    and c: "sc_admission (lr_security l) = Some c" "cross_site srv c"
  shows "case t of
      To_Encrypted \<Rightarrow> \<not> sv_encrypted_uploads srv
    | To_Control \<Rightarrow> False
    | To_Upload s \<Rightarrow> False
    | To_Method m h \<Rightarrow> harmless srv m h \<or> plugin_in_other_case srv m"
proof -
  have e: "entitled srv tu (case head of None \<Rightarrow> data | Some h \<Rightarrow> h) store l t"
    using handle_turn_events[OF turn] dispatch_ok_dispatched[OF _ d] by blast
  show ?thesis
  proof (cases t)
    case (To_Method m h)
    then have m: "rq_method (lr_request l) = m" "get_handler (sv_registry srv) m = Some h" "\<not> is_protected_mutation srv l"
      using e c by (auto simp: entitled_def target_of_def)
    then show ?thesis using unprotected_harmless[OF tables_ok_init[OF tables]] entitled_method[OF e] To_Method by auto
  qed (use e c cross_site_strict in \<open>auto simp: entitled_def\<close>)
qed

theorem cross_site_mutation_refused_witness:
  "harmless demo_server ''GET'' (Core_Handler ''handle_get'') \<or> plugin_in_other_case demo_server ''GET''"
proof -
  have t: "method_tables_init False False False [\<lparr>pl_name = ''cache'', pl_methods = [demo_plugin]\<rparr>] = Inr (sv_registry demo_server, sv_plugins demo_server)"
    using demo_tables_built by (simp add: demo_server_def)
  have c: "sc_admission (lr_security (demo_live ''GET'')) = Some demo_context" by (simp add: demo_live_def)
  show ?thesis
    using cross_site_mutation_refused[OF t demo_turn_runs[of "''GET''" Buffered "[]", simplified] _ c demo_cross_site,
      of "To_Method ''GET'' (Core_Handler ''handle_get'')"] demo_handlers by simp
qed

text \<open>A request with another method.\<close>

definition with_method :: "string \<Rightarrow> live_request \<Rightarrow> live_request" where
  "with_method m l = l\<lparr>lr_request := (lr_request l)\<lparr>rq_method := m\<rparr>\<rparr>"

lemma with_method_parts [simp]:
  "rq_method (lr_request (with_method m l)) = m" "rq_error (lr_request (with_method m l)) = rq_error (lr_request l)"
  "lr_dispatch (with_method m l) = lr_dispatch l" "lr_prepared (with_method m l) = lr_prepared l"
  "lr_security (with_method m l) = lr_security l" "admission_of (with_method m l) = admission_of l"
  "is_encrypted_route (with_method m l) = is_encrypted_route l" "is_session_control_route (with_method m l) = is_session_control_route l"
  "check_payload_size srv (with_method m l) = check_payload_size srv l"
  by (simp_all add: with_method_def admission_of_def is_encrypted_route_def is_session_control_route_def check_payload_size_def)

lemma gate_plain_method:
  assumes "lr_prepared l" "\<not> is_encrypted_route l" "\<not> is_session_control_route l" "m \<noteq> ''NOTE''" "m \<noteq> ''GET''"
  shows "gate_request srv tu (with_method m l) store = (guard_mutation srv (with_method m l) None, store)"
proof -
  have socket: "\<not> is_note_socket_target (lr_request (with_method m l))" using assms(5) by (simp add: is_note_socket_target_def)
  then have "\<not> is_note_transport (lr_request (with_method m l))" "is_websocket_upgrade_attempt (with_method m l) = Inr False"
    using assms(4) by (simp_all add: is_note_transport_def is_websocket_upgrade_attempt_def)
  then show ?thesis using assms(1-3) by (simp add: gate_request_def guard_upgrade_def)
qed

text \<open>
  C25. That exception is real for every mutating method of a plugin: the handlers are looked up case-insensitively, the
  plugin policies exactly as the method is written. On any server with the method tables of an accepted set of plugins, take a plugin
  method \<open>M\<close> outside the core table that its plugin declares as changing state, and a cross-site request, admitted and prepared, of
  acceptable size and to no reserved route. As \<open>M\<close> it is refused with 403. In any other spelling \<open>m\<close> of \<open>M\<close> it passes the
  gates and is dispatched to that plugin's handler.
\<close>

theorem plugin_case_bypasses_guard:
  assumes tables: "method_tables_init public allow override plugins = Inr (sv_registry srv, sv_plugins srv)"
    and plugin: "dict_get (sv_plugins srv) M = Some p" "pm_mutating p" "M \<notin> cm_method ` set core_methods"
    and spelling: "py_upper m = M" "m \<noteq> M" "py_strip m = m"
    and l: "rq_error (lr_request l) = None" "lr_prepared l" "lr_dispatch l = None" "\<not> is_encrypted_route l" "\<not> is_session_control_route l"
      "check_payload_size srv l = None"
    and c: "sc_admission (lr_security l) = Some c" "cross_site srv c"
  shows "gate_request srv tu (with_method M l) store = (Inr (Refuse (error_reply 403 (Some ''forbidden'') None False) None), store) \<and>
    gate_request srv tu (with_method m l) store = (Inr (Serve (with_method m l)), store) \<and>
    (\<exists>plugin. dispatch_handler srv tu (with_method m l) store =
       run_handler tu (To_Method m (Plugin_Handler plugin (pm_handler p))) (with_method m l) store)"
proof -
  have t: "tables_ok (sv_registry srv, sv_plugins srv)" by (rule tables_ok_init[OF tables])
  have up: "py_upper M = M" using t plugin(1) by (simp add: tables_ok_def)
  obtain name where "dict_get (sv_registry srv) M = Some (Plugin_Handler name (pm_handler p))"
    using t plugin(1) unfolding tables_ok_def fst_conv snd_conv by blast
  then have h: "get_handler (sv_registry srv) m = Some (Plugin_Handler name (pm_handler p))" by (simp add: get_handler_def spelling(1))
  have core: "x \<noteq> m \<and> x \<noteq> M" if "x \<in> {''NOTE'', ''GET''}" for x
  proof -
    have "x \<in> cm_method ` set core_methods" "py_upper x = x"
      using that by (auto simp: core_methods_def py_upper_def upper_char_def)
    then show ?thesis using plugin(3) spelling(1) by metis
  qed
  have "dict_get (sv_plugins srv) m = None"
  proof (rule ccontr)
    assume "dict_get (sv_plugins srv) m \<noteq> None"
    then have "py_upper m = m" using t by (auto simp: tables_ok_def)
    then show False using spelling(1,2) by simp
  qed
  moreover have "core_method_spec m = None"
    using plugin(3) spelling(1,3) by (force simp: core_method_spec_def find_None_iff image_iff)
  ultimately have unguarded: "\<not> is_protected_mutation srv (with_method m l)" by (simp add: is_protected_mutation_def l(3))
  have shut: "is_protected_mutation srv (with_method M l)" using plugin(1,2) by (simp add: is_protected_mutation_def l(3))
  have adm: "admission_of l = Inr c" using c(1) by (simp add: admission_of_def)
  have "guard_mutation srv (with_method M l) None = Inr (Refuse (error_reply 403 (Some ''forbidden'') None False) None)"
    using shut adm c(2) l(4) cross_site_mutation by (simp add: guard_mutation_def is_browser_mutation_allowed_def)
  moreover have "guard_mutation srv (with_method m l) None = Inr (Serve (with_method m l))"
    using unguarded l(4,6) by (simp add: guard_mutation_def is_browser_mutation_allowed_def)
  moreover have "dispatch_handler srv tu (with_method m l) store =
      run_handler tu (To_Method m (Plugin_Handler name (pm_handler p))) (with_method m l) store"
    using l h by (simp add: dispatch_handler_def dispatch_prepared_def)
  moreover have "gate_request srv tu (with_method x l) store = (guard_mutation srv (with_method x l) None, store)" if "x \<in> {m, M}" for x
    by (rule gate_plain_method[OF l(2,4,5)]) (use that core[of "''NOTE''"] core[of "''GET''"] in auto)
  ultimately show ?thesis by (metis insertI1 insertI2)
qed

theorem plugin_case_bypasses_guard_witness:
  "gate_request demo_server demo_turn (with_method ''PURGE'' (demo_live ''GET'')) [] =
     (Inr (Refuse (error_reply 403 (Some ''forbidden'') None False) None), []) \<and>
   gate_request demo_server demo_turn (with_method ''purge'' (demo_live ''GET'')) [] = (Inr (Serve (with_method ''purge'' (demo_live ''GET''))), [])"
proof -
  have t: "method_tables_init False False False [\<lparr>pl_name = ''cache'', pl_methods = [demo_plugin]\<rparr>] = Inr (sv_registry demo_server, sv_plugins demo_server)"
    using demo_tables_built by (simp add: demo_server_def)
  have p: "dict_get (sv_plugins demo_server) ''PURGE'' = Some demo_plugin" "pm_mutating demo_plugin" "''PURGE'' \<notin> cm_method ` set core_methods"
    by (auto simp: demo_server_parts demo_plugin_def core_methods_def)
  have m: "py_upper ''purge'' = ''PURGE''" "''purge'' \<noteq> ''PURGE''" "py_strip ''purge'' = ''purge''"
    by (simp_all add: demo_upper py_strip_def strip_by_def is_space_def)
  have l: "rq_error (lr_request (demo_live ''GET'')) = None" "lr_prepared (demo_live ''GET'')" "lr_dispatch (demo_live ''GET'') = None"
    "check_payload_size demo_server (demo_live ''GET'') = None" "sc_admission (lr_security (demo_live ''GET'')) = Some demo_context"
    by (simp_all add: demo_live_def demo_http_def check_payload_size_def demo_server_parts)
  show ?thesis
    using plugin_case_bypasses_guard[OF t p m l(1-3) demo_routes(1,2) l(4,5) demo_cross_site, of demo_turn "[]"] by blast
qed

text \<open>
  A response from an iterator is announced with the end of the connection (\<open>streamed_response_bounded\<close>), but the connection goes on
  to the next request: the turn asks whether the response streams only after sending it, and only a file response still does then.
\<close>

theorem iterator_response_keeps_connection:
  "fst (handle_turn demo_server (demo_turn_with src) (Some (ascii_bytes (demo_text ''GET''))) (ascii_bytes (demo_text ''GET'')) []) =
     (src \<noteq> From_File)"
  using demo_turn_runs[of "''GET''" src "[]"] by simp

end
