(* ===== verification/Spec2Isabelle.thy ===== *)
theory Spec2Isabelle
  imports Capacity Auth_Admission Advanced_Sessions Ws_Runtime Http_Io Upload_Storage Encrypted_Sidecar Ecdh_Sessions Artifact_Store Note_Store Encrypted_Files Http_Response Multipart File_Safety Advanced_Upload Smuggle_Handler Request_Admission Request_Pipeline
begin

text \<open>
  \<^bold>\<open>A verification library for xferry\<close>

  xferry is an HTTP file-transfer server written in Python. A connection is accepted, its request is read under limits
  and deadlines, parsed, admitted, authenticated, checked against the policy of its route, dispatched to a handler, and
  answered; a handler works on one of a few stores (uploaded files, encrypted transfers, notes, one-shot
  artifacts, bearer sessions), each behind one lock. This library models that path and those stores,
  translated from \<^verbatim>\<open>src/xferry\<close>, and proves what makes each part correct. The theorems labelled C1 to C40 are the
  properties of the development; other theorems are stated where they explain a component.

  \<^bold>\<open>Conventions\<close>

  A definition carries the name of the function it models where Isabelle allows it. A class becomes a \<open>record\<close>, its methods
  functions from the state to the result and the new state; an exception is a branch of a sum or option type, and
  what the code does not catch is visible as such (\<open>Raised\<close>, \<open>Inl ValueError\<close>). A byte is an \<open>8 word\<close>; a \<open>str\<close> is a list of
  characters, the code points below 256; a \<open>dict\<close> is an association list in insertion order; integers are
  unbounded, as in Python. A lock-protected section is one step, so concurrency is a list of steps: a theorem about
  every history quantifies over all interleavings of these sections. What comes from outside is an argument: clock
  readings, random draws, the bytes and failures of sockets, failures of disk operations. Code of third parties
  and of the interpreter's C modules is a parameter: AES-GCM, PBKDF2, HKDF, HMAC, P-256, SHA-1 and SHA-256, the JSON decoder,
  \<open>bytes.decode\<close>, \<open>float.__repr__\<close>, \<open>urllib.parse.unquote\<close>, IDNA and NFC, the bracket check of \<open>urlsplit\<close>, the header parser of \<open>email\<close>,
  \<open>mimetypes\<close>. Theorems that need such a parameter to behave name what they need as a hypothesis (decryption inverts
  encryption, the decoder reads the text that the encoder wrote), and each has a witness with a concrete instance.

  \<^bold>\<open>The parts\<close>

  \<^item> \<^verbatim>\<open>Py_Prelude\<close>, \<^verbatim>\<open>Py_Text\<close>, \<^verbatim>\<open>Py_Json\<close>, \<^verbatim>\<open>Py_Ip\<close>: dictionaries, byte strings, the methods of \<open>str\<close>, base64, UTF-8, the text of \<open>json.dumps\<close>, and
    \<open>ipaddress\<close>, with the generic lemmas (\<open>dict_facts\<close>, \<open>text_facts\<close>).
  \<^item> \<^verbatim>\<open>Capacity\<close> (\<^verbatim>\<open>lifecycle.py\<close>, \<^verbatim>\<open>http/io.py\<close>): admission gates and the body-memory budget. Both are an interpretation of the locale \<open>resource_pool\<close>,
    whose laws give the exact accounting of one-shot handles (C1).
  \<^item> \<^verbatim>\<open>Auth_Admission\<close> (\<^verbatim>\<open>security/auth.py\<close>): the bounded, queued, locking-out admission of password checks (C4 to C6).
  \<^item> \<^verbatim>\<open>Advanced_Sessions\<close> (\<^verbatim>\<open>advanced_sessions.py\<close>), \<^verbatim>\<open>Session_Control\<close> (\<^verbatim>\<open>handlers/__init__.py\<close>): the store of bearer sessions and its control endpoint (C7, C38).
  \<^item> \<^verbatim>\<open>Http_Io\<close> (\<^verbatim>\<open>http/io.py\<close>), \<^verbatim>\<open>Http_Request\<close> (\<^verbatim>\<open>http/request.py\<close>), \<^verbatim>\<open>Multipart\<close> (\<^verbatim>\<open>http/multipart.py\<close>), \<^verbatim>\<open>Http_Response\<close> (\<^verbatim>\<open>http/response.py\<close>, \<open>_send_response\<close>): from the bytes
    of the stream to a parsed request (C13, C39), multipart bodies (C14), and from a response to the bytes on the wire (C19, C20).
  \<^item> \<^verbatim>\<open>Request_Admission\<close> (\<^verbatim>\<open>request_admission.py\<close>), \<^verbatim>\<open>Method_Registry\<close> (\<^verbatim>\<open>features.py\<close>, \<^verbatim>\<open>extensions.py\<close>, \<^verbatim>\<open>handlers/registry.py\<close>, \<^verbatim>\<open>http/cors.py\<close>), \<^verbatim>\<open>Request_Gates\<close> (\<^verbatim>\<open>server.py\<close>),
    \<^verbatim>\<open>Request_Pipeline\<close> (\<^verbatim>\<open>request_pipeline.py\<close>): who may ask for what. The pipeline composes all of the above into one turn of a connection, a
    trace of events, and C17, C21, C25 and C40 are stated of that whole.
  \<^item> \<^verbatim>\<open>Ws_Frames\<close> (\<^verbatim>\<open>websocket.py\<close>), \<^verbatim>\<open>Ws_Runtime\<close> (\<^verbatim>\<open>websocket_runtime.py\<close>): frames and sessions of WebSockets (C10, C11).
  \<^item> \<^verbatim>\<open>Upload_Storage\<close> (\<^verbatim>\<open>storage.py\<close>): usage, quota, reservations and publishing without overwriting, over a
    directory that others write to as well (C15, C16).
  \<^item> \<^verbatim>\<open>File_Paths\<close> (\<^verbatim>\<open>handlers/base.py\<close>, \<^verbatim>\<open>http/utils.py\<close>), \<^verbatim>\<open>File_Handlers\<close> and \<^verbatim>\<open>File_Safety\<close> (\<^verbatim>\<open>handlers/files.py\<close>): path resolution over a file system with
    symbolic links, GET, HEAD, FETCH, DELETE and the basic upload over \<open>Upload_Storage\<close> and the artifact registry (C8, C9, C27, C37).
  \<^item> \<^verbatim>\<open>Advanced_Payload\<close> (\<^verbatim>\<open>handlers/advanced_payload.py\<close>), \<^verbatim>\<open>Advanced_Upload\<close> (\<^verbatim>\<open>handlers/advanced_upload.py\<close>, \<^verbatim>\<open>security/crypto.py\<close>): the carriers and encodings of
    an advanced upload, its decoding under limits, its integrity check and its decryption, down to the published file (C2, C12).
  \<^item> \<^verbatim>\<open>Encrypted_Transfer\<close> (\<^verbatim>\<open>encrypted_transfer.py\<close>), \<^verbatim>\<open>Encrypted_Storage\<close>, \<^verbatim>\<open>Encrypted_Recovery\<close>, \<^verbatim>\<open>Encrypted_Sidecar\<close> (\<^verbatim>\<open>encrypted_storage.py\<close>), \<^verbatim>\<open>Encrypted_Files\<close>
    (\<^verbatim>\<open>handlers/encrypted_files.py\<close>): chunked encrypted files. The storage is a list of atomic durable actions that a crash may cut anywhere; the
    locale \<open>guarded_disk\<close> lifts a property of single actions to every history with crashes, and is interpreted for the disk
    invariant, for the sidecars and for the durability of a chunk (C18, C22 to C24, C26, C32).
  \<^item> \<^verbatim>\<open>Ecdh_Sessions\<close> (\<^verbatim>\<open>security/keys.py\<close>), \<^verbatim>\<open>Note_Store\<close> (\<^verbatim>\<open>notepad_service.py\<close>): key-exchange sessions, refined from a full-scan
    specification (C28, C29), and the notepad with its two-file replacement and rollback (C33 to C36).
  \<^item> \<^verbatim>\<open>Artifact_Store\<close> (\<^verbatim>\<open>smuggle/store.py\<close>, \<^verbatim>\<open>handlers/context.py\<close>): generated artifacts that are served once (C30, C31), in a directory shared
    with uploads and with DELETE.
  \<^item> \<^verbatim>\<open>Smuggle_Policy\<close>, \<^verbatim>\<open>Smuggle_Request\<close> (\<^verbatim>\<open>smuggle/policy.py\<close>, \<^verbatim>\<open>smuggle/request.py\<close>), \<^verbatim>\<open>Smuggle_Handler\<close> (\<^verbatim>\<open>handlers/smuggle.py\<close>): the query grammar of generated
    pages, whose accepted configurations are exactly the valid ones (C3), and the handler from the source file to the registered artifact
    (\<open>created_page_carries_source\<close>); the text of a page is a parameter.

  \<^bold>\<open>Bounds and termination\<close>

  Loops that the code bounds keep their bound: 64 attempts to publish under a free name, 64 temporary names, 64 live bearer
  sessions, the attempts to draw a token. Loops over a list are structural. Loops over the rest of a buffer
  (\<open>next_delimiter\<close>, \<open>parse_parts\<close>, the frame loop) and \<open>collapse_double\<close> are \<open>function\<close>s whose termination is
  proved by the length that shrinks. A socket loop runs over the list of what its calls of \<open>recv\<close> meet, and a history over
  its list of operations. The draw of a note identifier is the one loop the code does not bound: it runs over the
  list of drawn tokens, and C36 gives the number of draws that is always enough. The resolution of symbolic links may run in a
  circle and is a \<open>partial_function\<close>, where \<open>None\<close> is the circle, which Python reports as an error.

  \<^bold>\<open>What modelling found\<close>

  Two clock readings taken before the lock, out of order, let an expired key-exchange session live on (C29). A plugin method sent in another
  case misses the guard against cross-origin mutations (C25). A linked \<open>index.html\<close> escapes the upload directory (C9). Names
  with a leading dot are accepted and unreachable, those that begin like the service's temporary files are not counted against the quota
  (\<open>service_names_escape_quota\<close>, \<open>service_name_is_stored\<close>), and names of dots only end in an internal error (C37 and below it).
  A chunk index of more than 4300 digits is answered with 500, in the path of an encrypted
  transfer (\<open>long_chunk_index_raises\<close>) and in a field of an advanced upload (\<open>long_chunk_number_raises\<close>),
  and so is such a delay of a generated page (\<open>long_delay_raises\<close>). A response sent from an iterator
  announces the end of the connection and does not end it (\<open>iterator_response_keeps_connection\<close>). A sidecar that is not UTF-8
  fails the whole listing of notes (\<open>list_notes_exact\<close>). DELETE and the clearing of the uploads do not ask whether an
  artifact is being served (\<open>T_Unlink\<close>, C31).

  \<^bold>\<open>Not modelled\<close>

  The installation and management commands (\<^verbatim>\<open>management/\<close>), the command line, the settings files and their
  validation, and the life cycle of the server process are code about systemd, Docker, sockets, threads and files, whose behaviour
  lies in those systems; ACME renewal and the setup of TLS drive third-party services. Metrics and logging have no
  influence on what is modelled. The rendering of generated pages (\<^verbatim>\<open>smuggle/renderer.py\<close>, \<^verbatim>\<open>smuggle/constructor.py\<close>) and the inspection of
  file signatures produce text for people. The transport
  of the notepad, INFO and PING are handlers over stores that are modelled; they are next in line. The tools and tests of the
  repository are not part of the server.
\<close>

end
